(* ===== verification/Prelude.thy ===== *)
theory Prelude
  imports
    Main
    "HOL-Library.Word"
    "HOL-Library.AList"
    "HOL-Library.Char_ord"
    "HOL-Library.List_Lexorder"
    "HOL-Library.Product_Lexorder"
    "HOL-Library.Option_ord"
    "HOL-Library.Monad_Syntax"
    "HOL-Library.Signed_Division"
begin

unbundle bit_operations_syntax

text \<open>
  The vocabulary every component shares: the machine integers of the source, byte strings,
  hash maps as association lists with distinct keys, Rust panics as \<open>None\<close>, and the
  generic list, map and word lemmas the component proofs rest on.
\<close>

section \<open>Machine integers and byte strings\<close>

type_synonym u8 = "8 word"
type_synonym u16 = "16 word"
type_synonym u32 = "32 word"
type_synonym u64 = "64 word"

text \<open>A signed \<open>i64\<close> is a 64-bit word read with \<open>sint\<close>; its addition wraps.\<close>

type_synonym i64 = "64 word"
type_synonym bytes = "u8 list"

text \<open>A monotonic instant (\<open>Instant\<close>) and a duration, both in nanoseconds.\<close>

type_synonym instant = nat
type_synonym duration = nat

abbreviation nanos_per_sec :: nat where
  "nanos_per_sec \<equiv> 1000000000"

text \<open>\<open>b"..."\<close> of the source.\<close>

definition bstr :: "string \<Rightarrow> bytes" where
  "bstr s = map of_char s"

text \<open>
  A \<open>str\<close> is the list of its \<open>char\<close>s, which are Unicode scalar values; \<open>lit\<close> is a literal of the
  source. The order of strings is the one of their characters, as UTF-8 preserves it.
\<close>

type_synonym scalar = u32
type_synonym str = "scalar list"

definition lit :: "string \<Rightarrow> str" where
  "lit s = map of_char s"

text \<open>\<open>u16::to_be_bytes\<close> and \<open>u16::from_be_bytes\<close>.\<close>

definition u16_to_be_bytes :: "u16 \<Rightarrow> bytes" where
  "u16_to_be_bytes w = [ucast (drop_bit 8 w), ucast w]"

definition u16_from_be_bytes :: "u8 \<Rightarrow> u8 \<Rightarrow> u16" where
  "u16_from_be_bytes hi lo = push_bit 8 (ucast hi) OR ucast lo"

section \<open>Hash maps\<close>

text \<open>
  A \<open>HashMap\<close> of the source is an association list whose keys are distinct. Its order
  stands for the unspecified iteration order of the hash map.
\<close>

type_synonym ('k, 'v) hmap = "('k \<times> 'v) list"

abbreviation hm_get :: "('k, 'v) hmap \<Rightarrow> 'k \<Rightarrow> 'v option" where
  "hm_get \<equiv> map_of"

abbreviation hm_insert :: "'k \<Rightarrow> 'v \<Rightarrow> ('k, 'v) hmap \<Rightarrow> ('k, 'v) hmap" where
  "hm_insert \<equiv> AList.update"

abbreviation hm_remove :: "'k \<Rightarrow> ('k, 'v) hmap \<Rightarrow> ('k, 'v) hmap" where
  "hm_remove \<equiv> AList.delete"

definition hm_ok :: "('k, 'v) hmap \<Rightarrow> bool" where
  "hm_ok m = distinct (map fst m)"

definition hm_keys :: "('k, 'v) hmap \<Rightarrow> 'k set" where
  "hm_keys m = fst ` set m"

definition hm_contains :: "('k, 'v) hmap \<Rightarrow> 'k \<Rightarrow> bool" where
  "hm_contains m k = (map_of m k \<noteq> None)"


section \<open>Decimal and hexadecimal numbers\<close>

text \<open>The decimal and the lower-case hexadecimal rendering of an unsigned integer.\<close>

definition digit_char :: "nat \<Rightarrow> char" where
  "digit_char d = char_of (if d < 10 then 48 + d else 87 + d)"

fun nat_to_dec :: "nat \<Rightarrow> string" where
  "nat_to_dec n = (if n < 10 then [digit_char n] else nat_to_dec (n div 10) @ [digit_char (n mod 10)])"

fun nat_to_hex :: "nat \<Rightarrow> string" where
  "nat_to_hex n = (if n < 16 then [digit_char n] else nat_to_hex (n div 16) @ [digit_char (n mod 16)])"

declare nat_to_dec.simps [simp del] nat_to_hex.simps [simp del]

section \<open>Iterators\<close>

text \<open>\<open>slice::chunks_exact\<close>: whole chunks of the given width, the remainder dropped.\<close>

function chunks_exact :: "nat \<Rightarrow> 'a list \<Rightarrow> 'a list list" where
  "chunks_exact w xs =
     (if w = 0 \<or> length xs < w then [] else take w xs # chunks_exact w (drop w xs))"
  by pat_completeness auto
termination
  by (relation "measure (\<lambda>(w, xs). length xs)") auto

declare chunks_exact.simps [simp del]

text \<open>\<open>Iterator::collect\<close> into a \<open>Result\<close>: the first error wins.\<close>

fun collect_result :: "('e + 'a) list \<Rightarrow> 'e + 'a list" where
  "collect_result [] = Inr []"
| "collect_result (Inl e # rs) = Inl e"
| "collect_result (Inr x # rs) = (case collect_result rs of Inl e \<Rightarrow> Inl e | Inr xs \<Rightarrow> Inr (x # xs))"

text \<open>The \<open>?\<close> operator on a \<open>Result\<close>, and \<open>Result::map_err\<close>.\<close>

fun rbind :: "('e + 'a) \<Rightarrow> ('a \<Rightarrow> 'e + 'b) \<Rightarrow> 'e + 'b" where
  "rbind (Inl e) f = Inl e"
| "rbind (Inr x) f = f x"

fun map_err :: "('e \<Rightarrow> 'f) \<Rightarrow> 'e + 'a \<Rightarrow> 'f + 'a" where
  "map_err f (Inl e) = Inl (f e)"
| "map_err f (Inr x) = Inr x"

text \<open>\<open>Option::transpose\<close> after a fallible \<open>map\<close>, and \<open>Option::filter\<close>.\<close>

fun map_transpose :: "('a \<Rightarrow> 'e + 'b) \<Rightarrow> 'a option \<Rightarrow> 'e + 'b option" where
  "map_transpose f None = Inr None"
| "map_transpose f (Some x) = rbind (f x) (\<lambda>y. Inr (Some y))"

definition filter_opt :: "('a \<Rightarrow> bool) \<Rightarrow> 'a option \<Rightarrow> 'a option" where
  "filter_opt p x = (case x of None \<Rightarrow> None | Some y \<Rightarrow> if p y then Some y else None)"

text \<open>The checked operations of \<open>i64\<close>; division truncates towards zero.\<close>

definition in_i64 :: "int \<Rightarrow> bool" where
  "in_i64 i \<longleftrightarrow> - (2 ^ 63) \<le> i \<and> i < 2 ^ 63"

definition i64_checked_add :: "i64 \<Rightarrow> i64 \<Rightarrow> i64 option" where
  "i64_checked_add a b = (if in_i64 (sint a + sint b) then Some (a + b) else None)"

definition i64_checked_mul :: "i64 \<Rightarrow> i64 \<Rightarrow> i64 option" where
  "i64_checked_mul a b = (if in_i64 (sint a * sint b) then Some (a * b) else None)"

definition i64_checked_div :: "i64 \<Rightarrow> i64 \<Rightarrow> i64 option" where
  "i64_checked_div a b =
     (if sint b = 0 \<or> \<not> in_i64 (sint a sdiv sint b) then None
      else Some (word_of_int (sint a sdiv sint b)))"

named_theorems hmap_simps
named_theorems panic_free


section \<open>Byte strings and words\<close>

lemma length_bstr [simp]: "length (bstr s) = length s"
  by (simp add: bstr_def)

lemma bstr_Nil [simp]: "bstr [] = []"
  by (simp add: bstr_def)

lemma inj_of_char_u8: "inj (of_char :: char \<Rightarrow> u8)"
proof (rule injI)
  fix c d :: char
  assume "(of_char c :: u8) = of_char d"
  then have "(of_nat (of_char c) :: u8) = of_nat (of_char d)"
    by (simp only: of_nat_of_char)
  then have "unat (of_nat (of_char c) :: u8) = unat (of_nat (of_char d) :: u8)"
    by (rule arg_cong)
  then have "(of_char c :: nat) = of_char d"
    by (simp only: unat_of_nat) simp
  then show "c = d"
    by simp
qed

lemma bstr_inject [simp]: "bstr a = bstr b \<longleftrightarrow> a = b"
  by (simp add: bstr_def inj_map_eq_map inj_of_char_u8)

lemma bstr_eq_Nil [simp]: "bstr a = [] \<longleftrightarrow> a = []"
  by (simp add: bstr_def)

lemma u16_to_be_bytes_length [simp]: "length (u16_to_be_bytes w) = 2"
  by (simp add: u16_to_be_bytes_def)

lemma u16_be_roundtrip [simp]:
  "u16_from_be_bytes (ucast (drop_bit 8 w)) (ucast w) = w"
  by (rule bit_word_eqI)
    (auto simp: u16_from_be_bytes_def bit_simps)

lemma u16_be_bytes_inverse [simp]:
  "u16_to_be_bytes (u16_from_be_bytes hi lo) = [hi, lo]"
proof -
  have "ucast (drop_bit 8 (push_bit 8 (ucast hi) OR ucast lo :: u16)) = hi"
    by (rule bit_word_eqI) (auto simp: bit_simps dest: bit_imp_le_length)
  moreover have "ucast (push_bit 8 (ucast hi) OR ucast lo :: u16) = lo"
    by (rule bit_word_eqI) (auto simp: bit_simps)
  ultimately show ?thesis
    by (simp add: u16_to_be_bytes_def u16_from_be_bytes_def)
qed

section \<open>Laws of hash maps\<close>

lemma hm_ok_Nil [simp]: "hm_ok []"
  by (simp add: hm_ok_def)

lemma hm_keys_Nil [simp]: "hm_keys [] = {}"
  by (simp add: hm_keys_def)

lemma hm_ok_insert [simp, intro]: "hm_ok m \<Longrightarrow> hm_ok (hm_insert k v m)"
  by (simp add: hm_ok_def distinct_update)

lemma hm_ok_remove [simp, intro]: "hm_ok m \<Longrightarrow> hm_ok (hm_remove k m)"
  by (simp add: hm_ok_def distinct_delete)

lemma hm_keys_insert [simp]: "hm_keys (hm_insert k v m) = insert k (hm_keys m)"
  by (simp add: hm_keys_def dom_update)

lemma hm_keys_remove [simp]: "hm_keys (hm_remove k m) = hm_keys m - {k}"
proof -
  have "set (map fst (hm_remove k m)) = set (map fst m) - {k}"
    by (simp only: delete_keys set_removeAll)
  then show ?thesis
    by (simp add: hm_keys_def)
qed

lemma hm_keys_iff: "k \<in> hm_keys m \<longleftrightarrow> map_of m k \<noteq> None"
  by (simp add: hm_keys_def map_of_eq_None_iff)

lemma hm_contains_iff [simp]: "hm_contains m k \<longleftrightarrow> k \<in> hm_keys m"
  by (simp add: hm_contains_def hm_keys_iff)

lemma hm_get_insert [hmap_simps]: "map_of (hm_insert k v m) = (map_of m)(k \<mapsto> v)"
  by (rule update_conv')

lemma hm_get_remove [hmap_simps]: "map_of (hm_remove k m) = (map_of m)(k := None)"
  by (rule delete_conv')

lemma finite_hm_keys [simp]: "finite (hm_keys m)"
  by (simp add: hm_keys_def)

lemma hm_length: "hm_ok m \<Longrightarrow> length m = card (hm_keys m)"
  using distinct_card [of "map fst m"] by (simp add: hm_ok_def hm_keys_def)

lemma hm_values: "hm_ok m \<Longrightarrow> set (map snd m) = {v. \<exists>k. map_of m k = Some v}"
  by (simp add: hm_ok_def map_of_eq_Some_iff) force

section \<open>Sorting a hash map's contents\<close>

text \<open>
  The source sorts what it reads from a hash map by a key that tells the entries apart;
  the result then depends on the set of entries only, not on the iteration order.
\<close>

lemma sort_key_order_free:
  assumes "inj_on f (set xs)" and "distinct xs" and "distinct ys" and "set xs = set ys"
  shows "sort_key f xs = sort_key f ys"
proof -
  have "map f (sort_key f xs) = map f (sort_key f ys)"
  proof (rule sorted_distinct_set_unique)
    show "distinct (map f (sort_key f xs))" "distinct (map f (sort_key f ys))"
      using assms by (simp_all add: distinct_map)
  qed (simp_all add: assms(4))
  moreover have "inj_on f (set (sort_key f xs) \<union> set (sort_key f ys))"
    using assms(1,4) by simp
  ultimately show ?thesis
    by (rule map_inj_on)
qed

lemma take_sorted_bound:
  assumes "sorted (map f xs)" and "x \<in> set (take n xs)" and "y \<in> set (drop n xs)"
  shows "f x \<le> f y"
proof -
  have "sorted (map f (take n xs) @ map f (drop n xs))"
    using assms(1) by (simp flip: map_append)
  then show ?thesis
    using assms(2,3) by (auto simp: sorted_append)
qed


section \<open>Laws of chunks and collected results\<close>

lemma chunks_exact_Nil [simp]: "chunks_exact w [] = []"
  by (subst chunks_exact.simps) auto

lemma chunks_exact_append:
  assumes "length x = w" and "0 < w"
  shows "chunks_exact w (x @ xs) = x # chunks_exact w xs"
  using assms by (subst chunks_exact.simps) auto

lemma chunks_exact_concat:
  assumes "0 < w" and "\<And>x. x \<in> set xss \<Longrightarrow> length x = w"
  shows "chunks_exact w (concat xss) = xss"
  using assms(2) by (induction xss) (simp_all add: chunks_exact_append assms(1))

lemma concat_chunks_exact:
  assumes "0 < w"
  shows "w dvd length xs \<Longrightarrow> concat (chunks_exact w xs) = xs"
proof (induction w xs rule: chunks_exact.induct)
  case (1 w xs)
  show ?case
  proof (cases "w = 0 \<or> length xs < w")
    case True
    with "1.prems" assms have "xs = []"
      by (metis dvd_0_left length_0_conv less_not_refl nat_dvd_not_less neq0_conv)
    then show ?thesis by simp
  next
    case False
    with 1 have "concat (chunks_exact w (drop w xs)) = drop w xs"
      by (simp add: dvd_diff_nat)
    with False show ?thesis
      by (simp add: chunks_exact.simps [of w xs])
  qed
qed

lemma chunks_exact_length: "x \<in> set (chunks_exact w xs) \<Longrightarrow> length x = w"
  by (induction w xs rule: chunks_exact.induct)
    (subst (asm) (2) chunks_exact.simps, auto split: if_splits)

lemma collect_result_Inr_map: "collect_result (map (Inr \<circ> f) xs) = Inr (map f xs)"
  by (induction xs) auto

lemma collect_result_map_ok:
  assumes "\<And>x. x \<in> set xs \<Longrightarrow> f x = Inr (g x)"
  shows "collect_result (map f xs) = Inr (map g xs)"
  using assms by (induction xs) auto

lemma collect_result_Inr:
  "collect_result rs = Inr xs \<Longrightarrow> rs = map Inr xs"
  by (induction rs arbitrary: xs rule: collect_result.induct) (auto split: sum.splits)

lemma collect_result_Cons:
  "collect_result (r # rs) = Inr xs \<longleftrightarrow> (\<exists>z zs. r = Inr z \<and> collect_result rs = Inr zs \<and> xs = z # zs)"
  by (cases r) (auto split: sum.splits)

lemma rbind_Inr: "(rbind r k = Inr v) = (\<exists>u. r = Inr u \<and> k u = Inr v)"
  by (cases r) auto

lemma rbind_cong [fundef_cong]:
  "\<lbrakk>r = r'; \<And>u. r' = Inr u \<Longrightarrow> k u = k' u\<rbrakk> \<Longrightarrow> rbind r k = rbind r' k'"
  by (cases r') simp_all

lemma rbind_assoc [simp]: "rbind (rbind m f) g = rbind m (\<lambda>x. rbind (f x) g)"
  by (cases m) simp_all

lemma map_transpose_Inr:
  "(\<And>x. v = Some x \<Longrightarrow> f x = Inr (h x)) \<Longrightarrow> map_transpose f v = Inr (map_option h v)"
  by (cases v) simp_all

lemma map_err_Inr [simp]: "map_err f m = Inr y \<longleftrightarrow> m = Inr y"
  by (cases m) auto

lemma filter_opt_simps [simp]:
  "filter_opt p None = None" "filter_opt p (Some y) = (if p y then Some y else None)"
  by (simp_all add: filter_opt_def)

lemma filter_opt_idem [simp]: "filter_opt p (filter_opt p x) = filter_opt p x"
  by (cases x) simp_all

section \<open>Laws of checked arithmetic\<close>

lemma in_i64_sint [simp]: "in_i64 (sint (a :: i64))"
  using sint_ge [of a] sint_lt [of a] by (simp add: in_i64_def)

lemma sint_word_of_int_i64: "in_i64 i \<Longrightarrow> sint (word_of_int i :: i64) = i"
  by (simp add: in_i64_def sint_sbintrunc' signed_take_bit_int_eq_self)

lemma i64_checked_add_Some:
  "i64_checked_add a b = Some c \<longleftrightarrow> in_i64 (sint a + sint b) \<and> sint c = sint a + sint b"
proof -
  have "sint (a + b) = sint a + sint b" if "in_i64 (sint a + sint b)"
    using that by (simp add: in_i64_def sint_word_ariths signed_take_bit_int_eq_self)
  then show ?thesis
    by (simp add: i64_checked_add_def) (metis signed_word_eqI)
qed

lemma i64_checked_mul_Some:
  "i64_checked_mul a b = Some c \<longleftrightarrow> in_i64 (sint a * sint b) \<and> sint c = sint a * sint b"
proof -
  have "sint (a * b) = sint a * sint b" if "in_i64 (sint a * sint b)"
    using that by (simp add: in_i64_def sint_word_ariths signed_take_bit_int_eq_self)
  then show ?thesis
    by (simp add: i64_checked_mul_def) (metis signed_word_eqI)
qed

section \<open>Panics\<close>

text \<open>A Rust panic is \<open>None\<close>; code that panics at a step does not run the next one.\<close>

lemma bind_eq_Some [panic_free]:
  "Option.bind m f = Some y \<longleftrightarrow> (\<exists>x. m = Some x \<and> f x = Some y)"
  by (cases m) auto

end
