(* ===== verification/Net_Addr.thy ===== *)
theory Net_Addr
  imports Prelude
begin

text \<open>
  The part of \<open>std::net\<close> the DHT uses: IPv4 and IPv6 addresses, socket addresses with
  port, flow information and scope, the IPv4-mapped test, and the textual forms of
  \<open>Display\<close>, which the table sorts by and the announce token hashes.
\<close>

section \<open>Addresses\<close>

datatype ipv4_addr = Ipv4Addr u8 u8 u8 u8

primrec v4_octets :: "ipv4_addr \<Rightarrow> bytes" where
  "v4_octets (Ipv4Addr a b c d) = [a, b, c, d]"

typedef ipv6_addr = "{bs :: bytes. length bs = 16}"
  morphisms v6_octets Ipv6Addr
  by (rule exI [of _ "replicate 16 0"]) simp

datatype ip_addr = IpV4 ipv4_addr | IpV6 ipv6_addr

fun is_ipv6 :: "ip_addr \<Rightarrow> bool" where
  "is_ipv6 (IpV4 _) = False"
| "is_ipv6 (IpV6 _) = True"

datatype socket_addr =
  SocketV4 ipv4_addr u16
| SocketV6 ipv6_addr u16 u32 u32 \<comment> \<open>address, port, flow information, scope\<close>

fun socket_ip :: "socket_addr \<Rightarrow> ip_addr" where
  "socket_ip (SocketV4 ip _) = IpV4 ip"
| "socket_ip (SocketV6 ip _ _ _) = IpV6 ip"

fun socket_port :: "socket_addr \<Rightarrow> u16" where
  "socket_port (SocketV4 _ port) = port"
| "socket_port (SocketV6 _ port _ _) = port"

text \<open>\<open>Ipv6Addr::to_ipv4_mapped\<close>: the \<open>::ffff:a.b.c.d\<close> block only.\<close>

definition to_ipv4_mapped :: "ipv6_addr \<Rightarrow> ipv4_addr option" where
  "to_ipv4_mapped ip =
     (let bs = v6_octets ip
      in if take 12 bs = replicate 10 0 @ [255, 255]
         then Some (Ipv4Addr (bs ! 12) (bs ! 13) (bs ! 14) (bs ! 15))
         else None)"

definition to_ipv6_mapped :: "ipv4_addr \<Rightarrow> ipv6_addr" where
  "to_ipv6_mapped ip = Ipv6Addr (replicate 10 0 @ [255, 255] @ v4_octets ip)"

section \<open>Textual forms\<close>

definition u8_to_dec :: "u8 \<Rightarrow> string" where
  "u8_to_dec b = nat_to_dec (unat b)"

primrec v4_to_string :: "ipv4_addr \<Rightarrow> string" where
  "v4_to_string (Ipv4Addr a b c d) =
     u8_to_dec a @ ''.'' @ u8_to_dec b @ ''.'' @ u8_to_dec c @ ''.'' @ u8_to_dec d"

fun v6_segments :: "bytes \<Rightarrow> u16 list" where
  "v6_segments (hi # lo # bs) = u16_from_be_bytes hi lo # v6_segments bs"
| "v6_segments _ = []"

text \<open>
  The longest run of zero segments, the first one on a tie, as \<open>(start, len)\<close>; \<open>i\<close>
  is the index of the segment at hand.
\<close>

fun longest_zeroes :: "nat \<Rightarrow> nat \<times> nat \<Rightarrow> nat \<times> nat \<Rightarrow> u16 list \<Rightarrow> nat \<times> nat" where
  "longest_zeroes i current longest [] = longest"
| "longest_zeroes i (cs, cl) (ls, ll) (s # ss) =
     (if s = 0 then
        (let current = (if cl = 0 then i else cs, cl + 1);
             longest = (if snd current > ll then current else (ls, ll))
         in longest_zeroes (i + 1) current longest ss)
      else longest_zeroes (i + 1) (0, 0) (ls, ll) ss)"

fun fmt_subslice :: "u16 list \<Rightarrow> string" where
  "fmt_subslice [] = []"
| "fmt_subslice (first # tail) =
     nat_to_hex (unat first) @ concat (map (\<lambda>s. '':'' @ nat_to_hex (unat s)) tail)"

definition v6_to_string :: "ipv6_addr \<Rightarrow> string" where
  "v6_to_string ip =
     (case to_ipv4_mapped ip of
        Some v4 \<Rightarrow> ''::ffff:'' @ v4_to_string v4
      | None \<Rightarrow>
          (let segments = v6_segments (v6_octets ip);
               (start, len) = longest_zeroes 0 (0, 0) (0, 0) segments
           in if len > 1
              then fmt_subslice (take start segments) @ ''::'' @ fmt_subslice (drop (start + len) segments)
              else fmt_subslice segments))"

fun socket_to_string :: "socket_addr \<Rightarrow> string" where
  "socket_to_string (SocketV4 ip port) = v4_to_string ip @ '':'' @ nat_to_dec (unat port)"
| "socket_to_string (SocketV6 ip port _ scope) =
     (if scope = 0 then ''['' @ v6_to_string ip @ '']:'' @ nat_to_dec (unat port)
      else ''['' @ v6_to_string ip @ ''%'' @ nat_to_dec (unat scope) @ '']:'' @ nat_to_dec (unat port))"

section \<open>Lemmas\<close>

lemma v4_octets_length [simp]: "length (v4_octets ip) = 4"
  by (cases ip) simp

lemma v6_octets_length [simp]: "length (v6_octets ip) = 16"
  using v6_octets [of ip] by simp

lemma v6_octets_Ipv6Addr [simp]: "length bs = 16 \<Longrightarrow> v6_octets (Ipv6Addr bs) = bs"
  by (simp add: Ipv6Addr_inverse)

lemma to_ipv4_mapped_inverse: "to_ipv4_mapped (to_ipv6_mapped ip) = Some ip"
  by (cases ip) (simp add: to_ipv4_mapped_def to_ipv6_mapped_def eval_nat_numeral)

end
