(* ===== verification/Compact.thy ===== *)
theory Compact
  imports Net_Addr
begin

text \<open>
  \<open>bitmagnet-dht/src/compact.rs\<close>: 20-byte identifiers and the compact wire forms of
  addresses, nodes and info-hash samples.
\<close>

section \<open>Data\<close>

text \<open>\<open>Id20([u8; 20])\<close>.\<close>

typedef id20 = "{bs :: bytes. length bs = 20}"
  morphisms as_bytes Id20
  by (rule exI [of _ "replicate 20 0"]) simp

definition id20_ZERO :: id20 where
  "id20_ZERO = Id20 (replicate 20 0)"

datatype compact_codec_error =
  InvalidIdLength nat
| InvalidIdHex
| InvalidAddressLength nat
| InvalidNodeLength nat
| MisalignedNodeList nat nat
| MisalignedInfoHashes nat
| WrongAddressFamily string

record compact_addr =
  ca_ip :: ip_addr
  ca_port :: u16

record compact_node =
  cn_id :: id20
  cn_addr :: compact_addr

text \<open>The derived \<open>Ord\<close> of \<open>Id20\<close> is the lexicographic order of the bytes.\<close>

instantiation id20 :: linorder
begin

definition less_eq_id20 :: "id20 \<Rightarrow> id20 \<Rightarrow> bool" where
  "less_eq_id20 a b \<longleftrightarrow> as_bytes a \<le> as_bytes b"

definition less_id20 :: "id20 \<Rightarrow> id20 \<Rightarrow> bool" where
  "less_id20 a b \<longleftrightarrow> as_bytes a < as_bytes b"

instance
  by standard (auto simp: less_eq_id20_def less_id20_def as_bytes_inject less_le)

end

section \<open>Operations\<close>

definition from_slice :: "bytes \<Rightarrow> compact_codec_error + id20" where
  "from_slice v = (if length v = 20 then Inr (Id20 v) else Inl (InvalidIdLength (length v)))"

text \<open>\<open>hex::decode\<close> and \<open>hex::encode\<close> of the external \<open>hex\<close> crate are arguments.\<close>

definition from_hex :: "(string \<Rightarrow> bytes option) \<Rightarrow> string \<Rightarrow> compact_codec_error + id20" where
  "from_hex hex_decode v =
     (if length v \<noteq> 40 \<or> list_ex (\<lambda>c. c \<notin> set ''0123456789'' \<and> c \<notin> set ''abcdef'') v
      then Inl InvalidIdHex
      else (case hex_decode v of
              None \<Rightarrow> Inl InvalidIdHex
            | Some decoded \<Rightarrow> from_slice decoded))"

definition to_hex :: "(bytes \<Rightarrow> string) \<Rightarrow> id20 \<Rightarrow> string" where
  "to_hex hex_encode i = hex_encode (as_bytes i)"

definition compact_addr_encode :: "compact_addr \<Rightarrow> bytes" where
  "compact_addr_encode a =
     (case ca_ip a of IpV4 ip \<Rightarrow> v4_octets ip | IpV6 ip \<Rightarrow> v6_octets ip)
       @ u16_to_be_bytes (ca_port a)"

definition compact_addr_decode :: "bytes \<Rightarrow> compact_codec_error + compact_addr" where
  "compact_addr_decode v =
     (if length v = 6 then
        Inr \<lparr>ca_ip = IpV4 (Ipv4Addr (v ! 0) (v ! 1) (v ! 2) (v ! 3)),
             ca_port = u16_from_be_bytes (v ! 4) (v ! 5)\<rparr>
      else if length v = 18 then
        Inr \<lparr>ca_ip = IpV6 (Ipv6Addr (take 16 v)),
             ca_port = u16_from_be_bytes (v ! 16) (v ! 17)\<rparr>
      else Inl (InvalidAddressLength (length v)))"

definition compact_node_encode :: "compact_node \<Rightarrow> bytes" where
  "compact_node_encode n = as_bytes (cn_id n) @ compact_addr_encode (cn_addr n)"

definition compact_node_decode :: "bytes \<Rightarrow> compact_codec_error + compact_node" where
  "compact_node_decode v =
     (if length v \<noteq> 26 \<and> length v \<noteq> 38 then Inl (InvalidNodeLength (length v))
      else case from_slice (take 20 v) of
             Inl e \<Rightarrow> Inl e
           | Inr i \<Rightarrow>
               (case compact_addr_decode (drop 20 v) of
                  Inl e \<Rightarrow> Inl e
                | Inr a \<Rightarrow> Inr \<lparr>cn_id = i, cn_addr = a\<rparr>))"

fun encode_nodes :: "compact_node list \<Rightarrow> bool \<Rightarrow> compact_codec_error + bytes" where
  "encode_nodes [] ipv6 = Inr []"
| "encode_nodes (node # nodes) ipv6 =
     (if is_ipv6 (ca_ip (cn_addr node)) \<noteq> ipv6
      then Inl (WrongAddressFamily (if ipv6 then ''IPv6'' else ''IPv4''))
      else case encode_nodes nodes ipv6 of
             Inl e \<Rightarrow> Inl e
           | Inr output \<Rightarrow> Inr (compact_node_encode node @ output))"

definition decode_nodes :: "bytes \<Rightarrow> bool \<Rightarrow> compact_codec_error + compact_node list" where
  "decode_nodes v ipv6 =
     (let width = (if ipv6 then 38 else 26)
      in if length v mod width \<noteq> 0 then Inl (MisalignedNodeList (length v) width)
         else collect_result (map compact_node_decode (chunks_exact width v)))"

definition encode_samples :: "id20 list \<Rightarrow> bytes" where
  "encode_samples samples = concat (map as_bytes samples)"

definition decode_samples :: "bytes \<Rightarrow> compact_codec_error + id20 list" where
  "decode_samples v =
     (if length v mod 20 \<noteq> 0 then Inl (MisalignedInfoHashes (length v))
      else Inr (map Id20 (chunks_exact 20 v)))"


section \<open>Identifiers\<close>

lemma as_bytes_length [simp]: "length (as_bytes i) = 20"
  using as_bytes [of i] by simp

lemma as_bytes_Id20 [simp]: "length bs = 20 \<Longrightarrow> as_bytes (Id20 bs) = bs"
  by (simp add: Id20_inverse)

lemma id20_eq_iff: "a = b \<longleftrightarrow> as_bytes a = as_bytes b"
  by (simp add: as_bytes_inject)

lemma as_bytes_ZERO [simp]: "as_bytes id20_ZERO = replicate 20 0"
  by (simp add: id20_ZERO_def)

lemma from_slice_as_bytes [simp]: "from_slice (as_bytes i) = Inr i"
  by (simp add: from_slice_def as_bytes_inverse)

lemma from_slice_Inr_iff: "from_slice v = Inr i \<longleftrightarrow> v = as_bytes i"
  by (auto simp: from_slice_def as_bytes_inverse)

section \<open>Round trips\<close>

lemma compact_addr_encode_length:
  "length (compact_addr_encode a) = (if is_ipv6 (ca_ip a) then 18 else 6)"
  by (simp add: compact_addr_encode_def split: ip_addr.split)

lemma compact_addr_roundtrip [simp]: "compact_addr_decode (compact_addr_encode a) = Inr a"
proof (cases "ca_ip a")
  case (IpV4 ip)
  then show ?thesis
    by (cases ip) (simp add: compact_addr_encode_def compact_addr_decode_def u16_to_be_bytes_def)
next
  case (IpV6 ip)
  then show ?thesis
    by (simp add: compact_addr_encode_def compact_addr_decode_def u16_to_be_bytes_def nth_append
        v6_octets_inverse)
qed

lemma list_of_6: "length v = 6 \<Longrightarrow> v = [v ! 0, v ! 1, v ! 2, v ! 3, v ! 4, v ! 5]"
  by (auto simp: numeral_eq_Suc length_Suc_conv)

lemma list_of_18: "length v = 18 \<Longrightarrow> v = take 16 v @ [v ! 16, v ! 17]"
  by (auto simp: numeral_eq_Suc length_Suc_conv)

lemma compact_addr_decode_Inr:
  assumes "compact_addr_decode v = Inr a"
  shows "compact_addr_encode a = v"
proof (cases "length v = 6")
  case True
  then show ?thesis
    using assms list_of_6 [OF True]
    by (auto simp: compact_addr_decode_def compact_addr_encode_def)
next
  case False
  with assms have len: "length v = 18"
    by (auto simp: compact_addr_decode_def split: if_splits)
  then show ?thesis
    using assms list_of_18 [OF len]
    by (auto simp: compact_addr_decode_def compact_addr_encode_def)
qed

lemma compact_addr_decode_iff: "compact_addr_decode v = Inr a \<longleftrightarrow> v = compact_addr_encode a"
  using compact_addr_decode_Inr by auto

lemma compact_node_encode_length:
  "length (compact_node_encode n) = (if is_ipv6 (ca_ip (cn_addr n)) then 38 else 26)"
  by (simp add: compact_node_encode_def compact_addr_encode_length)

lemma compact_node_roundtrip [simp]: "compact_node_decode (compact_node_encode n) = Inr n"
  by (simp add: compact_node_decode_def compact_node_encode_length)
    (simp add: compact_node_encode_def)

lemma compact_node_decode_iff: "compact_node_decode v = Inr n \<longleftrightarrow> v = compact_node_encode n"
proof
  assume *: "compact_node_decode v = Inr n"
  then have "take 20 v = as_bytes (cn_id n)" and "drop 20 v = compact_addr_encode (cn_addr n)"
    by (auto simp: compact_node_decode_def from_slice_Inr_iff compact_addr_decode_iff
        split: if_splits sum.splits)
  then show "v = compact_node_encode n"
    by (metis append_take_drop_id compact_node_encode_def)
qed simp

lemma encode_nodes_Inr_iff:
  "encode_nodes ns ipv6 = Inr v \<longleftrightarrow>
     (\<forall>n \<in> set ns. is_ipv6 (ca_ip (cn_addr n)) = ipv6) \<and> v = concat (map compact_node_encode ns)"
proof (induction ns arbitrary: v)
  case Nil
  then show ?case by auto
next
  case (Cons n ns)
  show ?case
  proof (cases "encode_nodes ns ipv6")
    case (Inl e)
    with Cons [of "concat (map compact_node_encode ns)"] show ?thesis by auto
  next
    case (Inr bs)
    with Cons [of bs] show ?thesis by auto
  qed
qed

lemma decode_nodes_total:
  assumes "length v mod (if ipv6 then 38 else 26) = 0"
  shows "\<exists>ns. decode_nodes v ipv6 = Inr ns"
proof -
  let ?w = "if ipv6 then 38 else 26 :: nat"
  have "\<exists>n. compact_node_decode c = Inr n" if "c \<in> set (chunks_exact ?w v)" for c
    using chunks_exact_length [OF that]
    by (auto simp: compact_node_decode_def from_slice_def compact_addr_decode_def split: if_splits)
  then have "\<exists>g. \<forall>c \<in> set (chunks_exact ?w v). compact_node_decode c = Inr (g c)"
    by (intro bchoice) auto
  then obtain g where "\<And>c. c \<in> set (chunks_exact ?w v) \<Longrightarrow> compact_node_decode c = Inr (g c)"
    by blast
  then show ?thesis
    using assms by (auto simp: decode_nodes_def collect_result_map_ok simp del: if_split)
qed

lemma decode_nodes_iff:
  "decode_nodes v ipv6 = Inr ns \<longleftrightarrow> encode_nodes ns ipv6 = Inr v"
proof
  assume *: "decode_nodes v ipv6 = Inr ns"
  let ?w = "if ipv6 then 38 else 26 :: nat"
  have dvd: "?w dvd length v" and
    dec: "collect_result (map compact_node_decode (chunks_exact ?w v)) = Inr ns"
    using * by (auto simp: decode_nodes_def split: if_splits)
  from dec have "map compact_node_decode (chunks_exact ?w v) = map Inr ns"
    by (rule collect_result_Inr)
  then have chunks: "chunks_exact ?w v = map compact_node_encode ns"
    by (auto simp: list_eq_iff_nth_eq compact_node_decode_iff dest: map_eq_imp_length_eq)
  have "is_ipv6 (ca_ip (cn_addr n)) = ipv6" if "n \<in> set ns" for n
    using that chunks_exact_length [of "compact_node_encode n" ?w v]
    by (auto simp: chunks compact_node_encode_length split: if_splits)
  moreover have "v = concat (map compact_node_encode ns)"
    using concat_chunks_exact [OF _ dvd] chunks by (simp split: if_splits)
  ultimately show "encode_nodes ns ipv6 = Inr v"
    by (simp add: encode_nodes_Inr_iff)
next
  assume *: "encode_nodes ns ipv6 = Inr v"
  let ?w = "if ipv6 then 38 else 26 :: nat"
  have v: "v = concat (map compact_node_encode ns)"
    and len: "\<And>n. n \<in> set ns \<Longrightarrow> length (compact_node_encode n) = ?w"
    using * by (auto simp: encode_nodes_Inr_iff compact_node_encode_length)
  have chunks: "chunks_exact ?w v = map compact_node_encode ns"
    unfolding v by (rule chunks_exact_concat) (use len in auto)
  have "length v mod ?w = 0"
    using len unfolding v by (induction ns) (auto split: if_splits)
  then show "decode_nodes v ipv6 = Inr ns"
    using chunks collect_result_map_ok [of ns "compact_node_decode \<circ> compact_node_encode" id]
    by (simp add: decode_nodes_def Let_def)
qed

lemma sample_list_codec_exact: "decode_samples v = Inr ids \<longleftrightarrow> v = encode_samples ids"
proof
  assume *: "decode_samples v = Inr ids"
  then have dvd: "20 dvd length v" and ids: "ids = map Id20 (chunks_exact 20 v)"
    by (auto simp: decode_samples_def split: if_splits)
  have "map as_bytes ids = chunks_exact 20 v"
    unfolding ids by (auto simp: map_idI chunks_exact_length)
  then show "v = encode_samples ids"
    using concat_chunks_exact [OF _ dvd] by (simp add: encode_samples_def)
next
  assume v: "v = encode_samples ids"
  have "length v = 20 * length ids"
    unfolding v encode_samples_def by (induction ids) auto
  moreover have "chunks_exact 20 v = map as_bytes ids"
    unfolding v encode_samples_def by (rule chunks_exact_concat) auto
  ultimately show "decode_samples v = Inr ids"
    by (simp add: decode_samples_def comp_def as_bytes_inverse)
qed

text \<open>
  (C37) The compact list codecs are exact: a byte string decodes to a list of nodes, or of
  info-hash samples, if and only if that list encodes to that byte string, for either address
  family. So encoding and
  decoding are inverse to each other, and no two byte strings denote the same list.
\<close>

theorem node_list_codec_exact:
  "(decode_nodes v ipv6 = Inr ns \<longleftrightarrow> encode_nodes ns ipv6 = Inr v)
   \<and> (decode_samples v = Inr ids \<longleftrightarrow> encode_samples ids = v)"
  by (auto simp: decode_nodes_iff sample_list_codec_exact)

end
