(* ===== verification/Scrape_Bloom.thy ===== *)
theory Scrape_Bloom
  imports Prelude
begin

text \<open>
  \<open>bitmagnet-dht/src/scrape.rs\<close>: the BEP-33 scrape filter of 2,048 bits with two indexes taken
  from a SHA-1 digest. The digest function of the external crate is an argument. The two
  floating-point size estimates are left out; they read the filter through \<open>count_zeroes\<close> only.
\<close>

section \<open>Model\<close>

abbreviation SCRAPE_BLOOM_BYTES :: nat where
  "SCRAPE_BLOOM_BYTES \<equiv> 256"

abbreviation SCRAPE_BLOOM_BITS :: nat where
  "SCRAPE_BLOOM_BITS \<equiv> SCRAPE_BLOOM_BYTES * 8"

typedef scrape_bloom_filter = "{bs :: bytes. length bs = SCRAPE_BLOOM_BYTES}"
  morphisms bloom_bytes Scrape_Bloom_Filter
  by (rule exI [of _ "replicate SCRAPE_BLOOM_BYTES 0"]) simp

definition scrape_bloom_EMPTY :: scrape_bloom_filter where
  "scrape_bloom_EMPTY = Scrape_Bloom_Filter (replicate SCRAPE_BLOOM_BYTES 0)"

datatype scrape_bloom_error = InvalidBloomLength nat

definition bloom_from_slice :: "bytes \<Rightarrow> scrape_bloom_error + scrape_bloom_filter" where
  "bloom_from_slice v =
     (if length v = SCRAPE_BLOOM_BYTES then Inr (Scrape_Bloom_Filter v)
      else Inl (InvalidBloomLength (length v)))"

definition set_index :: "scrape_bloom_filter \<Rightarrow> nat \<Rightarrow> scrape_bloom_filter" where
  "set_index f index0 =
     (let index = index0 mod SCRAPE_BLOOM_BITS; bs = bloom_bytes f
      in Scrape_Bloom_Filter (bs[index div 8 := (bs ! (index div 8)) OR push_bit (index mod 8) 1]))"

text \<open>The index of two little-endian digest bytes.\<close>

definition digest_index :: "u8 \<Rightarrow> u8 \<Rightarrow> nat" where
  "digest_index lo hi = unat lo OR push_bit 8 (unat hi)"

definition add_ip_bytes :: "(bytes \<Rightarrow> bytes) \<Rightarrow> scrape_bloom_filter \<Rightarrow> bytes \<Rightarrow> scrape_bloom_filter" where
  "add_ip_bytes sha1 f ip =
     (let digest = sha1 ip
      in set_index (set_index f (digest_index (digest ! 0) (digest ! 1)))
           (digest_index (digest ! 2) (digest ! 3)))"

definition u8_count_zeros :: "u8 \<Rightarrow> nat" where
  "u8_count_zeros b = length (filter (\<lambda>i. \<not> bit b i) [0..<8])"

definition count_zeroes :: "scrape_bloom_filter \<Rightarrow> nat" where
  "count_zeroes f = sum_list (map u8_count_zeros (bloom_bytes f))"

section \<open>The filter as a set of bits\<close>

definition bloom_bits :: "scrape_bloom_filter \<Rightarrow> nat set" where
  "bloom_bits f = {i. i < SCRAPE_BLOOM_BITS \<and> bit (bloom_bytes f ! (i div 8)) (i mod 8)}"

lemma bloom_bytes_length [simp]: "length (bloom_bytes f) = SCRAPE_BLOOM_BYTES"
  using bloom_bytes [of f] by simp

lemma bloom_bytes_inverse' [simp]:
  "length bs = SCRAPE_BLOOM_BYTES \<Longrightarrow> bloom_bytes (Scrape_Bloom_Filter bs) = bs"
  by (simp add: Scrape_Bloom_Filter_inverse)

lemma bloom_from_slice_bytes [simp]: "bloom_from_slice (bloom_bytes f) = Inr f"
  by (simp add: bloom_from_slice_def bloom_bytes_inverse)

lemma bloom_from_slice_Inr: "bloom_from_slice v = Inr f \<longleftrightarrow> bloom_bytes f = v"
  by (auto simp: bloom_from_slice_def bloom_bytes_inverse split: if_splits)

lemma bloom_bits_EMPTY: "bloom_bits scrape_bloom_EMPTY = {}"
  by (auto simp: bloom_bits_def scrape_bloom_EMPTY_def)

lemma bloom_bits_set_index: "bloom_bits (set_index f i) = insert (i mod SCRAPE_BLOOM_BITS) (bloom_bits f)"
proof (rule set_eqI)
  fix j
  let ?i = "i mod SCRAPE_BLOOM_BITS"
  have i: "?i div 8 < SCRAPE_BLOOM_BYTES" by (simp add: div_less_iff_less_mult)
  show "j \<in> bloom_bits (set_index f i) \<longleftrightarrow> j \<in> insert ?i (bloom_bits f)"
  proof (cases "j < SCRAPE_BLOOM_BITS")
    case False
    then show ?thesis by (auto simp: bloom_bits_def)
  next
    case True
    have "j = ?i \<longleftrightarrow> j div 8 = ?i div 8 \<and> j mod 8 = ?i mod 8"
      by (metis div_mult_mod_eq)
    then show ?thesis
      using True i
      by (auto simp: bloom_bits_def set_index_def Let_def nth_list_update bit_simps)
  qed
qed

lemma count_zeros_card: "u8_count_zeros b = 8 - card {k. k < 8 \<and> bit b k}"
proof -
  have "card {k. k < 8 \<and> \<not> bit b k} + card {k. k < 8 \<and> bit b k} =
      card ({k. k < 8 \<and> \<not> bit b k} \<union> {k. k < 8 \<and> bit b k})"
    by (rule card_Un_disjoint [symmetric]) auto
  also have "{k. k < 8 \<and> \<not> bit b k} \<union> {k. k < 8 \<and> bit b k} = {k. k < 8}"
    by auto
  finally have "card {k. k < 8 \<and> \<not> bit b k} + card {k. k < 8 \<and> bit b k} = 8"
    by simp
  moreover have "u8_count_zeros b = card {k. k < 8 \<and> \<not> bit b k}"
    using distinct_card [of "filter (\<lambda>i. \<not> bit b i) [0..<8]"]
    by (simp add: u8_count_zeros_def conj_commute)
  ultimately show ?thesis by simp
qed

lemma bits_of_bytes:
  "card {i. i < 8 * length bs \<and> bit (bs ! (i div 8)) (i mod 8)} =
   sum_list (map (\<lambda>b :: u8. card {k. k < 8 \<and> bit b k}) bs)"
proof (induction bs rule: rev_induct)
  case (snoc b bs)
  let ?n = "8 * length bs"
  have "{i. i < 8 * length (bs @ [b]) \<and> bit ((bs @ [b]) ! (i div 8)) (i mod 8)} =
      {i. i < ?n \<and> bit (bs ! (i div 8)) (i mod 8)} \<union> (\<lambda>k. ?n + k) ` {k. k < 8 \<and> bit b k}"
    (is "?L = ?A \<union> ?B")
  proof (rule set_eqI)
    fix i
    show "i \<in> ?L \<longleftrightarrow> i \<in> ?A \<union> ?B"
    proof (cases "i < ?n")
      case True
      then have "i div 8 < length bs" by (simp add: div_less_iff_less_mult)
      with True show ?thesis by (auto simp: nth_append)
    next
      case False
      then obtain k where k: "i = ?n + k" by (metis le_iff_add not_less)
      then show ?thesis by (cases "k < 8") (auto simp: nth_append)
    qed
  qed
  moreover have "?A \<inter> ?B = {}" by auto
  moreover have "card ?B = card {k. k < 8 \<and> bit b k}"
    by (rule card_image) (simp add: inj_on_def)
  ultimately show ?case
    using snoc by (simp add: card_Un_disjoint)
qed simp

lemma count_zeroes_bits: "count_zeroes f = SCRAPE_BLOOM_BITS - card (bloom_bits f)"
proof -
  let ?ones = "\<lambda>b :: u8. card {k. k < 8 \<and> bit b k}"
  have "sum_list (map u8_count_zeros bs) + sum_list (map ?ones bs) = 8 * length bs" for bs
  proof (induction bs)
    case (Cons b bs)
    have "?ones b \<le> card {k. k < (8::nat)}" by (rule card_mono) auto
    with Cons show ?case by (simp add: count_zeros_card)
  qed simp
  from this [of "bloom_bytes f"] bits_of_bytes [of "bloom_bytes f"] show ?thesis
    by (simp add: count_zeroes_def bloom_bits_def)
qed

section \<open>Property\<close>

text \<open>
  The scrape filter is a set of 2,048 bits. Inserting an address sets exactly the two
  digest-derived bits, never clears one, and the zero count the size estimates read is the number
  of bits still clear.
\<close>

theorem scrape_bloom_insert_exact:
  "bloom_bits (add_ip_bytes sha1 f ip) =
     {digest_index (sha1 ip ! 0) (sha1 ip ! 1) mod 2048, digest_index (sha1 ip ! 2) (sha1 ip ! 3) mod 2048}
       \<union> bloom_bits f
   \<and> count_zeroes (add_ip_bytes sha1 f ip) = 2048 - card (bloom_bits (add_ip_bytes sha1 f ip))"
  by (auto simp: add_ip_bytes_def Let_def bloom_bits_set_index count_zeroes_bits)

end
