(* ===== verification/Ordered_Map.thy ===== *)
theory Ordered_Map
  imports Prelude
begin

text \<open>
  \<open>BTreeMap\<close> of the standard library: an association list in the strict order of its keys, which is
  the order its iterators follow.
\<close>

type_synonym ('k, 'v) btree_map = "('k \<times> 'v) list"

definition bt_ok :: "('k::linorder, 'v) btree_map \<Rightarrow> bool" where
  "bt_ok m \<longleftrightarrow> sorted_wrt (<) (map fst m)"

text \<open>\<open>BTreeMap::insert\<close>.\<close>

fun bt_insert :: "'k::linorder \<Rightarrow> 'v \<Rightarrow> ('k, 'v) btree_map \<Rightarrow> ('k, 'v) btree_map" where
  "bt_insert k v [] = [(k, v)]"
| "bt_insert k v ((k', v') # m) =
     (if k < k' then (k, v) # (k', v') # m else if k = k' then (k, v) # m else (k', v') # bt_insert k v m)"

lemma bt_ok_Nil [simp]: "bt_ok []"
  by (simp add: bt_ok_def)

lemma bt_ok_Cons: "bt_ok ((k, v) # m) \<longleftrightarrow> (\<forall>k' \<in> fst ` set m. k < k') \<and> bt_ok m"
  by (simp add: bt_ok_def)

lemma fst_bt_insert [simp]: "fst ` set (bt_insert k v m) = insert k (fst ` set m)"
  by (induction k v m rule: bt_insert.induct) auto

lemma bt_ok_insert [simp, intro]: "bt_ok m \<Longrightarrow> bt_ok (bt_insert k v m)"
  by (induction k v m rule: bt_insert.induct) (auto simp: bt_ok_Cons)

lemma map_of_bt_insert [simp]: "map_of (bt_insert k v m) j = (if j = k then Some v else map_of m j)"
  by (induction k v m rule: bt_insert.induct) auto

lemma bt_insert_nonempty [simp]: "bt_insert k v m \<noteq> []"
  by (cases "(k, v, m)" rule: bt_insert.cases) auto

lemma set_bt_insert: "set (bt_insert k v m) \<subseteq> insert (k, v) (set m)"
  by (induction k v m rule: bt_insert.induct) auto

lemma bt_in_set: "bt_ok m \<Longrightarrow> (k, v) \<in> set m \<longleftrightarrow> map_of m k = Some v"
  by (rule map_of_eq_Some_iff [symmetric]) (auto simp: bt_ok_def strict_sorted_iff)

text \<open>Whatever is summed over the entries changes by the entry that was replaced or added.\<close>

lemma sum_list_bt_insert:
  fixes f :: "'k::linorder \<times> 'v \<Rightarrow> nat"
  assumes "bt_ok m"
  shows "sum_list (map f (bt_insert k v m)) + (case map_of m k of Some v' \<Rightarrow> f (k, v') | None \<Rightarrow> 0)
    = sum_list (map f m) + f (k, v)"
  using assms
proof (induction k v m rule: bt_insert.induct)
  case (2 k v k' v' m)
  have "map_of m k = None" if "k \<le> k'"
    using "2.prems" that by (auto simp: bt_ok_Cons map_of_eq_None_iff)
  then show ?case
    using 2 by (auto simp: bt_ok_Cons)
qed simp

lemma length_bt_insert:
  "bt_ok m \<Longrightarrow> length (bt_insert k v m) = (if map_of m k = None then Suc (length m) else length m)"
proof (induction k v m rule: bt_insert.induct)
  case (2 k v k' v' m)
  have "map_of m k = None" if "k \<le> k'"
    using "2.prems" that by (auto simp: bt_ok_Cons map_of_eq_None_iff)
  then show ?case
    using 2 by (auto simp: bt_ok_Cons)
qed simp

end
