(* ===== verification/Bencode.thy ===== *)
theory Bencode
  imports Ordered_Map
begin

text \<open>
  The values of the external \<open>bendy\<close> crate as the components use them: dictionaries with their
  insertions and lookups, and the canonical bytes of a value. The encoder and the decoder of the
  crate themselves are arguments of the components; the canonical bytes say what is expected of
  them.
\<close>

section \<open>Bencode values\<close>

text \<open>
  \<open>bendy::value::Value\<close>. A dictionary is a \<open>BTreeMap\<close>; byte strings are ordered lexicographically.
\<close>

datatype bvalue =
  BBytes bytes
| BInt i64
| BList "bvalue list"
| BDict "(bytes, bvalue) btree_map"

type_synonym bdict = "(bytes, bvalue) btree_map"

text \<open>An insertion made only when there is something to insert.\<close>

definition insert_opt :: "bytes \<Rightarrow> bvalue option \<Rightarrow> bdict \<Rightarrow> bdict" where
  "insert_opt k v m = (case v of None \<Rightarrow> m | Some x \<Rightarrow> bt_insert k x m)"

abbreviation opt_if :: "bool \<Rightarrow> 'a \<Rightarrow> 'a option" where
  "opt_if b x \<equiv> (if b then Some x else None)"

definition insert_bytes :: "string \<Rightarrow> bytes \<Rightarrow> bdict \<Rightarrow> bdict" where
  "insert_bytes k v m = bt_insert (bstr k) (BBytes v) m"

abbreviation unwrap_or :: "'a option \<Rightarrow> 'a \<Rightarrow> 'a" where
  "unwrap_or x d \<equiv> (case x of None \<Rightarrow> d | Some y \<Rightarrow> y)"

section \<open>Dictionaries\<close>

definition opt_or :: "'a option \<Rightarrow> 'a option \<Rightarrow> 'a option" where
  "opt_or v w = (case v of None \<Rightarrow> w | Some x \<Rightarrow> Some x)"

lemma opt_or_None [simp]: "opt_or v None = v"
  by (simp add: opt_or_def split: option.splits)

lemma map_of_insert_opt [simp]:
  "map_of (insert_opt k v m) j = (if j = k then opt_or v (map_of m j) else map_of m j)"
  by (auto simp: insert_opt_def opt_or_def split: option.splits)

lemma map_of_insert_bytes [simp]:
  "map_of (insert_bytes k v m) j = (if j = bstr k then Some (BBytes v) else map_of m j)"
  by (simp add: insert_bytes_def)

abbreviation keys_sorted :: "bdict \<Rightarrow> bool" where
  "keys_sorted m \<equiv> sorted_wrt (<) (map fst m)"

lemma keys_sorted_bt_insert [simp]: "keys_sorted m \<Longrightarrow> keys_sorted (bt_insert k v m)"
  using bt_ok_insert unfolding bt_ok_def .

lemma keys_sorted_insert_opt [simp]: "keys_sorted m \<Longrightarrow> keys_sorted (insert_opt k v m)"
  by (simp add: insert_opt_def split: option.splits)

lemma keys_sorted_insert_bytes [simp]: "keys_sorted m \<Longrightarrow> keys_sorted (insert_bytes k v m)"
  by (simp add: insert_bytes_def)

section \<open>Canonical bytes\<close>

text \<open>
  The one byte string of a value in the bencode format: a byte string with its decimal length, an
  integer in decimal without leading zeros, and lists and dictionaries between their markers.
\<close>

definition dec_bytes :: "nat \<Rightarrow> bytes" where
  "dec_bytes n = bstr (nat_to_dec n)"

definition int_bytes :: "int \<Rightarrow> bytes" where
  "int_bytes i = (if i < 0 then bstr ''-'' @ dec_bytes (nat (- i)) else dec_bytes (nat i))"

definition string_bytes :: "bytes \<Rightarrow> bytes" where
  "string_bytes v = dec_bytes (length v) @ bstr '':'' @ v"

fun bencode :: "bvalue \<Rightarrow> bytes" where
  "bencode (BBytes v) = string_bytes v"
| "bencode (BInt i) = bstr ''i'' @ int_bytes (sint i) @ bstr ''e''"
| "bencode (BList vs) = bstr ''l'' @ concat (map bencode vs) @ bstr ''e''"
| "bencode (BDict m) = bstr ''d'' @ concat (map (\<lambda>(k, v). string_bytes k @ bencode v) m) @ bstr ''e''"

text \<open>The values that have canonical bytes: dictionaries with their keys in order. And their nesting.\<close>

fun canonical :: "bvalue \<Rightarrow> bool" where
  "canonical (BBytes v) \<longleftrightarrow> True"
| "canonical (BInt i) \<longleftrightarrow> True"
| "canonical (BList vs) \<longleftrightarrow> (\<forall>v\<in>set vs. canonical v)"
| "canonical (BDict m) \<longleftrightarrow> keys_sorted m \<and> (\<forall>v\<in>set (map snd m). canonical v)"

fun nesting :: "bvalue \<Rightarrow> nat" where
  "nesting (BBytes v) = 0"
| "nesting (BInt i) = 0"
| "nesting (BList vs) = Suc (fold max (map nesting vs) 0)"
| "nesting (BDict m) = Suc (fold max (map (\<lambda>(k, v). nesting v) m) 0)"

section \<open>Decimal numbers\<close>

text \<open>The digits of \<open>i64::from_str\<close>, with its optional sign.\<close>

fun parse_digits :: "nat \<Rightarrow> bytes \<Rightarrow> nat option" where
  "parse_digits n [] = Some n"
| "parse_digits n (b # v) = (if 48 \<le> b \<and> b \<le> 57 then parse_digits (n * 10 + unat (b - 48)) v else None)"

definition parse_i64 :: "bytes \<Rightarrow> i64 option" where
  "parse_i64 v =
     (let (negative, digits) =
            (case v of [] \<Rightarrow> (False, []) | b # w \<Rightarrow> if b = 45 then (True, w) else if b = 43 then (False, w) else (False, v))
      in if digits = [] then None
         else Option.bind (parse_digits 0 digits) (\<lambda>n.
           let i = (if negative then - int n else int n) in if in_i64 i then Some (word_of_int i) else None))"

lemma of_char_digit: "d < 10 \<Longrightarrow> (of_char (digit_char d) :: u8) = 48 + of_nat d"
proof -
  assume d: "d < 10"
  have "(of_char (char_of (48 + d)) :: u8) = of_nat (of_char (char_of (48 + d)))"
    by (simp only: of_nat_of_char)
  also have "\<dots> = of_nat (48 + d)"
    using d by simp
  finally show ?thesis
    using d by (simp add: digit_char_def)
qed

lemma digit_byte:
  assumes "d < 10"
  shows "48 \<le> (48 + of_nat d :: u8)" and "(48 + of_nat d :: u8) \<le> 57" and "unat (of_nat d :: u8) = d"
proof -
  have "unat (48 + of_nat d :: u8) = 48 + d"
    using assms by (simp add: unat_word_ariths unat_of_nat take_bit_eq_mod)
  then show "48 \<le> (48 + of_nat d :: u8)" and "(48 + of_nat d :: u8) \<le> 57" and "unat (of_nat d :: u8) = d"
    using assms by (simp_all add: word_le_nat_alt unat_of_nat take_bit_eq_mod)
qed

lemma dec_bytes_rec:
  "dec_bytes n = (if n < 10 then [48 + of_nat n] else dec_bytes (n div 10) @ [48 + of_nat (n mod 10)])"
  unfolding dec_bytes_def by (subst nat_to_dec.simps) (simp add: bstr_def of_char_digit)

lemma dec_bytes_nonempty [simp]: "dec_bytes n \<noteq> []"
  by (subst dec_bytes_rec) simp

lemma dec_bytes_digits: "b \<in> set (dec_bytes n) \<Longrightarrow> 48 \<le> b \<and> b \<le> 57"
proof (induction n rule: less_induct)
  case (less n)
  show ?case
  proof (cases "n < 10")
    case True
    with less.prems digit_byte [OF True] show ?thesis
      by (simp add: dec_bytes_rec [of n])
  next
    case False
    with less.prems have "b \<in> set (dec_bytes (n div 10)) \<or> b = 48 + of_nat (n mod 10)"
      by (auto simp: dec_bytes_rec [of n])
    with less.IH [of "n div 10"] False digit_byte [of "n mod 10"] show ?thesis
      by auto
  qed
qed

lemma dec_bytes_no_colon: "58 \<notin> set (dec_bytes n)"
  using dec_bytes_digits [of 58 n] by auto

lemma dec_bytes_length: "length (dec_bytes n) \<le> Suc n"
proof (induction n rule: less_induct)
  case (less n)
  show ?case
  proof (cases "n < 10")
    case False
    then have "length (dec_bytes (n div 10)) \<le> Suc (n div 10)" "Suc (n div 10) \<le> n"
      using less [of "n div 10"] by auto
    then show ?thesis
      by (subst dec_bytes_rec) simp
  qed (subst dec_bytes_rec, simp)
qed

lemma parse_digits_append: "parse_digits a (v @ w) = Option.bind (parse_digits a v) (\<lambda>n. parse_digits n w)"
  by (induction v arbitrary: a) simp_all

lemma parse_digits_dec_bytes [simp]: "parse_digits 0 (dec_bytes n) = Some n"
proof (induction n rule: less_induct)
  case (less n)
  show ?case
  proof (cases "n < 10")
    case True
    then show ?thesis
      using digit_byte [of n] by (subst dec_bytes_rec) simp
  next
    case False
    then show ?thesis
      using less [of "n div 10"] digit_byte [of "n mod 10"]
      by (subst dec_bytes_rec) (simp add: parse_digits_append)
  qed
qed

lemma parse_i64_int_bytes:
  assumes "in_i64 i"
  shows "parse_i64 (int_bytes i) = Some (word_of_int i)"
proof (cases "i < 0")
  case True
  then show ?thesis
    using assms by (simp add: parse_i64_def int_bytes_def bstr_def)
next
  case False
  obtain b w where bw: "dec_bytes (nat i) = b # w"
    by (cases "dec_bytes (nat i)") auto
  then have "48 \<le> b"
    using dec_bytes_digits [of b "nat i"] by simp
  then have "b \<noteq> 45" "b \<noteq> 43"
    by auto
  then show ?thesis
    using assms False bw parse_digits_dec_bytes [of "nat i"]
    by (simp add: parse_i64_def int_bytes_def del: parse_digits_dec_bytes)
qed

section \<open>A reference decoder\<close>

text \<open>
  A decoder of canonical bytes, to show that what is expected of the external one can be had. The
  first argument bounds the recursion; the length of the input is always enough.
\<close>

definition read_string :: "bytes \<Rightarrow> (bytes \<times> bytes) option" where
  "read_string v =
     (case dropWhile (\<lambda>b. b \<noteq> 58) v of
        [] \<Rightarrow> None
      | _ # w \<Rightarrow> Option.bind (parse_digits 0 (takeWhile (\<lambda>b. b \<noteq> 58) v)) (\<lambda>n.
                 if n \<le> length w then Some (take n w, drop n w) else None))"

definition read_integer :: "bytes \<Rightarrow> (i64 \<times> bytes) option" where
  "read_integer v =
     (case dropWhile (\<lambda>b. b \<noteq> 101) v of
        [] \<Rightarrow> None
      | _ # w \<Rightarrow> map_option (\<lambda>n. (n, w)) (parse_i64 (takeWhile (\<lambda>b. b \<noteq> 101) v)))"

fun read_value :: "nat \<Rightarrow> bytes \<Rightarrow> (bvalue \<times> bytes) option"
  and read_items :: "nat \<Rightarrow> bytes \<Rightarrow> (bvalue list \<times> bytes) option"
  and read_entries :: "nat \<Rightarrow> bytes \<Rightarrow> (bdict \<times> bytes) option" where
  "read_value 0 v = None"
| "read_value (Suc n) v =
     (case v of
        [] \<Rightarrow> None
      | b # w \<Rightarrow>
          if b = 105 then map_option (\<lambda>(i, w). (BInt i, w)) (read_integer w)
          else if b = 108 then map_option (\<lambda>(vs, w). (BList vs, w)) (read_items n w)
          else if b = 100 then map_option (\<lambda>(m, w). (BDict m, w)) (read_entries n w)
          else map_option (\<lambda>(s, w). (BBytes s, w)) (read_string v))"
| "read_items 0 v = None"
| "read_items (Suc n) v =
     (case v of
        [] \<Rightarrow> None
      | b # w \<Rightarrow>
          if b = 101 then Some ([], w)
          else Option.bind (read_value n v) (\<lambda>(x, w). map_option (\<lambda>(xs, w). (x # xs, w)) (read_items n w)))"
| "read_entries 0 v = None"
| "read_entries (Suc n) v =
     (case v of
        [] \<Rightarrow> None
      | b # w \<Rightarrow>
          if b = 101 then Some ([], w)
          else Option.bind (read_string v) (\<lambda>(k, w).
               Option.bind (read_value n w) (\<lambda>(x, w). map_option (\<lambda>(m, w). ((k, x) # m, w)) (read_entries n w))))"

lemma read_string_bytes [simp]: "read_string (string_bytes s @ w) = Some (s, w)"
proof -
  have "takeWhile (\<lambda>b. b \<noteq> 58) (dec_bytes n @ 58 # v) = dec_bytes n"
    "dropWhile (\<lambda>b. b \<noteq> 58) (dec_bytes n @ 58 # v) = 58 # v" for n v
    using dec_bytes_no_colon [of n] by (auto simp: takeWhile_append dropWhile_append)
  then show ?thesis
    by (simp add: read_string_def string_bytes_def bstr_def)
qed

lemma int_bytes_no_e: "b \<in> set (int_bytes i) \<Longrightarrow> b \<noteq> 101"
  using dec_bytes_digits [of b "nat i"] dec_bytes_digits [of b "nat (- i)"]
  by (auto simp: int_bytes_def bstr_def split: if_splits)

lemma read_integer_bytes [simp]: "read_integer (int_bytes (sint i) @ 101 # w) = Some (i, w)"
proof -
  have "takeWhile (\<lambda>b. b \<noteq> 101) (int_bytes j @ 101 # w) = int_bytes j"
    "dropWhile (\<lambda>b. b \<noteq> 101) (int_bytes j @ 101 # w) = 101 # w" for j
    using int_bytes_no_e [of _ j] by (auto simp: takeWhile_append dropWhile_append)
  then show ?thesis
    by (simp add: read_integer_def parse_i64_int_bytes)
qed

lemma string_bytes_head:
  obtains b w where "string_bytes s = b # w" "48 \<le> b" "b \<le> 57"
proof -
  obtain b w where "dec_bytes (length s) = b # w"
    by (cases "dec_bytes (length s)") auto
  with dec_bytes_digits [of b "length s"] that show thesis
    by (auto simp: string_bytes_def)
qed

lemma bencode_head: obtains b w where "bencode v = b # w" "b \<noteq> 101"
proof (cases v)
  case (BBytes s)
  obtain b w where "string_bytes s = b # w" "48 \<le> b" "b \<le> 57"
    by (rule string_bytes_head)
  with BBytes that show thesis
    by force
qed (use that in \<open>auto simp: bstr_def\<close>)

lemma read_items_bencode:
  assumes "\<And>x n w. \<lbrakk>x \<in> set xs; length (bencode x) \<le> n\<rbrakk> \<Longrightarrow> read_value n (bencode x @ w) = Some (x, w)"
    and "length (concat (map bencode xs)) < n"
  shows "read_items n (concat (map bencode xs) @ 101 # w) = Some (xs, w)"
  using assms
proof (induction xs arbitrary: n)
  case Nil
  then show ?case
    by (cases n) simp_all
next
  case (Cons x xs)
  obtain b v where b: "bencode x = b # v" "b \<noteq> 101"
    by (rule bencode_head)
  obtain k where k: "n = Suc k"
    using Cons.prems(2) by (cases n) auto
  have "read_value k (bencode x @ concat (map bencode xs) @ 101 # w) = Some (x, concat (map bencode xs) @ 101 # w)"
    using Cons.prems k by (intro Cons.prems(1)) auto
  moreover have "read_items k (concat (map bencode xs) @ 101 # w) = Some (xs, w)"
    using Cons.prems k b by (intro Cons.IH) auto
  ultimately show ?case
    using b k by simp
qed

lemma read_entries_bencode:
  assumes "\<And>k x n w. \<lbrakk>(k, x) \<in> set m; length (bencode x) \<le> n\<rbrakk> \<Longrightarrow> read_value n (bencode x @ w) = Some (x, w)"
    and "length (concat (map (\<lambda>(k, x). string_bytes k @ bencode x) m)) < n"
  shows "read_entries n (concat (map (\<lambda>(k, x). string_bytes k @ bencode x) m) @ 101 # w) = Some (m, w)"
  using assms
proof (induction m arbitrary: n)
  case Nil
  then show ?case
    by (cases n) simp_all
next
  case (Cons e m)
  obtain k x where e: "e = (k, x)"
    by (cases e)
  let ?rest = "concat (map (\<lambda>(k, x). string_bytes k @ bencode x) m) @ 101 # w"
  obtain b v where b: "string_bytes k = b # v" "48 \<le> b" "b \<le> 57"
    by (rule string_bytes_head)
  then have "b \<noteq> 101" by auto
  obtain j where j: "n = Suc j"
    using Cons.prems(2) by (cases n) auto
  have "read_string (b # v @ bencode x @ ?rest) = Some (k, bencode x @ ?rest)"
    using read_string_bytes [of k "bencode x @ ?rest"] b by simp
  moreover have "read_value j (bencode x @ ?rest) = Some (x, ?rest)"
    using Cons.prems j e by (intro Cons.prems(1)) auto
  moreover have "read_entries j ?rest = Some (m, w)"
    using Cons.prems j e b by (intro Cons.IH) auto
  ultimately show ?case
    using \<open>b \<noteq> 101\<close> b e j by simp
qed

lemma read_value_bencode: "length (bencode v) \<le> n \<Longrightarrow> read_value n (bencode v @ w) = Some (v, w)"
proof (induction v arbitrary: n w)
  case (BBytes s)
  obtain b v where b: "string_bytes s = b # v" "48 \<le> b" "b \<le> 57"
    by (rule string_bytes_head)
  then have "b \<noteq> 105" "b \<noteq> 108" "b \<noteq> 100"
    by auto
  with b BBytes read_string_bytes [of s w] show ?case
    by (cases n) simp_all
next
  case (BInt i)
  then show ?case
    by (cases n) (simp_all add: bstr_def)
next
  case (BList vs)
  then show ?case
    using read_items_bencode [of vs] by (cases n) (simp_all add: bstr_def)
next
  case (BDict m)
  have "read_value n (bencode x @ w) = Some (x, w)" if "(k, x) \<in> set m" "length (bencode x) \<le> n" for k x n w
    using BDict.IH [of "(k, x)" x] that by simp
  with BDict.prems show ?case
    using read_entries_bencode [of m] by (cases n) (simp_all add: bstr_def)
qed

end
