(* ===== verification/Krpc.thy ===== *)
theory Krpc
  imports Compact Scrape_Bloom Bencode
begin

text \<open>
  \<open>bitmagnet-dht/src/krpc.rs\<close>: the KRPC message and its projection to and from bencode values.
  The bencode encoder and decoder of the external \<open>bendy\<close> crate are arguments.
\<close>

section \<open>Messages\<close>

record message_args =
  ma_id :: id20
  ma_info_hash :: "id20 option"
  ma_target :: "id20 option"
  ma_token :: bytes
  ma_port :: "i64 option"
  ma_implied_port :: bool
  ma_want :: "bytes list option"
  ma_no_seed :: i64
  ma_scrape :: i64

record message_return =
  mr_id :: id20
  mr_nodes :: "compact_node list option"
  mr_nodes6 :: "compact_node list option"
  mr_token :: "bytes option"
  mr_values :: "compact_addr list option"
  mr_interval :: "i64 option"
  mr_num :: "i64 option"
  mr_samples :: "id20 list option"
  mr_seeders_bloom :: "scrape_bloom_filter option"
  mr_peers_bloom :: "scrape_bloom_filter option"

record krpc_error =
  ke_code :: i64
  ke_message :: bytes

record krpc_message =
  km_transaction_id :: bytes
  km_message_type :: bytes
  km_query :: bytes
  km_args :: "message_args option"
  km_response :: "message_return option"
  km_error :: "krpc_error option"
  km_observed_addr :: "compact_addr option"
  km_read_only :: bool
  km_client_id :: bytes

datatype wire_error =
  Bencode string
| Invalid string
| WireCompact compact_codec_error
| WireScrapeBloom scrape_bloom_error

section \<open>Encoding\<close>

abbreviation non_zero :: "id20 \<Rightarrow> bool" where
  "non_zero i \<equiv> i \<noteq> id20_ZERO"

definition encode_args :: "message_args \<Rightarrow> bvalue" where
  "encode_args a =
     (let dict = insert_bytes ''id'' (as_bytes (ma_id a)) [];
          dict = insert_opt (bstr ''info_hash'')
                   (map_option (\<lambda>i. BBytes (as_bytes i)) (filter_opt non_zero (ma_info_hash a))) dict;
          dict = insert_opt (bstr ''target'')
                   (map_option (\<lambda>i. BBytes (as_bytes i)) (filter_opt non_zero (ma_target a))) dict;
          dict = insert_opt (bstr ''token'') (opt_if (ma_token a \<noteq> []) (BBytes (ma_token a))) dict;
          dict = insert_opt (bstr ''port'') (map_option BInt (ma_port a)) dict;
          dict = insert_opt (bstr ''implied_port'') (opt_if (ma_implied_port a) (BInt 1)) dict;
          dict = insert_opt (bstr ''want'') (map_option (\<lambda>ws. BList (map BBytes ws)) (ma_want a)) dict;
          dict = insert_opt (bstr ''noseed'') (opt_if (ma_no_seed a \<noteq> 0) (BInt (ma_no_seed a))) dict;
          dict = insert_opt (bstr ''scrape'') (opt_if (ma_scrape a \<noteq> 0) (BInt (ma_scrape a))) dict
      in BDict dict)"

text \<open>A node list that is there is encoded, which may fail; one that is not there is skipped.\<close>

definition insert_nodes ::
  "string \<Rightarrow> compact_node list option \<Rightarrow> bool \<Rightarrow> bdict \<Rightarrow> wire_error + bdict" where
  "insert_nodes k nodes ipv6 dict =
     (case nodes of
        None \<Rightarrow> Inr dict
      | Some ns \<Rightarrow> rbind (map_err WireCompact (encode_nodes ns ipv6)) (\<lambda>v. Inr (insert_bytes k v dict)))"

definition encode_return :: "message_return \<Rightarrow> wire_error + bvalue" where
  "encode_return r =
     (let dict = insert_bytes ''id'' (as_bytes (mr_id r)) [];
          dict = insert_opt (bstr ''BFsd'') (map_option (\<lambda>f. BBytes (bloom_bytes f)) (mr_seeders_bloom r)) dict;
          dict = insert_opt (bstr ''BFpe'') (map_option (\<lambda>f. BBytes (bloom_bytes f)) (mr_peers_bloom r)) dict
      in rbind (insert_nodes ''nodes'' (mr_nodes r) False dict) (\<lambda>dict.
         rbind (insert_nodes ''nodes6'' (mr_nodes6 r) True dict) (\<lambda>dict.
         let dict = insert_opt (bstr ''token'') (map_option BBytes (mr_token r)) dict;
             dict = insert_opt (bstr ''values'')
                      (map_option (\<lambda>as. BList (map (\<lambda>a. BBytes (compact_addr_encode a)) as)) (mr_values r)) dict;
             dict = insert_opt (bstr ''interval'') (map_option BInt (mr_interval r)) dict;
             dict = insert_opt (bstr ''num'') (map_option BInt (mr_num r)) dict;
             dict = insert_opt (bstr ''samples'') (map_option (\<lambda>s. BBytes (encode_samples s)) (mr_samples r)) dict
         in Inr (BDict dict))))"

definition encode_error :: "krpc_error \<Rightarrow> bvalue" where
  "encode_error e = BList [BInt (ke_code e), BBytes (ke_message e)]"

text \<open>The dictionary \<open>KrpcMessage::encode\<close> hands to the encoder.\<close>

definition encode_message :: "krpc_message \<Rightarrow> wire_error + bvalue" where
  "encode_message m =
     (let dict = insert_bytes ''t'' (km_transaction_id m) [];
          dict = insert_bytes ''y'' (km_message_type m) dict;
          dict = insert_opt (bstr ''q'') (opt_if (km_query m \<noteq> []) (BBytes (km_query m))) dict;
          dict = insert_opt (bstr ''a'') (map_option encode_args (km_args m)) dict
      in rbind (map_transpose encode_return (km_response m)) (\<lambda>response.
         let dict = insert_opt (bstr ''r'') response dict;
             dict = insert_opt (bstr ''e'') (map_option encode_error (km_error m)) dict;
             dict = insert_opt (bstr ''ip'')
                      (map_option (\<lambda>a. BBytes (compact_addr_encode a)) (km_observed_addr m)) dict;
             dict = insert_opt (bstr ''ro'') (opt_if (km_read_only m) (BInt 1)) dict;
             dict = insert_opt (bstr ''v'') (opt_if (km_client_id m \<noteq> []) (BBytes (km_client_id m))) dict
         in Inr (BDict dict)))"

definition krpc_encode :: "(nat \<Rightarrow> bvalue \<Rightarrow> string + bytes) \<Rightarrow> krpc_message \<Rightarrow> wire_error + bytes" where
  "krpc_encode emit m = rbind (encode_message m) (\<lambda>v. map_err Bencode (emit 3 v))"

section \<open>Decoding\<close>

definition take_optional :: "bdict \<Rightarrow> string \<Rightarrow> bvalue option \<times> bdict" where
  "take_optional dict name = (map_of dict (bstr name), AList.delete (bstr name) dict)"

fun into_dict :: "bvalue \<Rightarrow> string \<Rightarrow> wire_error + bdict" where
  "into_dict (BDict m) description = Inr m"
| "into_dict _ description = Inl (Invalid (description @ '' must be a dictionary''))"

fun into_list :: "bvalue \<Rightarrow> string \<Rightarrow> wire_error + bvalue list" where
  "into_list (BList vs) description = Inr vs"
| "into_list _ description = Inl (Invalid (description @ '' must be a list''))"

fun into_bytes :: "bvalue \<Rightarrow> string \<Rightarrow> wire_error + bytes" where
  "into_bytes (BBytes v) description = Inr v"
| "into_bytes _ description = Inl (Invalid (description @ '' must be a byte string''))"

fun into_integer :: "bvalue \<Rightarrow> string \<Rightarrow> wire_error + i64" where
  "into_integer (BInt v) description = Inr v"
| "into_integer _ description = Inl (Invalid (description @ '' must be an integer''))"

definition true_strings :: "bytes list" where
  "true_strings = map bstr [''1'', ''t'', ''T'', ''true'', ''TRUE'', ''True'']"

definition false_strings :: "bytes list" where
  "false_strings = map bstr [''0'', ''f'', ''F'', ''false'', ''FALSE'', ''False'']"

definition go_bool_of_bytes :: "bytes \<Rightarrow> bool" where
  "go_bool_of_bytes v = (if v \<in> set true_strings then True else if v \<in> set false_strings then False else v \<noteq> [])"

fun into_go_bool :: "bvalue \<Rightarrow> string \<Rightarrow> wire_error + bool" where
  "into_go_bool (BInt v) description = Inr (v \<noteq> 0)"
| "into_go_bool (BBytes v) description = Inr (go_bool_of_bytes v)"
| "into_go_bool (BList [v]) description = into_go_bool v description"
| "into_go_bool _ description =
     Inl (Invalid (description @ '' must be an integer, byte string, or singleton list''))"

definition take_optional_bytes :: "bdict \<Rightarrow> string \<Rightarrow> wire_error + bytes option \<times> bdict" where
  "take_optional_bytes dict name =
     (case take_optional dict name of (v, dict) \<Rightarrow>
        rbind (map_transpose (\<lambda>v. into_bytes v ''byte string'') v) (\<lambda>v. Inr (v, dict)))"

definition take_optional_integer :: "bdict \<Rightarrow> string \<Rightarrow> wire_error + i64 option \<times> bdict" where
  "take_optional_integer dict name =
     (case take_optional dict name of (v, dict) \<Rightarrow>
        rbind (map_transpose (\<lambda>v. into_integer v ''integer'') v) (\<lambda>v. Inr (v, dict)))"

definition take_optional_bool :: "bdict \<Rightarrow> string \<Rightarrow> wire_error + bool option \<times> bdict" where
  "take_optional_bool dict name =
     (case take_optional dict name of (v, dict) \<Rightarrow>
        rbind (map_transpose (\<lambda>v. into_go_bool v ''boolean'') v) (\<lambda>v. Inr (v, dict)))"

definition take_optional_id :: "bdict \<Rightarrow> string \<Rightarrow> wire_error + id20 option \<times> bdict" where
  "take_optional_id dict name =
     rbind (take_optional_bytes dict name) (\<lambda>(v, dict).
     rbind (map_transpose (\<lambda>v. map_err WireCompact (from_slice v)) v) (\<lambda>i. Inr (i, dict)))"

definition decode_args :: "bvalue \<Rightarrow> wire_error + message_args" where
  "decode_args value =
     rbind (into_dict value ''query arguments'') (\<lambda>dict.
     rbind (take_optional_id dict ''id'') (\<lambda>(i, dict).
     rbind (take_optional_id dict ''info_hash'') (\<lambda>(info_hash, dict).
     rbind (take_optional_id dict ''target'') (\<lambda>(target, dict).
     rbind (take_optional_bytes dict ''token'') (\<lambda>(token, dict).
     rbind (take_optional_integer dict ''port'') (\<lambda>(port, dict).
     rbind (take_optional_bool dict ''implied_port'') (\<lambda>(implied_port, dict).
     let (want, dict) = take_optional dict ''want'' in
     rbind (map_transpose (\<lambda>v. rbind (into_list v ''want'') (\<lambda>vs.
              collect_result (map (\<lambda>v. into_bytes v ''want value'') vs))) want) (\<lambda>want.
     rbind (take_optional_integer dict ''noseed'') (\<lambda>(no_seed, dict).
     rbind (take_optional_integer dict ''scrape'') (\<lambda>(scrape, dict).
     Inr \<lparr>ma_id = unwrap_or i id20_ZERO, ma_info_hash = filter_opt non_zero info_hash,
          ma_target = filter_opt non_zero target, ma_token = unwrap_or token [], ma_port = port,
          ma_implied_port = unwrap_or implied_port False, ma_want = want,
          ma_no_seed = unwrap_or no_seed 0, ma_scrape = unwrap_or scrape 0\<rparr>))))))))))"

definition take_nodes :: "bdict \<Rightarrow> string \<Rightarrow> bool \<Rightarrow> wire_error + compact_node list option \<times> bdict" where
  "take_nodes dict name ipv6 =
     rbind (take_optional_bytes dict name) (\<lambda>(v, dict).
     rbind (map_transpose (\<lambda>v. map_err WireCompact (decode_nodes v ipv6)) (filter_opt (\<lambda>v. v \<noteq> []) v))
       (\<lambda>nodes. Inr (nodes, dict)))"

definition take_bloom :: "bdict \<Rightarrow> string \<Rightarrow> wire_error + scrape_bloom_filter option \<times> bdict" where
  "take_bloom dict name =
     rbind (take_optional_bytes dict name) (\<lambda>(v, dict).
     rbind (map_transpose (\<lambda>v. map_err WireScrapeBloom (bloom_from_slice v)) v) (\<lambda>f. Inr (f, dict)))"

definition decode_return :: "bvalue \<Rightarrow> wire_error + message_return" where
  "decode_return value =
     rbind (into_dict value ''response'') (\<lambda>dict.
     rbind (take_optional_id dict ''id'') (\<lambda>(i, dict).
     rbind (take_nodes dict ''nodes'' False) (\<lambda>(nodes, dict).
     rbind (take_nodes dict ''nodes6'' True) (\<lambda>(nodes6, dict).
     rbind (take_optional_bytes dict ''token'') (\<lambda>(token, dict).
     let (values, dict) = take_optional dict ''values'' in
     rbind (map_transpose (\<lambda>v. rbind (into_list v ''peer values'') (\<lambda>vs.
              collect_result (map (\<lambda>v. rbind (into_bytes v ''peer value'')
                (\<lambda>v. map_err WireCompact (compact_addr_decode v))) vs))) values) (\<lambda>values.
     rbind (take_optional_integer dict ''interval'') (\<lambda>(interval, dict).
     rbind (take_optional_integer dict ''num'') (\<lambda>(num, dict).
     rbind (take_optional_bytes dict ''samples'') (\<lambda>(samples, dict).
     rbind (map_transpose (\<lambda>v. map_err WireCompact (decode_samples v)) samples) (\<lambda>samples.
     rbind (take_bloom dict ''BFsd'') (\<lambda>(seeders_bloom, dict).
     rbind (take_bloom dict ''BFpe'') (\<lambda>(peers_bloom, dict).
     Inr \<lparr>mr_id = unwrap_or i id20_ZERO, mr_nodes = nodes, mr_nodes6 = nodes6, mr_token = token,
          mr_values = values, mr_interval = interval, mr_num = num, mr_samples = samples,
          mr_seeders_bloom = seeders_bloom, mr_peers_bloom = peers_bloom\<rparr>))))))))))))"

definition decode_error :: "bvalue \<Rightarrow> wire_error + krpc_error" where
  "decode_error value =
     (case value of
        BBytes message \<Rightarrow> Inr \<lparr>ke_code = 0, ke_message = message\<rparr>
      | _ \<Rightarrow>
          rbind (into_list value ''error'') (\<lambda>values.
            if length values \<noteq> 2
            then Inl (Invalid ''KRPC error must be a message or exactly [code,message]'')
            else rbind (into_bytes (values ! 1) ''error message'') (\<lambda>message.
                 rbind (into_integer (values ! 0) ''error code'') (\<lambda>code.
                 Inr \<lparr>ke_code = code, ke_message = message\<rparr>))))"

definition decode_message :: "bvalue \<Rightarrow> wire_error + krpc_message" where
  "decode_message value =
     rbind (into_dict value ''KRPC message'') (\<lambda>dict.
     rbind (take_optional_bytes dict ''t'') (\<lambda>(transaction_id, dict).
     rbind (take_optional_bytes dict ''y'') (\<lambda>(message_type, dict).
     rbind (take_optional_bytes dict ''q'') (\<lambda>(query, dict).
     let (a, dict) = take_optional dict ''a'' in
     rbind (map_transpose decode_args a) (\<lambda>args.
     let (r, dict) = take_optional dict ''r'' in
     rbind (map_transpose decode_return r) (\<lambda>response.
     let (e, dict) = take_optional dict ''e'' in
     rbind (map_transpose decode_error e) (\<lambda>error.
     rbind (take_optional_bytes dict ''ip'') (\<lambda>(ip, dict).
     rbind (map_transpose (\<lambda>v. map_err WireCompact (compact_addr_decode v)) ip) (\<lambda>observed_addr.
     rbind (take_optional_bool dict ''ro'') (\<lambda>(read_only, dict).
     rbind (take_optional_bytes dict ''v'') (\<lambda>(client_id, dict).
     Inr \<lparr>km_transaction_id = unwrap_or transaction_id [], km_message_type = unwrap_or message_type [],
          km_query = unwrap_or query [], km_args = args, km_response = response, km_error = error,
          km_observed_addr = observed_addr, km_read_only = unwrap_or read_only False,
          km_client_id = unwrap_or client_id []\<rparr>)))))))))))"

text \<open>
  \<open>next_value\<close> is the decoder's first object read as a value (\<open>Inr None\<close> when there is none),
  \<open>has_trailing\<close> whether another object follows; each may fail with the decoder's message.
\<close>

definition krpc_decode ::
  "(nat \<Rightarrow> bytes \<Rightarrow> string + bvalue option) \<Rightarrow> (nat \<Rightarrow> bytes \<Rightarrow> string + bool)
   \<Rightarrow> bytes \<Rightarrow> wire_error + krpc_message" where
  "krpc_decode next_value has_trailing input =
     rbind (map_err Bencode (next_value 3 input)) (\<lambda>object.
       case object of
         None \<Rightarrow> Inl (Invalid ''empty KRPC datagram'')
       | Some value \<Rightarrow>
           rbind (map_err Bencode (has_trailing 3 input)) (\<lambda>trailing.
             if trailing then Inl (Invalid ''trailing bencode object after KRPC message'')
             else decode_message value))"


section \<open>Decoding a dictionary is looking up its fields\<close>

definition get_bytes :: "bvalue option \<Rightarrow> wire_error + bytes option" where
  "get_bytes = map_transpose (\<lambda>v. into_bytes v ''byte string'')"

definition get_integer :: "bvalue option \<Rightarrow> wire_error + i64 option" where
  "get_integer = map_transpose (\<lambda>v. into_integer v ''integer'')"

definition get_bool :: "bvalue option \<Rightarrow> wire_error + bool option" where
  "get_bool = map_transpose (\<lambda>v. into_go_bool v ''boolean'')"

lemma take_get:
  "take_optional_bytes d n = rbind (get_bytes (map_of d (bstr n))) (\<lambda>v. Inr (v, AList.delete (bstr n) d))"
  "take_optional_integer d n = rbind (get_integer (map_of d (bstr n))) (\<lambda>v. Inr (v, AList.delete (bstr n) d))"
  "take_optional_bool d n = rbind (get_bool (map_of d (bstr n))) (\<lambda>v. Inr (v, AList.delete (bstr n) d))"
  by (simp_all add: take_optional_bytes_def take_optional_integer_def take_optional_bool_def
      take_optional_def get_bytes_def get_integer_def get_bool_def)

lemma get_encoded [simp]:
  "get_bytes None = Inr None" "get_bytes (Some (BBytes v)) = Inr (Some v)"
  "get_bytes (map_option (\<lambda>x. BBytes (g x)) o') = Inr (map_option g o')"
  "get_bytes (map_option BBytes o'') = Inr o''"
  "get_bytes (opt_if b (BBytes v)) = Inr (opt_if b v)"
  "get_integer (map_option BInt i) = Inr i"
  "get_integer (opt_if b (BInt n)) = Inr (opt_if b n)"
  "get_bool (opt_if b (BInt 1)) = Inr (opt_if b True)"
  by (cases o'; cases o''; cases i; simp add: get_bytes_def get_integer_def get_bool_def)+

lemmas decode_views = decode_args_def decode_return_def decode_message_def take_optional_id_def
  take_nodes_def take_bloom_def take_get take_optional_def delete_conv'

section \<open>Round trip\<close>

text \<open>
  What a round trip keeps: an all-zero hash or target is dropped, and an empty node list becomes
  an absent one.
\<close>

definition canon_args :: "message_args \<Rightarrow> message_args" where
  "canon_args a = a\<lparr>ma_info_hash := filter_opt non_zero (ma_info_hash a),
                    ma_target := filter_opt non_zero (ma_target a)\<rparr>"

definition canon_return :: "message_return \<Rightarrow> message_return" where
  "canon_return r = r\<lparr>mr_nodes := filter_opt (\<lambda>ns. ns \<noteq> []) (mr_nodes r),
                      mr_nodes6 := filter_opt (\<lambda>ns. ns \<noteq> []) (mr_nodes6 r)\<rparr>"

definition canon_message :: "krpc_message \<Rightarrow> krpc_message" where
  "canon_message m = m\<lparr>km_args := map_option canon_args (km_args m),
                       km_response := map_option canon_return (km_response m)\<rparr>"

lemma collect_into_bytes [simp]: "collect_result (map ((\<lambda>v. into_bytes v d) \<circ> BBytes) ws) = Inr ws"
  by (induction ws) simp_all

lemma decoded_lists [simp]:
  "map_transpose (\<lambda>v. rbind (into_list v d) (\<lambda>vs. collect_result (map (\<lambda>v. into_bytes v d') vs)))
     (map_option (\<lambda>ws. BList (map BBytes ws)) want) = Inr want"
  by (cases want) simp_all

lemma decoded_ids [simp]:
  "map_transpose (\<lambda>v. map_err WireCompact (from_slice v)) (map_option as_bytes i) = Inr i"
  by (cases i) simp_all

lemma unwrap_opt_if [simp]: "unwrap_or (opt_if b x) d = (if b then x else d)"
  by simp

lemma if_default [simp]: "(if x \<noteq> d then x else d) = x" "(if b then True else False) = b"
  by simp_all

declare option.map_ident [simp]

lemma decode_encode_args: "decode_args (encode_args a) = Inr (canon_args a)"
  by (simp add: encode_args_def decode_views Let_def split del: if_split cong: if_cong)
    (cases a, simp add: canon_args_def)

lemma decoded_nodes:
  "encode_nodes ns ipv6 = Inr v \<Longrightarrow>
   map_transpose (\<lambda>v. map_err WireCompact (decode_nodes v ipv6)) (filter_opt (\<lambda>v. v \<noteq> []) (Some v)) =
     Inr (filter_opt (\<lambda>ns. ns \<noteq> []) (Some ns))"
proof -
  assume *: "encode_nodes ns ipv6 = Inr v"
  have "compact_node_encode n \<noteq> []" for n
    using compact_node_encode_length [of n] by (auto split: if_splits)
  with * have "v = [] \<longleftrightarrow> ns = []"
    unfolding encode_nodes_Inr_iff by (cases ns) simp_all
  with * show ?thesis
    by (simp add: decode_nodes_iff [symmetric])
qed

lemma decoded_addresses [simp]:
  "map_transpose (\<lambda>v. rbind (into_list v d) (\<lambda>vs. collect_result (map (\<lambda>v.
       rbind (into_bytes v d') (\<lambda>v. map_err WireCompact (compact_addr_decode v))) vs)))
     (map_option (\<lambda>as. BList (map (\<lambda>a. BBytes (compact_addr_encode a)) as)) o') = Inr o'"
proof -
  have "collect_result (map ((\<lambda>v. rbind (into_bytes v d')
      (\<lambda>v. map_err WireCompact (compact_addr_decode v))) \<circ> (\<lambda>a. BBytes (compact_addr_encode a))) as) = Inr as" for as
    by (induction as) simp_all
  then show ?thesis by (cases o') simp_all
qed

lemma decoded_samples [simp]:
  "map_transpose (\<lambda>v. map_err WireCompact (decode_samples v)) (map_option encode_samples o') = Inr o'"
  by (cases o') (simp_all add: sample_list_codec_exact [THEN iffD2])

lemma decoded_bloom [simp]:
  "map_transpose (\<lambda>v. map_err WireScrapeBloom (bloom_from_slice v)) (map_option bloom_bytes o') = Inr o'"
  by (cases o') simp_all

text \<open>The encoded node field, when it can be encoded.\<close>

definition nodes_field :: "compact_node list option \<Rightarrow> bvalue option" where
  "nodes_field nodes = map_option (\<lambda>ns. BBytes (concat (map compact_node_encode ns))) nodes"

definition family_ok :: "bool \<Rightarrow> compact_node list option \<Rightarrow> bool" where
  "family_ok ipv6 nodes \<longleftrightarrow> (\<forall>ns. nodes = Some ns \<longrightarrow> (\<forall>n \<in> set ns. is_ipv6 (ca_ip (cn_addr n)) = ipv6))"

lemma insert_nodes_Inr:
  "insert_nodes k nodes ipv6 d = Inr d' \<longleftrightarrow>
     family_ok ipv6 nodes \<and> d' = insert_opt (bstr k) (nodes_field nodes) d"
  by (cases nodes)
    (auto simp: insert_nodes_def rbind_Inr encode_nodes_Inr_iff family_ok_def nodes_field_def
      insert_opt_def insert_bytes_def)

lemma decoded_nodes_field [simp]:
  "get_bytes (nodes_field nodes) = Inr (map_option (\<lambda>ns. concat (map compact_node_encode ns)) nodes)"
  by (cases nodes) (simp_all add: nodes_field_def)

lemma decoded_nodes_bytes:
  "family_ok ipv6 nodes \<Longrightarrow>
   map_transpose (\<lambda>v. map_err WireCompact (decode_nodes v ipv6)) (filter_opt (\<lambda>v. v \<noteq> [])
     (map_option (\<lambda>ns. concat (map compact_node_encode ns)) nodes)) = Inr (filter_opt (\<lambda>ns. ns \<noteq> []) nodes)"
  by (cases nodes) (simp_all only: option.map filter_opt_simps(1) map_transpose.simps(1),
      rule decoded_nodes, simp add: encode_nodes_Inr_iff family_ok_def)

text \<open>The dictionary of an encoded return, once its node lists are known to be encodable.\<close>

lemma encode_return_Inr:
  "encode_return r = Inr v \<longleftrightarrow>
     family_ok False (mr_nodes r) \<and> family_ok True (mr_nodes6 r) \<and>
     v = BDict
       (insert_opt (bstr ''samples'') (map_option (\<lambda>s. BBytes (encode_samples s)) (mr_samples r))
       (insert_opt (bstr ''num'') (map_option BInt (mr_num r))
       (insert_opt (bstr ''interval'') (map_option BInt (mr_interval r))
       (insert_opt (bstr ''values'')
          (map_option (\<lambda>as. BList (map (\<lambda>a. BBytes (compact_addr_encode a)) as)) (mr_values r))
       (insert_opt (bstr ''token'') (map_option BBytes (mr_token r))
       (insert_opt (bstr ''nodes6'') (nodes_field (mr_nodes6 r))
       (insert_opt (bstr ''nodes'') (nodes_field (mr_nodes r))
       (insert_opt (bstr ''BFpe'') (map_option (\<lambda>f. BBytes (bloom_bytes f)) (mr_peers_bloom r))
       (insert_opt (bstr ''BFsd'') (map_option (\<lambda>f. BBytes (bloom_bytes f)) (mr_seeders_bloom r))
       (insert_bytes ''id'' (as_bytes (mr_id r)) []))))))))))"
  by (auto simp: encode_return_def rbind_Inr insert_nodes_Inr Let_def)

lemma decode_encode_return:
  "encode_return r = Inr v \<Longrightarrow> decode_return v = Inr (canon_return r)"
  unfolding encode_return_Inr
  by (simp add: decode_views Let_def decoded_nodes_bytes split del: if_split cong: if_cong)
    (cases r, simp add: canon_return_def)

lemma decode_encode_error [simp]: "decode_error (encode_error e) = Inr e"
  by (simp add: decode_error_def encode_error_def)

lemma decoded_parts [simp]:
  "map_transpose decode_args (map_option encode_args a) = Inr (map_option canon_args a)"
  "map_transpose decode_error (map_option encode_error e) = Inr e"
  "map_transpose (\<lambda>v. map_err WireCompact (compact_addr_decode v)) (map_option compact_addr_encode ip) = Inr ip"
  by (cases a; cases e; cases ip; simp add: decode_encode_args)+

lemma decoded_response:
  "map_transpose encode_return r = Inr v \<Longrightarrow> map_transpose decode_return v = Inr (map_option canon_return r)"
  by (cases r) (auto simp: rbind_Inr decode_encode_return)

lemma encode_message_Inr:
  "encode_message m = Inr v \<longleftrightarrow>
     (\<exists>r. map_transpose encode_return (km_response m) = Inr r \<and> v = BDict
       (insert_opt (bstr ''v'') (opt_if (km_client_id m \<noteq> []) (BBytes (km_client_id m)))
       (insert_opt (bstr ''ro'') (opt_if (km_read_only m) (BInt 1))
       (insert_opt (bstr ''ip'') (map_option (\<lambda>a. BBytes (compact_addr_encode a)) (km_observed_addr m))
       (insert_opt (bstr ''e'') (map_option encode_error (km_error m))
       (insert_opt (bstr ''r'') r
       (insert_opt (bstr ''a'') (map_option encode_args (km_args m))
       (insert_opt (bstr ''q'') (opt_if (km_query m \<noteq> []) (BBytes (km_query m)))
       (insert_bytes ''y'' (km_message_type m)
       (insert_bytes ''t'' (km_transaction_id m) []))))))))))"
  by (auto simp: encode_message_def rbind_Inr Let_def)

lemma decode_encode_message:
  assumes "encode_message m = Inr v"
  shows "decode_message v = Inr (canon_message m)"
proof -
  obtain r where r: "map_transpose encode_return (km_response m) = Inr r" and v: "v = BDict
       (insert_opt (bstr ''v'') (opt_if (km_client_id m \<noteq> []) (BBytes (km_client_id m)))
       (insert_opt (bstr ''ro'') (opt_if (km_read_only m) (BInt 1))
       (insert_opt (bstr ''ip'') (map_option (\<lambda>a. BBytes (compact_addr_encode a)) (km_observed_addr m))
       (insert_opt (bstr ''e'') (map_option encode_error (km_error m))
       (insert_opt (bstr ''r'') r
       (insert_opt (bstr ''a'') (map_option encode_args (km_args m))
       (insert_opt (bstr ''q'') (opt_if (km_query m \<noteq> []) (BBytes (km_query m)))
       (insert_bytes ''y'' (km_message_type m)
       (insert_bytes ''t'' (km_transaction_id m) [])))))))))"
    using assms by (auto simp: encode_message_Inr)
  show ?thesis
    unfolding v
    by (simp add: decode_views Let_def decoded_response [OF r] split del: if_split cong: if_cong)
      (cases m, simp add: canon_message_def)
qed


text \<open>
  (C38) KRPC messages survive a round trip. If the external decoder reads back every value the
  external encoder emits, then whatever message encodes decodes to the same message, up to an
  all-zero info hash or target and an empty node list, which become absent.
\<close>

theorem krpc_codec_roundtrip:
  assumes bendy: "\<And>v w. emit 3 v = Inr w \<Longrightarrow> next_value 3 w = Inr (Some v) \<and> has_trailing 3 w = Inr False"
    and "krpc_encode emit m = Inr w"
  shows "krpc_decode next_value has_trailing w = Inr (canon_message m)"
proof -
  obtain v where v: "encode_message m = Inr v" "emit 3 v = Inr w"
    using assms(2) by (auto simp: krpc_encode_def rbind_Inr)
  with bendy [OF v(2)] decode_encode_message [OF v(1)] show ?thesis
    by (simp add: krpc_decode_def)
qed

definition example_ping :: krpc_message where
  "example_ping =
     \<lparr>km_transaction_id = bstr ''aa'', km_message_type = bstr ''q'', km_query = bstr ''ping'',
      km_args = Some \<lparr>ma_id = id20_ZERO, ma_info_hash = None, ma_target = Some id20_ZERO,
        ma_token = [], ma_port = None, ma_implied_port = True, ma_want = Some [bstr ''n4''],
        ma_no_seed = 0, ma_scrape = 1\<rparr>,
      km_response = None, km_error = None, km_observed_addr = None, km_read_only = False,
      km_client_id = []\<rparr>"

theorem krpc_codec_roundtrip_witness:
  "\<exists>v. encode_message example_ping = Inr v
    \<and> krpc_decode (\<lambda>_ _. Inr (Some v)) (\<lambda>_ _. Inr False) (bstr ''wire'') = Inr (canon_message example_ping)
    \<and> canon_message example_ping \<noteq> example_ping"
proof -
  obtain v where v: "encode_message example_ping = Inr v"
    by (simp add: encode_message_Inr example_ping_def)
  let ?emit = "\<lambda>_ x. if x = v then Inr (bstr ''wire'') else Inl ''unused''"
  have "krpc_decode (\<lambda>_ _. Inr (Some v)) (\<lambda>_ _. Inr False) (bstr ''wire'') = Inr (canon_message example_ping)"
    by (rule krpc_codec_roundtrip [of ?emit]) (auto simp: krpc_encode_def v split: if_splits)
  then show ?thesis
    using v by (auto simp: canon_message_def canon_args_def example_ping_def)
qed

end
