(* ===== verification/Mpsc.thy ===== *)
theory Mpsc
  imports Main
begin

text \<open>
  The bounded multi-producer single-consumer channel of the external \<open>tokio\<close> crate, as far as the
  DHT uses it without waiting. Its operations are an argument of the definitions that use them, a
  record on an arbitrary channel state; what the documentation promises of them is that they
  implement a first-in first-out buffer of fixed capacity whose receiver may be gone.
\<close>

datatype try_send_result = SendOk | SendFull | SendClosed

record ('m, 'ch) mpsc =
  mp_channel :: "nat \<Rightarrow> 'ch"
  mp_try_send :: "'m \<Rightarrow> 'ch \<Rightarrow> try_send_result \<times> 'ch"
  mp_try_recv :: "'ch \<Rightarrow> 'm option \<times> 'ch"
  mp_drop_receiver :: "'ch \<Rightarrow> 'ch"

section \<open>The documented behaviour\<close>

record 'm fifo =
  ff_queue :: "'m list"
  ff_capacity :: nat
  ff_receiver_alive :: bool

definition fifo_new :: "nat \<Rightarrow> 'm fifo" where
  "fifo_new n = \<lparr>ff_queue = [], ff_capacity = n, ff_receiver_alive = True\<rparr>"

definition fifo_try_send :: "'m \<Rightarrow> 'm fifo \<Rightarrow> try_send_result \<times> 'm fifo" where
  "fifo_try_send m c =
     (if \<not> ff_receiver_alive c then (SendClosed, c)
      else if length (ff_queue c) < ff_capacity c then (SendOk, c\<lparr>ff_queue := ff_queue c @ [m]\<rparr>)
      else (SendFull, c))"

definition fifo_try_recv :: "'m fifo \<Rightarrow> 'm option \<times> 'm fifo" where
  "fifo_try_recv c =
     (case ff_queue c of [] \<Rightarrow> (None, c) | m # ms \<Rightarrow> (Some m, c\<lparr>ff_queue := ms\<rparr>))"

definition fifo_drop_receiver :: "'m fifo \<Rightarrow> 'm fifo" where
  "fifo_drop_receiver c = c\<lparr>ff_queue := [], ff_receiver_alive := False\<rparr>"

definition fifo_mpsc :: "('m, 'm fifo) mpsc" where
  "fifo_mpsc =
     \<lparr>mp_channel = fifo_new, mp_try_send = fifo_try_send, mp_try_recv = fifo_try_recv,
      mp_drop_receiver = fifo_drop_receiver\<rparr>"

text \<open>The channel operations implement the buffer, seen through \<open>view\<close>.\<close>

definition mpsc_refines :: "('m, 'ch) mpsc \<Rightarrow> ('ch \<Rightarrow> 'm fifo) \<Rightarrow> bool" where
  "mpsc_refines mp view \<longleftrightarrow>
     (\<forall>n. view (mp_channel mp n) = fifo_new n)
     \<and> (\<forall>m c. map_prod id view (mp_try_send mp m c) = fifo_try_send m (view c))
     \<and> (\<forall>c. map_prod id view (mp_try_recv mp c) = fifo_try_recv (view c))
     \<and> (\<forall>c. view (mp_drop_receiver mp c) = fifo_drop_receiver (view c))"

lemma fifo_mpsc_refines: "mpsc_refines fifo_mpsc id"
  by (simp add: mpsc_refines_def fifo_mpsc_def map_prod.id)

lemma mpsc_refinesD:
  assumes "mpsc_refines mp view"
  shows "view (mp_channel mp n) = fifo_new n"
    and "mp_try_send mp m c = (r, c') \<Longrightarrow> fifo_try_send m (view c) = (r, view c')"
    and "mp_try_recv mp c = (x, c') \<Longrightarrow> fifo_try_recv (view c) = (x, view c')"
    and "view (mp_drop_receiver mp c) = fifo_drop_receiver (view c)"
  using assms unfolding mpsc_refines_def by (auto simp: map_prod_def split: prod.splits dest: spec)

lemma fifo_try_recv_Some:
  "fifo_try_recv f = (Some m, f') \<Longrightarrow> ff_queue f = m # ff_queue f' \<and> ff_capacity f' = ff_capacity f"
  by (cases "ff_queue f") (auto simp: fifo_try_recv_def)

lemma fifo_try_send_cases:
  assumes "fifo_try_send m f = (r, f')"
  shows "r = SendOk \<longleftrightarrow> ff_receiver_alive f \<and> length (ff_queue f) < ff_capacity f"
    and "r = SendClosed \<longleftrightarrow> \<not> ff_receiver_alive f"
    and "r = SendOk \<Longrightarrow> f' = f\<lparr>ff_queue := ff_queue f @ [m]\<rparr>" and "r \<noteq> SendOk \<Longrightarrow> f' = f"
  using assms by (auto simp: fifo_try_send_def split: if_splits)

end
