(* ===== verification/Transaction.thy ===== *)
theory Transaction
  imports Krpc Mpsc
begin

text \<open>
  \<open>bitmagnet-dht/src/transaction.rs\<close> and \<open>query_send.rs\<close>: the correlation of outbound queries
  with inbound responses by two-byte transaction identifiers. The registry is the state under the
  registry lock; the issuer of identifiers is an injected trait and stays an argument, and so do
  the channel operations. A registration owns the channel of its generation.
\<close>

section \<open>Identifiers and entries\<close>

datatype transaction_id = TransactionId u8 u8

fun tid_as_bytes :: "transaction_id \<Rightarrow> bytes" where
  "tid_as_bytes (TransactionId a b) = [a, b]"

datatype transaction_id_error = InvalidTidLength nat

definition tid_from_slice :: "bytes \<Rightarrow> transaction_id_error + transaction_id" where
  "tid_from_slice v = (case v of [a, b] \<Rightarrow> Inr (TransactionId a b) | _ \<Rightarrow> Inl (InvalidTidLength (length v)))"

abbreviation TRANSACTION_ID_SPACE :: nat where
  "TRANSACTION_ID_SPACE \<equiv> 65536"

record accepted_response =
  ar_source :: socket_addr
  ar_message :: krpc_message

datatype entry_state = Awaiting | Delivered

record pending_entry =
  pe_generation :: u64
  pe_expected_source :: socket_addr
  pe_state :: entry_state

record registry_state =
  rs_closed :: bool
  rs_next_generation :: u64
  rs_pending :: "(transaction_id, pending_entry) hmap"

definition registry_default :: registry_state where
  "registry_default = \<lparr>rs_closed = False, rs_next_generation = 0, rs_pending = []\<rparr>"

datatype register_error =
  RegisterClosed
| TransactionIdSpaceFull
| CollisionRetryExhausted
| IdSource string
| GenerationExhausted

datatype delivery_outcome =
  DeliveryDelivered
| DeliveryDuplicate
| UnknownTransaction
| InvalidTransactionId
| InvalidMessageType
| AddressMismatch socket_addr
| WaiterGone
| DeliveryClosed

datatype transaction_wait_outcome =
  WaitResponse socket_addr krpc_message message_return
| WaitRemoteError socket_addr krpc_message krpc_error
| MissingReturnBody socket_addr krpc_message
| MissingErrorBody socket_addr krpc_message
| WaitTimeout
| WaitCancelled
| WaitRegistryClosed

text \<open>
  The guard of a registration: the identifier and the generation it owns. The receiver of a
  registered query and of a pending transaction is the one of its generation's channel.
\<close>

record registration_guard =
  rg_transaction_id :: transaction_id
  rg_generation :: u64

record registered_query =
  rq_guard :: registration_guard
  rq_remote :: socket_addr
  rq_message :: krpc_message

record pending_transaction =
  pt_guard :: registration_guard

text \<open>The registry and what it shares: the issuer and one channel for each generation.\<close>

record ('i, 'ch) transactions =
  tx_issuer :: 'i
  tx_registry :: registry_state
  tx_channels :: "(u64, 'ch) hmap"

section \<open>Operations\<close>

fun tx_normalize_socket_addr :: "socket_addr \<Rightarrow> socket_addr" where
  "tx_normalize_socket_addr (SocketV4 ip port) = SocketV4 ip port"
| "tx_normalize_socket_addr (SocketV6 ip port flowinfo scope) =
     (if scope = 0
      then (case to_ipv4_mapped ip of Some v4 \<Rightarrow> SocketV4 v4 port | None \<Rightarrow> SocketV6 ip port 0 0)
      else SocketV6 ip port 0 scope)"

definition classify_response :: "accepted_response \<Rightarrow> transaction_wait_outcome" where
  "classify_response accepted =
     (let source = ar_source accepted; message = ar_message accepted
      in if km_message_type message = bstr ''e''
         then (case km_error message of
                 Some error \<Rightarrow> WaitRemoteError source message error
               | None \<Rightarrow> MissingErrorBody source message)
         else (case km_response message of
                 Some response \<Rightarrow> WaitResponse source message response
               | None \<Rightarrow> MissingReturnBody source message))"

text \<open>The retry loop of \<open>register\<close>; the first argument is the number of attempts left.\<close>

fun select_id ::
  "nat \<Rightarrow> ('i \<Rightarrow> (string + transaction_id) \<times> 'i) \<Rightarrow> (transaction_id, pending_entry) hmap \<Rightarrow> 'i
   \<Rightarrow> (register_error + transaction_id) \<times> 'i" where
  "select_id 0 next_id pending issuer = (Inl CollisionRetryExhausted, issuer)"
| "select_id (Suc n) next_id pending issuer =
     (case next_id issuer of
        (Inl e, issuer) \<Rightarrow> (Inl (IdSource e), issuer)
      | (Inr candidate, issuer) \<Rightarrow>
          if \<not> hm_contains pending candidate then (Inr candidate, issuer)
          else select_id n next_id pending issuer)"

definition query_message :: "transaction_id \<Rightarrow> bytes \<Rightarrow> message_args \<Rightarrow> krpc_message" where
  "query_message tid query args =
     \<lparr>km_transaction_id = tid_as_bytes tid, km_message_type = bstr ''q'', km_query = query,
      km_args = Some args, km_response = None, km_error = None, km_observed_addr = None,
      km_read_only = False, km_client_id = []\<rparr>"

definition register ::
  "('i \<Rightarrow> (string + transaction_id) \<times> 'i) \<Rightarrow> (accepted_response, 'ch) mpsc
   \<Rightarrow> socket_addr \<Rightarrow> bytes \<Rightarrow> message_args \<Rightarrow> ('i, 'ch) transactions
   \<Rightarrow> (register_error + registered_query) \<times> ('i, 'ch) transactions" where
  "register next_id mp remote query args t =
     (let state = tx_registry t
      in if rs_closed state then (Inl RegisterClosed, t)
         else if length (rs_pending state) = TRANSACTION_ID_SPACE then (Inl TransactionIdSpaceFull, t)
         else
           (case select_id TRANSACTION_ID_SPACE next_id (rs_pending state) (tx_issuer t) of
              (Inl e, issuer) \<Rightarrow> (Inl e, t\<lparr>tx_issuer := issuer\<rparr>)
            | (Inr tid, issuer) \<Rightarrow>
                let generation = rs_next_generation state
                in if generation = - 1 then (Inl GenerationExhausted, t\<lparr>tx_issuer := issuer\<rparr>)
                   else
                     let entry = \<lparr>pe_generation = generation,
                                  pe_expected_source = tx_normalize_socket_addr remote,
                                  pe_state = Awaiting\<rparr>;
                         state = state\<lparr>rs_next_generation := generation + 1,
                                       rs_pending := hm_insert tid entry (rs_pending state)\<rparr>
                     in (Inr \<lparr>rq_guard = \<lparr>rg_transaction_id = tid, rg_generation = generation\<rparr>,
                              rq_remote = remote, rq_message = query_message tid query args\<rparr>,
                         \<lparr>tx_issuer = issuer, tx_registry = state,
                          tx_channels = hm_insert generation (mp_channel mp 1) (tx_channels t)\<rparr>)))"

text \<open>\<open>remove_registration\<close>, the drop of a registration guard.\<close>

definition remove_registration :: "transaction_id \<Rightarrow> u64 \<Rightarrow> registry_state \<Rightarrow> registry_state" where
  "remove_registration tid generation state =
     (case hm_get (rs_pending state) tid of
        Some entry \<Rightarrow>
          if pe_generation entry = generation
          then state\<lparr>rs_pending := hm_remove tid (rs_pending state)\<rparr>
          else state
      | None \<Rightarrow> state)"

definition deliver ::
  "(accepted_response, 'ch) mpsc \<Rightarrow> socket_addr \<Rightarrow> krpc_message \<Rightarrow> ('i, 'ch) transactions
   \<Rightarrow> delivery_outcome \<times> ('i, 'ch) transactions" where
  "deliver mp source message t =
     (if km_message_type message \<notin> {bstr ''r'', bstr ''e''} then (InvalidMessageType, t)
      else
        (case tid_from_slice (km_transaction_id message) of
           Inl _ \<Rightarrow> (InvalidTransactionId, t)
         | Inr tid \<Rightarrow>
             let source = tx_normalize_socket_addr source; state = tx_registry t
             in if rs_closed state then (DeliveryClosed, t)
                else
                  (case hm_get (rs_pending state) tid of
                     None \<Rightarrow> (UnknownTransaction, t)
                   | Some entry \<Rightarrow>
                       if source \<noteq> pe_expected_source entry
                       then (AddressMismatch (pe_expected_source entry), t)
                       else if pe_state entry = Delivered then (DeliveryDuplicate, t)
                       else
                         let generation = pe_generation entry;
                             (result, channel) =
                               mp_try_send mp \<lparr>ar_source = source, ar_message = message\<rparr>
                                 (the (hm_get (tx_channels t) generation));
                             t = t\<lparr>tx_channels := hm_insert generation channel (tx_channels t)\<rparr>;
                             delivered = state\<lparr>rs_pending :=
                               hm_insert tid (entry\<lparr>pe_state := Delivered\<rparr>) (rs_pending state)\<rparr>
                         in (case result of
                               SendOk \<Rightarrow> (DeliveryDelivered, t\<lparr>tx_registry := delivered\<rparr>)
                             | SendFull \<Rightarrow> (DeliveryDuplicate, t\<lparr>tx_registry := delivered\<rparr>)
                             | SendClosed \<Rightarrow>
                                 (WaiterGone, t\<lparr>tx_registry := remove_registration tid generation state\<rparr>)))))"

definition tx_close :: "('i, 'ch) transactions \<Rightarrow> ('i, 'ch) transactions" where
  "tx_close t = t\<lparr>tx_registry := (tx_registry t)\<lparr>rs_closed := True, rs_pending := []\<rparr>\<rparr>"

definition pending_count :: "('i, 'ch) transactions \<Rightarrow> nat" where
  "pending_count t = length (rs_pending (tx_registry t))"

definition is_pending :: "('i, 'ch) transactions \<Rightarrow> transaction_id \<Rightarrow> bool" where
  "is_pending t tid = hm_contains (rs_pending (tx_registry t)) tid"

definition drop_guard :: "registration_guard \<Rightarrow> ('i, 'ch) transactions \<Rightarrow> ('i, 'ch) transactions" where
  "drop_guard g t =
     t\<lparr>tx_registry := remove_registration (rg_transaction_id g) (rg_generation g) (tx_registry t)\<rparr>"

text \<open>The drop of the receiver of a generation.\<close>

definition drop_receiver ::
  "(accepted_response, 'ch) mpsc \<Rightarrow> registration_guard \<Rightarrow> ('i, 'ch) transactions \<Rightarrow> ('i, 'ch) transactions" where
  "drop_receiver mp g t =
     t\<lparr>tx_channels := hm_insert (rg_generation g)
        (mp_drop_receiver mp (the (hm_get (tx_channels t) (rg_generation g)))) (tx_channels t)\<rparr>"

text \<open>The drop of a query that was never sent: its fields in declaration order.\<close>

definition drop_registered ::
  "(accepted_response, 'ch) mpsc \<Rightarrow> registered_query \<Rightarrow> ('i, 'ch) transactions \<Rightarrow> ('i, 'ch) transactions" where
  "drop_registered mp q t = drop_receiver mp (rq_guard q) (drop_guard (rq_guard q) t)"

definition mark_sent :: "registered_query \<Rightarrow> pending_transaction" where
  "mark_sent q = \<lparr>pt_guard = rq_guard q\<rparr>"

definition rq_wire :: "(nat \<Rightarrow> bvalue \<Rightarrow> string + bytes) \<Rightarrow> registered_query \<Rightarrow> wire_error + bytes" where
  "rq_wire emit q = krpc_encode emit (rq_message q)"

text \<open>\<open>PendingTransaction::finish\<close>: the receiver goes before the guard.\<close>

definition finish ::
  "(accepted_response, 'ch) mpsc \<Rightarrow> pending_transaction \<Rightarrow> ('i, 'ch) transactions \<Rightarrow> ('i, 'ch) transactions" where
  "finish mp p t = drop_guard (pt_guard p) (drop_receiver mp (pt_guard p) t)"

datatype 'm recv_result = Received 'm | SenderGone | Elapsed

text \<open>The result of \<open>timeout(receiver.recv())\<close> as the outcome of \<open>wait\<close>, and its final state.\<close>

fun wait_outcome :: "accepted_response recv_result \<Rightarrow> transaction_wait_outcome" where
  "wait_outcome (Received accepted) = classify_response accepted"
| "wait_outcome SenderGone = WaitRegistryClosed"
| "wait_outcome Elapsed = WaitTimeout"

definition wait_finish ::
  "(accepted_response, 'ch) mpsc \<Rightarrow> pending_transaction \<Rightarrow> accepted_response recv_result \<Rightarrow> ('i, 'ch) transactions
   \<Rightarrow> transaction_wait_outcome \<times> ('i, 'ch) transactions" where
  "wait_finish mp p r t = (wait_outcome r, finish mp p t)"

definition cancel ::
  "(accepted_response, 'ch) mpsc \<Rightarrow> pending_transaction \<Rightarrow> ('i, 'ch) transactions
   \<Rightarrow> transaction_wait_outcome \<times> ('i, 'ch) transactions" where
  "cancel mp p t = (WaitCancelled, finish mp p t)"

section \<open>Sending a query\<close>

datatype 'e register_send_error = RegisterFailed register_error | SendFailed 'e

definition rq_send ::
  "(accepted_response, 'ch) mpsc \<Rightarrow> (registered_query \<Rightarrow> 'n \<Rightarrow> ('e + unit) \<times> 'n) \<Rightarrow> registered_query
   \<Rightarrow> ('i, 'ch) transactions \<Rightarrow> 'n
   \<Rightarrow> ('e register_send_error + pending_transaction) \<times> ('i, 'ch) transactions \<times> 'n" where
  "rq_send mp send q t n =
     (case send q n of
        (Inl e, n) \<Rightarrow> (Inl (SendFailed e), drop_registered mp q t, n)
      | (Inr _, n) \<Rightarrow> (Inr (mark_sent q), t, n))"

definition register_before_send ::
  "('i \<Rightarrow> (string + transaction_id) \<times> 'i) \<Rightarrow> (accepted_response, 'ch) mpsc
   \<Rightarrow> (registered_query \<Rightarrow> 'n \<Rightarrow> ('e + unit) \<times> 'n) \<Rightarrow> socket_addr \<Rightarrow> bytes \<Rightarrow> message_args
   \<Rightarrow> ('i, 'ch) transactions \<Rightarrow> 'n
   \<Rightarrow> ('e register_send_error + pending_transaction) \<times> ('i, 'ch) transactions \<times> 'n" where
  "register_before_send next_id mp send remote query args t n =
     (case register next_id mp remote query args t of
        (Inl e, t) \<Rightarrow> (Inl (RegisterFailed e), t, n)
      | (Inr q, t) \<Rightarrow> rq_send mp send q t n)"

datatype 'e query_send_error =
  QuerySendRegister register_error
| QuerySendEncode wire_error
| QuerySendTransport 'e

definition register_encode_and_send_query ::
  "('i \<Rightarrow> (string + transaction_id) \<times> 'i) \<Rightarrow> (accepted_response, 'ch) mpsc
   \<Rightarrow> (socket_addr \<Rightarrow> bytes \<Rightarrow> 'n \<Rightarrow> ('e + unit) \<times> 'n) \<Rightarrow> socket_addr \<Rightarrow> bytes \<Rightarrow> message_args
   \<Rightarrow> (registered_query \<Rightarrow> wire_error + bytes) \<Rightarrow> ('i, 'ch) transactions \<Rightarrow> 'n
   \<Rightarrow> ('e query_send_error + pending_transaction) \<times> ('i, 'ch) transactions \<times> 'n" where
  "register_encode_and_send_query next_id mp send remote query args encode t n =
     (case register next_id mp remote query args t of
        (Inl e, t) \<Rightarrow> (Inl (QuerySendRegister e), t, n)
      | (Inr q, t) \<Rightarrow>
          (case encode q of
             Inl e \<Rightarrow> (Inl (QuerySendEncode e), drop_registered mp q t, n)
           | Inr wire \<Rightarrow>
               (case send (rq_remote q) wire n of
                  (Inl e, n) \<Rightarrow> (Inl (QuerySendTransport e), drop_registered mp q t, n)
                | (Inr _, n) \<Rightarrow> (Inr (mark_sent q), t, n))))"

definition register_and_send_query ::
  "(nat \<Rightarrow> bvalue \<Rightarrow> string + bytes) \<Rightarrow> ('i \<Rightarrow> (string + transaction_id) \<times> 'i) \<Rightarrow> (accepted_response, 'ch) mpsc
   \<Rightarrow> (socket_addr \<Rightarrow> bytes \<Rightarrow> 'n \<Rightarrow> ('e + unit) \<times> 'n) \<Rightarrow> socket_addr \<Rightarrow> bytes \<Rightarrow> message_args
   \<Rightarrow> ('i, 'ch) transactions \<Rightarrow> 'n
   \<Rightarrow> ('e query_send_error + pending_transaction) \<times> ('i, 'ch) transactions \<times> 'n" where
  "register_and_send_query emit next_id mp send remote query args t n =
     register_encode_and_send_query next_id mp send remote query args (rq_wire emit) t n"

end
