(* ===== verification/Transaction_Safety.thy ===== *)
theory Transaction_Safety
  imports Transaction
begin

text \<open>
  The transaction registry as a state machine: the operations of any number of callers in any
  order, each one atomic under the registry lock. The two drops that end a transaction are
  separate steps, so that a delivery may come between them. The invariant ties every pending entry
  to the one query that owns its generation.
\<close>

section \<open>The machine\<close>

text \<open>Next to the registry: the queries given out, and what each has received, by generation.\<close>

record ('i, 'ch) tx_world =
  tw_tx :: "('i, 'ch) transactions"
  tw_queries :: "u64 \<rightharpoonup> registered_query"
  tw_received :: "u64 \<Rightarrow> accepted_response list"

definition tx_new :: "'i \<Rightarrow> ('i, 'ch) transactions" where
  "tx_new issuer = \<lparr>tx_issuer = issuer, tx_registry = registry_default, tx_channels = []\<rparr>"

definition tw_init :: "'i \<Rightarrow> ('i, 'ch) tx_world" where
  "tw_init issuer = \<lparr>tw_tx = tx_new issuer, tw_queries = Map.empty, tw_received = \<lambda>_. []\<rparr>"

inductive tx_step ::
  "('i \<Rightarrow> (string + transaction_id) \<times> 'i) \<Rightarrow> (accepted_response, 'ch) mpsc
   \<Rightarrow> ('i, 'ch) tx_world \<Rightarrow> ('i, 'ch) tx_world \<Rightarrow> bool"
  for next_id mp where
  registered:
    "register next_id mp remote query args (tw_tx w) = (Inr q, t) \<Longrightarrow>
     tx_step next_id mp w
       (w\<lparr>tw_tx := t, tw_queries := (tw_queries w)(rg_generation (rq_guard q) \<mapsto> q)\<rparr>)"
| register_failed:
    "register next_id mp remote query args (tw_tx w) = (Inl e, t) \<Longrightarrow>
     tx_step next_id mp w (w\<lparr>tw_tx := t\<rparr>)"
| delivered:
    "deliver mp source message (tw_tx w) = (outcome, t) \<Longrightarrow> tx_step next_id mp w (w\<lparr>tw_tx := t\<rparr>)"
| closed:
    "tx_step next_id mp w (w\<lparr>tw_tx := tx_close (tw_tx w)\<rparr>)"
| receiver_dropped:
    "tw_queries w g = Some q \<Longrightarrow>
     tx_step next_id mp w (w\<lparr>tw_tx := drop_receiver mp (rq_guard q) (tw_tx w)\<rparr>)"
| guard_dropped:
    "tw_queries w g = Some q \<Longrightarrow>
     tx_step next_id mp w (w\<lparr>tw_tx := drop_guard (rq_guard q) (tw_tx w)\<rparr>)"
| received:
    "tw_queries w g = Some q \<Longrightarrow> hm_get (tx_channels (tw_tx w)) g = Some c \<Longrightarrow>
     mp_try_recv mp c = (Some m, c') \<Longrightarrow>
     tx_step next_id mp w
       (w\<lparr>tw_tx := (tw_tx w)\<lparr>tx_channels := hm_insert g c' (tx_channels (tw_tx w))\<rparr>,
          tw_received := (tw_received w)(g := tw_received w g @ [m])\<rparr>)"

inductive tx_reachable ::
  "('i \<Rightarrow> (string + transaction_id) \<times> 'i) \<Rightarrow> (accepted_response, 'ch) mpsc \<Rightarrow> ('i, 'ch) tx_world \<Rightarrow> bool"
  for next_id mp where
  start: "tx_reachable next_id mp (tw_init issuer)"
| step: "tx_reachable next_id mp w \<Longrightarrow> tx_step next_id mp w w' \<Longrightarrow> tx_reachable next_id mp w'"

section \<open>The invariant\<close>

text \<open>A response accepted for a query: its own identifier, from the address it was sent to.\<close>

definition accepted_for :: "registered_query \<Rightarrow> accepted_response \<Rightarrow> bool" where
  "accepted_for q a \<longleftrightarrow>
     ar_source a = tx_normalize_socket_addr (rq_remote q)
     \<and> km_transaction_id (ar_message a) = tid_as_bytes (rg_transaction_id (rq_guard q))
     \<and> km_message_type (ar_message a) \<in> {bstr ''r'', bstr ''e''}"

definition generation_ok :: "registered_query \<Rightarrow> accepted_response fifo \<Rightarrow> accepted_response list \<Rightarrow> bool" where
  "generation_ok q f received \<longleftrightarrow>
     ff_capacity f = 1 \<and> length (received @ ff_queue f) \<le> 1
     \<and> (\<forall>a \<in> set (received @ ff_queue f). accepted_for q a)"

definition entry_ok :: "transaction_id \<Rightarrow> pending_entry \<Rightarrow> registered_query \<Rightarrow> accepted_response fifo
    \<Rightarrow> accepted_response list \<Rightarrow> bool" where
  "entry_ok tid e q f received \<longleftrightarrow>
     rg_transaction_id (rq_guard q) = tid
     \<and> pe_expected_source e = tx_normalize_socket_addr (rq_remote q)
     \<and> (pe_state e = Awaiting \<longrightarrow> received @ ff_queue f = [])"

definition queries_ok ::
  "u64 \<Rightarrow> (u64 \<rightharpoonup> registered_query) \<Rightarrow> (u64 \<rightharpoonup> accepted_response fifo)
   \<Rightarrow> (u64 \<Rightarrow> accepted_response list) \<Rightarrow> bool" where
  "queries_ok n Q C R \<longleftrightarrow>
     (\<forall>g. Q g = None \<longrightarrow> R g = [])
     \<and> (\<forall>g q. Q g = Some q \<longrightarrow>
          rg_generation (rq_guard q) = g \<and> g < n \<and> (\<exists>f. C g = Some f \<and> generation_ok q f (R g)))"

definition entries_ok ::
  "(transaction_id \<rightharpoonup> pending_entry) \<Rightarrow> (u64 \<rightharpoonup> registered_query) \<Rightarrow> (u64 \<rightharpoonup> accepted_response fifo)
   \<Rightarrow> (u64 \<Rightarrow> accepted_response list) \<Rightarrow> bool" where
  "entries_ok P Q C R \<longleftrightarrow>
     (\<forall>tid e. P tid = Some e \<longrightarrow>
        (\<exists>q f. Q (pe_generation e) = Some q \<and> C (pe_generation e) = Some f
           \<and> entry_ok tid e q f (R (pe_generation e))))"

lemma queries_okD:
  assumes "queries_ok n Q C R"
  shows "Q g = None \<Longrightarrow> R g = []" and "Q g = Some q \<Longrightarrow> rg_generation (rq_guard q) = g"
    and "Q g = Some q \<Longrightarrow> g < n" and "Q g = Some q \<Longrightarrow> \<exists>f. C g = Some f \<and> generation_ok q f (R g)"
  using assms unfolding queries_ok_def by auto

lemma entries_okD:
  assumes "entries_ok P Q C R" and "P tid = Some e"
  shows "\<exists>q f. Q (pe_generation e) = Some q \<and> C (pe_generation e) = Some f
    \<and> entry_ok tid e q f (R (pe_generation e))"
  using assms unfolding entries_ok_def by blast

lemma entries_ok_fewer: "entries_ok P Q C R \<Longrightarrow> P' \<subseteq>\<^sub>m P \<Longrightarrow> entries_ok P' Q C R"
  unfolding entries_ok_def map_le_def by (metis domI)

text \<open>One generation gets a new buffer and a new history.\<close>

lemma queries_ok_update:
  "queries_ok n Q C R \<Longrightarrow> Q g = Some q \<Longrightarrow> generation_ok q f r \<Longrightarrow>
   queries_ok n Q (C(g \<mapsto> f)) (R(g := r))"
  unfolding queries_ok_def by (simp add: fun_upd_def)

lemma entries_ok_update:
  assumes "entries_ok P Q C R" and "\<And>tid e. P tid = Some e \<Longrightarrow> pe_generation e = g \<Longrightarrow> entry_ok tid e q f r"
    and "Q g = Some q"
  shows "entries_ok P Q (C(g \<mapsto> f)) (R(g := r))"
  unfolding entries_ok_def
proof (intro allI impI)
  fix tid e
  assume e: "P tid = Some e"
  then show "\<exists>q' f'. Q (pe_generation e) = Some q' \<and> (C(g \<mapsto> f)) (pe_generation e) = Some f'
    \<and> entry_ok tid e q' f' ((R(g := r)) (pe_generation e))"
    using entries_okD [OF assms(1) e] assms(2) [OF e] assms(3) by (cases "pe_generation e = g") auto
qed

text \<open>A fresh generation.\<close>

lemma word_less_succ: "g \<noteq> - 1 \<Longrightarrow> (g :: u64) < g + 1"
  using unatSuc [of g] by (simp add: word_less_nat_alt add.commute eq_neg_iff_add_eq_0)

lemma queries_ok_register:
  assumes "queries_ok n Q C R" and "n \<noteq> - 1" and "rg_generation (rq_guard q) = n"
  shows "queries_ok (n + 1) (Q(n \<mapsto> q)) (C(n \<mapsto> fifo_new 1)) R"
proof -
  have fresh: "Q n = None"
    using queries_okD(3) [OF assms(1), of n] by (cases "Q n") auto
  have "g < n + 1" if "g < n" for g
    using that word_less_succ [OF assms(2)] by (rule less_trans)
  with fresh assms(1,3) word_less_succ [OF assms(2)] show ?thesis
    by (auto simp: queries_ok_def generation_ok_def fifo_new_def)
qed

lemma entries_ok_register:
  assumes "entries_ok P Q C R" and "queries_ok n Q C R" and "rg_transaction_id (rq_guard q) = tid"
    and "e = \<lparr>pe_generation = n, pe_expected_source = tx_normalize_socket_addr (rq_remote q), pe_state = Awaiting\<rparr>"
  shows "entries_ok (P(tid \<mapsto> e)) (Q(n \<mapsto> q)) (C(n \<mapsto> fifo_new 1)) R"
proof -
  have fresh: "Q n = None"
    using queries_okD(3) [OF assms(2), of n] by (cases "Q n") auto
  show ?thesis
    unfolding entries_ok_def
  proof (intro allI impI)
    fix tid' e'
    assume e': "(P(tid \<mapsto> e)) tid' = Some e'"
    show "\<exists>q' f. (Q(n \<mapsto> q)) (pe_generation e') = Some q' \<and> (C(n \<mapsto> fifo_new 1)) (pe_generation e') = Some f
      \<and> entry_ok tid' e' q' f (R (pe_generation e'))"
    proof (cases "tid' = tid")
      case True
      with e' assms(3,4) queries_okD(1) [OF assms(2) fresh] show ?thesis
        by (auto simp: entry_ok_def fifo_new_def)
    next
      case False
      with e' entries_okD [OF assms(1), of tid' e'] fresh show ?thesis
        by auto
    qed
  qed
qed

section \<open>Operations keep the invariant\<close>

definition buffers :: "('ch \<Rightarrow> accepted_response fifo) \<Rightarrow> ('i, 'ch) transactions \<Rightarrow> u64 \<rightharpoonup> accepted_response fifo" where
  "buffers view t = map_option view \<circ> hm_get (tx_channels t)"

definition tx_ok ::
  "('ch \<Rightarrow> accepted_response fifo) \<Rightarrow> (u64 \<rightharpoonup> registered_query) \<Rightarrow> (u64 \<Rightarrow> accepted_response list)
   \<Rightarrow> ('i, 'ch) transactions \<Rightarrow> bool" where
  "tx_ok view Q R t \<longleftrightarrow>
     hm_ok (rs_pending (tx_registry t))
     \<and> (rs_closed (tx_registry t) \<longrightarrow> rs_pending (tx_registry t) = [])
     \<and> queries_ok (rs_next_generation (tx_registry t)) Q (buffers view t) R
     \<and> entries_ok (hm_get (rs_pending (tx_registry t))) Q (buffers view t) R"

lemma buffers_insert [simp]:
  "buffers view (t\<lparr>tx_channels := hm_insert g c (tx_channels t)\<rparr>) = (buffers view t)(g \<mapsto> view c)"
  "buffers view (t\<lparr>tx_registry := s\<rparr>) = buffers view t" "buffers view (t\<lparr>tx_issuer := i\<rparr>) = buffers view t"
  "buffers view \<lparr>tx_issuer = i, tx_registry = s, tx_channels = hm_insert g c (tx_channels t)\<rparr>
     = (buffers view t)(g \<mapsto> view c)"
  by (auto simp: buffers_def hmap_simps fun_eq_iff)

lemma select_id_fresh: "select_id n next_id pending i = (Inr tid, i') \<Longrightarrow> \<not> hm_contains pending tid"
  by (induction n next_id pending i rule: select_id.induct) (auto split: prod.splits sum.splits if_splits)

lemma register_Inr:
  assumes "register next_id mp remote query args t = (Inr q, t')"
  shows "\<exists>tid i. \<not> rs_closed (tx_registry t) \<and> \<not> hm_contains (rs_pending (tx_registry t)) tid
    \<and> rs_next_generation (tx_registry t) \<noteq> - 1
    \<and> q = \<lparr>rq_guard = \<lparr>rg_transaction_id = tid, rg_generation = rs_next_generation (tx_registry t)\<rparr>,
           rq_remote = remote, rq_message = query_message tid query args\<rparr>
    \<and> t' = \<lparr>tx_issuer = i,
            tx_registry = (tx_registry t)
              \<lparr>rs_next_generation := rs_next_generation (tx_registry t) + 1,
               rs_pending := hm_insert tid
                 \<lparr>pe_generation = rs_next_generation (tx_registry t),
                  pe_expected_source = tx_normalize_socket_addr remote, pe_state = Awaiting\<rparr>
                 (rs_pending (tx_registry t))\<rparr>,
            tx_channels = hm_insert (rs_next_generation (tx_registry t)) (mp_channel mp 1) (tx_channels t)\<rparr>"
proof -
  obtain r i where r: "select_id TRANSACTION_ID_SPACE next_id (rs_pending (tx_registry t)) (tx_issuer t) = (r, i)"
    by force
  show ?thesis
  proof (cases r)
    case (Inr tid)
    with r assms select_id_fresh [OF r [unfolded Inr]] show ?thesis
      by (intro exI [of _ tid] exI [of _ i]) (auto simp: register_def Let_def split: if_splits)
  qed (use r assms in \<open>auto simp: register_def Let_def split: if_splits\<close>)
qed

lemma register_Inl:
  assumes "register next_id mp remote query args t = (Inl e, t')"
  shows "\<exists>i. t' = t\<lparr>tx_issuer := i\<rparr>"
proof -
  obtain r i where r: "select_id TRANSACTION_ID_SPACE next_id (rs_pending (tx_registry t)) (tx_issuer t) = (r, i)"
    by force
  have "t' = t \<or> t' = t\<lparr>tx_issuer := i\<rparr>"
    using assms r by (cases r) (auto simp: register_def Let_def split: if_splits)
  moreover have "t = t\<lparr>tx_issuer := tx_issuer t\<rparr>" by simp
  ultimately show ?thesis by metis
qed

lemma register_ok:
  assumes "tx_ok view Q R t" and "mpsc_refines mp view" and "register next_id mp remote query args t = (Inr q, t')"
  shows "tx_ok view (Q(rg_generation (rq_guard q) \<mapsto> q)) R t'"
proof -
  let ?n = "rs_next_generation (tx_registry t)"
  obtain tid i where r: "\<not> rs_closed (tx_registry t)" "?n \<noteq> - 1"
    "q = \<lparr>rq_guard = \<lparr>rg_transaction_id = tid, rg_generation = ?n\<rparr>, rq_remote = remote,
          rq_message = query_message tid query args\<rparr>"
    "t' = \<lparr>tx_issuer = i,
            tx_registry = (tx_registry t)\<lparr>rs_next_generation := ?n + 1,
               rs_pending := hm_insert tid
                 \<lparr>pe_generation = ?n, pe_expected_source = tx_normalize_socket_addr remote, pe_state = Awaiting\<rparr>
                 (rs_pending (tx_registry t))\<rparr>,
            tx_channels = hm_insert ?n (mp_channel mp 1) (tx_channels t)\<rparr>"
    using register_Inr [OF assms(3)] by blast
  have ok: "queries_ok ?n Q (buffers view t) R" "entries_ok (hm_get (rs_pending (tx_registry t))) Q (buffers view t) R"
    "hm_ok (rs_pending (tx_registry t))"
    using assms(1) by (simp_all add: tx_ok_def)
  have "queries_ok (?n + 1) (Q(?n \<mapsto> q)) ((buffers view t)(?n \<mapsto> fifo_new 1)) R"
    by (rule queries_ok_register [OF ok(1) r(2)]) (simp add: r(3))
  moreover have "entries_ok ((hm_get (rs_pending (tx_registry t)))(tid \<mapsto>
      \<lparr>pe_generation = ?n, pe_expected_source = tx_normalize_socket_addr remote, pe_state = Awaiting\<rparr>))
      (Q(?n \<mapsto> q)) ((buffers view t)(?n \<mapsto> fifo_new 1)) R"
    by (rule entries_ok_register [OF ok(2,1)]) (simp_all add: r(3))
  ultimately show ?thesis
    using r(1) ok(3) mpsc_refinesD(1) [OF assms(2), of 1]
    by (simp add: tx_ok_def r(3,4) hmap_simps)
qed

lemma remove_registration_simps [simp]:
  "rs_closed (remove_registration tid g s) = rs_closed s"
  "rs_next_generation (remove_registration tid g s) = rs_next_generation s"
  "hm_ok (rs_pending s) \<Longrightarrow> hm_ok (rs_pending (remove_registration tid g s))"
  "rs_pending s = [] \<Longrightarrow> rs_pending (remove_registration tid g s) = []"
  by (auto simp: remove_registration_def split: option.splits)

lemma remove_registration_pending:
  "hm_get (rs_pending (remove_registration tid g s)) =
     (if \<exists>e. hm_get (rs_pending s) tid = Some e \<and> pe_generation e = g
      then (hm_get (rs_pending s))(tid := None) else hm_get (rs_pending s))"
  by (auto simp: remove_registration_def hmap_simps split: option.splits)

lemma remove_registration_ok:
  assumes "tx_ok view Q R t"
  shows "tx_ok view Q R (t\<lparr>tx_registry := remove_registration tid g (tx_registry t)\<rparr>)"
proof -
  have "hm_get (rs_pending (remove_registration tid g (tx_registry t))) \<subseteq>\<^sub>m hm_get (rs_pending (tx_registry t))"
    unfolding remove_registration_pending by (auto simp: map_le_def)
  with assms show ?thesis
    by (auto simp: tx_ok_def intro: entries_ok_fewer)
qed

lemma tx_close_ok: "tx_ok view Q R t \<Longrightarrow> tx_ok view Q R (tx_close t)"
  by (auto simp: tx_ok_def tx_close_def entries_ok_def)

text \<open>A new buffer for one generation, with a new history.\<close>

lemma buffer_ok:
  assumes "tx_ok view Q R t" and "Q g = Some q" and "buffers view t g = Some f"
    and "generation_ok q (view c) r"
    and "\<And>tid e. hm_get (rs_pending (tx_registry t)) tid = Some e \<Longrightarrow> pe_generation e = g \<Longrightarrow>
      pe_state e = Awaiting \<Longrightarrow> R g @ ff_queue f = [] \<Longrightarrow> r @ ff_queue (view c) = []"
  shows "tx_ok view Q (R(g := r)) (t\<lparr>tx_channels := hm_insert g c (tx_channels t)\<rparr>)"
proof -
  have "entries_ok (hm_get (rs_pending (tx_registry t))) Q ((buffers view t)(g \<mapsto> view c)) (R(g := r))"
  proof (rule entries_ok_update [where q = q])
    show entries: "entries_ok (hm_get (rs_pending (tx_registry t))) Q (buffers view t) R"
      using assms(1) by (simp add: tx_ok_def)
    show "entry_ok tid e q (view c) r"
      if "hm_get (rs_pending (tx_registry t)) tid = Some e" and "pe_generation e = g" for tid e
      using entries_okD [OF entries that(1)] that(2) assms(2,3) assms(5) [OF that] by (auto simp: entry_ok_def)
  qed (fact assms(2))
  with assms(1,2,4) queries_ok_update [where g = g and q = q and f = "view c" and r = r] show ?thesis
    by (simp add: tx_ok_def)
qed

lemma drop_receiver_ok:
  assumes "tx_ok view Q R t" and "mpsc_refines mp view" and "Q (rg_generation h) = Some q"
  shows "tx_ok view Q R (drop_receiver mp h t)"
proof -
  let ?g = "rg_generation h"
  obtain f where f: "buffers view t ?g = Some f" "generation_ok q f (R ?g)"
    using assms(1,3) queries_okD(4) by (fastforce simp: tx_ok_def)
  then obtain c where c: "hm_get (tx_channels t) ?g = Some c" "f = view c"
    by (auto simp: buffers_def)
  have "tx_ok view Q (R(?g := R ?g)) (t\<lparr>tx_channels := hm_insert ?g (mp_drop_receiver mp c) (tx_channels t)\<rparr>)"
    by (rule buffer_ok [OF assms(1,3) f(1)])
      (use f(2) in \<open>auto simp: mpsc_refinesD(4) [OF assms(2)] fifo_drop_receiver_def generation_ok_def c(2)\<close>)
  then show ?thesis
    by (simp add: drop_receiver_def c(1))
qed

lemma receive_ok:
  assumes "tx_ok view Q R t" and "mpsc_refines mp view" and "Q g = Some q"
    and "hm_get (tx_channels t) g = Some c" and "mp_try_recv mp c = (Some m, c')"
  shows "tx_ok view Q (R(g := R g @ [m])) (t\<lparr>tx_channels := hm_insert g c' (tx_channels t)\<rparr>)"
proof -
  have f: "buffers view t g = Some (view c)"
    using assms(4) by (simp add: buffers_def)
  then have ok: "generation_ok q (view c) (R g)"
    using assms(1,3) queries_okD(4) by (fastforce simp: tx_ok_def)
  have "ff_queue (view c) = m # ff_queue (view c')" "ff_capacity (view c') = ff_capacity (view c)"
    using fifo_try_recv_Some [OF mpsc_refinesD(3) [OF assms(2,5)]] by simp_all
  with ok show ?thesis
    by (intro buffer_ok [OF assms(1,3) f]) (auto simp: generation_ok_def)
qed

text \<open>A delivery is a refusal, a hand-over to the waiter, or finds the waiter gone.\<close>

lemma tid_from_slice_Inr: "tid_from_slice v = Inr tid \<longleftrightarrow> tid_as_bytes tid = v"
  by (cases tid) (auto simp: tid_from_slice_def split: list.splits)

lemma not_delivered: "s \<noteq> Delivered \<longleftrightarrow> s = Awaiting"
  by (cases s) simp_all

lemma deliver_cases:
  assumes "deliver mp source message t = (outcome, t')"
  obtains "t' = t" "outcome \<notin> {DeliveryDelivered, WaiterGone}"
  | tid e result c' s' where
      "tid_as_bytes tid = km_transaction_id message" "km_message_type message \<in> {bstr ''r'', bstr ''e''}"
      "\<not> rs_closed (tx_registry t)" "hm_get (rs_pending (tx_registry t)) tid = Some e"
      "pe_expected_source e = tx_normalize_socket_addr source" "pe_state e = Awaiting"
      "mp_try_send mp \<lparr>ar_source = tx_normalize_socket_addr source, ar_message = message\<rparr>
         (the (hm_get (tx_channels t) (pe_generation e))) = (result, c')"
      "t' = t\<lparr>tx_channels := hm_insert (pe_generation e) c' (tx_channels t), tx_registry := s'\<rparr>"
      "(outcome, s') =
         (if result = SendClosed then (WaiterGone, remove_registration tid (pe_generation e) (tx_registry t))
          else (if result = SendOk then DeliveryDelivered else DeliveryDuplicate,
            (tx_registry t)\<lparr>rs_pending := hm_insert tid (e\<lparr>pe_state := Delivered\<rparr>) (rs_pending (tx_registry t))\<rparr>))"
proof (cases "km_message_type message \<in> {bstr ''r'', bstr ''e''} \<and> (\<exists>tid e. tid_from_slice (km_transaction_id message) = Inr tid
    \<and> \<not> rs_closed (tx_registry t) \<and> hm_get (rs_pending (tx_registry t)) tid = Some e
    \<and> pe_expected_source e = tx_normalize_socket_addr source \<and> pe_state e = Awaiting)")
  case True
  then obtain tid e where e: "km_message_type message \<in> {bstr ''r'', bstr ''e''}"
    "tid_from_slice (km_transaction_id message) = Inr tid" "\<not> rs_closed (tx_registry t)"
    "hm_get (rs_pending (tx_registry t)) tid = Some e"
    "pe_expected_source e = tx_normalize_socket_addr source" "pe_state e = Awaiting"
    by blast
  obtain result c' where send: "mp_try_send mp \<lparr>ar_source = tx_normalize_socket_addr source, ar_message = message\<rparr>
         (the (hm_get (tx_channels t) (pe_generation e))) = (result, c')"
    by force
  show thesis
    by (rule that(2) [of tid e result c' "tx_registry t'"])
      (use assms e send in \<open>cases result; auto simp: deliver_def tid_from_slice_Inr Let_def\<close>)+
next
  case False
  have "t' = t \<and> outcome \<notin> {DeliveryDelivered, WaiterGone}"
    using assms False
    by (auto simp: deliver_def Let_def not_delivered split: if_splits sum.splits option.splits)
  then show thesis using that(1) by blast
qed

lemma tx_update_commute: "t\<lparr>tx_channels := c, tx_registry := s\<rparr> = t\<lparr>tx_registry := s, tx_channels := c\<rparr>"
  by (cases t) simp

lemma mark_delivered_ok:
  assumes "tx_ok view Q R t" and "hm_get (rs_pending (tx_registry t)) tid = Some e" and "\<not> rs_closed (tx_registry t)"
  shows "tx_ok view Q R (t\<lparr>tx_registry := (tx_registry t)
    \<lparr>rs_pending := hm_insert tid (e\<lparr>pe_state := Delivered\<rparr>) (rs_pending (tx_registry t))\<rparr>\<rparr>)"
proof -
  have entries: "entries_ok (hm_get (rs_pending (tx_registry t))) Q (buffers view t) R"
    using assms(1) by (simp add: tx_ok_def)
  have "entries_ok ((hm_get (rs_pending (tx_registry t)))(tid \<mapsto> e\<lparr>pe_state := Delivered\<rparr>)) Q (buffers view t) R"
    using entries entries_okD [OF entries assms(2)] by (auto simp: entries_ok_def entry_ok_def)
  with assms(1,3) show ?thesis
    by (simp add: tx_ok_def hmap_simps)
qed

text \<open>What is known of the waiter of an awaiting entry.\<close>

lemma awaiting_waiter:
  assumes "tx_ok view Q R t" and "mpsc_refines mp view" and "hm_get (rs_pending (tx_registry t)) tid = Some e"
    and "pe_state e = Awaiting"
    and "mp_try_send mp m (the (hm_get (tx_channels t) (pe_generation e))) = (result, c')"
  obtains q f where "Q (pe_generation e) = Some q" "buffers view t (pe_generation e) = Some f"
    "entry_ok tid e q f (R (pe_generation e))" "generation_ok q f (R (pe_generation e))"
    "R (pe_generation e) = []" "ff_queue f = []" "fifo_try_send m f = (result, view c')"
proof -
  have "entries_ok (hm_get (rs_pending (tx_registry t))) Q (buffers view t) R"
    using assms(1) by (simp add: tx_ok_def)
  then obtain q f where q: "Q (pe_generation e) = Some q" "buffers view t (pe_generation e) = Some f"
    "entry_ok tid e q f (R (pe_generation e))"
    using entries_okD assms(3) by blast
  then have gen: "generation_ok q f (R (pe_generation e))"
    using assms(1) queries_okD(4) by (fastforce simp: tx_ok_def)
  obtain c where c: "hm_get (tx_channels t) (pe_generation e) = Some c" "f = view c"
    using q(2) by (auto simp: buffers_def)
  have "fifo_try_send m f = (result, view c')"
    using mpsc_refinesD(2) [OF assms(2,5)] by (simp add: c)
  with q gen assms(4) that show ?thesis
    by (simp add: entry_ok_def)
qed

lemma deliver_ok:
  assumes ok: "tx_ok view Q R t" and mp: "mpsc_refines mp view" and "deliver mp source message t = (outcome, t')"
  shows "tx_ok view Q R t'"
  using assms(3)
proof (cases rule: deliver_cases)
  case 1
  with ok show ?thesis by simp
next
  case (2 tid e result c' s')
  let ?g = "pe_generation e" and ?m = "\<lparr>ar_source = tx_normalize_socket_addr source, ar_message = message\<rparr>"
  obtain q f where q: "Q ?g = Some q" "buffers view t ?g = Some f" "entry_ok tid e q f (R ?g)"
    and gen: "generation_ok q f (R ?g)" and empty: "R ?g = []" "ff_queue f = []"
    and send: "fifo_try_send ?m f = (result, view c')"
    by (rule awaiting_waiter [OF ok mp 2(4,6,7)])
  show ?thesis
  proof (cases "result = SendClosed")
    case True
    then have "view c' = f"
      using fifo_try_send_cases(4) [OF send] by simp
    then have "tx_ok view Q (R(?g := R ?g)) (t\<lparr>tx_channels := hm_insert ?g c' (tx_channels t)\<rparr>)"
      by (intro buffer_ok [OF ok q(1,2)]) (use gen in auto)
    then have "tx_ok view Q R (t\<lparr>tx_channels := hm_insert ?g c' (tx_channels t)\<rparr>)"
      by simp
    from remove_registration_ok [OF this, of tid ?g] True 2(8,9) show ?thesis
      by simp
  next
    case False
    let ?s = "(tx_registry t)\<lparr>rs_pending := hm_insert tid (e\<lparr>pe_state := Delivered\<rparr>) (rs_pending (tx_registry t))\<rparr>"
    let ?t = "t\<lparr>tx_registry := ?s\<rparr>"
    have "result = SendOk"
      using False fifo_try_send_cases(1,2) [OF send] empty gen by (auto simp: generation_ok_def)
    then have f': "view c' = f\<lparr>ff_queue := [?m]\<rparr>"
      using fifo_try_send_cases(3) [OF send] empty by simp
    have ok': "tx_ok view Q R ?t"
      by (rule mark_delivered_ok [OF ok 2(4) 2(3)])
    have "accepted_for q ?m"
      using q(3) 2(1,2,5) by (simp add: accepted_for_def entry_ok_def)
    then have "generation_ok q (view c') (R ?g)"
      using gen empty by (simp add: generation_ok_def f')
    moreover have "buffers view ?t ?g = Some f"
      using q(2) by simp
    moreover have "pe_state e' \<noteq> Awaiting" if "hm_get (rs_pending (tx_registry ?t)) tid' = Some e'" "pe_generation e' = ?g" for tid' e'
    proof -
      have "entries_ok (hm_get (rs_pending (tx_registry ?t))) Q (buffers view ?t) R"
        using ok' by (simp add: tx_ok_def)
      with that q have "tid' = tid"
        using entries_okD [of "hm_get (rs_pending (tx_registry ?t))" Q "buffers view ?t" R tid' e']
        by (auto simp: entry_ok_def)
      with that show ?thesis by (auto simp: hmap_simps)
    qed
    ultimately have "tx_ok view Q (R(?g := R ?g)) (?t\<lparr>tx_channels := hm_insert ?g c' (tx_channels ?t)\<rparr>)"
      by (intro buffer_ok [OF ok' q(1)]) blast+
    with False 2(8,9) show ?thesis
      by (simp add: tx_update_commute)
  qed
qed

lemma tx_step_ok:
  assumes "tx_step next_id mp w w'" and "mpsc_refines mp view" and "tx_ok view (tw_queries w) (tw_received w) (tw_tx w)"
  shows "tx_ok view (tw_queries w') (tw_received w') (tw_tx w')"
  using assms(1)
proof cases
  case (register_failed remote query args e t)
  then obtain i where "t = (tw_tx w)\<lparr>tx_issuer := i\<rparr>"
    using register_Inl by blast
  with register_failed assms(3) show ?thesis
    by (simp add: tx_ok_def)
next
  case (receiver_dropped g q)
  then have "rg_generation (rq_guard q) = g"
    using assms(3) queries_okD(2) by (fastforce simp: tx_ok_def)
  with receiver_dropped assms(2,3) show ?thesis
    by (simp add: drop_receiver_ok)
next
  case (received g q c m c')
  with assms(2,3) show ?thesis
    by (simp add: receive_ok)
qed (use assms(2,3) in \<open>simp_all add: register_ok deliver_ok tx_close_ok remove_registration_ok drop_guard_def\<close>)

lemma tw_init_ok: "tx_ok view (tw_queries (tw_init i)) (tw_received (tw_init i)) (tw_tx (tw_init i))"
  by (simp add: tw_init_def tx_new_def registry_default_def tx_ok_def queries_ok_def entries_ok_def)

lemma tx_reachable_ok:
  "tx_reachable next_id mp w \<Longrightarrow> mpsc_refines mp view \<Longrightarrow> tx_ok view (tw_queries w) (tw_received w) (tw_tx w)"
  by (induction rule: tx_reachable.induct) (auto intro: tw_init_ok tx_step_ok)

text \<open>There are as many identifiers as the source counts.\<close>

lemma card_transaction_id: "card (UNIV :: transaction_id set) = TRANSACTION_ID_SPACE"
proof -
  have "bij_betw (\<lambda>(a, b). TransactionId a b) UNIV UNIV"
    by (rule bij_betw_byWitness [where f' = "\<lambda>t. case t of TransactionId a b \<Rightarrow> (a, b)"])
      (auto split: transaction_id.splits)
  then have "card (UNIV :: transaction_id set) = card (UNIV :: (u8 \<times> u8) set)"
    by (metis bij_betw_same_card)
  also have "\<dots> = TRANSACTION_ID_SPACE"
    by (simp add: card_word flip: UNIV_Times_UNIV)
  finally show ?thesis .
qed

lemma pending_bound:
  assumes "hm_ok (m :: (transaction_id, 'v) hmap)"
  shows "length m \<le> TRANSACTION_ID_SPACE"
proof -
  have "finite (UNIV :: transaction_id set)"
    using card_transaction_id by (metis card.infinite zero_neq_numeral)
  then have "card (hm_keys m) \<le> TRANSACTION_ID_SPACE"
    unfolding card_transaction_id [symmetric] by (rule card_mono) simp
  then show ?thesis
    using assms by (simp add: hm_length)
qed

lemma deliver_registry:
  assumes "deliver mp source message t = (outcome, t')"
  shows "rs_closed (tx_registry t') = rs_closed (tx_registry t)"
  using assms by (cases rule: deliver_cases) (auto split: if_splits)

lemma tx_step_closed:
  assumes "tx_step next_id mp w w'" and "rs_closed (tx_registry (tw_tx w))"
  shows "rs_closed (tx_registry (tw_tx w'))"
  using assms(1)
proof cases
  case (registered remote query args q t)
  with assms(2) register_Inr [of next_id mp remote query args "tw_tx w" q t] show ?thesis
    by auto
next
  case (register_failed remote query args e t)
  with assms(2) register_Inl [of next_id mp remote query args "tw_tx w" e t] show ?thesis
    by auto
next
  case (delivered source message outcome t)
  with assms(2) deliver_registry [of mp source message "tw_tx w" outcome t] show ?thesis
    by auto
qed (use assms(2) in \<open>simp_all add: tx_close_def drop_receiver_def drop_guard_def\<close>)

section \<open>Properties\<close>

text \<open>
  (C19)
  Responses are correlated with their queries: in every reachable state of the registry a query
  has received at most one response, which carries the query's own transaction identifier, came
  from the address the query was sent to and is of type \<open>r\<close> or \<open>e\<close>, no matter how identifiers are
  reused by later queries; every pending identifier belongs to one query, and at most 65,536 are
  pending.
\<close>

theorem transaction_isolation:
  assumes "mpsc_refines mp view" and "tx_reachable next_id mp w"
  shows "(\<forall>g q. tw_queries w g = Some q \<longrightarrow>
      length (tw_received w g) \<le> 1 \<and> (\<forall>a \<in> set (tw_received w g). accepted_for q a))
    \<and> (\<forall>tid e. hm_get (rs_pending (tx_registry (tw_tx w))) tid = Some e \<longrightarrow>
         (\<exists>q. tw_queries w (pe_generation e) = Some q \<and> rg_transaction_id (rq_guard q) = tid))
    \<and> distinct (map fst (rs_pending (tx_registry (tw_tx w))))
    \<and> pending_count (tw_tx w) \<le> TRANSACTION_ID_SPACE"
proof -
  have ok: "hm_ok (rs_pending (tx_registry (tw_tx w)))"
    "queries_ok (rs_next_generation (tx_registry (tw_tx w))) (tw_queries w) (buffers view (tw_tx w)) (tw_received w)"
    "entries_ok (hm_get (rs_pending (tx_registry (tw_tx w)))) (tw_queries w) (buffers view (tw_tx w)) (tw_received w)"
    using tx_reachable_ok [OF assms(2,1)] by (simp_all add: tx_ok_def)
  have "length (tw_received w g) \<le> 1 \<and> (\<forall>a \<in> set (tw_received w g). accepted_for q a)" if "tw_queries w g = Some q" for g q
    using queries_okD(4) [OF ok(2) that] by (auto simp: generation_ok_def)
  moreover have "\<exists>q. tw_queries w (pe_generation e) = Some q \<and> rg_transaction_id (rq_guard q) = tid"
    if "hm_get (rs_pending (tx_registry (tw_tx w))) tid = Some e" for tid e
    using entries_okD [OF ok(3) that] by (auto simp: entry_ok_def)
  ultimately show ?thesis
    using ok(1) pending_bound [OF ok(1)] by (simp add: pending_count_def hm_ok_def)
qed

text \<open>
  (C20)
  The first response wins and reaches its waiter: after a delivery is reported, the receiver of the
  query it was accepted for reads exactly this response, and every further response with the same
  identifier from the same address is a duplicate that changes nothing.
\<close>

theorem first_response_wins:
  assumes "mpsc_refines mp view" and "tx_reachable next_id mp w"
    and "deliver mp source message (tw_tx w) = (DeliveryDelivered, t)"
  shows "\<exists>g q c c'. tw_queries w g = Some q \<and> accepted_for q \<lparr>ar_source = tx_normalize_socket_addr source, ar_message = message\<rparr>
    \<and> tw_received w g = [] \<and> hm_get (tx_channels t) g = Some c
    \<and> mp_try_recv mp c = (Some \<lparr>ar_source = tx_normalize_socket_addr source, ar_message = message\<rparr>, c')
    \<and> (\<forall>source' message'. tx_normalize_socket_addr source' = tx_normalize_socket_addr source
         \<and> km_transaction_id message' = km_transaction_id message
         \<and> km_message_type message' \<in> {bstr ''r'', bstr ''e''}
         \<longrightarrow> deliver mp source' message' t = (DeliveryDuplicate, t))"
  using assms(3)
proof (cases rule: deliver_cases)
  case (2 tid e result c' s')
  let ?g = "pe_generation e" and ?m = "\<lparr>ar_source = tx_normalize_socket_addr source, ar_message = message\<rparr>"
  have "result = SendOk" and s': "s' = (tx_registry (tw_tx w))
      \<lparr>rs_pending := hm_insert tid (e\<lparr>pe_state := Delivered\<rparr>) (rs_pending (tx_registry (tw_tx w)))\<rparr>"
    using 2(9) by (auto split: if_splits)
  obtain q f where q: "tw_queries w ?g = Some q" "entry_ok tid e q f (tw_received w ?g)"
    and empty: "tw_received w ?g = []" "ff_queue f = []" and send: "fifo_try_send ?m f = (result, view c')"
    by (rule awaiting_waiter [OF tx_reachable_ok [OF assms(2,1)] assms(1) 2(4,6,7)])
  obtain x c'' where recv: "mp_try_recv mp c' = (x, c'')"
    by force
  have "ff_queue (view c') = [?m]"
    using fifo_try_send_cases(3) [OF send \<open>result = SendOk\<close>] empty by simp
  then have "x = Some ?m"
    using mpsc_refinesD(3) [OF assms(1) recv] by (simp add: fifo_try_recv_def)
  moreover have "accepted_for q ?m"
    using q(2) 2(1,2,5) by (simp add: accepted_for_def entry_ok_def)
  moreover have "deliver mp source' message' t = (DeliveryDuplicate, t)"
    if "tx_normalize_socket_addr source' = tx_normalize_socket_addr source"
      and "km_transaction_id message' = km_transaction_id message" "km_message_type message' \<in> {bstr ''r'', bstr ''e''}"
    for source' message'
  proof -
    have "tid_from_slice (km_transaction_id message') = Inr tid"
      using that(2) 2(1) by (simp add: tid_from_slice_Inr)
    with that 2(3,5,8) show ?thesis
      by (auto simp: deliver_def Let_def s' hmap_simps)
  qed
  ultimately show ?thesis
    using q(1) empty(1) recv 2(8) by (intro exI [of _ ?g] exI [of _ q] exI [of _ c'] exI [of _ c'']) (auto simp: hmap_simps)
qed simp

text \<open>
  A closed registry stays closed: whatever happens after it was closed, nothing is pending, every
  registration is refused, and no response is delivered.
\<close>

theorem closed_registry_final:
  assumes "mpsc_refines mp view" and "tx_reachable next_id mp w" and "rs_closed (tx_registry (tw_tx w))"
    and "(tx_step next_id mp)\<^sup>*\<^sup>* w w'"
  shows "pending_count (tw_tx w') = 0
    \<and> register next_id mp remote query args (tw_tx w') = (Inl RegisterClosed, tw_tx w')
    \<and> fst (deliver mp source message (tw_tx w')) \<in> {InvalidMessageType, InvalidTransactionId, DeliveryClosed}
    \<and> snd (deliver mp source message (tw_tx w')) = tw_tx w'"
proof -
  from assms(4) have "tx_reachable next_id mp w' \<and> rs_closed (tx_registry (tw_tx w'))"
    using assms(2,3) by induction (auto intro: tx_reachable.step tx_step_closed)
  with tx_reachable_ok [OF _ assms(1), of next_id w'] show ?thesis
    by (auto simp: tx_ok_def pending_count_def register_def deliver_def Let_def split: sum.splits)
qed

text \<open>Dropping a registered query that was never sent undoes its registration.\<close>

lemma drop_registered_pending:
  assumes "register next_id mp remote query args t = (Inr q, t')"
  shows "hm_get (rs_pending (tx_registry (drop_registered mp q t'))) = hm_get (rs_pending (tx_registry t))"
proof -
  obtain tid where r: "\<not> hm_contains (rs_pending (tx_registry t)) tid"
    "rq_guard q = \<lparr>rg_transaction_id = tid, rg_generation = rs_next_generation (tx_registry t)\<rparr>"
    "rs_pending (tx_registry t') = hm_insert tid
               \<lparr>pe_generation = rs_next_generation (tx_registry t),
                pe_expected_source = tx_normalize_socket_addr remote, pe_state = Awaiting\<rparr>
               (rs_pending (tx_registry t))"
    using register_Inr [OF assms] by auto
  have "hm_get (rs_pending (tx_registry t)) tid = None"
    using r(1) unfolding hm_contains_def by simp
  then show ?thesis
    by (simp add: drop_registered_def drop_receiver_def drop_guard_def remove_registration_pending r(2,3) hmap_simps fun_upd_idem)
qed

text \<open>
  Sending a query: on success the query is pending under a fresh identifier and exactly its
  encoding was handed to the sender, for its remote address; on every failure the pending
  identifiers are those of before, and the sender is untouched unless it is the sender that failed.
\<close>

theorem query_send_exact:
  "case register_and_send_query emit next_id mp send remote query args t n of (result, t', n') \<Rightarrow>
     (case result of
        Inr p \<Rightarrow>
          (let tid = rg_transaction_id (pt_guard p)
           in \<not> is_pending t tid \<and> is_pending t' tid
              \<and> (\<exists>wire. krpc_encode emit (query_message tid query args) = Inr wire
                     \<and> send remote wire n = (Inr (), n')))
      | Inl e \<Rightarrow>
          hm_get (rs_pending (tx_registry t')) = hm_get (rs_pending (tx_registry t))
          \<and> (case e of
               QuerySendTransport failure \<Rightarrow> \<exists>wire. send remote wire n = (Inl failure, n')
             | _ \<Rightarrow> n' = n))"
proof (cases "register next_id mp remote query args t")
  case (Pair r t1)
  show ?thesis
  proof (cases r)
    case (Inl e)
    with Pair register_Inl [of next_id mp remote query args t e t1] show ?thesis
      by (auto simp: register_and_send_query_def register_encode_and_send_query_def)
  next
    case (Inr q)
    obtain tid where r: "\<not> hm_contains (rs_pending (tx_registry t)) tid"
      "rq_guard q = \<lparr>rg_transaction_id = tid, rg_generation = rs_next_generation (tx_registry t)\<rparr>"
      "rq_remote q = remote" "rq_message q = query_message tid query args"
      "rs_pending (tx_registry t1) = hm_insert tid
                 \<lparr>pe_generation = rs_next_generation (tx_registry t),
                  pe_expected_source = tx_normalize_socket_addr remote, pe_state = Awaiting\<rparr>
                 (rs_pending (tx_registry t))"
      using register_Inr [of next_id mp remote query args t q t1] Pair Inr by auto
    have dropped: "hm_get (rs_pending (tx_registry (drop_registered mp q t1))) = hm_get (rs_pending (tx_registry t))"
      using drop_registered_pending Pair Inr by simp
    show ?thesis
      using r(1) Pair Inr dropped
      by (auto simp: register_and_send_query_def register_encode_and_send_query_def rq_wire_def r(2-5) mark_sent_def
          is_pending_def hm_contains_def hmap_simps split: sum.splits prod.splits)
  qed
qed

text \<open>The \<open>k\<close>-th draw of an issuer.\<close>

definition issuer_draw :: "('i \<Rightarrow> (string + transaction_id) \<times> 'i) \<Rightarrow> 'i \<Rightarrow> nat \<Rightarrow> string + transaction_id" where
  "issuer_draw next_id i k = fst (next_id (((snd \<circ> next_id) ^^ k) i))"

lemma issuer_draw_Suc: "issuer_draw next_id i (Suc k) = issuer_draw next_id (snd (next_id i)) k"
  by (simp add: issuer_draw_def funpow_swap1)

lemma select_id_finds:
  assumes "k < n" and "\<forall>j \<le> k. issuer_draw next_id i j = Inr (ids j)" and "\<not> hm_contains pending (ids k)"
  shows "\<exists>tid i'. select_id n next_id pending i = (Inr tid, i')"
  using assms
proof (induction n arbitrary: i k ids)
  case (Suc n)
  obtain i' where draw: "next_id i = (Inr (ids 0), i')"
    using Suc.prems(2) by (metis issuer_draw_def comp_apply funpow_0 le0 prod.collapse)
  show ?case
  proof (cases k)
    case 0
    with draw Suc.prems(3) show ?thesis by simp
  next
    case (Suc m)
    have "issuer_draw next_id i' j = issuer_draw next_id i (Suc j)" for j
      using draw by (simp add: issuer_draw_Suc)
    then have "\<forall>j \<le> m. issuer_draw next_id i' j = Inr ((ids \<circ> Suc) j)"
      using Suc.prems(2) by (simp add: Suc)
    from Suc.IH [OF _ this] Suc.prems(1,3) draw show ?thesis
      by (simp add: Suc)
  qed
qed simp

lemma some_fresh_draw:
  assumes "inj_on ids {..< TRANSACTION_ID_SPACE}" and "length (m :: (transaction_id, 'v) hmap) < TRANSACTION_ID_SPACE"
  shows "\<exists>k < TRANSACTION_ID_SPACE. \<not> hm_contains m (ids k)"
proof (rule ccontr)
  assume "\<not> ?thesis"
  then have "ids ` {..< TRANSACTION_ID_SPACE} \<subseteq> fst ` set m"
    by (auto simp: hm_keys_def)
  then have "card (ids ` {..< TRANSACTION_ID_SPACE}) \<le> card (fst ` set m)"
    by (rule card_mono [rotated]) simp
  also have "\<dots> \<le> length m"
    by (metis card_length length_map set_map)
  finally show False
    using assms by (simp add: card_image)
qed

text \<open>
  An issuer that does not repeat itself within 65,536 draws never makes a registration fail: the
  retry loop then finds a free identifier whenever there is one, so that the only failures left
  are a closed registry, 65,536 pending queries, and the end of the generation counter.
\<close>

theorem register_succeeds:
  assumes "mpsc_refines mp view" and "tx_reachable next_id mp w"
    and "\<forall>k < TRANSACTION_ID_SPACE. issuer_draw next_id (tx_issuer (tw_tx w)) k = Inr (ids k)"
    and "inj_on ids {..< TRANSACTION_ID_SPACE}"
  shows "case register next_id mp remote query args (tw_tx w) of
      (Inr q, t) \<Rightarrow> is_pending t (rg_transaction_id (rq_guard q))
        \<and> \<not> is_pending (tw_tx w) (rg_transaction_id (rq_guard q))
    | (Inl e, t) \<Rightarrow> e = RegisterClosed \<and> rs_closed (tx_registry (tw_tx w))
        \<or> e = TransactionIdSpaceFull \<and> pending_count (tw_tx w) = TRANSACTION_ID_SPACE
        \<or> e = GenerationExhausted \<and> rs_next_generation (tx_registry (tw_tx w)) = - 1"
proof (cases "register next_id mp remote query args (tw_tx w)")
  case (Pair r t)
  let ?p = "rs_pending (tx_registry (tw_tx w))"
  show ?thesis
  proof (cases r)
    case (Inr q)
    with Pair register_Inr [of next_id mp remote query args "tw_tx w" q t] show ?thesis
      by (auto simp: is_pending_def hm_contains_def hmap_simps)
  next
    case (Inl e)
    have "\<exists>tid i. select_id TRANSACTION_ID_SPACE next_id ?p (tx_issuer (tw_tx w)) = (Inr tid, i)"
      if "length ?p \<noteq> TRANSACTION_ID_SPACE"
    proof -
      have "hm_ok ?p"
        using tx_reachable_ok [OF assms(2,1)] by (simp add: tx_ok_def)
      then have "length ?p < TRANSACTION_ID_SPACE"
        using pending_bound [of ?p] that by simp
      then obtain k where "k < TRANSACTION_ID_SPACE" "\<not> hm_contains ?p (ids k)"
        using some_fresh_draw [OF assms(4)] by blast
      then show ?thesis
        using assms(3) by (intro select_id_finds [of k _ _ _ ids]) simp_all
    qed
    with Pair Inl show ?thesis
      by (auto simp: register_def Let_def pending_count_def split: if_splits)
  qed
qed

section \<open>Concrete runs\<close>

text \<open>A counting issuer, a query to a local address, and its response.\<close>

definition counting_issuer :: "nat \<Rightarrow> (string + transaction_id) \<times> nat" where
  "counting_issuer i = (Inr (TransactionId (word_of_nat (i div 256)) (word_of_nat i)), i + 1)"

abbreviation example_remote :: socket_addr where
  "example_remote \<equiv> SocketV4 (Ipv4Addr 10 0 0 1) 6881"

definition example_tx_args :: message_args where
  "example_tx_args =
     \<lparr>ma_id = id20_ZERO, ma_info_hash = None, ma_target = None, ma_token = [], ma_port = None,
      ma_implied_port = False, ma_want = None, ma_no_seed = 0, ma_scrape = 0\<rparr>"

definition example_response :: krpc_message where
  "example_response =
     \<lparr>km_transaction_id = [0, 0], km_message_type = bstr ''r'', km_query = [], km_args = None,
      km_response = None, km_error = None, km_observed_addr = None, km_read_only = False, km_client_id = []\<rparr>"

abbreviation example_accepted :: accepted_response where
  "example_accepted \<equiv> \<lparr>ar_source = example_remote, ar_message = example_response\<rparr>"

definition example_registered :: registered_query where
  "example_registered =
     \<lparr>rq_guard = \<lparr>rg_transaction_id = TransactionId 0 0, rg_generation = 0\<rparr>, rq_remote = example_remote,
      rq_message = query_message (TransactionId 0 0) (bstr ''ping'') example_tx_args\<rparr>"

definition example_tx :: "entry_state \<Rightarrow> accepted_response list \<Rightarrow> (nat, accepted_response fifo) transactions" where
  "example_tx s queue =
     \<lparr>tx_issuer = 1,
      tx_registry = \<lparr>rs_closed = False, rs_next_generation = 1,
        rs_pending = [(TransactionId 0 0,
          \<lparr>pe_generation = 0, pe_expected_source = example_remote, pe_state = s\<rparr>)]\<rparr>,
      tx_channels = [(0, \<lparr>ff_queue = queue, ff_capacity = 1, ff_receiver_alive = True\<rparr>)]\<rparr>"

definition example_world ::
  "entry_state \<Rightarrow> accepted_response list \<Rightarrow> accepted_response list \<Rightarrow> (nat, accepted_response fifo) tx_world" where
  "example_world s queue received =
     \<lparr>tw_tx = example_tx s queue, tw_queries = [0 \<mapsto> example_registered],
      tw_received = (\<lambda>_. [])(0 := received)\<rparr>"

lemma select_id_first:
  "0 < n \<Longrightarrow> next_id i = (Inr tid, i') \<Longrightarrow> \<not> hm_contains pending tid \<Longrightarrow>
   select_id n next_id pending i = (Inr tid, i')"
  by (cases n) auto

lemma example_register:
  "register counting_issuer fifo_mpsc example_remote (bstr ''ping'') example_tx_args (tx_new 0)
     = (Inr example_registered, example_tx Awaiting [])"
proof -
  have "select_id TRANSACTION_ID_SPACE counting_issuer [] 0 = (Inr (TransactionId 0 0), 1)"
    by (rule select_id_first) (simp_all add: counting_issuer_def hm_contains_def)
  then show ?thesis
    by (simp add: register_def tx_new_def registry_default_def Let_def example_registered_def example_tx_def
        fifo_mpsc_def fifo_new_def)
qed

lemma example_deliver:
  "deliver fifo_mpsc example_remote example_response (example_tx Awaiting [])
     = (DeliveryDelivered, example_tx Delivered [example_accepted])"
  by (simp add: deliver_def example_tx_def example_response_def tid_from_slice_def fifo_mpsc_def fifo_try_send_def Let_def)

lemma example_reachable:
  "tx_reachable counting_issuer fifo_mpsc (example_world Awaiting [] [])"
  "tx_reachable counting_issuer fifo_mpsc (example_world Delivered [example_accepted] [])"
  "tx_reachable counting_issuer fifo_mpsc (example_world Delivered [] [example_accepted])"
proof -
  have "tx_step counting_issuer fifo_mpsc (tw_init 0) (example_world Awaiting [] [])"
    using tx_step.registered [of counting_issuer fifo_mpsc example_remote "bstr ''ping''" example_tx_args "tw_init 0"]
      example_register by (simp add: tw_init_def example_world_def example_registered_def fun_upd_idem)
  then show 1: "tx_reachable counting_issuer fifo_mpsc (example_world Awaiting [] [])"
    by (rule tx_reachable.step [OF tx_reachable.start])
  have "tx_step counting_issuer fifo_mpsc (example_world Awaiting [] []) (example_world Delivered [example_accepted] [])"
    using tx_step.delivered [of fifo_mpsc example_remote example_response "example_world Awaiting [] []" _ _ counting_issuer]
      example_deliver by (simp add: example_world_def)
  then show 2: "tx_reachable counting_issuer fifo_mpsc (example_world Delivered [example_accepted] [])"
    by (rule tx_reachable.step [OF 1])
  have "tx_step counting_issuer fifo_mpsc (example_world Delivered [example_accepted] [])
      (example_world Delivered [] [example_accepted])"
    using tx_step.received [of "example_world Delivered [example_accepted] []" 0 example_registered _ fifo_mpsc example_accepted]
    by (simp add: example_world_def example_tx_def fifo_mpsc_def fifo_try_recv_def)
  then show "tx_reachable counting_issuer fifo_mpsc (example_world Delivered [] [example_accepted])"
    by (rule tx_reachable.step [OF 2])
qed

theorem transaction_isolation_witness:
  "tx_reachable counting_issuer fifo_mpsc (example_world Delivered [] [example_accepted])
   \<and> tw_received (example_world Delivered [] [example_accepted]) 0 = [example_accepted]
   \<and> accepted_for example_registered example_accepted"
  using transaction_isolation [OF fifo_mpsc_refines example_reachable(3)] example_reachable(3)
  by (simp add: example_world_def)

theorem first_response_wins_witness:
  "deliver fifo_mpsc example_remote example_response (example_tx Delivered [example_accepted])
     = (DeliveryDuplicate, example_tx Delivered [example_accepted])"
  using first_response_wins [OF fifo_mpsc_refines example_reachable(1), of example_remote example_response] example_deliver
  by (auto simp: example_world_def example_response_def)

theorem closed_registry_final_witness:
  "register counting_issuer fifo_mpsc example_remote (bstr ''ping'') example_tx_args (tx_close (tx_new 0))
     = (Inl RegisterClosed, tx_close (tx_new 0))"
proof -
  let ?w = "tw_init 0\<lparr>tw_tx := tx_close (tx_new 0)\<rparr>"
  have "tx_step counting_issuer fifo_mpsc (tw_init 0) ?w"
    using tx_step.closed [of counting_issuer fifo_mpsc "tw_init 0"] by (simp add: tw_init_def)
  then have "tx_reachable counting_issuer fifo_mpsc ?w"
    by (rule tx_reachable.step [OF tx_reachable.start])
  from closed_registry_final [OF fifo_mpsc_refines this, of ?w example_remote "bstr ''ping''" example_tx_args] show ?thesis
    by (simp add: tx_close_def)
qed

lemma counting_draw:
  "issuer_draw counting_issuer 0 k = Inr (TransactionId (word_of_nat (k div 256)) (word_of_nat k))"
proof -
  have "((snd \<circ> counting_issuer) ^^ k) i = i + k" for i
    by (induction k) (simp_all add: counting_issuer_def)
  then show ?thesis
    by (simp add: issuer_draw_def counting_issuer_def)
qed

lemma counting_inj:
  "inj_on (\<lambda>k. TransactionId (word_of_nat (k div 256)) (word_of_nat k)) {..< TRANSACTION_ID_SPACE}"
proof (rule inj_onI)
  fix j k :: nat
  assume "j \<in> {..< TRANSACTION_ID_SPACE}" "k \<in> {..< TRANSACTION_ID_SPACE}"
    and "TransactionId (word_of_nat (j div 256)) (word_of_nat j) = TransactionId (word_of_nat (k div 256)) (word_of_nat k)"
  then have "j div 256 mod 256 = k div 256 mod 256" "j mod 256 = k mod 256" "j div 256 < 256" "k div 256 < 256"
    by (auto simp: word_of_nat_eq_iff take_bit_eq_mod)
  then show "j = k"
    by (metis div_mult_mod_eq mod_less)
qed

theorem register_succeeds_witness:
  "case register counting_issuer fifo_mpsc example_remote (bstr ''ping'') example_tx_args (tx_new 0) of
     (Inr q, t) \<Rightarrow> is_pending t (rg_transaction_id (rq_guard q))
   | (Inl e, t) \<Rightarrow> False"
  using register_succeeds [OF fifo_mpsc_refines tx_reachable.start [of counting_issuer _ 0] _ counting_inj,
      of example_remote "bstr ''ping''" example_tx_args] example_register
  by (simp add: tw_init_def tx_new_def counting_draw)

end
