(* ===== verification/Id_Bits.thy ===== *)
theory Id_Bits
  imports Compact
begin

text \<open>
  The bit view of an identifier that \<open>bitmagnet-dht/src/routing_tree.rs\<close> routes by: single
  bits from the most significant one, the XOR of two identifiers and the number of leading zero
  bits; and the laws the trie proofs use: identifiers are equal when their 160 bits are, XOR acts
  bit by bit, the leading-zero count is the index of the first set bit, and the derived byte
  order of \<open>Id20\<close> is the order at the first bit that differs.
\<close>

section \<open>Bits of an identifier\<close>

abbreviation ROUTING_ID_BITS :: nat where
  "ROUTING_ID_BITS \<equiv> 160"

definition bit_at :: "id20 \<Rightarrow> nat \<Rightarrow> bool" where
  "bit_at i index = (as_bytes i ! (index div 8) AND push_bit (7 - index mod 8) 1 \<noteq> 0)"

text \<open>\<open>fn bit\<close>: indexing past the twentieth byte panics.\<close>

definition id_bit :: "id20 \<Rightarrow> nat \<Rightarrow> bool option" where
  "id_bit i index = (if index div 8 < 20 then Some (bit_at i index) else None)"

definition id_xor :: "id20 \<Rightarrow> id20 \<Rightarrow> id20" where
  "id_xor l r = Id20 (map2 (XOR) (as_bytes l) (as_bytes r))"

text \<open>\<open>u8::leading_zeros\<close>.\<close>

definition u8_leading_zeros :: "u8 \<Rightarrow> nat" where
  "u8_leading_zeros b = length (takeWhile (\<lambda>k. \<not> bit b k) [7, 6, 5, 4, 3, 2, 1, 0])"

definition leading_zeros :: "id20 \<Rightarrow> nat" where
  "leading_zeros i =
     sum_list (takeWhile (\<lambda>zeros. zeros = 8) (map u8_leading_zeros (as_bytes i)))
     + (case find (\<lambda>byte. byte \<noteq> 0) (as_bytes i) of
          None \<Rightarrow> 0
        | Some byte \<Rightarrow> u8_leading_zeros byte)"


section \<open>Bit strings\<close>

definition u8_bits :: "u8 \<Rightarrow> bool list" where
  "u8_bits b = map (bit b) [7, 6, 5, 4, 3, 2, 1, 0]"

definition id_bits :: "id20 \<Rightarrow> bool list" where
  "id_bits i = concat (map u8_bits (as_bytes i))"

lemma u8_bits_length [simp]: "length (u8_bits b) = 8"
  by (simp add: u8_bits_def)

lemma concat_u8_bits_length [simp]: "length (concat (map u8_bits bs)) = 8 * length bs"
  by (induction bs) auto

lemma concat_u8_bits_nth:
  "k < 8 * length bs \<Longrightarrow> concat (map u8_bits bs) ! k = bit (bs ! (k div 8)) (7 - k mod 8)"
proof (induction bs arbitrary: k)
  case (Cons b bs)
  show ?case
  proof (cases "k < 8")
    case True
    then have "k \<in> {0, 1, 2, 3, 4, 5, 6, 7}" by auto
    then show ?thesis
      by (auto simp: nth_append u8_bits_def)
  next
    case False
    then have "k div 8 = Suc ((k - 8) div 8)" and "(k - 8) mod 8 = k mod 8"
      by (auto simp: le_div_geq le_mod_geq)
    with False Cons show ?thesis
      by (simp add: nth_append)
  qed
qed simp

lemma id_bits_length [simp]: "length (id_bits i) = ROUTING_ID_BITS"
  by (simp add: id_bits_def)

lemma bit_at_iff: "bit_at i k \<longleftrightarrow> bit (as_bytes i ! (k div 8)) (7 - k mod 8)"
  by (simp add: bit_at_def push_bit_of_1 and_exp_eq_0_iff_not_bit)

lemma id_bits_nth [simp]: "k < ROUTING_ID_BITS \<Longrightarrow> id_bits i ! k = bit_at i k"
  by (simp add: id_bits_def concat_u8_bits_nth bit_at_iff)

lemma map_bit_at: "map (bit_at i) [0..<ROUTING_ID_BITS] = id_bits i"
  by (rule nth_equalityI) auto

lemma id_bit_Some [simp]: "k < ROUTING_ID_BITS \<Longrightarrow> id_bit i k = Some (bit_at i k)"
  by (simp add: id_bit_def less_mult_imp_div_less)

lemma id_bit_None [simp]: "ROUTING_ID_BITS \<le> k \<Longrightarrow> id_bit i k = None"
  using div_le_mono [of 160 k 8] by (simp add: id_bit_def)

lemma inj_u8_bits: "inj u8_bits"
proof (rule injI)
  fix a b :: u8
  assume "u8_bits a = u8_bits b"
  then have "bit a n = bit b n" if "n < 8" for n
    using that by (auto simp: u8_bits_def numeral_eq_Suc less_Suc_eq)
  then show "a = b"
    by (auto intro: bit_word_eqI)
qed

lemma concat_u8_bits_inject:
  "length as = length bs \<Longrightarrow> concat (map u8_bits as) = concat (map u8_bits bs) \<Longrightarrow> as = bs"
  by (induction as bs rule: list_induct2) (auto dest: injD [OF inj_u8_bits])

lemma id20_eqI:
  assumes "\<And>k. k < ROUTING_ID_BITS \<Longrightarrow> bit_at a k = bit_at b k"
  shows "a = b"
proof -
  have "id_bits a = id_bits b"
    by (rule nth_equalityI) (auto simp: assms)
  then show ?thesis
    by (auto simp: id_bits_def id20_eq_iff intro: concat_u8_bits_inject)
qed

section \<open>XOR\<close>

lemma bit_at_ZERO [simp]: "k < ROUTING_ID_BITS \<Longrightarrow> \<not> bit_at id20_ZERO k"
  by (simp add: bit_at_iff less_mult_imp_div_less)

lemma bit_at_xor [simp]:
  "k < ROUTING_ID_BITS \<Longrightarrow> bit_at (id_xor a b) k \<longleftrightarrow> bit_at a k \<noteq> bit_at b k"
  by (simp add: bit_at_iff id_xor_def less_mult_imp_div_less bit_xor_iff)

lemma id_xor_cancel [simp]: "id_xor (id_xor a b) b = a"
  by (rule id20_eqI) auto

lemma id_xor_inject [simp]: "id_xor a c = id_xor b c \<longleftrightarrow> a = b"
  by (metis id_xor_cancel)

lemma id_xor_same [simp]: "id_xor a a = id20_ZERO"
  by (rule id20_eqI) auto

lemma id_xor_eq_ZERO [simp]: "id_xor a b = id20_ZERO \<longleftrightarrow> a = b"
  by (metis id_xor_inject id_xor_same)

lemma id_xor_both [simp]: "id_xor (id_xor a c) (id_xor b c) = id_xor a b"
  by (rule id20_eqI) auto

lemma inj_id_xor [simp]: "inj_on (\<lambda>i. id_xor i c) A"
  by (auto intro: inj_onI)

section \<open>Leading zeros\<close>

lemma u8_leading_zeros_takeWhile: "u8_leading_zeros b = length (takeWhile Not (u8_bits b))"
  by (simp add: u8_leading_zeros_def u8_bits_def takeWhile_map comp_def)

lemma u8_leading_zeros_eq_8: "u8_leading_zeros b = 8 \<longleftrightarrow> b = 0"
proof
  assume "u8_leading_zeros b = 8"
  then have "takeWhile Not (u8_bits b) = u8_bits b"
    by (metis u8_leading_zeros_takeWhile takeWhile_eq_take take_all le_refl u8_bits_length)
  then have "\<forall>x \<in> set (u8_bits b). \<not> x"
    by (simp only: takeWhile_eq_all_conv)
  then have "u8_bits b = replicate 8 False"
    by (intro replicate_eqI) auto
  also have "replicate 8 False = u8_bits 0"
    by (simp add: u8_bits_def numeral_eq_Suc)
  finally show "b = 0"
    by (rule injD [OF inj_u8_bits])
qed (simp add: u8_leading_zeros_def)

lemma leading_zeros_bytes:
  "sum_list (takeWhile (\<lambda>z. z = 8) (map u8_leading_zeros bs))
     + (case find (\<lambda>b. b \<noteq> 0) bs of None \<Rightarrow> 0 | Some b \<Rightarrow> u8_leading_zeros b)
   = length (takeWhile Not (concat (map u8_bits bs)))"
proof (induction bs)
  case (Cons b bs)
  show ?case
  proof (cases "b = 0")
    case True
    with Cons show ?thesis
      by (simp add: u8_leading_zeros_def u8_bits_def)
  next
    case False
    then have "u8_leading_zeros b \<noteq> 8"
      by (simp add: u8_leading_zeros_eq_8)
    then have "takeWhile Not (u8_bits b) \<noteq> u8_bits b"
      unfolding u8_leading_zeros_takeWhile by (metis u8_bits_length)
    then obtain x where "x \<in> set (u8_bits b)" and "\<not> Not x"
      by (auto simp only: takeWhile_eq_all_conv)
    then have "takeWhile Not (concat (map u8_bits (b # bs))) = takeWhile Not (u8_bits b)"
      by (simp add: takeWhile_append1)
    with False \<open>u8_leading_zeros b \<noteq> 8\<close> show ?thesis
      by (simp add: u8_leading_zeros_takeWhile)
  qed
qed simp

lemma leading_zeros_takeWhile: "leading_zeros i = length (takeWhile Not (id_bits i))"
  by (simp add: leading_zeros_def id_bits_def leading_zeros_bytes)

lemma leading_zeros_le: "leading_zeros i \<le> ROUTING_ID_BITS"
  using length_takeWhile_le [of Not "id_bits i"] by (simp add: leading_zeros_takeWhile)

lemma leading_zeros_bit_zero: "k < leading_zeros i \<Longrightarrow> \<not> bit_at i k"
proof -
  assume *: "k < leading_zeros i"
  then have "takeWhile Not (id_bits i) ! k \<in> set (takeWhile Not (id_bits i))"
    by (simp add: leading_zeros_takeWhile)
  then have "\<not> takeWhile Not (id_bits i) ! k"
    by (rule set_takeWhileD [THEN conjunct2])
  moreover have "takeWhile Not (id_bits i) ! k = id_bits i ! k"
    using * by (simp add: leading_zeros_takeWhile takeWhile_nth)
  moreover have "k < ROUTING_ID_BITS"
    using * leading_zeros_le [of i] by (rule less_le_trans)
  ultimately show ?thesis by simp
qed

lemma leading_zeros_bit_one: "leading_zeros i < ROUTING_ID_BITS \<Longrightarrow> bit_at i (leading_zeros i)"
  using nth_length_takeWhile [of Not "id_bits i"] by (simp add: leading_zeros_takeWhile)

lemma leading_zeros_lt: "leading_zeros i < ROUTING_ID_BITS \<longleftrightarrow> i \<noteq> id20_ZERO"
proof
  assume "leading_zeros i < ROUTING_ID_BITS"
  then show "i \<noteq> id20_ZERO"
    using leading_zeros_bit_one [of i] bit_at_ZERO by auto
next
  assume "i \<noteq> id20_ZERO"
  then have "\<exists>k < ROUTING_ID_BITS. bit_at i k"
    using id20_eqI [of i id20_ZERO] by auto
  then show "leading_zeros i < ROUTING_ID_BITS"
    using leading_zeros_bit_zero [of _ i] by (meson le_less_trans not_less)
qed


section \<open>The order of identifiers\<close>

lemma lexordp_append_equal_length:
  fixes u v x y :: "'a::linorder list"
  assumes "length u = length v"
  shows "ord_class.lexordp (u @ x) (v @ y) \<longleftrightarrow>
    ord_class.lexordp u v \<or> u = v \<and> ord_class.lexordp x y"
  using assms by (induction u v rule: list_induct2) (auto simp: not_less)

lemma lexordp_nth:
  fixes xs ys :: "'a::linorder list"
  assumes "length xs = length ys"
  shows "ord_class.lexordp xs ys \<longleftrightarrow>
    (\<exists>k < length xs. (\<forall>m < k. xs ! m = ys ! m) \<and> xs ! k < ys ! k)"
  using assms
proof (induction xs ys rule: list_induct2)
  case (Cons x xs y ys)
  have "(\<exists>k < length (x # xs). (\<forall>m < k. (x # xs) ! m = (y # ys) ! m) \<and> (x # xs) ! k < (y # ys) ! k)
    \<longleftrightarrow> x < y \<or> x = y \<and> (\<exists>k < length xs. (\<forall>m < k. xs ! m = ys ! m) \<and> xs ! k < ys ! k)"
    by (simp add: Ex_less_Suc2 All_less_Suc2) auto
  with Cons show ?case
    by (auto simp: not_less)
qed simp

lemma u8_less_lexordp: "a < b \<longleftrightarrow> ord_class.lexordp (u8_bits a) (u8_bits b)"
proof -
  have horner: "uint c = horner_sum of_bool 2 (map (bit c) [0..<8])" for c :: u8
  proof -
    have "map (bit c) [0..<8] = map (bit (uint c)) [0..<8]"
      by (auto simp: bit_uint_iff)
    moreover have "take_bit 8 (uint c) = uint c"
      using uint_lt2p [of c] by (simp add: take_bit_int_eq_self_iff)
    ultimately show ?thesis
      by (simp only: horner_sum_bit_eq_take_bit)
  qed
  have rev: "rev (map (bit c) [0..<8]) = u8_bits c" for c :: u8
    by (simp add: u8_bits_def upt_rec numeral_eq_Suc)
  have "a < b \<longleftrightarrow> uint a < uint b"
    by (rule word_less_def)
  also have "\<dots> \<longleftrightarrow> ord_class.lexordp (u8_bits a) (u8_bits b)"
    unfolding horner by (subst horner_sum_less_iff_lexordp) (simp_all only: rev length_map)
  finally show ?thesis .
qed

lemma bytes_less_lexordp:
  fixes as bs :: bytes
  assumes "length as = length bs"
  shows "as < bs \<longleftrightarrow>
    ord_class.lexordp (concat (map u8_bits as)) (concat (map u8_bits bs))"
  using assms
proof (induction as bs rule: list_induct2)
  case (Cons a as b bs)
  then show ?case
    using injD [OF inj_u8_bits, of a b]
    by (auto simp: lexordp_append_equal_length u8_less_lexordp)
qed simp

theorem id20_less_iff:
  "a < b \<longleftrightarrow>
     (\<exists>k < ROUTING_ID_BITS. (\<forall>m < k. bit_at a m = bit_at b m) \<and> \<not> bit_at a k \<and> bit_at b k)"
proof -
  have "a < b \<longleftrightarrow> ord_class.lexordp (id_bits a) (id_bits b)"
    by (simp add: less_id20_def bytes_less_lexordp id_bits_def)
  also have "\<dots> \<longleftrightarrow> (\<exists>k < ROUTING_ID_BITS.
      (\<forall>m < k. id_bits a ! m = id_bits b ! m) \<and> id_bits a ! k < id_bits b ! k)"
    by (simp add: lexordp_nth)
  also have "\<dots> \<longleftrightarrow>
     (\<exists>k < ROUTING_ID_BITS. (\<forall>m < k. bit_at a m = bit_at b m) \<and> \<not> bit_at a k \<and> bit_at b k)"
    by (intro ex_cong1 conj_cong refl all_cong) auto
  finally show ?thesis .
qed

end
