(* ===== verification/Routing_Tree.thy ===== *)
theory Routing_Tree
  imports Id_Bits
begin

text \<open>
  \<open>bitmagnet-dht/src/routing_tree.rs\<close>: the binary trie over \<open>id XOR origin\<close> with its
  cached subtree counts, and the routing tree that admits identifiers by leading-zero buckets.
  A Rust panic (an index out of range, an \<open>expect\<close> on nothing, an arithmetic underflow) is
  \<open>None\<close>.
\<close>

section \<open>The trie\<close>

text \<open>\<open>Branch c0 c1 n0 n1\<close> has the children \<open>[c0, c1]\<close> and the cached counts \<open>[n0, n1]\<close>.\<close>

datatype trie_node =
  Empty
| Leaf id20
| Branch trie_node trie_node nat nat

fun trie_contains :: "trie_node \<Rightarrow> id20 \<Rightarrow> nat \<Rightarrow> bool option" where
  "trie_contains Empty i depth = Some False"
| "trie_contains (Leaf existing) i depth = Some (existing = i)"
| "trie_contains (Branch c0 c1 n0 n1) i depth =
     (case id_bit i depth of
        None \<Rightarrow> None
      | Some branch \<Rightarrow> trie_contains (if branch then c1 else c0) i (depth + 1))"

fun trie_count :: "trie_node \<Rightarrow> nat" where
  "trie_count Empty = 0"
| "trie_count (Leaf _) = 1"
| "trie_count (Branch _ _ n0 n1) = n0 + n1"

text \<open>
  The leaf case first replaces the leaf by an empty branch and then inserts both identifiers
  into that branch at the same depth; inserting into a branch yields a branch.
\<close>

function insert_unique :: "trie_node \<Rightarrow> id20 \<Rightarrow> nat \<Rightarrow> trie_node option" where
  "insert_unique Empty i depth = Some (Leaf i)"
| "insert_unique (Leaf previous) i depth =
     (case insert_unique (Branch Empty Empty 0 0) previous depth of
        Some (Branch c0 c1 n0 n1) \<Rightarrow> insert_unique (Branch c0 c1 n0 n1) i depth
      | _ \<Rightarrow> None)"
| "insert_unique (Branch c0 c1 n0 n1) i depth =
     (case id_bit i depth of
        None \<Rightarrow> None
      | Some branch \<Rightarrow>
          map_option
            (\<lambda>c. if branch then Branch c0 c n0 (trie_count c) else Branch c c1 (trie_count c) n1)
            (insert_unique (if branch then c1 else c0) i (depth + 1)))"
  by pat_completeness auto
termination
proof (relation "measure (\<lambda>(t, i, depth).
    2 * (ROUTING_ID_BITS - depth) + (case t of Branch _ _ _ _ \<Rightarrow> 0 | _ \<Rightarrow> 1))", goal_cases)
  case 1
  show ?case by simp
qed (auto simp: id_bit_def less_Suc_eq_le split: if_splits trie_node.splits)

fun only_id :: "trie_node \<Rightarrow> id20 option" where
  "only_id Empty = None"
| "only_id (Leaf i) = Some i"
| "only_id (Branch c0 c1 n0 n1) = (if n0 = 0 then only_id c1 else only_id c0)"

text \<open>What \<open>remove\<close> leaves of a branch whose counts are up to date.\<close>

definition compact_branch :: "trie_node \<Rightarrow> trie_node \<Rightarrow> nat \<Rightarrow> nat \<Rightarrow> trie_node option" where
  "compact_branch c0 c1 n0 n1 =
     (if n0 + n1 = 0 then Some Empty
      else if n0 + n1 = 1 then map_option Leaf (only_id (Branch c0 c1 n0 n1))
      else Some (Branch c0 c1 n0 n1))"

fun trie_remove :: "trie_node \<Rightarrow> id20 \<Rightarrow> nat \<Rightarrow> (bool \<times> trie_node) option" where
  "trie_remove Empty i depth = Some (False, Empty)"
| "trie_remove (Leaf existing) i depth =
     (if existing = i then Some (True, Empty) else Some (False, Leaf existing))"
| "trie_remove (Branch c0 c1 n0 n1) i depth =
     (case id_bit i depth of
        None \<Rightarrow> None
      | Some branch \<Rightarrow>
          (case trie_remove (if branch then c1 else c0) i (depth + 1) of
             None \<Rightarrow> None
           | Some (removed, c) \<Rightarrow>
               if \<not> removed
               then Some (False, if branch then Branch c0 c n0 n1 else Branch c c1 n0 n1)
               else map_option (Pair True)
                      (if branch then compact_branch c0 c n0 (trie_count c)
                       else compact_branch c c1 (trie_count c) n1)))"

fun count_closer_than_subpath :: "trie_node \<Rightarrow> id20 \<Rightarrow> nat \<Rightarrow> nat option" where
  "count_closer_than_subpath Empty path depth = Some 0"
| "count_closer_than_subpath (Leaf i) path depth =
     (if list_ex (\<lambda>index. bit_at path index \<and> \<not> bit_at i index) [depth..<ROUTING_ID_BITS]
      then Some 0 else Some 1)"
| "count_closer_than_subpath (Branch c0 c1 n0 n1) path depth =
     (if depth > ROUTING_ID_BITS then None
      else if ROUTING_ID_BITS - depth = 0 then Some 0
      else case id_bit path depth of
             None \<Rightarrow> None
           | Some branch \<Rightarrow>
               if ROUTING_ID_BITS - depth = 1 then Some (if \<not> branch then n0 else n0 + n1)
               else if \<not> branch then count_closer_than_subpath c0 path (depth + 1)
               else map_option ((+) n0) (count_closer_than_subpath c1 path (depth + 1)))"

fun closest_without_path :: "trie_node \<Rightarrow> nat \<Rightarrow> id20 list" where
  "closest_without_path Empty limit = []"
| "closest_without_path (Leaf i) limit = (if limit = 0 then [] else [i])"
| "closest_without_path (Branch c0 c1 n0 n1) limit =
     (if limit = 0 then []
      else let result = closest_without_path c0 limit
           in if length result < limit
              then result @ closest_without_path c1 (limit - length result)
              else result)"

fun closest_to_subpath :: "trie_node \<Rightarrow> id20 \<Rightarrow> nat \<Rightarrow> nat \<Rightarrow> id20 list" where
  "closest_to_subpath Empty path depth limit = []"
| "closest_to_subpath (Leaf i) path depth limit = (if limit = 0 then [] else [i])"
| "closest_to_subpath (Branch c0 c1 n0 n1) path depth limit =
     (if limit = 0 then []
      else let branch = (if depth = ROUTING_ID_BITS then False else bit_at path depth);
               next_depth = min (depth + 1) ROUTING_ID_BITS;
               result = closest_to_subpath (if branch then c1 else c0) path next_depth limit
           in if length result < limit
              then result @ closest_without_path (if branch then c0 else c1) (limit - length result)
              else result)"

section \<open>The routing tree\<close>

datatype routing_put_result = Rejected | Accepted | AlreadyExists

record routing_tree =
  rt_origin :: id20
  rt_bucket_capacity :: nat
  rt_splitting_enabled :: bool
  rt_root :: trie_node
  rt_bucket_counts :: "nat list"

definition rt_new :: "id20 \<Rightarrow> nat \<Rightarrow> bool \<Rightarrow> routing_tree" where
  "rt_new origin capacity splitting =
     \<lparr>rt_origin = origin, rt_bucket_capacity = capacity, rt_splitting_enabled = splitting,
      rt_root = Empty, rt_bucket_counts = replicate ROUTING_ID_BITS 0\<rparr>"

definition rt_count :: "routing_tree \<Rightarrow> nat" where
  "rt_count t = trie_count (rt_root t)"

definition rt_contains :: "routing_tree \<Rightarrow> id20 \<Rightarrow> bool option" where
  "rt_contains t i = trie_contains (rt_root t) (id_xor i (rt_origin t)) 0"

text \<open>
  The two conjuncts of the rejection test; the subtree count is taken only when the bucket is
  full and splitting is enabled.
\<close>

definition rt_full :: "routing_tree \<Rightarrow> id20 \<Rightarrow> nat \<Rightarrow> bool option" where
  "rt_full t distance bucket =
     (if bucket \<ge> length (rt_bucket_counts t) then None
      else if rt_bucket_counts t ! bucket \<ge> rt_bucket_capacity t then
        if \<not> rt_splitting_enabled t then Some True
        else map_option (\<lambda>n. n \<ge> rt_bucket_capacity t)
               (count_closer_than_subpath (rt_root t) distance 0)
      else Some False)"

definition rt_put :: "routing_tree \<Rightarrow> id20 \<Rightarrow> (routing_put_result \<times> routing_tree) option" where
  "rt_put t i =
     (if i = rt_origin t then Some (Rejected, t)
      else
        let distance = id_xor i (rt_origin t); bucket = leading_zeros distance
        in case trie_contains (rt_root t) distance 0 of
             None \<Rightarrow> None
           | Some True \<Rightarrow> Some (AlreadyExists, t)
           | Some False \<Rightarrow>
               (case rt_full t distance bucket of
                  None \<Rightarrow> None
                | Some True \<Rightarrow> Some (Rejected, t)
                | Some False \<Rightarrow>
                    map_option
                      (\<lambda>root. (Accepted, t\<lparr>rt_root := root,
                         rt_bucket_counts :=
                           (rt_bucket_counts t)[bucket := rt_bucket_counts t ! bucket + 1]\<rparr>))
                      (insert_unique (rt_root t) distance 0)))"

definition rt_drop :: "routing_tree \<Rightarrow> id20 \<Rightarrow> (bool \<times> routing_tree) option" where
  "rt_drop t i =
     (let distance = id_xor i (rt_origin t); bucket = leading_zeros distance
      in case trie_remove (rt_root t) distance 0 of
           None \<Rightarrow> None
         | Some (False, root) \<Rightarrow> Some (False, t\<lparr>rt_root := root\<rparr>)
         | Some (True, root) \<Rightarrow>
             if bucket \<ge> length (rt_bucket_counts t) \<or> rt_bucket_counts t ! bucket = 0 then None
             else Some (True, t\<lparr>rt_root := root,
                    rt_bucket_counts :=
                      (rt_bucket_counts t)[bucket := rt_bucket_counts t ! bucket - 1]\<rparr>))"

definition rt_closest :: "routing_tree \<Rightarrow> id20 \<Rightarrow> nat \<Rightarrow> id20 list" where
  "rt_closest t i limit =
     map (\<lambda>distance. id_xor distance (rt_origin t))
       (closest_to_subpath (rt_root t) (id_xor i (rt_origin t)) 0 limit)"


section \<open>Abstraction and invariant\<close>

text \<open>
  The identifiers a trie holds, from left to right, and the invariant its operations keep: every
  leaf lies on the side of each branch that its bit says, the cached counts are exact, and a
  branch holds at least two leaves.
\<close>

fun leaves :: "trie_node \<Rightarrow> id20 list" where
  "leaves Empty = []"
| "leaves (Leaf i) = [i]"
| "leaves (Branch c0 c1 n0 n1) = leaves c0 @ leaves c1"

fun branch_ok :: "nat \<Rightarrow> trie_node \<Rightarrow> bool" where
  "branch_ok d (Branch c0 c1 n0 n1) \<longleftrightarrow>
     d < ROUTING_ID_BITS \<and> n0 = length (leaves c0) \<and> n1 = length (leaves c1)
     \<and> (\<forall>i \<in> set (leaves c0). \<not> bit_at i d) \<and> (\<forall>i \<in> set (leaves c1). bit_at i d)"
| "branch_ok d _ \<longleftrightarrow> d \<le> ROUTING_ID_BITS"

fun trie_ok :: "nat \<Rightarrow> trie_node \<Rightarrow> bool" where
  "trie_ok d (Branch c0 c1 n0 n1) \<longleftrightarrow>
     branch_ok d (Branch c0 c1 n0 n1) \<and> 2 \<le> n0 + n1
     \<and> trie_ok (d + 1) c0 \<and> trie_ok (d + 1) c1"
| "trie_ok d t \<longleftrightarrow> branch_ok d t"

definition agree :: "nat \<Rightarrow> id20 \<Rightarrow> id20 \<Rightarrow> bool" where
  "agree d i j \<longleftrightarrow> (\<forall>k < d. bit_at i k = bit_at j k)"

definition on_path :: "nat \<Rightarrow> id20 \<Rightarrow> trie_node \<Rightarrow> bool" where
  "on_path d i t \<longleftrightarrow> (\<forall>j \<in> set (leaves t). agree d i j)"

text \<open>While a leaf is being split its branch holds fewer than two identifiers.\<close>

fun pre_ok :: "nat \<Rightarrow> trie_node \<Rightarrow> bool" where
  "pre_ok d (Branch c0 c1 n0 n1) \<longleftrightarrow>
     branch_ok d (Branch c0 c1 n0 n1) \<and> trie_ok (d + 1) c0 \<and> trie_ok (d + 1) c1"
| "pre_ok d t \<longleftrightarrow> branch_ok d t"

fun is_branch :: "trie_node \<Rightarrow> bool" where
  "is_branch (Branch _ _ _ _) = True"
| "is_branch _ = False"

lemma trie_ok_iff: "trie_ok d t \<longleftrightarrow> pre_ok d t \<and> (is_branch t \<longrightarrow> 2 \<le> length (leaves t))"
  by (cases t) auto

lemma trie_ok_pre_ok: "trie_ok d t \<Longrightarrow> pre_ok d t"
  by (simp add: trie_ok_iff)

lemma trie_ok_depth: "trie_ok d t \<Longrightarrow> d \<le> ROUTING_ID_BITS"
  by (cases t) auto

lemma trie_count_leaves: "pre_ok d t \<Longrightarrow> trie_count t = length (leaves t)"
  by (cases t) auto

lemma agree_0 [simp]: "agree 0 i j"
  by (simp add: agree_def)

lemma agree_refl [simp]: "agree d i i"
  by (simp add: agree_def)

lemma agree_sym: "agree d i j \<Longrightarrow> agree d j i"
  by (simp add: agree_def)

lemma agree_trans: "agree d i j \<Longrightarrow> agree d j k \<Longrightarrow> agree d i k"
  by (simp add: agree_def)

lemma agree_Suc: "agree (Suc d) i j \<longleftrightarrow> agree d i j \<and> bit_at i d = bit_at j d"
  by (auto simp: agree_def less_Suc_eq)

lemma agree_all: "agree ROUTING_ID_BITS i j \<Longrightarrow> i = j"
  by (auto simp: agree_def intro: id20_eqI)

lemma agree_differ_less:
  "agree d i j \<Longrightarrow> d < ROUTING_ID_BITS \<Longrightarrow> \<not> bit_at i d \<Longrightarrow> bit_at j d \<Longrightarrow> i < j"
  by (auto simp: id20_less_iff agree_def)

lemma on_path_0 [simp]: "on_path 0 i t"
  by (simp add: on_path_def)

lemma on_path_Branch:
  assumes "branch_ok d (Branch c0 c1 n0 n1)" and "on_path d i (Branch c0 c1 n0 n1)"
  shows "on_path (d + 1) i (if bit_at i d then c1 else c0)"
    and "\<And>j. j \<in> set (leaves (if bit_at i d then c0 else c1)) \<Longrightarrow>
           agree d i j \<and> bit_at j d \<noteq> bit_at i d"
  using assms by (auto simp: on_path_def agree_Suc split: if_splits)

section \<open>Lookup, insertion and removal\<close>

lemma trie_contains_iff [panic_free]:
  "trie_ok d t \<Longrightarrow> on_path d i t \<Longrightarrow> trie_contains t i d = Some (i \<in> set (leaves t))"
proof (induction t i d rule: trie_contains.induct)
  case (3 c0 c1 n0 n1 i d)
  then have ok: "branch_ok d (Branch c0 c1 n0 n1)" by simp
  have "trie_contains (if bit_at i d then c1 else c0) i (d + 1)
      = Some (i \<in> set (leaves (if bit_at i d then c1 else c0)))"
    using ok "3.prems" on_path_Branch(1) [OF ok "3.prems"(2)] by (intro "3.IH") auto
  with ok show ?case
    by (cases "bit_at i d") auto
qed auto

lemma insert_unique_ok [panic_free]:
  "pre_ok d t \<Longrightarrow> on_path d i t \<Longrightarrow> i \<notin> set (leaves t) \<Longrightarrow>
   \<exists>t'. insert_unique t i d = Some t' \<and> pre_ok d t' \<and> (t \<noteq> Empty \<longrightarrow> is_branch t')
     \<and> length (leaves t') = Suc (length (leaves t)) \<and> set (leaves t') = insert i (set (leaves t))"
proof (induction t i d rule: insert_unique.induct)
  case (1 i d)
  then show ?case by auto
next
  case (2 previous i d)
  have "d < ROUTING_ID_BITS"
    using "2.prems" agree_all [of i previous] by (auto simp: on_path_def le_less)
  then have "pre_ok d (Branch Empty Empty 0 0)" by simp
  then obtain t1 where t1: "insert_unique (Branch Empty Empty 0 0) previous d = Some t1"
    "pre_ok d t1" "is_branch t1" "length (leaves t1) = 1" "set (leaves t1) = {previous}"
    using "2.IH"(1) by (auto simp: on_path_def)
  then obtain c0 c1 n0 n1 where b: "t1 = Branch c0 c1 n0 n1"
    by (cases t1) auto
  have "\<exists>t'. insert_unique t1 i d = Some t' \<and> pre_ok d t' \<and> (t1 \<noteq> Empty \<longrightarrow> is_branch t')
      \<and> length (leaves t') = Suc (length (leaves t1)) \<and> set (leaves t') = insert i (set (leaves t1))"
    unfolding b using t1 "2.prems"
    by (intro "2.IH"(2)) (simp_all only: b on_path_def leaves.simps list.set, simp_all)
  moreover have "insert_unique (Leaf previous) i d = insert_unique t1 i d"
    by (simp only: insert_unique.simps(2) t1(1) b option.case trie_node.case)
  ultimately show ?case
    using t1 by auto
next
  case (3 c0 c1 n0 n1 i d)
  then have ok: "branch_ok d (Branch c0 c1 n0 n1)" by simp
  define c where "c = (if bit_at i d then c1 else c0)"
  have c: "trie_ok (d + 1) c" "on_path (d + 1) i c" "i \<notin> set (leaves c)"
    using 3 on_path_Branch(1) [OF ok "3.prems"(2)] by (auto simp: c_def)
  then obtain c' where c': "insert_unique c i (d + 1) = Some c'" "pre_ok (d + 1) c'"
    "c \<noteq> Empty \<longrightarrow> is_branch c'" "length (leaves c') = Suc (length (leaves c))"
    "set (leaves c') = insert i (set (leaves c))"
    using ok "3.IH" [of "bit_at i d"] trie_ok_pre_ok by (auto simp: c_def)
  have "trie_ok (d + 1) c'"
    using c c' by (cases c) (auto simp: trie_ok_iff)
  with 3 ok c' show ?case
    by (auto simp: c_def trie_count_leaves split: if_splits)
qed

lemma only_id_singleton:
  "pre_ok d t \<Longrightarrow> leaves t = [i] \<Longrightarrow> only_id t = Some i"
proof (induction t arbitrary: d)
  case (Branch c0 c1 n0 n1)
  then show ?case
    by (cases "leaves c0") (auto simp: append_eq_Cons_conv intro: trie_ok_pre_ok)
qed auto

lemma compact_branch_ok [panic_free]:
  assumes "pre_ok d (Branch c0 c1 n0 n1)"
  shows "\<exists>t. compact_branch c0 c1 n0 n1 = Some t \<and> trie_ok d t \<and> leaves t = leaves c0 @ leaves c1"
proof -
  consider (none) "leaves c0 @ leaves c1 = []" | (one) i where "leaves c0 @ leaves c1 = [i]"
    | (more) "2 \<le> length (leaves c0 @ leaves c1)"
    by (cases "leaves c0 @ leaves c1" rule: remdups_adj.cases) auto
  then show ?thesis
  proof cases
    case none
    with assms show ?thesis by (simp add: compact_branch_def)
  next
    case (one i)
    have "n0 + n1 = length (leaves c0 @ leaves c1)" using assms by simp
    with one have "n0 + n1 = 1" by simp
    moreover have "only_id (Branch c0 c1 n0 n1) = Some i"
      using one by (intro only_id_singleton [OF assms]) simp
    ultimately show ?thesis
      using assms one by (simp add: compact_branch_def)
  next
    case more
    with assms show ?thesis by (auto simp: compact_branch_def)
  qed
qed

lemma trie_remove_ok [panic_free]:
  "trie_ok d t \<Longrightarrow> on_path d i t \<Longrightarrow>
   \<exists>t'. trie_remove t i d = Some (i \<in> set (leaves t), t') \<and> trie_ok d t'
     \<and> leaves t' = removeAll i (leaves t) \<and> (i \<notin> set (leaves t) \<longrightarrow> t' = t)"
proof (induction t i d rule: trie_remove.induct)
  case (3 c0 c1 n0 n1 i d)
  then have ok: "branch_ok d (Branch c0 c1 n0 n1)" by simp
  define c where "c = (if bit_at i d then c1 else c0)"
  define o' where "o' = (if bit_at i d then c0 else c1)"
  have "i \<notin> set (leaves o')"
    using on_path_Branch(2) [OF ok "3.prems"(2), of i] unfolding o'_def by blast
  then have off: "removeAll i (leaves o') = leaves o'" by simp
  obtain c' where c': "trie_remove c i (d + 1) = Some (i \<in> set (leaves c), c')"
    "trie_ok (d + 1) c'" "leaves c' = removeAll i (leaves c)" "i \<notin> set (leaves c) \<longrightarrow> c' = c"
    using ok "3.prems" "3.IH" [of "bit_at i d"] on_path_Branch(1) [OF ok "3.prems"(2)]
    by (cases "bit_at i d") (auto simp: c_def)
  show ?case
  proof (cases "i \<in> set (leaves c)")
    case False
    with 3 ok c' off show ?thesis
      by (auto simp: c_def o'_def split: if_splits)
  next
    case True
    have cnt: "trie_count c' = length (leaves c')"
      using c'(2) by (intro trie_count_leaves trie_ok_pre_ok)
    have "pre_ok d (if bit_at i d then Branch c0 c' n0 (trie_count c') else Branch c' c1 (trie_count c') n1)"
      using "3.prems"(1) ok c'(2,3) by (auto simp: c_def cnt)
    then obtain t where t: "trie_ok d t"
      "(if bit_at i d then compact_branch c0 c' n0 (trie_count c')
        else compact_branch c' c1 (trie_count c') n1) = Some t"
      "leaves t = (if bit_at i d then leaves c0 @ leaves c' else leaves c' @ leaves c1)"
      using compact_branch_ok [of d c0 c' n0] compact_branch_ok [of d c' c1 _ n1]
      by (cases "bit_at i d") (simp_all only: if_True if_False, blast+)
    have "trie_remove (Branch c0 c1 n0 n1) i d = Some (True, t)"
      using True c'(1) t(2) ok by (cases "bit_at i d") (simp_all add: c_def)
    moreover have "leaves t = removeAll i (leaves (Branch c0 c1 n0 n1))"
      using t(3) c'(3) off by (cases "bit_at i d") (simp_all add: c_def o'_def)
    moreover have "i \<in> set (leaves (Branch c0 c1 n0 n1))"
      using True by (cases "bit_at i d") (simp_all add: c_def)
    ultimately show ?thesis
      using t(1) by (intro exI [of _ t]) (simp only: simp_thms)
  qed
qed auto


lemma leaves_sorted:
  "trie_ok d t \<Longrightarrow> (\<And>i j. i \<in> set (leaves t) \<Longrightarrow> j \<in> set (leaves t) \<Longrightarrow> agree d i j) \<Longrightarrow>
   sorted_wrt (<) (leaves t)"
proof (induction t arbitrary: d)
  case (Branch c0 c1 n0 n1)
  have "sorted_wrt (<) (leaves c0)"
    by (rule Branch.IH(1) [of "d + 1"]) (use Branch.prems in \<open>auto simp: agree_Suc\<close>)
  moreover have "sorted_wrt (<) (leaves c1)"
    by (rule Branch.IH(2) [of "d + 1"]) (use Branch.prems in \<open>auto simp: agree_Suc\<close>)
  moreover have "i < j" if "i \<in> set (leaves c0)" and "j \<in> set (leaves c1)" for i j
    using that Branch.prems by (intro agree_differ_less [of d]) auto
  ultimately show ?case
    by (simp add: sorted_wrt_append)
qed auto

lemma leaves_root_sorted: "trie_ok 0 t \<Longrightarrow> sorted_wrt (<) (leaves t)"
  by (rule leaves_sorted) auto

lemma leaves_distinct: "trie_ok 0 t \<Longrightarrow> distinct (leaves t)"
  using leaves_root_sorted strict_sorted_iff by blast

section \<open>Nearest identifiers\<close>

text \<open>The traversal of \<open>closest_to_subpath\<close> without its limit.\<close>

fun near :: "id20 \<Rightarrow> nat \<Rightarrow> trie_node \<Rightarrow> id20 list" where
  "near path d Empty = []"
| "near path d (Leaf i) = [i]"
| "near path d (Branch c0 c1 n0 n1) =
     (if bit_at path d then near path (d + 1) c1 @ leaves c0 else near path (d + 1) c0 @ leaves c1)"

abbreviation shared_prefix :: "id20 \<Rightarrow> id20 \<Rightarrow> nat" where
  "shared_prefix i j \<equiv> leading_zeros (id_xor i j)"

lemma agree_shared_prefix:
  assumes "d \<le> ROUTING_ID_BITS"
  shows "agree d i j \<longleftrightarrow> d \<le> shared_prefix i j"
proof
  assume *: "agree d i j"
  show "d \<le> shared_prefix i j"
  proof (rule ccontr)
    assume "\<not> d \<le> shared_prefix i j"
    then have less: "shared_prefix i j < d" and "shared_prefix i j < ROUTING_ID_BITS"
      using assms by simp_all
    then have "bit_at i (shared_prefix i j) \<noteq> bit_at j (shared_prefix i j)"
      using leading_zeros_bit_one [of "id_xor i j"] by simp
    with * less show False
      by (simp add: agree_def)
  qed
next
  assume *: "d \<le> shared_prefix i j"
  have "bit_at i k = bit_at j k" if "k < d" for k
    using that * assms leading_zeros_bit_zero [of k "id_xor i j"] by simp
  then show "agree d i j"
    by (simp add: agree_def)
qed

lemma shared_prefix_eq:
  "d < ROUTING_ID_BITS \<Longrightarrow> agree d i j \<Longrightarrow> bit_at i d \<noteq> bit_at j d \<Longrightarrow> shared_prefix i j = d"
  using agree_shared_prefix [of d i j] agree_shared_prefix [of "Suc d" i j]
  by (auto simp: agree_Suc)

lemma closest_without_path_take: "closest_without_path t limit = take limit (leaves t)"
  by (induction t limit rule: closest_without_path.induct) (auto simp: Let_def take_Cons')

lemma closest_to_subpath_take:
  "trie_ok d t \<Longrightarrow> closest_to_subpath t path d limit = take limit (near path d t)"
  by (induction t path d limit rule: closest_to_subpath.induct)
    (auto simp: Let_def closest_without_path_take take_Cons' min_def)

lemma set_near [simp]: "set (near path d t) = set (leaves t)"
  by (induction t arbitrary: d) auto

lemma length_near [simp]: "length (near path d t) = length (leaves t)"
  by (induction t arbitrary: d) auto

lemma near_descending:
  "trie_ok d t \<Longrightarrow> on_path d path t \<Longrightarrow>
   sorted_wrt (\<lambda>i j. shared_prefix j path \<le> shared_prefix i path) (near path d t)"
proof (induction t arbitrary: d)
  case (Branch c0 c1 n0 n1)
  then have ok: "branch_ok d (Branch c0 c1 n0 n1)" and d: "d < ROUTING_ID_BITS" by simp_all
  define c where "c = (if bit_at path d then c1 else c0)"
  define o' where "o' = (if bit_at path d then c0 else c1)"
  have c: "trie_ok (d + 1) c" "on_path (d + 1) path c"
    using Branch.prems on_path_Branch(1) [OF ok Branch.prems(2)] by (auto simp: c_def)
  have near_c: "sorted_wrt (\<lambda>i j. shared_prefix j path \<le> shared_prefix i path) (near path (d + 1) c)"
    using c Branch.IH by (cases "bit_at path d") (simp_all add: c_def)
  have off: "shared_prefix j path = d" if "j \<in> set (leaves o')" for j
    using on_path_Branch(2) [OF ok Branch.prems(2)] that d
    unfolding o'_def by (blast intro: shared_prefix_eq agree_sym)
  have on: "d < shared_prefix i path" if "i \<in> set (leaves c)" for i
    using that c(2) d agree_shared_prefix [of "d + 1" i path] by (auto simp: on_path_def agree_sym)
  have "sorted_wrt (\<lambda>i j. shared_prefix j path \<le> shared_prefix i path) (leaves o')"
    by (auto simp: sorted_wrt_iff_nth_less off)
  with near_c on off have
    "sorted_wrt (\<lambda>i j. shared_prefix j path \<le> shared_prefix i path) (near path (d + 1) c @ leaves o')"
    by (auto simp: sorted_wrt_append less_imp_le)
  then show ?case
    by (cases "bit_at path d") (simp_all add: c_def o'_def)
qed auto

section \<open>Counting closer identifiers\<close>

lemma trie_ok_full_depth: "trie_ok ROUTING_ID_BITS t \<Longrightarrow> length (leaves t) \<le> 1"
  by (cases t) auto

lemma count_closer_near_exact [panic_free]:
  "trie_ok d t \<Longrightarrow> on_path d path t \<Longrightarrow>
   \<exists>n. count_closer_than_subpath t path d = Some n
     \<and> n \<le> length (filter (\<lambda>j. j < path) (leaves t)) + 1
     \<and> length (filter (\<lambda>j. j < path) (leaves t)) \<le> n + 1"
proof (induction t path d rule: count_closer_than_subpath.induct)
  case (3 c0 c1 n0 n1 path d)
  then have ok: "branch_ok d (Branch c0 c1 n0 n1)" and d: "d < ROUTING_ID_BITS" by simp_all
  have left: "filter (\<lambda>j. j < path) (leaves c0) = leaves c0" if "bit_at path d"
    using that ok d "3.prems"(2)
    by (auto simp: filter_id_conv on_path_def intro: agree_differ_less agree_sym)
  have right: "filter (\<lambda>j. j < path) (leaves c1) = []" if "\<not> bit_at path d"
  proof -
    have "path < j" if "j \<in> set (leaves c1)" for j
      using that ok d "3.prems"(2) \<open>\<not> bit_at path d\<close>
      by (intro agree_differ_less [of d]) (auto simp: on_path_def)
    then show ?thesis
      by (auto simp: filter_empty_conv dest: less_asym)
  qed
  show ?case
  proof (cases "d = 159")
    case True
    then have "length (leaves c0) \<le> 1" and "length (leaves c1) \<le> 1"
      using "3.prems"(1) trie_ok_full_depth by auto
    with True ok left right show ?thesis
      using length_filter_le [of "\<lambda>j. j < path" "leaves c0"]
        length_filter_le [of "\<lambda>j. j < path" "leaves c1"]
      by (cases "bit_at path d") (auto simp del: length_filter_le)
  next
    case False
    with d have rest: "ROUTING_ID_BITS - d \<noteq> 0" "ROUTING_ID_BITS - d \<noteq> 1" "\<not> ROUTING_ID_BITS < d"
      by arith+
    have path: "on_path (d + 1) path (if bit_at path d then c1 else c0)"
      by (rule on_path_Branch(1) [OF ok "3.prems"(2)])
    show ?thesis
    proof (cases "bit_at path d")
      case True
      then obtain n where "count_closer_than_subpath c1 path (d + 1) = Some n"
        "n \<le> length (filter (\<lambda>j. j < path) (leaves c1)) + 1"
        "length (filter (\<lambda>j. j < path) (leaves c1)) \<le> n + 1"
        using "3.IH"(2) [of True] path "3.prems" d rest by auto
      with True d rest ok left show ?thesis by auto
    next
      case False
      then obtain n where "count_closer_than_subpath c0 path (d + 1) = Some n"
        "n \<le> length (filter (\<lambda>j. j < path) (leaves c0)) + 1"
        "length (filter (\<lambda>j. j < path) (leaves c0)) \<le> n + 1"
        using "3.IH"(1) [of False] path "3.prems" d rest by auto
      with False d rest ok right show ?thesis by auto
    qed
  qed
qed auto


section \<open>The identifiers of a routing tree\<close>

text \<open>
  The abstract state of a routing tree is the set of identifiers it routes. Its invariant: a
  well-formed trie that never holds the origin, and exact leading-zero bucket counts.
\<close>

definition rt_ids :: "routing_tree \<Rightarrow> id20 set" where
  "rt_ids t = (\<lambda>distance. id_xor distance (rt_origin t)) ` set (leaves (rt_root t))"

definition bucket_size :: "id20 set \<Rightarrow> nat \<Rightarrow> nat" where
  "bucket_size D b = card {distance \<in> D. leading_zeros distance = b}"

definition rt_ok :: "routing_tree \<Rightarrow> bool" where
  "rt_ok t \<longleftrightarrow> trie_ok 0 (rt_root t) \<and> id20_ZERO \<notin> set (leaves (rt_root t))
     \<and> rt_bucket_counts t = map (bucket_size (set (leaves (rt_root t)))) [0..<ROUTING_ID_BITS]"

text \<open>What never changes in a tree.\<close>

definition same_config :: "routing_tree \<Rightarrow> routing_tree \<Rightarrow> bool" where
  "same_config t u \<longleftrightarrow> rt_origin u = rt_origin t \<and> rt_bucket_capacity u = rt_bucket_capacity t
     \<and> rt_splitting_enabled u = rt_splitting_enabled t"

lemma same_config_refl [simp]: "same_config t t"
  by (simp add: same_config_def)

lemma rt_ids_distance: "i \<in> rt_ids t \<longleftrightarrow> id_xor i (rt_origin t) \<in> set (leaves (rt_root t))"
  unfolding rt_ids_def by (force simp: image_iff)

lemma finite_rt_ids [simp]: "finite (rt_ids t)"
  by (simp add: rt_ids_def)

lemma inj_distance [simp]: "inj_on (\<lambda>distance. id_xor distance origin) A"
  by (rule inj_onI) simp

lemma card_rt_ids: "rt_ok t \<Longrightarrow> card (rt_ids t) = length (leaves (rt_root t))"
  by (simp add: rt_ids_def rt_ok_def card_image distinct_card leaves_distinct)

lemma origin_not_in_rt_ids: "rt_ok t \<Longrightarrow> rt_origin t \<notin> rt_ids t"
  by (simp add: rt_ids_distance rt_ok_def)

lemma bucket_size_insert:
  "finite D \<Longrightarrow> d \<notin> D \<Longrightarrow>
   bucket_size (insert d D) b = bucket_size D b + (if b = leading_zeros d then 1 else 0)"
proof -
  assume "finite D" "d \<notin> D"
  moreover have "{x \<in> insert d D. leading_zeros x = b} =
      (if b = leading_zeros d then insert d else id) {x \<in> D. leading_zeros x = b}"
    by auto
  ultimately show ?thesis
    by (simp add: bucket_size_def)
qed

lemma bucket_counts_insert:
  assumes "finite D" "d \<notin> D"
  shows "map (bucket_size (insert d D)) [0..<n] =
    (map (bucket_size D) [0..<n])[leading_zeros d := bucket_size D (leading_zeros d) + 1]"
  by (rule nth_equalityI) (auto simp: bucket_size_insert [OF assms] nth_list_update)

lemma bucket_counts_remove:
  assumes "finite D" "d \<in> D"
  shows "map (bucket_size (D - {d})) [0..<n] =
    (map (bucket_size D) [0..<n])[leading_zeros d := bucket_size D (leading_zeros d) - 1]"
    and "0 < bucket_size D (leading_zeros d)"
proof -
  have D: "bucket_size D b = bucket_size (D - {d}) b + (if b = leading_zeros d then 1 else 0)" for b
    using bucket_size_insert [of "D - {d}" d b] assms by (simp add: insert_absorb)
  show "0 < bucket_size D (leading_zeros d)"
    by (simp add: D)
  show "map (bucket_size (D - {d})) [0..<n] =
    (map (bucket_size D) [0..<n])[leading_zeros d := bucket_size D (leading_zeros d) - 1]"
    by (rule nth_equalityI) (simp, case_tac "i = leading_zeros d", auto simp: D)
qed

lemma rt_new_ok [simp]: "rt_ok (rt_new origin capacity splitting)"
  by (auto simp: rt_ok_def rt_new_def bucket_size_def intro: nth_equalityI)

lemma rt_ids_new [simp]: "rt_ids (rt_new origin capacity splitting) = {}"
  by (simp add: rt_ids_def rt_new_def)

lemma rt_count_ids: "rt_ok t \<Longrightarrow> rt_count t = card (rt_ids t)"
  using trie_count_leaves [of 0 "rt_root t"]
  by (simp add: card_rt_ids rt_count_def rt_ok_def trie_ok_pre_ok)

lemma rt_contains_ids [panic_free]: "rt_ok t \<Longrightarrow> rt_contains t i = Some (i \<in> rt_ids t)"
  by (simp add: rt_contains_def rt_ok_def trie_contains_iff rt_ids_distance)

text \<open>
  The admission rule, by the identifiers: those in the leading-zero bucket of \<open>i\<close>, and
  those closer to the origin.
\<close>

definition bucket_mates :: "routing_tree \<Rightarrow> id20 \<Rightarrow> id20 set" where
  "bucket_mates t i = {j \<in> rt_ids t. shared_prefix j (rt_origin t) = shared_prefix i (rt_origin t)}"

definition closer_ids :: "routing_tree \<Rightarrow> id20 \<Rightarrow> id20 set" where
  "closer_ids t i = {j \<in> rt_ids t. id_xor j (rt_origin t) < id_xor i (rt_origin t)}"

lemma bucket_mates_size:
  "card (bucket_mates t i) =
   bucket_size (set (leaves (rt_root t))) (shared_prefix i (rt_origin t))"
proof -
  have "bucket_mates t i = (\<lambda>d. id_xor d (rt_origin t)) `
      {d \<in> set (leaves (rt_root t)). leading_zeros d = shared_prefix i (rt_origin t)}"
    unfolding bucket_mates_def rt_ids_def by force
  then show ?thesis
    by (simp add: bucket_size_def card_image)
qed

lemma closer_ids_size:
  assumes "rt_ok t"
  shows "card (closer_ids t i) =
   length (filter (\<lambda>j. j < id_xor i (rt_origin t)) (leaves (rt_root t)))"
proof -
  have "closer_ids t i = (\<lambda>d. id_xor d (rt_origin t)) `
      set (filter (\<lambda>j. j < id_xor i (rt_origin t)) (leaves (rt_root t)))"
    unfolding closer_ids_def rt_ids_def by force
  then show ?thesis
    using assms leaves_distinct [of "rt_root t"]
    by (simp only: card_image inj_distance distinct_card distinct_filter rt_ok_def)
qed

lemma rt_full_iff [panic_free]:
  assumes "rt_ok t" and "i \<noteq> rt_origin t"
  shows "\<exists>full n. rt_full t (id_xor i (rt_origin t)) (shared_prefix i (rt_origin t)) = Some full
     \<and> n \<le> card (closer_ids t i) + 1 \<and> card (closer_ids t i) \<le> n + 1
     \<and> (full \<longleftrightarrow> rt_bucket_capacity t \<le> card (bucket_mates t i)
                 \<and> (rt_splitting_enabled t \<longrightarrow> rt_bucket_capacity t \<le> n))"
proof -
  let ?d = "id_xor i (rt_origin t)"
  have b: "leading_zeros ?d < ROUTING_ID_BITS"
    using assms(2) by (simp add: leading_zeros_lt)
  have trie: "trie_ok 0 (rt_root t)"
    using assms(1) by (simp add: rt_ok_def)
  from count_closer_near_exact [OF trie on_path_0, of ?d] obtain n where
    n: "count_closer_than_subpath (rt_root t) ?d 0 = Some n"
      "n \<le> card (closer_ids t i) + 1" "card (closer_ids t i) \<le> n + 1"
    by (auto simp: closer_ids_size [OF assms(1)])
  have counts: "length (rt_bucket_counts t) = ROUTING_ID_BITS"
    "rt_bucket_counts t ! leading_zeros ?d = card (bucket_mates t i)"
    using assms(1) b by (simp_all add: rt_ok_def bucket_mates_size)
  show ?thesis
    using n b counts by (auto simp: rt_full_def intro!: exI [of _ n])
qed


section \<open>The operations of the routing tree\<close>

lemma rt_put_present:
  assumes "rt_ok t" and "i \<in> rt_ids t"
  shows "rt_put t i = Some (AlreadyExists, t)"
  using assms origin_not_in_rt_ids [OF assms(1)] rt_contains_ids [OF assms(1), of i]
  by (auto simp: rt_put_def rt_contains_def Let_def)

lemma rt_put_origin [simp]: "rt_put t (rt_origin t) = Some (Rejected, t)"
  by (simp add: rt_put_def)

lemma rt_insert_ok:
  assumes ok: "rt_ok t" and new: "i \<notin> rt_ids t" and i: "i \<noteq> rt_origin t"
  shows "\<exists>root. insert_unique (rt_root t) (id_xor i (rt_origin t)) 0 = Some root
    \<and> (let b = shared_prefix i (rt_origin t);
           t' = t\<lparr>rt_root := root,
                  rt_bucket_counts := (rt_bucket_counts t)[b := rt_bucket_counts t ! b + 1]\<rparr>
       in rt_ok t' \<and> rt_ids t' = insert i (rt_ids t))"
proof -
  let ?d = "id_xor i (rt_origin t)"
  have trie: "trie_ok 0 (rt_root t)" and d: "?d \<notin> set (leaves (rt_root t))"
    using ok new by (simp_all add: rt_ok_def rt_ids_distance)
  obtain root where root: "insert_unique (rt_root t) ?d 0 = Some root" "pre_ok 0 root"
    "rt_root t \<noteq> Empty \<longrightarrow> is_branch root"
    "length (leaves root) = Suc (length (leaves (rt_root t)))"
    "set (leaves root) = insert ?d (set (leaves (rt_root t)))"
    using insert_unique_ok [OF trie_ok_pre_ok [OF trie] on_path_0 d] by blast
  have "trie_ok 0 root"
    using root d trie by (cases "rt_root t") (auto simp: trie_ok_iff)
  moreover have "leading_zeros ?d < ROUTING_ID_BITS"
    using i by (simp add: leading_zeros_lt)
  moreover have "id20_ZERO \<noteq> ?d"
    using i id_xor_eq_ZERO [of i "rt_origin t"] by metis
  ultimately show ?thesis
    using root(1,5) ok d
    by (auto simp: Let_def rt_ok_def rt_ids_def bucket_counts_insert nth_list_update)
qed

lemma rt_put_new:
  assumes ok: "rt_ok t" and new: "i \<notin> rt_ids t" and i: "i \<noteq> rt_origin t"
  shows "\<exists>r t' n. rt_put t i = Some (r, t') \<and> rt_ok t' \<and> same_config t t'
    \<and> n \<le> card (closer_ids t i) + 1 \<and> card (closer_ids t i) \<le> n + 1
    \<and> (if rt_bucket_capacity t \<le> card (bucket_mates t i)
            \<and> (rt_splitting_enabled t \<longrightarrow> rt_bucket_capacity t \<le> n)
       then r = Rejected \<and> t' = t
       else r = Accepted \<and> rt_ids t' = insert i (rt_ids t))"
proof -
  obtain full n where full: "rt_full t (id_xor i (rt_origin t)) (shared_prefix i (rt_origin t)) = Some full"
    "n \<le> card (closer_ids t i) + 1" "card (closer_ids t i) \<le> n + 1"
    "full \<longleftrightarrow> rt_bucket_capacity t \<le> card (bucket_mates t i)
       \<and> (rt_splitting_enabled t \<longrightarrow> rt_bucket_capacity t \<le> n)"
    using rt_full_iff [OF ok i] by blast
  obtain root where root: "insert_unique (rt_root t) (id_xor i (rt_origin t)) 0 = Some root"
    "let b = shared_prefix i (rt_origin t);
         t' = t\<lparr>rt_root := root,
                rt_bucket_counts := (rt_bucket_counts t)[b := rt_bucket_counts t ! b + 1]\<rparr>
     in rt_ok t' \<and> rt_ids t' = insert i (rt_ids t)"
    using rt_insert_ok [OF assms] by blast
  have "trie_contains (rt_root t) (id_xor i (rt_origin t)) 0 = Some False"
    using rt_contains_ids [OF ok, of i] new by (simp add: rt_contains_def)
  then show ?thesis
    using full root ok i
    by (cases full) (auto simp: rt_put_def Let_def same_config_def intro!: exI [of _ n])
qed

lemma rt_put_spec [panic_free]:
  assumes "rt_ok t"
  shows "\<exists>r t'. rt_put t i = Some (r, t') \<and> rt_ok t' \<and> same_config t t'
    \<and> (r = AlreadyExists \<longleftrightarrow> i \<in> rt_ids t) \<and> (r = Accepted \<or> t' = t)
    \<and> rt_ids t' = (if r = Accepted then insert i (rt_ids t) else rt_ids t)"
proof (cases "i \<in> rt_ids t \<or> i = rt_origin t")
  case True
  then show ?thesis
    using assms rt_put_present [OF assms, of i] origin_not_in_rt_ids [OF assms] by auto
next
  case False
  then show ?thesis
    using rt_put_new [OF assms, of i] by (auto split: if_splits)
qed

lemma rt_drop_spec [panic_free]:
  assumes ok: "rt_ok t"
  shows "\<exists>t'. rt_drop t i = Some (i \<in> rt_ids t, t') \<and> rt_ok t' \<and> same_config t t'
    \<and> rt_ids t' = rt_ids t - {i}"
proof -
  let ?d = "id_xor i (rt_origin t)" and ?D = "set (leaves (rt_root t))"
  have trie: "trie_ok 0 (rt_root t)" and zero: "id20_ZERO \<notin> ?D"
    and counts: "rt_bucket_counts t = map (bucket_size ?D) [0..<ROUTING_ID_BITS]"
    using ok by (simp_all add: rt_ok_def)
  obtain root where root: "trie_remove (rt_root t) ?d 0 = Some (i \<in> rt_ids t, root)"
    "trie_ok 0 root" "leaves root = removeAll ?d (leaves (rt_root t))" "?d \<notin> ?D \<longrightarrow> root = rt_root t"
    using trie_remove_ok [OF trie on_path_0] by (auto simp: rt_ids_distance)
  have ids: "rt_ids (t\<lparr>rt_root := root, rt_bucket_counts := c\<rparr>) = rt_ids t - {i}" for c
    unfolding rt_ids_def using root(3) by (force simp: image_iff)
  show ?thesis
  proof (cases "i \<in> rt_ids t")
    case False
    then have "?d \<notin> ?D" by (simp add: rt_ids_distance)
    then show ?thesis
      using False ok root by (simp add: rt_drop_def same_config_def)
  next
    case True
    then have d: "?d \<in> ?D" by (simp add: rt_ids_distance)
    then have b: "leading_zeros ?d < ROUTING_ID_BITS"
      using zero leading_zeros_lt [of ?d] by (cases "?d = id20_ZERO") simp_all
    then show ?thesis
      using True root zero counts ids bucket_counts_remove [OF _ d]
      by (simp add: rt_drop_def rt_ok_def Let_def same_config_def)
  qed
qed

lemma rt_closest_near:
  "rt_ok t \<Longrightarrow> rt_closest t i limit =
   map (\<lambda>distance. id_xor distance (rt_origin t))
     (take limit (near (id_xor i (rt_origin t)) 0 (rt_root t)))"
  by (simp add: rt_closest_def rt_ok_def closest_to_subpath_take)

lemma distinct_near: "trie_ok 0 t \<Longrightarrow> distinct (near path 0 t)"
  by (rule card_distinct) (simp add: distinct_card leaves_distinct)

lemma rt_closest_spec:
  assumes "rt_ok t"
  shows "distinct (rt_closest t i limit)" and "set (rt_closest t i limit) \<subseteq> rt_ids t"
    and "length (rt_closest t i limit) = min limit (card (rt_ids t))"
  using assms distinct_near [of "rt_root t"] card_rt_ids [OF assms]
  by (auto simp: rt_closest_near rt_ids_def rt_ok_def distinct_map dest: in_set_takeD)

lemma rt_closest_optimal:
  assumes ok: "rt_ok t" and j: "j \<in> set (rt_closest t i limit)"
    and k: "k \<in> rt_ids t" "k \<notin> set (rt_closest t i limit)"
  shows "shared_prefix k i \<le> shared_prefix j i"
proof -
  let ?o = "rt_origin t"
  let ?ns = "near (id_xor i ?o) 0 (rt_root t)"
  have "sorted_wrt (\<lambda>x y. shared_prefix y (id_xor i ?o) \<le> shared_prefix x (id_xor i ?o)) ?ns"
    using ok by (intro near_descending) (simp_all add: rt_ok_def)
  then have sorted: "sorted_wrt (\<lambda>x y. shared_prefix y (id_xor i ?o) \<le> shared_prefix x (id_xor i ?o))
      (take limit ?ns @ drop limit ?ns)"
    by simp
  obtain x where x: "x \<in> set (take limit ?ns)" "j = id_xor x ?o"
    using j by (auto simp: rt_closest_near [OF ok])
  have "id_xor k ?o \<in> set ?ns"
    using k(1) by (simp add: rt_ids_distance)
  moreover have "id_xor k ?o \<notin> set (take limit ?ns)"
    using k(2) by (force simp: rt_closest_near [OF ok])
  ultimately have "id_xor k ?o \<in> set (drop limit ?ns)"
    by (metis append_take_drop_id Un_iff set_append)
  then have "shared_prefix (id_xor k ?o) (id_xor i ?o) \<le> shared_prefix x (id_xor i ?o)"
    using sorted x(1) by (simp only: sorted_wrt_append)
  moreover have "id_xor x (id_xor i ?o) = id_xor j i"
    unfolding x(2) by (rule id20_eqI) auto
  ultimately show ?thesis
    by simp
qed


section \<open>The interface the tables rely on\<close>

text \<open>
  A table keeps payloads in a hash map beside the tree, one for each routed identifier.
\<close>

definition synced :: "id20 set \<Rightarrow> (id20, 'v) hmap \<Rightarrow> bool" where
  "synced I m \<longleftrightarrow> hm_ok m \<and> hm_keys m = I"

text \<open>
  What a table asks of a routing index: total operations with an exact effect on the set of
  identifiers. The lemmas say that payload maps updated after the index stay synchronized, so
  the lookups the tables unwrap never fail.
\<close>

locale routing_index =
  fixes inv :: "'t \<Rightarrow> bool"
    and ids :: "'t \<Rightarrow> id20 set"
    and put :: "'t \<Rightarrow> id20 \<Rightarrow> (routing_put_result \<times> 't) option"
    and remove :: "'t \<Rightarrow> id20 \<Rightarrow> (bool \<times> 't) option"
    and closest :: "'t \<Rightarrow> id20 \<Rightarrow> nat \<Rightarrow> id20 list"
  assumes put_law: "inv t \<Longrightarrow> \<exists>r t'. put t i = Some (r, t') \<and> inv t'
      \<and> (r = AlreadyExists \<longleftrightarrow> i \<in> ids t) \<and> (r = Accepted \<or> t' = t)
      \<and> ids t' = (if r = Accepted then insert i (ids t) else ids t)"
    and remove_law: "inv t \<Longrightarrow> \<exists>t'. remove t i = Some (i \<in> ids t, t') \<and> inv t'
      \<and> ids t' = ids t - {i}"
    and closest_law: "inv t \<Longrightarrow> distinct (closest t i n) \<and> set (closest t i n) \<subseteq> ids t
      \<and> length (closest t i n) = min n (card (ids t))"
begin

lemma put_sync:
  assumes "inv t" and "synced (ids t) m"
  shows "\<exists>r t'. put t i = Some (r, t') \<and> inv t'
    \<and> (r = AlreadyExists \<longleftrightarrow> i \<in> hm_keys m) \<and> (r = Rejected \<longrightarrow> t' = t)
    \<and> (r \<noteq> Rejected \<longrightarrow> synced (ids t') (hm_insert i v m))"
proof -
  obtain r t' where r: "put t i = Some (r, t')" "inv t'" "r = AlreadyExists \<longleftrightarrow> i \<in> ids t"
    "r = Accepted \<or> t' = t" "ids t' = (if r = Accepted then insert i (ids t) else ids t)"
    using put_law [OF assms(1)] by blast
  then show ?thesis
    using assms(2) by (cases r) (auto simp: synced_def)
qed

lemma remove_sync:
  assumes "inv t" and "synced (ids t) m"
  shows "\<exists>t'. remove t i = Some (i \<in> hm_keys m, t') \<and> inv t' \<and> synced (ids t') (hm_remove i m)"
  using remove_law [OF assms(1), of i] assms(2) by (auto simp: synced_def)

lemma closest_payloads:
  assumes "inv t" and "synced (ids t) m"
  shows "those (map (hm_get m) (closest t i n)) = Some (map (the \<circ> hm_get m) (closest t i n))"
    and "j \<in> set (closest t i n) \<Longrightarrow> j \<in> hm_keys m"
    and "length (closest t i n) = min n (length m)"
    and "distinct (closest t i n)"
proof -
  have keys: "set (closest t i n) \<subseteq> hm_keys m"
    using closest_law [OF assms(1)] assms(2) by (simp add: synced_def)
  have "those (map (hm_get m) js) = Some (map (the \<circ> hm_get m) js)" if "set js \<subseteq> hm_keys m" for js
    using that by (induction js) (auto simp: hm_keys_iff)
  with keys show "those (map (hm_get m) (closest t i n)) = Some (map (the \<circ> hm_get m) (closest t i n))"
    by blast
  show "j \<in> set (closest t i n) \<Longrightarrow> j \<in> hm_keys m"
    using keys by blast
  show "length (closest t i n) = min n (length m)" "distinct (closest t i n)"
    using closest_law [OF assms(1)] assms(2) by (simp_all add: synced_def hm_length)
qed

end

text \<open>The tree refines that interface; a tree keeps the configuration it was built with.\<close>

definition rt_config_ok :: "id20 \<Rightarrow> nat \<Rightarrow> bool \<Rightarrow> routing_tree \<Rightarrow> bool" where
  "rt_config_ok origin capacity splitting t \<longleftrightarrow> rt_ok t \<and> rt_origin t = origin
     \<and> rt_bucket_capacity t = capacity \<and> rt_splitting_enabled t = splitting"

interpretation rt: routing_index "rt_config_ok origin capacity splitting" rt_ids rt_put rt_drop rt_closest
  for origin capacity splitting
proof (unfold_locales, goal_cases)
  case (1 t i)
  then show ?case
    using rt_put_spec [of t i] by (auto simp: rt_config_ok_def same_config_def)
next
  case (2 t i)
  then show ?case
    using rt_drop_spec [of t i] by (auto simp: rt_config_ok_def same_config_def)
next
  case (3 t i n)
  then show ?case
    using rt_closest_spec [of t i n] by (simp add: rt_config_ok_def)
qed

lemma synced_Nil [simp]: "synced {} []"
  by (simp add: synced_def)

lemma rt_new_config [simp]:
  "rt_origin (rt_new origin capacity splitting) = origin"
  "rt_bucket_capacity (rt_new origin capacity splitting) = capacity"
  "rt_splitting_enabled (rt_new origin capacity splitting) = splitting"
  by (simp_all add: rt_new_def)

lemma rt_config_ok_new [simp]:
  "rt_config_ok origin capacity splitting (rt_new origin capacity splitting)"
  using rt_new_ok [of origin capacity splitting] by (simp add: rt_config_ok_def rt_new_def)

section \<open>Properties\<close>



text \<open>
  (C9) \<open>RoutingTree::closest\<close> returns as many distinct routed identifiers as the limit
  and the tree allow, and no identifier it leaves out shares a longer prefix with the target than
  one it returns.
\<close>

theorem routing_closest_optimal:
  assumes "rt_ok t"
  shows "length (rt_closest t i limit) = min limit (card (rt_ids t))
    \<and> distinct (rt_closest t i limit) \<and> set (rt_closest t i limit) \<subseteq> rt_ids t
    \<and> (\<forall>j \<in> set (rt_closest t i limit). \<forall>k \<in> rt_ids t - set (rt_closest t i limit).
         shared_prefix k i \<le> shared_prefix j i)"
  using rt_closest_spec [OF assms] rt_closest_optimal [OF assms] by blast


theorem routing_closest_optimal_witness:
  "\<exists>t. rt_put (rt_new id20_ZERO 80 True) (Id20 (replicate 20 255)) = Some (Accepted, t)
     \<and> length (rt_closest t id20_ZERO 8) = 1 \<and> set (rt_closest t id20_ZERO 8) \<subseteq> {Id20 (replicate 20 255)}"
proof -
  let ?i = "Id20 (replicate 20 255)"
  have "\<exists>t. rt_put (rt_new id20_ZERO 80 True) ?i = Some (Accepted, t) \<and> rt_ok t \<and> rt_ids t = {?i}"
    using rt_put_new [OF rt_new_ok, of ?i id20_ZERO 80 True]
    by (auto simp: id20_ZERO_def Id20_inject bucket_mates_def)
  then show ?thesis
    using routing_closest_optimal by force
qed

end
