(* ===== verification/Node_Table.thy ===== *)
theory Node_Table
  imports Routing_Tree
begin

text \<open>
  \<open>bitmagnet-dht/src/node_table.rs\<close>: the node keyspace, a routing tree with one address
  payload for each routed identifier.
\<close>

section \<open>Model\<close>

abbreviation NODE_TABLE_CAPACITY :: nat where
  "NODE_TABLE_CAPACITY \<equiv> 80"

abbreviation NODE_TABLE_CLOSEST_LIMIT :: nat where
  "NODE_TABLE_CLOSEST_LIMIT \<equiv> 8"

record routing_node =
  rn_id :: id20
  rn_addr :: socket_addr

record node_table =
  nt_origin :: id20
  nt_routing :: routing_tree
  nt_nodes :: "(id20, routing_node) hmap"

fun normalize_addr :: "socket_addr \<Rightarrow> socket_addr" where
  "normalize_addr (SocketV4 ip port) = SocketV4 ip port"
| "normalize_addr (SocketV6 ip port flowinfo scope) = SocketV6 ip port 0 scope"

definition nt_new :: "id20 \<Rightarrow> node_table" where
  "nt_new origin =
     \<lparr>nt_origin = origin, nt_routing = rt_new origin NODE_TABLE_CAPACITY True, nt_nodes = []\<rparr>"

definition nt_count :: "node_table \<Rightarrow> nat" where
  "nt_count t = length (nt_nodes t)"

definition nt_put :: "node_table \<Rightarrow> routing_node \<Rightarrow> (routing_put_result \<times> node_table) option" where
  "nt_put t node =
     (case rt_put (nt_routing t) (rn_id node) of
        None \<Rightarrow> None
      | Some (result, routing) \<Rightarrow>
          let t = t\<lparr>nt_routing := routing\<rparr>
          in Some (result,
               if result = Rejected then t
               else t\<lparr>nt_nodes := hm_insert (rn_id node)
                        (node\<lparr>rn_addr := normalize_addr (rn_addr node)\<rparr>) (nt_nodes t)\<rparr>))"

text \<open>The \<open>debug_assert!\<close> that the payload was there counts as a panic.\<close>

definition nt_drop :: "node_table \<Rightarrow> id20 \<Rightarrow> (bool \<times> node_table) option" where
  "nt_drop t i =
     (case rt_drop (nt_routing t) i of
        None \<Rightarrow> None
      | Some (False, routing) \<Rightarrow> Some (False, t\<lparr>nt_routing := routing\<rparr>)
      | Some (True, routing) \<Rightarrow>
          if hm_contains (nt_nodes t) i
          then Some (True, t\<lparr>nt_routing := routing, nt_nodes := hm_remove i (nt_nodes t)\<rparr>)
          else None)"

definition nt_closest :: "node_table \<Rightarrow> id20 \<Rightarrow> routing_node list option" where
  "nt_closest t i =
     (case hm_get (nt_nodes t) i of
        Some node \<Rightarrow> Some [node]
      | None \<Rightarrow>
          those (map (hm_get (nt_nodes t)) (rt_closest (nt_routing t) i NODE_TABLE_CLOSEST_LIMIT)))"

section \<open>Invariant\<close>

definition node_ok :: "id20 \<Rightarrow> routing_node \<Rightarrow> bool" where
  "node_ok i node \<longleftrightarrow> rn_id node = i \<and> normalize_addr (rn_addr node) = rn_addr node"

definition nt_ok :: "node_table \<Rightarrow> bool" where
  "nt_ok t \<longleftrightarrow> rt_config_ok (nt_origin t) NODE_TABLE_CAPACITY True (nt_routing t)
     \<and> synced (rt_ids (nt_routing t)) (nt_nodes t)
     \<and> (\<forall>i node. hm_get (nt_nodes t) i = Some node \<longrightarrow> node_ok i node)"

abbreviation nt_get :: "node_table \<Rightarrow> id20 \<Rightarrow> routing_node option" where
  "nt_get t \<equiv> hm_get (nt_nodes t)"

lemma normalize_addr_idem [simp]: "normalize_addr (normalize_addr a) = normalize_addr a"
  by (cases a) simp_all

lemma nt_okD:
  assumes "nt_ok t"
  shows "rt_config_ok (nt_origin t) NODE_TABLE_CAPACITY True (nt_routing t)"
    and "synced (rt_ids (nt_routing t)) (nt_nodes t)"
    and "nt_get t i = Some node \<Longrightarrow> rn_id node = i \<and> normalize_addr (rn_addr node) = rn_addr node"
  using assms by (simp_all add: nt_ok_def node_ok_def)

lemma nt_new_ok [simp]: "nt_ok (nt_new origin)"
  by (simp add: nt_ok_def nt_new_def)

lemma nt_keys: "nt_ok t \<Longrightarrow> hm_keys (nt_nodes t) = rt_ids (nt_routing t)"
  by (simp add: nt_ok_def synced_def)

lemma nt_origin_absent: "nt_ok t \<Longrightarrow> nt_get t (nt_origin t) = None"
  using origin_not_in_rt_ids [of "nt_routing t"] hm_keys_iff [of "nt_origin t" "nt_nodes t"]
  by (auto simp: nt_keys rt_config_ok_def nt_ok_def)

lemma nt_put_spec [panic_free]:
  assumes "nt_ok t"
  shows "\<exists>r t'. nt_put t node = Some (r, t') \<and> nt_ok t' \<and> nt_origin t' = nt_origin t
    \<and> (r = AlreadyExists \<longleftrightarrow> nt_get t (rn_id node) \<noteq> None)
    \<and> nt_get t' = (if r = Rejected then nt_get t
         else (nt_get t)(rn_id node \<mapsto> node\<lparr>rn_addr := normalize_addr (rn_addr node)\<rparr>))"
proof -
  let ?n = "node\<lparr>rn_addr := normalize_addr (rn_addr node)\<rparr>"
  obtain r rt where rt: "rt_put (nt_routing t) (rn_id node) = Some (r, rt)"
    "rt_config_ok (nt_origin t) NODE_TABLE_CAPACITY True rt"
    "r = AlreadyExists \<longleftrightarrow> rn_id node \<in> hm_keys (nt_nodes t)"
    "r = Rejected \<longrightarrow> rt = nt_routing t"
    "r \<noteq> Rejected \<longrightarrow> synced (rt_ids rt) (hm_insert (rn_id node) ?n (nt_nodes t))"
    using rt.put_sync [OF nt_okD(1,2) [OF assms], of "rn_id node" ?n] by blast
  then show ?thesis
    using assms by (cases r) (simp_all add: nt_put_def nt_ok_def node_ok_def hm_keys_iff hmap_simps)
qed

lemma nt_drop_spec [panic_free]:
  assumes "nt_ok t"
  shows "\<exists>t'. nt_drop t i = Some (nt_get t i \<noteq> None, t') \<and> nt_ok t' \<and> nt_origin t' = nt_origin t
    \<and> nt_get t' = (nt_get t)(i := None)"
proof -
  obtain rt where rt: "rt_drop (nt_routing t) i = Some (i \<in> hm_keys (nt_nodes t), rt)"
    "rt_config_ok (nt_origin t) NODE_TABLE_CAPACITY True rt"
    "synced (rt_ids rt) (hm_remove i (nt_nodes t))"
    using rt.remove_sync [OF nt_okD(1,2) [OF assms], of i] by blast
  show ?thesis
  proof (cases "i \<in> hm_keys (nt_nodes t)")
    case True
    with rt assms show ?thesis
      by (auto simp: nt_drop_def nt_ok_def node_ok_def hm_keys_iff hmap_simps)
  next
    case False
    then have "hm_remove i (nt_nodes t) = nt_nodes t"
      by (simp add: hm_keys_def delete_idem)
    with False rt assms show ?thesis
      by (auto simp: nt_drop_def nt_ok_def node_ok_def hm_keys_iff hmap_simps)
  qed
qed

text \<open>What \<open>closest\<close> returns, by the map of nodes alone.\<close>

lemma nt_closest_spec [panic_free]:
  assumes "nt_ok t"
  shows "\<exists>ns. nt_closest t i = Some ns
    \<and> (\<forall>node \<in> set ns. nt_get t (rn_id node) = Some node)
    \<and> distinct (map rn_id ns)
    \<and> (case nt_get t i of
         Some node \<Rightarrow> ns = [node]
       | None \<Rightarrow> length ns = min NODE_TABLE_CLOSEST_LIMIT (nt_count t)
           \<and> map rn_id ns = rt_closest (nt_routing t) i NODE_TABLE_CLOSEST_LIMIT)"
proof (cases "nt_get t i")
  case (Some node)
  then show ?thesis
    using nt_okD(3) [OF assms Some] by (simp add: nt_closest_def)
next
  case None
  let ?js = "rt_closest (nt_routing t) i NODE_TABLE_CLOSEST_LIMIT"
  note payloads = rt.closest_payloads 
    [OF nt_okD(1,2) [OF assms], where i = i and n = NODE_TABLE_CLOSEST_LIMIT]
  have get: "nt_get t j = Some (the (nt_get t j)) \<and> rn_id (the (nt_get t j)) = j" if "j \<in> set ?js" for j
    using payloads(2) [OF that] nt_okD(3) [OF assms, of j] by (auto simp: hm_keys_iff)
  then have "map rn_id (map (the \<circ> nt_get t) ?js) = ?js"
    by (simp add: map_idI)
  with payloads None get show ?thesis
    by (auto simp: nt_closest_def nt_count_def)
qed

end
