(* ===== verification/KTable_Core.thy ===== *)
theory KTable_Core
  imports Node_Table
begin

text \<open>
  \<open>bitmagnet-dht/src/ktable_core.rs\<close>: the node and hash keyspaces with the reverse index from
  an IP address (and IPv6 scope) to the node and the hashes seen there.
\<close>

section \<open>Model\<close>

abbreviation HASH_TABLE_CAPACITY :: nat where
  "HASH_TABLE_CAPACITY \<equiv> 80"

record ktable_hash_peer =
  hp_addr :: socket_addr

record ktable_hash =
  kh_id :: id20
  kh_peers :: "ktable_hash_peer list"

datatype ktable_hash_lookup = HashFound ktable_hash | ClosestRoutingNodes "routing_node list"

record ktable_reverse_info =
  kri_peer_id :: "id20 option"
  kri_hashes :: "id20 list"

datatype reverse_address = RevV4 ipv4_addr | RevV6 ipv6_addr u32

fun from_socket_addr :: "socket_addr \<Rightarrow> reverse_address" where
  "from_socket_addr (SocketV4 ip port) = RevV4 ip"
| "from_socket_addr (SocketV6 ip port flowinfo scope) = RevV6 ip scope"

record reverse_info =
  ri_peer_id :: id20
  ri_hashes :: "id20 set"

definition reverse_info_default :: reverse_info where
  "reverse_info_default = \<lparr>ri_peer_id = id20_ZERO, ri_hashes = {}\<rparr>"

record hash_entry =
  he_id :: id20
  he_peers :: "(reverse_address, ktable_hash_peer) hmap"

record ktable_core =
  kc_origin :: id20
  kc_nodes :: node_table
  kc_hash_routing :: routing_tree
  kc_hashes :: "(id20, hash_entry) hmap"
  kc_reverse :: "(reverse_address, reverse_info) hmap"

fun normalize_socket_addr :: "socket_addr \<Rightarrow> socket_addr" where
  "normalize_socket_addr (SocketV4 ip port) = SocketV4 ip port"
| "normalize_socket_addr (SocketV6 ip port flowinfo scope) = SocketV6 ip port 0 scope"

definition kc_new :: "id20 \<Rightarrow> ktable_core" where
  "kc_new origin =
     \<lparr>kc_origin = origin, kc_nodes = nt_new origin,
      kc_hash_routing = rt_new origin HASH_TABLE_CAPACITY True, kc_hashes = [], kc_reverse = []\<rparr>"

definition kc_node_count :: "ktable_core \<Rightarrow> nat" where
  "kc_node_count c = nt_count (kc_nodes c)"

definition kc_hash_count :: "ktable_core \<Rightarrow> nat" where
  "kc_hash_count c = length (kc_hashes c)"

definition kc_reverse_address_count :: "ktable_core \<Rightarrow> nat" where
  "kc_reverse_address_count c = length (kc_reverse c)"

definition kc_reverse_info :: "ktable_core \<Rightarrow> socket_addr \<Rightarrow> ktable_reverse_info option" where
  "kc_reverse_info c addr =
     map_option
       (\<lambda>info. \<lparr>kri_peer_id = (if ri_peer_id info \<noteq> id20_ZERO then Some (ri_peer_id info) else None),
               kri_hashes = sorted_list_of_set (ri_hashes info)\<rparr>)
       (hm_get (kc_reverse c) (from_socket_addr addr))"

text \<open>The outer option is the panic of the lookup, the inner one its result.\<close>

definition kc_node :: "ktable_core \<Rightarrow> id20 \<Rightarrow> routing_node option option" where
  "kc_node c i =
     map_option
       (\<lambda>ns. case ns of [] \<Rightarrow> None | node # _ \<Rightarrow> if rn_id node = i then Some node else None)
       (nt_closest (kc_nodes c) i)"

text \<open>\<open>HashMap::entry(key).or_default()\<close>, then an update of the entry.\<close>

definition reverse_entry ::
  "reverse_address \<Rightarrow> (reverse_info \<Rightarrow> reverse_info) \<Rightarrow> (reverse_address, reverse_info) hmap
   \<Rightarrow> (reverse_address, reverse_info) hmap" where
  "reverse_entry key f m =
     hm_insert key (f (case hm_get m key of None \<Rightarrow> reverse_info_default | Some info \<Rightarrow> info)) m"

definition kc_put_node :: "ktable_core \<Rightarrow> routing_node \<Rightarrow> (routing_put_result \<times> ktable_core) option" where
  "kc_put_node c node0 =
     (let node = node0\<lparr>rn_addr := normalize_socket_addr (rn_addr node0)\<rparr>
      in case kc_node c (rn_id node) of
           None \<Rightarrow> None
         | Some previous \<Rightarrow>
             (case nt_put (kc_nodes c) node of
                None \<Rightarrow> None
              | Some (result, nodes) \<Rightarrow>
                  let c = c\<lparr>kc_nodes := nodes\<rparr>
                  in if result \<noteq> AlreadyExists then Some (result, c)
                     else case previous of
                            None \<Rightarrow> None
                          | Some prev \<Rightarrow>
                              let reverse =
                                    (if rn_addr prev \<noteq> rn_addr node
                                     then hm_remove (from_socket_addr (rn_addr prev)) (kc_reverse c)
                                     else kc_reverse c)
                              in Some (result, c\<lparr>kc_reverse :=
                                   reverse_entry (from_socket_addr (rn_addr node))
                                     (\<lambda>info. info\<lparr>ri_peer_id := rn_id node\<rparr>) reverse\<rparr>)))"

definition kc_drop_node :: "ktable_core \<Rightarrow> id20 \<Rightarrow> (bool \<times> ktable_core) option" where
  "kc_drop_node c i =
     (case kc_node c i of
        None \<Rightarrow> None
      | Some None \<Rightarrow> Some (False, c)
      | Some (Some node) \<Rightarrow>
          (case nt_drop (kc_nodes c) i of
             None \<Rightarrow> None
           | Some (False, nodes) \<Rightarrow> Some (False, c\<lparr>kc_nodes := nodes\<rparr>)
           | Some (True, nodes) \<Rightarrow>
               Some (True, c\<lparr>kc_nodes := nodes,
                 kc_reverse := hm_remove (from_socket_addr (rn_addr node)) (kc_reverse c)\<rparr>)))"

definition kc_drop_addr :: "ktable_core \<Rightarrow> socket_addr \<Rightarrow> (bool \<times> ktable_core) option" where
  "kc_drop_addr c addr =
     (case hm_get (kc_reverse c) (from_socket_addr addr) of
        None \<Rightarrow> Some (False, c)
      | Some info \<Rightarrow>
          if ri_peer_id info = id20_ZERO then Some (False, c)
          else kc_drop_node c (ri_peer_id info))"

definition kc_node_id_for_addr :: "ktable_core \<Rightarrow> socket_addr \<Rightarrow> id20 option" where
  "kc_node_id_for_addr c addr =
     (case hm_get (kc_reverse c) (from_socket_addr addr) of
        None \<Rightarrow> None
      | Some info \<Rightarrow> if ri_peer_id info \<noteq> id20_ZERO then Some (ri_peer_id info) else None)"

text \<open>One round of the loop over the announced peers.\<close>

definition put_hash_peer ::
  "id20 \<Rightarrow> ktable_hash_peer
   \<Rightarrow> (reverse_address, ktable_hash_peer) hmap \<times> (reverse_address, reverse_info) hmap
   \<Rightarrow> (reverse_address, ktable_hash_peer) hmap \<times> (reverse_address, reverse_info) hmap" where
  "put_hash_peer i peer0 = (\<lambda>(peers, reverse).
     let peer = \<lparr>hp_addr = normalize_socket_addr (hp_addr peer0)\<rparr>;
         key = from_socket_addr (hp_addr peer)
     in (hm_insert key peer peers,
         reverse_entry key (\<lambda>info. info\<lparr>ri_hashes := insert i (ri_hashes info)\<rparr>) reverse))"

definition kc_put_hash ::
  "ktable_core \<Rightarrow> id20 \<Rightarrow> ktable_hash_peer list \<Rightarrow> (routing_put_result \<times> ktable_core) option" where
  "kc_put_hash c i peers =
     (case rt_put (kc_hash_routing c) i of
        None \<Rightarrow> None
      | Some (result, routing) \<Rightarrow>
          let c = c\<lparr>kc_hash_routing := routing\<rparr>
          in if result = Rejected then Some (result, c)
             else
               let hashes = (if result = Accepted
                             then hm_insert i \<lparr>he_id = i, he_peers = []\<rparr> (kc_hashes c)
                             else kc_hashes c)
               in case hm_get hashes i of
                    None \<Rightarrow> None
                  | Some entry \<Rightarrow>
                      let (entry_peers, reverse) =
                            fold (put_hash_peer i) peers (he_peers entry, kc_reverse c)
                      in Some (result, c\<lparr>kc_hashes := hm_insert i (entry\<lparr>he_peers := entry_peers\<rparr>) hashes,
                                         kc_reverse := reverse\<rparr>))"

definition kc_hash :: "ktable_core \<Rightarrow> id20 \<Rightarrow> ktable_hash option" where
  "kc_hash c i =
     map_option
       (\<lambda>entry. \<lparr>kh_id = he_id entry,
                kh_peers = sort_key (\<lambda>peer. socket_to_string (hp_addr peer)) (map snd (he_peers entry))\<rparr>)
       (hm_get (kc_hashes c) i)"

definition kc_hashes_by_id :: "ktable_core \<Rightarrow> ktable_hash list" where
  "kc_hashes_by_id c = List.map_filter (kc_hash c) (sort (map fst (kc_hashes c)))"

definition kc_closest_nodes :: "ktable_core \<Rightarrow> id20 \<Rightarrow> routing_node list option" where
  "kc_closest_nodes c i = nt_closest (kc_nodes c) i"

definition kc_get_hash_or_closest_nodes :: "ktable_core \<Rightarrow> id20 \<Rightarrow> ktable_hash_lookup option" where
  "kc_get_hash_or_closest_nodes c i =
     (case kc_hash c i of
        Some hash \<Rightarrow> Some (HashFound hash)
      | None \<Rightarrow> map_option ClosestRoutingNodes (kc_closest_nodes c i))"

definition kc_filter_known_addrs :: "ktable_core \<Rightarrow> socket_addr list \<Rightarrow> socket_addr list" where
  "kc_filter_known_addrs c addrs =
     filter (\<lambda>addr. \<not> hm_contains (kc_reverse c) (from_socket_addr addr)) addrs"

section \<open>Invariant\<close>

text \<open>
  The reverse index is sound: a node it names is in the table at that address, and a hash it
  names has a peer at that address.
\<close>

definition hash_entry_ok :: "id20 \<Rightarrow> hash_entry \<Rightarrow> bool" where
  "hash_entry_ok i e \<longleftrightarrow> he_id e = i \<and> hm_ok (he_peers e)
     \<and> (\<forall>k p. hm_get (he_peers e) k = Some p \<longrightarrow>
          from_socket_addr (hp_addr p) = k \<and> normalize_socket_addr (hp_addr p) = hp_addr p)"

definition reverse_sound ::
  "(id20 \<Rightarrow> routing_node option) \<Rightarrow> (id20 \<Rightarrow> hash_entry option)
   \<Rightarrow> (reverse_address \<Rightarrow> reverse_info option) \<Rightarrow> bool" where
  "reverse_sound N H R \<longleftrightarrow>
     (\<forall>k info. R k = Some info \<longrightarrow>
        (ri_peer_id info \<noteq> id20_ZERO \<longrightarrow>
           (\<exists>node. N (ri_peer_id info) = Some node \<and> from_socket_addr (rn_addr node) = k))
        \<and> finite (ri_hashes info)
        \<and> (\<forall>h \<in> ri_hashes info. \<exists>e. H h = Some e \<and> k \<in> hm_keys (he_peers e)))"

definition kc_ok :: "ktable_core \<Rightarrow> bool" where
  "kc_ok c \<longleftrightarrow> nt_ok (kc_nodes c) \<and> nt_origin (kc_nodes c) = kc_origin c
     \<and> rt_config_ok (kc_origin c) HASH_TABLE_CAPACITY True (kc_hash_routing c)
     \<and> synced (rt_ids (kc_hash_routing c)) (kc_hashes c)
     \<and> (\<forall>i e. hm_get (kc_hashes c) i = Some e \<longrightarrow> hash_entry_ok i e)
     \<and> hm_ok (kc_reverse c)
     \<and> reverse_sound (nt_get (kc_nodes c)) (hm_get (kc_hashes c)) (hm_get (kc_reverse c))"

lemma normalize_socket_addr_eq [simp]: "normalize_socket_addr = normalize_addr"
proof (rule ext)
  show "normalize_socket_addr a = normalize_addr a" for a
    by (cases a) simp_all
qed

lemma from_socket_addr_normalize [simp]: "from_socket_addr (normalize_addr a) = from_socket_addr a"
  by (cases a) simp_all

lemma kc_new_ok [simp]: "kc_ok (kc_new origin)"
  by (simp add: kc_ok_def kc_new_def reverse_sound_def) (simp add: nt_new_def)

lemma kc_node_eq [panic_free]:
  assumes "kc_ok c"
  shows "kc_node c i = Some (nt_get (kc_nodes c) i)"
proof -
  obtain ns where "nt_closest (kc_nodes c) i = Some ns"
    "\<forall>node \<in> set ns. nt_get (kc_nodes c) (rn_id node) = Some node"
    "case nt_get (kc_nodes c) i of Some node \<Rightarrow> ns = [node] | None \<Rightarrow> True"
    "nt_get (kc_nodes c) i = Some node \<Longrightarrow> rn_id node = i" for node
    using nt_closest_spec [of "kc_nodes c" i] nt_okD(3) [of "kc_nodes c" i] assms
    by (auto simp: kc_ok_def split: option.splits)
  then show ?thesis
    by (cases ns) (auto simp: kc_node_def split: option.splits)
qed


lemma hm_get_reverse_entry [hmap_simps]:
  "hm_get (reverse_entry key f m) = (hm_get m)(key \<mapsto>
     f (case hm_get m key of None \<Rightarrow> reverse_info_default | Some info \<Rightarrow> info))"
  by (simp add: reverse_entry_def hmap_simps)

lemma hm_ok_reverse_entry [simp]: "hm_ok m \<Longrightarrow> hm_ok (reverse_entry key f m)"
  by (simp add: reverse_entry_def)

lemma hm_keys_reverse_entry [simp]: "hm_keys (reverse_entry key f m) = insert key (hm_keys m)"
  by (simp add: reverse_entry_def)

section \<open>The reverse index stays sound\<close>

lemma reverse_soundD:
  assumes "reverse_sound N H R" and "R k = Some info"
  shows "ri_peer_id info \<noteq> id20_ZERO \<Longrightarrow>
      \<exists>node. N (ri_peer_id info) = Some node \<and> from_socket_addr (rn_addr node) = k"
    and "finite (ri_hashes info)"
    and "h \<in> ri_hashes info \<Longrightarrow> \<exists>e. H h = Some e \<and> k \<in> hm_keys (he_peers e)"
  using assms unfolding reverse_sound_def by blast+

lemma reverse_sound_new_node:
  "reverse_sound N H R \<Longrightarrow> N i = None \<Longrightarrow> reverse_sound (N(i \<mapsto> node)) H R"
  unfolding reverse_sound_def by (metis fun_upd_other option.distinct(1))

lemma reverse_sound_drop:
  assumes "reverse_sound N H R" and "N i = Some node"
  shows "reverse_sound (N(i := None)) H (R(from_socket_addr (rn_addr node) := None))"
  unfolding reverse_sound_def
proof (intro allI impI)
  fix k info
  assume "(R(from_socket_addr (rn_addr node) := None)) k = Some info"
  then have k: "k \<noteq> from_socket_addr (rn_addr node)" and R: "R k = Some info"
    by (auto split: if_splits)
  note sound = reverse_soundD [OF assms(1) R]
  show "(ri_peer_id info \<noteq> id20_ZERO \<longrightarrow>
      (\<exists>n. (N(i := None)) (ri_peer_id info) = Some n \<and> from_socket_addr (rn_addr n) = k))
    \<and> finite (ri_hashes info)
    \<and> (\<forall>h \<in> ri_hashes info. \<exists>e. H h = Some e \<and> k \<in> hm_keys (he_peers e))"
    using sound k assms(2) by (cases "ri_peer_id info = id20_ZERO") auto
qed

lemma reverse_sound_moved:
  assumes "reverse_sound N H R" and "N i = Some prev"
    and "R1 = (if rn_addr prev \<noteq> rn_addr node then R(from_socket_addr (rn_addr prev) := None) else R)"
  shows "reverse_sound (N(i \<mapsto> node)) H (R1(from_socket_addr (rn_addr node) \<mapsto>
    (case R1 (from_socket_addr (rn_addr node)) of None \<Rightarrow> reverse_info_default | Some info \<Rightarrow> info)
      \<lparr>ri_peer_id := i\<rparr>))"
proof -
  let ?key = "from_socket_addr (rn_addr node)"
  have R1: "R k = Some info" if "R1 k = Some info" for k info
    using that assms(3) by (auto split: if_splits)
  show ?thesis
    unfolding reverse_sound_def
  proof (intro allI impI)
    fix k info
    assume "(R1(?key \<mapsto> (case R1 ?key of None \<Rightarrow> reverse_info_default | Some info \<Rightarrow> info)
      \<lparr>ri_peer_id := i\<rparr>)) k = Some info"
    then consider "k = ?key" "info = reverse_info_default\<lparr>ri_peer_id := i\<rparr>"
      | info0 where "k = ?key" "R k = Some info0" "info = info0\<lparr>ri_peer_id := i\<rparr>"
      | "k \<noteq> ?key" "R1 k = Some info" "R k = Some info"
      using R1 by (cases "k = ?key"; cases "R1 ?key") auto
    then show "(ri_peer_id info \<noteq> id20_ZERO \<longrightarrow>
        (\<exists>n. (N(i \<mapsto> node)) (ri_peer_id info) = Some n \<and> from_socket_addr (rn_addr n) = k))
      \<and> finite (ri_hashes info)
      \<and> (\<forall>h \<in> ri_hashes info. \<exists>e. H h = Some e \<and> k \<in> hm_keys (he_peers e))"
    proof cases
      case 1
      then show ?thesis by (simp add: reverse_info_default_def)
    next
      case 2
      then show ?thesis using reverse_soundD [OF assms(1) 2(2)] by simp
    next
      case 3
      then show ?thesis
        using reverse_soundD [OF assms(1) 3(3)] assms(2,3)
        by (cases "ri_peer_id info = id20_ZERO") (auto split: if_splits)
    qed
  qed
qed

section \<open>Nodes\<close>

text \<open>The reverse index after an update of a known node.\<close>

definition moved_reverse ::
  "routing_node \<Rightarrow> routing_node \<Rightarrow> (reverse_address \<Rightarrow> reverse_info option)
   \<Rightarrow> reverse_address \<Rightarrow> reverse_info option" where
  "moved_reverse prev node R =
     (let R1 = (if rn_addr prev \<noteq> rn_addr node then R(from_socket_addr (rn_addr prev) := None) else R);
          key = from_socket_addr (rn_addr node)
      in R1(key \<mapsto> (case R1 key of None \<Rightarrow> reverse_info_default | Some info \<Rightarrow> info)
           \<lparr>ri_peer_id := rn_id node\<rparr>))"

abbreviation normalized :: "routing_node \<Rightarrow> routing_node" where
  "normalized node \<equiv> node\<lparr>rn_addr := normalize_addr (rn_addr node)\<rparr>"

lemma moved_reverse_entry:
  "hm_get (reverse_entry (from_socket_addr (rn_addr node)) (\<lambda>info. info\<lparr>ri_peer_id := rn_id node\<rparr>)
     (if rn_addr prev \<noteq> rn_addr node then hm_remove (from_socket_addr (rn_addr prev)) m else m))
   = moved_reverse prev node (hm_get m)"
  by (cases "rn_addr prev = rn_addr node") (simp_all add: moved_reverse_def hmap_simps Let_def)

text \<open>What an operation on the nodes leaves alone.\<close>

definition same_hashes :: "ktable_core \<Rightarrow> ktable_core \<Rightarrow> bool" where
  "same_hashes c c' \<longleftrightarrow> kc_origin c' = kc_origin c \<and> kc_hash_routing c' = kc_hash_routing c
     \<and> kc_hashes c' = kc_hashes c"

lemma kc_put_node_spec [panic_free]:
  assumes "kc_ok c"
  shows "\<exists>r c'. kc_put_node c node = Some (r, c') \<and> kc_ok c' \<and> same_hashes c c'
    \<and> (r = AlreadyExists \<longleftrightarrow> nt_get (kc_nodes c) (rn_id node) \<noteq> None)
    \<and> nt_get (kc_nodes c') = (if r = Rejected then nt_get (kc_nodes c)
         else (nt_get (kc_nodes c))(rn_id node \<mapsto> normalized node))
    \<and> hm_get (kc_reverse c') =
        (case nt_get (kc_nodes c) (rn_id node) of
           None \<Rightarrow> hm_get (kc_reverse c)
         | Some prev \<Rightarrow> moved_reverse prev (normalized node) (hm_get (kc_reverse c)))"
proof -
  have nodes: "nt_ok (kc_nodes c)"
    and sound: "reverse_sound (nt_get (kc_nodes c)) (hm_get (kc_hashes c)) (hm_get (kc_reverse c))"
    using assms by (simp_all add: kc_ok_def)
  obtain r nodes' where put: "nt_put (kc_nodes c) (normalized node) = Some (r, nodes')" "nt_ok nodes'"
    "nt_origin nodes' = nt_origin (kc_nodes c)"
    "r = AlreadyExists \<longleftrightarrow> nt_get (kc_nodes c) (rn_id node) \<noteq> None"
    "nt_get nodes' = (if r = Rejected then nt_get (kc_nodes c)
         else (nt_get (kc_nodes c))(rn_id node \<mapsto> normalized node))"
    using nt_put_spec [OF nodes, of "normalized node"] by auto
  show ?thesis
  proof (cases "nt_get (kc_nodes c) (rn_id node)")
    case None
    with assms put reverse_sound_new_node [OF sound None] show ?thesis
      by (auto simp: kc_put_node_def kc_node_eq kc_ok_def same_hashes_def)
  next
    case (Some prev)
    with put have r: "r = AlreadyExists" by simp
    let ?R = "if rn_addr prev \<noteq> rn_addr (normalized node)
        then hm_remove (from_socket_addr (rn_addr prev)) (kc_reverse c) else kc_reverse c"
    let ?c' = "c\<lparr>kc_nodes := nodes', kc_reverse := reverse_entry (from_socket_addr (rn_addr (normalized node)))
        (\<lambda>info. info\<lparr>ri_peer_id := rn_id node\<rparr>) ?R\<rparr>"
    have "kc_put_node c node = Some (AlreadyExists, ?c')"
      using assms put(1) Some
      by (simp add: r kc_put_node_def kc_node_eq Let_def)
    moreover have R: "hm_get (kc_reverse ?c') = moved_reverse prev (normalized node) (hm_get (kc_reverse c))"
      using moved_reverse_entry [of "normalized node" prev "kc_reverse c"]
      by simp
    moreover have "kc_ok ?c'"
      unfolding kc_ok_def R
      using assms put r reverse_sound_moved [OF sound Some refl, of "normalized node"]
      by (simp add: kc_ok_def moved_reverse_def Let_def)
    ultimately show ?thesis
      using put Some r by (simp add: same_hashes_def)
  qed
qed

lemma kc_drop_node_spec [panic_free]:
  assumes "kc_ok c"
  shows "\<exists>c'. kc_drop_node c i = Some (nt_get (kc_nodes c) i \<noteq> None, c') \<and> kc_ok c' \<and> same_hashes c c'
    \<and> nt_get (kc_nodes c') = (nt_get (kc_nodes c))(i := None)
    \<and> hm_get (kc_reverse c') =
        (case nt_get (kc_nodes c) i of
           None \<Rightarrow> hm_get (kc_reverse c)
         | Some node \<Rightarrow> (hm_get (kc_reverse c))(from_socket_addr (rn_addr node) := None))"
proof (cases "nt_get (kc_nodes c) i")
  case None
  then show ?thesis
    using assms by (auto simp: kc_drop_node_def kc_node_eq same_hashes_def fun_upd_idem)
next
  case (Some node)
  have nodes: "nt_ok (kc_nodes c)"
    and sound: "reverse_sound (nt_get (kc_nodes c)) (hm_get (kc_hashes c)) (hm_get (kc_reverse c))"
    using assms by (simp_all add: kc_ok_def)
  show ?thesis
    using nt_drop_spec [OF nodes, of i] reverse_sound_drop [OF sound Some] Some assms
    by (auto simp: kc_drop_node_def kc_node_eq same_hashes_def kc_ok_def hmap_simps)
qed

lemma kc_node_id_for_addr_live:
  assumes "kc_ok c" and "kc_node_id_for_addr c addr = Some i"
  shows "\<exists>node. nt_get (kc_nodes c) i = Some node
    \<and> from_socket_addr (rn_addr node) = from_socket_addr addr"
  using assms reverse_soundD(1) [of "nt_get (kc_nodes c)" "hm_get (kc_hashes c)" "hm_get (kc_reverse c)"]
  by (auto simp: kc_node_id_for_addr_def kc_ok_def split: option.splits if_splits)

lemma kc_drop_addr_eq:
  "kc_drop_addr c addr =
     (case kc_node_id_for_addr c addr of None \<Rightarrow> Some (False, c) | Some i \<Rightarrow> kc_drop_node c i)"
  by (simp add: kc_drop_addr_def kc_node_id_for_addr_def split: option.splits)


section \<open>Hashes\<close>

text \<open>
  The peers of a hash after an announcement: addresses accumulate, and the last port announced
  for an address wins.
\<close>

definition announced ::
  "ktable_hash_peer list \<Rightarrow> (reverse_address \<Rightarrow> ktable_hash_peer option)
   \<Rightarrow> reverse_address \<Rightarrow> ktable_hash_peer option" where
  "announced peers =
     fold (\<lambda>p m. m(from_socket_addr (hp_addr p) \<mapsto> \<lparr>hp_addr = normalize_addr (hp_addr p)\<rparr>)) peers"

definition announcing ::
  "(id20 \<Rightarrow> routing_node option) \<Rightarrow> (id20 \<Rightarrow> hash_entry option) \<Rightarrow> id20 \<Rightarrow> hash_entry
   \<Rightarrow> (reverse_address, ktable_hash_peer) hmap \<times> (reverse_address, reverse_info) hmap \<Rightarrow> bool" where
  "announcing N H i e = (\<lambda>(peers, reverse). hash_entry_ok i (e\<lparr>he_peers := peers\<rparr>) \<and> hm_ok reverse
     \<and> reverse_sound N (H(i \<mapsto> e\<lparr>he_peers := peers\<rparr>)) (hm_get reverse))"

lemma reverse_sound_announce:
  assumes "reverse_sound N (H(i \<mapsto> e\<lparr>he_peers := peers\<rparr>)) R"
    and that: "info = (case R key of None \<Rightarrow> reverse_info_default | Some info \<Rightarrow> info)"
  shows "reverse_sound N (H(i \<mapsto> e\<lparr>he_peers := hm_insert key p peers\<rparr>))
    (R(key \<mapsto> info\<lparr>ri_hashes := insert i (ri_hashes info)\<rparr>))"
  unfolding reverse_sound_def
proof (intro allI impI)
  fix k info'
  assume k: "(R(key \<mapsto> info\<lparr>ri_hashes := insert i (ri_hashes info)\<rparr>)) k = Some info'"
  have grow: "\<exists>e'. (H(i \<mapsto> e\<lparr>he_peers := hm_insert key p peers\<rparr>)) h = Some e' \<and> j \<in> hm_keys (he_peers e')"
    if "\<exists>e'. (H(i \<mapsto> e\<lparr>he_peers := peers\<rparr>)) h = Some e' \<and> j \<in> hm_keys (he_peers e')" for h j
    using that by (cases "h = i") auto
  show "(ri_peer_id info' \<noteq> id20_ZERO \<longrightarrow>
      (\<exists>node. N (ri_peer_id info') = Some node \<and> from_socket_addr (rn_addr node) = k))
    \<and> finite (ri_hashes info')
    \<and> (\<forall>h \<in> ri_hashes info'. \<exists>e'. (H(i \<mapsto> e\<lparr>he_peers := hm_insert key p peers\<rparr>)) h = Some e'
         \<and> k \<in> hm_keys (he_peers e'))"
  proof (cases "k = key")
    case False
    with k have "R k = Some info'" by simp
    with reverse_soundD [OF assms(1) this] grow show ?thesis by blast
  next
    case True
    with k have info': "info' = info\<lparr>ri_hashes := insert i (ri_hashes info)\<rparr>" by simp
    show ?thesis
    proof (cases "R key")
      case None
      with info' that True show ?thesis by (simp add: reverse_info_default_def)
    next
      case (Some old)
      with that have "info = old" by simp
      with reverse_soundD [OF assms(1) Some] grow info' True show ?thesis by simp
    qed
  qed
qed

lemma announcing_step:
  assumes "announcing N H i e pr"
  shows "announcing N H i e (put_hash_peer i p pr)"
proof -
  obtain peers reverse where pr: "pr = (peers, reverse)" by (cases pr)
  let ?p = "\<lparr>hp_addr = normalize_addr (hp_addr p)\<rparr>" and ?key = "from_socket_addr (hp_addr p)"
  have "hash_entry_ok i (e\<lparr>he_peers := hm_insert ?key ?p peers\<rparr>)"
    using assms by (auto simp: announcing_def pr hash_entry_ok_def hmap_simps)
  moreover have "reverse_sound N (H(i \<mapsto> e\<lparr>he_peers := hm_insert ?key ?p peers\<rparr>))
    (hm_get (reverse_entry ?key (\<lambda>info. info\<lparr>ri_hashes := insert i (ri_hashes info)\<rparr>) reverse))"
    using reverse_sound_announce [where key = ?key and p = ?p and R = "hm_get reverse", OF _ refl] assms
    by (simp add: announcing_def pr hm_get_reverse_entry)
  ultimately show ?thesis
    using assms by (simp add: announcing_def pr put_hash_peer_def Let_def)
qed

lemma announcing_fold:
  "announcing N H i e pr \<Longrightarrow> announcing N H i e (fold (put_hash_peer i) ps pr)"
  by (induction ps arbitrary: pr) (simp_all add: announcing_step)

lemma put_hash_peers_maps:
  "fold (put_hash_peer i) ps (peers, reverse) = (peers', reverse') \<Longrightarrow>
   hm_get peers' = announced ps (hm_get peers)
   \<and> hm_keys reverse' = (\<lambda>p. from_socket_addr (hp_addr p)) ` set ps \<union> hm_keys reverse"
proof (induction ps arbitrary: peers reverse)
  case (Cons p ps)
  then show ?case
    by (cases "put_hash_peer i p (peers, reverse)")
      (auto simp: announced_def put_hash_peer_def Let_def hmap_simps)
qed (auto simp: announced_def)

lemma kc_put_hash_spec [panic_free]:
  assumes ok: "kc_ok c"
  shows "\<exists>r c'. kc_put_hash c i ps = Some (r, c') \<and> kc_ok c' \<and> kc_origin c' = kc_origin c
    \<and> kc_nodes c' = kc_nodes c
    \<and> (r = AlreadyExists \<longleftrightarrow> hm_get (kc_hashes c) i \<noteq> None)
    \<and> (if r = Rejected then c' = c
       else (\<exists>e. hm_get (kc_hashes c') = (hm_get (kc_hashes c))(i \<mapsto> e)
              \<and> hm_get (he_peers e) = announced ps
                   (case hm_get (kc_hashes c) i of None \<Rightarrow> Map.empty | Some e \<Rightarrow> hm_get (he_peers e)))
            \<and> hm_keys (kc_reverse c') =
                (\<lambda>p. from_socket_addr (hp_addr p)) ` set ps \<union> hm_keys (kc_reverse c))"
proof -
  let ?fresh = "\<lparr>he_id = i, he_peers = []\<rparr>"
  have config: "rt_config_ok (kc_origin c) HASH_TABLE_CAPACITY True (kc_hash_routing c)"
    and sync: "synced (rt_ids (kc_hash_routing c)) (kc_hashes c)"
    and entries: "\<forall>i e. hm_get (kc_hashes c) i = Some e \<longrightarrow> hash_entry_ok i e"
    and sound: "reverse_sound (nt_get (kc_nodes c)) (hm_get (kc_hashes c)) (hm_get (kc_reverse c))"
    using ok by (simp_all add: kc_ok_def)
  define e where "e = (case hm_get (kc_hashes c) i of None \<Rightarrow> ?fresh | Some e \<Rightarrow> e)"
  obtain peers reverse where
    fold: "fold (put_hash_peer i) ps (he_peers e, kc_reverse c) = (peers, reverse)"
    by force
  obtain r rt where rt: "rt_put (kc_hash_routing c) i = Some (r, rt)"
    "rt_config_ok (kc_origin c) HASH_TABLE_CAPACITY True rt"
    "r = AlreadyExists \<longleftrightarrow> i \<in> hm_keys (kc_hashes c)" "r = Rejected \<longrightarrow> rt = kc_hash_routing c"
    "r \<noteq> Rejected \<longrightarrow> synced (rt_ids rt) (hm_insert i (e\<lparr>he_peers := peers\<rparr>) (kc_hashes c))"
    using rt.put_sync [OF config sync, of i "e\<lparr>he_peers := peers\<rparr>"] by blast
  have sound_e: "reverse_sound (nt_get (kc_nodes c)) ((hm_get (kc_hashes c))(i \<mapsto> e)) (hm_get (kc_reverse c))"
  proof (cases "hm_get (kc_hashes c) i")
    case None
    with sound show ?thesis
      unfolding reverse_sound_def by (metis fun_upd_other option.distinct(1))
  next
    case (Some e')
    then have "(hm_get (kc_hashes c))(i \<mapsto> e) = hm_get (kc_hashes c)"
      by (auto simp: e_def)
    with sound show ?thesis by simp
  qed
  have "announcing (nt_get (kc_nodes c)) (hm_get (kc_hashes c)) i e (he_peers e, kc_reverse c)"
    using ok entries sound_e by (auto simp: announcing_def kc_ok_def e_def hash_entry_ok_def split: option.splits)
  from announcing_fold [OF this, of ps] have
    inv: "hash_entry_ok i (e\<lparr>he_peers := peers\<rparr>)" "hm_ok reverse"
      "reverse_sound (nt_get (kc_nodes c)) ((hm_get (kc_hashes c))(i \<mapsto> e\<lparr>he_peers := peers\<rparr>)) (hm_get reverse)"
    by (simp_all add: announcing_def fold)
  show ?thesis
  proof (cases "r = Rejected")
    case True
    with rt ok show ?thesis
      by (auto simp: kc_put_hash_def hm_keys_iff)
  next
    case False
    let ?c' = "c\<lparr>kc_hash_routing := rt, kc_hashes := hm_insert i (e\<lparr>he_peers := peers\<rparr>) (kc_hashes c),
        kc_reverse := reverse\<rparr>"
    have "kc_put_hash c i ps = Some (r, ?c')"
      using False rt fold by (cases r) (auto simp: kc_put_hash_def e_def Let_def hm_keys_iff hmap_simps update_last)
    moreover have "kc_ok ?c'"
      using ok False rt inv by (auto simp: kc_ok_def hmap_simps)
    moreover have "announced ps (hm_get (he_peers e)) = announced ps
        (case hm_get (kc_hashes c) i of None \<Rightarrow> Map.empty | Some e \<Rightarrow> hm_get (he_peers e))"
      by (simp add: e_def split: option.splits)
    ultimately show ?thesis
      using False rt(3) put_hash_peers_maps [OF fold]
      by (intro exI [of _ r] exI [of _ ?c']) (simp add: hm_keys_iff hmap_simps,
          intro exI [of _ "e\<lparr>he_peers := peers\<rparr>"], simp)
  qed
qed


definition known_peers :: "ktable_core \<Rightarrow> id20 \<Rightarrow> reverse_address \<Rightarrow> ktable_hash_peer option" where
  "known_peers c i = (case hm_get (kc_hashes c) i of None \<Rightarrow> Map.empty | Some e \<Rightarrow> hm_get (he_peers e))"

lemma kc_put_hash_found:
  assumes "kc_ok c" and "kc_put_hash c i ps = Some (r, c')"
  shows "if r = Rejected then c' = c
    else (\<exists>h. kc_hash c' = (kc_hash c)(i \<mapsto> h) \<and> kh_id h = i
           \<and> set (kh_peers h) = ran (announced ps (known_peers c i))
           \<and> sorted (map (\<lambda>p. socket_to_string (hp_addr p)) (kh_peers h)))
         \<and> kc_filter_known_addrs c' (map hp_addr ps) = []"
proof (cases "r = Rejected")
  case True
  then show ?thesis
    using kc_put_hash_spec [OF assms(1), of i ps] assms(2) by simp
next
  case False
  obtain e where e: "hm_get (kc_hashes c') = (hm_get (kc_hashes c))(i \<mapsto> e)"
    "hm_get (he_peers e) = announced ps (known_peers c i)"
    and rev: "(\<lambda>p. from_socket_addr (hp_addr p)) ` set ps \<subseteq> hm_keys (kc_reverse c')" and ok: "kc_ok c'"
    using kc_put_hash_spec [OF assms(1), of i ps] assms(2) False by (auto simp: known_peers_def)
  have entry: "hash_entry_ok i e"
    using ok e(1) by (simp add: kc_ok_def)
  have "set (map snd (he_peers e)) = ran (announced ps (known_peers c i))"
    using hm_values [of "he_peers e"] entry unfolding hash_entry_ok_def e(2) ran_def by blast
  moreover have "kc_filter_known_addrs c' (map hp_addr ps) = []"
    using rev by (auto simp: kc_filter_known_addrs_def filter_empty_conv)
  ultimately show ?thesis
    using False entry e(1)
    by (auto simp: kc_hash_def fun_eq_iff hash_entry_ok_def simp del: set_map
        intro!: exI [of _ "the (kc_hash c' i)"])
qed

end
