(* ===== verification/KTable.thy ===== *)
theory KTable
  imports KTable_Core
begin

text \<open>
  \<open>bitmagnet-dht/src/ktable.rs\<close>: the shared table with live node handles and clock-based
  node options. A handle (\<open>Arc<RwLock<KTableNodeState>>\<close>) is an index into a store of node
  states that only grows. Every table operation holds the one lock for its whole body, so an
  operation is one atomic step on the state; the clock is a sequence of readings, and the state
  counts the readings taken.
\<close>

section \<open>Instants\<close>

text \<open>As on Linux, the seconds of a monotonic instant are a signed 64-bit number.\<close>

definition instant_max :: instant where
  "instant_max = (2 ^ 63 - 1) * nanos_per_sec + 999999999"

definition instant_checked_add :: "instant \<Rightarrow> nat \<Rightarrow> instant option" where
  "instant_checked_add v d = (if v + d \<le> instant_max then Some (v + d) else None)"

definition instant_checked_duration_since :: "instant \<Rightarrow> instant \<Rightarrow> nat option" where
  "instant_checked_duration_since now earlier = (if earlier \<le> now then Some (now - earlier) else None)"

abbreviation EMPTY_SAMPLE_PENALTY :: nat where
  "EMPTY_SAMPLE_PENALTY \<equiv> 5 * 60 * nanos_per_sec"

text \<open>The binary search of \<open>saturating_add_five_minutes\<close>; it returns \<open>low_nanos\<close>.\<close>

function sat_search :: "instant \<Rightarrow> nat \<Rightarrow> nat \<Rightarrow> nat" where
  "sat_search v low high =
     (if low < high then
        let midpoint = low + (high - low + 1) div 2
        in if instant_checked_add v midpoint \<noteq> None then sat_search v midpoint high
           else sat_search v low (midpoint - 1)
      else low)"
  by pat_completeness auto
termination
  by (relation "measure (\<lambda>(v, low, high). high - low)") auto

declare sat_search.simps [simp del]

definition saturating_add_five_minutes :: "instant \<Rightarrow> instant" where
  "saturating_add_five_minutes v =
     (case instant_checked_add v EMPTY_SAMPLE_PENALTY of
        Some result \<Rightarrow> result
      | None \<Rightarrow>
          (case instant_checked_add v (sat_search v 0 EMPTY_SAMPLE_PENALTY) of
             Some result \<Rightarrow> result
           | None \<Rightarrow> v))"

section \<open>Node states and options\<close>

datatype ktable_bep51_support = Bep51Unknown | Bep51Yes | Bep51No

datatype ktable_node_option =
  Responded
| Bep51Support bool
| SampleInfoHashesResponse i64 i64 instant \<comment> \<open>discovered, total, next sample\<close>

datatype ktable_command =
  PutNode routing_node "ktable_node_option list"
| DropNode id20
| DropAddr socket_addr
| PutHash id20 "ktable_hash_peer list"

record ktable_node_state =
  ns_node :: routing_node
  ns_last_responded_at :: "instant option"
  ns_dropped :: bool
  ns_bep51_support :: ktable_bep51_support
  ns_sampled_num :: i64
  ns_last_discovered_num :: i64
  ns_total_num :: i64
  ns_next_sample_infohashes_at :: "instant option"

type_synonym handle = nat

datatype ktable_lookup = Found ktable_hash | ClosestNodes "handle list"

record ktable_sample_hashes_and_nodes =
  ks_hashes :: "ktable_hash list"
  ks_nodes :: "handle list"
  ks_total_hashes :: nat

definition ns_new :: "routing_node \<Rightarrow> ktable_node_state" where
  "ns_new node =
     \<lparr>ns_node = node, ns_last_responded_at = None, ns_dropped = False,
      ns_bep51_support = Bep51Unknown, ns_sampled_num = 0, ns_last_discovered_num = 0,
      ns_total_num = 0, ns_next_sample_infohashes_at = None\<rparr>"

definition is_sample_infohashes_candidate_at :: "ktable_node_state \<Rightarrow> instant \<Rightarrow> bool" where
  "is_sample_infohashes_candidate_at s now \<longleftrightarrow>
     ns_bep51_support s \<noteq> Bep51No
     \<and> (case ns_next_sample_infohashes_at s of None \<Rightarrow> True | Some next_at \<Rightarrow> next_at < now)
     \<and> (case ns_last_responded_at s of
          None \<Rightarrow> True
        | Some responded \<Rightarrow>
            (case instant_checked_duration_since now responded of
               None \<Rightarrow> False
             | Some elapsed \<Rightarrow> elapsed > 5 * nanos_per_sec))"

text \<open>One round of the loop of \<open>apply_options\<close>, with the number of clock readings.\<close>

fun apply_option ::
  "(nat \<Rightarrow> instant) \<Rightarrow> ktable_node_option \<Rightarrow> ktable_node_state \<times> nat \<Rightarrow> ktable_node_state \<times> nat" where
  "apply_option clock Responded (s, k) = (s\<lparr>ns_last_responded_at := Some (clock k)\<rparr>, k + 1)"
| "apply_option clock (Bep51Support supported) (s, k) =
     (s\<lparr>ns_bep51_support := (if supported then Bep51Yes else Bep51No)\<rparr>, k)"
| "apply_option clock (SampleInfoHashesResponse discovered total_num next_at) (s, k) =
     (let s = s\<lparr>ns_sampled_num := ns_sampled_num s + discovered,
                ns_last_discovered_num := discovered,
                ns_total_num := ns_total_num s + total_num\<rparr>
      in if discovered = 0
         then (s\<lparr>ns_next_sample_infohashes_at :=
                  Some (saturating_add_five_minutes (max next_at (clock k)))\<rparr>, k + 1)
         else (s\<lparr>ns_next_sample_infohashes_at := Some next_at\<rparr>, k))"

definition apply_options ::
  "(nat \<Rightarrow> instant) \<Rightarrow> ktable_node_option list \<Rightarrow> ktable_node_state \<Rightarrow> nat \<Rightarrow> ktable_node_state \<times> nat" where
  "apply_options clock options s k = fold (apply_option clock) options (s, k)"

section \<open>The table\<close>

record ktable =
  kt_core :: ktable_core
  kt_node_handles :: "(id20, handle) hmap"
  kt_store :: "ktable_node_state list"
  kt_clock_reads :: nat

definition kt_new :: "id20 \<Rightarrow> ktable" where
  "kt_new origin = \<lparr>kt_core = kc_new origin, kt_node_handles = [], kt_store = [], kt_clock_reads = 0\<rparr>"

definition kt_put_node ::
  "(nat \<Rightarrow> instant) \<Rightarrow> ktable \<Rightarrow> routing_node \<Rightarrow> ktable_node_option list
   \<Rightarrow> (routing_put_result \<times> ktable) option" where
  "kt_put_node clock t node options =
     (case kc_put_node (kt_core t) node of
        None \<Rightarrow> None
      | Some (result, core) \<Rightarrow>
          let t = t\<lparr>kt_core := core\<rparr>
          in (case result of
                Rejected \<Rightarrow> Some (result, t)
              | Accepted \<Rightarrow>
                  (case kc_node core (rn_id node) of
                     None \<Rightarrow> None
                   | Some None \<Rightarrow> Some (result, t)
                   | Some (Some stored) \<Rightarrow>
                       let (s, k) = apply_options clock options (ns_new stored) (kt_clock_reads t)
                       in Some (result, t\<lparr>kt_store := kt_store t @ [s],
                                          kt_node_handles :=
                                            hm_insert (rn_id node) (length (kt_store t)) (kt_node_handles t),
                                          kt_clock_reads := k\<rparr>))
              | AlreadyExists \<Rightarrow>
                  (case kc_node core (rn_id node) of
                     None \<Rightarrow> None
                   | Some stored_opt \<Rightarrow>
                       (case (stored_opt, hm_get (kt_node_handles t) (rn_id node)) of
                          (Some stored, Some handle) \<Rightarrow>
                            let (s, k) = apply_options clock options
                                  ((kt_store t ! handle)\<lparr>ns_node := stored\<rparr>) (kt_clock_reads t)
                            in Some (result, t\<lparr>kt_store := (kt_store t)[handle := s],
                                               kt_clock_reads := k\<rparr>)
                        | _ \<Rightarrow> Some (result, t)))))"

definition kt_remove_live_handle :: "ktable \<Rightarrow> id20 \<Rightarrow> ktable" where
  "kt_remove_live_handle t i =
     (case hm_get (kt_node_handles t) i of
        None \<Rightarrow> t
      | Some handle \<Rightarrow>
          t\<lparr>kt_node_handles := hm_remove i (kt_node_handles t),
            kt_store := (kt_store t)[handle := (kt_store t ! handle)\<lparr>ns_dropped := True\<rparr>]\<rparr>)"

definition kt_drop_node :: "ktable \<Rightarrow> id20 \<Rightarrow> (bool \<times> ktable) option" where
  "kt_drop_node t i =
     (case kc_drop_node (kt_core t) i of
        None \<Rightarrow> None
      | Some (dropped, core) \<Rightarrow>
          let t = t\<lparr>kt_core := core\<rparr>
          in if \<not> dropped then Some (False, t) else Some (True, kt_remove_live_handle t i))"

definition kt_drop_addr :: "ktable \<Rightarrow> socket_addr \<Rightarrow> (bool \<times> ktable) option" where
  "kt_drop_addr t addr =
     (case kc_node_id_for_addr (kt_core t) addr of
        None \<Rightarrow> Some (False, t)
      | Some i \<Rightarrow>
          (case kc_drop_addr (kt_core t) addr of
             None \<Rightarrow> None
           | Some (dropped, core) \<Rightarrow>
               let t = t\<lparr>kt_core := core\<rparr>
               in if \<not> dropped then Some (False, t) else Some (True, kt_remove_live_handle t i)))"

definition kt_put_hash ::
  "ktable \<Rightarrow> id20 \<Rightarrow> ktable_hash_peer list \<Rightarrow> (routing_put_result \<times> ktable) option" where
  "kt_put_hash t i peers =
     map_option (\<lambda>(result, core). (result, t\<lparr>kt_core := core\<rparr>)) (kc_put_hash (kt_core t) i peers)"

fun kt_apply_command :: "(nat \<Rightarrow> instant) \<Rightarrow> ktable_command \<Rightarrow> ktable \<Rightarrow> ktable option" where
  "kt_apply_command clock (PutNode node options) t = map_option snd (kt_put_node clock t node options)"
| "kt_apply_command clock (DropNode i) t = map_option snd (kt_drop_node t i)"
| "kt_apply_command clock (DropAddr addr) t = map_option snd (kt_drop_addr t addr)"
| "kt_apply_command clock (PutHash i peers) t = map_option snd (kt_put_hash t i peers)"

fun kt_batch_command :: "(nat \<Rightarrow> instant) \<Rightarrow> ktable_command list \<Rightarrow> ktable \<Rightarrow> ktable option" where
  "kt_batch_command clock [] t = Some t"
| "kt_batch_command clock (command # commands) t =
     Option.bind (kt_apply_command clock command t) (kt_batch_command clock commands)"

section \<open>Queries\<close>

definition kt_node_handle :: "ktable \<Rightarrow> id20 \<Rightarrow> handle option" where
  "kt_node_handle t i = hm_get (kt_node_handles t) i"

definition kt_hash :: "ktable \<Rightarrow> id20 \<Rightarrow> ktable_hash option" where
  "kt_hash t i = kc_hash (kt_core t) i"

definition kt_filter_known_addrs :: "ktable \<Rightarrow> socket_addr list \<Rightarrow> socket_addr list" where
  "kt_filter_known_addrs t addrs = kc_filter_known_addrs (kt_core t) addrs"

definition live_handles_of :: "ktable \<Rightarrow> routing_node list \<Rightarrow> handle list" where
  "live_handles_of t nodes = List.map_filter (\<lambda>node. hm_get (kt_node_handles t) (rn_id node)) nodes"

definition kt_closest_nodes :: "ktable \<Rightarrow> id20 \<Rightarrow> handle list option" where
  "kt_closest_nodes t i = map_option (live_handles_of t) (kc_closest_nodes (kt_core t) i)"

definition kt_get_hash_or_closest_nodes :: "ktable \<Rightarrow> id20 \<Rightarrow> ktable_lookup option" where
  "kt_get_hash_or_closest_nodes t i =
     map_option
       (\<lambda>lookup. case lookup of
           HashFound hash \<Rightarrow> Found hash
         | ClosestRoutingNodes nodes \<Rightarrow> ClosestNodes (live_handles_of t nodes))
       (kc_get_hash_or_closest_nodes (kt_core t) i)"

abbreviation kt_values :: "ktable \<Rightarrow> handle list" where
  "kt_values t \<equiv> map snd (kt_node_handles t)"

abbreviation kt_state :: "ktable \<Rightarrow> handle \<Rightarrow> ktable_node_state" where
  "kt_state t h \<equiv> kt_store t ! h"

abbreviation kt_id :: "ktable \<Rightarrow> handle \<Rightarrow> id20" where
  "kt_id t h \<equiv> rn_id (ns_node (kt_state t h))"

definition kt_get_oldest_nodes :: "ktable \<Rightarrow> instant \<Rightarrow> nat option \<Rightarrow> handle list" where
  "kt_get_oldest_nodes t cutoff limit =
     (let nodes = sort_key (\<lambda>h. (ns_last_responded_at (kt_state t h), kt_id t h))
            (filter (\<lambda>h. case ns_last_responded_at (kt_state t h) of
                           None \<Rightarrow> True | Some responded \<Rightarrow> responded < cutoff) (kt_values t))
      in case limit of None \<Rightarrow> nodes | Some n \<Rightarrow> take n nodes)"

text \<open>
  The loop of \<open>get_nodes_for_sample_infohashes\<close>: it reads the clock once for each visited
  handle and leaves as soon as the limit is reached.
\<close>

fun sample_candidates ::
  "(nat \<Rightarrow> instant) \<Rightarrow> (handle \<Rightarrow> ktable_node_state) \<Rightarrow> nat \<Rightarrow> handle list \<Rightarrow> handle list \<Rightarrow> nat
   \<Rightarrow> handle list \<times> nat" where
  "sample_candidates clock state limit candidates [] k = (candidates, k)"
| "sample_candidates clock state limit candidates (h # hs) k =
     (if is_sample_infohashes_candidate_at (state h) (clock k)
      then let candidates = candidates @ [h]
           in if length candidates = limit then (candidates, k + 1)
              else sample_candidates clock state limit candidates hs (k + 1)
      else sample_candidates clock state limit candidates hs (k + 1))"

definition kt_get_nodes_for_sample_infohashes ::
  "(nat \<Rightarrow> instant) \<Rightarrow> ktable \<Rightarrow> nat \<Rightarrow> handle list \<times> ktable" where
  "kt_get_nodes_for_sample_infohashes clock t limit =
     (let ordered = sort_key (kt_id t) (kt_values t);
          (candidates, k) = sample_candidates clock (kt_state t) limit [] ordered (kt_clock_reads t)
      in (candidates, t\<lparr>kt_clock_reads := k\<rparr>))"

abbreviation SAMPLE_HASH_LIMIT :: nat where
  "SAMPLE_HASH_LIMIT \<equiv> 20"

abbreviation SAMPLE_TOTAL_TARGET :: nat where
  "SAMPLE_TOTAL_TARGET \<equiv> 40"

definition kt_sample_hashes_and_nodes :: "ktable \<Rightarrow> ktable_sample_hashes_and_nodes" where
  "kt_sample_hashes_and_nodes t =
     (let hashes = take SAMPLE_HASH_LIMIT (kc_hashes_by_id (kt_core t));
          node_limit = SAMPLE_TOTAL_TARGET - length hashes;
          nodes = take node_limit (sort_key (kt_id t) (kt_values t))
      in \<lparr>ks_hashes = hashes, ks_nodes = nodes, ks_total_hashes = kc_hash_count (kt_core t)\<rparr>)"


section \<open>Saturating addition\<close>

lemma sat_search_max:
  assumes "v + low \<le> instant_max" and "low \<le> high"
  shows "sat_search v low high = min high (instant_max - v)"
  using assms
proof (induction v low high rule: sat_search.induct)
  case (1 v low high)
  show ?case
  proof (cases "low < high")
    case False
    with 1 show ?thesis by (subst sat_search.simps) auto
  next
    case True
    define m where "m = low + (high - low + 1) div 2"
    have m: "low < m" "m \<le> high" using True by (auto simp: m_def)
    show ?thesis
    proof (cases "v + m \<le> instant_max")
      case fits: True
      then have "sat_search v m high = min high (instant_max - v)"
        using m "1.prems" by (intro "1.IH"(1) [OF True m_def]) (auto simp: instant_checked_add_def)
      with True fits show ?thesis
        by (simp add: sat_search.simps [of v low high] m_def instant_checked_add_def Let_def)
    next
      case over: False
      then have "sat_search v low (m - 1) = min (m - 1) (instant_max - v)"
        using m "1.prems" by (intro "1.IH"(2) [OF True m_def]) (auto simp: instant_checked_add_def)
      moreover have "min (m - 1) (instant_max - v) = min high (instant_max - v)"
        using over m by linarith
      moreover have "sat_search v low high = sat_search v low (m - 1)"
        using True over by (simp add: sat_search.simps [of v low high] m_def instant_checked_add_def Let_def)
      ultimately show ?thesis
        by simp
    qed
  qed
qed

lemma saturating_add_five_minutes_eq:
  "v \<le> instant_max \<Longrightarrow> saturating_add_five_minutes v = min (v + EMPTY_SAMPLE_PENALTY) instant_max"
  using sat_search_max [of v 0 EMPTY_SAMPLE_PENALTY]
  by (cases "v + EMPTY_SAMPLE_PENALTY \<le> instant_max")
    (simp_all add: saturating_add_five_minutes_def instant_checked_add_def)

section \<open>Invariant\<close>

text \<open>
  The live handles are exactly the cells of the store that are not dropped, one for each node of
  the table, and each holds the node as the table has it.
\<close>

definition kt_ok :: "ktable \<Rightarrow> bool" where
  "kt_ok t \<longleftrightarrow> kc_ok (kt_core t) \<and> hm_ok (kt_node_handles t)
     \<and> dom (hm_get (kt_node_handles t)) = dom (nt_get (kc_nodes (kt_core t)))
     \<and> (\<forall>i h. hm_get (kt_node_handles t) i = Some h \<longrightarrow>
          h < length (kt_store t) \<and> \<not> ns_dropped (kt_state t h)
          \<and> nt_get (kc_nodes (kt_core t)) i = Some (ns_node (kt_state t h)))
     \<and> (\<forall>h < length (kt_store t). \<not> ns_dropped (kt_state t h) \<longrightarrow>
          hm_get (kt_node_handles t) (kt_id t h) = Some h)"

text \<open>A dropped generation is never touched again, and no cell is ever reused.\<close>

definition store_frozen :: "ktable \<Rightarrow> ktable \<Rightarrow> bool" where
  "store_frozen t t' \<longleftrightarrow> length (kt_store t) \<le> length (kt_store t')
     \<and> (\<forall>h < length (kt_store t). ns_dropped (kt_state t h) \<longrightarrow> kt_state t' h = kt_state t h)"

lemma store_frozen_refl [simp]: "store_frozen t t"
  by (simp add: store_frozen_def)

lemma store_frozen_trans: "store_frozen t u \<Longrightarrow> store_frozen u v \<Longrightarrow> store_frozen t v"
  unfolding store_frozen_def by (metis le_trans less_le_trans)

lemma kt_new_ok [simp]: "kt_ok (kt_new origin)"
  by (simp add: kt_ok_def kt_new_def) (simp add: kc_new_def nt_new_def)

lemma kt_okD:
  assumes "kt_ok t"
  shows "kc_ok (kt_core t)" and "hm_ok (kt_node_handles t)"
    and "hm_get (kt_node_handles t) i = Some h \<Longrightarrow>
      h < length (kt_store t) \<and> \<not> ns_dropped (kt_state t h) \<and> kt_id t h = i
      \<and> nt_get (kc_nodes (kt_core t)) i = Some (ns_node (kt_state t h))"
    and "hm_get (kt_node_handles t) i = None \<longleftrightarrow> nt_get (kc_nodes (kt_core t)) i = None"
    and "h < length (kt_store t) \<Longrightarrow> \<not> ns_dropped (kt_state t h) \<Longrightarrow>
      hm_get (kt_node_handles t) (kt_id t h) = Some h"
  using assms nt_okD(3) [of "kc_nodes (kt_core t)" i]
  by (auto simp: kt_ok_def kc_ok_def)

lemma apply_option_node [simp]:
  "ns_node (fst (apply_option clock opt sk)) = ns_node (fst sk)"
  "ns_dropped (fst (apply_option clock opt sk)) = ns_dropped (fst sk)"
  by (cases "(clock, opt, sk)" rule: apply_option.cases; simp add: Let_def)+

lemma apply_options_node:
  assumes "apply_options clock opts s k = (s', k')"
  shows "ns_node s' = ns_node s" and "ns_dropped s' = ns_dropped s"
proof -
  have "ns_node (fst (fold (apply_option clock) opts sk)) = ns_node (fst sk)
    \<and> ns_dropped (fst (fold (apply_option clock) opts sk)) = ns_dropped (fst sk)" for sk
    by (induction opts arbitrary: sk) simp_all
  from this [of "(s, k)"] show "ns_node s' = ns_node s" "ns_dropped s' = ns_dropped s"
    using assms by (simp_all add: apply_options_def)
qed


section \<open>Operations\<close>

lemma kt_update_cell_ok:
  assumes "kt_ok t" and "hm_get (kt_node_handles t) i = Some h" and "kc_ok c"
    and "nt_get (kc_nodes c) = (nt_get (kc_nodes (kt_core t)))(i \<mapsto> ns_node s)"
    and "\<not> ns_dropped s" and "rn_id (ns_node s) = i"
  shows "kt_ok (t\<lparr>kt_core := c, kt_store := (kt_store t)[h := s], kt_clock_reads := k\<rparr>)"
proof -
  note live = kt_okD [OF assms(1)]
  have h: "hm_get (kt_node_handles t) j = Some h \<longleftrightarrow> j = i" for j
    using live(3) [of j h] live(3) [OF assms(2)] assms(2) by auto
  have "dom (hm_get (kt_node_handles t)) = dom (nt_get (kc_nodes c))"
    using assms(1,2,4) by (auto simp: kt_ok_def)
  moreover have "j < length (kt_store t) \<and> \<not> ns_dropped ((kt_store t)[h := s] ! j)
      \<and> nt_get (kc_nodes c) i' = Some (ns_node ((kt_store t)[h := s] ! j))"
    if "hm_get (kt_node_handles t) i' = Some j" for i' j
  proof (cases "j = h")
    case True
    with that h have "i' = i" by simp
    with True assms(4,5) live(3) [OF assms(2)] show ?thesis by simp
  next
    case False
    with that assms(2) have "i' \<noteq> i" by auto
    with False assms(4) live(3) [OF that] show ?thesis by simp
  qed
  moreover have "hm_get (kt_node_handles t) (rn_id (ns_node ((kt_store t)[h := s] ! j))) = Some j"
    if "j < length (kt_store t)" and "\<not> ns_dropped ((kt_store t)[h := s] ! j)" for j
    using that live(5) [of j] assms(2,6) by (cases "j = h") auto
  ultimately show ?thesis
    using assms(3) live(2) by (simp add: kt_ok_def)
qed

lemma kt_put_node_spec [panic_free]:
  assumes "kt_ok t"
  shows "\<exists>r t'. kt_put_node clock t node opts = Some (r, t') \<and> kt_ok t' \<and> store_frozen t t'
    \<and> kc_put_node (kt_core t) node = Some (r, kt_core t')
    \<and> (r \<noteq> Rejected \<longrightarrow> (\<exists>h. kt_node_handle t' (rn_id node) = Some h
         \<and> ns_node (kt_state t' h) = normalized node
         \<and> (r = AlreadyExists \<longleftrightarrow> kt_node_handle t (rn_id node) = Some h)))"
proof -
  note live = kt_okD [OF assms]
  obtain r c where put: "kc_put_node (kt_core t) node = Some (r, c)" "kc_ok c"
    "r = AlreadyExists \<longleftrightarrow> nt_get (kc_nodes (kt_core t)) (rn_id node) \<noteq> None"
    "nt_get (kc_nodes c) = (if r = Rejected then nt_get (kc_nodes (kt_core t))
       else (nt_get (kc_nodes (kt_core t)))(rn_id node \<mapsto> normalized node))"
    using kc_put_node_spec [OF live(1), of node] by blast
  show ?thesis
  proof (cases r)
    case Rejected
    with put assms show ?thesis
      by (simp add: kt_put_node_def kt_ok_def store_frozen_def)
  next
    case Accepted
    obtain s k where s: "apply_options clock opts (ns_new (normalized node)) (kt_clock_reads t) = (s, k)"
      by force
    then have "ns_node s = normalized node" "\<not> ns_dropped s"
      using apply_options_node [OF s] by (simp_all add: ns_new_def)
    moreover have "hm_get (kt_node_handles t) (rn_id node) = None"
      using Accepted put live(4) by simp
    ultimately show ?thesis
      using Accepted put s assms
      by (auto simp: kt_put_node_def kc_node_eq kt_ok_def store_frozen_def kt_node_handle_def hmap_simps
          nth_append less_Suc_eq)
  next
    case AlreadyExists
    with put live(4) [of "rn_id node"] obtain h where h: "hm_get (kt_node_handles t) (rn_id node) = Some h"
      by (cases "hm_get (kt_node_handles t) (rn_id node)") auto
    obtain s k where s: "apply_options clock opts ((kt_state t h)\<lparr>ns_node := normalized node\<rparr>)
        (kt_clock_reads t) = (s, k)"
      by force
    then have "ns_node s = normalized node" "\<not> ns_dropped s"
      using apply_options_node [OF s] live(3) [OF h] by simp_all
    note s' = this
    have "kt_ok (t\<lparr>kt_core := c, kt_store := (kt_store t)[h := s], kt_clock_reads := k\<rparr>)"
      using kt_update_cell_ok [OF assms h put(2), of s k] put(4) s' AlreadyExists by simp
    then show ?thesis
      using AlreadyExists put s h s' live(3) [OF h]
      by (auto simp: kt_put_node_def kc_node_eq store_frozen_def kt_node_handle_def nth_list_update)
  qed
qed


lemma kt_remove_live_handle_ok:
  assumes "kt_ok t" and "kc_ok c"
    and "nt_get (kc_nodes c) = (nt_get (kc_nodes (kt_core t)))(i := None)"
  shows "kt_ok (kt_remove_live_handle (t\<lparr>kt_core := c\<rparr>) i)
    \<and> store_frozen t (kt_remove_live_handle (t\<lparr>kt_core := c\<rparr>) i)"
proof -
  note live = kt_okD [OF assms(1)]
  show ?thesis
  proof (cases "hm_get (kt_node_handles t) i")
    case None
    then have "nt_get (kc_nodes c) = nt_get (kc_nodes (kt_core t))"
      using live(4) [of i] assms(3) by (simp add: fun_upd_idem)
    with None assms show ?thesis
      by (simp add: kt_remove_live_handle_def kt_ok_def store_frozen_def)
  next
    case (Some h)
    let ?s = "(kt_state t h)\<lparr>ns_dropped := True\<rparr>"
    let ?t' = "t\<lparr>kt_core := c, kt_node_handles := hm_remove i (kt_node_handles t),
        kt_store := (kt_store t)[h := ?s]\<rparr>"
    have t': "kt_remove_live_handle (t\<lparr>kt_core := c\<rparr>) i = ?t'"
      using Some by (simp add: kt_remove_live_handle_def)
    have "dom (hm_get (hm_remove i (kt_node_handles t))) = dom (nt_get (kc_nodes c))"
      using assms(1,3) by (simp add: kt_ok_def hmap_simps)
    moreover have "j < length (kt_store t) \<and> \<not> ns_dropped ((kt_store t)[h := ?s] ! j)
        \<and> nt_get (kc_nodes c) k = Some (ns_node ((kt_store t)[h := ?s] ! j))"
      if "hm_get (hm_remove i (kt_node_handles t)) k = Some j" for k j
    proof -
      have k: "k \<noteq> i" and kj: "hm_get (kt_node_handles t) k = Some j"
        using that by (auto simp: hmap_simps split: if_splits)
      then have "j \<noteq> h"
        using live(3) [OF kj] live(3) [OF Some] by auto
      with k assms(3) live(3) [OF kj] show ?thesis by simp
    qed
    moreover have "hm_get (hm_remove i (kt_node_handles t)) (rn_id (ns_node ((kt_store t)[h := ?s] ! j))) = Some j"
      if "j < length (kt_store t)" and "\<not> ns_dropped ((kt_store t)[h := ?s] ! j)" for j
    proof -
      have j: "j \<noteq> h" "\<not> ns_dropped (kt_state t j)"
        using that by (cases "j = h"; simp)+
      with that live(5) [of j] have kj: "hm_get (kt_node_handles t) (kt_id t j) = Some j" by simp
      with j Some have "kt_id t j \<noteq> i" by auto
      with j kj show ?thesis by (simp add: hmap_simps)
    qed
    moreover have "store_frozen t ?t'"
      using live(3) [OF Some] by (auto simp: store_frozen_def nth_list_update)
    ultimately show ?thesis
      unfolding t' using assms(2) live(2) by (simp add: kt_ok_def)
  qed
qed

lemma kt_drop_node_spec [panic_free]:
  assumes "kt_ok t"
  shows "\<exists>t'. kt_drop_node t i = Some (kt_node_handle t i \<noteq> None, t') \<and> kt_ok t' \<and> store_frozen t t'
    \<and> kt_node_handle t' = (kt_node_handle t)(i := None)
    \<and> (\<forall>h. kt_node_handle t i = Some h \<longrightarrow> ns_dropped (kt_state t' h))"
proof -
  note live = kt_okD [OF assms]
  obtain c where c: "kc_drop_node (kt_core t) i = Some (nt_get (kc_nodes (kt_core t)) i \<noteq> None, c)"
    "kc_ok c" "nt_get (kc_nodes c) = (nt_get (kc_nodes (kt_core t)))(i := None)"
    using kc_drop_node_spec [OF live(1), of i] by blast
  show ?thesis
  proof (cases "hm_get (kt_node_handles t) i")
    case None
    then have none: "nt_get (kc_nodes (kt_core t)) i = None"
      using live(4) [of i] by simp
    then have "nt_get (kc_nodes c) = nt_get (kc_nodes (kt_core t))"
      using c(3) by (simp add: fun_upd_idem)
    with None c none assms show ?thesis
      by (auto simp: kt_drop_node_def kt_ok_def store_frozen_def kt_node_handle_def)
  next
    case (Some h)
    then show ?thesis
      using c kt_remove_live_handle_ok [OF assms c(2,3)] live(3) [OF Some]
      by (auto simp: kt_drop_node_def kt_node_handle_def kt_remove_live_handle_def hmap_simps)
  qed
qed

lemma kt_drop_addr_eq:
  "kt_drop_addr t addr =
     (case kc_node_id_for_addr (kt_core t) addr of None \<Rightarrow> Some (False, t) | Some i \<Rightarrow> kt_drop_node t i)"
  by (simp add: kt_drop_addr_def kt_drop_node_def kc_drop_addr_eq split: option.splits)

lemma kt_put_hash_spec [panic_free]:
  assumes "kt_ok t"
  shows "\<exists>r t'. kt_put_hash t i peers = Some (r, t') \<and> kt_ok t' \<and> store_frozen t t'
    \<and> kc_put_hash (kt_core t) i peers = Some (r, kt_core t')"
  using kc_put_hash_spec [OF kt_okD(1) [OF assms], of i peers] assms
  by (auto simp: kt_put_hash_def kt_ok_def store_frozen_def)

lemma kt_apply_command_ok [panic_free]:
  assumes "kt_ok t"
  shows "\<exists>t'. kt_apply_command clock command t = Some t' \<and> kt_ok t' \<and> store_frozen t t'"
proof (cases command)
  case (PutNode node opts)
  then show ?thesis using kt_put_node_spec [OF assms, of clock node opts] by auto
next
  case (DropNode i)
  then show ?thesis using kt_drop_node_spec [OF assms, of i] by auto
next
  case (DropAddr addr)
  then show ?thesis
    using kt_drop_node_spec [OF assms] assms
    by (auto simp: kt_drop_addr_eq split: option.splits) (metis)
next
  case (PutHash i peers)
  then show ?thesis using kt_put_hash_spec [OF assms, of i peers] by auto
qed

lemma kt_batch_command_ok [panic_free]:
  "kt_ok t \<Longrightarrow> \<exists>t'. kt_batch_command clock commands t = Some t' \<and> kt_ok t' \<and> store_frozen t t'"
proof (induction commands arbitrary: t)
  case (Cons command commands)
  obtain u where u: "kt_apply_command clock command t = Some u" "kt_ok u" "store_frozen t u"
    using kt_apply_command_ok [OF Cons.prems] by blast
  with Cons.IH [OF u(2)] show ?case
    by (auto intro: store_frozen_trans)
qed simp


section \<open>Live handles\<close>

definition live_handles :: "ktable \<Rightarrow> handle set" where
  "live_handles t = {h. h < length (kt_store t) \<and> \<not> ns_dropped (kt_state t h)}"

lemma finite_live_handles [simp]: "finite (live_handles t)"
  by (simp add: live_handles_def)

lemma kt_node_handle_iff:
  "kt_ok t \<Longrightarrow> kt_node_handle t i = Some h \<longleftrightarrow> h \<in> live_handles t \<and> kt_id t h = i"
  using kt_okD(3) [of t i h] kt_okD(5) [of t h] by (auto simp: kt_node_handle_def live_handles_def)

lemma kt_values_live:
  assumes "kt_ok t"
  shows "set (kt_values t) = live_handles t" and "map (kt_id t) (kt_values t) = map fst (kt_node_handles t)"
    and "distinct (kt_values t)" and "inj_on (kt_id t) (live_handles t)"
proof -
  have entry: "kt_id t h = i" if "(i, h) \<in> set (kt_node_handles t)" for i h
    using that kt_okD(2) [OF assms] kt_okD(3) [OF assms, of i h] by (simp add: hm_ok_def map_of_eq_Some_iff)
  then show ids: "map (kt_id t) (kt_values t) = map fst (kt_node_handles t)"
    by auto
  then show "distinct (kt_values t)"
    using kt_okD(2) [OF assms] by (metis distinct_map hm_ok_def)
  show "set (kt_values t) = live_handles t"
    unfolding hm_values [OF kt_okD(2) [OF assms]]
    using kt_node_handle_iff [OF assms] by (auto simp: kt_node_handle_def)
  show "inj_on (kt_id t) (live_handles t)"
    using kt_okD(5) [OF assms] by (auto simp: live_handles_def inj_on_def)
      (metis option.inject)
qed

lemma kt_count: "kt_ok t \<Longrightarrow> card (live_handles t) = kc_node_count (kt_core t)"
proof -
  assume ok: "kt_ok t"
  have "hm_keys (kt_node_handles t) = hm_keys (nt_nodes (kc_nodes (kt_core t)))"
    using kt_okD(4) [OF ok] by (auto simp: hm_keys_iff)
  moreover have "hm_ok (nt_nodes (kc_nodes (kt_core t)))"
    using kt_okD(1) [OF ok] by (simp add: kc_ok_def nt_ok_def synced_def)
  ultimately have "length (kt_node_handles t) = length (nt_nodes (kc_nodes (kt_core t)))"
    using kt_okD(2) [OF ok] by (simp add: hm_length)
  moreover have "card (live_handles t) = length (kt_values t)"
    using distinct_card [OF kt_values_live(3) [OF ok]] kt_values_live(1) [OF ok] by simp
  ultimately show ?thesis
    by (simp add: kc_node_count_def nt_count_def)
qed

lemma live_handles_of_closest:
  assumes "kt_ok t"
  shows "\<exists>ns. kc_closest_nodes (kt_core t) i = Some ns \<and> map (\<lambda>h. ns_node (kt_state t h)) (live_handles_of t ns) = ns
    \<and> set (live_handles_of t ns) \<subseteq> live_handles t"
proof -
  have "nt_ok (kc_nodes (kt_core t))"
    using kt_okD(1) [OF assms] by (simp add: kc_ok_def)
  then obtain ns where ns: "kc_closest_nodes (kt_core t) i = Some ns"
    "\<forall>node \<in> set ns. nt_get (kc_nodes (kt_core t)) (rn_id node) = Some node"
    using nt_closest_spec unfolding kc_closest_nodes_def by blast
  have "map (\<lambda>h. ns_node (kt_state t h)) (live_handles_of t ms) = ms \<and> set (live_handles_of t ms) \<subseteq> live_handles t"
    if "set ms \<subseteq> set ns" for ms
    using that
  proof (induction ms)
    case (Cons node ms)
    then have node: "nt_get (kc_nodes (kt_core t)) (rn_id node) = Some node"
      using ns(2) by simp
    then obtain h where h: "hm_get (kt_node_handles t) (rn_id node) = Some h"
      using kt_okD(4) [OF assms, of "rn_id node"] by fastforce
    then have "ns_node (kt_state t h) = node \<and> h \<in> live_handles t"
      using node kt_okD(3) [OF assms h] by (simp add: live_handles_def)
    with Cons h show ?case
      by (simp add: live_handles_of_def List.map_filter_simps)
  qed (simp add: live_handles_of_def List.map_filter_simps)
  with ns(1) show ?thesis by blast
qed

section \<open>Selections\<close>

lemma sample_candidates_eq:
  "length acc < limit \<Longrightarrow>
   sample_candidates clock state limit acc hs k =
     (acc @ take (limit - length acc)
        (map snd (filter (\<lambda>(j, h). is_sample_infohashes_candidate_at (state h) (clock j)) (enumerate k hs))),
      snd (sample_candidates clock state limit acc hs k))"
proof (induction hs arbitrary: acc k)
  case (Cons h hs)
  show ?case
    using Cons.prems Cons.IH [of acc "k + 1"] Cons.IH [of "acc @ [h]" "k + 1"]
    by (auto simp: Let_def take_Cons' diff_Suc split: nat.splits)
qed simp

lemma sorted_ids:
  assumes "kt_ok t"
  shows "sorted_wrt (\<lambda>g h. kt_id t g < kt_id t h) (sort_key (kt_id t) (kt_values t))"
proof -
  have "sorted (map (kt_id t) (sort_key (kt_id t) (kt_values t)))" by simp
  moreover have "distinct (map (kt_id t) (sort_key (kt_id t) (kt_values t)))"
    using kt_values_live [OF assms] by (simp add: distinct_map)
  ultimately have "sorted_wrt (<) (map (kt_id t) (sort_key (kt_id t) (kt_values t)))"
    by (simp add: strict_sorted_iff)
  then show ?thesis by (simp add: sorted_wrt_map)
qed

definition oldness :: "ktable \<Rightarrow> handle \<Rightarrow> instant option \<times> id20" where
  "oldness t h = (ns_last_responded_at (kt_state t h), kt_id t h)"

definition stale_handles :: "ktable \<Rightarrow> instant \<Rightarrow> handle set" where
  "stale_handles t cutoff = {h \<in> live_handles t.
     ns_last_responded_at (kt_state t h) < Some cutoff}"

lemma oldest_nodes_sorted:
  fixes cutoff
  assumes "kt_ok t"
  defines "nodes \<equiv> kt_get_oldest_nodes t cutoff None"
  shows "set nodes = stale_handles t cutoff" and "sorted_wrt (\<lambda>g h. oldness t g < oldness t h) nodes"
    and "distinct nodes"
proof -
  have stale: "(case ns_last_responded_at (kt_state t h) of None \<Rightarrow> True | Some r \<Rightarrow> r < cutoff)
    \<longleftrightarrow> ns_last_responded_at (kt_state t h) < Some cutoff" for h
    by (cases "ns_last_responded_at (kt_state t h)") simp_all
  show set: "set nodes = stale_handles t cutoff"
    using kt_values_live(1) [OF assms(1)]
    by (auto simp: nodes_def kt_get_oldest_nodes_def stale_handles_def stale simp del: set_map)
  show dist: "distinct nodes"
    using kt_values_live(3) [OF assms(1)] by (simp add: nodes_def kt_get_oldest_nodes_def)
  have "inj_on (oldness t) (set nodes)"
    using kt_values_live(4) [OF assms(1)]
    by (auto simp: set stale_handles_def oldness_def inj_on_def)
  then have "distinct (map (oldness t) nodes)"
    using dist by (simp add: distinct_map)
  moreover have "sorted (map (oldness t) nodes)"
    by (simp add: nodes_def kt_get_oldest_nodes_def flip: oldness_def)
  ultimately have "sorted_wrt (<) (map (oldness t) nodes)"
    by (simp add: strict_sorted_iff)
  then show "sorted_wrt (\<lambda>g h. oldness t g < oldness t h) nodes"
    by (simp add: sorted_wrt_map)
qed


lemma kt_history:
  "\<exists>t. kt_batch_command clock commands (kt_new origin) = Some t \<and> kt_ok t"
  using kt_batch_command_ok [OF kt_new_ok] by blast

lemma oldest_nodes_limit:
  "kt_get_oldest_nodes t cutoff (Some n) = take n (kt_get_oldest_nodes t cutoff None)"
  by (simp add: kt_get_oldest_nodes_def)

lemma kc_hashes_by_id_ids:
  assumes "kc_ok c"
  shows "map kh_id (kc_hashes_by_id c) = sorted_list_of_set (hm_keys (kc_hashes c))"
proof -
  have ok: "hm_ok (kc_hashes c)" and entries: "\<And>i e. hm_get (kc_hashes c) i = Some e \<Longrightarrow> he_id e = i"
    using assms by (auto simp: kc_ok_def synced_def hash_entry_ok_def)
  have "map kh_id (List.map_filter (kc_hash c) is) = is" if "set is \<subseteq> hm_keys (kc_hashes c)" for "is"
    using that
    by (induction "is") (auto simp: List.map_filter_simps kc_hash_def hm_keys_iff entries)
  moreover have "sort (map fst (kc_hashes c)) = sorted_list_of_set (hm_keys (kc_hashes c))"
    using ok by (simp add: hm_ok_def hm_keys_def sorted_list_of_set_sort_remdups distinct_remdups_id flip: set_map)
  ultimately show ?thesis
    by (simp add: kc_hashes_by_id_def hm_keys_def)
qed

section \<open>Properties\<close>

text \<open>
  (C4) Every history of table commands runs without a panic, and after it the handle map and the
  node keyspace agree: a handle is registered for an identifier exactly when its store cell is
  not dropped and holds that identifier, the node a lookup finds is the one its handle shows, and
  the number of live handles is the node count.
\<close>

theorem table_history_safe:
  "\<exists>t. kt_batch_command clock commands (kt_new origin) = Some t
    \<and> (\<forall>i h. kt_node_handle t i = Some h \<longleftrightarrow> h \<in> live_handles t \<and> kt_id t h = i)
    \<and> (\<forall>i. kc_node (kt_core t) i = Some (map_option (\<lambda>h. ns_node (kt_state t h)) (kt_node_handle t i)))
    \<and> card (live_handles t) = kc_node_count (kt_core t)"
proof -
  obtain t where t: "kt_batch_command clock commands (kt_new origin) = Some t" "kt_ok t"
    using kt_history by blast
  have "kc_node (kt_core t) i = Some (map_option (\<lambda>h. ns_node (kt_state t h)) (kt_node_handle t i))" for i
    using kt_okD(3,4) [OF t(2), of i]
    by (cases "kt_node_handle t i") (simp_all add: kc_node_eq [OF kt_okD(1) [OF t(2)]] kt_node_handle_def)
  with t kt_node_handle_iff [OF t(2)] kt_count [OF t(2)] show ?thesis by blast
qed

text \<open>
  (C36) Handles are generations: whatever commands follow, a dropped handle keeps its state for
  ever and its cell is never reused.
\<close>

theorem dropped_generations_frozen:
  "\<exists>t t'. kt_batch_command clock commands (kt_new origin) = Some t
    \<and> kt_batch_command clock later t = Some t' \<and> store_frozen t t'"
  using kt_history [of clock commands origin] kt_batch_command_ok by blast

text \<open>
  (C33) Dropping by address is exact. If the reverse index names no node for the IP and scope,
  nothing changes and the result is false. Otherwise the named node is in the table at that very
  IP and scope; the call returns true, unregisters and marks exactly that node's handle, and the
  address is unknown afterwards.
\<close>

theorem drop_addr_exact:
  "\<exists>t. kt_batch_command clock commands (kt_new origin) = Some t
    \<and> (case kc_node_id_for_addr (kt_core t) addr of
         None \<Rightarrow> kt_drop_addr t addr = Some (False, t)
       | Some i \<Rightarrow>
           (\<exists>h t'. kt_node_handle t i = Some h
              \<and> from_socket_addr (rn_addr (ns_node (kt_state t h))) = from_socket_addr addr
              \<and> kt_drop_addr t addr = Some (True, t') \<and> ns_dropped (kt_state t' h)
              \<and> kt_node_handle t' = (kt_node_handle t)(i := None)
              \<and> kt_filter_known_addrs t' [addr] = [addr]))"
proof -
  obtain t where t: "kt_batch_command clock commands (kt_new origin) = Some t" "kt_ok t"
    using kt_history by blast
  show ?thesis
  proof (cases "kc_node_id_for_addr (kt_core t) addr")
    case None
    with t show ?thesis by (auto simp: kt_drop_addr_eq)
  next
    case (Some i)
    note core = kt_okD(1) [OF t(2)]
    obtain node where node: "nt_get (kc_nodes (kt_core t)) i = Some node"
      "from_socket_addr (rn_addr node) = from_socket_addr addr"
      using kc_node_id_for_addr_live [OF core Some] by blast
    then obtain h where h: "kt_node_handle t i = Some h"
      using kt_okD(4) [OF t(2), of i] by (auto simp: kt_node_handle_def)
    then have h': "ns_node (kt_state t h) = node"
      using kt_okD(3) [OF t(2), of i h] node by (simp add: kt_node_handle_def)
    obtain t' where t': "kt_drop_node t i = Some (True, t')" "ns_dropped (kt_state t' h)"
      "kt_node_handle t' = (kt_node_handle t)(i := None)"
      using kt_drop_node_spec [OF t(2), of i] h by auto
    have "hm_get (kc_reverse (kt_core t')) (from_socket_addr addr) = None"
      using t'(1) kc_drop_node_spec [OF core, of i] node
      by (auto simp: kt_drop_node_def kt_remove_live_handle_def Let_def split: option.splits)
    then have "kt_filter_known_addrs t' [addr] = [addr]"
      by (simp add: kt_filter_known_addrs_def kc_filter_known_addrs_def hm_keys_iff)
    with t Some h h' node t' show ?thesis
      by (auto simp: kt_drop_addr_eq)
  qed
qed

text \<open>
  \<open>get_oldest_nodes\<close> is the exact prefix of the live nodes that last responded before the
  cutoff (or never), strictly ordered by last response and then identifier.
\<close>

theorem oldest_nodes_exact:
  "\<exists>t. kt_batch_command clock commands (kt_new origin) = Some t
    \<and> (\<exists>rest. set (kt_get_oldest_nodes t cutoff limit @ rest) = stale_handles t cutoff
         \<and> sorted_wrt (\<lambda>g h. oldness t g < oldness t h) (kt_get_oldest_nodes t cutoff limit @ rest))
    \<and> length (kt_get_oldest_nodes t cutoff limit) =
        (case limit of None \<Rightarrow> card (stale_handles t cutoff) | Some n \<Rightarrow> min n (card (stale_handles t cutoff)))"
proof -
  obtain t where t: "kt_batch_command clock commands (kt_new origin) = Some t" "kt_ok t"
    using kt_history by blast
  note all = oldest_nodes_sorted [OF t(2), of cutoff]
  have card: "length (kt_get_oldest_nodes t cutoff None) = card (stale_handles t cutoff)"
    using distinct_card [OF all(3)] all(1) by simp
  let ?all = "kt_get_oldest_nodes t cutoff None"
  obtain rest where rest: "kt_get_oldest_nodes t cutoff limit @ rest = ?all"
  proof (cases limit)
    case (Some n)
    then show ?thesis
      using that [of "drop n ?all"] by (simp add: oldest_nodes_limit)
  qed (use that [of "[]"] in simp)
  moreover have "length (kt_get_oldest_nodes t cutoff limit) =
      (case limit of None \<Rightarrow> card (stale_handles t cutoff) | Some n \<Rightarrow> min n (card (stale_handles t cutoff)))"
    by (cases limit) (simp_all add: card oldest_nodes_limit min.commute)
  ultimately show ?thesis
    using t(1) all(1,2) by (intro exI [of _ t] exI [of _ rest] conjI) (simp_all only:)
qed

text \<open>
  \<open>get_nodes_for_sample_infohashes\<close> visits the live nodes in identifier order, reads the
  clock once for each visited node, and returns the first nodes, up to the positive limit, that
  are candidates at the reading taken for them.
\<close>

theorem sample_candidates_exact:
  "\<exists>t ordered. kt_batch_command clock commands (kt_new origin) = Some t
    \<and> set ordered = live_handles t \<and> sorted_wrt (\<lambda>g h. kt_id t g < kt_id t h) ordered
    \<and> fst (kt_get_nodes_for_sample_infohashes clock t (Suc n)) =
        take (Suc n) (map snd (filter
          (\<lambda>(k, h). is_sample_infohashes_candidate_at (kt_state t h) (clock k))
          (enumerate (kt_clock_reads t) ordered)))"
proof -
  obtain t where t: "kt_batch_command clock commands (kt_new origin) = Some t" "kt_ok t"
    using kt_history by blast
  let ?ordered = "sort_key (kt_id t) (kt_values t)"
  have "fst (kt_get_nodes_for_sample_infohashes clock t (Suc n)) =
      fst (sample_candidates clock (kt_state t) (Suc n) [] ?ordered (kt_clock_reads t))"
    by (simp add: kt_get_nodes_for_sample_infohashes_def split: prod.splits)
  also have "\<dots> = take (Suc n) (map snd (filter
      (\<lambda>(k, h). is_sample_infohashes_candidate_at (kt_state t h) (clock k))
      (enumerate (kt_clock_reads t) ?ordered)))"
    by (subst sample_candidates_eq) simp_all
  finally show ?thesis
    using t(1) sorted_ids [OF t(2)] kt_values_live(1) [OF t(2)]
    by (intro exI [of _ t] exI [of _ ?ordered]) simp
qed

text \<open>
  A sample holds the first hashes by identifier, at most twenty, with the exact total, and
  fills up to forty entries with the first live nodes by identifier.
\<close>

theorem sample_hashes_and_nodes_bounded:
  "\<exists>t. kt_batch_command clock commands (kt_new origin) = Some t
    \<and> (let s = kt_sample_hashes_and_nodes t
       in map kh_id (ks_hashes s) = take 20 (sorted_list_of_set (hm_keys (kc_hashes (kt_core t))))
          \<and> ks_total_hashes s = card (hm_keys (kc_hashes (kt_core t)))
          \<and> map (kt_id t) (ks_nodes s) =
              take (40 - length (ks_hashes s)) (sorted_list_of_set (kt_id t ` live_handles t))
          \<and> length (ks_hashes s) + length (ks_nodes s) \<le> 40)"
proof -
  obtain t where t: "kt_batch_command clock commands (kt_new origin) = Some t" "kt_ok t"
    using kt_history by blast
  note core = kt_okD(1) [OF t(2)]
  have "distinct (map (kt_id t) (sort_key (kt_id t) (kt_values t)))"
    using kt_values_live [OF t(2)] by (simp add: distinct_map)
  then have "map (kt_id t) (sort_key (kt_id t) (kt_values t)) = sorted_list_of_set (kt_id t ` live_handles t)"
    using kt_values_live(1) [OF t(2)]
      sorted_list_of_set.idem_if_sorted_distinct [of "map (kt_id t) (sort_key (kt_id t) (kt_values t))"]
    by simp
  moreover have "map kh_id (kc_hashes_by_id (kt_core t)) = sorted_list_of_set (hm_keys (kc_hashes (kt_core t)))"
    by (rule kc_hashes_by_id_ids [OF core])
  moreover have "kc_hash_count (kt_core t) = card (hm_keys (kc_hashes (kt_core t)))"
    using core by (simp add: kc_hash_count_def kc_ok_def synced_def hm_length)
  ultimately show ?thesis
    using t(1) by (intro exI [of _ t]) (simp add: kt_sample_hashes_and_nodes_def Let_def flip: take_map)
qed

text \<open>
  (C34) An announcement is remembered exactly. A rejected \<open>put_hash\<close> changes nothing; otherwise
  the hash is found afterwards with the peers known before, updated by the announced ones (one
  peer for each address, the last port announced for it wins), sorted by their text, no other
  hash is affected, and every announced address is known to the reverse index.
\<close>

theorem announcement_exact:
  "\<exists>t r t'. kt_batch_command clock commands (kt_new origin) = Some t
    \<and> kt_put_hash t i peers = Some (r, t')
    \<and> (if r = Rejected then t' = t
       else (\<exists>h. kt_hash t' = (kt_hash t)(i \<mapsto> h) \<and> kh_id h = i
              \<and> set (kh_peers h) = ran (announced peers (known_peers (kt_core t) i))
              \<and> sorted (map (\<lambda>p. socket_to_string (hp_addr p)) (kh_peers h)))
            \<and> kt_filter_known_addrs t' (map hp_addr peers) = [])"
proof -
  obtain t where t: "kt_batch_command clock commands (kt_new origin) = Some t" "kt_ok t"
    using kt_history by blast
  obtain r t' where put: "kt_put_hash t i peers = Some (r, t')" "kt_ok t'"
    "kc_put_hash (kt_core t) i peers = Some (r, kt_core t')"
    using kt_put_hash_spec [OF t(2), of i peers] by blast
  note core = kc_put_hash_found [OF kt_okD(1) [OF t(2)] put(3)]
  have t': "t' = t\<lparr>kt_core := kt_core t'\<rparr>"
    using put(1) by (simp only: kt_put_hash_def put(3) option.map prod.case option.inject prod.inject)
  have "if r = Rejected then t' = t
    else (\<exists>h. kt_hash t' = (kt_hash t)(i \<mapsto> h) \<and> kh_id h = i
           \<and> set (kh_peers h) = ran (announced peers (known_peers (kt_core t) i))
           \<and> sorted (map (\<lambda>p. socket_to_string (hp_addr p)) (kh_peers h)))
         \<and> kt_filter_known_addrs t' (map hp_addr peers) = []"
    using core by (subst t') (cases "r = Rejected"; simp add: kt_hash_def [abs_def] kt_filter_known_addrs_def)
  then show ?thesis
    using t(1) put(1) by blast
qed

text \<open>
  (C35) \<open>closest_nodes\<close> answers a lookup with live handles only: the node itself when it is in
  the table, otherwise as many as eight and the table allow, without repetition, such that no
  live node left out shares a longer prefix with the target than one returned.
\<close>

theorem closest_nodes_exact:
  "\<exists>t hs. kt_batch_command clock commands (kt_new origin) = Some t
    \<and> kt_closest_nodes t i = Some hs \<and> distinct hs \<and> set hs \<subseteq> live_handles t
    \<and> (case kt_node_handle t i of
         Some h \<Rightarrow> hs = [h]
       | None \<Rightarrow> length hs = min 8 (card (live_handles t))
           \<and> \<not> (\<exists>g \<in> set hs. \<exists>h \<in> live_handles t - set hs.
                  shared_prefix (kt_id t g) i < shared_prefix (kt_id t h) i))"
proof -
  obtain t where t: "kt_batch_command clock commands (kt_new origin) = Some t" "kt_ok t"
    using kt_history by blast
  let ?N = "kc_nodes (kt_core t)"
  have nodes: "nt_ok ?N"
    using kt_okD(1) [OF t(2)] by (simp add: kc_ok_def)
  obtain ns where ns: "kc_closest_nodes (kt_core t) i = Some ns" "distinct (map rn_id ns)"
    "case nt_get ?N i of Some node \<Rightarrow> ns = [node]
       | None \<Rightarrow> length ns = min 8 (nt_count ?N) \<and> map rn_id ns = rt_closest (nt_routing ?N) i 8"
    using nt_closest_spec [OF nodes, of i] unfolding kc_closest_nodes_def by blast
  define hs where "hs = live_handles_of t ns"
  have hs: "map (\<lambda>h. ns_node (kt_state t h)) hs = ns" "set hs \<subseteq> live_handles t"
    using live_handles_of_closest [OF t(2), of i] ns(1) by (auto simp: hs_def)
  then have ids: "map (kt_id t) hs = map rn_id ns"
    by auto
  then have "distinct hs"
    using ns(2) by (metis distinct_map)
  moreover have "kt_closest_nodes t i = Some hs"
    using ns(1) by (simp add: kt_closest_nodes_def hs_def)
  moreover have "case kt_node_handle t i of
         Some h \<Rightarrow> hs = [h]
       | None \<Rightarrow> length hs = min 8 (card (live_handles t))
           \<and> \<not> (\<exists>g \<in> set hs. \<exists>h \<in> live_handles t - set hs.
                  shared_prefix (kt_id t g) i < shared_prefix (kt_id t h) i)"
  proof (cases "kt_node_handle t i")
    case (Some h)
    then have "nt_get ?N i = Some (ns_node (kt_state t h))"
      using kt_okD(3) [OF t(2)] by (simp add: kt_node_handle_def)
    with ns(1,3) Some t(2) show ?thesis
      by (simp add: hs_def live_handles_of_def List.map_filter_simps)
        (simp add: kt_node_handle_def kt_okD(3))
  next
    case None
    then have absent: "nt_get ?N i = None"
      using kt_okD(4) [OF t(2), of i] by (simp add: kt_node_handle_def)
    have keys: "kt_id t h \<in> rt_ids (nt_routing ?N)" if "h \<in> live_handles t" for h
      using that kt_okD(3) [OF t(2), of "kt_id t h" h] kt_okD(5) [OF t(2), of h] nt_keys [OF nodes]
      by (force simp: live_handles_def hm_keys_iff)
    have "shared_prefix (kt_id t h) i \<le> shared_prefix (kt_id t g) i"
      if "g \<in> set hs" and "h \<in> live_handles t - set hs" for g h
    proof (rule rt_closest_optimal [where limit = 8])
      show "rt_ok (nt_routing ?N)"
        using nodes by (simp add: nt_ok_def rt_config_ok_def)
      have eq: "set (rt_closest (nt_routing ?N) i 8) = kt_id t ` set hs"
        using absent ns(3) ids by (simp flip: list.set_map)
      with that show "kt_id t g \<in> set (rt_closest (nt_routing ?N) i 8)"
        by simp
      show "kt_id t h \<in> rt_ids (nt_routing ?N)"
        using keys that by simp
      show "kt_id t h \<notin> set (rt_closest (nt_routing ?N) i 8)"
        using eq that hs(2) kt_values_live(4) [OF t(2)] by (auto simp: inj_on_def)
    qed
    moreover have "length hs = min 8 (card (live_handles t))"
      using absent ns(3) hs(1) kt_count [OF t(2)] by (auto simp: kc_node_count_def)
    ultimately show ?thesis
      using None by (auto simp: not_less)
  qed
  ultimately show ?thesis
    using t(1) hs(2) by blast
qed

text \<open>
  The penalty addition is exact at the end of time: for every representable instant the
  binary search yields the instant five minutes later, or the last representable instant when
  that is out of range.
\<close>

theorem saturating_add_five_minutes_exact:
  "saturating_add_five_minutes (min v instant_max) = min (min v instant_max + 300000000000) instant_max"
  by (subst saturating_add_five_minutes_eq) simp_all

end
