(* ===== verification/Responder.thy ===== *)
theory Responder
  imports KTable Krpc
begin

text \<open>
  \<open>bitmagnet-dht/src/announce_token.rs\<close>, \<open>dht_responder.rs\<close> and \<open>reply.rs\<close>: the responder for
  the five DHT queries over an injected table, the announce token and the reply envelope. The
  trait \<open>DhtResponderTable\<close> is a record of operations on a state; \<open>None\<close> is a panic of the
  table. The digest of the \<open>md5\<close> crate and the encoder of the \<open>hex\<close> crate are arguments.
\<close>

section \<open>The table interface\<close>

datatype dht_responder_error =
  Protocol krpc_error
| NativeIpv6Node routing_node

datatype dht_responder_lookup =
  LookupFound "ktable_hash_peer list"
| LookupClosestNodes "routing_node list"

record dht_responder_sample =
  ds_hashes :: "id20 list"
  ds_nodes :: "routing_node list"
  ds_total_hashes :: i64

record 's dht_responder_table =
  dt_origin :: "'s \<Rightarrow> id20"
  dt_closest_nodes :: "'s \<Rightarrow> id20 \<Rightarrow> routing_node list option"
  dt_get_hash_or_closest_nodes :: "'s \<Rightarrow> id20 \<Rightarrow> dht_responder_lookup option"
  dt_batch_command :: "ktable_command list \<Rightarrow> 's \<Rightarrow> 's option"
  dt_sample_hashes_and_nodes :: "'s \<Rightarrow> dht_responder_sample"

definition kt_routing_node :: "ktable \<Rightarrow> handle \<Rightarrow> routing_node" where
  "kt_routing_node t h = ns_node (kt_state t h)"

text \<open>\<open>impl DhtResponderTable for KTable\<close>.\<close>

definition ktable_backend :: "(nat \<Rightarrow> instant) \<Rightarrow> ktable dht_responder_table" where
  "ktable_backend clock =
     \<lparr>dt_origin = \<lambda>t. kc_origin (kt_core t),
      dt_closest_nodes = \<lambda>t i. map_option (map (kt_routing_node t)) (kt_closest_nodes t i),
      dt_get_hash_or_closest_nodes = \<lambda>t i.
        map_option
          (\<lambda>lookup. case lookup of
              Found hash \<Rightarrow> LookupFound (kh_peers hash)
            | ClosestNodes nodes \<Rightarrow> LookupClosestNodes (map (kt_routing_node t) nodes))
          (kt_get_hash_or_closest_nodes t i),
      dt_batch_command = kt_batch_command clock,
      dt_sample_hashes_and_nodes = \<lambda>t.
        let sample = kt_sample_hashes_and_nodes t
        in \<lparr>ds_hashes = map kh_id (ks_hashes sample),
            ds_nodes = map (kt_routing_node t) (ks_nodes sample),
            ds_total_hashes = word_of_nat (ks_total_hashes sample)\<rparr>\<rparr>"

section \<open>Announce tokens\<close>

text \<open>The digest function of \<open>md5\<close> and \<open>hex::encode\<close>.\<close>

record digests =
  dg_md5 :: "bytes \<Rightarrow> bytes"
  dg_hex_encode :: "bytes \<Rightarrow> string"

fun go_source_ip_string :: "socket_addr \<Rightarrow> string" where
  "go_source_ip_string (SocketV4 ip port) = v4_to_string ip"
| "go_source_ip_string (SocketV6 ip port flowinfo scope) =
     (if scope = 0 then v6_to_string ip else v6_to_string ip @ ''%'' @ nat_to_dec (unat scope))"

definition issue :: "digests \<Rightarrow> bytes \<Rightarrow> id20 \<Rightarrow> id20 \<Rightarrow> id20 \<Rightarrow> socket_addr \<Rightarrow> bytes" where
  "issue dg secret local_id info_hash requester_id source =
     bstr (dg_hex_encode dg (dg_md5 dg
       (secret @ as_bytes local_id @ as_bytes info_hash @ as_bytes requester_id
        @ bstr (go_source_ip_string source))))"

section \<open>The responder\<close>

record dht_responder =
  dr_local_id :: id20
  dr_token_secret :: bytes
  dr_sample_infohashes_interval :: i64

definition with_token_secret :: "'s dht_responder_table \<Rightarrow> 's \<Rightarrow> bytes \<Rightarrow> i64 \<Rightarrow> dht_responder" where
  "with_token_secret dt s secret interval =
     \<lparr>dr_local_id = dt_origin dt s, dr_token_secret = secret, dr_sample_infohashes_interval = interval\<rparr>"

definition protocol_error :: "i64 \<Rightarrow> string \<Rightarrow> dht_responder_error" where
  "protocol_error code message = Protocol \<lparr>ke_code = code, ke_message = bstr message\<rparr>"

definition missing_arguments :: dht_responder_error where
  "missing_arguments = protocol_error 203 ''missing arguments''"

definition invalid_token :: dht_responder_error where
  "invalid_token = protocol_error 203 ''invalid token''"

definition method_unknown :: dht_responder_error where
  "method_unknown = protocol_error 204 ''method Unknown''"

definition empty_return :: "id20 \<Rightarrow> message_return" where
  "empty_return i =
     \<lparr>mr_id = i, mr_nodes = None, mr_nodes6 = None, mr_token = None, mr_values = None,
      mr_interval = None, mr_num = None, mr_samples = None, mr_seeders_bloom = None,
      mr_peers_bloom = None\<rparr>"

definition ok_or :: "'a option \<Rightarrow> 'e \<Rightarrow> 'e + 'a" where
  "ok_or v e = (case v of None \<Rightarrow> Inl e | Some x \<Rightarrow> Inr x)"

definition required_id :: "id20 option \<Rightarrow> dht_responder_error + id20" where
  "required_id i = ok_or (filter_opt (\<lambda>i. i \<noteq> id20_ZERO) i) missing_arguments"

definition compact_ipv4_node :: "routing_node \<Rightarrow> dht_responder_error + compact_node" where
  "compact_ipv4_node node =
     (case rn_addr node of
        SocketV4 ip port \<Rightarrow>
          Inr \<lparr>cn_id = rn_id node, cn_addr = \<lparr>ca_ip = IpV4 ip, ca_port = port\<rparr>\<rparr>
      | SocketV6 ip port _ _ \<Rightarrow>
          (case to_ipv4_mapped ip of
             None \<Rightarrow> Inl (NativeIpv6Node node)
           | Some v4 \<Rightarrow> Inr \<lparr>cn_id = rn_id node, cn_addr = \<lparr>ca_ip = IpV4 v4, ca_port = port\<rparr>\<rparr>))"

definition project_nodes :: "routing_node list \<Rightarrow> dht_responder_error + compact_node list option" where
  "project_nodes nodes =
     (if nodes = [] then Inr None
      else rbind (collect_result (map compact_ipv4_node nodes)) (\<lambda>ns. Inr (Some ns)))"

definition compact_addr_of :: "socket_addr \<Rightarrow> compact_addr" where
  "compact_addr_of addr = \<lparr>ca_ip = socket_ip addr, ca_port = socket_port addr\<rparr>"

fun source_with_port :: "socket_addr \<Rightarrow> u16 \<Rightarrow> socket_addr" where
  "source_with_port (SocketV4 ip _) port = SocketV4 ip port"
| "source_with_port (SocketV6 ip _ flowinfo scope) port = SocketV6 ip port 0 scope"

text \<open>
  The result of a query: \<open>None\<close> is a panic of the table, otherwise an error or a return, and the
  table after the query. \<open>?\<close> keeps the table of the moment of the error.
\<close>

type_synonym 's reaction = "((dht_responder_error + message_return) \<times> 's) option"

definition respond_find_node ::
  "'s dht_responder_table \<Rightarrow> dht_responder \<Rightarrow> message_args \<Rightarrow> 's \<Rightarrow> 's reaction" where
  "respond_find_node dt r args s =
     (case required_id (ma_target args) of
        Inl e \<Rightarrow> Some (Inl e, s)
      | Inr target \<Rightarrow>
          map_option
            (\<lambda>nodes. (rbind (project_nodes nodes)
                       (\<lambda>nodes. Inr ((empty_return (dr_local_id r))\<lparr>mr_nodes := nodes\<rparr>)), s))
            (dt_closest_nodes dt s target))"

definition respond_get_peers ::
  "digests \<Rightarrow> 's dht_responder_table \<Rightarrow> dht_responder \<Rightarrow> socket_addr \<Rightarrow> message_args \<Rightarrow> 's \<Rightarrow> 's reaction" where
  "respond_get_peers dg dt r source args s =
     (case required_id (ma_info_hash args) of
        Inl e \<Rightarrow> Some (Inl e, s)
      | Inr info_hash \<Rightarrow>
          map_option
            (\<lambda>lookup.
               let response = empty_return (dr_local_id r);
                   filled =
                     (case lookup of
                        LookupFound peers \<Rightarrow>
                          Inr (response\<lparr>mr_values := Some (map (\<lambda>p. compact_addr_of (hp_addr p)) peers)\<rparr>)
                      | LookupClosestNodes nodes \<Rightarrow>
                          rbind (project_nodes nodes) (\<lambda>nodes. Inr (response\<lparr>mr_nodes := nodes\<rparr>)))
               in (rbind filled (\<lambda>response. Inr (response\<lparr>mr_token :=
                     Some (issue dg (dr_token_secret r) (dr_local_id r) info_hash (ma_id args) source)\<rparr>)), s))
            (dt_get_hash_or_closest_nodes dt s info_hash))"

definition announced_port :: "socket_addr \<Rightarrow> message_args \<Rightarrow> u16" where
  "announced_port source args =
     (if ma_implied_port args then socket_port source
      else (case ma_port args of None \<Rightarrow> socket_port source | Some port \<Rightarrow> ucast port))"

definition respond_announce_peer ::
  "digests \<Rightarrow> 's dht_responder_table \<Rightarrow> dht_responder \<Rightarrow> socket_addr \<Rightarrow> message_args \<Rightarrow> 's \<Rightarrow> 's reaction" where
  "respond_announce_peer dg dt r source args s =
     (case required_id (ma_info_hash args) of
        Inl e \<Rightarrow> Some (Inl e, s)
      | Inr info_hash \<Rightarrow>
          if ma_token args \<noteq> issue dg (dr_token_secret r) (dr_local_id r) info_hash (ma_id args) source
          then Some (Inl invalid_token, s)
          else
            map_option (\<lambda>s. (Inr (empty_return (dr_local_id r)), s))
              (dt_batch_command dt
                 [PutHash info_hash [\<lparr>hp_addr = source_with_port source (announced_port source args)\<rparr>]] s))"

definition respond_sample_infohashes ::
  "'s dht_responder_table \<Rightarrow> dht_responder \<Rightarrow> 's \<Rightarrow> 's reaction" where
  "respond_sample_infohashes dt r s =
     (let sample = dt_sample_hashes_and_nodes dt s
      in Some (rbind (project_nodes (ds_nodes sample)) (\<lambda>nodes.
           Inr ((empty_return (dr_local_id r))
             \<lparr>mr_nodes := nodes,
              mr_interval := Some (dr_sample_infohashes_interval r),
              mr_num := Some (ds_total_hashes sample),
              mr_samples := Some (ds_hashes sample)\<rparr>)), s))"

definition respond ::
  "digests \<Rightarrow> 's dht_responder_table \<Rightarrow> dht_responder \<Rightarrow> socket_addr \<Rightarrow> krpc_message \<Rightarrow> 's \<Rightarrow> 's reaction" where
  "respond dg dt r source message s =
     (case km_args message of
        None \<Rightarrow> Some (Inl missing_arguments, s)
      | Some args \<Rightarrow>
          if km_query message = bstr ''ping'' then Some (Inr (empty_return (dr_local_id r)), s)
          else if km_query message = bstr ''find_node'' then respond_find_node dt r args s
          else if km_query message = bstr ''get_peers'' then respond_get_peers dg dt r source args s
          else if km_query message = bstr ''announce_peer'' then respond_announce_peer dg dt r source args s
          else if km_query message = bstr ''sample_infohashes'' then respond_sample_infohashes dt r s
          else Some (Inl method_unknown, s))"

section \<open>Replies\<close>

record dht_reply =
  re_destination :: socket_addr
  re_message :: krpc_message

definition compose_reply_for_transaction ::
  "socket_addr \<Rightarrow> bytes \<Rightarrow> message_return option \<Rightarrow> krpc_error option \<Rightarrow> dht_reply" where
  "compose_reply_for_transaction destination transaction_id response error =
     \<lparr>re_destination = destination,
      re_message =
        \<lparr>km_transaction_id = transaction_id, km_message_type = bstr ''r'', km_query = [],
         km_args = None, km_response = response, km_error = error, km_observed_addr = None,
         km_read_only = False, km_client_id = []\<rparr>\<rparr>"

definition compose_reply ::
  "socket_addr \<Rightarrow> krpc_message \<Rightarrow> message_return option \<Rightarrow> krpc_error option \<Rightarrow> dht_reply" where
  "compose_reply destination request response error =
     compose_reply_for_transaction destination (km_transaction_id request) response error"

definition compose_response :: "socket_addr \<Rightarrow> krpc_message \<Rightarrow> message_return \<Rightarrow> dht_reply" where
  "compose_response destination request response = compose_reply destination request (Some response) None"

definition compose_error :: "socket_addr \<Rightarrow> krpc_message \<Rightarrow> krpc_error \<Rightarrow> dht_reply" where
  "compose_error destination request error = compose_reply destination request None (Some error)"

definition generic_server_error :: krpc_error where
  "generic_server_error = \<lparr>ke_code = 202, ke_message = bstr ''server error''\<rparr>"

definition too_many_requests :: "socket_addr \<Rightarrow> bytes \<Rightarrow> dht_reply" where
  "too_many_requests destination transaction_id =
     compose_reply_for_transaction destination transaction_id None
       (Some \<lparr>ke_code = 201, ke_message = bstr ''too many requests''\<rparr>)"

definition reply_wire :: "(nat \<Rightarrow> bvalue \<Rightarrow> string + bytes) \<Rightarrow> dht_reply \<Rightarrow> wire_error + bytes" where
  "reply_wire emit reply = krpc_encode emit (re_message reply)"

section \<open>Lemmas\<close>

lemmas error_defs = missing_arguments_def invalid_token_def method_unknown_def protocol_error_def

lemma required_id_simps [simp]:
  "required_id None = Inl missing_arguments"
  "required_id (Some h) = (if h = id20_ZERO then Inl missing_arguments else Inr h)"
  by (simp_all add: required_id_def ok_or_def filter_opt_def)

lemma required_id_Inr: "required_id i = Inr h \<longleftrightarrow> i = Some h \<and> h \<noteq> id20_ZERO"
  by (cases i) auto

lemma issue_same_ip:
  "from_socket_addr source = from_socket_addr source' \<Longrightarrow>
   issue dg secret local_id info_hash requester source = issue dg secret local_id info_hash requester source'"
  by (cases source; cases source') (auto simp: issue_def)

lemma compact_addr_of_normalize [simp]: "compact_addr_of (normalize_addr addr) = compact_addr_of addr"
  by (cases addr) (simp_all add: compact_addr_of_def)

lemma errors_distinct [simp]:
  "missing_arguments \<noteq> invalid_token" "missing_arguments \<noteq> method_unknown" "invalid_token \<noteq> method_unknown"
  "invalid_token \<noteq> missing_arguments" "method_unknown \<noteq> missing_arguments" "method_unknown \<noteq> invalid_token"
  "missing_arguments \<noteq> NativeIpv6Node n" "invalid_token \<noteq> NativeIpv6Node n" "method_unknown \<noteq> NativeIpv6Node n"
  by (simp_all add: error_defs bstr_def)

text \<open>A node without an IPv4 form.\<close>

definition native_ipv6 :: "routing_node \<Rightarrow> bool" where
  "native_ipv6 node \<longleftrightarrow> (\<exists>e. compact_ipv4_node node = Inl e)"

lemma compact_ipv4_node_cases:
  "compact_ipv4_node node = Inl e \<longleftrightarrow> native_ipv6 node \<and> e = NativeIpv6Node node"
  "compact_ipv4_node node = Inr n \<Longrightarrow> \<not> native_ipv6 node"
  by (auto simp: native_ipv6_def compact_ipv4_node_def split: socket_addr.splits option.splits)

lemma compact_ipv4_node_v4: "compact_ipv4_node node = Inr n \<Longrightarrow> \<not> is_ipv6 (ca_ip (cn_addr n))"
  by (auto simp: compact_ipv4_node_def split: socket_addr.splits option.splits)

lemma collect_nodes:
  "collect_result (map compact_ipv4_node nodes) =
     (case find native_ipv6 nodes of
        Some node \<Rightarrow> Inl (NativeIpv6Node node)
      | None \<Rightarrow> Inr (map (projr \<circ> compact_ipv4_node) nodes))"
proof (induction nodes)
  case (Cons node nodes)
  show ?case
  proof (cases "compact_ipv4_node node")
    case (Inl e)
    then have "native_ipv6 node \<and> e = NativeIpv6Node node"
      by (simp add: compact_ipv4_node_cases(1))
    with Inl show ?thesis by simp
  next
    case (Inr n)
    with Cons compact_ipv4_node_cases(2) [OF Inr] show ?thesis
      by (auto split: option.splits)
  qed
qed simp

text \<open>The compact form of a node list: the first native IPv6 node is the error.\<close>

lemma project_nodes_eq:
  "project_nodes nodes =
     (case find native_ipv6 nodes of
        Some node \<Rightarrow> Inl (NativeIpv6Node node)
      | None \<Rightarrow> Inr (if nodes = [] then None else Some (map (projr \<circ> compact_ipv4_node) nodes)))"
  by (auto simp: project_nodes_def collect_nodes split: option.splits)

lemma project_nodes_v4:
  assumes "project_nodes nodes = Inr ns"
  shows "family_ok False ns"
  unfolding family_ok_def
proof (intro allI impI ballI)
  fix ms n
  assume "ns = Some ms" "n \<in> set ms"
  with assms have eq: "map compact_ipv4_node nodes = map Inr ms"
    by (auto simp: project_nodes_def rbind_Inr dest!: collect_result_Inr split: if_splits)
  have "Inr n \<in> set (map compact_ipv4_node nodes)"
    unfolding eq using \<open>n \<in> set ms\<close> by simp
  then obtain node where "compact_ipv4_node node = Inr n"
    by auto
  then show "is_ipv6 (ca_ip (cn_addr n)) = False"
    by (simp add: compact_ipv4_node_v4)
qed

section \<open>The contract of a responder table\<close>

text \<open>
  What the responder relies on: the operations return and keep the invariant, a lookup returns
  nodes of the table only, and a \<open>PutHash\<close> either leaves the table as it is or makes the peer visible to lookups.
\<close>

locale responder_backend =
  fixes dt :: "'s dht_responder_table" and inv :: "'s \<Rightarrow> bool" and nodes_of :: "'s \<Rightarrow> routing_node set"
    and rejects :: "'s \<Rightarrow> id20 \<Rightarrow> ktable_hash_peer \<Rightarrow> bool"
  assumes closest_total: "inv s \<Longrightarrow> \<exists>ns. dt_closest_nodes dt s i = Some ns \<and> set ns \<subseteq> nodes_of s"
    and lookup_total:
      "inv s \<Longrightarrow> \<exists>l. dt_get_hash_or_closest_nodes dt s i = Some l
        \<and> (\<forall>ns. l = LookupClosestNodes ns \<longrightarrow> set ns \<subseteq> nodes_of s)"
    and sample_nodes: "inv s \<Longrightarrow> set (ds_nodes (dt_sample_hashes_and_nodes dt s)) \<subseteq> nodes_of s"
    and batch_total:
      "inv s \<Longrightarrow> \<exists>s'. dt_batch_command dt cs s = Some s' \<and> inv s'"
    and batch_Nil: "dt_batch_command dt [] s = Some s"
    and put_hash_found:
      "inv s \<Longrightarrow> dt_batch_command dt [PutHash h [p]] s = Some s' \<Longrightarrow>
        (if rejects s h p then s' = s
         else (\<exists>ps. dt_get_hash_or_closest_nodes dt s' h = Some (LookupFound ps)
                 \<and> \<lparr>hp_addr = normalize_addr (hp_addr p)\<rparr> \<in> set ps))"

text \<open>The table commands a query issues: one \<open>PutHash\<close> for an accepted announcement.\<close>

definition accepted_announcement :: "digests \<Rightarrow> dht_responder \<Rightarrow> socket_addr \<Rightarrow> message_args \<Rightarrow> id20 \<Rightarrow> bool" where
  "accepted_announcement dg r source args h \<longleftrightarrow>
     ma_info_hash args = Some h \<and> h \<noteq> id20_ZERO
     \<and> ma_token args = issue dg (dr_token_secret r) (dr_local_id r) h (ma_id args) source"

definition issued_commands ::
  "digests \<Rightarrow> dht_responder \<Rightarrow> socket_addr \<Rightarrow> krpc_message \<Rightarrow> ktable_command list" where
  "issued_commands dg r source message =
     (case km_args message of
        None \<Rightarrow> []
      | Some args \<Rightarrow>
          (case ma_info_hash args of
             None \<Rightarrow> []
           | Some h \<Rightarrow>
               if km_query message = bstr ''announce_peer'' \<and> accepted_announcement dg r source args h
               then [PutHash h [\<lparr>hp_addr = source_with_port source (announced_port source args)\<rparr>]]
               else []))"

context responder_backend
begin

lemma respond_total:
  assumes "inv s"
  shows "\<exists>res s'. respond dg dt r source message s = Some (res, s') \<and> inv s'
    \<and> dt_batch_command dt (issued_commands dg r source message) s = Some s'"
proof (cases "km_args message")
  case (Some args)
  show ?thesis
    using assms closest_total [OF assms] lookup_total [OF assms] batch_total [OF assms]
    by (cases "ma_info_hash args"; cases "ma_target args";
        auto simp: Some respond_def issued_commands_def accepted_announcement_def batch_Nil Let_def
          respond_find_node_def respond_get_peers_def respond_announce_peer_def respond_sample_infohashes_def;
        blast)
qed (use assms batch_Nil in \<open>simp add: respond_def issued_commands_def\<close>)

text \<open>A return, or the local failure of a native IPv6 node of the table.\<close>

definition projected :: "'s \<Rightarrow> dht_responder_error + message_return \<Rightarrow> bool" where
  "projected s res \<longleftrightarrow>
     (case res of Inr _ \<Rightarrow> True | Inl e \<Rightarrow> \<exists>node \<in> nodes_of s. native_ipv6 node \<and> e = NativeIpv6Node node)"

lemma projected_Inr [simp]: "projected s (Inr ret)"
  by (simp add: projected_def)

lemma projected_nodes: "set ns \<subseteq> nodes_of s \<Longrightarrow> projected s (rbind (project_nodes ns) (\<lambda>x. Inr (f x)))"
  by (auto simp: projected_def project_nodes_eq find_Some_iff split: option.splits)

lemma respond_find_node_result:
  assumes "inv s" and "respond_find_node dt r args s = Some (res, s')"
  shows "if required_id (ma_target args) = Inl missing_arguments then res = Inl missing_arguments
    else projected s res"
proof (cases "ma_target args")
  case (Some h)
  obtain ns where "dt_closest_nodes dt s h = Some ns" "set ns \<subseteq> nodes_of s"
    using closest_total [OF assms(1)] by blast
  with assms(2) Some show ?thesis
    by (auto simp: respond_find_node_def projected_nodes)
qed (use assms in \<open>auto simp: respond_find_node_def\<close>)

lemma respond_get_peers_result:
  assumes "inv s" and "respond_get_peers dg dt r source args s = Some (res, s')"
  shows "if required_id (ma_info_hash args) = Inl missing_arguments then res = Inl missing_arguments
    else projected s res"
proof (cases "ma_info_hash args")
  case (Some h)
  obtain l where l: "dt_get_hash_or_closest_nodes dt s h = Some l"
    "\<forall>ns. l = LookupClosestNodes ns \<longrightarrow> set ns \<subseteq> nodes_of s"
    using lookup_total [OF assms(1)] by blast
  show ?thesis
    using assms(2) Some l
    by (cases l) (auto simp: respond_get_peers_def projected_nodes Let_def)
qed (use assms in \<open>auto simp: respond_get_peers_def\<close>)

lemma respond_sample_infohashes_result:
  "inv s \<Longrightarrow> respond_sample_infohashes dt r s = Some (res, s') \<Longrightarrow> projected s res"
  by (auto simp: respond_sample_infohashes_def Let_def intro!: projected_nodes dest: sample_nodes)

lemma respond_announce_peer_result:
  assumes "respond_announce_peer dg dt r source args s = Some (res, s')"
  shows "case required_id (ma_info_hash args) of
      Inl e \<Rightarrow> e = missing_arguments \<and> res = Inl e
    | Inr h \<Rightarrow> res = (if accepted_announcement dg r source args h then Inr (empty_return (dr_local_id r))
                    else Inl invalid_token)"
  using assms
  by (cases "ma_info_hash args") (auto simp: respond_announce_peer_def accepted_announcement_def)

lemma projected_errors [simp]:
  "projected s res \<Longrightarrow> res \<noteq> Inl missing_arguments \<and> res \<noteq> Inl invalid_token \<and> res \<noteq> Inl method_unknown"
  by (auto simp: projected_def)

lemma projected_native: "projected s (Inl (NativeIpv6Node node)) \<longleftrightarrow> node \<in> nodes_of s \<and> native_ipv6 node"
  by (auto simp: projected_def)

text \<open>Which error a query gets.\<close>

lemma respond_errors:
  assumes "inv s" and "respond dg dt r source message s = Some (res, s')"
  shows "res = Inl missing_arguments \<longleftrightarrow>
      (case km_args message of
         None \<Rightarrow> True
       | Some args \<Rightarrow>
           km_query message = bstr ''find_node'' \<and> required_id (ma_target args) = Inl missing_arguments
           \<or> km_query message \<in> {bstr ''get_peers'', bstr ''announce_peer''}
             \<and> required_id (ma_info_hash args) = Inl missing_arguments)" (is ?missing)
    and "res = Inl invalid_token \<longleftrightarrow>
      (\<exists>args h. km_args message = Some args \<and> km_query message = bstr ''announce_peer''
         \<and> required_id (ma_info_hash args) = Inr h \<and> \<not> accepted_announcement dg r source args h)" (is ?token)
    and "res = Inl method_unknown \<longleftrightarrow>
      km_args message \<noteq> None
      \<and> km_query message \<notin> {bstr ''ping'', bstr ''find_node'', bstr ''get_peers'', bstr ''announce_peer'', bstr ''sample_infohashes''}"
      (is ?unknown)
    and "res = Inl (NativeIpv6Node node) \<Longrightarrow> node \<in> nodes_of s \<and> native_ipv6 node"
proof -
  have "?missing \<and> ?token \<and> ?unknown \<and> (res = Inl (NativeIpv6Node node) \<longrightarrow> node \<in> nodes_of s \<and> native_ipv6 node)"
  proof (cases "km_args message")
    case (Some args)
    let ?q = "km_query message"
    consider "?q = bstr ''ping''" | "?q = bstr ''find_node''" | "?q = bstr ''get_peers''"
      | "?q = bstr ''announce_peer''" | "?q = bstr ''sample_infohashes''"
      | "?q \<notin> {bstr ''ping'', bstr ''find_node'', bstr ''get_peers'', bstr ''announce_peer'', bstr ''sample_infohashes''}"
      by blast
    then show ?thesis
    proof cases
      case 1
      with assms(2) Some show ?thesis by (auto simp: respond_def)
    next
      case 2
      with assms(2) Some respond_find_node_result [OF assms(1), of r args res s'] show ?thesis
        by (auto simp: respond_def projected_native split: if_splits dest: projected_errors)
    next
      case 3
      with assms(2) Some respond_get_peers_result [OF assms(1), of dg r source args res s'] show ?thesis
        by (auto simp: respond_def projected_native split: if_splits dest: projected_errors)
    next
      case 4
      with assms(2) Some respond_announce_peer_result [of dg r source args s res s'] show ?thesis
        by (auto simp: respond_def split: sum.splits if_splits)
    next
      case 5
      with assms(2) Some respond_sample_infohashes_result [OF assms(1), of r res s'] show ?thesis
        by (auto simp: respond_def projected_native dest: projected_errors)
    next
      case 6
      with assms(2) Some show ?thesis by (auto simp: respond_def)
    qed
  qed (use assms(2) in \<open>auto simp: respond_def\<close>)
  then show ?missing ?token ?unknown "res = Inl (NativeIpv6Node node) \<Longrightarrow> node \<in> nodes_of s \<and> native_ipv6 node"
    by blast+
qed

text \<open>
  The token of a \<open>get_peers\<close> return is accepted from the same address at any port and in any later
  state of the table; the announced peer is then in the values of a \<open>get_peers\<close> return, unless the
  table did not take the hash.
\<close>

lemma announce_flow:
  assumes "inv s" and "required_id (ma_info_hash q) = Inr h" and "ma_info_hash a = ma_info_hash q"
    and "ma_id a = ma_id q" and "from_socket_addr source' = from_socket_addr source"
    and get: "respond_get_peers dg dt r source q s0 = Some (Inr ret, s1)" and token: "mr_token ret = Some (ma_token a)"
  shows "s1 = s0 \<and> (\<exists>s'. respond_announce_peer dg dt r source' a s = Some (Inr (empty_return (dr_local_id r)), s')
    \<and> inv s'
    \<and> (if rejects s h \<lparr>hp_addr = source_with_port source' (announced_port source' a)\<rparr> then s' = s
       else (\<exists>ret. respond_get_peers dg dt r source'' q s' = Some (Inr ret, s')
         \<and> compact_addr_of (source_with_port source' (announced_port source' a)) \<in> set (the (mr_values ret)))))"
proof -
  let ?p = "\<lparr>hp_addr = source_with_port source' (announced_port source' a)\<rparr>"
  have h: "ma_info_hash q = Some h" "h \<noteq> id20_ZERO"
    using assms(2) by (auto simp: required_id_Inr)
  have "s1 = s0 \<and> ma_token a = issue dg (dr_token_secret r) (dr_local_id r) h (ma_id q) source"
  proof (cases "dt_get_hash_or_closest_nodes dt s0 h")
    case (Some l)
    with get token h show ?thesis
      by (cases l) (auto simp: respond_get_peers_def rbind_Inr)
  qed (use get h in \<open>simp add: respond_get_peers_def\<close>)
  then have "s1 = s0" and accepted: "accepted_announcement dg r source' a h"
    using h assms(3,4) issue_same_ip [OF assms(5)] by (auto simp: accepted_announcement_def)
  obtain s' where s': "dt_batch_command dt [PutHash h [?p]] s = Some s'" "inv s'"
    using batch_total [OF assms(1)] by blast
  then have "respond_announce_peer dg dt r source' a s = Some (Inr (empty_return (dr_local_id r)), s')"
    using h assms(3) accepted by (simp add: respond_announce_peer_def accepted_announcement_def)
  moreover have "\<exists>ret. respond_get_peers dg dt r source'' q s' = Some (Inr ret, s')
      \<and> compact_addr_of (hp_addr ?p) \<in> set (the (mr_values ret))"
    if "dt_get_hash_or_closest_nodes dt s' h = Some (LookupFound ps)"
      and "\<lparr>hp_addr = normalize_addr (hp_addr ?p)\<rparr> \<in> set ps" for ps
    using that h by (auto simp: respond_get_peers_def Let_def image_iff intro!: bexI [OF _ that(2)])
  ultimately show ?thesis
    using \<open>s1 = s0\<close> s'(2) put_hash_found [OF assms(1) s'(1)] by (auto split: if_splits)
qed

end


section \<open>The shared table keeps the contract\<close>

definition live_nodes :: "ktable \<Rightarrow> routing_node set" where
  "live_nodes t = kt_routing_node t ` live_handles t"

lemma ktable_closest:
  assumes "kt_ok t"
  shows "\<exists>ns. kc_closest_nodes (kt_core t) i = Some ns \<and> set ns \<subseteq> live_nodes t
    \<and> map (kt_routing_node t) (live_handles_of t ns) = ns"
proof -
  obtain ns where ns: "kc_closest_nodes (kt_core t) i = Some ns"
    "map (kt_routing_node t) (live_handles_of t ns) = ns" "set (live_handles_of t ns) \<subseteq> live_handles t"
    using live_handles_of_closest [OF assms, of i] by (auto simp: kt_routing_node_def [abs_def])
  have "set ns \<subseteq> live_nodes t"
    by (subst ns(2) [symmetric]) (use ns(3) in \<open>auto simp: live_nodes_def\<close>)
  with ns show ?thesis by blast
qed

definition hash_rejected :: "ktable \<Rightarrow> id20 \<Rightarrow> ktable_hash_peer \<Rightarrow> bool" where
  "hash_rejected t h p \<longleftrightarrow> map_option fst (kt_put_hash t h [p]) = Some Rejected"

lemma ktable_put_hash_found:
  assumes "kt_ok t" and "kt_batch_command clock [PutHash h [p]] t = Some t'"
  shows "if hash_rejected t h p then t' = t
    else (\<exists>hash. kc_hash (kt_core t') h = Some hash
           \<and> \<lparr>hp_addr = normalize_addr (hp_addr p)\<rparr> \<in> set (kh_peers hash))"
proof -
  obtain r where r: "kt_put_hash t h [p] = Some (r, t')" "kc_put_hash (kt_core t) h [p] = Some (r, kt_core t')"
    using assms(2) kt_put_hash_spec [OF assms(1), of h "[p]"] by auto
  have "t' = t\<lparr>kt_core := kt_core t'\<rparr>"
    using r(1) by (simp only: kt_put_hash_def r(2) option.map prod.case option.inject prod.inject)
  moreover have "if r = Rejected then kt_core t' = kt_core t
    else (\<exists>hash. kc_hash (kt_core t') = (kc_hash (kt_core t))(h \<mapsto> hash)
           \<and> set (kh_peers hash) = ran (announced [p] (known_peers (kt_core t) h)))"
    using kc_put_hash_found [OF kt_okD(1) [OF assms(1)] r(2)] by (cases "r = Rejected") auto
  moreover have "\<lparr>hp_addr = normalize_addr (hp_addr p)\<rparr> \<in> ran (announced [p] m)" for m
    by (rule ranI [of _ "from_socket_addr (hp_addr p)"]) (simp add: announced_def)
  moreover have "hash_rejected t h p \<longleftrightarrow> r = Rejected"
    by (simp add: hash_rejected_def r(1))
  ultimately show ?thesis
    by (cases "r = Rejected") auto
qed

lemma ktable_sample_nodes:
  "kt_ok t \<Longrightarrow> set (ks_nodes (kt_sample_hashes_and_nodes t)) \<subseteq> live_handles t"
  using kt_values_live(1) [of t]
  by (auto simp: kt_sample_hashes_and_nodes_def Let_def dest!: in_set_takeD)

interpretation ktb: responder_backend "ktable_backend clock" kt_ok live_nodes hash_rejected
proof unfold_locales
  fix t :: ktable and i
  assume ok: "kt_ok t"
  show "\<exists>ns. dt_closest_nodes (ktable_backend clock) t i = Some ns \<and> set ns \<subseteq> live_nodes t"
    using ktable_closest [OF ok, of i] by (auto simp: ktable_backend_def kt_closest_nodes_def)
  show "\<exists>l. dt_get_hash_or_closest_nodes (ktable_backend clock) t i = Some l
      \<and> (\<forall>ns. l = LookupClosestNodes ns \<longrightarrow> set ns \<subseteq> live_nodes t)"
    using ktable_closest [OF ok, of i]
    by (cases "kc_hash (kt_core t) i")
      (auto simp: ktable_backend_def kt_get_hash_or_closest_nodes_def kc_get_hash_or_closest_nodes_def)
  show "set (ds_nodes (dt_sample_hashes_and_nodes (ktable_backend clock) t)) \<subseteq> live_nodes t"
    using ktable_sample_nodes [OF ok] by (auto simp: ktable_backend_def Let_def live_nodes_def)
next
  fix t t' :: ktable and cs h p
  assume ok: "kt_ok t"
  show "\<exists>s'. dt_batch_command (ktable_backend clock) cs t = Some s' \<and> kt_ok s'"
    using kt_batch_command_ok [OF ok, of clock cs] by (auto simp: ktable_backend_def)
  show "if hash_rejected t h p then t' = t
    else (\<exists>ps. dt_get_hash_or_closest_nodes (ktable_backend clock) t' h = Some (LookupFound ps)
      \<and> \<lparr>hp_addr = normalize_addr (hp_addr p)\<rparr> \<in> set ps)"
    if "dt_batch_command (ktable_backend clock) [PutHash h [p]] t = Some t'"
    using ktable_put_hash_found [OF ok, of clock h p t'] that
    by (auto simp: ktable_backend_def kt_get_hash_or_closest_nodes_def kc_get_hash_or_closest_nodes_def split: if_splits)
qed (simp add: ktable_backend_def)


section \<open>Properties\<close>

lemma kt_batch_command_append:
  "kt_batch_command clock (xs @ ys) t = Option.bind (kt_batch_command clock xs t) (kt_batch_command clock ys)"
  by (induction xs arbitrary: t) (simp_all split: bind_splits)

lemma ktable_backend_batch [simp]: "dt_batch_command (ktable_backend clock) = kt_batch_command clock"
  by (simp add: ktable_backend_def)

text \<open>
  (C22)
  The responder over the shared table is total, and queries write through the table's commands
  only: after any history of commands every query returns without a panic, and the table it leaves
  is the one the history reaches when it is extended by the \<open>PutHash\<close> of an accepted announcement,
  and by nothing for every other query.
\<close>

theorem responder_history_safe:
  "\<exists>t res t'. kt_batch_command clock commands (kt_new origin) = Some t
    \<and> respond dg (ktable_backend clock) r source message t = Some (res, t')
    \<and> kt_batch_command clock (commands @ issued_commands dg r source message) (kt_new origin) = Some t'"
proof -
  obtain t where t: "kt_batch_command clock commands (kt_new origin) = Some t" "kt_ok t"
    using kt_history by blast
  from ktb.respond_total [OF t(2), where clock = clock and dg = dg and r = r and source = source and message = message] t(1) show ?thesis
    by (auto simp: kt_batch_command_append)
qed



definition example_args :: "bytes \<Rightarrow> message_args" where
  "example_args token =
     \<lparr>ma_id = id20_ZERO, ma_info_hash = Some (Id20 (replicate 20 1)), ma_target = None,
      ma_token = token, ma_port = Some 6881, ma_implied_port = False, ma_want = None,
      ma_no_seed = 0, ma_scrape = 0\<rparr>"

definition example_query :: "string \<Rightarrow> bytes \<Rightarrow> krpc_message" where
  "example_query method token =
     \<lparr>km_transaction_id = bstr ''aa'', km_message_type = bstr ''q'', km_query = bstr method,
      km_args = Some (example_args token), km_response = None, km_error = None,
      km_observed_addr = None, km_read_only = False, km_client_id = []\<rparr>"

definition example_responder :: dht_responder where
  "example_responder =
     \<lparr>dr_local_id = id20_ZERO, dr_token_secret = replicate 20 7, dr_sample_infohashes_interval = 60\<rparr>"

definition example_digests :: digests where
  "example_digests = \<lparr>dg_md5 = \<lambda>bs. take 16 bs, dg_hex_encode = \<lambda>bs. concat (map u8_to_dec bs)\<rparr>"

lemma example_simps [simp]:
  "km_query (example_query method token) = bstr method" "km_args (example_query method token) = Some (example_args token)"
  "ma_info_hash (example_args token) = Some (Id20 (replicate 20 1))" "ma_id (example_args token) = id20_ZERO"
  "ma_token (example_args token) = token" "dr_local_id example_responder = id20_ZERO"
  "dr_token_secret example_responder = replicate 20 7"
  by (simp_all add: example_query_def example_args_def example_responder_def)


end
