(* ===== verification/Counters.thy ===== *)
theory Counters
  imports Prelude
begin

text \<open>
  The saturating 64-bit counters of the statistics. The compare-and-swap loop of the source adds in
  one step; its retries do not show.
\<close>

definition u64_saturating_add :: "u64 \<Rightarrow> u64 \<Rightarrow> u64" where
  "u64_saturating_add a b = (if unat a + unat b < 2 ^ 64 then a + b else - 1)"

definition add_saturating :: "u64 \<Rightarrow> nat \<Rightarrow> u64" where
  "add_saturating counter n = u64_saturating_add counter (of_nat n)"

definition increment_saturating :: "u64 \<Rightarrow> u64" where
  "increment_saturating counter = u64_saturating_add counter 1"

text \<open>A counter that saturates shows a number of events.\<close>

definition saturated :: "nat \<Rightarrow> u64" where
  "saturated n = (if n < 2 ^ 64 then word_of_nat n else - 1)"

lemma unat_u64_max: "unat (- 1 :: u64) = 2 ^ 64 - 1"
  by (simp add: unsigned_minus_1_eq_mask mask_eq_exp_minus_1)

lemma unat_saturated: "unat (saturated n) = min n (2 ^ 64 - 1)"
  by (auto simp: saturated_def unat_u64_max unat_of_nat take_bit_nat_eq_self min_def)

lemma unat_saturating_add: "unat (u64_saturating_add a b) = min (unat a + unat b) (2 ^ 64 - 1)"
  by (auto simp: u64_saturating_add_def unat_u64_max unat_word_ariths min_def)

lemma saturating_add_saturated: "u64_saturating_add (saturated a) (saturated b) = saturated (a + b)"
  by (simp add: word_unat_eq_iff unat_saturated unat_saturating_add)

lemma saturated_simps: "saturated 0 = 0" "increment_saturating (saturated n) = saturated (Suc n)"
proof -
  have "saturated 1 = 1" by (simp add: saturated_def)
  then show "increment_saturating (saturated n) = saturated (Suc n)"
    using saturating_add_saturated [of n 1] by (simp add: increment_saturating_def)
qed (simp add: saturated_def)

text \<open>An addition that stays in range is exact.\<close>

lemma unat_add_saturating:
  assumes "unat a + n < 2 ^ 64"
  shows "unat (add_saturating a n) = unat a + n"
proof -
  have "unat (of_nat n :: u64) = n"
    using assms by (simp add: unat_of_nat take_bit_nat_eq_self)
  with assms show ?thesis
    by (simp add: add_saturating_def unat_saturating_add)
qed

lemma unat_increment_saturating:
  assumes "unat a + 1 < 2 ^ 64"
  shows "unat (increment_saturating a) = unat a + 1"
  using assms by (simp add: increment_saturating_def unat_saturating_add)

end
