(* ===== verification/Discovery.thy ===== *)
theory Discovery
  imports Node_Table Mpsc Counters
begin

text \<open>
  \<open>bitmagnet-dht/src/dht_discovery.rs\<close>: the bounded hand-over of discovered nodes and its
  counters. The channel of the \<open>tokio\<close> crate, with reserved slots, is an argument; \<open>'p\<close> is its
  permit. The sender, the receiver and the permits share one state: the channel, the counters and
  the flag of the receiver.
\<close>

section \<open>Counters\<close>

record ('m, 'ch, 'p) permit_mpsc = "('m, 'ch) mpsc" +
  mp_reserve_owned :: "'ch \<Rightarrow> ('p \<times> 'ch) option"
  mp_permit_send :: "'m \<Rightarrow> 'p \<Rightarrow> 'ch \<Rightarrow> 'ch"
  mp_permit_drop :: "'p \<Rightarrow> 'ch \<Rightarrow> 'ch"
  mp_close :: "'ch \<Rightarrow> 'ch"

datatype dht_discovery_offer = OfferQueued | OfferFullDropped | OfferReceiverClosed

record dht_discovery_stats =
  dd_offered :: u64
  dd_queued :: u64
  dd_full_dropped :: u64
  dd_receiver_closed_dropped :: u64

record 'ch dht_discovery =
  di_channel :: 'ch
  di_stats :: dht_discovery_stats
  di_receiver_alive :: bool

definition dht_discovery_channel :: "(routing_node, 'ch, 'p) permit_mpsc \<Rightarrow> nat \<Rightarrow> 'ch dht_discovery" where
  "dht_discovery_channel mp capacity =
     \<lparr>di_channel = mp_channel mp capacity,
      di_stats = \<lparr>dd_offered = 0, dd_queued = 0, dd_full_dropped = 0, dd_receiver_closed_dropped = 0\<rparr>,
      di_receiver_alive = True\<rparr>"

definition count_offered :: "dht_discovery_stats \<Rightarrow> dht_discovery_stats" where
  "count_offered s = s\<lparr>dd_offered := increment_saturating (dd_offered s)\<rparr>"

definition count_queued :: "dht_discovery_stats \<Rightarrow> dht_discovery_stats" where
  "count_queued s = s\<lparr>dd_queued := increment_saturating (dd_queued s)\<rparr>"

definition count_full_dropped :: "dht_discovery_stats \<Rightarrow> dht_discovery_stats" where
  "count_full_dropped s = s\<lparr>dd_full_dropped := increment_saturating (dd_full_dropped s)\<rparr>"

definition count_receiver_closed :: "dht_discovery_stats \<Rightarrow> dht_discovery_stats" where
  "count_receiver_closed s =
     s\<lparr>dd_receiver_closed_dropped := increment_saturating (dd_receiver_closed_dropped s)\<rparr>"

section \<open>Operations\<close>

definition offer ::
  "(routing_node, 'ch, 'p) permit_mpsc \<Rightarrow> routing_node \<Rightarrow> 'ch dht_discovery \<Rightarrow> dht_discovery_offer \<times> 'ch dht_discovery" where
  "offer mp node d =
     (let d = d\<lparr>di_stats := count_offered (di_stats d)\<rparr>;
          (result, channel) = mp_try_send mp node (di_channel d);
          d = d\<lparr>di_channel := channel\<rparr>
      in (case result of
            SendOk \<Rightarrow> (OfferQueued, d\<lparr>di_stats := count_queued (di_stats d)\<rparr>)
          | SendFull \<Rightarrow> (OfferFullDropped, d\<lparr>di_stats := count_full_dropped (di_stats d)\<rparr>)
          | SendClosed \<Rightarrow> (OfferReceiverClosed, d\<lparr>di_stats := count_receiver_closed (di_stats d)\<rparr>)))"

text \<open>\<open>reserve\<close> once its wait is over; \<open>None\<close> is the error \<open>ReceiverClosed\<close>.\<close>

definition reserve ::
  "(routing_node, 'ch, 'p) permit_mpsc \<Rightarrow> 'ch dht_discovery \<Rightarrow> ('p \<times> 'ch dht_discovery) option" where
  "reserve mp d = map_option (\<lambda>(permit, channel). (permit, d\<lparr>di_channel := channel\<rparr>)) (mp_reserve_owned mp (di_channel d))"

definition permit_deliver ::
  "(routing_node, 'ch, 'p) permit_mpsc \<Rightarrow> 'p \<Rightarrow> routing_node \<Rightarrow> 'ch dht_discovery
   \<Rightarrow> dht_discovery_offer \<times> 'ch dht_discovery" where
  "permit_deliver mp permit node d =
     (let d = d\<lparr>di_stats := count_offered (di_stats d)\<rparr>
      in if di_receiver_alive d
         then (OfferQueued, d\<lparr>di_channel := mp_permit_send mp node permit (di_channel d),
                              di_stats := count_queued (di_stats d)\<rparr>)
         else (OfferReceiverClosed, d\<lparr>di_channel := mp_permit_drop mp permit (di_channel d),
                                      di_stats := count_receiver_closed (di_stats d)\<rparr>))"

definition permit_abandon ::
  "(routing_node, 'ch, 'p) permit_mpsc \<Rightarrow> 'p \<Rightarrow> 'ch dht_discovery \<Rightarrow> 'ch dht_discovery" where
  "permit_abandon mp permit d = d\<lparr>di_channel := mp_permit_drop mp permit (di_channel d)\<rparr>"

definition discovery_try_recv ::
  "(routing_node, 'ch, 'p) permit_mpsc \<Rightarrow> 'ch dht_discovery \<Rightarrow> routing_node option \<times> 'ch dht_discovery" where
  "discovery_try_recv mp d =
     (let (node, channel) = mp_try_recv mp (di_channel d) in (node, d\<lparr>di_channel := channel\<rparr>))"

definition discovery_close :: "(routing_node, 'ch, 'p) permit_mpsc \<Rightarrow> 'ch dht_discovery \<Rightarrow> 'ch dht_discovery" where
  "discovery_close mp d = d\<lparr>di_channel := mp_close mp (di_channel d)\<rparr>"

definition discovery_drop_receiver ::
  "(routing_node, 'ch, 'p) permit_mpsc \<Rightarrow> 'ch dht_discovery \<Rightarrow> 'ch dht_discovery" where
  "discovery_drop_receiver mp d =
     d\<lparr>di_receiver_alive := False, di_channel := mp_drop_receiver mp (di_channel d)\<rparr>"

section \<open>Steps\<close>

inductive discovery_step ::
  "(routing_node, 'ch, 'p) permit_mpsc \<Rightarrow> 'ch dht_discovery \<Rightarrow> 'ch dht_discovery \<Rightarrow> bool"
  for mp where
  offered: "discovery_step mp d (snd (offer mp node d))"
| reserved: "reserve mp d = Some (permit, d') \<Longrightarrow> discovery_step mp d d'"
| delivered: "discovery_step mp d (snd (permit_deliver mp permit node d))"
| abandoned: "discovery_step mp d (permit_abandon mp permit d)"
| received: "discovery_step mp d (snd (discovery_try_recv mp d))"
| closed: "discovery_step mp d (discovery_close mp d)"
| dropped: "discovery_step mp d (discovery_drop_receiver mp d)"

section \<open>The counters add up\<close>

text \<open>The numbers of queued, dropped and refused nodes explain the four counters.\<close>

definition stats_explained :: "dht_discovery_stats \<Rightarrow> bool" where
  "stats_explained s \<longleftrightarrow>
     (\<exists>queued full closed. s = \<lparr>dd_offered = saturated (queued + full + closed), dd_queued = saturated queued,
        dd_full_dropped = saturated full, dd_receiver_closed_dropped = saturated closed\<rparr>)"

lemma stats_explained_steps:
  assumes "stats_explained s"
  shows "stats_explained (count_queued (count_offered s))"
    and "stats_explained (count_full_dropped (count_offered s))"
    and "stats_explained (count_receiver_closed (count_offered s))"
proof -
  obtain a b c where s: "s = \<lparr>dd_offered = saturated (a + b + c), dd_queued = saturated a,
        dd_full_dropped = saturated b, dd_receiver_closed_dropped = saturated c\<rparr>"
    using assms unfolding stats_explained_def by blast
  show "stats_explained (count_queued (count_offered s))"
    unfolding stats_explained_def
    by (rule exI [of _ "Suc a"], rule exI [of _ b], rule exI [of _ c])
      (simp add: s count_queued_def count_offered_def saturated_simps)
  show "stats_explained (count_full_dropped (count_offered s))"
    unfolding stats_explained_def
    by (rule exI [of _ a], rule exI [of _ "Suc b"], rule exI [of _ c])
      (simp add: s count_full_dropped_def count_offered_def saturated_simps)
  show "stats_explained (count_receiver_closed (count_offered s))"
    unfolding stats_explained_def
    by (rule exI [of _ a], rule exI [of _ b], rule exI [of _ "Suc c"])
      (simp add: s count_receiver_closed_def count_offered_def saturated_simps)
qed

lemma discovery_step_explained:
  assumes "discovery_step mp d d'" and "stats_explained (di_stats d)"
  shows "stats_explained (di_stats d')"
  using assms
  by cases
    (auto simp: offer_def reserve_def permit_deliver_def permit_abandon_def discovery_try_recv_def
      discovery_close_def discovery_drop_receiver_def Let_def stats_explained_steps
      split: try_send_result.splits prod.splits)

text \<open>
  The discovery counters add up at every moment between operations, also when they saturate: the
  offers are the saturating sum of the nodes queued, dropped for lack of room and refused by a
  closed receiver, whatever the channel does.
\<close>

theorem discovery_counters_add_up:
  assumes "(discovery_step mp)\<^sup>*\<^sup>* (dht_discovery_channel mp capacity) d"
  shows "dd_offered (di_stats d) =
    u64_saturating_add (u64_saturating_add (dd_queued (di_stats d)) (dd_full_dropped (di_stats d)))
      (dd_receiver_closed_dropped (di_stats d))"
proof -
  have "stats_explained (di_stats (dht_discovery_channel mp capacity))"
    unfolding stats_explained_def
    by (rule exI [of _ 0], rule exI [of _ 0], rule exI [of _ 0]) (simp add: dht_discovery_channel_def saturated_simps)
  with assms have "stats_explained (di_stats d)"
    by induction (auto intro: discovery_step_explained)
  then show ?thesis
    by (auto simp: stats_explained_def saturating_add_saturated)
qed

definition example_permits :: "(routing_node, routing_node fifo, unit) permit_mpsc" where
  "example_permits =
     \<lparr>mp_channel = fifo_new, mp_try_send = fifo_try_send, mp_try_recv = fifo_try_recv,
      mp_drop_receiver = fifo_drop_receiver, mp_reserve_owned = \<lambda>c. None,
      mp_permit_send = \<lambda>_ _ c. c, mp_permit_drop = \<lambda>_ c. c, mp_close = \<lambda>c. c\<rparr>"

theorem discovery_counters_add_up_witness:
  "\<exists>d. (discovery_step example_permits)\<^sup>*\<^sup>* (dht_discovery_channel example_permits 1) d
     \<and> dd_offered (di_stats d) = 2 \<and> u64_saturating_add 1 1 = (2 :: u64)
     \<and> u64_saturating_add (u64_saturating_add (dd_queued (di_stats d)) (dd_full_dropped (di_stats d)))
         (dd_receiver_closed_dropped (di_stats d)) = 2"
proof -
  let ?node = "\<lparr>rn_id = id20_ZERO, rn_addr = SocketV4 (Ipv4Addr 10 0 0 1) 6881\<rparr>"
  let ?d0 = "dht_discovery_channel example_permits 1"
  let ?d1 = "snd (offer example_permits ?node ?d0)"
  let ?d2 = "snd (offer example_permits ?node ?d1)"
  have run: "(discovery_step example_permits)\<^sup>*\<^sup>* ?d0 ?d2"
    by (meson discovery_step.offered rtranclp.rtrancl_into_rtrancl rtranclp.rtrancl_refl)
  have "dd_offered (di_stats ?d2) = 2"
    by (simp add: offer_def dht_discovery_channel_def example_permits_def fifo_new_def fifo_try_send_def Let_def
        count_offered_def count_queued_def count_full_dropped_def increment_saturating_def u64_saturating_add_def)
  with run discovery_counters_add_up [OF run] show ?thesis
    by (intro exI [of _ ?d2]) (simp add: u64_saturating_add_def)
qed

end
