(* ===== verification/Inbound.thy ===== *)
theory Inbound
  imports Krpc
begin

text \<open>
  \<open>bitmagnet-dht/src/inbound.rs\<close>: the bounded decoder for untrusted datagrams. The cursor over
  the fixed input is a record of its offset and its value count. A parser returns a value with
  the new cursor (\<open>Ok\<close>), an error of the source (\<open>Err\<close>), or \<open>Fault\<close>, which stands for a
  panic and for a loop round that does not advance the cursor; it is shown never to occur.
\<close>

section \<open>Limits, errors and cursors\<close>

abbreviation MAX_INBOUND_DATAGRAM_BYTES :: nat where
  "MAX_INBOUND_DATAGRAM_BYTES \<equiv> 65507"

abbreviation MAX_INBOUND_NESTING_DEPTH :: nat where
  "MAX_INBOUND_NESTING_DEPTH \<equiv> 8"

abbreviation MAX_INBOUND_VALUES :: nat where
  "MAX_INBOUND_VALUES \<equiv> 32768"

datatype inbound_limit_kind = DatagramBytes | NestingDepth | ValueCount

datatype inbound_syntax_kind =
  UnexpectedEnd
| UnexpectedValueType
| InvalidByteStringLength
| InvalidInteger
| MissingDictionaryValue
| NonCanonicalUnknownDictionary
| TrailingData

datatype inbound_shape_kind =
  ShapeDictionary
| ShapeByteString
| ShapeInteger
| ShapeList
| ShapeBoolean
| ShapeErrorValue

datatype inbound_error =
  Limit inbound_limit_kind nat nat nat \<comment> \<open>offset, actual, limit\<close>
| Syntax inbound_syntax_kind nat
| Shape string inbound_shape_kind nat
| InboundCompact nat compact_codec_error
| InboundScrapeBloom nat scrape_bloom_error
| Unsupported string nat

record cursor =
  cu_offset :: nat
  cu_values :: nat

datatype 'a outcome = Ok 'a cursor | Err inbound_error | Fault

fun pbind :: "'a outcome \<Rightarrow> ('a \<Rightarrow> cursor \<Rightarrow> 'b outcome) \<Rightarrow> 'b outcome" where
  "pbind (Ok x cur) f = f x cur"
| "pbind (Err e) f = Err e"
| "pbind Fault f = Fault"

text \<open>A fallible conversion of a parsed value.\<close>

definition lift_result :: "('e \<Rightarrow> inbound_error) \<Rightarrow> 'e + 'a \<Rightarrow> cursor \<Rightarrow> 'a outcome" where
  "lift_result f r cur = (case r of Inl e \<Rightarrow> Err (f e) | Inr x \<Rightarrow> Ok x cur)"

abbreviation usize_limit :: nat where
  "usize_limit \<equiv> 2 ^ 64"

abbreviation byte_char :: "char \<Rightarrow> u8" where
  "byte_char c \<equiv> of_char c"

definition byte_at :: "bytes \<Rightarrow> nat \<Rightarrow> u8 option" where
  "byte_at input i = (if i < length input then Some (input ! i) else None)"

definition slice :: "bytes \<Rightarrow> nat \<Rightarrow> nat \<Rightarrow> bytes" where
  "slice input a b = take (b - a) (drop a input)"

definition is_ascii_digit :: "u8 \<Rightarrow> bool" where
  "is_ascii_digit b \<longleftrightarrow> 48 \<le> b \<and> b \<le> 57"

text \<open>The end of \<open>while input.get(offset).is_some_and(p) { offset += 1 }\<close>.\<close>

definition scan_while :: "(u8 \<Rightarrow> bool) \<Rightarrow> bytes \<Rightarrow> nat \<Rightarrow> nat" where
  "scan_while p input i = i + length (takeWhile p (drop i input))"

fun parse_decimal_usize :: "nat \<Rightarrow> bytes \<Rightarrow> nat option" where
  "parse_decimal_usize acc [] = Some acc"
| "parse_decimal_usize acc (b # bs) =
     (if acc * 10 \<ge> usize_limit then None
      else if b < 48 then None
      else if acc * 10 + unat (b - 48) \<ge> usize_limit then None
      else parse_decimal_usize (acc * 10 + unat (b - 48)) bs)"

definition strip_minus :: "bytes \<Rightarrow> bytes" where
  "strip_minus raw = (case raw of b # bs \<Rightarrow> if b = 45 then bs else raw | [] \<Rightarrow> raw)"

definition valid_generic_integer :: "bytes \<Rightarrow> bool" where
  "valid_generic_integer raw \<longleftrightarrow>
     (let digits = strip_minus raw
      in digits \<noteq> [] \<and> list_all is_ascii_digit digits
         \<and> (length digits = 1 \<or> hd digits \<noteq> 48)
         \<and> \<not> (raw \<noteq> [] \<and> hd raw = 45 \<and> digits = [48]))"

section \<open>Tokens\<close>

definition unexpected_end :: "cursor \<Rightarrow> inbound_error" where
  "unexpected_end cur = Syntax UnexpectedEnd (cu_offset cur)"

definition begin_value :: "bytes \<Rightarrow> cursor \<Rightarrow> nat outcome" where
  "begin_value input cur =
     (if cu_offset cur \<ge> length input then Err (unexpected_end cur)
      else if cu_values cur + 1 > MAX_INBOUND_VALUES
      then Err (Limit ValueCount (cu_offset cur) (cu_values cur + 1) MAX_INBOUND_VALUES)
      else Ok (cu_offset cur) (cur\<lparr>cu_values := cu_values cur + 1\<rparr>))"

definition peek :: "bytes \<Rightarrow> cursor \<Rightarrow> u8 outcome" where
  "peek input cur =
     (case byte_at input (cu_offset cur) of None \<Rightarrow> Err (unexpected_end cur) | Some b \<Rightarrow> Ok b cur)"

definition end_container :: "bytes \<Rightarrow> cursor \<Rightarrow> bool outcome" where
  "end_container input cur =
     (case byte_at input (cu_offset cur) of
        None \<Rightarrow> Err (unexpected_end cur)
      | Some b \<Rightarrow>
          if b = byte_char CHR ''e'' then Ok True (cur\<lparr>cu_offset := cu_offset cur + 1\<rparr>)
          else Ok False cur)"

definition require_dictionary_value :: "bytes \<Rightarrow> cursor \<Rightarrow> unit outcome" where
  "require_dictionary_value input cur =
     (case byte_at input (cu_offset cur) of
        None \<Rightarrow> Err (unexpected_end cur)
      | Some b \<Rightarrow>
          if b = byte_char CHR ''e'' then Err (Syntax MissingDictionaryValue (cu_offset cur))
          else Ok () cur)"

definition start_container ::
  "bytes \<Rightarrow> string \<Rightarrow> inbound_shape_kind \<Rightarrow> u8 \<Rightarrow> nat \<Rightarrow> cursor \<Rightarrow> unit outcome" where
  "start_container input field expected token depth cur =
     pbind (begin_value input cur) (\<lambda>offset cur.
       if depth > MAX_INBOUND_NESTING_DEPTH
       then Err (Limit NestingDepth offset depth MAX_INBOUND_NESTING_DEPTH)
       else if byte_at input (cu_offset cur) \<noteq> Some token then Err (Shape field expected offset)
       else Ok () (cur\<lparr>cu_offset := cu_offset cur + 1\<rparr>))"

definition start_dictionary :: "bytes \<Rightarrow> string \<Rightarrow> nat \<Rightarrow> cursor \<Rightarrow> unit outcome" where
  "start_dictionary input field depth cur =
     start_container input field ShapeDictionary (byte_char CHR ''d'') depth cur"

definition start_list :: "bytes \<Rightarrow> string \<Rightarrow> nat \<Rightarrow> cursor \<Rightarrow> unit outcome" where
  "start_list input field depth cur =
     start_container input field ShapeList (byte_char CHR ''l'') depth cur"

definition parse_raw_bytes :: "bytes \<Rightarrow> cursor \<Rightarrow> bytes outcome" where
  "parse_raw_bytes input cur =
     pbind (begin_value input cur) (\<lambda>offset cur.
       let length_start = cu_offset cur;
           colon = scan_while is_ascii_digit input length_start
       in if byte_at input colon \<noteq> Some (byte_char CHR '':'')
          then Err (Syntax InvalidByteStringLength length_start)
          else case parse_decimal_usize 0 (slice input length_start colon) of
                 None \<Rightarrow> Err (Syntax InvalidByteStringLength offset)
               | Some len \<Rightarrow>
                   let start = colon + 1
                   in if start + len \<ge> usize_limit then Err (Syntax InvalidByteStringLength offset)
                      else if start + len > length input then Err (Syntax UnexpectedEnd start)
                      else Ok (slice input start (start + len)) (cur\<lparr>cu_offset := start + len\<rparr>))"

definition parse_bytes :: "bytes \<Rightarrow> string \<Rightarrow> cursor \<Rightarrow> (nat \<times> bytes) outcome" where
  "parse_bytes input field cur =
     pbind (begin_value input cur) (\<lambda>offset cur.
       case byte_at input (cu_offset cur) of
         None \<Rightarrow> Err (unexpected_end cur)
       | Some first \<Rightarrow>
           if \<not> is_ascii_digit first then Err (Shape field ShapeByteString offset)
           else
             let length_start = cu_offset cur;
                 colon = scan_while is_ascii_digit input length_start;
                 length_bytes = slice input length_start colon
             in if byte_at input colon \<noteq> Some (byte_char CHR '':'')
                then Err (Syntax InvalidByteStringLength length_start)
                else if length length_bytes > 1 \<and> hd length_bytes = 48
                then Err (Syntax InvalidByteStringLength length_start)
                else case parse_decimal_usize 0 length_bytes of
                       None \<Rightarrow> Err (Syntax InvalidByteStringLength length_start)
                     | Some len \<Rightarrow>
                         let start = colon + 1
                         in if start + len \<ge> usize_limit
                            then Err (Syntax InvalidByteStringLength length_start)
                            else if start + len > length input then Err (Syntax UnexpectedEnd start)
                            else Ok (offset, slice input start (start + len))
                                   (cur\<lparr>cu_offset := start + len\<rparr>))"

definition parse_integer_raw :: "bytes \<Rightarrow> cursor \<Rightarrow> (nat \<times> bytes) outcome" where
  "parse_integer_raw input cur =
     pbind (begin_value input cur) (\<lambda>offset cur.
       if byte_at input (cu_offset cur) \<noteq> Some (byte_char CHR ''i'')
       then Err (Shape ''integer'' ShapeInteger offset)
       else
         let start = cu_offset cur + 1;
             stop = scan_while (\<lambda>b. b \<noteq> byte_char CHR ''e'') input start
         in if byte_at input stop \<noteq> Some (byte_char CHR ''e'') then Err (Syntax UnexpectedEnd stop)
            else
              let raw = slice input start stop;
                  cur = cur\<lparr>cu_offset := stop + 1\<rparr>
              in if length raw > 1
                    \<and> (case strip_minus raw of [] \<Rightarrow> True | b # _ \<Rightarrow> \<not> (49 \<le> b \<and> b \<le> 57))
                 then Err (Syntax InvalidInteger offset)
                 else Ok (offset, raw) cur)"

definition parse_integer :: "bytes \<Rightarrow> string \<Rightarrow> cursor \<Rightarrow> (nat \<times> i64) outcome" where
  "parse_integer input field cur =
     pbind (parse_integer_raw input cur) (\<lambda>(offset, raw) cur.
       if \<not> valid_generic_integer raw then Err (Syntax InvalidInteger offset)
       else case parse_i64 raw of
              None \<Rightarrow> Err (Shape field ShapeInteger offset)
            | Some v \<Rightarrow> Ok (offset, v) cur)"

section \<open>Containers\<close>

text \<open>
  \<open>while !self.end_container()? { body }\<close>. A round of the body that does not advance the cursor
  would be repeated forever; it is a \<open>Fault\<close>.
\<close>

function while_not_end ::
  "bytes \<Rightarrow> (cursor \<Rightarrow> 's \<Rightarrow> 's outcome) \<Rightarrow> cursor \<Rightarrow> 's \<Rightarrow> 's outcome" where
  "while_not_end input body cur s =
     (case end_container input cur of
        Err e \<Rightarrow> Err e
      | Fault \<Rightarrow> Fault
      | Ok ended cur1 \<Rightarrow>
          if ended then Ok s cur1
          else (case body cur1 s of
                  Err e \<Rightarrow> Err e
                | Fault \<Rightarrow> Fault
                | Ok s2 cur2 \<Rightarrow>
                    if cu_offset cur2 \<le> cu_offset cur then Fault
                    else while_not_end input body cur2 s2))"
  by pat_completeness auto
termination
  by (relation "measure (\<lambda>(input, body, cur, s). length input - cu_offset cur)")
    (auto simp: end_container_def byte_at_def split: option.splits if_splits)

declare while_not_end.simps [simp del]

lemma start_container_depth:
  "start_container input field expected token depth cur = Ok u cur1 \<Longrightarrow> depth \<le> MAX_INBOUND_NESTING_DEPTH"
  by (cases "begin_value input cur") (auto simp: start_container_def split: if_splits)

lemma start_depth:
  "start_list input field depth cur = Ok u cur1 \<Longrightarrow> depth \<le> MAX_INBOUND_NESTING_DEPTH"
  "start_dictionary input field depth cur = Ok u cur1 \<Longrightarrow> depth \<le> MAX_INBOUND_NESTING_DEPTH"
  by (simp_all only: start_list_def start_dictionary_def start_container_depth)

text \<open>The number of container levels still allowed; the parsers recurse on it.\<close>

abbreviation levels :: "nat \<Rightarrow> nat" where
  "levels depth \<equiv> MAX_INBOUND_NESTING_DEPTH + 1 - depth"

function parse_scalar_bytes :: "bytes \<Rightarrow> string \<Rightarrow> nat \<Rightarrow> cursor \<Rightarrow> (nat \<times> bytes) outcome" where
  "parse_scalar_bytes input field depth cur =
     pbind (peek input cur) (\<lambda>b _.
       if b \<noteq> byte_char CHR ''l'' then parse_bytes input field cur
       else
         (case start_list input field depth cur of
            Err e \<Rightarrow> Err e
          | Fault \<Rightarrow> Fault
          | Ok u cur1 \<Rightarrow>
              pbind (while_not_end input
                (\<lambda>cur (value, count).
                   pbind (parse_scalar_bytes input field (depth + 1) cur) (\<lambda>parsed cur.
                     Ok (if count = 0 then Some parsed else value, count + (1::nat)) cur))
                cur1 (None, 0))
              (\<lambda>(value, count) cur2.
                 if count = 1 then (case value of None \<Rightarrow> Fault | Some v \<Rightarrow> Ok v cur2)
                 else Err (Shape field ShapeByteString (cu_offset cur)))))"
  by pat_completeness auto
termination
  by (relation "measure (\<lambda>(input, field, depth, cur). levels depth)") (auto dest!: start_depth)

declare parse_scalar_bytes.simps [simp del]


function parse_scalar_integer :: "bytes \<Rightarrow> string \<Rightarrow> nat \<Rightarrow> cursor \<Rightarrow> (nat \<times> i64) outcome" where
  "parse_scalar_integer input field depth cur =
     pbind (peek input cur) (\<lambda>b _.
       if b \<noteq> byte_char CHR ''l'' then parse_integer input field cur
       else
         (case start_list input field depth cur of
            Err e \<Rightarrow> Err e
          | Fault \<Rightarrow> Fault
          | Ok u cur1 \<Rightarrow>
              pbind (while_not_end input
                (\<lambda>cur (value, count).
                   pbind (parse_scalar_integer input field (depth + 1) cur) (\<lambda>parsed cur.
                     Ok (if count = 0 then Some parsed else value, count + (1::nat)) cur))
                cur1 (None, 0))
              (\<lambda>(value, count) cur2.
                 if count = 1 then (case value of None \<Rightarrow> Fault | Some v \<Rightarrow> Ok v cur2)
                 else Err (Shape field ShapeInteger (cu_offset cur)))))"
  by pat_completeness auto
termination
  by (relation "measure (\<lambda>(input, field, depth, cur). levels depth)") (auto dest!: start_depth)

declare parse_scalar_integer.simps [simp del]

function parse_bool :: "bytes \<Rightarrow> string \<Rightarrow> nat \<Rightarrow> cursor \<Rightarrow> bool outcome" where
  "parse_bool input field depth cur =
     pbind (peek input cur) (\<lambda>b _.
       if b = byte_char CHR ''i'' then
         pbind (parse_integer_raw input cur) (\<lambda>(_, raw) cur. Ok (raw \<noteq> [48]) cur)
       else if is_ascii_digit b then
         pbind (parse_bytes input field cur) (\<lambda>(_, raw) cur. Ok (go_bool_of_bytes raw) cur)
       else if b = byte_char CHR ''l'' then
         (case start_list input field depth cur of
            Err e \<Rightarrow> Err e
          | Fault \<Rightarrow> Fault
          | Ok u cur1 \<Rightarrow>
              pbind (while_not_end input
                (\<lambda>cur (first, count).
                   pbind (parse_bool input field (depth + 1) cur) (\<lambda>v cur.
                     Ok (if count = 0 then v else first, count + (1::nat)) cur))
                cur1 (False, 0))
              (\<lambda>(first, count) cur.
                 if count = 1 then Ok first cur
                 else Err (Shape field ShapeBoolean (cu_offset cur - 1))))
       else Err (Shape field ShapeBoolean (cu_offset cur)))"
  by pat_completeness auto
termination
  by (relation "measure (\<lambda>(input, field, depth, cur). levels depth)") (auto dest!: start_depth)

declare parse_bool.simps [simp del]

function skip_generic :: "bytes \<Rightarrow> nat \<Rightarrow> cursor \<Rightarrow> unit outcome" where
  "skip_generic input depth cur =
     pbind (peek input cur) (\<lambda>b _.
       if is_ascii_digit b then pbind (parse_bytes input ''unknown value'' cur) (\<lambda>_. Ok ())
       else if b = byte_char CHR ''i'' then
         pbind (parse_integer_raw input cur) (\<lambda>(offset, raw) cur.
           if \<not> valid_generic_integer raw then Err (Syntax InvalidInteger offset) else Ok () cur)
       else if b = byte_char CHR ''l'' then
         (case start_list input ''unknown value'' depth cur of
            Err e \<Rightarrow> Err e
          | Fault \<Rightarrow> Fault
          | Ok u cur1 \<Rightarrow> while_not_end input (\<lambda>cur _. skip_generic input (depth + 1) cur) cur1 ())
       else if b = byte_char CHR ''d'' then
         (case start_dictionary input ''unknown value'' depth cur of
            Err e \<Rightarrow> Err e
          | Fault \<Rightarrow> Fault
          | Ok u cur1 \<Rightarrow>
              pbind (while_not_end input
                (\<lambda>cur previous.
                   pbind (parse_bytes input ''unknown dictionary key'' cur) (\<lambda>(offset, key) cur.
                     if (case previous of None \<Rightarrow> False | Some last_key \<Rightarrow> \<not> last_key < key)
                     then Err (Syntax NonCanonicalUnknownDictionary offset)
                     else pbind (require_dictionary_value input cur) (\<lambda>_ cur.
                          pbind (skip_generic input (depth + 1) cur) (\<lambda>_. Ok (Some key)))))
                cur1 None) (\<lambda>_. Ok ()))
       else Err (Syntax UnexpectedValueType (cu_offset cur)))"
  by pat_completeness auto
termination
  by (relation "measure (\<lambda>(input, depth, cur). levels depth)") (auto dest!: start_depth)

declare skip_generic.simps [simp del]

function skip_raw :: "bytes \<Rightarrow> nat \<Rightarrow> cursor \<Rightarrow> unit outcome" where
  "skip_raw input depth cur =
     pbind (peek input cur) (\<lambda>b _.
       if is_ascii_digit b then pbind (parse_raw_bytes input cur) (\<lambda>_. Ok ())
       else if b = byte_char CHR ''i'' then
         pbind (begin_value input cur) (\<lambda>_ cur.
           let stop = scan_while (\<lambda>b. b \<noteq> byte_char CHR ''e'') input (cu_offset cur + 1)
           in if byte_at input stop \<noteq> Some (byte_char CHR ''e'') then Err (Syntax UnexpectedEnd stop)
              else Ok () (cur\<lparr>cu_offset := stop + 1\<rparr>))
       else if b = byte_char CHR ''l'' \<or> b = byte_char CHR ''d'' then
         (case start_container input ''raw BEP-44 value''
                 (if b = byte_char CHR ''l'' then ShapeList else ShapeDictionary) b depth cur of
            Err e \<Rightarrow> Err e
          | Fault \<Rightarrow> Fault
          | Ok u cur1 \<Rightarrow> while_not_end input (\<lambda>cur _. skip_raw input (depth + 1) cur) cur1 ())
       else Err (Syntax UnexpectedValueType (cu_offset cur)))"
  by pat_completeness auto
termination
  by (relation "measure (\<lambda>(input, depth, cur). levels depth)")
    (auto dest!: start_container_depth)

declare skip_raw.simps [simp del]

definition reject_bep44_value :: "bytes \<Rightarrow> string \<Rightarrow> nat \<Rightarrow> bool \<Rightarrow> cursor \<Rightarrow> 'a outcome" where
  "reject_bep44_value input field depth raw cur =
     pbind (if raw then skip_raw input depth cur else skip_generic input depth cur)
       (\<lambda>_ _. Err (Unsupported field (cu_offset cur)))"

definition parse_id :: "bytes \<Rightarrow> string \<Rightarrow> nat \<Rightarrow> cursor \<Rightarrow> id20 outcome" where
  "parse_id input field depth cur =
     pbind (parse_scalar_bytes input field depth cur) (\<lambda>(offset, v).
       lift_result (InboundCompact offset) (from_slice v))"

definition parse_byte_list :: "bytes \<Rightarrow> string \<Rightarrow> nat \<Rightarrow> cursor \<Rightarrow> bytes list outcome" where
  "parse_byte_list input field depth cur =
     pbind (start_list input field depth cur) (\<lambda>_ cur.
       while_not_end input
         (\<lambda>cur values. pbind (parse_scalar_bytes input field (depth + 1) cur) (\<lambda>(_, v).
            Ok (values @ [v]))) cur [])"

definition parse_addresses :: "bytes \<Rightarrow> nat \<Rightarrow> cursor \<Rightarrow> compact_addr list outcome" where
  "parse_addresses input depth cur =
     pbind (start_list input ''r.values'' depth cur) (\<lambda>_ cur.
       while_not_end input
         (\<lambda>cur values. pbind (parse_bytes input ''r.values entry'' cur) (\<lambda>(offset, v) cur.
            pbind (lift_result (InboundCompact offset) (compact_addr_decode v) cur) (\<lambda>a.
            Ok (values @ [a])))) cur [])"


section \<open>Typed dictionaries\<close>

text \<open>The body of the loop of a typed dictionary: a key, then a value chosen by the key.\<close>

definition typed_entry ::
  "bytes \<Rightarrow> string \<Rightarrow> nat \<Rightarrow> (bytes \<Rightarrow> 's \<Rightarrow> cursor \<Rightarrow> 's outcome) \<Rightarrow> cursor \<Rightarrow> 's \<Rightarrow> 's outcome" where
  "typed_entry input key_field depth field cur s =
     pbind (parse_scalar_bytes input key_field depth cur) (\<lambda>(_, key) cur.
     pbind (require_dictionary_value input cur) (\<lambda>_ cur. field key s cur))"

definition empty_args :: message_args where
  "empty_args =
     \<lparr>ma_id = id20_ZERO, ma_info_hash = None, ma_target = None, ma_token = [], ma_port = None,
      ma_implied_port = False, ma_want = None, ma_no_seed = 0, ma_scrape = 0\<rparr>"

definition args_field :: "bytes \<Rightarrow> nat \<Rightarrow> bytes \<Rightarrow> message_args \<Rightarrow> cursor \<Rightarrow> message_args outcome" where
  "args_field input d key args cur =
     (if key = bstr ''id'' then
        pbind (parse_id input ''a.id'' d cur) (\<lambda>v. Ok (args\<lparr>ma_id := v\<rparr>))
      else if key = bstr ''info_hash'' then
        pbind (parse_id input ''a.info_hash'' d cur) (\<lambda>v.
          Ok (args\<lparr>ma_info_hash := filter_opt non_zero (Some v)\<rparr>))
      else if key = bstr ''target'' then
        pbind (parse_id input ''a.target'' d cur) (\<lambda>v.
          Ok (args\<lparr>ma_target := filter_opt non_zero (Some v)\<rparr>))
      else if key = bstr ''token'' then
        pbind (parse_scalar_bytes input ''a.token'' d cur) (\<lambda>(_, v). Ok (args\<lparr>ma_token := v\<rparr>))
      else if key = bstr ''port'' then
        pbind (parse_scalar_integer input ''a.port'' d cur) (\<lambda>(_, v). Ok (args\<lparr>ma_port := Some v\<rparr>))
      else if key = bstr ''implied_port'' then
        pbind (parse_bool input ''a.implied_port'' d cur) (\<lambda>v. Ok (args\<lparr>ma_implied_port := v\<rparr>))
      else if key = bstr ''want'' then
        pbind (parse_byte_list input ''a.want'' d cur) (\<lambda>v. Ok (args\<lparr>ma_want := Some v\<rparr>))
      else if key = bstr ''noseed'' then
        pbind (parse_scalar_integer input ''a.noseed'' d cur) (\<lambda>(_, v). Ok (args\<lparr>ma_no_seed := v\<rparr>))
      else if key = bstr ''scrape'' then
        pbind (parse_scalar_integer input ''a.scrape'' d cur) (\<lambda>(_, v). Ok (args\<lparr>ma_scrape := v\<rparr>))
      else if key \<in> {bstr ''seq'', bstr ''cas''} then
        pbind (parse_scalar_integer input ''BEP-44 integer'' d cur) (\<lambda>_. Ok args)
      else if key \<in> {bstr ''k'', bstr ''salt'', bstr ''sig''} then
        pbind (parse_bytes input ''BEP-44 byte string'' cur) (\<lambda>_. Ok args)
      else if key = bstr ''v'' then reject_bep44_value input ''a.v'' d False cur
      else pbind (skip_generic input d cur) (\<lambda>_. Ok args))"

definition parse_args :: "bytes \<Rightarrow> nat \<Rightarrow> cursor \<Rightarrow> message_args outcome" where
  "parse_args input depth cur =
     pbind (start_dictionary input ''a'' depth cur) (\<lambda>_ cur.
       while_not_end input
         (typed_entry input ''a dictionary key'' (depth + 1) (args_field input (depth + 1)))
         cur empty_args)"

definition empty_message_return :: message_return where
  "empty_message_return =
     \<lparr>mr_id = id20_ZERO, mr_nodes = None, mr_nodes6 = None, mr_token = None, mr_values = None,
      mr_interval = None, mr_num = None, mr_samples = None, mr_seeders_bloom = None,
      mr_peers_bloom = None\<rparr>"

text \<open>A compact node list; an empty byte string is an absent list.\<close>

definition parse_nodes :: "bytes \<Rightarrow> string \<Rightarrow> nat \<Rightarrow> bool \<Rightarrow> cursor \<Rightarrow> compact_node list option outcome" where
  "parse_nodes input field d ipv6 cur =
     pbind (parse_scalar_bytes input field d cur) (\<lambda>(offset, v) cur.
       if v = [] then Ok None cur
       else pbind (lift_result (InboundCompact offset) (decode_nodes v ipv6) cur) (\<lambda>ns. Ok (Some ns)))"

definition parse_bloom :: "bytes \<Rightarrow> string \<Rightarrow> cursor \<Rightarrow> scrape_bloom_filter outcome" where
  "parse_bloom input field cur =
     pbind (parse_bytes input field cur) (\<lambda>(offset, v).
       lift_result (InboundScrapeBloom offset) (bloom_from_slice v))"

definition return_field :: "bytes \<Rightarrow> nat \<Rightarrow> bytes \<Rightarrow> message_return \<Rightarrow> cursor \<Rightarrow> message_return outcome" where
  "return_field input d key response cur =
     (if key = bstr ''id'' then
        pbind (parse_id input ''r.id'' d cur) (\<lambda>v. Ok (response\<lparr>mr_id := v\<rparr>))
      else if key = bstr ''nodes'' then
        pbind (parse_nodes input ''r.nodes'' d False cur) (\<lambda>v. Ok (response\<lparr>mr_nodes := v\<rparr>))
      else if key = bstr ''nodes6'' then
        pbind (parse_nodes input ''r.nodes6'' d True cur) (\<lambda>v. Ok (response\<lparr>mr_nodes6 := v\<rparr>))
      else if key = bstr ''token'' then
        pbind (parse_scalar_bytes input ''r.token'' d cur) (\<lambda>(_, v). Ok (response\<lparr>mr_token := Some v\<rparr>))
      else if key = bstr ''values'' then
        pbind (parse_addresses input d cur) (\<lambda>v. Ok (response\<lparr>mr_values := Some v\<rparr>))
      else if key = bstr ''interval'' then
        pbind (parse_scalar_integer input ''r.interval'' d cur) (\<lambda>(_, v).
          Ok (response\<lparr>mr_interval := Some v\<rparr>))
      else if key = bstr ''num'' then
        pbind (parse_scalar_integer input ''r.num'' d cur) (\<lambda>(_, v). Ok (response\<lparr>mr_num := Some v\<rparr>))
      else if key = bstr ''samples'' then
        pbind (parse_scalar_bytes input ''r.samples'' d cur) (\<lambda>(offset, v) cur.
          pbind (lift_result (InboundCompact offset) (decode_samples v) cur) (\<lambda>s.
          Ok (response\<lparr>mr_samples := Some s\<rparr>)))
      else if key = bstr ''BFsd'' then
        pbind (parse_bloom input ''r.BFsd'' cur) (\<lambda>f. Ok (response\<lparr>mr_seeders_bloom := Some f\<rparr>))
      else if key = bstr ''BFpe'' then
        pbind (parse_bloom input ''r.BFpe'' cur) (\<lambda>f. Ok (response\<lparr>mr_peers_bloom := Some f\<rparr>))
      else if key = bstr ''seq'' then
        pbind (parse_scalar_integer input ''BEP-44 seq'' d cur) (\<lambda>_. Ok response)
      else if key \<in> {bstr ''k'', bstr ''sig''} then
        pbind (parse_bytes input ''BEP-44 byte string'' cur) (\<lambda>_. Ok response)
      else if key = bstr ''v'' then reject_bep44_value input ''r.v'' d True cur
      else pbind (skip_generic input d cur) (\<lambda>_. Ok response))"

definition parse_return :: "bytes \<Rightarrow> nat \<Rightarrow> cursor \<Rightarrow> message_return outcome" where
  "parse_return input depth cur =
     pbind (start_dictionary input ''r'' depth cur) (\<lambda>_ cur.
       while_not_end input
         (typed_entry input ''r dictionary key'' (depth + 1) (return_field input (depth + 1)))
         cur empty_message_return)"

definition parse_error :: "bytes \<Rightarrow> nat \<Rightarrow> cursor \<Rightarrow> krpc_error outcome" where
  "parse_error input depth cur =
     pbind (peek input cur) (\<lambda>b _.
       if is_ascii_digit b then
         pbind (parse_bytes input ''e'' cur) (\<lambda>(_, v). Ok \<lparr>ke_code = 0, ke_message = v\<rparr>)
       else if b = byte_char CHR ''l'' then
         pbind (start_list input ''e'' depth cur) (\<lambda>_ cur.
         pbind (end_container input cur) (\<lambda>ended cur.
           if ended then Err (Shape ''e'' ShapeErrorValue (cu_offset cur - 1))
           else
             pbind (parse_integer input ''e.code'' cur) (\<lambda>(_, code) cur.
             pbind (end_container input cur) (\<lambda>ended cur.
               if ended then Err (Shape ''e'' ShapeErrorValue (cu_offset cur - 1))
               else
                 pbind (parse_bytes input ''e.message'' cur) (\<lambda>(_, message) cur.
                 pbind (while_not_end input (\<lambda>cur _. skip_generic input (depth + 1) cur) cur ()) (\<lambda>_.
                 Ok \<lparr>ke_code = code, ke_message = message\<rparr>))))))
       else Err (Shape ''e'' ShapeErrorValue (cu_offset cur)))"

definition empty_message :: krpc_message where
  "empty_message =
     \<lparr>km_transaction_id = [], km_message_type = [], km_query = [], km_args = None,
      km_response = None, km_error = None, km_observed_addr = None, km_read_only = False,
      km_client_id = []\<rparr>"

definition message_field :: "bytes \<Rightarrow> bytes \<Rightarrow> krpc_message \<Rightarrow> cursor \<Rightarrow> krpc_message outcome" where
  "message_field input key message cur =
     (if key = bstr ''t'' then
        pbind (parse_scalar_bytes input ''t'' 2 cur) (\<lambda>(_, v). Ok (message\<lparr>km_transaction_id := v\<rparr>))
      else if key = bstr ''y'' then
        pbind (parse_scalar_bytes input ''y'' 2 cur) (\<lambda>(_, v). Ok (message\<lparr>km_message_type := v\<rparr>))
      else if key = bstr ''q'' then
        pbind (parse_scalar_bytes input ''q'' 2 cur) (\<lambda>(_, v). Ok (message\<lparr>km_query := v\<rparr>))
      else if key = bstr ''a'' then
        pbind (parse_args input 2 cur) (\<lambda>v. Ok (message\<lparr>km_args := Some v\<rparr>))
      else if key = bstr ''r'' then
        pbind (parse_return input 2 cur) (\<lambda>v. Ok (message\<lparr>km_response := Some v\<rparr>))
      else if key = bstr ''e'' then
        pbind (parse_error input 2 cur) (\<lambda>v. Ok (message\<lparr>km_error := Some v\<rparr>))
      else if key = bstr ''ip'' then
        pbind (parse_bytes input ''ip'' cur) (\<lambda>(offset, v) cur.
        pbind (lift_result (InboundCompact offset) (compact_addr_decode v) cur) (\<lambda>a.
        Ok (message\<lparr>km_observed_addr := Some a\<rparr>)))
      else if key = bstr ''ro'' then
        pbind (parse_bool input ''ro'' 2 cur) (\<lambda>v. Ok (message\<lparr>km_read_only := v\<rparr>))
      else if key = bstr ''v'' then
        pbind (parse_scalar_bytes input ''v'' 2 cur) (\<lambda>(_, v). Ok (message\<lparr>km_client_id := v\<rparr>))
      else pbind (skip_generic input 2 cur) (\<lambda>_. Ok message))"

definition parse_message :: "bytes \<Rightarrow> cursor \<Rightarrow> krpc_message outcome" where
  "parse_message input cur =
     pbind (start_dictionary input ''KRPC message'' 1 cur) (\<lambda>_ cur.
     pbind (while_not_end input (typed_entry input ''KRPC dictionary key'' 2 (message_field input))
       cur empty_message) (\<lambda>message cur.
     if cu_offset cur \<noteq> length input then Err (Syntax TrailingData (cu_offset cur))
     else Ok message cur))"

definition decode_inbound :: "bytes \<Rightarrow> krpc_message outcome" where
  "decode_inbound input =
     (if length input > MAX_INBOUND_DATAGRAM_BYTES
      then Err (Limit DatagramBytes 0 (length input) MAX_INBOUND_DATAGRAM_BYTES)
      else parse_message input \<lparr>cu_offset = 0, cu_values = 0\<rparr>)"

end
