(* ===== verification/Inbound_Safety.thy ===== *)
theory Inbound_Safety
  imports Inbound
begin

text \<open>
  The inbound decoder is total: on every datagram it returns a message or an error of the source.
  Each parser advances the cursor inside the input, and each value it counts is paid for by two
  bytes of input, up to one byte for each container still open; so the value ceiling is never the
  reason for a rejection.
\<close>

section \<open>Advancing outcomes\<close>

definition value_limit :: "inbound_error \<Rightarrow> bool" where
  "value_limit e \<longleftrightarrow>
     (\<exists>kind offset actual limit. e = Limit kind offset actual limit \<and> kind \<noteq> NestingDepth)"

lemma value_limit_simps [simp]:
  "value_limit (Limit ValueCount a b c)" "\<not> value_limit (Limit NestingDepth a b c)"
  "value_limit (Limit DatagramBytes a b c)" "\<not> value_limit (Syntax k a)" "\<not> value_limit (Shape f s a)"
  "\<not> value_limit (InboundCompact a ce)" "\<not> value_limit (InboundScrapeBloom a be)"
  "\<not> value_limit (Unsupported f a)" "\<not> value_limit (unexpected_end cur)"
  by (simp_all add: value_limit_def unexpected_end_def)

text \<open>
  \<open>adv s g\<close>: not a fault and not the value ceiling; the cursor moves forward (strictly, if \<open>s\<close>)
  inside the input, and the bytes read exceed twice the values counted by at least \<open>g\<close>.
\<close>

definition adv :: "bool \<Rightarrow> int \<Rightarrow> bytes \<Rightarrow> cursor \<Rightarrow> 'a outcome \<Rightarrow> bool" where
  "adv s g input cur r =
     (case r of
        Fault \<Rightarrow> False
      | Err e \<Rightarrow> \<not> value_limit e
      | Ok x cur' \<Rightarrow>
          cu_offset cur + (if s then 1 else 0) \<le> cu_offset cur' \<and> cu_offset cur' \<le> length input
          \<and> 2 * int (cu_values cur') + int (cu_offset cur) + g
              \<le> 2 * int (cu_values cur) + int (cu_offset cur'))"

text \<open>A cursor inside a datagram of admissible size with \<open>d\<close> containers open at most.\<close>

definition within :: "nat \<Rightarrow> bytes \<Rightarrow> cursor \<Rightarrow> bool" where
  "within d input cur \<longleftrightarrow> length input \<le> MAX_INBOUND_DATAGRAM_BYTES \<and> cu_offset cur \<le> length input
     \<and> 2 * cu_values cur \<le> cu_offset cur + d \<and> d \<le> 10"

lemma within_offset: "within d input cur \<Longrightarrow> cu_offset cur \<le> length input"
  by (simp add: within_def)

lemma adv_simps [simp]:
  "adv s g input cur (Err e) \<longleftrightarrow> \<not> value_limit e" "\<not> adv s g input cur Fault"
  by (simp_all add: adv_def)

lemma adv_if:
  "(b \<Longrightarrow> adv s g input cur m) \<Longrightarrow> (\<not> b \<Longrightarrow> adv s g input cur n) \<Longrightarrow> adv s g input cur (if b then m else n)"
  by simp

lemma adv_mono: "adv s g input cur r \<Longrightarrow> g' \<le> g \<Longrightarrow> (s' \<longrightarrow> s) \<Longrightarrow> adv s' g' input cur r"
  by (cases r) (auto simp: adv_def split: if_splits)

lemma adv_weaken: "adv True g input cur r \<Longrightarrow> adv False g input cur r"
  by (erule adv_mono) simp_all

lemma within_adv: "within d input cur \<Longrightarrow> adv s 0 input cur (Ok x cur') \<Longrightarrow> within d input cur'"
  by (auto simp: within_def adv_def)

lemma adv_pbind:
  assumes "adv s g input cur m"
    and "\<And>x cur'. m = Ok x cur' \<Longrightarrow> adv s' g' input cur' (f x cur')"
  shows "adv (s \<or> s') (g + g') input cur (pbind m f)"
proof (cases m)
  case (Ok x cur')
  have "adv s g input cur (Ok x cur')" "adv s' g' input cur' (f x cur')"
    using assms Ok by simp_all
  then show ?thesis
    by (cases "f x cur'") (auto simp: Ok adv_def split: if_splits)
qed (use assms(1) in auto)

lemma adv_trans: "adv s g input cur (Ok x cur') \<Longrightarrow> adv s' g' input cur' r \<Longrightarrow> adv (s \<or> s') (g + g') input cur r"
  using adv_pbind [of s g input cur "Ok x cur'" s' g' "\<lambda>_ _. r"] by simp

lemma adv_pbind_within:
  assumes "within d input cur" and "adv s 0 input cur m"
    and "\<And>x cur'. m = Ok x cur' \<Longrightarrow> within d input cur' \<Longrightarrow> adv s' 0 input cur' (f x cur')"
  shows "adv (s \<or> s') 0 input cur (pbind m f)"
proof -
  have "adv s' 0 input cur' (f x cur')" if "m = Ok x cur'" for x cur'
    using that assms(2) by (intro assms(3) that within_adv [OF assms(1)]) simp
  then show ?thesis
    using adv_pbind [OF assms(2), of s' 0 f] by simp
qed

text \<open>A first step that advances, or a last one.\<close>

lemmas adv_then = adv_pbind_within [where s = True and s' = False, simplified]
lemmas adv_last = adv_pbind_within [where s = False and s' = True, simplified]

lemma adv_Ok [intro]: "within d input cur \<Longrightarrow> adv False 0 input cur (Ok x cur)"
  by (simp add: adv_def within_def)

lemma adv_lift_result: "within d input cur \<Longrightarrow> (\<And>e. \<not> value_limit (f e)) \<Longrightarrow> adv False 0 input cur (lift_result f r cur)"
  by (cases r) (auto simp: lift_result_def)

section \<open>Tokens\<close>

lemma byte_at_less: "byte_at input i = Some b \<Longrightarrow> i < length input"
  by (auto simp: byte_at_def split: if_splits)

lemma adv_begin_value:
  "within d input cur \<Longrightarrow> adv False (-2) input cur (begin_value input cur)"
  "begin_value input cur = Ok x cur' \<Longrightarrow> cu_offset cur' = cu_offset cur"
  by (auto simp: begin_value_def adv_def within_def split: if_splits)

lemma adv_peek: "within d input cur \<Longrightarrow> adv False 0 input cur (peek input cur)"
  by (auto simp: peek_def adv_def within_def split: option.splits)

lemma peek_Ok: "peek input cur = Ok b cur' \<Longrightarrow> cur' = cur"
  by (auto simp: peek_def split: option.splits)

lemma adv_require: "within d input cur \<Longrightarrow> adv False 0 input cur (require_dictionary_value input cur)"
  by (auto simp: require_dictionary_value_def adv_def within_def split: option.splits)

lemma adv_end_container:
  "within d input cur \<Longrightarrow> adv False 0 input cur (end_container input cur)"
  "end_container input cur = Ok True cur' \<Longrightarrow> cur' = cur\<lparr>cu_offset := cu_offset cur + 1\<rparr> \<and> cu_offset cur < length input"
  "end_container input cur = Ok False cur' \<Longrightarrow> cur' = cur"
  by (auto simp: end_container_def adv_def within_def dest: byte_at_less split: option.splits if_splits)

lemma adv_start_container:
  assumes "within d input cur"
  shows "adv True (-1) input cur (start_container input field expected token depth cur)"
proof -
  have "adv (False \<or> True) (-2 + 1) input cur (start_container input field expected token depth cur)"
    unfolding start_container_def
    by (rule adv_pbind [OF adv_begin_value(1) [OF assms]]) (auto simp: adv_def dest: byte_at_less)
  then show ?thesis by simp
qed

lemma adv_start:
  "within d input cur \<Longrightarrow> adv True (-1) input cur (start_list input field depth cur)"
  "within d input cur \<Longrightarrow> adv True (-1) input cur (start_dictionary input field depth cur)"
  by (simp_all add: start_list_def start_dictionary_def adv_start_container)

text \<open>Inside a container one more container is open.\<close>

lemma within_start:
  "within d input cur \<Longrightarrow> d < 10 \<Longrightarrow> adv True (-1) input cur (Ok u cur') \<Longrightarrow> within (d + 1) input cur'"
  by (auto simp: within_def adv_def)

lemma scan_while_bounds: "i \<le> scan_while p input i"
  by (simp add: scan_while_def)

lemma digits_before_colon:
  assumes "byte_at input i = Some b" and "is_ascii_digit b"
  shows "Suc i \<le> scan_while is_ascii_digit input i"
proof -
  obtain bs where "drop i input = b # bs"
    using assms(1) by (metis Cons_nth_drop_Suc byte_at_def option.inject option.distinct(1))
  then show ?thesis
    using assms(2) by (simp add: scan_while_def)
qed

lemma adv_parse_bytes:
  assumes "within d input cur"
  shows "adv True 0 input cur (parse_bytes input field cur)"
proof -
  have "adv (False \<or> True) (-2 + 2) input cur (parse_bytes input field cur)"
    unfolding parse_bytes_def
    by (rule adv_pbind [OF adv_begin_value(1) [OF assms]])
      (auto simp: Let_def adv_def dest!: digits_before_colon split: option.splits)
  then show ?thesis by simp
qed

lemma adv_parse_raw_bytes:
  assumes "within d input cur" and "byte_at input (cu_offset cur) = Some b" and "is_ascii_digit b"
  shows "adv True 0 input cur (parse_raw_bytes input cur)"
proof -
  have "adv (False \<or> True) (-2 + 2) input cur (parse_raw_bytes input cur)"
    unfolding parse_raw_bytes_def
    using digits_before_colon [OF assms(2,3)]
    by (intro adv_pbind [OF adv_begin_value(1) [OF assms(1)]])
      (auto simp: Let_def adv_def dest!: adv_begin_value(2) split: option.splits)
  then show ?thesis by simp
qed

lemma adv_parse_integer_raw:
  assumes "within d input cur"
  shows "adv True 0 input cur (parse_integer_raw input cur)"
proof -
  have "adv (False \<or> True) (-2 + 2) input cur (parse_integer_raw input cur)"
    unfolding parse_integer_raw_def
  proof (rule adv_pbind [OF adv_begin_value(1) [OF assms]])
    fix offset and cur' :: cursor
    let ?stop = "scan_while (\<lambda>b. b \<noteq> byte_char CHR ''e'') input (cu_offset cur' + 1)"
    have "cu_offset cur' + 1 \<le> ?stop"
      by (rule scan_while_bounds)
    then show "adv True 2 input cur' (if byte_at input (cu_offset cur') \<noteq> Some (byte_char CHR ''i'')
       then Err (Shape ''integer'' ShapeInteger offset)
       else
         let start = cu_offset cur' + 1;
             stop = scan_while (\<lambda>b. b \<noteq> byte_char CHR ''e'') input start
         in if byte_at input stop \<noteq> Some (byte_char CHR ''e'') then Err (Syntax UnexpectedEnd stop)
            else
              let raw = slice input start stop;
                  cur = cur'\<lparr>cu_offset := stop + 1\<rparr>
              in if length raw > 1
                    \<and> (case strip_minus raw of [] \<Rightarrow> True | b # _ \<Rightarrow> \<not> (49 \<le> b \<and> b \<le> 57))
                 then Err (Syntax InvalidInteger offset)
                 else Ok (offset, raw) cur)"
      by (auto simp: Let_def adv_def dest: byte_at_less)
  qed
  then show ?thesis by simp
qed

lemma adv_parse_integer:
  assumes "within d input cur"
  shows "adv True 0 input cur (parse_integer input field cur)"
  unfolding parse_integer_def
  by (rule adv_then [OF assms adv_parse_integer_raw [OF assms]]) (auto split: option.splits prod.splits)

section \<open>Loops\<close>

text \<open>
  A loop over the entries of a container with an invariant \<open>P\<close> of its state: it ends, reads the
  closing byte, and keeps the invariant.
\<close>

lemma adv_while_not_end:
  assumes body: "\<And>cur s. within d input cur \<Longrightarrow> P s \<Longrightarrow> adv True 0 input cur (body cur s)"
    and inv: "\<And>cur s s' cur'. within d input cur \<Longrightarrow> P s \<Longrightarrow> body cur s = Ok s' cur' \<Longrightarrow> P s'"
  shows "within d input cur \<Longrightarrow> P s \<Longrightarrow>
    adv True 1 input cur (while_not_end input body cur s)
    \<and> (\<forall>s' cur'. while_not_end input body cur s = Ok s' cur' \<longrightarrow> P s')"
  using assms
proof (induction input body cur s rule: while_not_end.induct)
  case (1 input body cur s)
  note hyps = "1.prems"(3,4)
  note while = while_not_end.simps [of input body cur s]
  show ?case
  proof (cases "end_container input cur")
    case (Ok ended cur1)
    show ?thesis
    proof (cases ended)
      case True
      with Ok adv_end_container(2) [of input cur cur1] "1.prems"(2) show ?thesis
        by (simp add: while) (simp add: adv_def)
    next
      case False
      with Ok adv_end_container(3) [of input cur cur1] have cur1: "cur1 = cur" by simp
      note step = "1.prems"(3) [OF "1.prems"(1,2)]
      show ?thesis
      proof (cases "body cur s")
        case body: (Ok s2 cur2)
        have adv2: "adv True 0 input cur (Ok s2 cur2)" and P2: "P s2" and w2: "within d input cur2"
          using step "1.prems"(4) [OF "1.prems"(1,2) body] within_adv [OF "1.prems"(1)] body by auto
        then have less: "\<not> cu_offset cur2 \<le> cu_offset cur"
          by (simp add: adv_def)
        have "adv True 1 input cur2 (while_not_end input body cur2 s2)
          \<and> (\<forall>s' cur'. while_not_end input body cur2 s2 = Ok s' cur' \<longrightarrow> P s')"
          using Ok False body cur1 less by - (rule "1.IH" [OF Ok _ _ _ w2 P2 hyps]; simp)
        then show ?thesis
          using adv_trans [OF adv2, of True 1 "while_not_end input body cur2 s2"] Ok False body cur1 less
          by (simp add: while)
      qed (use step Ok False cur1 in \<open>auto simp: while\<close>)
    qed
  next
    case (Err e)
    then show ?thesis
      using adv_end_container(1) [OF "1.prems"(1)] by (simp add: while)
  next
    case Fault
    then show ?thesis
      using adv_end_container(1) [OF "1.prems"(1)] by (simp add: while)
  qed
qed


text \<open>Entering a container, running its loop, and finishing with what follows.\<close>

lemma adv_enter:
  assumes "within d input cur" and "d < 10" and "adv True (-1) input cur st"
    and "\<And>u cur1. st = Ok u cur1 \<Longrightarrow> within (d + 1) input cur1 \<Longrightarrow> adv s 1 input cur1 (f u cur1)"
  shows "adv True 0 input cur (pbind st f)"
proof -
  have "adv s 1 input cur' (f x cur')" if "st = Ok x cur'" for x cur'
    using that assms(3) by (intro assms(4) that within_start [OF assms(1,2)]) simp
  then show ?thesis
    using adv_pbind [OF assms(3), of s 1 f] by simp
qed

lemma adv_loop:
  assumes "within d input cur" and "P s0"
    and "\<And>cur s. within d input cur \<Longrightarrow> P s \<Longrightarrow> adv True 0 input cur (body cur s)"
    and "\<And>cur s s' cur'. within d input cur \<Longrightarrow> P s \<Longrightarrow> body cur s = Ok s' cur' \<Longrightarrow> P s'"
    and "\<And>s' cur'. P s' \<Longrightarrow> cu_offset cur' \<le> length input \<Longrightarrow> adv False 0 input cur' (g s' cur')"
  shows "adv True 1 input cur (pbind (while_not_end input body cur s0) g)"
proof -
  have "adv True 1 input cur (while_not_end input body cur s0)
    \<and> (\<forall>s' cur'. while_not_end input body cur s0 = Ok s' cur' \<longrightarrow> P s')"
    by (rule adv_while_not_end [of d input P body]) (fact assms)+
  then have loop: "adv True 1 input cur (while_not_end input body cur s0)"
    "\<And>s' cur'. while_not_end input body cur s0 = Ok s' cur' \<Longrightarrow> P s'"
    by blast+
  have "adv False 0 input cur' (g s' cur')" if *: "while_not_end input body cur s0 = Ok s' cur'" for s' cur'
    using loop(1) unfolding * by (intro assms(5) loop(2) [OF *]) (simp add: adv_def)
  then show ?thesis
    using adv_pbind [OF loop(1), of False 0 g] by simp
qed

lemma adv_while:
  assumes "within d input cur"
    and "\<And>cur s. within d input cur \<Longrightarrow> adv True 0 input cur (body cur s)"
  shows "adv True 1 input cur (while_not_end input body cur s0)"
  using adv_while_not_end [of d input "\<lambda>_. True" body] assms by blast

lemma case_outcome_pbind [simp]:
  "(case m of Err e \<Rightarrow> Err e | Fault \<Rightarrow> Fault | Ok x cur \<Rightarrow> f x cur) = pbind m f"
  by (cases m) simp_all

lemma adv_finish: "cu_offset cur \<le> length input \<Longrightarrow> adv False 0 input cur (Ok x cur)"
  by (simp add: adv_def)

lemma peek_adv:
  assumes "within d input cur" and "\<And>b. byte_at input (cu_offset cur) = Some b \<Longrightarrow> adv True 0 input cur (f b cur)"
  shows "adv True 0 input cur (pbind (peek input cur) f)"
  using assms(2) by (cases "byte_at input (cu_offset cur)") (auto simp: peek_def)

section \<open>Values\<close>

lemma is_ascii_digit_tokens [simp]:
  "\<not> is_ascii_digit 100" "\<not> is_ascii_digit 101" "\<not> is_ascii_digit 105" "\<not> is_ascii_digit 108"
  by (simp_all add: is_ascii_digit_def)

text \<open>The loop that unwraps a singleton list around a scalar.\<close>

lemma adv_singleton:
  assumes "within d input cur1"
    and "\<And>cur. within d input cur \<Longrightarrow> adv True 0 input cur (p cur)"
  shows "adv True 1 input cur1 (pbind (while_not_end input
      (\<lambda>cur (value, count). pbind (p cur) (\<lambda>parsed cur.
         Ok (if count = 0 then Some parsed else value, count + (1::nat)) cur)) cur1 (None, 0))
    (\<lambda>(value, count) cur2. if count = 1 then (case value of None \<Rightarrow> Fault | Some v \<Rightarrow> Ok v cur2)
       else Err (Shape field kind offset)))"
proof (rule adv_loop [OF assms(1), where P = "\<lambda>(value, count). 0 < count \<longrightarrow> value \<noteq> None"])
  fix cur and s :: "'a option \<times> nat"
  assume "within d input cur"
  then show "adv True 0 input cur ((\<lambda>(value, count). pbind (p cur) (\<lambda>parsed cur.
      Ok (if count = 0 then Some parsed else value, count + 1) cur)) s)"
    by (cases s) (auto intro: adv_then assms(2))
next
  fix cur cur' and s s' :: "'a option \<times> nat"
  assume "case s of (value, count) \<Rightarrow> 0 < count \<longrightarrow> value \<noteq> None"
    and "(\<lambda>(value, count). pbind (p cur) (\<lambda>parsed cur.
      Ok (if count = 0 then Some parsed else value, count + 1) cur)) s = Ok s' cur'"
  then show "case s' of (value, count) \<Rightarrow> 0 < count \<longrightarrow> value \<noteq> None"
    by (cases s; cases "p cur") auto
qed (auto intro: adv_finish split: option.splits)

lemma adv_parse_scalar_bytes:
  "within depth input cur \<Longrightarrow> depth \<le> 9 \<Longrightarrow> adv True 0 input cur (parse_scalar_bytes input field depth cur)"
proof (induction input field depth cur rule: parse_scalar_bytes.induct)
  case (1 input field depth cur)
  have rec: "adv True 0 input c (parse_scalar_bytes input field (depth + 1) c)"
    if "start_list input field depth cur = Ok u cur1" and "within (depth + 1) input c" for u cur1 c
    using "1.IH" start_depth(1) [OF that(1)] that by auto
  show ?case
    by (subst parse_scalar_bytes.simps, rule peek_adv [OF "1.prems"(1)],
        simp only: case_outcome_pbind split: if_split, intro conjI impI adv_parse_bytes [OF "1.prems"(1)],
        rule adv_enter [OF "1.prems"(1) _ adv_start(1) [OF "1.prems"(1)]])
      (use "1.prems"(2) in \<open>simp, blast intro: adv_singleton rec\<close>)
qed

lemma adv_parse_scalar_integer:
  "within depth input cur \<Longrightarrow> depth \<le> 9 \<Longrightarrow> adv True 0 input cur (parse_scalar_integer input field depth cur)"
proof (induction input field depth cur rule: parse_scalar_integer.induct)
  case (1 input field depth cur)
  have rec: "adv True 0 input c (parse_scalar_integer input field (depth + 1) c)"
    if "start_list input field depth cur = Ok u cur1" and "within (depth + 1) input c" for u cur1 c
    using "1.IH" start_depth(1) [OF that(1)] that by auto
  show ?case
    by (subst parse_scalar_integer.simps, rule peek_adv [OF "1.prems"(1)],
        simp only: case_outcome_pbind split: if_split, intro conjI impI adv_parse_integer [OF "1.prems"(1)],
        rule adv_enter [OF "1.prems"(1) _ adv_start(1) [OF "1.prems"(1)]])
      (use "1.prems"(2) in \<open>simp, blast intro: adv_singleton rec\<close>)
qed


lemma adv_parse_bool:
  "within depth input cur \<Longrightarrow> depth \<le> 9 \<Longrightarrow> adv True 0 input cur (parse_bool input field depth cur)"
proof (induction input field depth cur rule: parse_bool.induct)
  case (1 input field depth cur)
  note w = "1.prems"(1)
  have rec: "adv True 0 input c (parse_bool input field (depth + 1) c)"
    if "start_list input field depth cur = Ok u cur1" and "within (depth + 1) input c" for u cur1 c
    using "1.IH" start_depth(1) [OF that(1)] that by auto
  have loop: "adv True 1 input cur1 (pbind (while_not_end input
      (\<lambda>cur (first, count). pbind (parse_bool input field (depth + 1) cur) (\<lambda>v cur.
         Ok (if count = 0 then v else first, count + (1::nat)) cur)) cur1 (False, 0))
    (\<lambda>(first, count) cur. if count = 1 then Ok first cur
       else Err (Shape field ShapeBoolean (cu_offset cur - 1))))"
    if "start_list input field depth cur = Ok u cur1" and "within (depth + 1) input cur1" for u cur1
    by (rule adv_loop [OF that(2), where P = "\<lambda>_. True"])
      (auto intro: adv_finish adv_then [OF _ rec [OF that(1), simplified]] split: prod.splits)
  have "depth < 10"
    using "1.prems"(2) by simp
  note list = adv_enter [OF w this adv_start(1) [OF w] loop]
  have "adv True 0 input cur (pbind (parse_integer_raw input cur) (\<lambda>(_, raw) cur. Ok (raw \<noteq> [48]) cur))"
    "adv True 0 input cur (pbind (parse_bytes input field cur) (\<lambda>(_, raw) cur. Ok (go_bool_of_bytes raw) cur))"
    by (auto intro!: adv_then [OF w] adv_parse_integer_raw [OF w] adv_parse_bytes [OF w] split: prod.splits)
  then show ?case
    by (subst parse_bool.simps, intro peek_adv [OF w], simp only: case_outcome_pbind split: if_split)
      (intro conjI impI; (assumption | rule list | simp))
qed

lemma adv_skip_generic:
  "within depth input cur \<Longrightarrow> depth \<le> 9 \<Longrightarrow> adv True 0 input cur (skip_generic input depth cur)"
proof (induction input depth cur rule: skip_generic.induct)
  case (1 input depth cur)
  note w = "1.prems"(1)
  have list_rec: "adv True 0 input c (skip_generic input (depth + 1) c)"
    if "start_list input ''unknown value'' depth cur = Ok u cur1" and "within (depth + 1) input c" for u cur1 c
    using "1.IH"(1) start_depth(1) [OF that(1)] that by auto
  have dict_rec: "adv True 0 input c (skip_generic input (depth + 1) c)"
    if "start_dictionary input ''unknown value'' depth cur = Ok u cur1" and "within (depth + 1) input c" for u cur1 c
    using "1.IH"(2) start_depth(2) [OF that(1)] that by simp (metis option.case(1))
  have d: "depth < 10"
    using "1.prems"(2) by simp
  have list_loop: "adv True 1 input cur1 (while_not_end input (\<lambda>cur _. skip_generic input (depth + 1) cur) cur1 ())"
    if "start_list input ''unknown value'' depth cur = Ok u cur1" and "within (depth + 1) input cur1" for u cur1
    by (rule adv_while [OF that(2)]) (rule list_rec [OF that(1)])
  have dict_loop: "adv True 1 input cur1 (pbind (while_not_end input
      (\<lambda>cur previous. pbind (parse_bytes input ''unknown dictionary key'' cur) (\<lambda>(offset, key) cur.
         if (case previous of None \<Rightarrow> False | Some last_key \<Rightarrow> \<not> last_key < key)
         then Err (Syntax NonCanonicalUnknownDictionary offset)
         else pbind (require_dictionary_value input cur) (\<lambda>_ cur.
              pbind (skip_generic input (depth + 1) cur) (\<lambda>_. Ok (Some key))))) cur1 None) (\<lambda>_. Ok ()))"
    if "start_dictionary input ''unknown value'' depth cur = Ok u cur1" and "within (depth + 1) input cur1" for u cur1
    by (rule adv_loop [OF that(2), where P = "\<lambda>_. True"])
      (auto intro!: adv_finish adv_then [OF _ adv_parse_bytes] adv_last [OF _ adv_require, THEN adv_weaken]
        adv_then [OF _ dict_rec [OF that(1), simplified]] dest: within_offset split: prod.splits)
  have "adv True 0 input cur (pbind (parse_bytes input ''unknown value'' cur) (\<lambda>_. Ok ()))"
    "adv True 0 input cur (pbind (parse_integer_raw input cur) (\<lambda>(offset, raw) cur.
       if \<not> valid_generic_integer raw then Err (Syntax InvalidInteger offset) else Ok () cur))"
    by (auto intro!: adv_then [OF w] adv_parse_integer_raw [OF w] adv_parse_bytes [OF w] split: prod.splits)
  then show ?case
    by (subst skip_generic.simps, intro peek_adv [OF w], simp only: case_outcome_pbind split: if_split)
      (intro conjI impI; (assumption | rule adv_enter [OF w d adv_start(1) [OF w] list_loop]
         | rule adv_enter [OF w d adv_start(2) [OF w] dict_loop] | simp))
qed

lemma adv_skip_raw:
  "within depth input cur \<Longrightarrow> depth \<le> 9 \<Longrightarrow> adv True 0 input cur (skip_raw input depth cur)"
proof (induction input depth cur rule: skip_raw.induct)
  case (1 input depth cur)
  note w = "1.prems"(1)
  have d: "depth < 10"
    using "1.prems"(2) by simp
  have loop: "adv True 1 input cur1 (while_not_end input (\<lambda>cur _. skip_raw input (depth + 1) cur) cur1 ())"
    if "start_container input ''raw BEP-44 value'' (if b = byte_char CHR ''l'' then ShapeList else ShapeDictionary)
          b depth cur = Ok u cur1"
      and "within (depth + 1) input cur1" and "b = byte_char CHR ''l'' \<or> b = byte_char CHR ''d''" for b u cur1
    by (rule adv_while [OF that(2)])
      (use "1.IH" [of b] start_container_depth [OF that(1)] that in auto)
  have "adv (False \<or> True) (-2 + 2) input cur (pbind (begin_value input cur) (\<lambda>_ cur.
      let stop = scan_while (\<lambda>b. b \<noteq> byte_char CHR ''e'') input (cu_offset cur + 1)
      in if byte_at input stop \<noteq> Some (byte_char CHR ''e'') then Err (Syntax UnexpectedEnd stop)
         else Ok () (cur\<lparr>cu_offset := stop + 1\<rparr>)))"
    by (rule adv_pbind [OF adv_begin_value(1) [OF w]])
      (auto simp: adv_def Let_def scan_while_def dest: byte_at_less)
  then have int: "adv True 0 input cur (pbind (begin_value input cur) (\<lambda>_ cur.
      let stop = scan_while (\<lambda>b. b \<noteq> byte_char CHR ''e'') input (cu_offset cur + 1)
      in if byte_at input stop \<noteq> Some (byte_char CHR ''e'') then Err (Syntax UnexpectedEnd stop)
         else Ok () (cur\<lparr>cu_offset := stop + 1\<rparr>)))"
    by simp
  have raw: "adv True 0 input cur (pbind (parse_raw_bytes input cur) (\<lambda>_. Ok ()))"
    if "byte_at input (cu_offset cur) = Some b" and "is_ascii_digit b" for b
    by (rule adv_then [OF w adv_parse_raw_bytes [OF w that]]) auto
  show ?case
    by (subst skip_raw.simps, intro peek_adv [OF w], simp only: case_outcome_pbind)
      (intro adv_if adv_enter [OF w d adv_start_container [OF w] loop] int raw; simp)
qed


section \<open>Messages\<close>

lemma adv_reject_bep44_value:
  assumes "within d input cur" and "d \<le> 9"
  shows "adv True 0 input cur (reject_bep44_value input field d raw cur)"
proof -
  have "adv True 0 input cur (if raw then skip_raw input d cur else skip_generic input d cur)"
    using assms by (simp add: adv_skip_raw adv_skip_generic)
  then show ?thesis
    unfolding reject_bep44_value_def by (rule adv_then [OF assms(1)]) simp
qed

lemma adv_parse_id:
  assumes "within d input cur" and "d \<le> 9"
  shows "adv True 0 input cur (parse_id input field d cur)"
  unfolding parse_id_def
  by (rule adv_then [OF assms(1) adv_parse_scalar_bytes [OF assms]])
    (auto intro: adv_lift_result split: prod.splits)

lemma adv_parse_byte_list:
  assumes "within d input cur" and "d \<le> 8"
  shows "adv True 0 input cur (parse_byte_list input field d cur)"
  unfolding parse_byte_list_def
proof (rule adv_enter [OF assms(1) _ adv_start(1) [OF assms(1)]], use assms(2) in simp, rule adv_while, assumption)
  show "adv True 0 input c (pbind (parse_scalar_bytes input field (d + 1) c) (\<lambda>(_, v). Ok (s @ [v])))"
    if "within (d + 1) input c" for c and s :: "bytes list"
    using assms(2) by (intro adv_then [OF that adv_parse_scalar_bytes [OF that]]) (auto split: prod.splits)
qed

lemma adv_parse_addresses:
  assumes "within d input cur" and "d \<le> 8"
  shows "adv True 0 input cur (parse_addresses input d cur)"
  unfolding parse_addresses_def
proof (rule adv_enter [OF assms(1) _ adv_start(1) [OF assms(1)]], use assms(2) in simp, rule adv_while, assumption)
  show "adv True 0 input c (pbind (parse_bytes input ''r.values entry'' c) (\<lambda>(offset, v) cur.
      pbind (lift_result (InboundCompact offset) (compact_addr_decode v) cur) (\<lambda>a. Ok (s @ [a]))))"
    if "within (d + 1) input c" for c and s :: "compact_addr list"
    by (rule adv_then [OF that adv_parse_bytes [OF that]])
      (auto simp: lift_result_def split: prod.splits sum.splits)
qed

lemma adv_parse_nodes:
  assumes "within d input cur" and "d \<le> 9"
  shows "adv True 0 input cur (parse_nodes input field d ipv6 cur)"
  unfolding parse_nodes_def
  by (rule adv_then [OF assms(1) adv_parse_scalar_bytes [OF assms]])
    (auto simp: lift_result_def split: prod.splits sum.splits)

lemma adv_parse_bloom:
  assumes "within d input cur"
  shows "adv True 0 input cur (parse_bloom input field cur)"
  unfolding parse_bloom_def
  by (rule adv_then [OF assms adv_parse_bytes [OF assms]]) (auto intro: adv_lift_result split: prod.splits)

lemma adv_typed_entry:
  assumes "within d input cur" and "d \<le> 9"
    and "\<And>key s cur. within d input cur \<Longrightarrow> adv True 0 input cur (field key s cur)"
  shows "adv True 0 input cur (typed_entry input key_field d field cur s)"
  unfolding typed_entry_def
  by (rule adv_then [OF assms(1) adv_parse_scalar_bytes [OF assms(1,2)]])
    (auto intro!: adv_weaken adv_last [OF _ adv_require] assms(3) split: prod.splits)

lemmas adv_values = adv_parse_bytes adv_parse_integer adv_parse_scalar_bytes adv_parse_scalar_integer
  adv_parse_bool adv_skip_generic adv_parse_id adv_parse_byte_list adv_parse_addresses adv_parse_nodes
  adv_parse_bloom adv_reject_bep44_value

lemma adv_args_field:
  assumes "within 3 input cur"
  shows "adv True 0 input cur (args_field input 3 key args cur)"
  unfolding args_field_def
  by (intro adv_if adv_then [OF assms] adv_values [OF assms]) (auto split: prod.splits)

lemma adv_return_field:
  assumes "within 3 input cur"
  shows "adv True 0 input cur (return_field input 3 key response cur)"
  unfolding return_field_def
  by (intro adv_if adv_then [OF assms] adv_values [OF assms])
    (auto simp: lift_result_def split: prod.splits sum.splits)

lemma adv_parse_dictionaries:
  assumes "within 2 input cur"
  shows "adv True 0 input cur (parse_args input 2 cur)" and "adv True 0 input cur (parse_return input 2 cur)"
  unfolding parse_args_def parse_return_def
  by (rule adv_enter [OF assms _ adv_start(2) [OF assms]], simp, rule adv_while, assumption,
      auto intro!: adv_typed_entry adv_args_field adv_return_field)+


lemma adv_seq:
  assumes "within d input cur" and "adv s 0 input cur m"
    and "\<And>x cur'. within d input cur' \<Longrightarrow> adv False 1 input cur' (f x cur')"
  shows "adv False 1 input cur (pbind m f)"
proof -
  have "adv False 1 input cur' (f x cur')" if "m = Ok x cur'" for x cur'
    using that assms(2) by (intro assms(3) within_adv [OF assms(1), of s x]) simp
  then have "adv (s \<or> False) (0 + 1) input cur (pbind m f)"
    by (rule adv_pbind [OF assms(2)])
  then show ?thesis
    by (rule adv_mono) simp_all
qed

lemma adv_parse_error:
  assumes "within 2 input cur"
  shows "adv True 0 input cur (parse_error input 2 cur)"
  unfolding parse_error_def
proof (rule peek_adv [OF assms], intro adv_if)
  show "adv True 0 input cur (pbind (parse_bytes input ''e'' cur) (\<lambda>(_, v). Ok \<lparr>ke_code = 0, ke_message = v\<rparr>))"
    by (rule adv_then [OF assms adv_parse_bytes [OF assms]]) (auto split: prod.splits)
next
  have end_ok: "adv False 0 input cur (end_container input cur)" if "within (2 + 1) input cur" for cur
    by (rule adv_end_container(1) [OF that])
  have skip: "adv True 0 input cur (skip_generic input (2 + 1) cur)" if "within (2 + 1) input cur" for cur
    by (rule adv_skip_generic [OF that]) simp
  have tail: "adv False 1 input cur (pbind (while_not_end input (\<lambda>cur _. skip_generic input (2 + 1) cur) cur ()) (\<lambda>_. Ok e))"
    if "within (2 + 1) input cur" for cur and e :: krpc_error
    by (rule adv_weaken, rule adv_loop [OF that, of "\<lambda>_. True"]) (auto intro: skip [simplified] adv_finish)
  show "adv True 0 input cur (pbind (start_list input ''e'' 2 cur) (\<lambda>_ cur.
      pbind (end_container input cur) (\<lambda>ended cur.
        if ended then Err (Shape ''e'' ShapeErrorValue (cu_offset cur - 1))
        else pbind (parse_integer input ''e.code'' cur) (\<lambda>(_, code) cur.
          pbind (end_container input cur) (\<lambda>ended cur.
            if ended then Err (Shape ''e'' ShapeErrorValue (cu_offset cur - 1))
            else pbind (parse_bytes input ''e.message'' cur) (\<lambda>(_, message) cur.
              pbind (while_not_end input (\<lambda>cur _. skip_generic input (2 + 1) cur) cur ()) (\<lambda>_.
              Ok \<lparr>ke_code = code, ke_message = message\<rparr>)))))))"
    by (rule adv_enter [OF assms _ adv_start(1) [OF assms], where s = False], simp,
        rule adv_seq, assumption, erule end_ok, rule adv_if, simp,
        rule adv_seq, assumption, erule adv_parse_integer, clarsimp split del: if_split simp del: numeral_One,
        rule adv_seq, assumption, erule end_ok [simplified], rule adv_if, simp,
        rule adv_seq, assumption, erule adv_parse_bytes, clarsimp, erule tail [simplified])
qed simp

lemma adv_message_field:
  assumes "within 2 input cur"
  shows "adv True 0 input cur (message_field input key message cur)"
  unfolding message_field_def
  by (intro adv_if adv_then [OF assms] adv_values [OF assms] adv_parse_dictionaries [OF assms]
      adv_parse_error [OF assms]) (auto simp: lift_result_def split: prod.splits sum.splits)

lemma adv_parse_message:
  assumes "within 1 input cur"
  shows "adv True 0 input cur (parse_message input cur)"
  unfolding parse_message_def
proof (rule adv_enter [OF assms _ adv_start(2) [OF assms]], simp)
  fix cur1
  assume "within (1 + 1) input cur1"
  then have inside: "within 2 input cur1"
    by (simp only: one_add_one)
  have body: "adv True 0 input c (typed_entry input ''KRPC dictionary key'' 2 (message_field input) c m)"
    if "within 2 input c" for c m
    using that by (intro adv_typed_entry adv_message_field) simp_all
  show "adv True 1 input cur1 (pbind (while_not_end input
      (typed_entry input ''KRPC dictionary key'' 2 (message_field input)) cur1 empty_message)
      (\<lambda>message cur. if cu_offset cur \<noteq> length input then Err (Syntax TrailingData (cu_offset cur)) else Ok message cur))"
    by (rule adv_loop [OF inside, of "\<lambda>_. True"]) (auto intro: body adv_finish)
qed

lemma pbind_Ok: "pbind m f = Ok y cur' \<longleftrightarrow> (\<exists>x cur. m = Ok x cur \<and> f x cur = Ok y cur')"
  by (cases m) auto

lemma decode_inbound_adv:
  "length input \<le> MAX_INBOUND_DATAGRAM_BYTES \<Longrightarrow>
   adv True 0 input \<lparr>cu_offset = 0, cu_values = 0\<rparr> (decode_inbound input)"
  by (simp add: decode_inbound_def adv_parse_message within_def)

lemma decode_inbound_no_fault: "decode_inbound input \<noteq> Fault"
  using decode_inbound_adv [of input] by (cases "length input \<le> MAX_INBOUND_DATAGRAM_BYTES") (auto simp: decode_inbound_def)

lemma parse_message_consumes: "parse_message input cur = Ok m cur' \<Longrightarrow> cu_offset cur' = length input"
  by (auto simp: parse_message_def pbind_Ok split: if_splits)

text \<open>
  (C12)
  The bounded decoder on arbitrary bytes: it never panics and no loop of it stalls; a datagram
  longer than 65,507 bytes, and no other, is answered with the datagram limit error; the ceiling
  of 32,768 values is never hit within the size and nesting limits; a decoded message consumed
  the whole datagram, and it holds at most half as many values as bytes.
\<close>

theorem decode_inbound_total:
  "case decode_inbound input of
     Fault \<Rightarrow> False
   | Err e \<Rightarrow>
       (\<forall>offset actual limit. e \<noteq> Limit ValueCount offset actual limit)
       \<and> (length input > MAX_INBOUND_DATAGRAM_BYTES
          \<longleftrightarrow> e = Limit DatagramBytes 0 (length input) MAX_INBOUND_DATAGRAM_BYTES)
   | Ok message cur \<Rightarrow>
       length input \<le> MAX_INBOUND_DATAGRAM_BYTES \<and> cu_offset cur = length input
       \<and> 2 * cu_values cur \<le> length input"
proof (cases "length input > MAX_INBOUND_DATAGRAM_BYTES")
  case False
  with decode_inbound_adv [of input] parse_message_consumes [of input "\<lparr>cu_offset = 0, cu_values = 0\<rparr>"] show ?thesis
    by (cases "decode_inbound input") (auto simp: decode_inbound_def adv_def)
qed (simp add: decode_inbound_def)

end
