(* ===== verification/Driver.thy ===== *)
theory Driver
  imports Responder Discovery Transaction Inbound_Safety
begin

text \<open>
  \<open>bitmagnet-dht/src/dht_dispatch.rs\<close>, \<open>receive.rs\<close>, \<open>dht_send.rs\<close> and \<open>dht_driver.rs\<close>: one step
  of the DHT node, from a received datagram to at most one reply. The socket behind the traits
  \<open>DatagramReceiver\<close> and \<open>DatagramSender\<close>, the bencode emitter and the channels are arguments. The
  step is one uninterrupted run of the asynchronous function; \<open>None\<close> is a panic.
\<close>

section \<open>Dispatch\<close>

datatype dht_dispatch_outcome =
  DispatchReply dht_reply
| LocalFailure dht_reply dht_responder_error

fun outcome_reply :: "dht_dispatch_outcome \<Rightarrow> dht_reply" where
  "outcome_reply (DispatchReply reply) = reply"
| "outcome_reply (LocalFailure reply _) = reply"

definition dispatch ::
  "digests \<Rightarrow> 's dht_responder_table \<Rightarrow> (routing_node, 'dch, 'p) permit_mpsc \<Rightarrow> dht_responder
   \<Rightarrow> socket_addr \<Rightarrow> krpc_message \<Rightarrow> 's \<Rightarrow> 'dch dht_discovery option
   \<Rightarrow> (dht_dispatch_outcome \<times> 's \<times> 'dch dht_discovery option) option" where
  "dispatch dg dt mp r source request s discovery =
     (case respond dg dt r source request s of
        None \<Rightarrow> None
      | Some (Inr response, s) \<Rightarrow>
          map_option
            (\<lambda>discovery. (DispatchReply (compose_response source request response), s, discovery))
            (case discovery of
               None \<Rightarrow> Some None
             | Some d \<Rightarrow>
                 (case km_args request of
                    None \<Rightarrow> None
                  | Some args \<Rightarrow>
                      Some (Some (snd (offer mp \<lparr>rn_id = ma_id args, rn_addr = source\<rparr> d)))))
      | Some (Inl (Protocol error), s) \<Rightarrow>
          Some (DispatchReply (compose_error source request error), s, discovery)
      | Some (Inl (NativeIpv6Node node), s) \<Rightarrow>
          Some (LocalFailure (compose_error source request generic_server_error) (NativeIpv6Node node),
                s, discovery))"

section \<open>Receiving one datagram\<close>

record received_datagram =
  rd_length :: nat
  rd_source :: socket_addr

datatype receive_dispatch_outcome =
  ZeroLength socket_addr
| DecodeRejected socket_addr inbound_error
| ReceivedQuery socket_addr krpc_message
| ReceivedResponse socket_addr delivery_outcome
| ReceivedError socket_addr delivery_outcome
| ReceivedIgnored socket_addr krpc_message

datatype 'e receive_dispatch_error =
  ReceiveTransport 'e
| OverreportedLength nat nat

text \<open>
  \<open>DatagramReceiver::receive\<close> fills the borrowed buffer, whose length it cannot change: the
  contents it leaves are read at every index of the buffer.
\<close>

type_synonym ('r, 'e) datagram_receiver = "'r \<Rightarrow> ('e + received_datagram) \<times> (nat \<Rightarrow> u8) \<times> 'r"

record ('r, 'i, 'ch) receive_dispatcher =
  rx_receiver :: 'r
  rx_registry :: "('i, 'ch) transactions"
  rx_buffer :: bytes

definition receive_dispatcher_new :: "'r \<Rightarrow> ('i, 'ch) transactions \<Rightarrow> ('r, 'i, 'ch) receive_dispatcher" where
  "receive_dispatcher_new receiver registry =
     \<lparr>rx_receiver = receiver, rx_registry = registry, rx_buffer = replicate MAX_INBOUND_DATAGRAM_BYTES 0\<rparr>"

definition dispatch_message ::
  "(accepted_response, 'ch) mpsc \<Rightarrow> socket_addr \<Rightarrow> krpc_message \<Rightarrow> ('r, 'i, 'ch) receive_dispatcher
   \<Rightarrow> receive_dispatch_outcome \<times> ('r, 'i, 'ch) receive_dispatcher" where
  "dispatch_message mp source message rx =
     (if km_message_type message = bstr ''q'' then (ReceivedQuery source message, rx)
      else if km_message_type message = bstr ''r''
      then let (delivery, registry) = deliver mp source message (rx_registry rx)
           in (ReceivedResponse source delivery, rx\<lparr>rx_registry := registry\<rparr>)
      else if km_message_type message = bstr ''e''
      then let (delivery, registry) = deliver mp source message (rx_registry rx)
           in (ReceivedError source delivery, rx\<lparr>rx_registry := registry\<rparr>)
      else (ReceivedIgnored source message, rx))"

definition receive_one ::
  "('r, 'e) datagram_receiver \<Rightarrow> (accepted_response, 'ch) mpsc \<Rightarrow> ('r, 'i, 'ch) receive_dispatcher
   \<Rightarrow> (('e receive_dispatch_error + receive_dispatch_outcome) \<times> ('r, 'i, 'ch) receive_dispatcher) option" where
  "receive_one recv mp rx =
     (let (received, contents, receiver) = recv (rx_receiver rx);
          rx = rx\<lparr>rx_receiver := receiver, rx_buffer := map contents [0..<length (rx_buffer rx)]\<rparr>
      in (case received of
            Inl e \<Rightarrow> Some (Inl (ReceiveTransport e), rx)
          | Inr datagram \<Rightarrow>
              if rd_length datagram > length (rx_buffer rx)
              then Some (Inl (OverreportedLength (rd_length datagram) (length (rx_buffer rx))), rx)
              else if rd_length datagram = 0 then Some (Inr (ZeroLength (rd_source datagram)), rx)
              else
                (case decode_inbound (take (rd_length datagram) (rx_buffer rx)) of
                   Fault \<Rightarrow> None
                 | Err e \<Rightarrow> Some (Inr (DecodeRejected (rd_source datagram) e), rx)
                 | Ok message _ \<Rightarrow>
                     (let (outcome, rx) = dispatch_message mp (rd_source datagram) message rx
                      in Some (Inr outcome, rx)))))"

section \<open>Sending a reply\<close>

datatype 'e dht_send_error = SendEncode wire_error | SendTransport 'e

type_synonym ('n, 'e) datagram_sender = "socket_addr \<Rightarrow> bytes \<Rightarrow> 'n \<Rightarrow> ('e + unit) \<times> 'n"

definition send_dht_reply ::
  "(nat \<Rightarrow> bvalue \<Rightarrow> string + bytes) \<Rightarrow> ('n, 'e) datagram_sender \<Rightarrow> dht_reply \<Rightarrow> 'n
   \<Rightarrow> ('e dht_send_error + unit) \<times> 'n" where
  "send_dht_reply emit send reply n =
     (case reply_wire emit reply of
        Inl e \<Rightarrow> (Inl (SendEncode e), n)
      | Inr wire \<Rightarrow>
          (case send (re_destination reply) wire n of
             (Inl e, n) \<Rightarrow> (Inl (SendTransport e), n)
           | (Inr _, n) \<Rightarrow> (Inr (), n)))"

section \<open>The driver\<close>

datatype dht_driver_outcome =
  NoReply receive_dispatch_outcome
| Sent dht_dispatch_outcome

datatype ('r, 's) dht_driver_error =
  DriverReceive "'r receive_dispatch_error"
| DriverSend dht_dispatch_outcome "'s dht_send_error"

text \<open>What the driver is built from and does not change.\<close>

record ('r, 're, 'n, 'se, 'ch, 's, 'dch, 'p) driver_env =
  en_receive :: "('r, 're) datagram_receiver"
  en_send :: "('n, 'se) datagram_sender"
  en_emit :: "nat \<Rightarrow> bvalue \<Rightarrow> string + bytes"
  en_responses :: "(accepted_response, 'ch) mpsc"
  en_nodes :: "(routing_node, 'dch, 'p) permit_mpsc"
  en_digests :: digests
  en_table :: "'s dht_responder_table"
  en_responder :: dht_responder

record ('r, 'i, 'ch, 'n, 's, 'dch) dht_driver =
  dv_receiver :: "('r, 'i, 'ch) receive_dispatcher"
  dv_sender :: 'n
  dv_table :: 's
  dv_discovery :: "'dch dht_discovery option"

definition drive_one ::
  "('r, 're, 'n, 'se, 'ch, 's, 'dch, 'p) driver_env \<Rightarrow> ('r, 'i, 'ch, 'n, 's, 'dch) dht_driver
   \<Rightarrow> ((('re, 'se) dht_driver_error + dht_driver_outcome) \<times> ('r, 'i, 'ch, 'n, 's, 'dch) dht_driver) option" where
  "drive_one en dv =
     (case receive_one (en_receive en) (en_responses en) (dv_receiver dv) of
        None \<Rightarrow> None
      | Some (Inl e, rx) \<Rightarrow> Some (Inl (DriverReceive e), dv\<lparr>dv_receiver := rx\<rparr>)
      | Some (Inr received, rx) \<Rightarrow>
          let dv = dv\<lparr>dv_receiver := rx\<rparr>
          in (case received of
                ReceivedQuery source message \<Rightarrow>
                  (case dispatch (en_digests en) (en_table en) (en_nodes en) (en_responder en)
                          source message (dv_table dv) (dv_discovery dv) of
                     None \<Rightarrow> None
                   | Some (dispatched, table, discovery) \<Rightarrow>
                       let dv = dv\<lparr>dv_table := table, dv_discovery := discovery\<rparr>
                       in (case send_dht_reply (en_emit en) (en_send en) (outcome_reply dispatched) (dv_sender dv) of
                             (Inl e, n) \<Rightarrow> Some (Inl (DriverSend dispatched e), dv\<lparr>dv_sender := n\<rparr>)
                           | (Inr _, n) \<Rightarrow> Some (Inr (Sent dispatched), dv\<lparr>dv_sender := n\<rparr>)))
              | _ \<Rightarrow> Some (Inr (NoReply received), dv)))"

section \<open>Replies can be encoded\<close>

lemma empty_return_simps [simp]:
  "mr_id (empty_return i) = i" "mr_nodes (empty_return i) = None" "mr_nodes6 (empty_return i) = None"
  by (simp_all add: empty_return_def)

lemma family_ok_None [simp]: "family_ok ipv6 None"
  by (simp add: family_ok_def)

text \<open>A return of the responder has IPv4 nodes in its only node list.\<close>

lemma respond_encodes:
  assumes "respond dg dt r source message s = Some (Inr ret, s')"
  shows "family_ok False (mr_nodes ret) \<and> mr_nodes6 ret = None \<and> km_args message \<noteq> None"
proof -
  obtain args where args: "km_args message = Some args"
    using assms by (cases "km_args message") (auto simp: respond_def)
  consider "ret = empty_return (dr_local_id r)" | "respond_find_node dt r args s = Some (Inr ret, s')"
    | "respond_get_peers dg dt r source args s = Some (Inr ret, s')"
    | "respond_announce_peer dg dt r source args s = Some (Inr ret, s')"
    | "respond_sample_infohashes dt r s = Some (Inr ret, s')"
    using assms args by (auto simp: respond_def split: if_splits)
  then show ?thesis
  proof cases
    case 2
    then show ?thesis
      using args by (cases "required_id (ma_target args)")
        (auto simp: respond_find_node_def rbind_Inr dest: project_nodes_v4)
  next
    case 3
    then obtain h l where "required_id (ma_info_hash args) = Inr h" "dt_get_hash_or_closest_nodes dt s h = Some l"
      by (cases "required_id (ma_info_hash args)") (auto simp: respond_get_peers_def)
    with 3 args show ?thesis
      by (cases l) (auto simp: respond_get_peers_def rbind_Inr dest: project_nodes_v4)
  next
    case 4
    then show ?thesis
      using args by (cases "required_id (ma_info_hash args)") (auto simp: respond_announce_peer_def split: if_splits)
  next
    case 5
    then show ?thesis
      using args by (auto simp: respond_sample_infohashes_def rbind_Inr Let_def dest: project_nodes_v4)
  qed (use args in simp)
qed

lemma compose_encodes:
  assumes "\<And>ret. response = Some ret \<Longrightarrow> family_ok False (mr_nodes ret) \<and> mr_nodes6 ret = None"
  shows "\<exists>v. encode_message (re_message (compose_reply source request response error)) = Inr v"
proof -
  have "\<exists>v. map_transpose encode_return response = Inr v"
    using assms by (cases response) (auto simp: rbind_Inr encode_return_Inr)
  then show ?thesis
    by (auto simp: encode_message_Inr compose_reply_def compose_reply_for_transaction_def)
qed

lemma project_nodes_Inl: "project_nodes nodes = Inl e \<Longrightarrow> \<exists>node. e = NativeIpv6Node node"
  by (auto simp: project_nodes_eq split: option.splits)

lemma rbind_Inl: "rbind m f = Inl e \<longleftrightarrow> m = Inl e \<or> (\<exists>x. m = Inr x \<and> f x = Inl e)"
  by (cases m) auto

text \<open>The protocol errors of the responder are not the generic server error.\<close>

lemma respond_protocol_error:
  assumes "respond dg dt r source message s = Some (Inl (Protocol e), s')"
  shows "e \<noteq> generic_server_error"
proof -
  have other: "Protocol e \<in> {missing_arguments, invalid_token, method_unknown} \<Longrightarrow> e \<noteq> generic_server_error"
    by (auto simp: error_defs generic_server_error_def)
  have required: "required_id i = Inl (Protocol e) \<Longrightarrow> Protocol e = missing_arguments" for i
    by (cases i) (auto split: if_splits)
  have "Protocol e = missing_arguments" if "respond_get_peers dg dt r source args s = Some (Inl (Protocol e), s')" for args
  proof (cases "required_id (ma_info_hash args)")
    case (Inr h)
    with that obtain l where "dt_get_hash_or_closest_nodes dt s h = Some l"
      by (auto simp: respond_get_peers_def)
    with that Inr show ?thesis
      by (cases l) (auto simp: respond_get_peers_def rbind_Inl dest: project_nodes_Inl)
  qed (use that required in \<open>auto simp: respond_get_peers_def\<close>)
  with assms required have "Protocol e \<in> {missing_arguments, invalid_token, method_unknown}"
    by (auto simp: respond_def respond_find_node_def respond_announce_peer_def
        respond_sample_infohashes_def Let_def rbind_Inl dest!: project_nodes_Inl
        split: option.splits if_splits sum.splits)
  then show ?thesis by (rule other)
qed

lemma dispatch_spec:
  assumes "kt_ok t"
  shows "\<exists>outcome t' discovery'. dispatch dg (ktable_backend clock) mp r source request t discovery = Some (outcome, t', discovery')
    \<and> kt_batch_command clock (issued_commands dg r source request) t = Some t'
    \<and> (\<exists>response error. outcome_reply outcome =
          \<lparr>re_destination = source,
           re_message = \<lparr>km_transaction_id = km_transaction_id request, km_message_type = bstr ''r'',
             km_query = [], km_args = None, km_response = response, km_error = error,
             km_observed_addr = None, km_read_only = False, km_client_id = []\<rparr>\<rparr>
        \<and> (response = None \<longleftrightarrow> error \<noteq> None)
        \<and> (error = Some generic_server_error \<longleftrightarrow> (\<exists>cause. outcome = LocalFailure (outcome_reply outcome) cause))
        \<and> discovery' = (case (response, km_args request) of
             (Some _, Some args) \<Rightarrow> map_option (\<lambda>d. snd (offer mp \<lparr>rn_id = ma_id args, rn_addr = source\<rparr> d)) discovery
           | _ \<Rightarrow> discovery))
    \<and> (\<exists>v. encode_message (re_message (outcome_reply outcome)) = Inr v)"
proof -
  obtain res t' where res: "respond dg (ktable_backend clock) r source request t = Some (res, t')"
    "kt_batch_command clock (issued_commands dg r source request) t = Some t'"
    using ktb.respond_total [OF assms, where clock = clock and dg = dg and r = r and source = source and message = request]
    by auto
  show ?thesis
  proof (cases res)
    case (Inr ret)
    note ret = respond_encodes [OF res(1) [unfolded Inr]]
    then obtain args where args: "km_args request = Some args"
      by blast
    have "\<exists>v. encode_message (re_message (compose_response source request ret)) = Inr v"
      unfolding compose_response_def using ret by (intro compose_encodes) blast
    with res Inr args show ?thesis
      by (cases discovery)
        (auto simp: dispatch_def compose_response_def compose_reply_def compose_reply_for_transaction_def)
  next
    case (Inl e)
    have encodes: "\<exists>v. encode_message (re_message (compose_error source request error)) = Inr v" for error
      unfolding compose_error_def by (rule compose_encodes) simp
    show ?thesis
    proof (cases e)
      case (Protocol error)
      with res Inl encodes [of error] respond_protocol_error [OF res(1) [unfolded Inl Protocol]] show ?thesis
        by (auto simp: dispatch_def compose_error_def compose_reply_def compose_reply_for_transaction_def)
    next
      case (NativeIpv6Node node)
      with res Inl encodes [of generic_server_error] show ?thesis
        by (auto simp: dispatch_def compose_error_def compose_reply_def compose_reply_for_transaction_def)
    qed
  qed
qed

text \<open>
  (C39)
  The reply to a query, for every table history and every request: it goes to the source, echoes
  the transaction identifier in an \<open>r\<close> envelope with exactly one of a return and an error and
  nothing else, and its dictionary can be encoded. A local failure is the one case answered with
  the generic server error, the sender is offered to discovery exactly when there is a return, and
  the table changes by an accepted announcement only.
\<close>

theorem dispatch_reply_exact:
  "\<exists>t outcome t' discovery'. kt_batch_command clock commands (kt_new origin) = Some t
    \<and> dispatch dg (ktable_backend clock) mp r source request t discovery = Some (outcome, t', discovery')
    \<and> kt_batch_command clock (commands @ issued_commands dg r source request) (kt_new origin) = Some t'
    \<and> (\<exists>response error. outcome_reply outcome =
          \<lparr>re_destination = source,
           re_message = \<lparr>km_transaction_id = km_transaction_id request, km_message_type = bstr ''r'',
             km_query = [], km_args = None, km_response = response, km_error = error,
             km_observed_addr = None, km_read_only = False, km_client_id = []\<rparr>\<rparr>
        \<and> (response = None \<longleftrightarrow> error \<noteq> None)
        \<and> (error = Some generic_server_error \<longleftrightarrow> (\<exists>cause. outcome = LocalFailure (outcome_reply outcome) cause))
        \<and> discovery' = (case (response, km_args request) of
             (Some _, Some args) \<Rightarrow> map_option (\<lambda>d. snd (offer mp \<lparr>rn_id = ma_id args, rn_addr = source\<rparr> d)) discovery
           | _ \<Rightarrow> discovery))
    \<and> (\<exists>v. encode_message (re_message (outcome_reply outcome)) = Inr v)"
proof -
  obtain t where t: "kt_batch_command clock commands (kt_new origin) = Some t" "kt_ok t"
    using kt_history by blast
  have "kt_batch_command clock (commands @ issued) (kt_new origin) = kt_batch_command clock issued t" for issued
    using t(1) by (simp add: kt_batch_command_append)
  with t(1) dispatch_spec [OF t(2), of dg clock mp r source request discovery] show ?thesis
    by auto
qed

section \<open>One step of the node\<close>

lemma dispatch_message_registry:
  "dispatch_message mp source message rx = (outcome, rx') \<Longrightarrow>
   rx_buffer rx' = rx_buffer rx
   \<and> (rx_registry rx' = rx_registry rx \<or> rx_registry rx' = snd (deliver mp source message (rx_registry rx)))"
  by (auto simp: dispatch_message_def split: if_splits prod.splits)

lemma receive_one_spec:
  "\<exists>result rx'. receive_one recv mp rx = Some (result, rx') \<and> length (rx_buffer rx') = length (rx_buffer rx)
    \<and> (rx_registry rx' = rx_registry rx
       \<or> (\<exists>source message. rx_registry rx' = snd (deliver mp source message (rx_registry rx))))"
proof -
  obtain received contents receiver where recv: "recv (rx_receiver rx) = (received, contents, receiver)"
    by (metis prod_cases3)
  let ?rx = "rx\<lparr>rx_receiver := receiver, rx_buffer := map contents [0..<length (rx_buffer rx)]\<rparr>"
  show ?thesis
  proof (cases received)
    case (Inr datagram)
    let ?decoded = "decode_inbound (take (rd_length datagram) (rx_buffer ?rx))"
    show ?thesis
    proof (cases ?decoded)
      case (Ok message cur)
      obtain outcome rx' where "dispatch_message mp (rd_source datagram) message ?rx = (outcome, rx')"
        by force
      with recv Inr Ok dispatch_message_registry [OF this] show ?thesis
        by (auto simp: receive_one_def Let_def)
    qed (use recv Inr decode_inbound_no_fault in \<open>auto simp: receive_one_def Let_def\<close>)
  qed (use recv in \<open>auto simp: receive_one_def\<close>)
qed

lemma send_dht_reply_cases:
  assumes "send_dht_reply emit send reply n = (result, n')" and "encode_message (re_message reply) = Inr v"
  shows "case result of
      Inr _ \<Rightarrow> \<exists>wire. krpc_encode emit (re_message reply) = Inr wire \<and> send (re_destination reply) wire n = (Inr (), n')
    | Inl (SendTransport e) \<Rightarrow>
        \<exists>wire. krpc_encode emit (re_message reply) = Inr wire \<and> send (re_destination reply) wire n = (Inl e, n')
    | Inl (SendEncode e) \<Rightarrow> n' = n \<and> (\<exists>e'. emit 3 v = Inl e')"
  using assms
  by (cases "emit 3 v") (auto simp: send_dht_reply_def reply_wire_def krpc_encode_def split: sum.splits prod.splits)


text \<open>A socket that reports an empty datagram, and a node around it.\<close>

definition example_env :: "(unit, string, unit, string, accepted_response fifo, ktable, routing_node fifo, unit) driver_env" where
  "example_env =
     \<lparr>en_receive = \<lambda>_. (Inr \<lparr>rd_length = 0, rd_source = SocketV4 (Ipv4Addr 10 0 0 1) 1\<rparr>, \<lambda>_. 0, ()),
      en_send = \<lambda>_ _ n. (Inr (), n), en_emit = \<lambda>_ _. Inl ''refused'', en_responses = fifo_mpsc,
      en_nodes = example_permits, en_digests = example_digests, en_table = ktable_backend (\<lambda>_. 0),
      en_responder = example_responder\<rparr>"

definition example_driver :: "(unit, unit, accepted_response fifo, unit, ktable, routing_node fifo) dht_driver" where
  "example_driver =
     \<lparr>dv_receiver = receive_dispatcher_new () \<lparr>tx_issuer = (), tx_registry = registry_default, tx_channels = []\<rparr>,
      dv_sender = (), dv_table = kt_new id20_ZERO, dv_discovery = None\<rparr>"


end
