(* ===== verification/Ping_Find_Node.thy ===== *)
theory Ping_Find_Node
  imports Driver
begin

text \<open>
  \<open>bitmagnet-dht/src/ping_find_node.rs\<close>, \<open>ping_find_node_dispatch.rs\<close>, \<open>ping_find_node_send.rs\<close> and
  \<open>ping_find_node_driver.rs\<close>: the earlier responder that owns only \<open>ping\<close> and \<open>find_node\<close> over a
  bare node table. Its model is written from its own sources; the property is that it agrees with
  the full responder on the two methods it owns.
\<close>

section \<open>Responder\<close>

datatype ping_find_node_error =
  PfnProtocol krpc_error
| PfnNativeIpv6Node routing_node

definition pfn_missing_arguments :: ping_find_node_error where
  "pfn_missing_arguments = PfnProtocol \<lparr>ke_code = 203, ke_message = bstr ''missing arguments''\<rparr>"

definition pfn_empty_return :: "id20 \<Rightarrow> message_return" where
  "pfn_empty_return i =
     \<lparr>mr_id = i, mr_nodes = None, mr_nodes6 = None, mr_token = None, mr_values = None,
      mr_interval = None, mr_num = None, mr_samples = None, mr_seeders_bloom = None,
      mr_peers_bloom = None\<rparr>"

definition pfn_compact_ipv4_node :: "routing_node \<Rightarrow> ping_find_node_error + compact_node" where
  "pfn_compact_ipv4_node node =
     rbind
       (case rn_addr node of
          SocketV4 ip _ \<Rightarrow> Inr (IpV4 ip)
        | SocketV6 ip _ _ _ \<Rightarrow>
            (case to_ipv4_mapped ip of
               Some v4 \<Rightarrow> Inr (IpV4 v4)
             | None \<Rightarrow> Inl (PfnNativeIpv6Node node)))
       (\<lambda>ip. Inr \<lparr>cn_id = rn_id node, cn_addr = \<lparr>ca_ip = ip, ca_port = socket_port (rn_addr node)\<rparr>\<rparr>)"

definition pfn_respond_ping :: "node_table \<Rightarrow> krpc_message \<Rightarrow> ping_find_node_error + message_return" where
  "pfn_respond_ping table message =
     rbind (ok_or (km_args message) pfn_missing_arguments) (\<lambda>_. Inr (pfn_empty_return (nt_origin table)))"

text \<open>\<open>None\<close> is the panic of a table lookup.\<close>

definition pfn_respond_find_node ::
  "node_table \<Rightarrow> krpc_message \<Rightarrow> (ping_find_node_error + message_return) option" where
  "pfn_respond_find_node table message =
     (case rbind (ok_or (km_args message) pfn_missing_arguments) (\<lambda>args.
             ok_or (filter_opt (\<lambda>target. target \<noteq> id20_ZERO) (ma_target args)) pfn_missing_arguments) of
        Inl e \<Rightarrow> Some (Inl e)
      | Inr target \<Rightarrow>
          map_option
            (\<lambda>closest.
               rbind (if closest = [] then Inr None
                      else rbind (collect_result (map pfn_compact_ipv4_node closest)) (\<lambda>ns. Inr (Some ns)))
                 (\<lambda>nodes. Inr ((pfn_empty_return (nt_origin table))\<lparr>mr_nodes := nodes\<rparr>)))
            (nt_closest table target))"

definition pfn_respond ::
  "node_table \<Rightarrow> krpc_message \<Rightarrow> (ping_find_node_error + message_return) option option" where
  "pfn_respond table message =
     (if km_query message = bstr ''ping'' then Some (Some (pfn_respond_ping table message))
      else if km_query message = bstr ''find_node'' then map_option Some (pfn_respond_find_node table message)
      else Some None)"

section \<open>Dispatch\<close>

record ping_find_node_reply =
  pr_destination :: socket_addr
  pr_message :: krpc_message

datatype ping_find_node_dispatch_outcome =
  PfnReply ping_find_node_reply
| PfnLocalFailure ping_find_node_reply ping_find_node_error

definition pfn_reply ::
  "socket_addr \<Rightarrow> krpc_message \<Rightarrow> message_return option \<Rightarrow> krpc_error option \<Rightarrow> ping_find_node_reply" where
  "pfn_reply destination request response error =
     \<lparr>pr_destination = destination,
      pr_message =
        \<lparr>km_transaction_id = km_transaction_id request, km_message_type = bstr ''r'', km_query = [],
         km_args = None, km_response = response, km_error = error, km_observed_addr = None,
         km_read_only = False, km_client_id = []\<rparr>\<rparr>"

definition pfn_generic_server_error :: krpc_error where
  "pfn_generic_server_error = \<lparr>ke_code = 202, ke_message = bstr ''server error''\<rparr>"

fun pfn_outcome ::
  "socket_addr \<Rightarrow> krpc_message \<Rightarrow> ping_find_node_error + message_return \<Rightarrow> ping_find_node_dispatch_outcome" where
  "pfn_outcome source request (Inr response) = PfnReply (pfn_reply source request (Some response) None)"
| "pfn_outcome source request (Inl (PfnProtocol error)) = PfnReply (pfn_reply source request None (Some error))"
| "pfn_outcome source request (Inl (PfnNativeIpv6Node node)) =
     PfnLocalFailure (pfn_reply source request None (Some pfn_generic_server_error)) (PfnNativeIpv6Node node)"

text \<open>The outer \<open>None\<close> is a panic, the inner one a method the dispatcher does not own.\<close>

definition pfn_dispatch ::
  "node_table \<Rightarrow> socket_addr \<Rightarrow> krpc_message \<Rightarrow> ping_find_node_dispatch_outcome option option" where
  "pfn_dispatch table source request =
     map_option (map_option (pfn_outcome source request)) (pfn_respond table request)"

definition pfn_wire :: "(nat \<Rightarrow> bvalue \<Rightarrow> string + bytes) \<Rightarrow> ping_find_node_reply \<Rightarrow> wire_error + bytes" where
  "pfn_wire emit reply = krpc_encode emit (pr_message reply)"

section \<open>Sending and driving\<close>

datatype 'e ping_find_node_send_error = PfnSendEncode wire_error | PfnSendTransport 'e

definition send_ping_find_node_reply ::
  "(nat \<Rightarrow> bvalue \<Rightarrow> string + bytes) \<Rightarrow> ('n, 'e) datagram_sender \<Rightarrow> ping_find_node_reply \<Rightarrow> 'n
   \<Rightarrow> ('e ping_find_node_send_error + unit) \<times> 'n" where
  "send_ping_find_node_reply emit send reply n =
     (case pfn_wire emit reply of
        Inl e \<Rightarrow> (Inl (PfnSendEncode e), n)
      | Inr wire \<Rightarrow>
          (case send (pr_destination reply) wire n of
             (Inl e, n) \<Rightarrow> (Inl (PfnSendTransport e), n)
           | (Inr _, n) \<Rightarrow> (Inr (), n)))"

datatype ping_find_node_driver_outcome =
  PfnNoReply receive_dispatch_outcome
| PfnSent ping_find_node_dispatch_outcome

datatype ('r, 's) ping_find_node_driver_error =
  PfnReceive "'r receive_dispatch_error"
| PfnSend ping_find_node_dispatch_outcome "'s ping_find_node_send_error"

fun pfn_outcome_reply :: "ping_find_node_dispatch_outcome \<Rightarrow> ping_find_node_reply" where
  "pfn_outcome_reply (PfnReply reply) = reply"
| "pfn_outcome_reply (PfnLocalFailure reply _) = reply"

record ('r, 'i, 'ch, 'n) ping_find_node_driver =
  pd_receiver :: "('r, 'i, 'ch) receive_dispatcher"
  pd_sender :: 'n

definition pfn_drive_one ::
  "(nat \<Rightarrow> bvalue \<Rightarrow> string + bytes) \<Rightarrow> ('r, 're) datagram_receiver \<Rightarrow> ('n, 'se) datagram_sender
   \<Rightarrow> (accepted_response, 'ch) mpsc \<Rightarrow> node_table \<Rightarrow> ('r, 'i, 'ch, 'n) ping_find_node_driver
   \<Rightarrow> ((('re, 'se) ping_find_node_driver_error + ping_find_node_driver_outcome)
        \<times> ('r, 'i, 'ch, 'n) ping_find_node_driver) option" where
  "pfn_drive_one emit recv send mp table pd =
     (case receive_one recv mp (pd_receiver pd) of
        None \<Rightarrow> None
      | Some (Inl e, rx) \<Rightarrow> Some (Inl (PfnReceive e), pd\<lparr>pd_receiver := rx\<rparr>)
      | Some (Inr received, rx) \<Rightarrow>
          let pd = pd\<lparr>pd_receiver := rx\<rparr>
          in (case received of
                ReceivedQuery source message \<Rightarrow>
                  (case pfn_dispatch table source message of
                     None \<Rightarrow> None
                   | Some None \<Rightarrow> Some (Inr (PfnNoReply (ReceivedQuery source message)), pd)
                   | Some (Some dispatched) \<Rightarrow>
                       (case send_ping_find_node_reply emit send (pfn_outcome_reply dispatched) (pd_sender pd) of
                          (Inl e, n) \<Rightarrow> Some (Inl (PfnSend dispatched e), pd\<lparr>pd_sender := n\<rparr>)
                        | (Inr _, n) \<Rightarrow> Some (Inr (PfnSent dispatched), pd\<lparr>pd_sender := n\<rparr>)))
              | _ \<Rightarrow> Some (Inr (PfnNoReply received), pd)))"

section \<open>Agreement with the full responder\<close>

fun as_dht_error :: "ping_find_node_error \<Rightarrow> dht_responder_error" where
  "as_dht_error (PfnProtocol e) = Protocol e"
| "as_dht_error (PfnNativeIpv6Node node) = NativeIpv6Node node"

definition as_dht_result :: "ping_find_node_error + message_return \<Rightarrow> dht_responder_error + message_return" where
  "as_dht_result = map_sum as_dht_error id"

definition as_dht_reply :: "ping_find_node_reply \<Rightarrow> dht_reply" where
  "as_dht_reply reply = \<lparr>re_destination = pr_destination reply, re_message = pr_message reply\<rparr>"

fun as_dht_outcome :: "ping_find_node_dispatch_outcome \<Rightarrow> dht_dispatch_outcome" where
  "as_dht_outcome (PfnReply reply) = DispatchReply (as_dht_reply reply)"
| "as_dht_outcome (PfnLocalFailure reply cause) = LocalFailure (as_dht_reply reply) (as_dht_error cause)"

lemma as_dht_missing: "as_dht_error pfn_missing_arguments = missing_arguments"
  by (simp add: pfn_missing_arguments_def error_defs)

lemma as_dht_node: "map_sum as_dht_error id (pfn_compact_ipv4_node node) = compact_ipv4_node node"
  by (auto simp: pfn_compact_ipv4_node_def compact_ipv4_node_def split: socket_addr.splits option.splits)

lemma map_sum_collect:
  "map_sum f id (collect_result rs) = collect_result (map (map_sum f id) rs)"
  by (induction rs rule: collect_result.induct) (auto split: sum.splits)

lemma as_dht_nodes:
  "map_sum as_dht_error id
     (if nodes = [] then Inr None
      else rbind (collect_result (map pfn_compact_ipv4_node nodes)) (\<lambda>ns. Inr (Some ns)))
   = project_nodes nodes"
proof -
  have "collect_result (map compact_ipv4_node nodes)
      = map_sum as_dht_error id (collect_result (map pfn_compact_ipv4_node nodes))"
    by (simp add: map_sum_collect comp_def as_dht_node)
  then show ?thesis
    by (cases "collect_result (map pfn_compact_ipv4_node nodes)") (auto simp: project_nodes_def)
qed

lemma pfn_empty_return_eq: "pfn_empty_return = empty_return"
  by (rule ext) (simp add: pfn_empty_return_def empty_return_def)

lemma as_dht_outcome_eq:
  "as_dht_outcome (pfn_outcome source request result) =
     (case map_sum as_dht_error id result of
        Inr response \<Rightarrow> DispatchReply (compose_response source request response)
      | Inl (Protocol error) \<Rightarrow> DispatchReply (compose_error source request error)
      | Inl (NativeIpv6Node node) \<Rightarrow>
          LocalFailure (compose_error source request generic_server_error) (NativeIpv6Node node))"
  by (cases "(source, request, result)" rule: pfn_outcome.cases)
    (auto simp: as_dht_reply_def pfn_reply_def compose_response_def compose_error_def compose_reply_def
      compose_reply_for_transaction_def pfn_generic_server_error_def generic_server_error_def)

text \<open>The two responders on the methods both own, over the nodes of one table.\<close>

lemma pfn_respond_agrees:
  assumes "kt_ok t" and "km_query message \<in> {bstr ''ping'', bstr ''find_node''}"
    and "dr_local_id r = kc_origin (kt_core t)"
  shows "\<exists>result. pfn_respond (kc_nodes (kt_core t)) message = Some (Some result)
    \<and> respond dg (ktable_backend clock) r source message t = Some (map_sum as_dht_error id result, t)"
proof -
  have origin: "nt_origin (kc_nodes (kt_core t)) = dr_local_id r"
    using kt_okD(1) [OF assms(1)] assms(3) by (simp add: kc_ok_def)
  have ping: ?thesis if "km_query message = bstr ''ping''"
    using that by (cases "km_args message")
      (auto simp: pfn_respond_def pfn_respond_ping_def respond_def ok_or_def as_dht_missing pfn_empty_return_eq origin)
  have ?thesis if find: "km_query message = bstr ''find_node''"
  proof (cases "\<exists>args target. km_args message = Some args \<and> ma_target args = Some target \<and> target \<noteq> id20_ZERO")
    case False
    then show ?thesis
      using find by (cases "km_args message"; cases "ma_target (the (km_args message))")
        (auto simp: pfn_respond_def pfn_respond_find_node_def respond_def respond_find_node_def ok_or_def
          filter_opt_def as_dht_missing)
  next
    case True
    then obtain args target where args: "km_args message = Some args" "ma_target args = Some target" "target \<noteq> id20_ZERO"
      by blast
    obtain ns where ns: "kc_closest_nodes (kt_core t) target = Some ns"
      "map (kt_routing_node t) (live_handles_of t ns) = ns"
      using ktable_closest [OF assms(1)] by blast
    have "respond dg (ktable_backend clock) r source message t =
        Some (rbind (project_nodes ns) (\<lambda>nodes. Inr ((empty_return (dr_local_id r))\<lparr>mr_nodes := nodes\<rparr>)), t)"
      using find args ns by (simp add: respond_def respond_find_node_def ktable_backend_def kt_closest_nodes_def)
    moreover have "rbind (project_nodes ns) (\<lambda>nodes. Inr (f nodes)) =
        map_sum as_dht_error id (rbind (if ns = [] then Inr None
          else rbind (collect_result (map pfn_compact_ipv4_node ns)) (\<lambda>ns. Inr (Some ns))) (\<lambda>nodes. Inr (f nodes)))"
      for f :: "compact_node list option \<Rightarrow> message_return"
      unfolding as_dht_nodes [symmetric]
      by (cases "collect_result (map pfn_compact_ipv4_node ns)") simp_all
    ultimately show ?thesis
      using find args ns(1)
      by (simp add: pfn_respond_def pfn_respond_find_node_def ok_or_def filter_opt_def kc_closest_nodes_def
          pfn_empty_return_eq origin)
  qed
  with ping assms(2) show ?thesis by auto
qed

text \<open>
  (C40)
  The dispatcher for \<open>ping\<close> and \<open>find_node\<close> over the nodes of a table and the full dispatcher over
  the table agree: on these two methods they give the same reply, and the full one leaves the table
  as it is; every other method the small dispatcher does not own.
\<close>

theorem ping_find_node_agrees:
  "\<exists>t. kt_batch_command clock commands (kt_new origin) = Some t
    \<and> (if km_query request \<in> {bstr ''ping'', bstr ''find_node''}
       then \<exists>outcome. pfn_dispatch (kc_nodes (kt_core t)) source request = Some (Some outcome)
         \<and> dispatch dg (ktable_backend clock) mp (with_token_secret (ktable_backend clock) t secret interval)
             source request t None = Some (as_dht_outcome outcome, t, None)
       else pfn_dispatch (kc_nodes (kt_core t)) source request = Some None)"
proof -
  obtain t where t: "kt_batch_command clock commands (kt_new origin) = Some t" "kt_ok t"
    using kt_history by blast
  let ?r = "with_token_secret (ktable_backend clock) t secret interval"
  show ?thesis
  proof (cases "km_query request \<in> {bstr ''ping'', bstr ''find_node''}")
    case True
    have "dr_local_id ?r = kc_origin (kt_core t)"
      by (simp add: with_token_secret_def ktable_backend_def)
    then obtain result where "pfn_respond (kc_nodes (kt_core t)) request = Some (Some result)"
      "respond dg (ktable_backend clock) ?r source request t = Some (map_sum as_dht_error id result, t)"
      using pfn_respond_agrees [OF t(2) True] by blast
    with t(1) True show ?thesis
      by (intro exI [of _ t]) (auto simp: pfn_dispatch_def dispatch_def as_dht_outcome_eq
        split: sum.splits dht_responder_error.splits)
  next
    case False
    with t(1) show ?thesis
      by (auto simp: pfn_dispatch_def pfn_respond_def)
  qed
qed

end
