(* ===== verification/Stable_Bloom.thy ===== *)
theory Stable_Bloom
  imports Prelude
begin

text \<open>
  \<open>bitmagnet-bloom/src/lib.rs\<close>: the stable Bloom filter. Cells of one to eight bits are packed
  into bytes; an observation decrements a run of adjacent cells and then sets the cells of the
  observed item to their maximum. The theory models the geometry checks, the bit-level access to
  the cells, the observations and the raw codec, and shows that the packed cells implement a list
  of saturating counters.

  \<open>usize\<close> is a natural number below \<open>2 ^ 64\<close>; where the source computes with checked
  operations the bound is written out. The small \<open>u8\<close> counters of the bit loops stay at or below
  eight and are natural numbers. A panic is \<open>None\<close>. The source of random decrement starts, an
  external crate in production, is an argument.
\<close>

section \<open>Geometry\<close>

abbreviation FNV1_OFFSET :: u64 where "FNV1_OFFSET \<equiv> 0xcbf29ce484222325"
abbreviation FNV1_PRIME :: u64 where "FNV1_PRIME \<equiv> 0x00000100000001b3"
abbreviation RAW_FIXED_BYTES :: nat where "RAW_FIXED_BYTES \<equiv> 3 * 8 + 1 + 8 + 2 * 1 + 2 * 8"

record stable_bloom_geometry =
  sg_cell_count :: nat
  sg_bits_per_cell :: u8
  sg_hash_functions :: nat
  sg_decrement_cells :: nat
  sg_packed_bytes :: nat
  sg_encoded_bytes :: nat

datatype stable_bloom_geometry_error =
  ZeroCellCount
| InvalidBitsPerCell u8
| ZeroHashFunctions
| TooManyHashFunctions nat nat
| TooManyDecrementCells nat nat
| PackedLengthOverflow
| EncodedLengthOverflow
| GoMutationOffsetOverflow nat u8

text \<open>\<open>usize::checked_mul\<close> and \<open>usize::checked_add\<close>.\<close>

definition checked_mul :: "nat \<Rightarrow> nat \<Rightarrow> nat option" where
  "checked_mul a b = (if a * b < 2 ^ 64 then Some (a * b) else None)"

definition checked_add :: "nat \<Rightarrow> nat \<Rightarrow> nat option" where
  "checked_add a b = (if a + b < 2 ^ 64 then Some (a + b) else None)"

definition ok_or :: "'e \<Rightarrow> 'a option \<Rightarrow> 'e + 'a" where
  "ok_or e v = (case v of None \<Rightarrow> Inl e | Some x \<Rightarrow> Inr x)"

definition geometry_new ::
  "nat \<Rightarrow> u8 \<Rightarrow> nat \<Rightarrow> nat \<Rightarrow> stable_bloom_geometry_error + stable_bloom_geometry" where
  "geometry_new cell_count bits_per_cell hash_functions decrement_cells =
     (if cell_count = 0 then Inl ZeroCellCount
      else if \<not> (1 \<le> bits_per_cell \<and> bits_per_cell \<le> 8) then Inl (InvalidBitsPerCell bits_per_cell)
      else if hash_functions = 0 then Inl ZeroHashFunctions
      else if hash_functions > cell_count then Inl (TooManyHashFunctions hash_functions cell_count)
      else if decrement_cells > cell_count then Inl (TooManyDecrementCells decrement_cells cell_count)
      else
        rbind (ok_or PackedLengthOverflow (checked_mul cell_count (unat bits_per_cell))) (\<lambda>packed_bits.
        rbind (ok_or PackedLengthOverflow (checked_add packed_bits 7)) (\<lambda>rounded.
        let packed_bytes = rounded div 8
        in rbind (ok_or EncodedLengthOverflow (checked_mul hash_functions 8)) (\<lambda>index_bytes.
           rbind (ok_or EncodedLengthOverflow
                    (Option.bind (checked_add RAW_FIXED_BYTES index_bytes) (\<lambda>v. checked_add v packed_bytes)))
             (\<lambda>encoded_bytes.
                if packed_bits > 2 ^ 32
                then Inl (GoMutationOffsetOverflow cell_count bits_per_cell)
                else Inr \<lparr>sg_cell_count = cell_count, sg_bits_per_cell = bits_per_cell,
                       sg_hash_functions = hash_functions, sg_decrement_cells = decrement_cells,
                       sg_packed_bytes = packed_bytes, sg_encoded_bytes = encoded_bytes\<rparr>)))))"

definition max_cell_value :: "stable_bloom_geometry \<Rightarrow> u8" where
  "max_cell_value g =
     (if sg_bits_per_cell g = 8 then -1
      else ucast ((push_bit (unat (sg_bits_per_cell g)) 1 :: u16) - 1))"

section \<open>Hashing\<close>

definition fnv1_64 :: "bytes \<Rightarrow> u64" where
  "fnv1_64 v = fold (\<lambda>byte hash. (hash * FNV1_PRIME) XOR ucast byte) v FNV1_OFFSET"

definition hash_kernel :: "bytes \<Rightarrow> u64 \<times> u64" where
  "hash_kernel v =
     (let s = fnv1_64 v in (ucast (ucast s :: u32), ucast (ucast (drop_bit 32 s) :: u32)))"

definition bloom_index :: "u64 \<Rightarrow> u64 \<Rightarrow> nat \<Rightarrow> nat \<Rightarrow> nat" where
  "bloom_index low high ordinal cell_count =
     unat ((low + high * of_nat ordinal) mod of_nat cell_count)"

definition hash_indices :: "bytes \<Rightarrow> stable_bloom_geometry \<Rightarrow> nat list" where
  "hash_indices v g =
     (let (low, high) = hash_kernel v
      in map (\<lambda>ordinal. bloom_index low high ordinal (sg_cell_count g)) [0..<sg_hash_functions g])"

section \<open>Packed cells\<close>

text \<open>The mask of the lowest \<open>n\<close> bits of a byte.\<close>

definition low_mask :: "nat \<Rightarrow> u8" where
  "low_mask n = (if n = 8 then -1 else push_bit n 1 - 1)"

function get_bits_loop :: "bytes \<Rightarrow> nat \<Rightarrow> nat \<Rightarrow> u8 \<Rightarrow> nat \<Rightarrow> u8 option" where
  "get_bits_loop v offset len value output_shift =
     (if len = 0 then Some value
      else let byte_index = offset div 8; byte_offset = offset mod 8;
               n = min len (8 - byte_offset); m = low_mask n
           in if byte_index \<ge> length v then None
              else get_bits_loop v (offset + n) (len - n)
                     (value OR push_bit output_shift (drop_bit byte_offset (v ! byte_index) AND m))
                     (output_shift + n))"
  by pat_completeness auto
termination
  by (relation "measure (\<lambda>(v, offset, len, value, s). len)") auto

definition get_bits :: "bytes \<Rightarrow> nat \<Rightarrow> nat \<Rightarrow> u8 option" where
  "get_bits v offset len = get_bits_loop v offset len 0 0"

function set_bits :: "bytes \<Rightarrow> nat \<Rightarrow> nat \<Rightarrow> u8 \<Rightarrow> bytes option" where
  "set_bits v offset len value =
     (if len = 0 then Some v
      else let byte_index = offset div 8; byte_offset = offset mod 8;
               n = min len (8 - byte_offset); lm = low_mask n; m = push_bit byte_offset lm
           in if byte_index \<ge> length v then None
              else set_bits
                     (v[byte_index := (v ! byte_index AND NOT m) OR push_bit byte_offset (value AND lm)])
                     (offset + n) (len - n) (if n = 8 then 0 else drop_bit n value))"
  by pat_completeness auto
termination
  by (relation "measure (\<lambda>(v, offset, len, value). len)") auto

declare get_bits_loop.simps [simp del] set_bits.simps [simp del]

definition get_cell :: "bytes \<Rightarrow> u8 \<Rightarrow> nat \<Rightarrow> u8 option" where
  "get_cell cells bits index = get_bits cells (index * unat bits) (unat bits)"

definition set_cell :: "bytes \<Rightarrow> u8 \<Rightarrow> nat \<Rightarrow> u8 \<Rightarrow> bytes option" where
  "set_cell cells bits index value = set_bits cells (index * unat bits) (unat bits) value"

text \<open>The loop of \<open>decrement_adjacent\<close> over the indexes of the run.\<close>

fun decrement_cells_at :: "u8 \<Rightarrow> nat list \<Rightarrow> bytes \<Rightarrow> bytes option" where
  "decrement_cells_at bits [] cells = Some cells"
| "decrement_cells_at bits (index # indexes) cells =
     Option.bind (get_cell cells bits index) (\<lambda>value.
       if value \<noteq> 0
       then Option.bind (set_cell cells bits index (value - 1)) (decrement_cells_at bits indexes)
       else decrement_cells_at bits indexes cells)"

definition decrement_adjacent :: "bytes \<Rightarrow> u8 \<Rightarrow> nat \<Rightarrow> nat \<Rightarrow> nat \<Rightarrow> bytes option" where
  "decrement_adjacent cells bits start count cell_count =
     decrement_cells_at bits (map (\<lambda>offset. (start + offset) mod cell_count) [0..<count]) cells"

section \<open>The filter\<close>

record stable_bloom_filter =
  sf_geometry :: stable_bloom_geometry
  sf_cells :: bytes
  sf_index_buffer :: "nat list"

text \<open>A \<open>DecrementStartSource\<close>: its \<open>next_start\<close> on its state.\<close>

type_synonym 'r start_source = "nat \<Rightarrow> 'r \<Rightarrow> nat \<times> 'r"

definition filter_new :: "stable_bloom_geometry \<Rightarrow> stable_bloom_filter" where
  "filter_new g =
     \<lparr>sf_geometry = g, sf_cells = replicate (sg_packed_bytes g) 0,
      sf_index_buffer = replicate (sg_hash_functions g) 0\<rparr>"

text \<open>\<open>Iterator::all\<close> over the membership cells: it stops at the first zero.\<close>

fun all_nonzero :: "bytes \<Rightarrow> u8 \<Rightarrow> nat list \<Rightarrow> bool option" where
  "all_nonzero cells bits [] = Some True"
| "all_nonzero cells bits (index # indexes) =
     Option.bind (get_cell cells bits index) (\<lambda>value.
       if value = 0 then Some False else all_nonzero cells bits indexes)"

definition filter_test :: "stable_bloom_filter \<Rightarrow> bytes \<Rightarrow> bool option" where
  "filter_test f v =
     all_nonzero (sf_cells f) (sg_bits_per_cell (sf_geometry f)) (hash_indices v (sf_geometry f))"

definition filter_decrement ::
  "'r start_source \<Rightarrow> stable_bloom_filter \<Rightarrow> 'r \<Rightarrow> (stable_bloom_filter \<times> 'r) option" where
  "filter_decrement next_start f r =
     (let g = sf_geometry f; (start, r) = next_start (sg_cell_count g) r
      in if start < sg_cell_count g
         then map_option (\<lambda>cells. (f\<lparr>sf_cells := cells\<rparr>, r))
                (decrement_adjacent (sf_cells f) (sg_bits_per_cell g) start (sg_decrement_cells g) (sg_cell_count g))
         else None)"

fun set_cells :: "u8 \<Rightarrow> u8 \<Rightarrow> nat list \<Rightarrow> bytes \<Rightarrow> bytes option" where
  "set_cells bits value [] cells = Some cells"
| "set_cells bits value (index # indexes) cells =
     Option.bind (set_cell cells bits index value) (set_cells bits value indexes)"

definition filter_add ::
  "'r start_source \<Rightarrow> stable_bloom_filter \<Rightarrow> bytes \<Rightarrow> 'r \<Rightarrow> (stable_bloom_filter \<times> 'r) option" where
  "filter_add next_start f v r =
     Option.bind (filter_decrement next_start f r) (\<lambda>(f, r).
       map_option (\<lambda>cells. (f\<lparr>sf_cells := cells\<rparr>, r))
         (set_cells (sg_bits_per_cell (sf_geometry f)) (max_cell_value (sf_geometry f))
            (hash_indices v (sf_geometry f)) (sf_cells f)))"

text \<open>The first loop of \<open>test_and_add\<close> reads every membership cell.\<close>

fun probe :: "bytes \<Rightarrow> u8 \<Rightarrow> nat list \<Rightarrow> bool \<Rightarrow> bool option" where
  "probe cells bits [] member = Some member"
| "probe cells bits (index # indexes) member =
     Option.bind (get_cell cells bits index) (\<lambda>value.
       probe cells bits indexes (if value = 0 then False else member))"

definition filter_test_and_add ::
  "'r start_source \<Rightarrow> stable_bloom_filter \<Rightarrow> bytes \<Rightarrow> 'r \<Rightarrow> (bool \<times> stable_bloom_filter \<times> 'r) option" where
  "filter_test_and_add next_start f v r =
     (let (low, high) = hash_kernel v;
          bits_per_cell = sg_bits_per_cell (sf_geometry f);
          cell_count = sg_cell_count (sf_geometry f);
          slots = map (\<lambda>ordinal. bloom_index low high ordinal cell_count) [0..<length (sf_index_buffer f)];
          f = f\<lparr>sf_index_buffer := slots\<rparr>
      in Option.bind (probe (sf_cells f) bits_per_cell slots True) (\<lambda>member.
         Option.bind (filter_decrement next_start f r) (\<lambda>(f, r).
         map_option (\<lambda>cells. (member, f\<lparr>sf_cells := cells\<rparr>, r))
           (set_cells bits_per_cell (max_cell_value (sf_geometry f)) (sf_index_buffer f) (sf_cells f)))))"

section \<open>The raw codec\<close>

datatype 'e stable_bloom_codec_error =
  Io 'e
| Truncated nat nat
| TrailingBytes nat nat
| HeaderMismatch string u64 u64
| CachedIndexOutOfRange nat u64 nat
| ReadLimitOverflow

text \<open>\<open>u64::to_be_bytes\<close> and \<open>u64::from_be_bytes\<close>.\<close>

definition u64_to_be_bytes :: "u64 \<Rightarrow> bytes" where
  "u64_to_be_bytes w = map (\<lambda>i. ucast (drop_bit (8 * i) w)) [7, 6, 5, 4, 3, 2, 1, 0]"

definition u64_from_be_bytes :: "bytes \<Rightarrow> u64" where
  "u64_from_be_bytes v = fold (\<lambda>byte acc. push_bit 8 acc OR ucast byte) v 0"

text \<open>The byte strings \<open>write_to\<close> hands to the writer, in order.\<close>

definition usize_bytes :: "nat \<Rightarrow> bytes" where
  "usize_bytes n = u64_to_be_bytes (of_nat n)"

definition encoded_parts :: "stable_bloom_filter \<Rightarrow> bytes list" where
  "encoded_parts f =
     (let g = sf_geometry f
      in [usize_bytes (sg_cell_count g), usize_bytes (sg_decrement_cells g), usize_bytes (sg_hash_functions g),
          [max_cell_value g], usize_bytes (length (sf_index_buffer f))]
         @ map usize_bytes (sf_index_buffer f)
         @ [[sg_bits_per_cell g, max_cell_value g], usize_bytes (sg_cell_count g),
            usize_bytes (length (sf_cells f)), sf_cells f])"

text \<open>Successive \<open>write_all\<close> calls on a writer; the first failure ends them.\<close>

fun write_parts :: "(bytes \<Rightarrow> 'w \<Rightarrow> ('e + unit) \<times> 'w) \<Rightarrow> bytes list \<Rightarrow> 'w \<Rightarrow> ('e + unit) \<times> 'w" where
  "write_parts write_all [] w = (Inr (), w)"
| "write_parts write_all (part # parts) w =
     (case write_all part w of
        (Inl e, w) \<Rightarrow> (Inl e, w)
      | (Inr _, w) \<Rightarrow> write_parts write_all parts w)"

definition write_to ::
  "(bytes \<Rightarrow> 'w \<Rightarrow> ('e + unit) \<times> 'w) \<Rightarrow> stable_bloom_filter \<Rightarrow> 'w \<Rightarrow> ('e stable_bloom_codec_error + nat) \<times> 'w" where
  "write_to write_all f w =
     (case write_parts write_all (encoded_parts f) w of
        (Inl e, w) \<Rightarrow> (Inl (Io e), w)
      | (Inr _, w) \<Rightarrow> (Inr (sg_encoded_bytes (sf_geometry f)), w))"

text \<open>
  The cursor is the rest of its slice. A read out of range panics; a decoding step returns an
  error or its result with the rest.
\<close>

type_synonym ('e, 'a) reads = "bytes \<Rightarrow> ('e stable_bloom_codec_error + 'a \<times> bytes) option"

definition rd_bind :: "('e, 'a) reads \<Rightarrow> ('a \<Rightarrow> ('e, 'b) reads) \<Rightarrow> ('e, 'b) reads" where
  "rd_bind m f v =
     (case m v of None \<Rightarrow> None | Some (Inl e) \<Rightarrow> Some (Inl e) | Some (Inr (x, rest)) \<Rightarrow> f x rest)"

definition cursor_take :: "nat \<Rightarrow> ('e, bytes) reads" where
  "cursor_take n v = (if n \<le> length v then Some (Inr (take n v, drop n v)) else None)"

definition read_u8 :: "('e, u8) reads" where
  "read_u8 v = (case v of [] \<Rightarrow> None | b # rest \<Rightarrow> Some (Inr (b, rest)))"

definition read_u64 :: "('e, u64) reads" where
  "read_u64 = rd_bind (cursor_take 8) (\<lambda>v rest. Some (Inr (u64_from_be_bytes v, rest)))"

definition expect_u64 :: "string \<Rightarrow> nat \<Rightarrow> ('e, unit) reads" where
  "expect_u64 field expected =
     rd_bind read_u64 (\<lambda>actual rest.
       if actual \<noteq> of_nat expected then Some (Inl (HeaderMismatch field (of_nat expected) actual))
       else Some (Inr ((), rest)))"

definition expect_u8 :: "string \<Rightarrow> u8 \<Rightarrow> ('e, unit) reads" where
  "expect_u8 field expected =
     rd_bind read_u8 (\<lambda>actual rest.
       if actual \<noteq> expected then Some (Inl (HeaderMismatch field (ucast expected) (ucast actual)))
       else Some (Inr ((), rest)))"

fun read_indexes :: "nat \<Rightarrow> nat list \<Rightarrow> ('e, nat list) reads" where
  "read_indexes cell_count [] v = Some (Inr ([], v))"
| "read_indexes cell_count (ordinal # ordinals) v =
     rd_bind read_u64 (\<lambda>raw.
       if unat raw \<ge> cell_count then (\<lambda>_. Some (Inl (CachedIndexOutOfRange ordinal raw cell_count)))
       else rd_bind (read_indexes cell_count ordinals) (\<lambda>indexes rest. Some (Inr (unat raw # indexes, rest)))) v"

definition read_filter :: "stable_bloom_geometry \<Rightarrow> ('e, stable_bloom_filter) reads" where
  "read_filter g =
     rd_bind (expect_u64 ''cell_count'' (sg_cell_count g)) (\<lambda>_.
     rd_bind (expect_u64 ''decrement_cells'' (sg_decrement_cells g)) (\<lambda>_.
     rd_bind (expect_u64 ''hash_functions'' (sg_hash_functions g)) (\<lambda>_.
     rd_bind (expect_u8 ''max_cell_value'' (max_cell_value g)) (\<lambda>_.
     rd_bind (expect_u64 ''index_buffer_length'' (sg_hash_functions g)) (\<lambda>_.
     rd_bind (read_indexes (sg_cell_count g) [0..<sg_hash_functions g]) (\<lambda>index_buffer.
     rd_bind (expect_u8 ''bucket_bits'' (sg_bits_per_cell g)) (\<lambda>_.
     rd_bind (expect_u8 ''bucket_max'' (max_cell_value g)) (\<lambda>_.
     rd_bind (expect_u64 ''bucket_count'' (sg_cell_count g)) (\<lambda>_.
     rd_bind (expect_u64 ''bucket_data_length'' (sg_packed_bytes g)) (\<lambda>_.
     rd_bind (cursor_take (sg_packed_bytes g)) (\<lambda>cells rest.
       Some (Inr (\<lparr>sf_geometry = g, sf_cells = cells, sf_index_buffer = index_buffer\<rparr>, rest)))))))))))))"

definition from_bytes ::
  "bytes \<Rightarrow> stable_bloom_geometry \<Rightarrow> ('e stable_bloom_codec_error + stable_bloom_filter) option" where
  "from_bytes v g =
     (if length v < sg_encoded_bytes g then Some (Inl (Truncated (sg_encoded_bytes g) (length v)))
      else if length v > sg_encoded_bytes g then Some (Inl (TrailingBytes (sg_encoded_bytes g) (length v)))
      else map_option (map_sum id fst) (read_filter g v))"

text \<open>The reader is given by what \<open>take(limit).read_to_end\<close> returns.\<close>

definition read_from ::
  "(nat \<Rightarrow> 'e + bytes) \<Rightarrow> stable_bloom_geometry \<Rightarrow> ('e stable_bloom_codec_error + stable_bloom_filter) option" where
  "read_from reader g =
     (case checked_add (sg_encoded_bytes g) 1 of
        None \<Rightarrow> Some (Inl ReadLimitOverflow)
      | Some limit \<Rightarrow>
          (case reader limit of
             Inl e \<Rightarrow> Some (Inl (Io e))
           | Inr v \<Rightarrow> from_bytes v g))"

section \<open>Packed cells are a list of counters\<close>

text \<open>Bit \<open>k\<close> of the byte string, counted from the low end of each byte.\<close>

definition data_bit :: "bytes \<Rightarrow> nat \<Rightarrow> bool" where
  "data_bit v k = bit (v ! (k div 8)) (k mod 8)"

lemma bit_low_mask: "n \<le> 8 \<Longrightarrow> bit (low_mask n) j \<longleftrightarrow> j < n"
proof (cases "n = 8")
  case False
  then have "low_mask n = mask n"
    by (simp add: low_mask_def mask_eq_exp_minus_1)
  then show "n \<le> 8 \<Longrightarrow> bit (low_mask n) j \<longleftrightarrow> j < n"
    by (auto simp: bit_simps)
qed (simp add: low_mask_def bit_simps)

text \<open>Within one byte the offset does not carry.\<close>

lemma same_byte:
  fixes d offset :: nat
  assumes "d < 8 - offset mod 8"
  shows "(offset + d) div 8 = offset div 8" and "(offset + d) mod 8 = offset mod 8 + d"
proof -
  have carry: "offset + d = offset mod 8 + d + 8 * (offset div 8)" and small: "offset mod 8 + d < 8"
    using assms by auto
  show "(offset + d) div 8 = offset div 8" "(offset + d) mod 8 = offset mod 8 + d"
    using small by (simp_all only: carry div_mult_self2 mod_mult_self2) simp_all
qed

lemma get_bits_loop_spec:
  assumes "offset + len \<le> 8 * length v" and "s + len \<le> 8" and "\<And>j. s \<le> j \<Longrightarrow> \<not> bit x j"
  shows "\<exists>w. get_bits_loop v offset len x s = Some w
    \<and> (\<forall>j. bit w j \<longleftrightarrow> (if j < s then bit x j else j < s + len \<and> data_bit v (offset + (j - s))))"
  using assms
proof (induction len arbitrary: offset x s rule: less_induct)
  case (less len)
  show ?case
  proof (cases "len = 0")
    case True
    then show ?thesis
      using less.prems(3) by (subst get_bits_loop.simps) auto
  next
    case False
    define n where "n = min len (8 - offset mod 8)"
    have n: "0 < n" "n \<le> len" "n \<le> 8 - offset mod 8" "n \<le> 8"
      using False by (auto simp: n_def)
    define y where "y = x OR push_bit s (drop_bit (offset mod 8) (v ! (offset div 8)) AND low_mask n)"
    have inside: "offset div 8 < length v"
      using less.prems(1) False by linarith
    have step: "get_bits_loop v offset len x s = get_bits_loop v (offset + n) (len - n) y (s + n)"
      using False inside by (subst get_bits_loop.simps) (simp add: Let_def y_def flip: n_def)
    have y: "bit y j \<longleftrightarrow> (if j < s then bit x j else j < s + n \<and> data_bit v (offset + (j - s)))" for j
    proof (cases "j < s")
      case False
      then obtain d where "j = s + d"
        using le_Suc_ex not_less by blast
      then show ?thesis
        using less.prems(2,3) n by (auto simp: y_def bit_simps bit_low_mask data_bit_def same_byte)
    qed (auto simp: y_def bit_simps)
    have "\<exists>w. get_bits_loop v (offset + n) (len - n) y (s + n) = Some w
      \<and> (\<forall>j. bit w j \<longleftrightarrow> (if j < s + n then bit y j
           else j < s + n + (len - n) \<and> data_bit v (offset + n + (j - (s + n)))))"
      by (rule less.IH) (use n less.prems(1,2) y in auto)
    then obtain w where w: "get_bits_loop v (offset + n) (len - n) y (s + n) = Some w"
      "bit w j \<longleftrightarrow> (if j < s + n then bit y j
         else j < s + n + (len - n) \<and> data_bit v (offset + n + (j - (s + n))))" for j
      by blast
    have "bit w j \<longleftrightarrow> (if j < s then bit x j else j < s + len \<and> data_bit v (offset + (j - s)))" for j
      using n(1,2) y [of j] w(2) [of j] by (cases "j < s + n") simp_all
    with w(1) show ?thesis
      unfolding step by blast
  qed
qed

lemma data_bit_update:
  assumes "i < length v"
  shows "data_bit (v[i := b]) k \<longleftrightarrow> (if k div 8 = i then bit b (k mod 8) else data_bit v k)"
  using assms by (simp add: data_bit_def nth_list_update)

lemma set_bits_spec:
  assumes "offset + len \<le> 8 * length v"
  shows "\<exists>w. set_bits v offset len x = Some w \<and> length w = length v
    \<and> (\<forall>k. data_bit w k \<longleftrightarrow> (if offset \<le> k \<and> k < offset + len then bit x (k - offset) else data_bit v k))"
  using assms
proof (induction len arbitrary: v offset x rule: less_induct)
  case (less len)
  show ?case
  proof (cases "len = 0")
    case True
    then show ?thesis
      by (subst set_bits.simps) auto
  next
    case False
    define n where "n = min len (8 - offset mod 8)"
    have n: "0 < n" "n \<le> len" "n \<le> 8 - offset mod 8" "n \<le> 8"
      using False by (auto simp: n_def)
    define u where "u = v[offset div 8 := (v ! (offset div 8) AND NOT (push_bit (offset mod 8) (low_mask n)))
        OR push_bit (offset mod 8) (x AND low_mask n)]"
    have inside: "offset div 8 < length v"
      using less.prems(1) False by linarith
    have "(if n = 8 then 0 else drop_bit n x) = drop_bit n x"
      by (auto intro!: bit_word_eqI simp: bit_simps)
    then have step: "set_bits v offset len x = set_bits u (offset + n) (len - n) (drop_bit n x)"
      using False inside by (subst set_bits.simps) (simp add: Let_def u_def flip: n_def)
    have u: "data_bit u k \<longleftrightarrow> (if offset \<le> k \<and> k < offset + n then bit x (k - offset) else data_bit v k)" for k
    proof (cases "offset \<le> k \<and> k < offset + n")
      case True
      then obtain d where d: "k = offset + d" "d < n"
        by (metis le_Suc_ex nat_add_left_cancel_less)
      with n(3) have "k div 8 = offset div 8" "k mod 8 = offset mod 8 + d"
        by (simp_all add: same_byte)
      then show ?thesis
        using d inside n by (auto simp: u_def data_bit_update bit_simps bit_low_mask)
    next
      case False
      then have "\<not> (offset mod 8 \<le> k mod 8 \<and> k mod 8 - offset mod 8 < n)" if "k div 8 = offset div 8"
        using that div_mult_mod_eq [of k 8] div_mult_mod_eq [of offset 8] by arith
      then show ?thesis
        using False inside n by (cases "k div 8 = offset div 8") (auto simp: u_def data_bit_def bit_simps bit_low_mask)
    qed
    have "\<exists>w. set_bits u (offset + n) (len - n) (drop_bit n x) = Some w \<and> length w = length u
      \<and> (\<forall>k. data_bit w k \<longleftrightarrow> (if offset + n \<le> k \<and> k < offset + n + (len - n)
         then bit (drop_bit n x) (k - (offset + n)) else data_bit u k))"
      by (rule less.IH) (use n less.prems in \<open>auto simp: u_def\<close>)
    then obtain w where w: "set_bits u (offset + n) (len - n) (drop_bit n x) = Some w" "length w = length v"
      "data_bit w k \<longleftrightarrow> (if offset + n \<le> k \<and> k < offset + n + (len - n)
         then bit (drop_bit n x) (k - (offset + n)) else data_bit u k)" for k
      by (auto simp: u_def)
    have "data_bit w k \<longleftrightarrow> (if offset \<le> k \<and> k < offset + len then bit x (k - offset) else data_bit v k)" for k
      using n(1,2) u [of k] w(3) [of k] by (cases "offset + n \<le> k") (simp_all add: bit_drop_bit_eq)
    with w(1,2) show ?thesis
      unfolding step by blast
  qed
qed

text \<open>The counters of packed cells, and when \<open>n\<close> of them fit.\<close>

definition cells_of :: "u8 \<Rightarrow> nat \<Rightarrow> bytes \<Rightarrow> u8 list" where
  "cells_of bits n v = map (\<lambda>i. the (get_cell v bits i)) [0..<n]"

definition packed :: "u8 \<Rightarrow> nat \<Rightarrow> bytes \<Rightarrow> bool" where
  "packed bits n v \<longleftrightarrow> unat bits \<in> {1..8} \<and> n * unat bits \<le> 8 * length v"

lemma cells_of_length [simp]: "length (cells_of bits n v) = n"
  by (simp add: cells_of_def)

lemma packed_cell: "packed bits n v \<Longrightarrow> i < n \<Longrightarrow> i * unat bits + unat bits \<le> 8 * length v"
  using mult_le_mono1 [of "Suc i" n "unat bits"] by (simp add: packed_def)

lemma get_cell_spec:
  assumes "packed bits n v" and "i < n"
  shows "get_cell v bits i = Some (cells_of bits n v ! i)"
    and "bit (cells_of bits n v ! i) j \<longleftrightarrow> j < unat bits \<and> data_bit v (i * unat bits + j)"
proof -
  have "unat bits \<le> 8"
    using assms(1) by (simp add: packed_def)
  then obtain w where "get_cell v bits i = Some w"
    "\<forall>j. bit w j \<longleftrightarrow> j < unat bits \<and> data_bit v (i * unat bits + j)"
    using get_bits_loop_spec [OF packed_cell [OF assms], of 0 0] by (auto simp: get_cell_def get_bits_def)
  moreover from this have "cells_of bits n v ! i = w"
    using assms(2) by (simp add: cells_of_def)
  ultimately show "get_cell v bits i = Some (cells_of bits n v ! i)"
    "bit (cells_of bits n v ! i) j \<longleftrightarrow> j < unat bits \<and> data_bit v (i * unat bits + j)"
    by simp_all
qed

lemma same_cell:
  fixes b :: nat
  assumes "j < b"
  shows "i * b \<le> k * b + j \<and> k * b + j < i * b + b \<longleftrightarrow> k = i"
proof
  assume "i * b \<le> k * b + j \<and> k * b + j < i * b + b"
  then have "(k * b + j) div b = i"
    using assms by (intro div_nat_eqI) (simp_all add: mult.commute)
  then show "k = i"
    using assms by simp
qed (use assms in simp)

lemma set_cell_spec:
  assumes "packed bits n v" and "i < n"
  shows "\<exists>w. set_cell v bits i x = Some w \<and> packed bits n w \<and> length w = length v
    \<and> cells_of bits n w = (cells_of bits n v)[i := take_bit (unat bits) x]"
proof -
  obtain w where w: "set_cell v bits i x = Some w" "length w = length v"
    "\<forall>k. data_bit w k \<longleftrightarrow> (if i * unat bits \<le> k \<and> k < i * unat bits + unat bits
       then bit x (k - i * unat bits) else data_bit v k)"
    using set_bits_spec [OF packed_cell [OF assms], of x] by (auto simp: set_cell_def)
  have packed: "packed bits n w"
    using assms(1) w(2) by (simp add: packed_def)
  have "cells_of bits n w ! k = (cells_of bits n v)[i := take_bit (unat bits) x] ! k" if "k < n" for k
  proof (rule bit_word_eqI)
    fix j
    show "bit (cells_of bits n w ! k) j = bit ((cells_of bits n v)[i := take_bit (unat bits) x] ! k) j"
    proof (cases "j < unat bits")
      case True
      then show ?thesis
        using that assms w(3) same_cell [OF True, of i k]
        by (simp add: get_cell_spec(2) [OF packed] get_cell_spec(2) [OF assms(1)] nth_list_update bit_take_bit_iff)
    next
      case False
      then show ?thesis
        using that assms(2)
        by (simp add: get_cell_spec(2) [OF packed] get_cell_spec(2) [OF assms(1)] nth_list_update bit_take_bit_iff)
    qed
  qed
  then have "cells_of bits n w = (cells_of bits n v)[i := take_bit (unat bits) x]"
    by (intro nth_equalityI) simp_all
  then show ?thesis
    using w(1,2) packed by blast
qed

lemma all_nonzero_spec:
  "packed bits n v \<Longrightarrow> \<forall>i\<in>set indexes. i < n
    \<Longrightarrow> all_nonzero v bits indexes = Some (\<forall>i\<in>set indexes. cells_of bits n v ! i \<noteq> 0)"
  by (induction indexes) (simp_all add: get_cell_spec(1))

lemma probe_spec:
  "packed bits n v \<Longrightarrow> \<forall>i\<in>set indexes. i < n
    \<Longrightarrow> probe v bits indexes member = Some (member \<and> (\<forall>i\<in>set indexes. cells_of bits n v ! i \<noteq> 0))"
  by (induction indexes arbitrary: member) (simp_all add: get_cell_spec(1))

text \<open>What a run of decrements and the final writes do to the counters.\<close>

definition decremented :: "nat set \<Rightarrow> u8 list \<Rightarrow> u8 list" where
  "decremented I xs = map (\<lambda>i. if i \<in> I \<and> xs ! i \<noteq> 0 then xs ! i - 1 else xs ! i) [0..<length xs]"

definition overwritten :: "nat set \<Rightarrow> u8 \<Rightarrow> u8 list \<Rightarrow> u8 list" where
  "overwritten I x xs = map (\<lambda>i. if i \<in> I then x else xs ! i) [0..<length xs]"

lemma counters_length [simp]: "length (decremented I xs) = length xs" "length (overwritten I x xs) = length xs"
  by (simp_all add: decremented_def overwritten_def)

lemma counters_nth:
  "i < length xs \<Longrightarrow> decremented I xs ! i = (if i \<in> I \<and> xs ! i \<noteq> 0 then xs ! i - 1 else xs ! i)"
  "i < length xs \<Longrightarrow> overwritten I x xs ! i = (if i \<in> I then x else xs ! i)"
  by (simp_all add: decremented_def overwritten_def)

lemma set_cells_spec:
  assumes "packed bits n v" and "\<forall>i\<in>set indexes. i < n" and "take_bit (unat bits) x = x"
  shows "\<exists>w. set_cells bits x indexes v = Some w \<and> packed bits n w \<and> length w = length v
    \<and> cells_of bits n w = overwritten (set indexes) x (cells_of bits n v)"
  using assms(1,2)
proof (induction indexes arbitrary: v)
  case Nil
  then show ?case
    by (auto intro!: nth_equalityI simp: counters_nth)
next
  case (Cons i indexes)
  obtain w where w: "set_cell v bits i x = Some w" "packed bits n w" "length w = length v"
    "cells_of bits n w = (cells_of bits n v)[i := x]"
    using set_cell_spec [OF Cons.prems(1), of i x] Cons.prems(2) assms(3) by auto
  have "overwritten (set indexes) x (cells_of bits n w) = overwritten (set (i # indexes)) x (cells_of bits n v)"
    by (intro nth_equalityI) (auto simp: counters_nth w(4) nth_list_update)
  then show ?case
    using Cons.IH [OF w(2)] Cons.prems(2) w(1,3) by auto
qed

lemma take_bit_pred:
  fixes c :: u8
  assumes "take_bit b c = c" and "c \<noteq> 0"
  shows "take_bit b (c - 1) = c - 1"
proof -
  have "unat (take_bit b c) = unat c"
    using assms(1) by simp
  then have "unat c < 2 ^ b"
    by (simp only: unsigned_take_bit_eq take_bit_nat_eq_self_iff)
  then have "take_bit b (unat (c - 1)) = unat (c - 1)"
    by (simp add: unat_minus_one [OF assms(2)] take_bit_nat_eq_self)
  then show ?thesis
    by (simp add: word_unat_eq_iff unsigned_take_bit_eq)
qed

lemma decrement_cells_at_spec:
  assumes "packed bits n v" and "\<forall>i\<in>set indexes. i < n" and "distinct indexes"
  shows "\<exists>w. decrement_cells_at bits indexes v = Some w \<and> packed bits n w \<and> length w = length v
    \<and> cells_of bits n w = decremented (set indexes) (cells_of bits n v)"
  using assms
proof (induction indexes arbitrary: v)
  case Nil
  then show ?case
    by (auto intro!: nth_equalityI simp: counters_nth)
next
  case (Cons i indexes)
  let ?c = "cells_of bits n v ! i"
  have i: "i < n" "i \<notin> set indexes" and get: "get_cell v bits i = Some ?c"
    using Cons.prems by (simp_all add: get_cell_spec(1))
  obtain w where w: "(if ?c \<noteq> 0 then set_cell v bits i (?c - 1) else Some v) = Some w" "packed bits n w"
    "length w = length v" "cells_of bits n w = (cells_of bits n v)[i := if ?c \<noteq> 0 then ?c - 1 else ?c]"
  proof (cases "?c = 0")
    case False
    have "take_bit (unat bits) ?c = ?c"
      using i(1) Cons.prems(1) by (intro bit_word_eqI) (auto simp: bit_take_bit_iff get_cell_spec(2))
    from take_bit_pred [OF this False] set_cell_spec [OF Cons.prems(1) i(1), of "?c - 1"] False that
    show thesis by auto
  qed (use that [of v] Cons.prems(1) list_update_id [of "cells_of bits n v" i] in simp)
  have "decremented (set indexes) (cells_of bits n w) = decremented (set (i # indexes)) (cells_of bits n v)"
    using i by (intro nth_equalityI) (auto simp: counters_nth w(4) nth_list_update)
  moreover have "decrement_cells_at bits (i # indexes) v = decrement_cells_at bits indexes w"
    using w(1) get by (cases "?c = 0") auto
  ultimately show ?case
    using Cons.IH [OF w(2)] Cons.prems(2,3) w(3) by auto
qed

section \<open>Valid geometries\<close>

lemma ok_or_Inr [simp]: "ok_or e v = Inr x \<longleftrightarrow> v = Some x"
  by (cases v) (simp_all add: ok_or_def)

lemma checked_Some [simp]:
  "checked_mul a b = Some n \<longleftrightarrow> n = a * b \<and> a * b < 2 ^ 64"
  "checked_add a b = Some n \<longleftrightarrow> n = a + b \<and> a + b < 2 ^ 64"
  by (auto simp: checked_mul_def checked_add_def)

text \<open>What an accepted geometry says, and that exactly the valid parameters are accepted.\<close>

definition geometry_ok :: "stable_bloom_geometry \<Rightarrow> bool" where
  "geometry_ok g \<longleftrightarrow>
     0 < sg_cell_count g \<and> unat (sg_bits_per_cell g) \<in> {1..8}
     \<and> sg_hash_functions g \<in> {1..sg_cell_count g} \<and> sg_decrement_cells g \<le> sg_cell_count g
     \<and> sg_cell_count g * unat (sg_bits_per_cell g) \<le> 2 ^ 32
     \<and> sg_packed_bytes g = (sg_cell_count g * unat (sg_bits_per_cell g) + 7) div 8
     \<and> sg_encoded_bytes g = 51 + 8 * sg_hash_functions g + sg_packed_bytes g"

lemma bits_range: "(1 :: u8) \<le> b \<and> b \<le> 8 \<longleftrightarrow> unat b \<in> {1..8}"
  by (simp add: word_le_nat_alt)

lemma geometry_new_ok: "geometry_new c b h d = Inr g \<Longrightarrow> geometry_ok g"
  by (auto simp: geometry_new_def geometry_ok_def rbind_Inr Let_def bits_range bind_eq_Some_conv
      simp del: One_nat_def split: if_splits)

lemma geometry_okD:
  assumes "geometry_ok g"
  shows "0 < sg_cell_count g" "sg_cell_count g \<le> 2 ^ 32" "sg_packed_bytes g \<le> 2 ^ 32"
    "sg_hash_functions g \<le> 2 ^ 32" "sg_decrement_cells g \<le> 2 ^ 32"
proof -
  have "sg_cell_count g * 1 \<le> sg_cell_count g * unat (sg_bits_per_cell g)"
    using assms by (intro mult_le_mono2) (simp add: geometry_ok_def)
  then have "sg_cell_count g \<le> 2 ^ 32"
    using assms unfolding geometry_ok_def by linarith
  then show "0 < sg_cell_count g" "sg_cell_count g \<le> 2 ^ 32" "sg_packed_bytes g \<le> 2 ^ 32"
    "sg_hash_functions g \<le> 2 ^ 32" "sg_decrement_cells g \<le> 2 ^ 32"
    using assms by (auto simp: geometry_ok_def)
qed

lemma unat_max_cell_value:
  assumes "geometry_ok g"
  shows "unat (max_cell_value g) = 2 ^ unat (sg_bits_per_cell g) - 1"
proof -
  obtain k where k: "sg_bits_per_cell g = of_nat k" "k \<in> {1..8}"
    by (rule that [of "unat (sg_bits_per_cell g)"]) (use assms in \<open>simp_all add: geometry_ok_def\<close>)
  then have "k \<in> {1, 2, 3, 4, 5, 6, 7, 8}"
    by auto
  then show ?thesis
    unfolding max_cell_value_def k(1) by (auto simp: unsigned_minus_1_eq_mask mask_eq_exp_minus_1)
qed

lemma take_bit_max_cell_value:
  "geometry_ok g \<Longrightarrow> take_bit (unat (sg_bits_per_cell g)) (max_cell_value g) = max_cell_value g"
  by (simp add: word_unat_eq_iff unsigned_take_bit_eq unat_max_cell_value take_bit_nat_eq_self)

section \<open>The filter is a list of counters\<close>

definition filter_ok :: "stable_bloom_geometry \<Rightarrow> stable_bloom_filter \<Rightarrow> bool" where
  "filter_ok g f \<longleftrightarrow>
     sf_geometry f = g \<and> length (sf_cells f) = sg_packed_bytes g
     \<and> length (sf_index_buffer f) = sg_hash_functions g \<and> (\<forall>i\<in>set (sf_index_buffer f). i < sg_cell_count g)"

abbreviation counters :: "stable_bloom_filter \<Rightarrow> u8 list" where
  "counters f \<equiv> cells_of (sg_bits_per_cell (sf_geometry f)) (sg_cell_count (sf_geometry f)) (sf_cells f)"

text \<open>The specification: the run of cells to evict, and one observation on counters.\<close>

definition eviction_run :: "stable_bloom_geometry \<Rightarrow> nat \<Rightarrow> nat list" where
  "eviction_run g start = map (\<lambda>offset. (start + offset) mod sg_cell_count g) [0..<sg_decrement_cells g]"

definition observed :: "stable_bloom_geometry \<Rightarrow> nat \<Rightarrow> bytes \<Rightarrow> u8 list \<Rightarrow> u8 list" where
  "observed g start v xs =
     overwritten (set (hash_indices v g)) (max_cell_value g) (decremented (set (eviction_run g start)) xs)"

lemma observed_length [simp]: "length (observed g start v xs) = length xs"
  by (simp add: observed_def)

lemma filter_packed:
  "geometry_ok g \<Longrightarrow> filter_ok g f \<Longrightarrow> packed (sg_bits_per_cell g) (sg_cell_count g) (sf_cells f)"
  by (auto simp: geometry_ok_def filter_ok_def packed_def)

lemma bloom_index_bound: "0 < c \<Longrightarrow> c < 2 ^ 64 \<Longrightarrow> bloom_index low high k c < c"
proof -
  assume "0 < c" and "c < 2 ^ 64"
  then have c: "unat (of_nat c :: u64) = c"
    by (simp add: unat_of_nat take_bit_nat_eq_self)
  then show ?thesis
    using \<open>0 < c\<close> mod_less_divisor [of c] by (simp add: bloom_index_def unat_mod_distrib)
qed

lemma hash_indices_bound: "geometry_ok g \<Longrightarrow> \<forall>i\<in>set (hash_indices v g). i < sg_cell_count g"
  using geometry_okD(1,2) [of g]
  by (auto simp: hash_indices_def split: prod.splits intro!: bloom_index_bound)

lemma eviction_run_bound: "0 < sg_cell_count g \<Longrightarrow> \<forall>i\<in>set (eviction_run g start). i < sg_cell_count g"
  by (auto simp: eviction_run_def)

lemma eviction_run_distinct:
  assumes "sg_decrement_cells g \<le> sg_cell_count g"
  shows "distinct (eviction_run g start)"
proof -
  have le: "j \<le> i" if "i < sg_decrement_cells g" "j < sg_decrement_cells g"
      "(start + i) mod sg_cell_count g = (start + j) mod sg_cell_count g" for i j
  proof (rule ccontr)
    assume "\<not> j \<le> i"
    then have "sg_cell_count g dvd j - i"
      using that(3) mod_eq_dvd_iff_nat [of "start + i" "start + j" "sg_cell_count g"] by simp
    then show False
      using \<open>\<not> j \<le> i\<close> that(2) assms by (auto dest: dvd_imp_le)
  qed
  have "inj_on (\<lambda>offset. (start + offset) mod sg_cell_count g) {0..<sg_decrement_cells g}"
    by (rule inj_onI) (simp add: order_antisym le)
  then show ?thesis
    by (simp add: eviction_run_def distinct_map)
qed

lemma filter_decrement_spec:
  assumes g: "geometry_ok g" and f: "filter_ok g f" and start: "next_start (sg_cell_count g) r = (start, r')" "start < sg_cell_count g"
  shows "\<exists>cells. (\<forall>f'. sf_geometry f' = g \<and> sf_cells f' = sf_cells f
       \<longrightarrow> filter_decrement next_start f' r = Some (f'\<lparr>sf_cells := cells\<rparr>, r'))
    \<and> length cells = length (sf_cells f)
    \<and> packed (sg_bits_per_cell g) (sg_cell_count g) cells
    \<and> cells_of (sg_bits_per_cell g) (sg_cell_count g) cells = decremented (set (eviction_run g start)) (counters f)"
proof -
  have "sg_decrement_cells g \<le> sg_cell_count g" "0 < sg_cell_count g" and geo: "sf_geometry f = g"
    using g f by (simp_all add: geometry_ok_def filter_ok_def)
  then obtain cells where "decrement_cells_at (sg_bits_per_cell g) (eviction_run g start) (sf_cells f) = Some cells"
    "packed (sg_bits_per_cell g) (sg_cell_count g) cells" "length cells = length (sf_cells f)"
    "cells_of (sg_bits_per_cell g) (sg_cell_count g) cells = decremented (set (eviction_run g start)) (counters f)"
    using decrement_cells_at_spec [OF filter_packed [OF g f] eviction_run_bound eviction_run_distinct] by metis
  then show ?thesis
    using start by (auto simp: filter_decrement_def decrement_adjacent_def Let_def eviction_run_def [symmetric])
qed

lemma filter_test_spec:
  assumes "geometry_ok g" and "filter_ok g f"
  shows "filter_test f v = Some (\<forall>i\<in>set (hash_indices v g). counters f ! i \<noteq> 0)"
  using all_nonzero_spec [OF filter_packed [OF assms] hash_indices_bound [OF assms(1)]] assms(2)
  by (simp add: filter_test_def filter_ok_def)

lemma filter_test_and_add_spec:
  assumes g: "geometry_ok g" and f: "filter_ok g f" and start: "next_start (sg_cell_count g) r = (start, r')" "start < sg_cell_count g"
  shows "\<exists>f'. filter_test_and_add next_start f v r
       = Some (\<forall>i\<in>set (hash_indices v g). counters f ! i \<noteq> 0, f', r')
    \<and> filter_add next_start f v r = Some (f'\<lparr>sf_index_buffer := sf_index_buffer f\<rparr>, r')
    \<and> filter_ok g f' \<and> counters f' = observed g start v (counters f)"
proof -
  let ?is = "hash_indices v g" and ?b = "sg_bits_per_cell g" and ?n = "sg_cell_count g"
  let ?f = "f\<lparr>sf_index_buffer := ?is\<rparr>"
  have geo: "sf_geometry f = g" "length (sf_index_buffer f) = sg_hash_functions g"
    using f by (simp_all add: filter_ok_def)
  obtain low high where kernel: "hash_kernel v = (low, high)"
    by force
  have slots: "map (\<lambda>k. bloom_index low high k ?n) [0..<length (sf_index_buffer f)] = ?is"
    by (simp add: hash_indices_def kernel geo(2))
  have is_ok: "filter_ok g ?f"
    using f hash_indices_bound [OF g] by (simp add: filter_ok_def hash_indices_def split: prod.splits)
  obtain cells where cells: "filter_decrement next_start ?f r = Some (?f\<lparr>sf_cells := cells\<rparr>, r')"
    "filter_decrement next_start f r = Some (f\<lparr>sf_cells := cells\<rparr>, r')"
    "length cells = length (sf_cells f)" "packed ?b ?n cells"
    "cells_of ?b ?n cells = decremented (set (eviction_run g start)) (counters f)"
    using filter_decrement_spec [where next_start = next_start and r = r, OF g f start] geo(1)
    by (elim exE conjE) (rule that, auto)
  obtain out where out: "set_cells ?b (max_cell_value g) ?is cells = Some out" "length out = length cells"
    "cells_of ?b ?n out = overwritten (set ?is) (max_cell_value g) (cells_of ?b ?n cells)"
    using set_cells_spec [OF cells(4) hash_indices_bound [OF g] take_bit_max_cell_value [OF g]] by blast
  have "filter_test_and_add next_start f v r
      = Some (\<forall>i\<in>set ?is. counters f ! i \<noteq> 0, ?f\<lparr>sf_cells := out\<rparr>, r')"
    using probe_spec [OF filter_packed [OF g f] hash_indices_bound [OF g], of v True] cells(1) out(1) geo(1)
    by (simp add: filter_test_and_add_def Let_def kernel slots)
  moreover have "filter_add next_start f v r = Some (f\<lparr>sf_cells := out\<rparr>, r')"
    using cells(2) out(1) geo by (simp add: filter_add_def)
  moreover have "filter_ok g (?f\<lparr>sf_cells := out\<rparr>)"
    using is_ok out(2) cells(3) by (simp add: filter_ok_def)
  moreover have "counters (?f\<lparr>sf_cells := out\<rparr>) = observed g start v (counters f)"
    using out(3) cells(5) geo by (simp add: observed_def)
  ultimately show ?thesis
    by (intro exI [of _ "?f\<lparr>sf_cells := out\<rparr>"]) simp
qed

section \<open>Histories of observations\<close>

text \<open>Observations of one filter in a row, with the answers they give.\<close>

fun observe ::
  "'r start_source \<Rightarrow> bytes list \<Rightarrow> stable_bloom_filter \<Rightarrow> 'r \<Rightarrow> (bool list \<times> stable_bloom_filter \<times> 'r) option" where
  "observe next_start [] f r = Some ([], f, r)"
| "observe next_start (v # vs) f r =
     Option.bind (filter_test_and_add next_start f v r) (\<lambda>(member, f, r).
       map_option (\<lambda>(ms, f, r). (member # ms, f, r)) (observe next_start vs f r))"

text \<open>The same on a plain list of counters.\<close>

fun counting ::
  "'r start_source \<Rightarrow> stable_bloom_geometry \<Rightarrow> bytes list \<Rightarrow> u8 list \<Rightarrow> 'r \<Rightarrow> bool list \<times> u8 list \<times> 'r" where
  "counting next_start g [] xs r = ([], xs, r)"
| "counting next_start g (v # vs) xs r =
     (let (start, r) = next_start (sg_cell_count g) r;
          member = (\<forall>i\<in>set (hash_indices v g). xs ! i \<noteq> 0);
          (ms, xs, r) = counting next_start g vs (observed g start v xs) r
      in (member # ms, xs, r))"

text \<open>What the random source promises: a start below the number of cells.\<close>

definition start_in_range :: "'r start_source \<Rightarrow> bool" where
  "start_in_range next_start \<longleftrightarrow> (\<forall>n r. 0 < n \<longrightarrow> fst (next_start n r) < n)"

lemma filter_new_ok: "geometry_ok g \<Longrightarrow> filter_ok g (filter_new g)"
  by (auto simp: filter_ok_def filter_new_def geometry_ok_def)

lemma counters_new: "geometry_ok g \<Longrightarrow> counters (filter_new g) = replicate (sg_cell_count g) 0"
proof (rule nth_equalityI)
  fix i
  assume g: "geometry_ok g" and i: "i < length (counters (filter_new g))"
  have "data_bit (replicate (sg_packed_bytes g) 0) k = False" if "k < 8 * sg_packed_bytes g" for k
    using that by (simp add: data_bit_def)
  moreover have "i * unat (sg_bits_per_cell g) + unat (sg_bits_per_cell g) \<le> 8 * sg_packed_bytes g"
    using packed_cell [OF filter_packed [OF g filter_new_ok [OF g]], of i] i by (simp add: filter_new_def)
  ultimately show "counters (filter_new g) ! i = replicate (sg_cell_count g) 0 ! i"
    using i get_cell_spec(2) [OF filter_packed [OF g filter_new_ok [OF g]], of i]
    by (intro bit_word_eqI) (simp add: filter_new_def)
qed (simp add: filter_new_def)

lemma observe_spec:
  assumes "geometry_ok g" and "start_in_range next_start" and "filter_ok g f"
  shows "\<exists>ms f' r'. observe next_start vs f r = Some (ms, f', r') \<and> filter_ok g f'
    \<and> counting next_start g vs (counters f) r = (ms, counters f', r')"
  using assms(3)
proof (induction vs arbitrary: f r)
  case (Cons v vs)
  obtain start r' where start: "next_start (sg_cell_count g) r = (start, r')"
    by force
  moreover have "start < sg_cell_count g"
    using assms(2) start geometry_okD(1) [OF assms(1)] by (metis fst_conv start_in_range_def)
  ultimately obtain f' where f': "filter_test_and_add next_start f v r
      = Some (\<forall>i\<in>set (hash_indices v g). counters f ! i \<noteq> 0, f', r')"
    "filter_ok g f'" "counters f' = observed g start v (counters f)"
    using filter_test_and_add_spec [where next_start = next_start and r = r, OF assms(1) Cons.prems] by blast
  from Cons.IH [OF f'(2), of r'] obtain ms f'' r'' where "observe next_start vs f' r' = Some (ms, f'', r'')"
    "filter_ok g f''" "counting next_start g vs (observed g start v (counters f)) r' = (ms, counters f'', r'')"
    unfolding f'(3) by blast
  then show ?case
    by (simp add: f'(1) start)
qed simp

lemma observe_new:
  assumes "geometry_ok g" and "start_in_range next_start"
  shows "\<exists>ms f r'. observe next_start vs (filter_new g) r = Some (ms, f, r') \<and> filter_ok g f
    \<and> counting next_start g vs (replicate (sg_cell_count g) 0) r = (ms, counters f, r')"
  using observe_spec [OF assms filter_new_ok [OF assms(1)], of vs r] by (simp only: counters_new [OF assms(1)])

lemma counting_append:
  "counting next_start g (us @ vs) xs r =
     (let (ms, xs, r) = counting next_start g us xs r; (ns, xs, r) = counting next_start g vs xs r
      in (ms @ ns, xs, r))"
  by (induction us arbitrary: xs r) (simp_all add: Let_def split: prod.splits)

lemma observed_keeps:
  assumes "i < length xs" and "m \<le> unat (xs ! i)" and "m \<le> unat (max_cell_value g)"
  shows "(if sg_decrement_cells g = 0 then m else m - 1) \<le> unat (observed g start v xs ! i)"
  using assms
  by (auto simp: observed_def counters_nth eviction_run_def unat_minus_one)

lemma counting_keeps:
  assumes "i < length xs" and "m \<le> unat (xs ! i)" and "m \<le> unat (max_cell_value g)"
    and "counting next_start g vs xs r = (ms, ys, r')"
  shows "(if sg_decrement_cells g = 0 then m else m - length vs) \<le> unat (ys ! i)"
  using assms
proof (induction vs arbitrary: xs r m ms)
  case (Cons v vs)
  obtain start r1 where start: "next_start (sg_cell_count g) r = (start, r1)"
    by force
  let ?m = "if sg_decrement_cells g = 0 then m else m - 1"
  obtain ns where "counting next_start g vs (observed g start v xs) r1 = (ns, ys, r')"
    using Cons.prems(4) start by (auto split: prod.splits)
  from Cons.IH [OF _ observed_keeps [OF Cons.prems(1-3)] _ this] show ?case
    using Cons.prems(1,3) by (auto split: if_splits)
qed auto

lemma counting_length: "counting next_start g vs xs r = (ms, ys, r') \<Longrightarrow> length ys = length xs \<and> length ms = length vs"
  by (induction vs arbitrary: xs r ms) (auto split: prod.splits)

lemma counting_retained:
  assumes g: "geometry_ok g" and xs: "length xs = sg_cell_count g"
    and ws: "length ws < unat (max_cell_value g) \<or> sg_decrement_cells g = 0"
    and run: "counting next_start g (us @ v # ws) xs r = (ms, ys, r')"
  shows "\<forall>i\<in>set (hash_indices v g). ys ! i \<noteq> 0"
proof
  fix i
  assume v: "i \<in> set (hash_indices v g)"
  then have i: "i < sg_cell_count g"
    using hash_indices_bound [OF g] by blast
  obtain ms1 xs1 r1 where us: "counting next_start g us xs r = (ms1, xs1, r1)"
    by (metis prod_cases3)
  have len: "length xs1 = sg_cell_count g"
    using counting_length [OF us] xs by simp
  obtain start r2 where start: "next_start (sg_cell_count g) r1 = (start, r2)"
    by force
  obtain ms2 where rest: "counting next_start g ws (observed g start v xs1) r2 = (ms2, ys, r')"
    using run by (auto simp: counting_append us start split: prod.splits)
  have "unat (observed g start v xs1 ! i) = unat (max_cell_value g)"
    using v i by (simp add: observed_def counters_nth len)
  with counting_keeps [OF _ _ order_refl rest, of i] i
  have "(if sg_decrement_cells g = 0 then unat (max_cell_value g) else unat (max_cell_value g) - length ws) \<le> unat (ys ! i)"
    by (simp add: len)
  moreover have "0 < unat (max_cell_value g)"
    using g one_less_power [of "2 :: nat" "unat (sg_bits_per_cell g)"]
    by (simp add: unat_max_cell_value geometry_ok_def)
  ultimately show "ys ! i \<noteq> 0"
    using ws by (auto split: if_splits)
qed

section \<open>Laws of the codec\<close>

lemma not_bit_u8: "8 \<le> j \<Longrightarrow> \<not> bit (w :: u8) j"
  using bit_imp_le_length [of w j] by auto

lemma u64_to_be_bytes_length [simp]: "length (u64_to_be_bytes w) = 8"
  by (simp add: u64_to_be_bytes_def)

lemma be_step: "push_bit 8 (drop_bit (k + 8) w) OR ucast (ucast (drop_bit k w) :: u8) = drop_bit k (w :: u64)"
proof (rule bit_word_eqI)
  fix n
  assume "n < LENGTH(64)"
  then show "bit (push_bit 8 (drop_bit (k + 8) w) OR ucast (ucast (drop_bit k w) :: u8)) n = bit (drop_bit k w) n"
    by (cases "n < 8") (auto simp: bit_simps not_less le_iff_add ac_simps)
qed

lemma u64_from_to_be_bytes [simp]: "u64_from_be_bytes (u64_to_be_bytes w) = w"
proof -
  have "drop_bit (56 + 8) w = 0"
    by (rule bit_word_eqI) (simp add: bit_simps)
  then show ?thesis
    using be_step [of 56 w] be_step [of 48 w] be_step [of 40 w] be_step [of 32 w] be_step [of 24 w]
      be_step [of 16 w] be_step [of 8 w] be_step [of 0 w]
    by (simp add: u64_from_be_bytes_def u64_to_be_bytes_def)
qed

lemma u64_to_from_be_bytes:
  assumes "length v = 8"
  shows "u64_to_be_bytes (u64_from_be_bytes v) = v"
proof -
  obtain a b c d e f g h where v: "v = [a, b, c, d, e, f, g, h]"
    using assms by (auto simp: numeral_eq_Suc length_Suc_conv)
  show ?thesis
    unfolding v
    by (auto simp: u64_from_be_bytes_def u64_to_be_bytes_def bit_simps not_bit_u8 intro!: bit_word_eqI)
qed

lemma usize_bytes_length [simp]: "length (usize_bytes n) = 8"
  by (simp add: usize_bytes_def)

lemma read_u64_append [simp]: "read_u64 (u64_to_be_bytes w @ rest) = Some (Inr (w, rest))"
  by (simp add: read_u64_def rd_bind_def cursor_take_def)

lemma read_u64_Inr: "read_u64 v = Some (Inr (w, rest)) \<longleftrightarrow> v = u64_to_be_bytes w @ rest"
  by (auto simp: read_u64_def rd_bind_def cursor_take_def u64_to_from_be_bytes split: if_splits)

lemma read_u64_not_Inl: "read_u64 v \<noteq> Some (Inl e)"
  by (simp add: read_u64_def rd_bind_def cursor_take_def)

lemma read_u64_total: "8 \<le> length v \<Longrightarrow> \<exists>w. read_u64 v = Some (Inr (w, drop 8 v))"
  by (simp add: read_u64_def rd_bind_def cursor_take_def)

lemma rd_bind_Inr:
  "rd_bind m f v = Some (Inr y) \<longleftrightarrow> (\<exists>x rest. m v = Some (Inr (x, rest)) \<and> f x rest = Some (Inr y))"
  by (auto simp: rd_bind_def split: option.splits sum.splits prod.splits)

lemma expect_u64_Inr: "expect_u64 field n v = Some (Inr (u, rest)) \<longleftrightarrow> v = usize_bytes n @ rest"
  by (auto simp: expect_u64_def rd_bind_Inr read_u64_Inr usize_bytes_def)

lemma expect_u8_Inr: "expect_u8 field b v = Some (Inr (u, rest)) \<longleftrightarrow> v = b # rest"
  by (auto simp: expect_u8_def rd_bind_Inr read_u8_def split: list.splits)

lemma expect_append:
  "expect_u64 field n (usize_bytes n @ rest) = Some (Inr ((), rest))"
  "expect_u8 field b (b # rest) = Some (Inr ((), rest))"
  by (simp_all add: expect_u64_Inr expect_u8_Inr)

lemma read_indexes_Cons:
  "(read_indexes c (k # ordinals) :: ('e, nat list) reads) v = Some (Inr (indexes, rest)) \<longleftrightarrow>
    (\<exists>raw v'. v = u64_to_be_bytes raw @ v' \<and> unat raw < c
       \<and> (\<exists>ids. (read_indexes c ordinals :: ('e, nat list) reads) v' = Some (Inr (ids, rest)) \<and> indexes = unat raw # ids))"
  unfolding read_indexes.simps rd_bind_Inr read_u64_Inr by (intro ex_cong1) (auto simp: rd_bind_Inr)

lemma read_indexes_Inr:
  assumes "c < 2 ^ 64"
  shows "read_indexes c ordinals v = Some (Inr (indexes, rest))
    \<longleftrightarrow> length indexes = length ordinals \<and> (\<forall>i\<in>set indexes. i < c) \<and> v = concat (map usize_bytes indexes) @ rest"
proof (induction ordinals arbitrary: v indexes)
  case (Cons k ordinals)
  have small: "unat (of_nat i :: u64) = i" if "i < c" for i
    using assms that by (simp add: unat_of_nat take_bit_nat_eq_self)
  show ?case
  proof (cases indexes)
    case (Cons i ids)
    then show ?thesis
      unfolding read_indexes_Cons Cons.IH
      by (auto simp: usize_bytes_def [abs_def] small intro!: exI [of _ "of_nat i :: u64"])
  qed (simp add: read_indexes_Cons del: read_indexes.simps)
qed auto

lemma read_indexes_append:
  "c < 2 ^ 64 \<Longrightarrow> length indexes = length ordinals \<Longrightarrow> \<forall>i\<in>set indexes. i < c
    \<Longrightarrow> read_indexes c ordinals (concat (map usize_bytes indexes) @ rest) = Some (Inr (indexes, rest))"
  by (simp add: read_indexes_Inr)

text \<open>A step never panics when enough bytes are left, and consumes a fixed number of them.\<close>

definition consumes :: "nat \<Rightarrow> ('e, 'a) reads \<Rightarrow> bool" where
  "consumes n m \<longleftrightarrow>
     (\<forall>v. n \<le> length v \<longrightarrow> m v \<noteq> None \<and> (\<forall>x rest. m v = Some (Inr (x, rest)) \<longrightarrow> length rest = length v - n))"

lemma consumes_bind [intro]:
  assumes "consumes n m" and "\<And>x. consumes k (f x)"
  shows "consumes (n + k) (rd_bind m f)"
  unfolding consumes_def
proof (intro allI impI)
  fix v :: bytes
  assume v: "n + k \<le> length v"
  then obtain r where r: "m v = Some r" "\<And>x rest. r = Inr (x, rest) \<Longrightarrow> length rest = length v - n"
    using assms(1) unfolding consumes_def by (metis add_leD1 not_None_eq)
  show "rd_bind m f v \<noteq> None \<and> (\<forall>x rest. rd_bind m f v = Some (Inr (x, rest)) \<longrightarrow> length rest = length v - (n + k))"
  proof (cases r)
    case (Inr p)
    obtain x rest where p: "p = (x, rest)"
      by force
    then have len: "length rest = length v - n"
      using r(2) Inr by simp
    then have "k \<le> length rest"
      using v by simp
    with assms(2) [of x] have "f x rest \<noteq> None"
      "\<And>y rest'. f x rest = Some (Inr (y, rest')) \<Longrightarrow> length rest' = length rest - k"
      unfolding consumes_def by blast+
    then show ?thesis
      by (simp add: rd_bind_def r(1) Inr p len)
  qed (simp add: rd_bind_def r(1))
qed

lemma consumes_steps:
  "consumes n (cursor_take n)" "consumes 8 read_u64" "consumes 1 read_u8"
  "consumes 0 (\<lambda>rest. Some (Inl e))" "consumes 0 (\<lambda>rest. Some (Inr (x, rest)))"
  by (auto simp: consumes_def cursor_take_def read_u64_def rd_bind_def read_u8_def split: list.splits)

lemma consumes_expect: "consumes 8 (expect_u64 field n)" "consumes 1 (expect_u8 field b)"
  by (auto simp: consumes_def expect_u64_def expect_u8_def rd_bind_def read_u64_def read_u8_def cursor_take_def
      split: list.splits)

lemma consumes_indexes: "consumes (8 * length ordinals) (read_indexes c ordinals :: ('e, nat list) reads)"
proof (induction ordinals)
  case (Cons k ordinals)
  have "consumes (8 + 8 * length ordinals) (rd_bind read_u64 (\<lambda>raw.
       if unat raw \<ge> c then (\<lambda>_. Some (Inl (CachedIndexOutOfRange k raw c)))
       else rd_bind (read_indexes c ordinals) (\<lambda>indexes rest. Some (Inr (unat raw # indexes, rest)))) :: ('e, nat list) reads)"
  proof (rule consumes_bind [OF consumes_steps(2)])
    fix raw :: u64
    show "consumes (8 * length ordinals) (if unat raw \<ge> c then (\<lambda>_. Some (Inl (CachedIndexOutOfRange k raw c)))
       else rd_bind (read_indexes c ordinals) (\<lambda>indexes rest. Some (Inr (unat raw # indexes, rest))) :: ('e, nat list) reads)"
      using consumes_bind [OF Cons.IH consumes_steps(5), of "\<lambda>indexes. unat raw # indexes"]
      by (cases "unat raw \<ge> c") (simp_all add: consumes_def)
  qed
  then show ?case
    by (simp add: consumes_def)
qed (simp add: consumes_def)

text \<open>The bytes of a filter, and that decoding accepts exactly them.\<close>

definition encoded :: "stable_bloom_filter \<Rightarrow> bytes" where
  "encoded f = concat (encoded_parts f)"

lemma encoded_length: "geometry_ok g \<Longrightarrow> filter_ok g f \<Longrightarrow> length (encoded f) = sg_encoded_bytes g"
  by (simp add: encoded_def encoded_parts_def filter_ok_def geometry_ok_def length_concat comp_def
      sum_list_triv Let_def)

lemma consumes_filter:
  assumes "geometry_ok g"
  shows "consumes (sg_encoded_bytes g) (read_filter g)"
proof -
  have "sg_encoded_bytes g = 8 + (8 + (8 + (1 + (8 + (8 * length [0..<sg_hash_functions g]
      + (1 + (1 + (8 + (8 + (sg_packed_bytes g + 0))))))))))"
    using assms by (simp add: geometry_ok_def)
  then show ?thesis
    unfolding read_filter_def
    by (simp only:) (intro consumes_bind consumes_expect consumes_indexes consumes_steps(1,5))
qed

lemma read_filter_Inr:
  assumes "geometry_ok g"
  shows "read_filter g v = Some (Inr (f, rest)) \<longleftrightarrow> filter_ok g f \<and> v = encoded f @ rest"
proof -
  have small: "sg_cell_count g < 2 ^ 64"
    using geometry_okD(2) [OF assms] by simp
  note indexes = read_indexes_Inr [OF small]
  show ?thesis
  proof
    assume "read_filter g v = Some (Inr (f, rest))"
    then show "filter_ok g f \<and> v = encoded f @ rest"
      by (auto simp: read_filter_def rd_bind_Inr expect_u64_Inr expect_u8_Inr indexes cursor_take_def
          filter_ok_def encoded_def encoded_parts_def Let_def split: if_splits)
  next
    assume "filter_ok g f \<and> v = encoded f @ rest"
    then show "read_filter g v = Some (Inr (f, rest))"
      by (cases f) (simp add: read_filter_def rd_bind_def expect_append read_indexes_append [OF small] cursor_take_def
          filter_ok_def encoded_def encoded_parts_def Let_def)
  qed
qed

lemma from_bytes_total:
  assumes "geometry_ok g"
  shows "from_bytes v g \<noteq> None"
proof (cases "length v = sg_encoded_bytes g")
  case True
  then have "read_filter g v \<noteq> None"
    using consumes_filter [OF assms] unfolding consumes_def by (metis order_refl)
  with True show ?thesis
    by (simp add: from_bytes_def)
qed (simp add: from_bytes_def)

lemma map_sum_eq_Inr: "map_sum f g x = Inr y \<longleftrightarrow> (\<exists>z. x = Inr z \<and> y = g z)"
  by (cases x) auto

lemma from_bytes_Inr:
  assumes g: "geometry_ok g"
  shows "(from_bytes v g :: ('e stable_bloom_codec_error + stable_bloom_filter) option) = Some (Inr f) \<longleftrightarrow> filter_ok g f \<and> v = encoded f"
proof
  assume "(from_bytes v g :: ('e stable_bloom_codec_error + stable_bloom_filter) option) = Some (Inr f)"
  then obtain rest where "length v = sg_encoded_bytes g" "filter_ok g f" "v = encoded f @ rest"
    by (auto simp: from_bytes_def read_filter_Inr [OF g] map_sum_eq_Inr split: if_splits)
  then show "filter_ok g f \<and> v = encoded f"
    using encoded_length [OF g] by simp
next
  assume *: "filter_ok g f \<and> v = encoded f"
  then have "(read_filter g :: ('e, stable_bloom_filter) reads) v = Some (Inr (f, []))"
    by (simp add: read_filter_Inr [OF g])
  then show "(from_bytes v g :: ('e stable_bloom_codec_error + stable_bloom_filter) option) = Some (Inr f)"
    using * encoded_length [OF g] by (simp add: from_bytes_def)
qed

section \<open>Properties\<close>

lemma write_parts_vec:
  "write_parts (\<lambda>part out. (Inr (), out @ part)) parts out = (Inr (), out @ concat parts)"
  by (induction parts arbitrary: out) simp_all

text \<open>
  (C26)
  The packed filter implements a list of saturating counters. For every accepted geometry and
  every history of observations from a fresh filter, with a source that returns valid starts: no
  observation panics, the answers are those of the counters (present when no counter of the item
  is zero), and afterwards the packed cells hold the counters of the specification, which takes
  one from each counter of the run (each once, never below zero) and then sets the counters of
  the item to the maximum.
\<close>

theorem stable_bloom_refines_counters:
  assumes "geometry_new c b h d = Inr g" and "start_in_range next_start"
  shows "map_option (\<lambda>(ms, f, r). (ms, counters f, r)) (observe next_start vs (filter_new g) r)
    = Some (counting next_start g vs (replicate (sg_cell_count g) 0) r)"
proof -
  have g: "geometry_ok g"
    using assms(1) by (rule geometry_new_ok)
  from observe_new [OF g assms(2), of vs r] show ?thesis
    by auto
qed

text \<open>A source for examples: it counts.\<close>

definition counting_source :: "nat start_source" where
  "counting_source n r = (r mod n, Suc r)"

lemma counting_source_in_range: "start_in_range counting_source"
  by (simp add: start_in_range_def counting_source_def)

lemma example_geometry:
  "geometry_new 10 2 3 4 = Inr \<lparr>sg_cell_count = 10, sg_bits_per_cell = 2, sg_hash_functions = 3,
     sg_decrement_cells = 4, sg_packed_bytes = 3, sg_encoded_bytes = 78\<rparr>"
  by (simp add: geometry_new_def ok_or_def checked_mul_def checked_add_def word_le_nat_alt)

theorem stable_bloom_refines_counters_witness:
  "\<exists>g. geometry_new 10 2 3 4 = Inr g \<and> start_in_range counting_source
    \<and> map_option (\<lambda>(ms, f, r). (ms, counters f, r)) (observe counting_source [bstr ''a'', bstr ''b''] (filter_new g) 0)
      = Some (counting counting_source g [bstr ''a'', bstr ''b''] (replicate (sg_cell_count g) 0) 0)"
  using stable_bloom_refines_counters [OF example_geometry counting_source_in_range]
    example_geometry counting_source_in_range by blast



text \<open>
  (C28)
  The codec is exact. Writing a filter to a buffer gives \<open>encoded_bytes\<close> bytes; reading never
  panics, and it returns a filter if and only if the bytes are the encoding of that filter and
  its parts fit the expected geometry. So an encoded filter reads back as itself, and any two
  byte strings that decode to the same filter are equal.
\<close>

theorem stable_bloom_codec_exact:
  assumes "geometry_new c b h d = Inr g"
  shows "from_bytes v g \<noteq> None
    \<and> (from_bytes v g = Some (Inr f) \<longleftrightarrow> filter_ok g f \<and> v = encoded f)
    \<and> (filter_ok g f \<longrightarrow>
         write_to (\<lambda>part out. (Inr (), out @ part)) f [] = (Inr (sg_encoded_bytes g), encoded f)
         \<and> length (encoded f) = sg_encoded_bytes g)"
proof -
  have g: "geometry_ok g"
    using assms(1) by (rule geometry_new_ok)
  have "sf_geometry f = g" if "filter_ok g f"
    using that by (simp add: filter_ok_def)
  then show ?thesis
    by (intro conjI impI from_bytes_total [OF g] from_bytes_Inr [OF g] encoded_length [OF g])
      (simp_all add: write_to_def write_parts_vec encoded_def)
qed

theorem stable_bloom_codec_exact_witness:
  "\<exists>g. geometry_new 10 2 3 4 = Inr g
    \<and> from_bytes (encoded (filter_new g)) g = Some (Inr (filter_new g))"
proof -
  have "filter_ok g (filter_new g)" if "geometry_new 10 2 3 4 = Inr g" for g
    using that by (intro filter_new_ok geometry_new_ok)
  then show ?thesis
    using stable_bloom_codec_exact [OF example_geometry] example_geometry by blast
qed

end
