(* ===== verification/Info_Hash.thy ===== *)
theory Info_Hash
  imports Prelude
begin

text \<open>
  \<open>bitmagnet-model/src/info_hash.rs\<close>: the 20-byte info hash, its hexadecimal text and the parser
  of that text. A \<open>&str\<close> is the byte string of its UTF-8 encoding, which is what the parser
  indexes. Serialisation with serde goes through the same two functions.
\<close>

section \<open>Model\<close>

abbreviation INFO_HASH_LEN :: nat where "INFO_HASH_LEN \<equiv> 20"

typedef info_hash = "{bs :: bytes. length bs = INFO_HASH_LEN}"
  morphisms ih_as_slice InfoHash
  by (rule exI [of _ "replicate INFO_HASH_LEN 0"]) simp

datatype info_hash_error = Length nat | InvalidHex char

definition info_hash_from_slice :: "bytes \<Rightarrow> info_hash_error + info_hash" where
  "info_hash_from_slice v = (if length v = INFO_HASH_LEN then Inr (InfoHash v) else Inl (Length (length v)))"

text \<open>\<open>{b:02x}\<close> of one byte.\<close>

definition byte_hex :: "u8 \<Rightarrow> bytes" where
  "byte_hex b = bstr [digit_char (unat b div 16), digit_char (unat b mod 16)]"

definition info_hash_display :: "info_hash \<Rightarrow> bytes" where
  "info_hash_display h = concat (map byte_hex (ih_as_slice h))"

definition hex_val :: "u8 \<Rightarrow> info_hash_error + u8" where
  "hex_val c =
     (if 48 \<le> c \<and> c \<le> 57 then Inr (c - 48)
      else if 97 \<le> c \<and> c \<le> 102 then Inr (c - 97 + 10)
      else if 65 \<le> c \<and> c \<le> 70 then Inr (c - 65 + 10)
      else Inl (InvalidHex (char_of (unat c))))"

text \<open>\<open>s.strip_prefix("0x").unwrap_or(s)\<close>.\<close>

definition strip_0x :: "bytes \<Rightarrow> bytes" where
  "strip_0x s = (if take 2 s = bstr ''0x'' then drop 2 s else s)"

text \<open>One round of the loop over the output bytes.\<close>

definition hex_pair :: "bytes \<Rightarrow> nat \<Rightarrow> info_hash_error + u8" where
  "hex_pair s i =
     rbind (hex_val (s ! (i * 2))) (\<lambda>hi.
     rbind (hex_val (s ! (i * 2 + 1))) (\<lambda>lo. Inr (push_bit 4 hi OR lo)))"

definition info_hash_from_str :: "bytes \<Rightarrow> info_hash_error + info_hash" where
  "info_hash_from_str s0 =
     (let s = strip_0x s0
      in if length s \<noteq> INFO_HASH_LEN * 2 then Inl (Length (length s div 2))
         else rbind (collect_result (map (hex_pair s) [0..<INFO_HASH_LEN])) (\<lambda>out. Inr (InfoHash out)))"

section \<open>Lemmas\<close>

lemma ih_as_slice_length [simp]: "length (ih_as_slice h) = INFO_HASH_LEN"
  using ih_as_slice [of h] by simp

lemma ih_as_slice_InfoHash [simp]: "length v = INFO_HASH_LEN \<Longrightarrow> ih_as_slice (InfoHash v) = v"
  by (simp add: InfoHash_inverse)

lemma hex_digit_cases:
  fixes n :: nat
  assumes "n < 16"
  shows "n \<in> set [0, 1, 2, 3, 4, 5, 6, 7, 8, 9, 10, 11, 12, 13, 14, 15]"
proof -
  have "[0, 1, 2, 3, 4, 5, 6, 7, 8, 9, 10, 11, 12, 13, 14, 15] = [0..<16]"
    by (simp add: upt_rec)
  with assms show ?thesis
    by (simp only: set_upt) simp
qed

lemma of_char_char_of: "(of_char (char_of (n :: nat)) :: u8) = of_nat n"
proof -
  have "(of_char (char_of n) :: u8) = of_nat (of_char (char_of n))"
    by (simp only: of_nat_of_char)
  also have "\<dots> = of_nat (n mod 256)"
    by simp
  finally show ?thesis
    by (simp add: word_unat_eq_iff unat_of_nat take_bit_eq_mod)
qed

lemma hex_val_digit:
  assumes "n < 16"
  shows "hex_val (of_char (digit_char n)) = Inr (of_nat n)"
  using hex_digit_cases [OF assms]
  by (auto simp: digit_char_def of_char_char_of hex_val_def)

lemma nibbles: "push_bit 4 (of_nat (unat b div 16)) OR of_nat (unat b mod 16) = (b :: u8)"
proof -
  have "unat b div 16 = unat (drop_bit 4 b)" "unat b mod 16 = unat (take_bit 4 b)"
    by (simp_all only: unsigned_drop_bit_eq unsigned_take_bit_eq drop_bit_eq_div take_bit_eq_mod)
      (simp_all add: unat_div_distrib unat_mod_distrib)
  then show ?thesis
    by (simp only: of_nat_unat ucast_id) (rule bit_word_eqI, auto simp: bit_simps)
qed

text \<open>The pairs of a displayed hash are its bytes.\<close>

lemma byte_hex_length [simp]: "length (byte_hex b) = 2"
  by (simp add: byte_hex_def)

lemma nth_byte_hexes:
  "i < length bs \<Longrightarrow> concat (map byte_hex bs) ! (i * 2) = byte_hex (bs ! i) ! 0
    \<and> concat (map byte_hex bs) ! (i * 2 + 1) = byte_hex (bs ! i) ! 1"
proof (induction bs arbitrary: i)
  case (Cons b bs)
  then show ?case
    by (cases i) (auto simp: nth_append)
qed simp

lemma hex_pair_display:
  assumes "i < length bs"
  shows "hex_pair (concat (map byte_hex bs)) i = Inr (bs ! i)"
proof -
  have "unat (bs ! i) div 16 < 16"
    using unsigned_less [where ?'a = nat, of "bs ! i"] by (simp add: div_less_iff_less_mult)
  then show ?thesis
    using nth_byte_hexes [OF assms]
    by (simp add: hex_pair_def byte_hex_def bstr_def hex_val_digit nibbles)
qed

text \<open>\<open>u8::to_ascii_lowercase\<close>, to say which texts are accepted.\<close>

definition ascii_lowercase :: "u8 \<Rightarrow> u8" where
  "ascii_lowercase c = (if 65 \<le> c \<and> c \<le> 90 then c + 32 else c)"

lemma hex_val_Inr: "hex_val c = Inr v \<longleftrightarrow> unat v < 16 \<and> ascii_lowercase c = of_char (digit_char (unat v))"
proof
  assume val: "hex_val c = Inr v"
  have c: "c = of_nat (unat c)"
    by simp
  consider "48 \<le> c \<and> c \<le> 57" "v = c - 48" | "97 \<le> c \<and> c \<le> 102" "v = c - 87" | "65 \<le> c \<and> c \<le> 70" "v = c - 55"
    using val by (auto simp: hex_val_def split: if_splits)
  then show "unat v < 16 \<and> ascii_lowercase c = of_char (digit_char (unat v))"
  proof cases
    case 1
    then have "unat v = unat c - 48" "48 \<le> unat c" "unat c \<le> 57"
      by (simp_all add: unat_sub word_le_nat_alt)
    then show ?thesis
      using 1(1) by (auto simp: digit_char_def of_char_char_of ascii_lowercase_def word_le_nat_alt)
  next
    case 2
    then have "unat v = unat c - 87" "97 \<le> unat c" "unat c \<le> 102"
      by (simp_all add: unat_sub word_le_nat_alt)
    then show ?thesis
      using 2(1) by (auto simp: digit_char_def of_char_char_of ascii_lowercase_def word_le_nat_alt)
  next
    case 3
    then have "unat v = unat c - 55" "65 \<le> unat c" "unat c \<le> 70"
      by (simp_all add: unat_sub word_le_nat_alt)
    moreover from this have "87 + unat v = unat c + 32"
      by simp
    ultimately show ?thesis
      using 3(1) by (auto simp: digit_char_def of_char_char_of ascii_lowercase_def word_le_nat_alt)
  qed
next
  assume *: "unat v < 16 \<and> ascii_lowercase c = of_char (digit_char (unat v))"
  then have "ascii_lowercase c = of_nat (if unat v < 10 then 48 + unat v else 87 + unat v)"
    by (simp add: digit_char_def of_char_char_of)
  then have lower: "unat (ascii_lowercase c) = (if unat v < 10 then 48 + unat v else 87 + unat v)"
    using * by (simp add: unat_of_nat take_bit_nat_eq_self)
  have "unat (ascii_lowercase c) = (if 65 \<le> unat c \<and> unat c \<le> 90 then unat c + 32 else unat c)"
    by (simp add: ascii_lowercase_def word_le_nat_alt unat_word_ariths(1))
  then have "unat c = (if unat v < 10 then 48 + unat v else 87 + unat v) \<or> 10 \<le> unat v \<and> unat c = 55 + unat v"
    using lower * by (auto split: if_splits)
  then have "v = c - 48 \<and> unat c = 48 + unat v \<and> unat v < 10 \<or> v = c - 87 \<and> unat c = 87 + unat v \<and> 10 \<le> unat v
      \<or> v = c - 55 \<and> unat c = 55 + unat v \<and> 10 \<le> unat v"
    by (auto simp: word_unat_eq_iff unat_sub word_le_nat_alt split: if_splits)
  then show "hex_val c = Inr v"
    using * by (auto simp: hex_val_def word_le_nat_alt)
qed

lemma hex_pair_Inr:
  "hex_pair s i = Inr b \<longleftrightarrow> [ascii_lowercase (s ! (i * 2)), ascii_lowercase (s ! (i * 2 + 1))] = byte_hex b"
proof
  assume "hex_pair s i = Inr b"
  then obtain hi lo where nib: "hex_val (s ! (i * 2)) = Inr hi" "hex_val (s ! (i * 2 + 1)) = Inr lo" "b = push_bit 4 hi OR lo"
    by (auto simp: hex_pair_def rbind_Inr)
  define n where "n = 16 * unat hi + unat lo"
  have small: "unat hi < 16" "unat lo < 16" "n < 256"
    using nib(1,2) by (auto simp: hex_val_Inr n_def)
  then have n: "unat (of_nat n :: u8) = n"
    by (simp add: unat_of_nat take_bit_nat_eq_self)
  have "n div 16 = unat hi" "n mod 16 = unat lo"
    using small by (simp_all add: n_def)
  then show "[ascii_lowercase (s ! (i * 2)), ascii_lowercase (s ! (i * 2 + 1))] = byte_hex b"
    using nib nibbles [of "of_nat n :: u8"] n by (simp add: hex_val_Inr byte_hex_def bstr_def)
next
  assume eq: "[ascii_lowercase (s ! (i * 2)), ascii_lowercase (s ! (i * 2 + 1))] = byte_hex b"
  have small: "unat b div 16 < 16"
    using unsigned_less [where ?'a = nat, of b] by (simp add: div_less_iff_less_mult)
  then have "unat (of_nat (unat b div 16) :: u8) = unat b div 16" "unat (of_nat (unat b mod 16) :: u8) = unat b mod 16"
    by (simp_all add: unat_of_nat take_bit_nat_eq_self order_less_trans [OF mod_less_divisor])
  then have "hex_val (s ! (i * 2)) = Inr (of_nat (unat b div 16))" "hex_val (s ! (i * 2 + 1)) = Inr (of_nat (unat b mod 16))"
    using eq small by (simp_all add: hex_val_Inr byte_hex_def bstr_def)
  then show "hex_pair s i = Inr b"
    by (simp add: hex_pair_def nibbles)
qed

lemma collect_result_Inr_iff: "collect_result rs = Inr xs \<longleftrightarrow> rs = map Inr xs"
  using collect_result_Inr [of rs xs] collect_result_Inr_map [of id xs] by auto

lemma pairs_eq_concat:
  assumes "length t = 2 * length bs"
  shows "(\<forall>i<length bs. [t ! (i * 2), t ! (i * 2 + 1)] = byte_hex (bs ! i)) \<longleftrightarrow> t = concat (map byte_hex bs)"
  using assms
proof (induction bs arbitrary: t)
  case (Cons b bs)
  then obtain x y u where t: "t = x # y # u" "length u = 2 * length bs"
    by (cases t; cases "tl t") auto
  have "(\<forall>i<length (b # bs). [t ! (i * 2), t ! (i * 2 + 1)] = byte_hex ((b # bs) ! i))
      \<longleftrightarrow> [x, y] = byte_hex b \<and> (\<forall>i<length bs. [u ! (i * 2), u ! (i * 2 + 1)] = byte_hex (bs ! i))"
    by (simp add: t All_less_Suc2)
  moreover obtain x' y' where "byte_hex b = [x', y']"
    by (simp add: byte_hex_def bstr_def)
  ultimately show ?case
    using Cons.IH [OF t(2)] t(1) by auto
qed simp

lemma from_str_Inr:
  "info_hash_from_str s = Inr h \<longleftrightarrow> map ascii_lowercase (strip_0x s) = info_hash_display h"
proof -
  let ?t = "strip_0x s"
  have len: "length (info_hash_display h) = 40"
    by (simp add: info_hash_display_def length_concat comp_def sum_list_triv)
  show ?thesis
  proof (cases "length ?t = 40")
    case True
    have "out = ih_as_slice (InfoHash out)" if "map (hex_pair ?t) [0..<INFO_HASH_LEN] = map Inr out" for out
      using arg_cong [OF that, of length] by simp
    then have "info_hash_from_str s = Inr h \<longleftrightarrow> map (hex_pair ?t) [0..<20] = map Inr (ih_as_slice h)"
      using True
      by (auto simp: info_hash_from_str_def rbind_Inr collect_result_Inr_iff ih_as_slice_inverse
          intro!: exI [of _ "ih_as_slice h"])
    also have "\<dots> \<longleftrightarrow> (\<forall>i<20. hex_pair ?t i = Inr (ih_as_slice h ! i))"
      by (auto simp: list_eq_iff_nth_eq)
    also have "\<dots> \<longleftrightarrow> (\<forall>i<20. [map ascii_lowercase ?t ! (i * 2), map ascii_lowercase ?t ! (i * 2 + 1)] = byte_hex (ih_as_slice h ! i))"
      using True by (simp add: hex_pair_Inr)
    also have "\<dots> \<longleftrightarrow> map ascii_lowercase ?t = info_hash_display h"
      using pairs_eq_concat [of "map ascii_lowercase ?t" "ih_as_slice h"] True by (simp add: info_hash_display_def)
    finally show ?thesis .
  next
    case False
    then show ?thesis
      using len by (auto simp: info_hash_from_str_def Let_def dest: arg_cong [of _ _ length])
  qed
qed

section \<open>Properties\<close>

lemma ascii_lowercase_hex: "map ascii_lowercase (byte_hex b) = byte_hex b"
proof -
  have "ascii_lowercase (of_char (digit_char n)) = of_char (digit_char n)" if "n < 16" for n
    using hex_digit_cases [OF that]
    by (auto simp: digit_char_def of_char_char_of ascii_lowercase_def)
  moreover have "unat b div 16 < 16"
    using unsigned_less [where ?'a = nat, of b] by (simp add: div_less_iff_less_mult)
  ultimately show ?thesis
    by (simp add: byte_hex_def bstr_def)
qed

lemma strip_0x_display: "strip_0x (info_hash_display h) = info_hash_display h"
proof -
  obtain b bs where bs: "ih_as_slice h = b # bs"
    by (cases "ih_as_slice h") (use ih_as_slice_length [of h] in auto)
  have "of_char (digit_char n) \<noteq> (of_char CHR ''x'' :: u8)" if "n < 16" for n
    using hex_digit_cases [OF that] by (auto simp: digit_char_def of_char_char_of)
  then show ?thesis
    by (simp add: strip_0x_def info_hash_display_def bs byte_hex_def bstr_def numeral_2_eq_2)
qed

text \<open>
  The text of an info hash is 40 lower-case hexadecimal digits and parses back to the hash, with
  or without the prefix \<open>0x\<close>; and the parser accepts exactly the texts that are, after one
  optional prefix and up to the case of the letters, the text of a hash, and returns that hash.
\<close>

theorem info_hash_text_exact:
  "length (info_hash_display h) = 40
    \<and> info_hash_from_str (info_hash_display h) = Inr h
    \<and> info_hash_from_str (bstr ''0x'' @ info_hash_display h) = Inr h
    \<and> (info_hash_from_str s = Inr h \<longleftrightarrow> map ascii_lowercase (strip_0x s) = info_hash_display h)
    \<and> info_hash_from_slice (ih_as_slice h) = Inr h"
proof -
  have lower: "map ascii_lowercase (info_hash_display h) = info_hash_display h"
    by (simp add: info_hash_display_def map_concat ascii_lowercase_hex comp_def)
  have "length (info_hash_display h) = 40"
    by (simp add: info_hash_display_def length_concat comp_def sum_list_triv)
  moreover have "strip_0x (bstr ''0x'' @ info_hash_display h) = info_hash_display h"
    by (simp add: strip_0x_def bstr_def)
  ultimately show ?thesis
    by (simp add: from_str_Inr strip_0x_display lower info_hash_from_slice_def ih_as_slice_inverse)
qed

end
