(* ===== verification/Blocking.thy ===== *)
theory Blocking
  imports Stable_Bloom Info_Hash
begin

text \<open>
  \<open>bitmagnet-blocking\<close>: the manager of blocked info hashes (\<open>src/lib.rs\<close>) and its PostgreSQL
  store (\<open>src/pg.rs\<close>). The manager buffers hashes and publishes the filter the store commits; the
  store deletes the torrents, reads or creates the persisted filter, adds the hashes and writes it
  back in one transaction.

  An operation of the manager holds its lock from beginning to end and is one function on the
  state behind the lock. A \<open>HashSet\<close> is a list without repetitions whose order stands for the
  unspecified iteration order. PostgreSQL is a record of operations; what the store relies on is
  the predicate \<open>db_contract\<close>. Cancellation of a running operation is left out.
\<close>

section \<open>The manager\<close>

record blocking_config =
  bc_max_buffer_size :: nat
  bc_max_flush_wait :: duration

definition default_blocking_config :: blocking_config where
  "default_blocking_config =
     \<lparr>bc_max_buffer_size = 1000, bc_max_flush_wait = 5 * 60 * nanos_per_sec\<rparr>"

datatype 'e blocking_error = Store 'e

datatype blocking_store_op = OpTransaction | OpDeleteTorrents | OpBloomFilter

datatype blocking_finalize_outcome = NothingPending | Flushed nat

record committed_filter =
  cf_filter :: stable_bloom_filter
  cf_flushed_at :: instant

text \<open>
  \<open>AtomicBlockingStore::commit\<close> on the decrement source and the state of the store. \<open>None\<close> is a
  panic.
\<close>

type_synonym ('e, 'r, 's) store_commit =
  "info_hash list \<Rightarrow> 'r \<times> 's \<Rightarrow> (('e + committed_filter) \<times> 'r \<times> 's) option"

record ('r, 's) blocking_inner =
  bi_store :: 's
  bi_buffer :: "info_hash list"
  bi_filter :: "stable_bloom_filter option"
  bi_last_flushed_at :: "instant option"
  bi_decrement_starts :: 'r

definition blocking_new :: "'s \<Rightarrow> 'r \<Rightarrow> ('r, 's) blocking_inner" where
  "blocking_new store starts =
     \<lparr>bi_store = store, bi_buffer = [], bi_filter = None, bi_last_flushed_at = None,
      bi_decrement_starts = starts\<rparr>"

text \<open>\<open>HashSet::extend\<close>.\<close>

definition set_extend :: "'a list \<Rightarrow> 'a list \<Rightarrow> 'a list" where
  "set_extend xs s = fold (\<lambda>x s. if x \<in> set s then s else s @ [x]) xs s"

definition should_flush :: "blocking_config \<Rightarrow> instant \<Rightarrow> ('r, 's) blocking_inner \<Rightarrow> bool" where
  "should_flush config now inner =
     (if length (bi_buffer inner) \<ge> bc_max_buffer_size config then True
      else (case bi_last_flushed_at inner of
              None \<Rightarrow> True
            | Some last_flushed_at \<Rightarrow> now - last_flushed_at \<ge> bc_max_flush_wait config))"

definition flush_locked ::
  "('e, 'r, 's) store_commit \<Rightarrow> ('r, 's) blocking_inner
   \<Rightarrow> (('e blocking_error + unit) \<times> ('r, 's) blocking_inner) option" where
  "flush_locked commit inner =
     map_option
       (\<lambda>(result, starts, store).
          let inner = inner\<lparr>bi_decrement_starts := starts, bi_store := store\<rparr>
          in (case result of
                Inl e \<Rightarrow> (Inl (Store e), inner)
              | Inr committed \<Rightarrow>
                  (Inr (), inner\<lparr>bi_buffer := [], bi_filter := Some (cf_filter committed),
                                  bi_last_flushed_at := Some (cf_flushed_at committed)\<rparr>)))
       (commit (bi_buffer inner) (bi_decrement_starts inner, bi_store inner))"

text \<open>\<open>Iterator::filter\<close> with the closure of \<open>filter\<close>, whose bit reads may panic.\<close>

fun eligible :: "info_hash list \<Rightarrow> stable_bloom_filter \<Rightarrow> info_hash list \<Rightarrow> info_hash list option" where
  "eligible buffer f [] = Some []"
| "eligible buffer f (h # hs) =
     (if h \<in> set buffer then eligible buffer f hs
      else Option.bind (filter_test f (ih_as_slice h)) (\<lambda>present.
             if present then eligible buffer f hs
             else map_option ((#) h) (eligible buffer f hs)))"

definition bm_filter ::
  "('e, 'r, 's) store_commit \<Rightarrow> blocking_config \<Rightarrow> instant \<Rightarrow> info_hash list \<Rightarrow> ('r, 's) blocking_inner
   \<Rightarrow> (('e blocking_error + info_hash list) \<times> ('r, 's) blocking_inner) option" where
  "bm_filter commit config now info_hashes inner =
     Option.bind
       (if bi_filter inner = None \<or> should_flush config now inner then flush_locked commit inner
        else Some (Inr (), inner))
       (\<lambda>(result, inner).
          case result of
            Inl e \<Rightarrow> Some (Inl e, inner)
          | Inr _ \<Rightarrow>
              (case bi_filter inner of
                 None \<Rightarrow> None
               | Some f \<Rightarrow>
                   map_option (\<lambda>hs. (Inr hs, inner)) (eligible (bi_buffer inner) f info_hashes)))"

definition bm_block ::
  "('e, 'r, 's) store_commit \<Rightarrow> blocking_config \<Rightarrow> instant \<Rightarrow> info_hash list \<Rightarrow> bool \<Rightarrow> ('r, 's) blocking_inner
   \<Rightarrow> (('e blocking_error + unit) \<times> ('r, 's) blocking_inner) option" where
  "bm_block commit config now info_hashes flush inner =
     (let inner = inner\<lparr>bi_buffer := set_extend info_hashes (bi_buffer inner)\<rparr>
      in if flush \<or> should_flush config now inner then flush_locked commit inner
         else Some (Inr (), inner))"

definition bm_finalize ::
  "('e, 'r, 's) store_commit \<Rightarrow> ('r, 's) blocking_inner
   \<Rightarrow> (('e blocking_error + blocking_finalize_outcome) \<times> ('r, 's) blocking_inner) option" where
  "bm_finalize commit inner =
     (let unique_hash_count = length (bi_buffer inner)
      in if unique_hash_count = 0 then Some (Inr NothingPending, inner)
         else map_option (\<lambda>(result, inner). (map_sum id (\<lambda>_. Flushed unique_hash_count) result, inner))
                (flush_locked commit inner))"

definition bm_flush ::
  "('e, 'r, 's) store_commit \<Rightarrow> ('r, 's) blocking_inner
   \<Rightarrow> (('e blocking_error + unit) \<times> ('r, 's) blocking_inner) option" where
  "bm_flush commit inner =
     map_option (\<lambda>(result, inner). (map_sum id (\<lambda>_. ()) result, inner)) (bm_finalize commit inner)"

section \<open>The PostgreSQL store\<close>

abbreviation BLOCKED_CELL_COUNT :: nat where "BLOCKED_CELL_COUNT \<equiv> 100000000"
abbreviation BLOCKED_ENCODED_BYTES :: nat where "BLOCKED_ENCODED_BYTES \<equiv> 25000091"
abbreviation BOUNDED_READ_BYTES :: nat where "BOUNDED_READ_BYTES \<equiv> BLOCKED_ENCODED_BYTES + 1"

type_synonym oid = u32

datatype 'x postgres_blocking_store_error =
  BeginError 'x
| BoundTransaction 'x
| DeleteTorrents 'x
| LockFilter 'x
| SelectObjectId 'x
| ReadLargeObject 'x
| DecodeFilter "unit stable_bloom_codec_error"
| CreateLargeObject 'x
| EncodeFilter "unit stable_bloom_codec_error"
| WriteLargeObject 'x
| InsertMetadata 'x
| UpdateNullMetadata 'x
| CommitError 'x
| ReadLengthOverflow'

fun store_error_op :: "'x postgres_blocking_store_error \<Rightarrow> blocking_store_op" where
  "store_error_op (BeginError _) = OpTransaction"
| "store_error_op (BoundTransaction _) = OpTransaction"
| "store_error_op (CommitError _) = OpTransaction"
| "store_error_op (DeleteTorrents _) = OpDeleteTorrents"
| "store_error_op _ = OpBloomFilter"

datatype metadata_state = Missing | NullObjectId | ExistingObjectId oid

fun classify_metadata_state :: "oid option option \<Rightarrow> metadata_state" where
  "classify_metadata_state None = Missing"
| "classify_metadata_state (Some None) = NullObjectId"
| "classify_metadata_state (Some (Some oid)) = ExistingObjectId oid"

text \<open>One reading of the clock: the monotonic instant and the wall time.\<close>

record clock_sample =
  cs_monotonic :: instant
  cs_wall :: int

text \<open>
  The statements of the store on a connection of type \<open>'d\<close>. \<open>db_rollback\<close> is the drop of a
  transaction that was not committed.
\<close>

record ('d, 'x) blocking_db =
  db_begin :: "'d \<Rightarrow> ('x + unit) \<times> 'd"
  db_bound :: "'d \<Rightarrow> ('x + unit) \<times> 'd"
  db_delete_torrents :: "bytes list \<Rightarrow> 'd \<Rightarrow> ('x + unit) \<times> 'd"
  db_lock_filter :: "'d \<Rightarrow> ('x + unit) \<times> 'd"
  db_select_oid :: "'d \<Rightarrow> ('x + oid option option) \<times> 'd"
  db_lo_get :: "oid \<Rightarrow> nat \<Rightarrow> 'd \<Rightarrow> ('x + bytes) \<times> 'd"
  db_lo_create :: "'d \<Rightarrow> ('x + oid) \<times> 'd"
  db_lo_put :: "oid \<Rightarrow> bytes \<Rightarrow> 'd \<Rightarrow> ('x + unit) \<times> 'd"
  db_insert_filter :: "oid \<Rightarrow> int \<Rightarrow> 'd \<Rightarrow> ('x + unit) \<times> 'd"
  db_update_null_filter :: "oid \<Rightarrow> int \<Rightarrow> 'd \<Rightarrow> ('x + unit) \<times> 'd"
  db_commit :: "'d \<Rightarrow> ('x + unit) \<times> 'd"
  db_rollback :: "'d \<Rightarrow> 'd"

text \<open>
  A step of the transaction on the decrement source and the connection: a panic, an error or a
  result. \<open>run\<close> is one statement with its \<open>map_err\<close>, and \<open>tread\<close> a reading of the clock, which
  belongs to the surroundings of the connection.
\<close>

type_synonym ('x, 'r, 'd, 'a) txn =
  "'r \<times> 'd \<Rightarrow> (('x postgres_blocking_store_error + 'a) \<times> 'r \<times> 'd) option"

definition tbind :: "('x, 'r, 'd, 'a) txn \<Rightarrow> ('a \<Rightarrow> ('x, 'r, 'd, 'b) txn) \<Rightarrow> ('x, 'r, 'd, 'b) txn" where
  "tbind m f s =
     (case m s of None \<Rightarrow> None | Some (Inl e, s) \<Rightarrow> Some (Inl e, s) | Some (Inr x, s) \<Rightarrow> f x s)"

definition tret :: "'a \<Rightarrow> ('x, 'r, 'd, 'a) txn" where
  "tret x s = Some (Inr x, s)"

definition tread :: "('d \<Rightarrow> 'a) \<Rightarrow> ('x, 'r, 'd, 'a) txn" where
  "tread f s = Some (Inr (f (snd s)), s)"

definition run ::
  "('x \<Rightarrow> 'x postgres_blocking_store_error) \<Rightarrow> ('d \<Rightarrow> ('x + 'a) \<times> 'd) \<Rightarrow> ('x, 'r, 'd, 'a) txn" where
  "run err statement s =
     (case statement (snd s) of (result, d) \<Rightarrow> Some (map_sum err id result, fst s, d))"

definition decode_filter :: "bytes \<Rightarrow> stable_bloom_geometry \<Rightarrow> ('x, 'r, 'd, stable_bloom_filter) txn" where
  "decode_filter v g s = map_option (\<lambda>result. (map_sum DecodeFilter id result, s)) (from_bytes v g)"

definition encode_filter :: "stable_bloom_filter \<Rightarrow> ('x, 'r, 'd, bytes) txn" where
  "encode_filter f s =
     (case write_to (\<lambda>part out. (Inr (), out @ part)) f [] of
        (Inl e, _) \<Rightarrow> Some (Inl (EncodeFilter e), s)
      | (Inr _, out) \<Rightarrow> Some (Inr out, s))"

text \<open>The loop \<open>for hash in blocked\<close>.\<close>

fun add_all ::
  "'r start_source \<Rightarrow> info_hash list \<Rightarrow> stable_bloom_filter \<Rightarrow> 'r \<Rightarrow> (stable_bloom_filter \<times> 'r) option" where
  "add_all next_start [] f r = Some (f, r)"
| "add_all next_start (h # hs) f r =
     Option.bind (filter_add next_start f (ih_as_slice h) r) (\<lambda>(f, r). add_all next_start hs f r)"

definition add_blocked ::
  "'r start_source \<Rightarrow> info_hash list \<Rightarrow> stable_bloom_filter \<Rightarrow> ('x, 'r, 'd, stable_bloom_filter) txn" where
  "add_blocked next_start hs f s =
     map_option (\<lambda>(f, r). (Inr f, r, snd s)) (add_all next_start hs f (fst s))"

definition load_filter ::
  "('d, 'x) blocking_db \<Rightarrow> stable_bloom_geometry \<Rightarrow> metadata_state \<Rightarrow> ('x, 'r, 'd, stable_bloom_filter) txn" where
  "load_filter db g state =
     (case state of
        ExistingObjectId oid \<Rightarrow>
          if BOUNDED_READ_BYTES > 2 ^ 31 - 1 then (\<lambda>s. Some (Inl ReadLengthOverflow', s))
          else tbind (run ReadLargeObject (db_lo_get db oid BOUNDED_READ_BYTES)) (\<lambda>v. decode_filter v g)
      | _ \<Rightarrow> tret (filter_new g))"

definition filter_oid :: "('d, 'x) blocking_db \<Rightarrow> metadata_state \<Rightarrow> ('x, 'r, 'd, oid) txn" where
  "filter_oid db state =
     (case state of
        ExistingObjectId oid \<Rightarrow> tret oid
      | _ \<Rightarrow> run CreateLargeObject (db_lo_create db))"

definition write_metadata ::
  "('d, 'x) blocking_db \<Rightarrow> metadata_state \<Rightarrow> oid \<Rightarrow> int \<Rightarrow> ('x, 'r, 'd, unit) txn" where
  "write_metadata db state oid wall =
     (case state of
        Missing \<Rightarrow> run InsertMetadata (db_insert_filter db oid wall)
      | NullObjectId \<Rightarrow> run UpdateNullMetadata (db_update_null_filter db oid wall)
      | ExistingObjectId _ \<Rightarrow> tret ())"

text \<open>The statements between the beginning of the transaction and its commit.\<close>

definition transaction_body ::
  "('d, 'x) blocking_db \<Rightarrow> 'r start_source \<Rightarrow> stable_bloom_geometry \<Rightarrow> ('d \<Rightarrow> clock_sample) \<Rightarrow> info_hash list
   \<Rightarrow> ('x, 'r, 'd, committed_filter) txn" where
  "transaction_body db next_start g clock blocked =
     tbind (run BoundTransaction (db_bound db)) (\<lambda>_.
     tbind (if blocked \<noteq> []
            then run DeleteTorrents (db_delete_torrents db (map ih_as_slice blocked)) else tret ()) (\<lambda>_.
     tbind (run LockFilter (db_lock_filter db)) (\<lambda>_.
     tbind (run SelectObjectId (db_select_oid db)) (\<lambda>oid_row.
     let metadata_state = classify_metadata_state oid_row
     in tbind (load_filter db g metadata_state) (\<lambda>f.
        tbind (filter_oid db metadata_state) (\<lambda>oid.
        tbind (add_blocked next_start blocked f) (\<lambda>f.
        tbind (encode_filter f) (\<lambda>v.
        tbind (run WriteLargeObject (db_lo_put db oid v)) (\<lambda>_.
        tbind (tread clock) (\<lambda>clock_sample.
        tbind (write_metadata db metadata_state oid (cs_wall clock_sample)) (\<lambda>_.
        tret \<lparr>cf_filter = f, cf_flushed_at = cs_monotonic clock_sample\<rparr>)))))))))))"

definition pg_commit ::
  "('d, 'x) blocking_db \<Rightarrow> 'r start_source \<Rightarrow> stable_bloom_geometry \<Rightarrow> ('d \<Rightarrow> clock_sample)
   \<Rightarrow> ('x postgres_blocking_store_error, 'r, 'd) store_commit" where
  "pg_commit db next_start g clock blocked =
     tbind (run BeginError (db_begin db)) (\<lambda>_ s.
       case tbind (transaction_body db next_start g clock blocked) (\<lambda>committed.
              tbind (run CommitError (db_commit db)) (\<lambda>_. tret committed)) s of
         None \<Rightarrow> None
       | Some (Inl e, r, d) \<Rightarrow> Some (Inl e, r, db_rollback db d)
       | Some (Inr committed, s) \<Rightarrow> Some (Inr committed, s))"

text \<open>The geometry of the production store; \<open>None\<close> is the failed \<open>expect\<close>.\<close>

definition production_geometry :: "stable_bloom_geometry option" where
  "production_geometry =
     (case geometry_new BLOCKED_CELL_COUNT 2 5 49 of Inl _ \<Rightarrow> None | Inr g \<Rightarrow> Some g)"

definition validate_go_blocked_torrents_filter :: "bytes \<Rightarrow> (unit stable_bloom_codec_error + unit) option" where
  "validate_go_blocked_torrents_filter v =
     Option.bind production_geometry (\<lambda>g. map_option (map_sum id (\<lambda>_. ())) (from_bytes v g))"

section \<open>Histories of the manager\<close>

text \<open>A store that keeps the batches it committed successfully, in order.\<close>

definition logging :: "('e, 'r, 's) store_commit \<Rightarrow> ('e, 'r, 's \<times> info_hash list list) store_commit" where
  "logging commit hs s =
     map_option (\<lambda>(result, r, store).
         (result, r, store, snd (snd s) @ (case result of Inl _ \<Rightarrow> [] | Inr _ \<Rightarrow> [hs])))
       (commit hs (fst s, fst (snd s)))"

text \<open>
  The states an interleaving of operations reaches, with the hashes blocked so far. Every
  operation holds the lock, so operations of several handles take effect one after another.
\<close>

inductive blocking_reachable ::
  "('e, 'r, 's) store_commit \<Rightarrow> blocking_config \<Rightarrow> 's \<Rightarrow> ('r, 's) blocking_inner \<Rightarrow> info_hash set \<Rightarrow> bool"
  for commit config store where
  start: "blocking_reachable commit config store (blocking_new store starts) {}"
| filter: "blocking_reachable commit config store inner B \<Longrightarrow> bm_filter commit config now hs inner = Some (result, inner')
    \<Longrightarrow> blocking_reachable commit config store inner' B"
| block: "blocking_reachable commit config store inner B \<Longrightarrow> bm_block commit config now hs flush inner = Some (result, inner')
    \<Longrightarrow> blocking_reachable commit config store inner' (B \<union> set hs)"
| finalize: "blocking_reachable commit config store inner B \<Longrightarrow> bm_finalize commit inner = Some (result, inner')
    \<Longrightarrow> blocking_reachable commit config store inner' B"
| flush: "blocking_reachable commit config store inner B \<Longrightarrow> bm_flush commit inner = Some (result, inner')
    \<Longrightarrow> blocking_reachable commit config store inner' B"

lemma set_set_extend [simp]: "set (set_extend xs s) = set xs \<union> set s"
  by (induction xs arbitrary: s) (auto simp: set_extend_def)

lemma distinct_set_extend [simp]: "distinct s \<Longrightarrow> distinct (set_extend xs s)"
  by (induction xs arbitrary: s) (auto simp: set_extend_def)

text \<open>A flush clears the buffer and publishes, or keeps buffer, filter and time.\<close>

lemma flush_locked_cases:
  assumes "flush_locked commit inner = Some (result, inner')"
  obtains (failed) e starts store where "commit (bi_buffer inner) (bi_decrement_starts inner, bi_store inner) = Some (Inl e, starts, store)"
      "result = Inl (Store e)" "inner' = inner\<lparr>bi_decrement_starts := starts, bi_store := store\<rparr>"
  | (flushed) cf starts store where "commit (bi_buffer inner) (bi_decrement_starts inner, bi_store inner) = Some (Inr cf, starts, store)"
      "result = Inr ()"
      "inner' = inner\<lparr>bi_decrement_starts := starts, bi_store := store, bi_buffer := [],
         bi_filter := Some (cf_filter cf), bi_last_flushed_at := Some (cf_flushed_at cf)\<rparr>"
proof -
  obtain r starts store where commit: "commit (bi_buffer inner) (bi_decrement_starts inner, bi_store inner) = Some (r, starts, store)"
    using assms by (auto simp: flush_locked_def)
  show thesis
  proof (cases r)
    case (Inl e)
    then show thesis
      using assms commit by (intro failed) (auto simp: flush_locked_def)
  next
    case (Inr cf)
    then show thesis
      using assms commit by (intro flushed) (auto simp: flush_locked_def)
  qed
qed

lemma bm_filter_flush:
  assumes "bm_filter commit config now hs inner = Some (result, inner')"
  shows "inner' = inner \<or> (\<exists>r. flush_locked commit inner = Some (r, inner'))"
proof -
  obtain r inner1 where step: "(if bi_filter inner = None \<or> should_flush config now inner
      then flush_locked commit inner else Some (Inr (), inner)) = Some (r, inner1)"
    and rest: "(case r of Inl e \<Rightarrow> Some (Inl e, inner1) | Inr _ \<Rightarrow>
         (case bi_filter inner1 of None \<Rightarrow> None
          | Some f \<Rightarrow> map_option (\<lambda>hs. (Inr hs, inner1)) (eligible (bi_buffer inner1) f hs))) = Some (result, inner')"
    using assms unfolding bm_filter_def bind_eq_Some_conv by auto
  from rest have "inner' = inner1"
    by (cases r; cases "bi_filter inner1") auto
  with step show ?thesis
    by (auto split: if_splits)
qed

text \<open>A predicate that flushes keep is kept by every operation that only flushes.\<close>

definition kept_by_flush :: "('e, 'r, 's) store_commit \<Rightarrow> (('r, 's) blocking_inner \<Rightarrow> bool) \<Rightarrow> bool" where
  "kept_by_flush commit P \<longleftrightarrow>
     (\<forall>inner result inner'. P inner \<longrightarrow> flush_locked commit inner = Some (result, inner') \<longrightarrow> P inner')"

lemma kept_by_flush_ops:
  assumes "kept_by_flush commit P" and "P inner"
  shows "bm_filter commit config now hs inner = Some (fresult, inner') \<Longrightarrow> P inner'"
    and "bm_finalize commit inner = Some (nresult, inner') \<Longrightarrow> P inner'"
    and "bm_flush commit inner = Some (uresult, inner') \<Longrightarrow> P inner'"
  using assms bm_filter_flush [of commit config now hs inner fresult inner']
  by (auto simp: kept_by_flush_def bm_flush_def bm_finalize_def Let_def split: if_splits)

definition logged :: "('r, 's \<times> info_hash list list) blocking_inner \<Rightarrow> info_hash set" where
  "logged inner = set (bi_buffer inner) \<union> \<Union> (set ` set (snd (bi_store inner)))"

lemma logged_flush:
  assumes "flush_locked (logging commit) inner = Some (result, inner')"
  shows "logged inner' = logged inner \<and> (distinct (bi_buffer inner) \<longrightarrow> distinct (bi_buffer inner'))"
  using assms
proof (cases rule: flush_locked_cases)
  case (failed e starts store)
  then show ?thesis
    by (auto simp: logged_def logging_def)
next
  case (flushed cf starts store)
  then show ?thesis
    by (auto simp: logged_def logging_def)
qed

lemma blocking_logged:
  assumes "blocking_reachable (logging commit) config (s0, []) inner B"
  shows "distinct (bi_buffer inner) \<and> logged inner = B"
  using assms
proof (induction rule: blocking_reachable.induct)
  case (block inner B now hs flush result inner')
  let ?inner = "inner\<lparr>bi_buffer := set_extend hs (bi_buffer inner)\<rparr>"
  have "distinct (bi_buffer ?inner) \<and> logged ?inner = B \<union> set hs"
    using block.IH by (auto simp: logged_def)
  then show ?case
    using block.hyps(2) logged_flush [of commit ?inner result inner']
    by (auto simp: bm_block_def Let_def split: if_splits)
next
  case (filter inner B now hs result inner')
  then show ?case
    by (elim kept_by_flush_ops(1) [rotated 2]) (auto simp: kept_by_flush_def dest!: logged_flush)
next
  case (finalize inner B result inner')
  then show ?case
    by (elim kept_by_flush_ops(2) [rotated 2]) (auto simp: kept_by_flush_def dest!: logged_flush)
next
  case (flush inner B result inner')
  then show ?case
    by (elim kept_by_flush_ops(3) [rotated 2]) (auto simp: kept_by_flush_def dest!: logged_flush)
qed (simp add: blocking_new_def logged_def)

section \<open>The transaction\<close>

text \<open>
  What the store relies on of the database: the committed content, and the content a transaction
  sees. A statement leaves the committed content alone; a successful commit makes the content of
  the transaction the committed one; a failed commit may or may not have taken effect. No other
  process writes the filter meanwhile, which is what its advisory lock is for.
\<close>

record blocking_content =
  ct_torrents :: "bytes set"
  ct_metadata :: "oid option option"
  ct_objects :: "oid \<Rightarrow> bytes option"

definition statement_ok ::
  "('d \<Rightarrow> blocking_content) \<Rightarrow> ('d \<Rightarrow> blocking_content) \<Rightarrow> ('d \<Rightarrow> ('x + 'a) \<times> 'd)
   \<Rightarrow> (blocking_content \<Rightarrow> 'a \<Rightarrow> blocking_content \<Rightarrow> bool) \<Rightarrow> bool" where
  "statement_ok committed work statement effect \<longleftrightarrow>
     (\<forall>d. case statement d of
        (Inl _, d') \<Rightarrow> committed d' = committed d
      | (Inr x, d') \<Rightarrow> committed d' = committed d \<and> effect (work d) x (work d'))"

definition db_contract ::
  "('d, 'x) blocking_db \<Rightarrow> ('d \<Rightarrow> blocking_content) \<Rightarrow> ('d \<Rightarrow> blocking_content) \<Rightarrow> bool" where
  "db_contract db committed work \<longleftrightarrow>
     (\<forall>d. case db_begin db d of
        (Inl _, d') \<Rightarrow> committed d' = committed d
      | (Inr _, d') \<Rightarrow> committed d' = committed d \<and> work d' = committed d)
     \<and> statement_ok committed work (db_bound db) (\<lambda>c _ c'. c' = c)
     \<and> (\<forall>hs. statement_ok committed work (db_delete_torrents db hs)
          (\<lambda>c _ c'. c' = c\<lparr>ct_torrents := ct_torrents c - set hs\<rparr>))
     \<and> statement_ok committed work (db_lock_filter db) (\<lambda>c _ c'. c' = c)
     \<and> statement_ok committed work (db_select_oid db) (\<lambda>c row c'. c' = c \<and> row = ct_metadata c)
     \<and> (\<forall>oid n. statement_ok committed work (db_lo_get db oid n)
          (\<lambda>c v c'. c' = c \<and> (\<exists>bs. ct_objects c oid = Some bs \<and> v = take n bs)))
     \<and> statement_ok committed work (db_lo_create db)
          (\<lambda>c oid c'. ct_objects c oid = None \<and> c' = c\<lparr>ct_objects := (ct_objects c)(oid \<mapsto> [])\<rparr>)
     \<and> (\<forall>oid v. statement_ok committed work (db_lo_put db oid v)
          (\<lambda>c _ c'. \<exists>bs. ct_objects c oid = Some bs
             \<and> c' = c\<lparr>ct_objects := (ct_objects c)(oid \<mapsto> v @ drop (length v) bs)\<rparr>))
     \<and> (\<forall>oid wall. statement_ok committed work (db_insert_filter db oid wall)
          (\<lambda>c _ c'. c' = c\<lparr>ct_metadata := Some (Some oid)\<rparr>))
     \<and> (\<forall>oid wall. statement_ok committed work (db_update_null_filter db oid wall)
          (\<lambda>c _ c'. c' = c\<lparr>ct_metadata := Some (Some oid)\<rparr>))
     \<and> (\<forall>d. case db_commit db d of
          (Inl _, d') \<Rightarrow> committed d' \<in> {committed d, work d}
        | (Inr _, d') \<Rightarrow> committed d' = work d)
     \<and> (\<forall>d. committed (db_rollback db d) = committed d)"

text \<open>
  Triples: from a state that satisfies \<open>P\<close> a step does not panic, an error leaves the committed
  content as it is, and a result satisfies \<open>Q\<close>.
\<close>

definition triple ::
  "('d \<Rightarrow> blocking_content) \<Rightarrow> blocking_content \<Rightarrow> ('r \<Rightarrow> 'd \<Rightarrow> bool) \<Rightarrow> ('x, 'r, 'd, 'a) txn
   \<Rightarrow> ('a \<Rightarrow> 'r \<Rightarrow> 'd \<Rightarrow> bool) \<Rightarrow> bool" where
  "triple committed C P m Q \<longleftrightarrow>
     (\<forall>r d. P r d \<longrightarrow>
        (case m (r, d) of
           None \<Rightarrow> False
         | Some (Inl _, r', d') \<Rightarrow> committed d' = C
         | Some (Inr x, r', d') \<Rightarrow> Q x r' d'))"

lemma triple_bind:
  assumes "triple committed C P m Q" and "\<And>x. triple committed C (Q x) (f x) R"
  shows "triple committed C P (tbind m f) R"
  unfolding triple_def
proof (intro allI impI)
  fix r d
  assume "P r d"
  with assms(1) have m: "case m (r, d) of None \<Rightarrow> False | Some (Inl _, r', d') \<Rightarrow> committed d' = C
      | Some (Inr x, r', d') \<Rightarrow> Q x r' d'"
    unfolding triple_def by (elim allE impE) assumption+
  show "case tbind m f (r, d) of None \<Rightarrow> False | Some (Inl _, r', d') \<Rightarrow> committed d' = C
      | Some (Inr x, r', d') \<Rightarrow> R x r' d'"
  proof (cases "m (r, d)")
    case (Some p)
    obtain result r' d' where p: "p = (result, r', d')"
      by (cases p) auto
    show ?thesis
    proof (cases result)
      case (Inr x)
      with m Some p have "Q x r' d'"
        by simp
      then have "case f x (r', d') of None \<Rightarrow> False | Some (Inl _, r', d') \<Rightarrow> committed d' = C
          | Some (Inr x, r', d') \<Rightarrow> R x r' d'"
        using assms(2) [of x] unfolding triple_def by (elim allE impE) assumption+
      then show ?thesis
        by (simp add: tbind_def Some p Inr)
    qed (use m in \<open>simp add: tbind_def Some p\<close>)
  qed (use m in simp)
qed

lemma triple_ret: "(\<And>r d. P r d \<Longrightarrow> Q x r d) \<Longrightarrow> triple committed C P (tret x) Q"
  by (simp add: triple_def tret_def)

lemma triple_read: "triple committed C P (tread f) (\<lambda>_. P)"
  by (simp add: triple_def tread_def)

lemma triple_post:
  assumes "triple committed C P m Q" and "\<And>x r d. Q x r d \<Longrightarrow> R x r d"
  shows "triple committed C P m R"
  using assms(1) unfolding triple_def
  by (fastforce split: option.splits sum.splits prod.splits intro: assms(2))

lemma triple_run:
  assumes "statement_ok committed work statement effect"
    and "\<And>r d. P r d \<Longrightarrow> committed d = C"
    and "\<And>r d x d'. P r d \<Longrightarrow> committed d' = C \<Longrightarrow> effect (work d) x (work d') \<Longrightarrow> Q x r d'"
  shows "triple committed C P (run err statement) Q"
  unfolding triple_def
proof (intro allI impI)
  fix r d
  assume P: "P r d"
  obtain result d' where st: "statement d = (result, d')"
    by force
  have "case statement d of (Inl _, d') \<Rightarrow> committed d' = committed d
      | (Inr x, d') \<Rightarrow> committed d' = committed d \<and> effect (work d) x (work d')"
    using assms(1) unfolding statement_ok_def by (rule spec)
  then show "case run err statement (r, d) of None \<Rightarrow> False | Some (Inl _, r', d') \<Rightarrow> committed d' = C
      | Some (Inr x, r', d') \<Rightarrow> Q x r' d'"
    using assms(2,3) [OF P] by (cases result) (simp_all add: run_def st)
qed

lemma add_all_spec:
  assumes g: "geometry_ok g" and source: "start_in_range next_start" and "filter_ok g f"
  shows "\<exists>ms f' r'. add_all next_start hs f r = Some (f', r') \<and> filter_ok g f'
    \<and> counting next_start g (map ih_as_slice hs) (counters f) r = (ms, counters f', r')"
  using assms(3)
proof (induction hs arbitrary: f r)
  case (Cons h hs)
  obtain start r1 where start: "next_start (sg_cell_count g) r = (start, r1)"
    by force
  have "start < sg_cell_count g"
    using source start geometry_okD(1) [OF g] by (metis fst_conv start_in_range_def)
  from filter_test_and_add_spec [where next_start = next_start and r = r and v = "ih_as_slice h", OF g Cons.prems start this]
  obtain f1 where f1: "filter_add next_start f (ih_as_slice h) r = Some (f1\<lparr>sf_index_buffer := sf_index_buffer f\<rparr>, r1)"
    "filter_ok g f1" "counters f1 = observed g start (ih_as_slice h) (counters f)"
    by blast
  let ?f1 = "f1\<lparr>sf_index_buffer := sf_index_buffer f\<rparr>"
  have "filter_ok g ?f1"
    using f1(2) Cons.prems by (simp add: filter_ok_def)
  from Cons.IH [OF this, of r1] obtain ms f' r' where "add_all next_start hs ?f1 r1 = Some (f', r')" "filter_ok g f'"
    "counting next_start g (map ih_as_slice hs) (counters ?f1) r1 = (ms, counters f', r')"
    by blast
  moreover have "counters ?f1 = observed g start (ih_as_slice h) (counters f)"
    using f1(3) by simp
  ultimately show ?case
    by (simp add: f1(1) start)
qed simp

text \<open>What a successful transaction leaves, and the filter it starts from.\<close>

definition blocked_content :: "info_hash list \<Rightarrow> oid \<Rightarrow> stable_bloom_filter \<Rightarrow> blocking_content \<Rightarrow> blocking_content" where
  "blocked_content hs oid f C =
     C\<lparr>ct_torrents := ct_torrents C - set (map ih_as_slice hs), ct_metadata := Some (Some oid),
       ct_objects := (ct_objects C)(oid \<mapsto> encoded f)\<rparr>"

definition persisted :: "stable_bloom_geometry \<Rightarrow> blocking_content \<Rightarrow> oid \<Rightarrow> stable_bloom_filter \<Rightarrow> bool" where
  "persisted g C oid f \<longleftrightarrow>
     (case ct_metadata C of
        Some (Some oid') \<Rightarrow> oid = oid' \<and> ct_objects C oid = Some (encoded f) \<and> filter_ok g f
      | _ \<Rightarrow> ct_objects C oid = None \<and> f = filter_new g)"

lemma triple_pre: "(A \<Longrightarrow> triple committed C P m Q) \<Longrightarrow> triple committed C (\<lambda>r d. A \<and> P r d) m Q"
  by (cases A) (simp_all add: triple_def)

lemma triple_decode:
  assumes g: "geometry_ok g" and "\<And>r d. P r d \<Longrightarrow> committed d = C"
    and "\<And>f r d. P r d \<Longrightarrow> filter_ok g f \<Longrightarrow> v = encoded f \<Longrightarrow> Q f r d"
  shows "triple committed C P (decode_filter v g) Q"
proof -
  obtain result :: "unit stable_bloom_codec_error + stable_bloom_filter"
    where result: "from_bytes v g = Some result"
    using from_bytes_total [OF g, of v] by auto
  then have "filter_ok g f \<and> v = encoded f" if "result = Inr f" for f
    using from_bytes_Inr [OF g] that by blast
  then have Q: "Q f r d" if "result = Inr f" "P r d" for f r d
    using assms(3) that by blast
  show ?thesis
    using assms(2) Q by (cases result) (auto simp: triple_def decode_filter_def result)
qed

lemma triple_encode:
  assumes "\<And>r d. P r d \<Longrightarrow> Q (encoded f) r d"
  shows "triple committed C P (encode_filter f) Q"
  using assms by (simp add: triple_def encode_filter_def write_to_def write_parts_vec encoded_def)

lemma triple_add:
  assumes g: "geometry_ok g" and source: "start_in_range next_start" and f: "filter_ok g f"
    and "\<And>ms f' r d r'. P r d \<Longrightarrow> filter_ok g f' \<Longrightarrow>
      counting next_start g (map ih_as_slice hs) (counters f) r = (ms, counters f', r') \<Longrightarrow> Q f' r' d"
  shows "triple committed C P (add_blocked next_start hs f) Q"
  unfolding triple_def
proof (intro allI impI)
  fix r d
  assume P: "P r d"
  obtain ms f' r' where "add_all next_start hs f r = Some (f', r')" "filter_ok g f'"
    "counting next_start g (map ih_as_slice hs) (counters f) r = (ms, counters f', r')"
    using add_all_spec [OF g source f] by blast
  then show "case add_blocked next_start hs f (r, d) of None \<Rightarrow> False | Some (Inl _, r', d') \<Rightarrow> committed d' = C
      | Some (Inr x, r', d') \<Rightarrow> Q x r' d'"
    using assms(4) [OF P] by (simp add: add_blocked_def)
qed

lemma db_contractD:
  assumes "db_contract db committed work"
  shows "statement_ok committed work (db_bound db) (\<lambda>c _ c'. c' = c)"
    and "statement_ok committed work (db_delete_torrents db hs)
          (\<lambda>c _ c'. c' = c\<lparr>ct_torrents := ct_torrents c - set hs\<rparr>)"
    and "statement_ok committed work (db_lock_filter db) (\<lambda>c _ c'. c' = c)"
    and "statement_ok committed work (db_select_oid db) (\<lambda>c row c'. c' = c \<and> row = ct_metadata c)"
    and "statement_ok committed work (db_lo_get db oid n)
          (\<lambda>c v c'. c' = c \<and> (\<exists>bs. ct_objects c oid = Some bs \<and> v = take n bs))"
    and "statement_ok committed work (db_lo_create db)
          (\<lambda>c oid c'. ct_objects c oid = None \<and> c' = c\<lparr>ct_objects := (ct_objects c)(oid \<mapsto> [])\<rparr>)"
    and "statement_ok committed work (db_lo_put db oid v)
          (\<lambda>c _ c'. \<exists>bs. ct_objects c oid = Some bs
             \<and> c' = c\<lparr>ct_objects := (ct_objects c)(oid \<mapsto> v @ drop (length v) bs)\<rparr>)"
    and "statement_ok committed work (db_insert_filter db oid wall)
          (\<lambda>c _ c'. c' = c\<lparr>ct_metadata := Some (Some oid)\<rparr>)"
    and "statement_ok committed work (db_update_null_filter db oid wall)
          (\<lambda>c _ c'. c' = c\<lparr>ct_metadata := Some (Some oid)\<rparr>)"
  using assms by (simp_all add: db_contract_def)

text \<open>The steps of the transaction that depend on what is stored.\<close>

definition loaded :: "stable_bloom_geometry \<Rightarrow> blocking_content \<Rightarrow> stable_bloom_filter \<Rightarrow> bool" where
  "loaded g C f \<longleftrightarrow>
     (case ct_metadata C of
        Some (Some oid) \<Rightarrow> ct_objects C oid = Some (encoded f) \<and> filter_ok g f
      | _ \<Rightarrow> f = filter_new g)"

lemma triple_load:
  assumes g: "geometry_ok g" "sg_encoded_bytes g < BOUNDED_READ_BYTES"
    and db: "db_contract db committed work"
    and W: "ct_metadata W = ct_metadata C" "ct_objects W = ct_objects C"
  shows "triple committed C (\<lambda>r d. r = r0 \<and> committed d = C \<and> work d = W)
    (load_filter db g (classify_metadata_state (ct_metadata C)))
    (\<lambda>f r d. loaded g C f \<and> r = r0 \<and> committed d = C \<and> work d = W)"
proof (cases "classify_metadata_state (ct_metadata C)")
  case (ExistingObjectId oid)
  then have meta: "ct_metadata C = Some (Some oid)"
    by (cases "ct_metadata C" rule: classify_metadata_state.cases) simp_all
  have whole: "bs = take 25000092 bs" if "encoded f = take 25000092 bs" "filter_ok g f" for bs f
    using arg_cong [OF that(1), of length] encoded_length [OF g(1) that(2)] g(2) by simp
  have "triple committed C (\<lambda>r d. r = r0 \<and> committed d = C \<and> work d = W)
    (tbind (run ReadLargeObject (db_lo_get db oid BOUNDED_READ_BYTES)) (\<lambda>v. decode_filter v g))
    (\<lambda>f r d. loaded g C f \<and> r = r0 \<and> committed d = C \<and> work d = W)"
  proof (rule triple_bind)
    show "triple committed C (\<lambda>r d. r = r0 \<and> committed d = C \<and> work d = W)
      (run ReadLargeObject (db_lo_get db oid BOUNDED_READ_BYTES))
      (\<lambda>v r d. (\<exists>bs. ct_objects C oid = Some bs \<and> v = take BOUNDED_READ_BYTES bs) \<and> r = r0 \<and> committed d = C \<and> work d = W)"
      by (rule triple_run [OF db_contractD(5) [OF db]]) (auto simp: W)
  next
    fix v
    show "triple committed C
      (\<lambda>r d. (\<exists>bs. ct_objects C oid = Some bs \<and> v = take BOUNDED_READ_BYTES bs) \<and> r = r0 \<and> committed d = C \<and> work d = W)
      (decode_filter v g) (\<lambda>f r d. loaded g C f \<and> r = r0 \<and> committed d = C \<and> work d = W)"
      by (rule triple_decode [OF g(1)]) (auto simp: loaded_def meta intro: whole)
  qed
  then show ?thesis
    by (simp add: load_filter_def ExistingObjectId)
next
  case Missing
  then have "ct_metadata C = None"
    by (cases "ct_metadata C" rule: classify_metadata_state.cases) simp_all
  then show ?thesis
    by (auto simp: load_filter_def loaded_def intro!: triple_ret)
next
  case NullObjectId
  then have "ct_metadata C = Some None"
    by (cases "ct_metadata C" rule: classify_metadata_state.cases) simp_all
  then show ?thesis
    by (auto simp: load_filter_def loaded_def intro!: triple_ret)
qed

lemma triple_oid:
  assumes g: "geometry_ok g" and db: "db_contract db committed work"
    and W: "ct_metadata W = ct_metadata C" "ct_objects W = ct_objects C" and f: "loaded g C f"
  shows "triple committed C (\<lambda>r d. r = r0 \<and> committed d = C \<and> work d = W)
    (filter_oid db (classify_metadata_state (ct_metadata C)))
    (\<lambda>oid r d. persisted g C oid f \<and> r = r0 \<and> committed d = C
       \<and> (\<exists>bs. length bs \<le> sg_encoded_bytes g \<and> work d = W\<lparr>ct_objects := (ct_objects C)(oid \<mapsto> bs)\<rparr>))"
proof (cases "classify_metadata_state (ct_metadata C)")
  case (ExistingObjectId oid)
  then have meta: "ct_metadata C = Some (Some oid)"
    by (cases "ct_metadata C" rule: classify_metadata_state.cases) simp_all
  with f have stored: "persisted g C oid f" "ct_objects C oid = Some (encoded f)" "filter_ok g f"
    by (simp_all add: loaded_def persisted_def)
  have "(ct_objects C)(oid \<mapsto> encoded f) = ct_objects C"
    using stored(2) by auto
  then have "W = W\<lparr>ct_objects := (ct_objects C)(oid \<mapsto> encoded f)\<rparr>"
    using W(2) by (cases W) simp
  then show ?thesis
    using stored(1) encoded_length [OF g stored(3)]
    by (auto simp: filter_oid_def ExistingObjectId intro!: triple_ret exI [of _ "encoded f"])
next
  case Missing
  then have meta: "ct_metadata C = None"
    by (cases "ct_metadata C" rule: classify_metadata_state.cases) simp_all
  then show ?thesis
    using Missing f W unfolding filter_oid_def
    by (simp, intro triple_run [OF db_contractD(6) [OF db]]) (auto simp: loaded_def persisted_def intro!: exI [of _ "[]"])
next
  case NullObjectId
  then have "ct_metadata C = Some None"
    by (cases "ct_metadata C" rule: classify_metadata_state.cases) simp_all
  then show ?thesis
    using NullObjectId f W unfolding filter_oid_def
    by (simp, intro triple_run [OF db_contractD(6) [OF db]]) (auto simp: loaded_def persisted_def intro!: exI [of _ "[]"])
qed

lemma triple_metadata:
  assumes db: "db_contract db committed work" and f0: "persisted g C oid f0"
    and W: "W\<lparr>ct_metadata := Some (Some oid)\<rparr> = W'" "ct_metadata W = ct_metadata C"
  shows "triple committed C (\<lambda>r d. P r \<and> committed d = C \<and> work d = W)
    (write_metadata db (classify_metadata_state (ct_metadata C)) oid wall)
    (\<lambda>_ r d. P r \<and> committed d = C \<and> work d = W')"
proof (cases "classify_metadata_state (ct_metadata C)")
  case (ExistingObjectId oid')
  then have "ct_metadata C = Some (Some oid)"
    using f0 by (cases "ct_metadata C" rule: classify_metadata_state.cases) (simp_all add: persisted_def)
  then have "W = W'"
    using W by (cases W) simp
  then show ?thesis
    by (auto simp: write_metadata_def ExistingObjectId intro!: triple_ret)
next
  case Missing
  then show ?thesis
    using W(1) by (auto simp: write_metadata_def intro!: triple_run [OF db_contractD(8) [OF db]])
next
  case NullObjectId
  then show ?thesis
    using W(1) by (auto simp: write_metadata_def intro!: triple_run [OF db_contractD(9) [OF db]])
qed

lemma triple_tail:
  assumes g: "geometry_ok g" and source: "start_in_range next_start"
    and db: "db_contract db committed work" and f0: "persisted g C oid f0" and W: "ct_metadata W = ct_metadata C"
  shows "triple committed C (\<lambda>r d. r = r0 \<and> committed d = C
       \<and> (\<exists>bs. length bs \<le> sg_encoded_bytes g \<and> work d = W\<lparr>ct_objects := (ct_objects C)(oid \<mapsto> bs)\<rparr>))
    (tbind (add_blocked next_start hs f0) (\<lambda>f.
     tbind (encode_filter f) (\<lambda>v.
     tbind (run WriteLargeObject (db_lo_put db oid v)) (\<lambda>_.
     tbind (tread clock) (\<lambda>sample.
     tbind (write_metadata db (classify_metadata_state (ct_metadata C)) oid (cs_wall sample)) (\<lambda>_.
     tret \<lparr>cf_filter = f, cf_flushed_at = cs_monotonic sample\<rparr>))))))
    (\<lambda>cf r d. committed d = C \<and> filter_ok g (cf_filter cf)
       \<and> (\<exists>ms. counting next_start g (map ih_as_slice hs) (counters f0) r0 = (ms, counters (cf_filter cf), r))
       \<and> work d = W\<lparr>ct_objects := (ct_objects C)(oid \<mapsto> encoded (cf_filter cf)), ct_metadata := Some (Some oid)\<rparr>)"
proof -
  let ?W = "\<lambda>bs. W\<lparr>ct_objects := (ct_objects C)(oid \<mapsto> bs)\<rparr>"
  let ?R = "\<lambda>f r. filter_ok g f \<and> (\<exists>ms. counting next_start g (map ih_as_slice hs) (counters f0) r0 = (ms, counters f, r))"
  have ok: "filter_ok g f0"
    using f0 filter_new_ok [OF g] by (auto simp: persisted_def split: option.splits)
  show ?thesis
  proof (rule triple_bind)
    show "triple committed C (\<lambda>r d. r = r0 \<and> committed d = C \<and> (\<exists>bs. length bs \<le> sg_encoded_bytes g \<and> work d = ?W bs))
      (add_blocked next_start hs f0)
      (\<lambda>f r d. ?R f r \<and> committed d = C \<and> (\<exists>bs. length bs \<le> sg_encoded_bytes g \<and> work d = ?W bs))"
      by (rule triple_add [OF g source ok]) auto
    fix f
    show "triple committed C (\<lambda>r d. ?R f r \<and> committed d = C \<and> (\<exists>bs. length bs \<le> sg_encoded_bytes g \<and> work d = ?W bs))
     (tbind (encode_filter f) (\<lambda>v.
      tbind (run WriteLargeObject (db_lo_put db oid v)) (\<lambda>_.
      tbind (tread clock) (\<lambda>sample.
      tbind (write_metadata db (classify_metadata_state (ct_metadata C)) oid (cs_wall sample)) (\<lambda>_.
      tret \<lparr>cf_filter = f, cf_flushed_at = cs_monotonic sample\<rparr>)))))
     (\<lambda>cf r d. committed d = C \<and> filter_ok g (cf_filter cf)
       \<and> (\<exists>ms. counting next_start g (map ih_as_slice hs) (counters f0) r0 = (ms, counters (cf_filter cf), r))
       \<and> work d = ?W (encoded (cf_filter cf))\<lparr>ct_metadata := Some (Some oid)\<rparr>)"
    proof (rule triple_bind)
      show "triple committed C (\<lambda>r d. ?R f r \<and> committed d = C \<and> (\<exists>bs. length bs \<le> sg_encoded_bytes g \<and> work d = ?W bs))
        (encode_filter f)
        (\<lambda>v r d. v = encoded f \<and> ?R f r \<and> committed d = C \<and> (\<exists>bs. length bs \<le> sg_encoded_bytes g \<and> work d = ?W bs))"
        by (rule triple_encode) simp
      fix v
      have put: "triple committed C (\<lambda>r d. ?R f r \<and> committed d = C \<and> (\<exists>bs. length bs \<le> sg_encoded_bytes g \<and> work d = ?W bs))
          (run WriteLargeObject (db_lo_put db oid (encoded f))) (\<lambda>_ r d. ?R f r \<and> committed d = C \<and> work d = ?W (encoded f))"
        by (rule triple_run [OF db_contractD(7) [OF db]]) (use encoded_length [OF g] in auto)
      show "triple committed C
        (\<lambda>r d. v = encoded f \<and> ?R f r \<and> committed d = C \<and> (\<exists>bs. length bs \<le> sg_encoded_bytes g \<and> work d = ?W bs))
        (tbind (run WriteLargeObject (db_lo_put db oid v)) (\<lambda>_.
         tbind (tread clock) (\<lambda>sample.
         tbind (write_metadata db (classify_metadata_state (ct_metadata C)) oid (cs_wall sample)) (\<lambda>_.
         tret \<lparr>cf_filter = f, cf_flushed_at = cs_monotonic sample\<rparr>))))
        (\<lambda>cf r d. committed d = C \<and> filter_ok g (cf_filter cf)
          \<and> (\<exists>ms. counting next_start g (map ih_as_slice hs) (counters f0) r0 = (ms, counters (cf_filter cf), r))
          \<and> work d = ?W (encoded (cf_filter cf))\<lparr>ct_metadata := Some (Some oid)\<rparr>)"
        by (rule triple_pre, simp only:, rule triple_bind [OF put], rule triple_bind [OF triple_read],
            rule triple_bind [OF triple_metadata [OF db f0 refl]], simp add: W, rule triple_ret, simp)
    qed
  qed
qed

lemma triple_body:
  assumes g: "geometry_ok g" "sg_encoded_bytes g < BOUNDED_READ_BYTES" and source: "start_in_range next_start"
    and db: "db_contract db committed work"
  shows "triple committed C (\<lambda>r d. r = r0 \<and> committed d = C \<and> work d = C)
    (transaction_body db next_start g clock hs)
    (\<lambda>cf r d. committed d = C \<and> filter_ok g (cf_filter cf)
       \<and> (\<exists>oid f0 ms. persisted g C oid f0 \<and> work d = blocked_content hs oid (cf_filter cf) C
            \<and> counting next_start g (map ih_as_slice hs) (counters f0) r0 = (ms, counters (cf_filter cf), r)))"
    (is "triple _ _ _ _ ?Q")
proof -
  let ?W = "C\<lparr>ct_torrents := ct_torrents C - set (map ih_as_slice hs)\<rparr>"
  let ?at = "\<lambda>W r d. r = r0 \<and> committed d = C \<and> work d = W"
  let ?st = "classify_metadata_state (ct_metadata C)"
  have W: "ct_metadata ?W = ct_metadata C" "ct_objects ?W = ct_objects C"
    by simp_all
  have bound: "triple committed C (?at C) (run BoundTransaction (db_bound db)) (\<lambda>_. ?at C)"
    by (rule triple_run [OF db_contractD(1) [OF db]]) auto
  have delete: "triple committed C (?at C) (if hs \<noteq> [] then run DeleteTorrents (db_delete_torrents db (map ih_as_slice hs)) else tret ())
      (\<lambda>_. ?at ?W)"
    by (cases "hs = []") (auto intro!: triple_ret triple_run [OF db_contractD(2) [OF db]])
  have lock: "triple committed C (?at ?W) (run LockFilter (db_lock_filter db)) (\<lambda>_. ?at ?W)"
    by (rule triple_run [OF db_contractD(3) [OF db]]) auto
  have select: "triple committed C (?at ?W) (run SelectObjectId (db_select_oid db)) (\<lambda>row r d. row = ct_metadata C \<and> ?at ?W r d)"
    by (rule triple_run [OF db_contractD(4) [OF db]]) auto
  have tail: "triple committed C (\<lambda>r d. r = r0 \<and> committed d = C
       \<and> (\<exists>bs. length bs \<le> sg_encoded_bytes g \<and> work d = ?W\<lparr>ct_objects := (ct_objects C)(oid \<mapsto> bs)\<rparr>))
    (tbind (add_blocked next_start hs f) (\<lambda>f.
     tbind (encode_filter f) (\<lambda>v.
     tbind (run WriteLargeObject (db_lo_put db oid v)) (\<lambda>_.
     tbind (tread clock) (\<lambda>sample.
     tbind (write_metadata db ?st oid (cs_wall sample)) (\<lambda>_.
     tret \<lparr>cf_filter = f, cf_flushed_at = cs_monotonic sample\<rparr>)))))) ?Q"
    if f: "persisted g C oid f" for oid f
  proof -
    have "?W\<lparr>ct_objects := (ct_objects C)(oid \<mapsto> encoded f'), ct_metadata := Some (Some oid)\<rparr> = blocked_content hs oid f' C" for f'
      by (cases C) (simp add: blocked_content_def)
    then show ?thesis
      by (intro triple_post [OF triple_tail [OF g(1) source db f W(1)]]) (use f in auto)
  qed
  show ?thesis
    unfolding transaction_body_def Let_def
    by (rule triple_bind [OF bound], rule triple_bind [OF delete], rule triple_bind [OF lock],
        rule triple_bind [OF select], rule triple_pre, simp only:,
        rule triple_bind [OF triple_load [OF g db W]], rule triple_pre,
        rule triple_bind [OF triple_oid [OF g(1) db W]], assumption, rule triple_pre, rule tail)
qed

section \<open>Properties\<close>

lemma production_geometry_eq:
  "production_geometry = Some \<lparr>sg_cell_count = 100000000, sg_bits_per_cell = 2, sg_hash_functions = 5,
     sg_decrement_cells = 49, sg_packed_bytes = 25000000, sg_encoded_bytes = BLOCKED_ENCODED_BYTES\<rparr>"
  by (simp add: production_geometry_def geometry_new_def ok_or_def checked_mul_def checked_add_def word_le_nat_alt)

lemma production_geometry_ok:
  assumes "production_geometry = Some g"
  shows "geometry_ok g" and "sg_encoded_bytes g < BOUNDED_READ_BYTES"
proof -
  show "geometry_ok g"
    using assms geometry_new_ok [of BLOCKED_CELL_COUNT 2 5 49 g]
    by (auto simp: production_geometry_def split: sum.splits)
  show "sg_encoded_bytes g < BOUNDED_READ_BYTES"
    using assms by (auto simp: production_geometry_eq)
qed

text \<open>The content after a commit: the hashes applied to the persisted filter.\<close>

definition committed_as ::
  "'r start_source \<Rightarrow> stable_bloom_geometry \<Rightarrow> 'r \<Rightarrow> info_hash list \<Rightarrow> blocking_content
   \<Rightarrow> stable_bloom_filter \<Rightarrow> 'r \<Rightarrow> blocking_content \<Rightarrow> bool" where
  "committed_as next_start g r hs C f r' C' \<longleftrightarrow>
     filter_ok g f \<and> (\<exists>oid f0 ms. persisted g C oid f0 \<and> C' = blocked_content hs oid f C
       \<and> counting next_start g (map ih_as_slice hs) (counters f0) r = (ms, counters f, r'))"

lemma pg_commit_spec:
  assumes g: "production_geometry = Some g" and source: "start_in_range next_start"
    and db: "db_contract db committed work"
  shows "\<exists>result r' d'. pg_commit db next_start g clock hs (r, d) = Some (result, r', d')
    \<and> (\<forall>cf. result = Inr cf \<longrightarrow> committed_as next_start g r hs (committed d) (cf_filter cf) r' (committed d'))
    \<and> (\<forall>e. result = Inl e \<longrightarrow> committed d' = committed d
         \<or> (\<exists>x f. e = CommitError x \<and> committed_as next_start g r hs (committed d) f r' (committed d')))"
proof -
  have started: "case db_begin db d of (Inl _, d') \<Rightarrow> committed d' = committed d
      | (Inr _, d') \<Rightarrow> committed d' = committed d \<and> work d' = committed d"
    and rollback: "\<And>d. committed (db_rollback db d) = committed d"
    and commit: "\<And>d. case db_commit db d of (Inl _, d') \<Rightarrow> committed d' \<in> {committed d, work d}
      | (Inr _, d') \<Rightarrow> committed d' = work d"
    using db unfolding db_contract_def by auto
  obtain begun d1 where d1: "db_begin db d = (begun, d1)"
    by force
  show ?thesis
  proof (cases begun)
    case (Inl x)
    then show ?thesis
      using started by (auto simp: pg_commit_def tbind_def run_def d1)
  next
    case (Inr u)
    let ?body = "transaction_body db next_start g clock hs (r, d1)"
    have d1': "committed d1 = committed d" "work d1 = committed d"
      using started by (simp_all add: d1 Inr)
    have body: "case ?body of None \<Rightarrow> False | Some (Inl _, r', d') \<Rightarrow> committed d' = committed d
      | Some (Inr cf, r', d') \<Rightarrow> committed d' = committed d
          \<and> committed_as next_start g r hs (committed d) (cf_filter cf) r' (work d')"
      using triple_body [OF production_geometry_ok [OF g] source db, of "committed d" r clock hs] d1'
      unfolding triple_def committed_as_def by (elim allE impE) auto
    obtain result r' d2 where d2: "?body = Some (result, r', d2)"
      using body by (cases ?body) auto
    show ?thesis
    proof (cases result)
      case (Inl e)
      then show ?thesis
        using body rollback by (simp add: pg_commit_def tbind_def run_def d1 Inr d2)
    next
      case (Inr cf)
      obtain answer d3 where d3: "db_commit db d2 = (answer, d3)"
        by force
      have "committed_as next_start g r hs (committed d) (cf_filter cf) r' (work d2)" "committed d2 = committed d"
        using body by (simp_all add: d2 Inr)
      then show ?thesis
        using commit [of d2] rollback
        by (cases answer) (auto simp: pg_commit_def tbind_def tret_def run_def d1 \<open>begun = Inr u\<close> d2 Inr d3)
    qed
  qed
qed


text \<open>A database in memory: the committed content and that of the transaction.\<close>

definition memory_db :: "(blocking_content \<times> blocking_content, unit) blocking_db" where
  "memory_db =
     \<lparr>db_begin = \<lambda>(c, w). (Inr (), (c, c)),
      db_bound = \<lambda>d. (Inr (), d),
      db_delete_torrents = \<lambda>hs (c, w). (Inr (), (c, w\<lparr>ct_torrents := ct_torrents w - set hs\<rparr>)),
      db_lock_filter = \<lambda>d. (Inr (), d),
      db_select_oid = \<lambda>(c, w). (Inr (ct_metadata w), (c, w)),
      db_lo_get = \<lambda>oid n (c, w).
        (case ct_objects w oid of None \<Rightarrow> Inl () | Some bs \<Rightarrow> Inr (take n bs), (c, w)),
      db_lo_create = \<lambda>(c, w).
        if ct_objects w 1 = None then (Inr 1, (c, w\<lparr>ct_objects := (ct_objects w)(1 \<mapsto> [])\<rparr>)) else (Inl (), (c, w)),
      db_lo_put = \<lambda>oid v (c, w).
        (case ct_objects w oid of
           None \<Rightarrow> (Inl (), (c, w))
         | Some bs \<Rightarrow> (Inr (), (c, w\<lparr>ct_objects := (ct_objects w)(oid \<mapsto> v @ drop (length v) bs)\<rparr>))),
      db_insert_filter = \<lambda>oid wall (c, w). (Inr (), (c, w\<lparr>ct_metadata := Some (Some oid)\<rparr>)),
      db_update_null_filter = \<lambda>oid wall (c, w). (Inr (), (c, w\<lparr>ct_metadata := Some (Some oid)\<rparr>)),
      db_commit = \<lambda>(c, w). (Inr (), (w, w)),
      db_rollback = \<lambda>(c, w). (c, c)\<rparr>"

lemma memory_db_contract: "db_contract memory_db fst snd"
  by (auto simp: db_contract_def statement_ok_def memory_db_def split: option.splits)

definition empty_content :: blocking_content where
  "empty_content = \<lparr>ct_torrents = {}, ct_metadata = None, ct_objects = \<lambda>_. None\<rparr>"


text \<open>
  (C24)
  No blocked hash is lost. Over any store and any sequence of operations, failed ones included,
  the hashes passed to \<open>block\<close> are exactly those still in the buffer together with those of the
  batches the store has committed; the buffer has no repetitions.
\<close>

theorem blocking_no_loss:
  assumes "blocking_reachable (logging commit) config (s0, []) inner B"
  shows "B = set (bi_buffer inner) \<union> \<Union> (set ` set (snd (bi_store inner))) \<and> distinct (bi_buffer inner)"
  using blocking_logged [OF assms] by (auto simp: logged_def)

text \<open>A store that always fails.\<close>

definition failing_store :: "(unit, 'r, 's) store_commit" where
  "failing_store hs s = Some (Inl (), s)"

definition example_hash :: info_hash where
  "example_hash = InfoHash (replicate INFO_HASH_LEN 7)"

theorem blocking_no_loss_witness:
  "\<exists>inner :: (nat, unit \<times> info_hash list list) blocking_inner.
     blocking_reachable (logging failing_store) default_blocking_config ((), []) inner {example_hash} \<and> example_hash \<in> set (bi_buffer inner)"
proof -
  let ?commit = "logging failing_store :: (unit, nat, unit \<times> info_hash list list) store_commit"
  let ?new = "blocking_new ((), []) 0"
  have "bm_block ?commit default_blocking_config 0 [example_hash] False ?new
      = Some (Inl (Store ()), ?new\<lparr>bi_buffer := [example_hash]\<rparr>)"
    by (simp add: bm_block_def blocking_new_def should_flush_def set_extend_def flush_locked_def logging_def failing_store_def
        Let_def)
  then have run: "blocking_reachable ?commit default_blocking_config ((), []) (?new\<lparr>bi_buffer := [example_hash]\<rparr>) ({} \<union> set [example_hash])"
    by (rule blocking_reachable.block [OF blocking_reachable.start])
  show ?thesis
    using run blocking_no_loss [OF run] by (intro exI [of _ "?new\<lparr>bi_buffer := [example_hash]\<rparr>"]) simp
qed

lemma published_ok:
  assumes "production_geometry = Some g" and "start_in_range next_start" and "db_contract db committed work"
    and "blocking_reachable (pg_commit db next_start g clock) config d0 inner B"
  shows "\<forall>f. bi_filter inner = Some f \<longrightarrow> filter_ok g f"
proof -
  let ?P = "\<lambda>inner. \<forall>f. bi_filter inner = Some f \<longrightarrow> filter_ok g f"
  let ?commit = "pg_commit db next_start g clock"
  have ok: "filter_ok g (cf_filter cf)" if "?commit hs s = Some (Inr cf, s')" for hs s s' cf
    using pg_commit_spec [OF assms(1-3), of clock hs "fst s" "snd s"] that by (auto simp: committed_as_def)
  have keeps: "?P inner'" if "?P inner" "flush_locked ?commit inner = Some (result, inner')" for inner result inner'
    using that(2)
  proof (cases rule: flush_locked_cases)
    case (failed e starts store)
    then show ?thesis using that(1) by simp
  next
    case (flushed cf starts store)
    then show ?thesis using ok by simp
  qed
  then have kept: "kept_by_flush ?commit ?P"
    unfolding kept_by_flush_def by blast
  show ?thesis
    using assms(4)
  proof (induction rule: blocking_reachable.induct)
    case (block inner B now hs flush result inner')
    let ?inner = "inner\<lparr>bi_buffer := set_extend hs (bi_buffer inner)\<rparr>"
    have P: "?P ?inner"
      using block.IH by simp
    show ?case
    proof (cases "flush \<or> should_flush config now ?inner")
      case True
      then have "flush_locked ?commit ?inner = Some (result, inner')"
        using block.hyps(2) by (simp add: bm_block_def Let_def)
      then show ?thesis
        by (rule keeps [OF P])
    next
      case False
      then have "inner' = ?inner"
        using block.hyps(2) by (simp add: bm_block_def Let_def)
      then show ?thesis
        using P by simp
    qed
  next
    case (filter inner B now hs result inner')
    then show ?case
      using kept_by_flush_ops(1) [OF kept] by metis
  next
    case (finalize inner B result inner')
    then show ?case
      using kept_by_flush_ops(2) [OF kept] by metis
  next
    case (flush inner B result inner')
    then show ?case
      using kept_by_flush_ops(3) [OF kept] by metis
  qed (simp add: blocking_new_def)
qed

lemma eligible_spec:
  assumes "geometry_ok g" and "filter_ok g f"
  shows "eligible buffer f hs = Some (filter (\<lambda>h. h \<notin> set buffer \<and> filter_test f (ih_as_slice h) = Some False) hs)"
  by (induction hs) (simp_all add: filter_test_spec [OF assms])

lemma flush_locked_total:
  assumes "production_geometry = Some g" and "start_in_range next_start" and "db_contract db committed work"
  shows "\<exists>result inner'. flush_locked (pg_commit db next_start g clock) inner = Some (result, inner')
    \<and> (case result of
         Inl _ \<Rightarrow> bi_buffer inner' = bi_buffer inner \<and> bi_filter inner' = bi_filter inner
           \<and> bi_last_flushed_at inner' = bi_last_flushed_at inner
       | Inr _ \<Rightarrow> bi_buffer inner' = [] \<and> (\<exists>f. bi_filter inner' = Some f \<and> filter_ok g f))"
proof -
  obtain result s' where commit: "pg_commit db next_start g clock (bi_buffer inner) (bi_decrement_starts inner, bi_store inner)
      = Some (result, s')" "\<And>cf. result = Inr cf \<Longrightarrow> filter_ok g (cf_filter cf)"
    using pg_commit_spec [OF assms, of clock "bi_buffer inner" "bi_decrement_starts inner" "bi_store inner"]
    by (auto simp: committed_as_def)
  then show ?thesis
    by (cases result) (simp_all add: flush_locked_def split: prod.splits)
qed

lemma bm_filter_total:
  assumes "production_geometry = Some g" and "start_in_range next_start" and "db_contract db committed work"
    and published: "\<And>f. bi_filter inner = Some f \<Longrightarrow> filter_ok g f"
  shows "\<exists>result inner'. bm_filter (pg_commit db next_start g clock) config now hs inner = Some (result, inner')
    \<and> (case result of
         Inl _ \<Rightarrow> bi_buffer inner' = bi_buffer inner \<and> bi_filter inner' = bi_filter inner
           \<and> bi_last_flushed_at inner' = bi_last_flushed_at inner
       | Inr out \<Rightarrow> (bi_buffer inner' = [] \<or> inner' = inner)
           \<and> (\<exists>f. bi_filter inner' = Some f \<and> filter_ok g f
                \<and> out = filter (\<lambda>h. h \<notin> set (bi_buffer inner') \<and> filter_test f (ih_as_slice h) = Some False) hs))"
proof (cases "bi_filter inner = None \<or> should_flush config now inner")
  case True
  obtain r i where flush: "flush_locked (pg_commit db next_start g clock) inner = Some (r, i)"
    "case r of Inl _ \<Rightarrow> bi_buffer i = bi_buffer inner \<and> bi_filter i = bi_filter inner
        \<and> bi_last_flushed_at i = bi_last_flushed_at inner
     | Inr _ \<Rightarrow> bi_buffer i = [] \<and> (\<exists>f. bi_filter i = Some f \<and> filter_ok g f)"
    using flush_locked_total [OF assms(1-3), of clock inner] by blast
  show ?thesis
  proof (cases r)
    case (Inl e)
    then show ?thesis
      using flush True by (intro exI [of _ "Inl e"] exI [of _ i]) (simp add: bm_filter_def)
  next
    case (Inr u)
    then obtain f where "bi_buffer i = []" "bi_filter i = Some f" "filter_ok g f"
      using flush(2) by auto
    then show ?thesis
      using flush(1) True Inr eligible_spec [OF production_geometry_ok(1) [OF assms(1)]]
      by (simp add: bm_filter_def)
  qed
next
  case False
  then obtain f where f: "bi_filter inner = Some f"
    by auto
  then show ?thesis
    using False published [OF f] eligible_spec [OF production_geometry_ok(1) [OF assms(1)] published [OF f]]
    by (simp add: bm_filter_def)
qed

lemma bm_block_total:
  assumes "production_geometry = Some g" and "start_in_range next_start" and "db_contract db committed work"
  shows "\<exists>result inner'. bm_block (pg_commit db next_start g clock) config now hs flush inner = Some (result, inner')
    \<and> (set (bi_buffer inner') = set hs \<union> set (bi_buffer inner) \<or> result = Inr () \<and> bi_buffer inner' = [])"
proof -
  let ?inner = "inner\<lparr>bi_buffer := set_extend hs (bi_buffer inner)\<rparr>"
  obtain r i where flush: "flush_locked (pg_commit db next_start g clock) ?inner = Some (r, i)"
    "case r of Inl _ \<Rightarrow> bi_buffer i = bi_buffer ?inner \<and> bi_filter i = bi_filter ?inner
        \<and> bi_last_flushed_at i = bi_last_flushed_at ?inner
     | Inr _ \<Rightarrow> bi_buffer i = [] \<and> (\<exists>f. bi_filter i = Some f \<and> filter_ok g f)"
    using flush_locked_total [OF assms, of clock ?inner] by blast
  have "set (bi_buffer i) = set hs \<union> set (bi_buffer inner) \<or> r = Inr () \<and> bi_buffer i = []"
    using flush(2) by (cases r) simp_all
  then show ?thesis
    using flush(1) by (cases "flush \<or> should_flush config now ?inner") (simp_all add: bm_block_def Let_def)
qed

lemma bm_flush_total:
  assumes "production_geometry = Some g" and "start_in_range next_start" and "db_contract db committed work"
  shows "\<exists>result inner'. bm_flush (pg_commit db next_start g clock) inner = Some (result, inner')
    \<and> (result = Inr () \<longrightarrow> bi_buffer inner' = [])"
proof -
  obtain r i where flush: "flush_locked (pg_commit db next_start g clock) inner = Some (r, i)"
    "case r of Inl _ \<Rightarrow> bi_buffer i = bi_buffer inner \<and> bi_filter i = bi_filter inner
        \<and> bi_last_flushed_at i = bi_last_flushed_at inner
     | Inr _ \<Rightarrow> bi_buffer i = [] \<and> (\<exists>f. bi_filter i = Some f \<and> filter_ok g f)"
    using flush_locked_total [OF assms, of clock inner] by blast
  then show ?thesis
    by (cases r) (simp_all add: bm_flush_def bm_finalize_def)
qed

text \<open>
  The operations of the manager over the PostgreSQL store never panic. \<open>filter\<close> returns, in
  order and with their duplicates, the hashes that are neither buffered nor reported by the
  published filter, where the buffer is either the old one or, after a flush, empty; a failed
  flush keeps buffer, filter and time, and \<open>block\<close> then has the new hashes in its buffer.
\<close>

theorem blocking_operations_exact:
  assumes "production_geometry = Some g" and "start_in_range next_start" and "db_contract db committed work"
    and "blocking_reachable (pg_commit db next_start g clock) config d0 inner B"
  shows "(\<exists>result inner'. bm_filter (pg_commit db next_start g clock) config now hs inner = Some (result, inner')
    \<and> (case result of
         Inl _ \<Rightarrow> bi_buffer inner' = bi_buffer inner \<and> bi_filter inner' = bi_filter inner
           \<and> bi_last_flushed_at inner' = bi_last_flushed_at inner
       | Inr out \<Rightarrow> (bi_buffer inner' = [] \<or> inner' = inner)
           \<and> (\<exists>f. bi_filter inner' = Some f \<and> filter_ok g f
                \<and> out = filter (\<lambda>h. h \<notin> set (bi_buffer inner') \<and> filter_test f (ih_as_slice h) = Some False) hs)))
    \<and> (\<exists>result inner'. bm_block (pg_commit db next_start g clock) config now hs flush inner = Some (result, inner')
         \<and> (set (bi_buffer inner') = set hs \<union> set (bi_buffer inner) \<or> result = Inr () \<and> bi_buffer inner' = []))
    \<and> (\<exists>result inner'. bm_flush (pg_commit db next_start g clock) inner = Some (result, inner')
         \<and> (result = Inr () \<longrightarrow> bi_buffer inner' = []))"
  using bm_filter_total [OF assms(1-3), where inner = inner] published_ok [OF assms] bm_block_total [OF assms(1-3)] bm_flush_total [OF assms(1-3)]
  by blast

theorem blocking_operations_exact_witness:
  "\<exists>g result inner'. production_geometry = Some g
    \<and> bm_filter (pg_commit memory_db counting_source g (\<lambda>_. \<lparr>cs_monotonic = 0, cs_wall = 0\<rparr>)) default_blocking_config 0 [example_hash]
        (blocking_new (empty_content, empty_content) 0) = Some (result, inner')"
proof -
  let ?commit = "\<lambda>g. pg_commit memory_db counting_source g (\<lambda>_. \<lparr>cs_monotonic = 0, cs_wall = 0\<rparr>)"
  let ?new = "blocking_new (empty_content, empty_content) 0"
  obtain g where g: "production_geometry = Some g"
    using production_geometry_eq by blast
  have "blocking_reachable (?commit g) default_blocking_config (empty_content, empty_content) ?new {}"
    by (rule blocking_reachable.start)
  from blocking_operations_exact [OF g counting_source_in_range memory_db_contract this, of 0 "[example_hash]" False] show ?thesis
    using g by blast
qed

end
