(* ===== verification/Deduper.thy ===== *)
theory Deduper
  imports Stable_Bloom Compact
begin

text \<open>
  \<open>bitmagnet-dht/src/dht_info_hash_deduper.rs\<close>: the deduplication of sampled info hashes, one
  stable Bloom filter of fixed geometry behind a lock. A call holds the lock from beginning to end.
\<close>

section \<open>Model\<close>

abbreviation DEDUPER_CELL_COUNT :: nat where "DEDUPER_CELL_COUNT \<equiv> 10000000"
abbreviation DEDUPER_BITS_PER_CELL :: u8 where "DEDUPER_BITS_PER_CELL \<equiv> 2"
abbreviation DEDUPER_HASH_FUNCTIONS :: nat where "DEDUPER_HASH_FUNCTIONS \<equiv> 5"
abbreviation DEDUPER_DECREMENT_CELLS :: nat where "DEDUPER_DECREMENT_CELLS \<equiv> 49"

record 'r dht_info_hash_deduper =
  dd_filter :: stable_bloom_filter
  dd_decrement_starts :: 'r

text \<open>\<open>None\<close> is the failed \<open>expect\<close>.\<close>

definition deduper_geometry :: "stable_bloom_geometry option" where
  "deduper_geometry =
     (case geometry_new DEDUPER_CELL_COUNT DEDUPER_BITS_PER_CELL DEDUPER_HASH_FUNCTIONS DEDUPER_DECREMENT_CELLS of
        Inl _ \<Rightarrow> None
      | Inr g \<Rightarrow> Some g)"

definition deduper_with_source :: "'r \<Rightarrow> 'r dht_info_hash_deduper option" where
  "deduper_with_source starts =
     map_option (\<lambda>g. \<lparr>dd_filter = filter_new g, dd_decrement_starts = starts\<rparr>) deduper_geometry"

definition deduper_test_and_add ::
  "'r start_source \<Rightarrow> id20 \<Rightarrow> 'r dht_info_hash_deduper \<Rightarrow> (bool \<times> 'r dht_info_hash_deduper) option" where
  "deduper_test_and_add next_start info_hash d =
     map_option (\<lambda>(member, f, starts). (member, \<lparr>dd_filter = f, dd_decrement_starts = starts\<rparr>))
       (filter_test_and_add next_start (dd_filter d) (as_bytes info_hash) (dd_decrement_starts d))"

section \<open>Observations in a row\<close>

fun deduper_run ::
  "'r start_source \<Rightarrow> id20 list \<Rightarrow> 'r dht_info_hash_deduper \<Rightarrow> (bool list \<times> 'r dht_info_hash_deduper) option" where
  "deduper_run next_start [] d = Some ([], d)"
| "deduper_run next_start (h # hs) d =
     Option.bind (deduper_test_and_add next_start h d) (\<lambda>(member, d).
       map_option (\<lambda>(ms, d). (member # ms, d)) (deduper_run next_start hs d))"

lemma deduper_run_observe:
  "deduper_run next_start hs d =
     map_option (\<lambda>(ms, f, r). (ms, \<lparr>dd_filter = f, dd_decrement_starts = r\<rparr>))
       (observe next_start (map as_bytes hs) (dd_filter d) (dd_decrement_starts d))"
proof (induction hs arbitrary: d)
  case (Cons h hs)
  show ?case
    by (cases "filter_test_and_add next_start (dd_filter d) (as_bytes h) (dd_decrement_starts d)")
      (auto simp: deduper_test_and_add_def Cons.IH option.map_comp comp_def split_beta)
qed simp

lemma deduper_geometry_new:
  obtains g where "deduper_geometry = Some g"
    "geometry_new DEDUPER_CELL_COUNT DEDUPER_BITS_PER_CELL DEDUPER_HASH_FUNCTIONS DEDUPER_DECREMENT_CELLS = Inr g"
    "unat (max_cell_value g) = 3"
proof -
  let ?g = "\<lparr>sg_cell_count = 10000000, sg_bits_per_cell = 2, sg_hash_functions = 5, sg_decrement_cells = 49,
     sg_packed_bytes = 2500000, sg_encoded_bytes = 2500091\<rparr>"
  have "geometry_new DEDUPER_CELL_COUNT DEDUPER_BITS_PER_CELL DEDUPER_HASH_FUNCTIONS DEDUPER_DECREMENT_CELLS = Inr ?g"
    by (simp add: geometry_new_def ok_or_def checked_mul_def checked_add_def word_le_nat_alt)
  then show thesis
    by (intro that [of ?g]) (simp_all add: deduper_geometry_def max_cell_value_def)
qed

section \<open>Properties\<close>

lemma counting_nth_answer:
  assumes "counting next_start g (us @ v # ws) xs r = (ms, ys, r')"
    and "counting next_start g us xs r = (ms1, xs1, r1)"
  shows "ms ! length us \<longleftrightarrow> (\<forall>i\<in>set (hash_indices v g). xs1 ! i \<noteq> 0)"
  using assms counting_length [OF assms(2)]
  by (auto simp: counting_append nth_append split: prod.splits)

text \<open>
  The deduper can be built, and no sequence of observations makes it panic when its source returns
  valid starts. A hash that was observed within the last three observations is always reported as
  already seen, and the first observation of a fresh deduper never is.
\<close>

theorem deduper_recent_duplicates:
  assumes "start_in_range next_start"
  shows "\<exists>d ms d'. deduper_with_source r = Some d \<and> deduper_run next_start hs d = Some (ms, d')
    \<and> length ms = length hs
    \<and> (\<forall>i j. i < j \<longrightarrow> j < length hs \<longrightarrow> j - i \<le> 3 \<longrightarrow> hs ! i = hs ! j \<longrightarrow> ms ! j)
    \<and> (hs \<noteq> [] \<longrightarrow> \<not> ms ! 0)"
proof -
  obtain g where g: "deduper_geometry = Some g" "geometry_ok g" "unat (max_cell_value g) = 3"
    by (rule deduper_geometry_new) (blast intro: geometry_new_ok)
  let ?xs = "replicate (sg_cell_count g) (0 :: u8)" and ?vs = "map as_bytes hs"
  obtain ms f r' where obs: "observe next_start ?vs (filter_new g) r = Some (ms, f, r')"
    "counting next_start g ?vs ?xs r = (ms, counters f, r')"
    using observe_new [OF g(2) assms] by blast
  have len: "length ms = length hs"
    using counting_length [OF obs(2)] by simp
  have answer: "ms ! j \<longleftrightarrow> (\<forall>i\<in>set (hash_indices (as_bytes (hs ! j)) g). ys ! i \<noteq> 0)"
    if "j < length hs" "counting next_start g (take j ?vs) ?xs r = (ms1, ys, r1)" for j ms1 ys r1
  proof -
    have "?vs = take j ?vs @ ?vs ! j # drop (Suc j) ?vs"
      using that(1) by (intro id_take_nth_drop) simp
    then have "counting next_start g (take j ?vs @ ?vs ! j # drop (Suc j) ?vs) ?xs r = (ms, counters f, r')"
      using obs(2) by simp
    from counting_nth_answer [OF this that(2)] show ?thesis
      using that(1) by simp
  qed
  have "ms ! j" if ij: "i < j" "j < length hs" "j - i \<le> 3" "hs ! i = hs ! j" for i j
  proof -
    obtain ms1 ys r1 where run: "counting next_start g (take j ?vs) ?xs r = (ms1, ys, r1)"
      by (metis prod_cases3)
    let ?ws = "drop (Suc i) (take j ?vs)"
    have "take j ?vs = take i (take j ?vs) @ take j ?vs ! i # ?ws"
      using ij by (intro id_take_nth_drop) simp
    then have split: "take j ?vs = take i (take j ?vs) @ as_bytes (hs ! j) # ?ws"
      using ij by simp
    have run': "counting next_start g (take i (take j ?vs) @ as_bytes (hs ! j) # ?ws) ?xs r = (ms1, ys, r1)"
      by (subst split [symmetric]) (rule run)
    have "length ?ws < unat (max_cell_value g) \<or> sg_decrement_cells g = 0"
      using ij g(3) by auto
    from counting_retained [OF g(2) _ this run'] show ?thesis
      using answer [OF ij(2) run] by simp
  qed
  moreover have "\<not> ms ! 0" if "hs \<noteq> []"
  proof -
    have "hd (hash_indices (as_bytes (hs ! 0)) g) \<in> set (hash_indices (as_bytes (hs ! 0)) g)"
      using g(2) by (intro hd_in_set) (auto simp: hash_indices_def geometry_ok_def split: prod.splits)
    moreover from this have "?xs ! hd (hash_indices (as_bytes (hs ! 0)) g) = 0"
      using hash_indices_bound [OF g(2)] by simp
    ultimately show ?thesis
      using answer [of 0 "[]" ?xs r] that by auto
  qed
  ultimately show ?thesis
    using obs(1) len
    by (rule_tac x = "\<lparr>dd_filter = filter_new g, dd_decrement_starts = r\<rparr>" in exI, rule_tac x = ms in exI,
        rule_tac x = "\<lparr>dd_filter = f, dd_decrement_starts = r'\<rparr>" in exI)
      (simp add: deduper_with_source_def deduper_run_observe g(1))
qed

theorem deduper_recent_duplicates_witness:
  "\<exists>d ms d'. deduper_with_source 0 = Some d
    \<and> deduper_run counting_source [id20_ZERO, id20_ZERO] d = Some (ms, d') \<and> ms = [False, True]"
proof -
  obtain d ms d' where d: "deduper_with_source 0 = Some d" "deduper_run counting_source [id20_ZERO, id20_ZERO] d = Some (ms, d')"
    "length ms = length [id20_ZERO, id20_ZERO]"
    and dup: "\<forall>i j. i < j \<longrightarrow> j < length [id20_ZERO, id20_ZERO] \<longrightarrow> j - i \<le> 3
        \<longrightarrow> [id20_ZERO, id20_ZERO] ! i = [id20_ZERO, id20_ZERO] ! j \<longrightarrow> ms ! j"
    and new: "[id20_ZERO, id20_ZERO] \<noteq> [] \<longrightarrow> \<not> ms ! 0"
    using deduper_recent_duplicates [OF counting_source_in_range, of 0 "[id20_ZERO, id20_ZERO]"] by blast
  have "ms ! 1" "\<not> ms ! 0"
    using dup [rule_format, of 0 1] new by simp_all
  then have "ms = [False, True]"
    using d(3) by (cases ms; cases "tl ms") auto
  with d(1,2) show ?thesis
    by blast
qed

end
