(* ===== verification/Textmatch.thy ===== *)
theory Textmatch
  imports Prelude
begin

text \<open>
  \<open>bitmagnet-textmatch/src\<close>: the edit distance of \<open>levenshtein.rs\<close> with its trimming, its single
  row and its wrapping 16-bit cells, and the fuzzy selection of \<open>lib.rs\<close> that decides which content
  is attached to a torrent. The distance is shown to be the least number of single-character
  edits, the selection to be the first of the nearest items. The normalisation of the compared
  texts is an argument of the selection: nothing here depends on what it does.
\<close>

section \<open>Edit distance\<close>

text \<open>
  The two trimming loops. Each looks for the first difference and cuts there; when there is none,
  nothing is cut. The indices are in range because \<open>s1\<close> is not the longer one.
\<close>

definition trim_trailing :: "str \<Rightarrow> str \<Rightarrow> str \<times> str" where
  "trim_trailing s1 s2 =
     (case List.find (\<lambda>i. s1 ! (length s1 - 1 - i) \<noteq> s2 ! (length s2 - 1 - i)) [0..<length s1] of
        None \<Rightarrow> (s1, s2)
      | Some i \<Rightarrow> (take (length s1 - i) s1, take (length s2 - i) s2))"

definition trim_leading :: "str \<Rightarrow> str \<Rightarrow> str \<times> str" where
  "trim_leading s1 s2 =
     (case List.find (\<lambda>i. s1 ! i \<noteq> s2 ! i) [0..<length s1] of
        None \<Rightarrow> (s1, s2)
      | Some i \<Rightarrow> (drop i s1, drop i s2))"

text \<open>One cell, one row, and all the rows.\<close>

definition distance_cell :: "str \<Rightarrow> scalar \<Rightarrow> nat \<Rightarrow> u16 list \<times> u16 \<Rightarrow> u16 list \<times> u16" where
  "distance_cell s1 c j = (\<lambda>(x, prev).
     let current = (if c \<noteq> s1 ! (j - 1)
                    then min (min (x ! (j - 1) + 1) (prev + 1)) (x ! j + 1)
                    else x ! (j - 1))
     in (x[j - 1 := prev], current))"

definition distance_row :: "str \<Rightarrow> str \<Rightarrow> nat \<Rightarrow> u16 list \<Rightarrow> u16 list" where
  "distance_row s1 s2 i x =
     (let (x, prev) = fold (distance_cell s1 (s2 ! (i - 1))) [1..<Suc (length s1)] (x, of_nat i)
      in x[length s1 := prev])"

definition distance_rows :: "str \<Rightarrow> str \<Rightarrow> nat" where
  "distance_rows s1 s2 =
     (let x = fold (distance_row s1 s2) [1..<Suc (length s2)] (map of_nat [0..<Suc (length s1)])
      in unat (x ! length s1))"

definition compute_distance :: "str \<Rightarrow> str \<Rightarrow> nat" where
  "compute_distance a b =
     (if a = [] then length b
      else if b = [] then length a
      else if a = b then 0
      else let (s1, s2) = (if length a > length b then (b, a) else (a, b));
               (s1, s2) = trim_trailing s1 s2;
               (s1, s2) = trim_leading s1 s2
           in distance_rows s1 s2)"

section \<open>Selection\<close>

abbreviation LEVENSHTEIN_THRESHOLD :: nat where "LEVENSHTEIN_THRESHOLD \<equiv> 5"

fun min_distance_loop ::
  "(str \<Rightarrow> str) \<Rightarrow> str \<Rightarrow> str set \<Rightarrow> nat option \<Rightarrow> str list \<Rightarrow> nat option" where
  "min_distance_loop norm_str t tried m [] = m"
| "min_distance_loop norm_str t tried m (c # cs) =
     (let n = norm_str c in
      if n \<in> tried then min_distance_loop norm_str t tried m cs
      else let d = compute_distance t n;
               m = (case m of None \<Rightarrow> Some d | Some current \<Rightarrow> if d < current then Some d else Some current)
           in min_distance_loop norm_str t (insert n tried) m cs)"

definition find_min_distance_normalized :: "(str \<Rightarrow> str) \<Rightarrow> str \<Rightarrow> str list \<Rightarrow> nat option" where
  "find_min_distance_normalized norm_str t cs = min_distance_loop norm_str t {} None cs"

definition find_min_distance :: "(str \<Rightarrow> str) \<Rightarrow> str \<Rightarrow> str list \<Rightarrow> nat option" where
  "find_min_distance norm_str t cs = find_min_distance_normalized norm_str (norm_str t) cs"

fun best_match_loop ::
  "(str \<Rightarrow> str) \<Rightarrow> str \<Rightarrow> ('a \<Rightarrow> str list) \<Rightarrow> nat \<Rightarrow> nat \<Rightarrow> nat option \<Rightarrow> 'a list \<Rightarrow> nat option" where
  "best_match_loop norm_str t get_candidates i m best [] = best"
| "best_match_loop norm_str t get_candidates i m best (item # items) =
     (case find_min_distance_normalized norm_str t (get_candidates item) of
        None \<Rightarrow> best_match_loop norm_str t get_candidates (Suc i) m best items
      | Some d \<Rightarrow>
          if d < m
          then if d = 0 then Some i
               else best_match_loop norm_str t get_candidates (Suc i) d (Some i) items
          else best_match_loop norm_str t get_candidates (Suc i) m best items)"

definition find_best_match_index ::
  "(str \<Rightarrow> str) \<Rightarrow> str \<Rightarrow> 'a list \<Rightarrow> ('a \<Rightarrow> str list) \<Rightarrow> nat option" where
  "find_best_match_index norm_str t items get_candidates =
     best_match_loop norm_str (norm_str t) get_candidates 0 (LEVENSHTEIN_THRESHOLD + 1) None items"

definition find_best_match ::
  "(str \<Rightarrow> str) \<Rightarrow> str \<Rightarrow> 'a list \<Rightarrow> ('a \<Rightarrow> str list) \<Rightarrow> 'a option" where
  "find_best_match norm_str t items get_candidates =
     map_option ((!) items) (find_best_match_index norm_str t items get_candidates)"

section \<open>Edits\<close>

text \<open>One edit inserts, removes or replaces one element anywhere in the list.\<close>

inductive edit1 :: "'a list \<Rightarrow> 'a list \<Rightarrow> bool" where
  edit_insert: "edit1 (u @ v) (u @ c # v)"
| edit_remove: "edit1 (u @ c # v) (u @ v)"
| edit_replace: "edit1 (u @ c # v) (u @ d # v)"

abbreviation edits :: "nat \<Rightarrow> 'a list \<Rightarrow> 'a list \<Rightarrow> bool" where
  "edits n \<equiv> edit1 ^^ n"

fun lev :: "'a list \<Rightarrow> 'a list \<Rightarrow> nat" where
  "lev [] ys = length ys"
| "lev xs [] = length xs"
| "lev (x # xs) (y # ys) =
     (if x = y then lev xs ys
      else Suc (min (lev xs ys) (min (lev xs (y # ys)) (lev (x # xs) ys))))"

lemma lev_Nil [simp]: "lev xs [] = length xs"
  by (cases xs) simp_all

lemma lev_sym: "lev xs ys = lev ys xs"
  by (induction xs ys rule: lev.induct) (simp_all add: min.commute min.left_commute)

lemma lev_Cons_bound: "lev (x # xs) ys \<le> Suc (lev xs ys) \<and> lev xs ys \<le> Suc (lev (x # xs) ys)"
proof (induction "length xs + length ys" arbitrary: x xs ys rule: less_induct)
  case less
  show ?case
  proof (cases ys)
    case (Cons y ys')
    have right: "lev xs ys \<le> Suc (lev xs ys')" "lev xs ys' \<le> Suc (lev xs ys)"
      using less [of ys' xs y] Cons by (simp_all add: lev_sym [of xs])
    have "lev xs ys' \<le> Suc (lev (x # xs) ys')"
      using less [of xs ys' x] Cons by simp
    with right Cons show ?thesis
      by (auto simp: min_def)
  qed simp
qed

lemmas lev_bounds = lev_Cons_bound [THEN conjunct1] lev_Cons_bound [THEN conjunct2]

lemma lev_replace: "lev (c # xs) ys \<le> Suc (lev (d # xs) ys)"
proof (induction ys)
  case (Cons y ys)
  have "lev xs ys \<le> Suc (lev xs (y # ys))"
    using lev_bounds(2) [of ys xs y] by (simp add: lev_sym)
  with Cons lev_bounds(2) [of xs ys d] show ?case
    by (auto simp: min_def)
qed simp

lemma lev_congruence:
  assumes "\<And>ys. lev a ys \<le> Suc (lev b ys)"
  shows "lev (u @ a) ys \<le> Suc (lev (u @ b) ys)"
proof (induction u arbitrary: ys)
  case (Cons c u)
  show ?case
  proof (induction ys)
    case Nil
    then show ?case
      using Cons [of "[]"] by simp
  next
    case (Cons y ys)
    then show ?case
      using Cons.IH Cons.prems \<open>\<And>ys. lev (u @ a) ys \<le> Suc (lev (u @ b) ys)\<close> [of ys]
        \<open>\<And>ys. lev (u @ a) ys \<le> Suc (lev (u @ b) ys)\<close> [of "y # ys"]
      by (auto simp: min_def)
  qed
qed (simp add: assms)

lemma lev_edit1: "edit1 a b \<Longrightarrow> lev a ys \<le> Suc (lev b ys)"
  by (induction rule: edit1.induct) (auto intro: lev_congruence lev_bounds lev_replace)

lemma lev_refl [simp]: "lev xs xs = 0"
  by (induction xs) simp_all

lemma lev_least: "edits n a b \<Longrightarrow> lev a b \<le> n"
proof (induction n arbitrary: a)
  case (Suc n)
  then obtain c where "edit1 a c" "edits n c b"
    by (metis relpowp_Suc_E2)
  then show ?case
    using Suc.IH [of c] lev_edit1 [of a c b] by simp
qed simp

lemma edit1_Cons: "edit1 a b \<Longrightarrow> edit1 (c # a) (c # b)"
  by (induction rule: edit1.induct) (metis append_Cons edit1.intros)+

lemma edits_Cons: "edits n a b \<Longrightarrow> edits n (c # a) (c # b)"
  by (induction n arbitrary: b) (auto intro: edit1_Cons)

lemma edits_lev: "edits (lev a b) a b"
proof (induction a b rule: lev.induct)
  case (1 ys)
  have "edits (length ys) [] ys"
  proof (induction ys rule: rev_induct)
    case (snoc y ys)
    then show ?case
      using edit_insert [of ys "[]" y] by auto
  qed simp
  then show ?case by simp
next
  case (2 x xs)
  have "edits (length zs) zs []" for zs :: "'a list"
  proof (induction zs)
    case (Cons z zs)
    then show ?case
      using edit_remove [of "[]" z zs] by (auto intro: relpowp_Suc_I2 simp del: relpowp.simps)
  qed simp
  from this [of "x # xs"] show ?case
    by simp
next
  case (3 x xs y ys)
  show ?case
  proof (cases "x = y")
    case True
    with 3 show ?thesis
      by (simp add: edits_Cons)
  next
    case False
    have "edits (Suc (lev xs ys)) (x # xs) (y # ys)"
      using edits_Cons [OF 3(2) [OF False], of y] edit_replace [of "[]" x xs y]
      by (auto intro: relpowp_Suc_I2 simp del: relpowp.simps)
    moreover have "edits (Suc (lev xs (y # ys))) (x # xs) (y # ys)"
      using 3(3) [OF False] edit_remove [of "[]" x xs]
      by (auto intro: relpowp_Suc_I2 simp del: relpowp.simps)
    moreover have "edits (Suc (lev (x # xs) ys)) (x # xs) (y # ys)"
      using 3(4) [OF False] edit_insert [of "[]" ys y] by auto
    ultimately show ?thesis
      using False by (simp add: min_def del: relpowp.simps)
  qed
qed

lemma edits_iff_lev_le: "(\<exists>m\<le>n. edits m a b) \<longleftrightarrow> lev a b \<le> n"
  using lev_least edits_lev order_trans by blast

lemma edit1_rev: "edit1 a b \<Longrightarrow> edit1 (rev a) (rev b)"
  by (induction rule: edit1.induct) (auto intro: edit1.intros)

lemma edits_rev: "edits n a b \<Longrightarrow> edits n (rev a) (rev b)"
  by (induction n arbitrary: b) (auto intro: edit1_rev)

lemma lev_rev [simp]: "lev (rev a) (rev b) = lev a b"
proof (rule antisym)
  show "lev (rev a) (rev b) \<le> lev a b"
    by (intro lev_least edits_rev edits_lev)
  have "lev (rev (rev a)) (rev (rev b)) \<le> lev (rev a) (rev b)"
    by (intro lev_least edits_rev edits_lev)
  then show "lev a b \<le> lev (rev a) (rev b)"
    by simp
qed

lemma lev_append_left [simp]: "lev (u @ a) (u @ b) = lev a b"
  by (induction u) simp_all

lemma lev_append_right [simp]: "lev (a @ u) (b @ u) = lev a b"
  using lev_rev [of "a @ u" "b @ u"] lev_rev [of a b] by (simp del: lev_rev)

lemma lev_snoc:
  "lev (xs @ [x]) (ys @ [y]) =
     (if x = y then lev xs ys
      else Suc (min (lev xs ys) (min (lev xs (ys @ [y])) (lev (xs @ [x]) ys))))"
  using lev.simps(3) [of x "rev xs" y "rev ys"] lev_rev [of "xs @ [x]" ys] lev_rev [of xs "ys @ [y]"]
    lev_rev [of "xs @ [x]" "ys @ [y]"] lev_rev [of xs ys]
  by (cases "x = y") (simp_all del: lev_rev lev.simps(3))

lemma lev_le_max: "lev xs ys \<le> max (length xs) (length ys)"
  by (induction xs ys rule: lev.induct) (auto simp: min_def max_def)

section \<open>The rows\<close>

text \<open>The distance of two prefixes, and what the cells and rows hold of it.\<close>

definition prefix_lev :: "'a list \<Rightarrow> 'a list \<Rightarrow> nat \<Rightarrow> nat \<Rightarrow> nat" where
  "prefix_lev s1 s2 i j = lev (take j s1) (take i s2)"

lemma prefix_lev_step:
  assumes "i < length s2" and "j < length s1"
  shows "prefix_lev s1 s2 (Suc i) (Suc j) =
    (if s2 ! i \<noteq> s1 ! j
     then Suc (min (min (prefix_lev s1 s2 i j) (prefix_lev s1 s2 (Suc i) j)) (prefix_lev s1 s2 i (Suc j)))
     else prefix_lev s1 s2 i j)"
  using assms by (auto simp: prefix_lev_def take_Suc_conv_app_nth lev_snoc min_def)

lemma prefix_lev_small:
  assumes "length s1 < 65535" and "length s2 < 65535"
  shows "prefix_lev s1 s2 i j < 65535"
  using lev_le_max [of "take j s1" "take i s2"] assms by (simp add: prefix_lev_def)

lemma min_of_nat_u16:
  assumes "a < 65535" and "b < 65535" and "c < 65535"
  shows "min (min (of_nat a + 1) (of_nat b + 1)) (of_nat c + 1) = (of_nat (Suc (min (min a b) c)) :: u16)"
proof -
  have "(of_nat m :: u16) \<le> of_nat n \<longleftrightarrow> m \<le> n" if "m < 65536" "n < 65536" for m n
    using that by (simp add: word_le_nat_alt unat_of_nat take_bit_eq_mod)
  from this [of "Suc a" "Suc b"] this [of "Suc (min a b)" "Suc c"] assms show ?thesis
    by (auto simp: min_def add.commute)
qed

lemma distance_cells:
  assumes "length s1 < 65535" and "length s2 < 65535" and "i < length s2"
    and "length x = Suc (length s1)" and "\<And>m. m \<le> length s1 \<Longrightarrow> x ! m = of_nat (prefix_lev s1 s2 i m)"
    and "k \<le> length s1"
  shows "\<exists>x'. fold (distance_cell s1 (s2 ! i)) [1..<Suc k] (x, of_nat (Suc i)) =
      (x', of_nat (prefix_lev s1 s2 (Suc i) k))
    \<and> length x' = Suc (length s1)
    \<and> (\<forall>m\<le>length s1. x' ! m = of_nat (prefix_lev s1 s2 (if m < k then Suc i else i) m))"
  using assms(6)
proof (induction k)
  case 0
  then show ?case
    using assms(3-5) by (simp add: prefix_lev_def)
next
  case (Suc k)
  then obtain x' where x': "fold (distance_cell s1 (s2 ! i)) [1..<Suc k] (x, of_nat (Suc i)) =
      (x', of_nat (prefix_lev s1 s2 (Suc i) k))"
    "length x' = Suc (length s1)"
    "\<forall>m\<le>length s1. x' ! m = of_nat (prefix_lev s1 s2 (if m < k then Suc i else i) m)"
    by auto
  have "distance_cell s1 (s2 ! i) (Suc k) (x', of_nat (prefix_lev s1 s2 (Suc i) k)) =
    (x'[k := of_nat (prefix_lev s1 s2 (Suc i) k)], of_nat (prefix_lev s1 s2 (Suc i) (Suc k)))"
    using Suc.prems assms(3) x'(3) prefix_lev_small [OF assms(1,2)]
    by (simp add: distance_cell_def prefix_lev_step min_of_nat_u16 del: of_nat_Suc)
  with x' show ?case
    using Suc.prems by (auto simp: nth_list_update)
qed

lemma distance_row_step:
  assumes "length s1 < 65535" and "length s2 < 65535" and "i < length s2"
    and "length x = Suc (length s1)" and "\<And>m. m \<le> length s1 \<Longrightarrow> x ! m = of_nat (prefix_lev s1 s2 i m)"
  shows "length (distance_row s1 s2 (Suc i) x) = Suc (length s1)"
    and "m \<le> length s1 \<Longrightarrow> distance_row s1 s2 (Suc i) x ! m = of_nat (prefix_lev s1 s2 (Suc i) m)"
  using distance_cells [OF assms order_refl]
  by (auto simp: distance_row_def nth_list_update simp del: of_nat_Suc upt_Suc)

lemma distance_rows_inv:
  assumes "length s1 < 65535" and "length s2 < 65535" and "i \<le> length s2"
  defines "x \<equiv> fold (distance_row s1 s2) [1..<Suc i] (map of_nat [0..<Suc (length s1)])"
  shows "length x = Suc (length s1) \<and> (\<forall>m\<le>length s1. x ! m = of_nat (prefix_lev s1 s2 i m))"
  using assms(3) unfolding x_def
proof (induction i)
  case 0
  then show ?case
    by (auto simp: prefix_lev_def nth_append simp del: upt_Suc)
next
  case (Suc i)
  then show ?case
    using distance_row_step [OF assms(1,2), of i] by (simp del: upt_Suc add: upt_Suc_append)
qed

lemma distance_rows_lev:
  assumes "length s1 < 65535" and "length s2 < 65535"
  shows "distance_rows s1 s2 = lev s1 s2"
  using distance_rows_inv [OF assms order_refl] prefix_lev_small [OF assms, of "length s2" "length s1"]
  by (simp add: distance_rows_def prefix_lev_def unat_of_nat take_bit_eq_mod del: upt_Suc)

section \<open>The trimming\<close>

lemma trim_trailing_lev:
  assumes "trim_trailing s1 s2 = (t1, t2)" and "length s1 \<le> length s2"
  shows "lev t1 t2 = lev s1 s2 \<and> length t1 \<le> length t2 \<and> length t2 \<le> length s2"
proof (cases "List.find (\<lambda>i. s1 ! (length s1 - 1 - i) \<noteq> s2 ! (length s2 - 1 - i)) [0..<length s1]")
  case None
  with assms show ?thesis
    by (simp add: trim_trailing_def)
next
  case (Some i)
  then have i: "i < length s1" and same: "\<And>j. j < i \<Longrightarrow> s1 ! (length s1 - 1 - j) = s2 ! (length s2 - 1 - j)"
    by (auto simp: find_Some_iff)
  have "drop (length s1 - i) s1 = drop (length s2 - i) s2"
  proof (rule nth_equalityI)
    fix m
    assume "m < length (drop (length s1 - i) s1)"
    then have "length s1 - 1 - (i - 1 - m) = length s1 - i + m" "length s2 - 1 - (i - 1 - m) = length s2 - i + m" "i - 1 - m < i"
      using i assms(2) by auto
    with same [of "i - 1 - m"] show "drop (length s1 - i) s1 ! m = drop (length s2 - i) s2 ! m"
      using i assms(2) by simp
  qed (use i assms(2) in simp)
  then have "lev s1 s2 = lev (take (length s1 - i) s1) (take (length s2 - i) s2)"
    by (metis append_take_drop_id lev_append_right)
  with Some assms show ?thesis
    by (auto simp: trim_trailing_def)
qed

lemma trim_leading_lev:
  assumes "trim_leading s1 s2 = (t1, t2)" and "length s1 \<le> length s2"
  shows "lev t1 t2 = lev s1 s2 \<and> length t1 \<le> length t2 \<and> length t2 \<le> length s2"
proof (cases "List.find (\<lambda>i. s1 ! i \<noteq> s2 ! i) [0..<length s1]")
  case None
  with assms show ?thesis
    by (simp add: trim_leading_def)
next
  case (Some i)
  then have "take i s1 = take i s2"
    using assms(2) by (auto simp: find_Some_iff intro: nth_equalityI)
  then have "lev s1 s2 = lev (drop i s1) (drop i s2)"
    by (metis append_take_drop_id lev_append_left)
  with Some assms show ?thesis
    by (auto simp: trim_leading_def)
qed

lemma trimmed_distance:
  assumes "length s1 \<le> length s2" and "length s2 < 65535"
  shows "(let (s1, s2) = trim_trailing s1 s2; (s1, s2) = trim_leading s1 s2 in distance_rows s1 s2) = lev s1 s2"
proof -
  obtain t1 t2 u1 u2 where t: "trim_trailing s1 s2 = (t1, t2)" "trim_leading t1 t2 = (u1, u2)"
    by (metis surj_pair)
  with trim_trailing_lev [OF t(1) assms(1)] trim_leading_lev [OF t(2)] assms show ?thesis
    by (simp add: distance_rows_lev)
qed

lemma compute_distance_lev:
  assumes "length a < 65535" and "length b < 65535"
  shows "compute_distance a b = lev a b"
  using trimmed_distance [of a b] trimmed_distance [of b a] assms
  by (auto simp: compute_distance_def lev_sym [of b a])

section \<open>The selection\<close>

text \<open>The score of an item: the least distance over its candidates.\<close>

definition score :: "(str \<Rightarrow> str) \<Rightarrow> str \<Rightarrow> str list \<Rightarrow> nat option" where
  "score norm_str t cs = (if cs = [] then None else Some (Min ((\<lambda>c. compute_distance t (norm_str c)) ` set cs)))"

lemma min_distance_loop_score:
  assumes "m = (if ns = {} then None else Some (Min (compute_distance t ` ns)))" and "finite ns"
  shows "min_distance_loop norm_str t ns m cs =
    (if ns \<union> norm_str ` set cs = {} then None
     else Some (Min (compute_distance t ` (ns \<union> norm_str ` set cs))))"
  using assms
proof (induction norm_str t ns m cs rule: min_distance_loop.induct)
  case (2 norm_str t ns m c cs)
  show ?case
  proof (cases "norm_str c \<in> ns")
    case True
    then have "ns \<union> norm_str ` set (c # cs) = ns \<union> norm_str ` set cs"
      by auto
    with 2(1) [OF refl True] 2(3,4) True show ?thesis
      by (simp add: Let_def del: Un_empty)
  next
    case False
    have "(case m of None \<Rightarrow> Some (compute_distance t (norm_str c))
        | Some current \<Rightarrow> if compute_distance t (norm_str c) < current then Some (compute_distance t (norm_str c)) else Some current)
      = Some (Min (compute_distance t ` insert (norm_str c) ns))"
      using 2(3,4) by (cases "ns = {}") (simp_all add: min_def not_less del: Min_gr_iff Min_ge_iff)
    with 2(2) [OF refl False refl refl] 2(4) False show ?thesis
      by (simp add: Let_def insert_commute)
  qed
qed simp

lemma find_min_distance_score: "find_min_distance_normalized norm_str t cs = score norm_str t cs"
  by (simp add: find_min_distance_normalized_def min_distance_loop_score score_def image_image)

text \<open>The first of the items that score least, when that is below the bound.\<close>

definition nearest :: "('a \<Rightarrow> nat option) \<Rightarrow> nat \<Rightarrow> 'a list \<Rightarrow> nat \<Rightarrow> nat \<Rightarrow> bool" where
  "nearest sc m items k d \<longleftrightarrow> k < length items \<and> sc (items ! k) = Some d \<and> d < m
     \<and> (\<forall>j<length items. \<forall>e. sc (items ! j) = Some e \<longrightarrow> d \<le> e \<and> (j < k \<longrightarrow> d < e))"

definition none_below :: "('a \<Rightarrow> nat option) \<Rightarrow> nat \<Rightarrow> 'a list \<Rightarrow> bool" where
  "none_below sc m items \<longleftrightarrow> (\<forall>j<length items. \<forall>e. sc (items ! j) = Some e \<longrightarrow> m \<le> e)"

lemma nearest_later:
  assumes "nearest sc m' items k d" and "\<And>e. sc item = Some e \<Longrightarrow> m' \<le> e" and "m' \<le> m"
  shows "nearest sc m (item # items) (Suc k) d"
proof -
  have "d < e" if "sc item = Some e" for e
    using assms(1) assms(2) [OF that] by (simp add: nearest_def)
  moreover have "d < m"
    using assms(1,3) by (simp add: nearest_def)
  ultimately show ?thesis
    using assms(1) by (simp add: nearest_def All_less_Suc2 less_imp_le)
qed

lemma nearest_here:
  "\<lbrakk>sc item = Some d; d < m; none_below sc d items\<rbrakk> \<Longrightarrow> nearest sc m (item # items) 0 d"
  by (auto simp: nearest_def none_below_def All_less_Suc2)

lemma none_below_Cons:
  "none_below sc m (item # items) \<longleftrightarrow> (\<forall>e. sc item = Some e \<longrightarrow> m \<le> e) \<and> none_below sc m items"
  by (simp add: none_below_def All_less_Suc2)

lemma nearest_unique: "\<lbrakk>nearest sc m items k d; nearest sc m items k' d'\<rbrakk> \<Longrightarrow> k = k'"
  unfolding nearest_def by (metis leD linorder_neqE_nat)

lemma best_match_loop_exact:
  fixes get_candidates :: "'a \<Rightarrow> str list" and norm_str :: "str \<Rightarrow> str" and t :: str
  defines "sc \<equiv> (\<lambda>item. score norm_str t (get_candidates item))"
  shows "best_match_loop norm_str t get_candidates i m best items = best \<and> none_below sc m items
    \<or> (\<exists>k d. best_match_loop norm_str t get_candidates i m best items = Some (i + k) \<and> nearest sc m items k d)"
proof (induction items arbitrary: i m best)
  case (Cons item items)
  show ?case
  proof (cases "\<exists>d<m. sc item = Some d")
    case False
    then have "best_match_loop norm_str t get_candidates i m best (item # items)
        = best_match_loop norm_str t get_candidates (Suc i) m best items"
      by (auto simp: find_min_distance_score sc_def split: option.split)
    moreover have skip: "\<And>e. sc item = Some e \<Longrightarrow> m \<le> e"
      using False not_le by blast
    moreover have "nearest sc m (item # items) (Suc k) d" if "nearest sc m items k d" for k d
      by (rule nearest_later [OF that _ order_refl]) (rule skip)
    ultimately show ?thesis
      using Cons [of "Suc i" m best]
      by (simp add: none_below_Cons del: best_match_loop.simps) (metis add_Suc_right)
  next
    case True
    then obtain d where d: "d < m" "sc item = Some d"
      by blast
    then have r: "best_match_loop norm_str t get_candidates i m best (item # items) =
        (if d = 0 then Some i else best_match_loop norm_str t get_candidates (Suc i) d (Some i) items)"
      by (simp add: find_min_distance_score sc_def)
    show ?thesis
    proof (cases "d = 0")
      case True
      with d show ?thesis
        unfolding r by (intro disjI2 exI [of _ 0] exI [of _ d]) (simp add: nearest_here none_below_def)
    next
      case False
      from Cons [of "Suc i" d "Some i"] show ?thesis
      proof (elim disjE exE conjE)
        assume "best_match_loop norm_str t get_candidates (Suc i) d (Some i) items = Some i" "none_below sc d items"
        with False d show ?thesis
          unfolding r by (intro disjI2 exI [of _ 0] exI [of _ d]) (simp add: nearest_here)
      next
        fix k e
        assume "best_match_loop norm_str t get_candidates (Suc i) d (Some i) items = Some (Suc i + k)" "nearest sc d items k e"
        with False d nearest_later [of sc d items k e item m] show ?thesis
          unfolding r by (intro disjI2 exI [of _ "Suc k"] exI [of _ e]) simp
      qed
    qed
  qed
qed (simp add: none_below_def)

section \<open>Properties\<close>

text \<open>
  (C31)
  The edit distance is exact: for texts of fewer than 65535 characters it is the least number of
  single-character insertions, removals and replacements that turn one text into the other. The
  trimming of the common ends loses nothing, and no 16-bit cell wraps.
\<close>

theorem compute_distance_exact:
  assumes "length a < 65535" and "length b < 65535"
  shows "edits (compute_distance a b) a b \<and> (\<forall>n. edits n a b \<longrightarrow> compute_distance a b \<le> n)"
  using edits_lev lev_least by (simp add: compute_distance_lev [OF assms]) blast

theorem compute_distance_exact_witness:
  "edits 3 [107, 105, 116, 116, 101, 110 :: scalar] [115, 105, 116, 116, 105, 110, 103]
    \<and> \<not> edits 2 [107, 105, 116, 116, 101, 110 :: scalar] [115, 105, 116, 116, 105, 110, 103]"
proof -
  have "compute_distance [107, 105, 116, 116, 101, 110] [115, 105, 116, 116, 105, 110, 103] = 3"
    by code_simp
  then show ?thesis
    using compute_distance_exact [of "[107, 105, 116, 116, 101, 110]" "[115, 105, 116, 116, 105, 110, 103]"]
    by (auto simp: numeral_3_eq_3 simp del: relpowp.simps)
qed

text \<open>
  The fuzzy selection is exact: whatever the normalisation, an item is returned if and only if its
  score, the least distance of its candidates to the target, is at most five, no item scores less,
  and every item before it scores more. Items without candidates have no score and are never
  returned.
\<close>

theorem find_best_match_index_exact:
  "find_best_match_index norm_str t items get_candidates = Some k \<longleftrightarrow>
    k < length items \<and> (\<exists>d\<le>5. score norm_str (norm_str t) (get_candidates (items ! k)) = Some d
      \<and> (\<forall>j<length items. \<forall>e. score norm_str (norm_str t) (get_candidates (items ! j)) = Some e
          \<longrightarrow> d \<le> e \<and> (j < k \<longrightarrow> d < e)))"
proof -
  let ?sc = "\<lambda>item. score norm_str (norm_str t) (get_candidates item)"
  consider "find_best_match_index norm_str t items get_candidates = None" "none_below ?sc 6 items"
    | k' d' where "find_best_match_index norm_str t items get_candidates = Some k'" "nearest ?sc 6 items k' d'"
    using best_match_loop_exact [of norm_str "norm_str t" get_candidates 0 6 None items]
    unfolding find_best_match_index_def by auto
  then have "find_best_match_index norm_str t items get_candidates = Some k \<longleftrightarrow> (\<exists>d. nearest ?sc 6 items k d)"
  proof cases
    case 1
    then show ?thesis
      by (fastforce simp: nearest_def none_below_def)
  next
    case 2
    then show ?thesis
      using nearest_unique by (metis option.inject)
  qed
  then show ?thesis
    by (auto simp: nearest_def less_Suc_eq_le numeral_eq_Suc)
qed

theorem find_best_match_index_exact_witness:
  "find_best_match_index id [1, 2, 3, 4, 5, 6, 7]
     [[], [[1, 2, 3, 4, 5, 6, 8], [9]], [[1, 2, 3, 4, 5, 6, 9]], [[]]] id = Some 1"
proof -
  have "k < 4 \<Longrightarrow> k = 0 \<or> k = 1 \<or> k = 2 \<or> k = 3" for k :: nat
    by auto
  moreover have "compute_distance [1, 2, 3, 4, 5, 6, 7] [1, 2, 3, 4, 5, 6, 8] = 1"
    "compute_distance [1, 2, 3, 4, 5, 6, 7] [9] = 7" "compute_distance [1, 2, 3, 4, 5, 6, 7] [1, 2, 3, 4, 5, 6, 9] = 1"
    "compute_distance [1, 2, 3, 4, 5, 6, 7] [] = 7"
    by code_simp+
  ultimately show ?thesis
    unfolding find_best_match_index_exact by (auto simp: score_def less_Suc_eq numeral_eq_Suc)
qed

end
