(* ===== verification/Utf8.thy ===== *)
theory Utf8
  imports Prelude
begin

text \<open>
  UTF-8 as the standard library of Rust reads it: where a byte string stops being valid, and the
  replacement of its invalid parts (\<open>str::from_utf8\<close>, \<open>String::from_utf8_lossy\<close>).
\<close>

section \<open>One chunk\<close>

text \<open>The byte at an index, and zero past the end.\<close>

definition safe_get :: "bytes \<Rightarrow> nat \<Rightarrow> u8" where
  "safe_get v i = (if i < length v then v ! i else 0)"

definition utf8_char_width :: "u8 \<Rightarrow> nat" where
  "utf8_char_width b =
     (if b < 0x80 then 1 else if b < 0xC2 then 0 else if b < 0xE0 then 2
      else if b < 0xF0 then 3 else if b < 0xF5 then 4 else 0)"

text \<open>The second byte of a longer sequence is restricted: no overlong forms, no surrogates.\<close>

definition second_ok :: "u8 \<Rightarrow> u8 \<Rightarrow> bool" where
  "second_ok b c \<longleftrightarrow>
     (if b = 0xE0 then 0xA0 \<le> c \<and> c \<le> 0xBF
      else if b = 0xED then 0x80 \<le> c \<and> c \<le> 0x9F
      else if b = 0xF0 then 0x90 \<le> c \<and> c \<le> 0xBF
      else if b = 0xF4 then 0x80 \<le> c \<and> c \<le> 0x8F
      else 0x80 \<le> c \<and> c \<le> 0xBF)"

text \<open>
  The first chunk of a nonempty byte string: whether it is a character, and its length. The length
  of an invalid chunk counts the bytes that could have begun a character.
\<close>

definition utf8_chunk :: "bytes \<Rightarrow> bool \<times> nat" where
  "utf8_chunk v =
     (let b = v ! 0; cont = (\<lambda>i. safe_get v i AND 0xC0 = 0x80) in
      case utf8_char_width b of
        0 \<Rightarrow> (False, 1)
      | Suc 0 \<Rightarrow> (True, 1)
      | Suc (Suc 0) \<Rightarrow> if cont 1 then (True, 2) else (False, 1)
      | Suc (Suc (Suc 0)) \<Rightarrow>
          if \<not> second_ok b (safe_get v 1) then (False, 1)
          else if cont 2 then (True, 3) else (False, 2)
      | _ \<Rightarrow>
          if \<not> second_ok b (safe_get v 1) then (False, 1)
          else if \<not> cont 2 then (False, 2)
          else if cont 3 then (True, 4) else (False, 3))"

lemma utf8_chunk_pos: "0 < snd (utf8_chunk v)"
  by (auto simp: utf8_chunk_def Let_def split: nat.splits)

section \<open>Whole byte strings\<close>

text \<open>Whether \<open>str::from_utf8\<close> succeeds.\<close>

function utf8_valid :: "bytes \<Rightarrow> bool" where
  "utf8_valid v =
     (if v = [] then True
      else if fst (utf8_chunk v) then utf8_valid (drop (snd (utf8_chunk v)) v) else False)"
  by pat_completeness auto
termination
  by (relation "measure length") (auto simp: utf8_chunk_pos)

text \<open>The bytes of \<open>String::from_utf8_lossy\<close>: every invalid chunk becomes U+FFFD.\<close>

function from_utf8_lossy :: "bytes \<Rightarrow> bytes" where
  "from_utf8_lossy v =
     (if v = [] then []
      else (if fst (utf8_chunk v) then take (snd (utf8_chunk v)) v else [0xEF, 0xBF, 0xBD])
           @ from_utf8_lossy (drop (snd (utf8_chunk v)) v))"
  by pat_completeness auto
termination
  by (relation "measure length") (auto simp: utf8_chunk_pos)

declare utf8_valid.simps [simp del] from_utf8_lossy.simps [simp del]

section \<open>An ASCII byte separates characters\<close>

lemma ascii_not_continuation:
  fixes c :: u8
  assumes "c < 0x80"
  shows "c AND 0xC0 \<noteq> 0x80" and "\<not> second_ok b c"
proof -
  show "c AND 0xC0 \<noteq> 0x80"
    using word_and_le2 [of c "0xC0"] assms by auto
  show "\<not> second_ok b c"
    using assms by (auto simp: second_ok_def word_less_nat_alt word_le_nat_alt)
qed

lemma safe_get_append: "i < length v \<Longrightarrow> safe_get (v @ w) i = safe_get v i"
  by (simp add: safe_get_def nth_append)

lemma safe_get_end:
  assumes "c < 0x80"
  shows "safe_get (v @ c # w) (length v) < 0x80" and "safe_get v (length v) < 0x80"
  using assms by (simp_all add: safe_get_def)

lemma utf8_chunk_length:
  assumes "v \<noteq> []"
  shows "snd (utf8_chunk v) \<le> length v"
proof -
  have "Suc i \<le> length v" if "safe_get v i AND 0xC0 = 0x80 \<or> second_ok b (safe_get v i)" for i b
    using that ascii_not_continuation [of 0] by (auto simp: safe_get_def split: if_splits)
  from this [of 1 "v ! 0"] this [of 2] this [of 3] show ?thesis
    using assms by (auto simp: utf8_chunk_def Let_def Suc_le_eq numeral_eq_Suc split: nat.splits if_splits)
qed

lemma utf8_chunk_ascii:
  assumes "c < 0x80" and "v \<noteq> []"
  shows "utf8_chunk (v @ c # w) = utf8_chunk v"
proof -
  have test: "safe_get (v @ c # w) i AND 0xC0 = 0x80 \<longleftrightarrow> safe_get v i AND 0xC0 = 0x80"
    "second_ok b (safe_get (v @ c # w) i) \<longleftrightarrow> second_ok b (safe_get v i)" if "i \<le> length v" for i b
    using that ascii_not_continuation [OF safe_get_end(1) [OF assms(1), of v w]]
      ascii_not_continuation [OF safe_get_end(2) [OF assms(1), of v]]
    by (cases "i = length v"; simp add: safe_get_append)+
  have cont: "Suc i \<le> length v" if "safe_get v i AND 0xC0 = 0x80 \<or> second_ok b (safe_get v i)" for i b
    using that ascii_not_continuation [of 0] by (auto simp: safe_get_def split: if_splits)
  have "1 \<le> length v" "(v @ c # w) ! 0 = v ! 0"
    using assms(2) by (cases v; simp)+
  with test [of 1] test [of 2] test [of 3] cont [of 1] cont [of 2] show ?thesis
    by (auto simp: utf8_chunk_def Let_def numeral_eq_Suc split: nat.splits)
qed

lemma utf8_valid_ascii:
  assumes "c < 0x80"
  shows "utf8_valid (v @ c # w) \<longleftrightarrow> utf8_valid v \<and> utf8_valid w"
proof (induction v rule: utf8_valid.induct)
  case (1 v)
  show ?case
  proof (cases "v = []")
    case True
    have "utf8_chunk (c # w) = (True, 1)"
      using assms by (simp add: utf8_chunk_def utf8_char_width_def)
    with True show ?thesis
      by (simp add: utf8_valid.simps [of "c # w"] utf8_valid.simps [of "[]"])
  next
    case False
    with 1 utf8_chunk_length [OF False] show ?thesis
      by (simp add: utf8_valid.simps [of "v @ c # w"] utf8_valid.simps [of v] utf8_chunk_ascii [OF assms False])
  qed
qed

end
