(* ===== verification/Metainfo.thy ===== *)
theory Metainfo
  imports Bencode Utf8
begin

text \<open>
  \<open>bitmagnet-metainfo/src/lib.rs\<close>: the verification and decoding of an info dictionary, its files
  with their lengths and offsets, and the default banning policy. The hash functions and the
  bencode decoder are external crates and arguments of \<open>parse_info_bytes\<close>. An \<open>i64\<close> is a 64-bit
  word read with \<open>sint\<close>; a \<open>String\<close> is the list of its UTF-8 bytes.
\<close>

section \<open>Data\<close>

abbreviation MAX_INFO_NESTING_DEPTH :: nat where "MAX_INFO_NESTING_DEPTH \<equiv> 64"
abbreviation DEFAULT_MIN_NAME_BYTES :: nat where "DEFAULT_MIN_NAME_BYTES \<equiv> 8"
abbreviation DEFAULT_MIN_TOTAL_LENGTH :: int where "DEFAULT_MIN_TOTAL_LENGTH \<equiv> 1024"

datatype meta_version = V1 | V2

fun meta_version_as_u8 :: "meta_version \<Rightarrow> u8" where
  "meta_version_as_u8 V1 = 1"
| "meta_version_as_u8 V2 = 2"

type_synonym path = "bytes list"

record info_file =
  if_length :: i64
  if_path :: path
  if_path_utf8 :: path

definition if_best_path :: "info_file \<Rightarrow> path" where
  "if_best_path f = (if if_path_utf8 f = [] then if_path f else if_path_utf8 f)"

record normalized_file =
  nf_length :: i64
  nf_path :: path
  nf_path_utf8 :: path
  nf_pieces_root :: "bytes option"
  nf_torrent_offset :: i64

definition nf_best_path :: "normalized_file \<Rightarrow> path" where
  "nf_best_path f = (if nf_path_utf8 f = [] then nf_path f else nf_path_utf8 f)"

record file_tree_file =
  ftf_length :: i64
  ftf_pieces_root :: bytes

abbreviation default_file_tree_file :: file_tree_file where
  "default_file_tree_file \<equiv> \<lparr>ftf_length = 0, ftf_pieces_root = []\<rparr>"

text \<open>The children of a tree are in the order of their names, as in the \<open>BTreeMap\<close> of the source.\<close>

datatype file_tree =
  FileTree (ft_file: file_tree_file) (ft_properties_present: bool) (ft_children: "(bytes \<times> file_tree) list")

abbreviation default_file_tree :: file_tree where
  "default_file_tree \<equiv> FileTree default_file_tree_file False []"

definition ft_is_dir :: "file_tree \<Rightarrow> bool" where
  "ft_is_dir t \<longleftrightarrow> ft_children t \<noteq> []"

record info =
  in_piece_length :: i64
  in_pieces :: bytes
  in_name :: bytes
  in_name_utf8 :: bytes
  in_length :: i64
  in_private :: "bool option"
  in_source :: bytes
  in_files :: "info_file list option"
  in_raw_meta_version :: i64
  in_file_tree :: file_tree

record parsed_info =
  pi_info :: info
  pi_meta_version :: meta_version
  pi_info_hash_v1 :: "bytes option"
  pi_info_hash_v2 :: "bytes option"

datatype parse_info_error =
  WrongHash
| InfoBencode string
| EmptyInfo
| TrailingObject
| InvalidField bytes string

datatype info_files_error =
  NegativeFileLength path i64
| NonPositiveV2PieceLength i64
| InvalidPiecesRootLength path nat
| TorrentOffsetOverflow path
| TotalLengthOverflow path

datatype default_ban_issue =
  NameTooShort
| SizeTooSmall
| InvalidUtf8
| InvalidFileProjection info_files_error

record default_ban_report =
  dbr_issues :: "default_ban_issue list"

record selected_file =
  sf_length :: i64
  sf_path :: path
  sf_path_utf8 :: path
  sf_pieces_root :: "bytes option"

section \<open>Files\<close>

definition best_name :: "info \<Rightarrow> bytes" where
  "best_name i = (if in_name_utf8 i = [] then in_name i else in_name_utf8 i)"

definition has_v2 :: "info \<Rightarrow> bool" where
  "has_v2 i \<longleftrightarrow> in_raw_meta_version i = 2"

definition has_v1 :: "info \<Rightarrow> bool" where
  "has_v1 i \<longleftrightarrow> in_raw_meta_version i = 0 \<or> in_raw_meta_version i = 1 \<or> in_files i \<noteq> None
     \<or> in_length i \<noteq> 0 \<or> in_pieces i \<noteq> []"

definition info_is_dir :: "info \<Rightarrow> bool" where
  "info_is_dir i =
     (if has_v2 i then ft_is_dir (in_file_tree i)
      else case in_files i of None \<Rightarrow> False | Some files \<Rightarrow> files \<noteq> [])"

definition selected_v1 :: "i64 \<Rightarrow> path \<Rightarrow> path \<Rightarrow> info_files_error + selected_file" where
  "selected_v1 len path path_utf8 =
     (if sint len < 0 then Inl (NegativeFileLength path len)
      else Inr \<lparr>sf_length = len, sf_path = path, sf_path_utf8 = path_utf8, sf_pieces_root = None\<rparr>)"

definition selected_leaf :: "file_tree_file \<Rightarrow> path \<Rightarrow> info_files_error + selected_file" where
  "selected_leaf f path =
     (if sint (ftf_length f) < 0 then Inl (NegativeFileLength path (ftf_length f))
      else rbind (if length (ftf_pieces_root f) = 0 then Inr None
                  else if length (ftf_pieces_root f) = 32 then Inr (Some (ftf_pieces_root f))
                  else Inl (InvalidPiecesRootLength path (length (ftf_pieces_root f))))
             (\<lambda>pieces_root. Inr \<lparr>sf_length = ftf_length f, sf_path = path, sf_path_utf8 = path,
                                 sf_pieces_root = pieces_root\<rparr>))"

text \<open>The path is pushed before a child and popped after it; the files are appended in order.\<close>

fun collect_selected_files ::
    "file_tree \<Rightarrow> path \<Rightarrow> selected_file list \<Rightarrow> info_files_error + selected_file list"
  and collect_children ::
    "(bytes \<times> file_tree) list \<Rightarrow> path \<Rightarrow> selected_file list \<Rightarrow> info_files_error + selected_file list" where
  "collect_selected_files (FileTree f p children) path files =
     (if children \<noteq> [] then collect_children children path files
      else rbind (selected_leaf f path) (\<lambda>s. Inr (files @ [s])))"
| "collect_children [] path files = Inr files"
| "collect_children ((name, child) # children) path files =
     rbind (collect_selected_files child (path @ [name]) files) (collect_children children path)"

definition selected_files :: "info \<Rightarrow> info_files_error + selected_file list" where
  "selected_files i =
     (if has_v2 i
      then if sint (in_piece_length i) \<le> 0 then Inl (NonPositiveV2PieceLength (in_piece_length i))
           else collect_selected_files (in_file_tree i) [] []
      else case filter_opt (\<lambda>files. files \<noteq> []) (in_files i) of
             None \<Rightarrow> rbind (selected_v1 (in_length i) [] []) (\<lambda>f. Inr [f])
           | Some files \<Rightarrow>
               collect_result (map (\<lambda>f. selected_v1 (if_length f) (if_path f) (if_path_utf8 f)) files))"

definition checked_piece_aligned_length :: "i64 \<Rightarrow> i64 \<Rightarrow> i64 option" where
  "checked_piece_aligned_length len piece_length =
     Option.bind (i64_checked_div len piece_length) (\<lambda>pieces.
     Option.bind (i64_checked_add pieces (if sint len smod sint piece_length \<noteq> 0 then 1 else 0)) (\<lambda>pieces.
     i64_checked_mul pieces piece_length))"

definition file_advance :: "info \<Rightarrow> selected_file \<Rightarrow> info_files_error + i64" where
  "file_advance i f =
     (if has_v2 i
      then case checked_piece_aligned_length (sf_length f) (in_piece_length i) of
             None \<Rightarrow> Inl (TorrentOffsetOverflow (sf_path f))
           | Some a \<Rightarrow> Inr a
      else Inr (sf_length f))"

fun upvert_loop ::
  "info \<Rightarrow> selected_file list \<Rightarrow> i64 \<Rightarrow> normalized_file list \<Rightarrow> info_files_error + normalized_file list" where
  "upvert_loop i [] offset files = Inr files"
| "upvert_loop i (f # selected) offset files =
     rbind (file_advance i f) (\<lambda>advance.
       case i64_checked_add offset advance of
         None \<Rightarrow> Inl (TorrentOffsetOverflow (sf_path f))
       | Some next_offset \<Rightarrow>
           upvert_loop i selected next_offset
             (files @ [\<lparr>nf_length = sf_length f, nf_path = sf_path f, nf_path_utf8 = sf_path_utf8 f,
                        nf_pieces_root = sf_pieces_root f, nf_torrent_offset = offset\<rparr>]))"

definition upverted_files :: "info \<Rightarrow> info_files_error + normalized_file list" where
  "upverted_files i = rbind (selected_files i) (\<lambda>selected. upvert_loop i selected 0 [])"

fun total_loop :: "selected_file list \<Rightarrow> i64 \<Rightarrow> info_files_error + i64" where
  "total_loop [] tot = Inr tot"
| "total_loop (f # fs) tot =
     (case i64_checked_add tot (sf_length f) of
        None \<Rightarrow> Inl (TotalLengthOverflow (sf_path f))
      | Some tot \<Rightarrow> total_loop fs tot)"

definition total_length :: "info \<Rightarrow> info_files_error + i64" where
  "total_length i = rbind (selected_files i) (\<lambda>selected. total_loop selected 0)"

section \<open>Banning\<close>

definition invalid_utf8_or_nul :: "bytes \<Rightarrow> bool" where
  "invalid_utf8_or_nul v \<longleftrightarrow> \<not> utf8_valid v \<or> 0 \<in> set v"

definition invalid_v1_display_path :: "info \<Rightarrow> info_file \<Rightarrow> bool" where
  "invalid_v1_display_path i f =
     (if \<not> info_is_dir i then invalid_utf8_or_nul (best_name i)
      else list_ex invalid_utf8_or_nul (if_best_path f))"

definition has_invalid_default_utf8 :: "info \<Rightarrow> bool" where
  "has_invalid_default_utf8 i \<longleftrightarrow> invalid_utf8_or_nul (best_name i)
     \<or> (case in_files i of None \<Rightarrow> False | Some files \<Rightarrow> list_ex (invalid_v1_display_path i) files)"

definition check_default_banning :: "info \<Rightarrow> default_ban_report + unit" where
  "check_default_banning i =
     (let issues = (if length (best_name i) < DEFAULT_MIN_NAME_BYTES then [NameTooShort] else []);
          issues = issues @ (case total_length i of
                               Inr n \<Rightarrow> if sint n < DEFAULT_MIN_TOTAL_LENGTH then [SizeTooSmall] else []
                             | Inl e \<Rightarrow> [InvalidFileProjection e]);
          issues = issues @ (if has_invalid_default_utf8 i then [InvalidUtf8] else [])
      in if issues = [] then Inr () else Inl \<lparr>dbr_issues = issues\<rparr>)"

fun projection_error_in :: "default_ban_issue list \<Rightarrow> info_files_error option" where
  "projection_error_in [] = None"
| "projection_error_in (InvalidFileProjection e # issues) = Some e"
| "projection_error_in (_ # issues) = projection_error_in issues"

definition projection_error :: "default_ban_report \<Rightarrow> info_files_error option" where
  "projection_error r = projection_error_in (dbr_issues r)"

section \<open>Decoding\<close>

definition invalid_field :: "bytes \<Rightarrow> string \<Rightarrow> parse_info_error" where
  "invalid_field field expected = InvalidField field expected"

fun mi_into_dict :: "bvalue \<Rightarrow> bytes \<Rightarrow> parse_info_error + bdict" where
  "mi_into_dict (BDict m) field = Inr m"
| "mi_into_dict _ field = Inl (invalid_field field ''a dictionary'')"

fun mi_into_list :: "bvalue \<Rightarrow> bytes \<Rightarrow> parse_info_error + bvalue list" where
  "mi_into_list (BList vs) field = Inr vs"
| "mi_into_list _ field = Inl (invalid_field field ''a list'')"

fun mi_into_bytes :: "bvalue \<Rightarrow> bytes \<Rightarrow> parse_info_error + bytes" where
  "mi_into_bytes (BBytes v) field = Inr v"
| "mi_into_bytes _ field = Inl (invalid_field field ''a byte string'')"

fun mi_into_integer :: "bvalue \<Rightarrow> bytes \<Rightarrow> parse_info_error + i64" where
  "mi_into_integer (BInt v) field = Inr v"
| "mi_into_integer _ field = Inl (invalid_field field ''an integer'')"

definition take_value :: "bdict \<Rightarrow> bytes \<Rightarrow> bvalue option \<times> bdict" where
  "take_value dict key = (map_of dict key, AList.delete key dict)"

definition take_bytes :: "bdict \<Rightarrow> bytes \<Rightarrow> bytes \<Rightarrow> parse_info_error + bytes option \<times> bdict" where
  "take_bytes dict key field =
     (let (v, dict) = take_value dict key
      in rbind (map_transpose (\<lambda>v. mi_into_bytes v field) v) (\<lambda>v. Inr (v, dict)))"

definition take_integer :: "bdict \<Rightarrow> bytes \<Rightarrow> bytes \<Rightarrow> parse_info_error + i64 option \<times> bdict" where
  "take_integer dict key field =
     (let (v, dict) = take_value dict key
      in rbind (map_transpose (\<lambda>v. mi_into_integer v field) v) (\<lambda>v. Inr (v, dict)))"

text \<open>\<open>format!("{field}[{index}]")\<close>.\<close>

definition index_field :: "bytes \<Rightarrow> nat \<Rightarrow> bytes" where
  "index_field field index = field @ bstr ''['' @ dec_bytes index @ bstr '']''"

definition decode_byte_list :: "bvalue \<Rightarrow> bytes \<Rightarrow> parse_info_error + bytes list" where
  "decode_byte_list v field =
     rbind (mi_into_list v field) (\<lambda>vs.
       collect_result (map (\<lambda>(index, v). mi_into_bytes v (index_field field index)) (enumerate 0 vs)))"

definition decode_file :: "bytes \<Rightarrow> bvalue \<Rightarrow> parse_info_error + info_file" where
  "decode_file prefix v =
     rbind (mi_into_dict v prefix) (\<lambda>dict.
     rbind (take_integer dict (bstr ''length'') (prefix @ bstr ''.length'')) (\<lambda>(len, dict).
     let (p, dict) = take_value dict (bstr ''path'') in
     rbind (map_transpose (\<lambda>v. decode_byte_list v (prefix @ bstr ''.path'')) p) (\<lambda>p.
     let (q, dict) = take_value dict (bstr ''path.utf-8'') in
     rbind (map_transpose (\<lambda>v. decode_byte_list v (prefix @ bstr ''.path.utf-8'')) q) (\<lambda>q.
     Inr \<lparr>if_length = unwrap_or len 0, if_path = unwrap_or p [], if_path_utf8 = unwrap_or q []\<rparr>))))"

definition decode_files :: "bvalue \<Rightarrow> bytes \<Rightarrow> parse_info_error + info_file list" where
  "decode_files v field =
     rbind (mi_into_list v field) (\<lambda>vs.
       collect_result (map (\<lambda>(index, v). decode_file (index_field field index) v) (enumerate 0 vs)))"

definition decode_file_tree_file :: "bvalue \<Rightarrow> bytes \<Rightarrow> parse_info_error + file_tree_file" where
  "decode_file_tree_file v field =
     rbind (mi_into_dict v field) (\<lambda>dict.
     rbind (take_integer dict (bstr ''length'') (field @ bstr ''.length'')) (\<lambda>(len, dict).
     rbind (take_bytes dict (bstr ''pieces root'') (field @ bstr ''.pieces root'')) (\<lambda>(root, dict).
     Inr \<lparr>ftf_length = unwrap_or len 0, ftf_pieces_root = unwrap_or root []\<rparr>)))"

lemma mi_into_dict_Inr: "mi_into_dict v field = Inr m \<longleftrightarrow> v = BDict m"
  by (cases v) simp_all

lemma size_dict_entry: "(k, v) \<in> set (AList.delete k' m) \<Longrightarrow> size v < size (BDict m)"
proof -
  assume "(k, v) \<in> set (AList.delete k' m)"
  then have "(k, v) \<in> set m"
    by (auto simp: AList.delete_eq)
  then show ?thesis
    by (induction m) auto
qed

function decode_file_tree :: "bvalue \<Rightarrow> bytes \<Rightarrow> parse_info_error + file_tree" where
  "decode_file_tree v field =
     rbind (mi_into_dict v field) (\<lambda>dict.
     rbind (map_transpose (\<lambda>v. decode_file_tree_file v (field @ bstr ''.<properties>''))
              (fst (take_value dict []))) (\<lambda>file.
     rbind (collect_result (map (\<lambda>(name, v).
              rbind (decode_file_tree v (field @ bstr ''.'' @ from_utf8_lossy name)) (\<lambda>tree. Inr (name, tree)))
              (snd (take_value dict [])))) (\<lambda>children.
     Inr (FileTree (unwrap_or file default_file_tree_file) (fst (take_value dict []) \<noteq> None) children))))"
  by pat_completeness auto
termination
  by (relation "measure (\<lambda>(v, _). size v)")
    (auto simp: mi_into_dict_Inr take_value_def size_dict_entry simp del: bvalue.size)

declare decode_file_tree.simps [simp del]

definition decode_info :: "bvalue \<Rightarrow> parse_info_error + info" where
  "decode_info v =
     rbind (mi_into_dict v (bstr ''info'')) (\<lambda>dict.
     rbind (take_integer dict (bstr ''piece length'') (bstr ''info.piece length'')) (\<lambda>(piece_length, dict).
     rbind (take_bytes dict (bstr ''pieces'') (bstr ''info.pieces'')) (\<lambda>(pieces, dict).
     rbind (take_bytes dict (bstr ''name'') (bstr ''info.name'')) (\<lambda>(name, dict).
     rbind (take_bytes dict (bstr ''name.utf-8'') (bstr ''info.name.utf-8'')) (\<lambda>(name_utf8, dict).
     rbind (take_integer dict (bstr ''length'') (bstr ''info.length'')) (\<lambda>(len, dict).
     rbind (take_integer dict (bstr ''private'') (bstr ''info.private'')) (\<lambda>(private, dict).
     rbind (take_bytes dict (bstr ''source'') (bstr ''info.source'')) (\<lambda>(source, dict).
     let (files, dict) = take_value dict (bstr ''files'') in
     rbind (map_transpose (\<lambda>v. decode_files v (bstr ''info.files'')) files) (\<lambda>files.
     rbind (take_integer dict (bstr ''meta version'') (bstr ''info.meta version'')) (\<lambda>(raw_meta_version, dict).
     let (tree, dict) = take_value dict (bstr ''file tree'') in
     rbind (map_transpose (\<lambda>v. decode_file_tree v (bstr ''info.file tree'')) tree) (\<lambda>tree.
     Inr \<lparr>in_piece_length = unwrap_or piece_length 0, in_pieces = unwrap_or pieces [],
          in_name = unwrap_or name [], in_name_utf8 = unwrap_or name_utf8 [],
          in_length = unwrap_or len 0, in_private = map_option (\<lambda>n. n \<noteq> 0) private,
          in_source = unwrap_or source [], in_files = files,
          in_raw_meta_version = unwrap_or raw_meta_version 0,
          in_file_tree = unwrap_or tree default_file_tree\<rparr>)))))))))))"

text \<open>
  \<open>next_value\<close> is the decoder's first object read as a value (\<open>Inr None\<close> when there is none),
  \<open>has_trailing\<close> whether another object follows; each may fail with the decoder's message.
\<close>

definition parse_info_bytes ::
  "(bytes \<Rightarrow> bytes) \<Rightarrow> (bytes \<Rightarrow> bytes) \<Rightarrow> (nat \<Rightarrow> bytes \<Rightarrow> string + bvalue option) \<Rightarrow> (nat \<Rightarrow> bytes \<Rightarrow> string + bool)
   \<Rightarrow> bytes \<Rightarrow> bytes \<Rightarrow> parse_info_error + parsed_info" where
  "parse_info_bytes sha1 sha256 next_value has_trailing requested raw_info =
     (let v1 = sha1 raw_info; v2 = sha256 raw_info in
      if requested \<noteq> v1 \<and> requested \<noteq> take 20 v2 then Inl WrongHash
      else rbind (map_err InfoBencode (next_value MAX_INFO_NESTING_DEPTH raw_info)) (\<lambda>object.
        case object of
          None \<Rightarrow> Inl EmptyInfo
        | Some v \<Rightarrow>
            rbind (map_err InfoBencode (has_trailing MAX_INFO_NESTING_DEPTH raw_info)) (\<lambda>trailing.
              if trailing then Inl TrailingObject
              else rbind (decode_info v) (\<lambda>info.
                Inr \<lparr>pi_info = info, pi_meta_version = (if has_v2 info then V2 else V1),
                     pi_info_hash_v1 = (if has_v1 info then Some v1 else None),
                     pi_info_hash_v2 = (if has_v2 info then Some v2 else None)\<rparr>))))"

section \<open>What a dictionary carries\<close>

text \<open>
  The reading of a dictionary without the order of the steps: a field has the value its key is
  bound to, or its default when the key is absent. Keys that name no field are ignored.
\<close>

definition field_is :: "('a \<Rightarrow> bvalue) \<Rightarrow> 'a \<Rightarrow> bdict \<Rightarrow> string \<Rightarrow> 'a \<Rightarrow> bool" where
  "field_is enc dflt d k x \<longleftrightarrow>
     (case map_of d (bstr k) of None \<Rightarrow> x = dflt | Some v \<Rightarrow> v = enc x)"

abbreviation bytes_list_value :: "bytes list \<Rightarrow> bvalue" where
  "bytes_list_value p \<equiv> BList (map BBytes p)"

fun carries_file :: "bvalue \<Rightarrow> info_file \<Rightarrow> bool" where
  "carries_file (BDict d) f \<longleftrightarrow>
     field_is BInt 0 d ''length'' (if_length f)
     \<and> field_is bytes_list_value [] d ''path'' (if_path f)
     \<and> field_is bytes_list_value [] d ''path.utf-8'' (if_path_utf8 f)"
| "carries_file _ f \<longleftrightarrow> False"

fun carries_tree_file :: "bvalue \<Rightarrow> file_tree_file \<Rightarrow> bool" where
  "carries_tree_file (BDict d) f \<longleftrightarrow>
     field_is BInt 0 d ''length'' (ftf_length f) \<and> field_is BBytes [] d ''pieces root'' (ftf_pieces_root f)"
| "carries_tree_file _ f \<longleftrightarrow> False"

text \<open>The empty key holds the properties of a file, every other key a child.\<close>

inductive carries_tree :: "bvalue \<Rightarrow> file_tree \<Rightarrow> bool" where
  "\<lbrakk>case map_of d [] of None \<Rightarrow> f = default_file_tree_file \<and> \<not> p | Some v \<Rightarrow> carries_tree_file v f \<and> p;
    list_all2 (\<lambda>c t. fst c = fst t \<and> carries_tree (snd c) (snd t)) (AList.delete [] d) children\<rbrakk>
   \<Longrightarrow> carries_tree (BDict d) (FileTree f p children)"

inductive_simps carries_tree_simps: "carries_tree v (FileTree f p children)"

fun carries_info :: "bvalue \<Rightarrow> info \<Rightarrow> bool" where
  "carries_info (BDict d) i \<longleftrightarrow>
     field_is BInt 0 d ''piece length'' (in_piece_length i)
     \<and> field_is BBytes [] d ''pieces'' (in_pieces i)
     \<and> field_is BBytes [] d ''name'' (in_name i)
     \<and> field_is BBytes [] d ''name.utf-8'' (in_name_utf8 i)
     \<and> field_is BInt 0 d ''length'' (in_length i)
     \<and> (case map_of d (bstr ''private'') of
          None \<Rightarrow> in_private i = None | Some v \<Rightarrow> \<exists>n. v = BInt n \<and> in_private i = Some (n \<noteq> 0))
     \<and> field_is BBytes [] d ''source'' (in_source i)
     \<and> (case map_of d (bstr ''files'') of
          None \<Rightarrow> in_files i = None
        | Some v \<Rightarrow> \<exists>vs fs. v = BList vs \<and> in_files i = Some fs \<and> list_all2 carries_file vs fs)
     \<and> field_is BInt 0 d ''meta version'' (in_raw_meta_version i)
     \<and> (case map_of d (bstr ''file tree'') of
          None \<Rightarrow> in_file_tree i = default_file_tree | Some v \<Rightarrow> carries_tree v (in_file_tree i))"
| "carries_info _ i \<longleftrightarrow> False"

lemma mi_into_Inr:
  "mi_into_list v field = Inr vs \<longleftrightarrow> v = BList vs"
  "mi_into_bytes v field = Inr b \<longleftrightarrow> v = BBytes b"
  "mi_into_integer v field = Inr n \<longleftrightarrow> v = BInt n"
  by (cases v; simp)+

lemma collect_enumerate:
  assumes "\<And>i v x. f i v = Inr x \<longleftrightarrow> R v x"
  shows "collect_result (map (\<lambda>(i, v). f i v) (enumerate n vs)) = Inr xs \<longleftrightarrow> list_all2 R vs xs"
proof (induction vs arbitrary: n xs)
  case (Cons v vs)
  then show ?case
    by (auto simp: list_all2_Cons1 collect_result_Cons assms simp del: collect_result.simps)
qed auto

lemma list_all2_map_eq: "list_all2 (\<lambda>v x. v = g x) vs xs \<longleftrightarrow> vs = map g xs"
  by (induction vs arbitrary: xs) (auto simp: list_all2_Cons1 Cons_eq_map_conv)

lemma decode_byte_list_Inr: "decode_byte_list v field = Inr p \<longleftrightarrow> v = bytes_list_value p"
  by (auto simp: decode_byte_list_def rbind_Inr mi_into_Inr collect_enumerate [where R = "\<lambda>v b. v = BBytes b"] list_all2_map_eq)

lemma map_transpose_eq_Inr:
  "map_transpose f v = Inr w \<longleftrightarrow> (case v of None \<Rightarrow> w = None | Some x \<Rightarrow> \<exists>y. f x = Inr y \<and> w = Some y)"
  by (cases v) (auto simp: rbind_Inr)

lemmas decode_steps = rbind_Inr take_integer_def take_bytes_def take_value_def mi_into_dict_Inr mi_into_Inr
  map_transpose_eq_Inr delete_conv'

lemma decode_file_Inr: "decode_file prefix v = Inr f \<longleftrightarrow> carries_file v f"
  by (cases v; cases f)
    (auto simp: decode_file_def decode_steps field_is_def decode_byte_list_Inr split: option.splits)

lemma decode_files_Inr: "decode_files v field = Inr fs \<longleftrightarrow> (\<exists>vs. v = BList vs \<and> list_all2 carries_file vs fs)"
  by (simp add: decode_files_def rbind_Inr mi_into_Inr collect_enumerate [where R = carries_file] decode_file_Inr)

lemma decode_file_tree_file_Inr: "decode_file_tree_file v field = Inr f \<longleftrightarrow> carries_tree_file v f"
  by (cases v; cases f)
    (auto simp: decode_file_tree_file_def decode_steps field_is_def split: option.splits)

lemma collect_children_Inr:
  assumes "\<And>c v t. c \<in> set cs \<Longrightarrow> F c = Inr t \<longleftrightarrow> R c t"
  shows "collect_result (map F cs) = Inr ts \<longleftrightarrow> list_all2 R cs ts"
  using assms
proof (induction cs arbitrary: ts)
  case (Cons c cs)
  then show ?case
    by (auto simp: list_all2_Cons1 collect_result_Cons simp del: collect_result.simps)
qed auto

lemma decode_file_tree_Inr: "decode_file_tree v field = Inr t \<longleftrightarrow> carries_tree v t"
proof (induction v field arbitrary: t rule: decode_file_tree.induct)
  case (1 v field)
  show ?case
  proof (cases v)
    case (BDict d)
    note IH = 1 [OF mi_into_dict_Inr [THEN iffD2, OF BDict]]
    have kids: "collect_result (map (\<lambda>(name, v). rbind (decode_file_tree v (field @ bstr ''.'' @ from_utf8_lossy name))
        (\<lambda>tree. Inr (name, tree))) (AList.delete [] d)) = Inr children
      \<longleftrightarrow> list_all2 (\<lambda>c t. fst c = fst t \<and> carries_tree (snd c) (snd t)) (AList.delete [] d) children"
      if "map_transpose (\<lambda>v. decode_file_tree_file v (field @ bstr ''.<properties>'')) (map_of d []) = Inr props" for props children
      using IH that by (intro collect_children_Inr) (auto simp: rbind_Inr take_value_def)
    let ?props = "map_transpose (\<lambda>v. decode_file_tree_file v (field @ bstr ''.<properties>'')) (map_of d [])"
    have "decode_file_tree v field = Inr (FileTree f p children) \<longleftrightarrow>
        (\<exists>props. ?props = Inr props \<and> f = unwrap_or props default_file_tree_file)
        \<and> p = (map_of d [] \<noteq> None)
        \<and> list_all2 (\<lambda>c t. fst c = fst t \<and> carries_tree (snd c) (snd t)) (AList.delete [] d) children" for f p children
      using kids unfolding BDict decode_file_tree.simps [of "BDict d"]
      by (auto simp: rbind_Inr take_value_def)
    then show ?thesis
      by (cases t) (auto simp: BDict carries_tree_simps map_transpose_eq_Inr decode_file_tree_file_Inr split: option.splits)
  qed (auto simp: decode_file_tree.simps [of "BBytes b" for b] decode_file_tree.simps [of "BInt n" for n]
      decode_file_tree.simps [of "BList vs" for vs] elim: carries_tree.cases)
qed

lemma field_is_taken:
  "map_transpose (\<lambda>v. mi_into_bytes v field) (map_of d (bstr k)) = Inr w \<Longrightarrow> field_is BBytes b d k (unwrap_or w b)"
  "map_transpose (\<lambda>v. mi_into_integer v field) (map_of d (bstr k)) = Inr u \<Longrightarrow> field_is BInt n d k (unwrap_or u n)"
  by (auto simp: field_is_def map_transpose_eq_Inr mi_into_Inr split: option.splits)

lemma taken_field_is:
  "field_is BBytes b d k x \<Longrightarrow> \<exists>w. map_transpose (\<lambda>v. mi_into_bytes v field) (map_of d (bstr k)) = Inr w \<and> unwrap_or w b = x"
  "field_is BInt n d k y \<Longrightarrow> \<exists>w. map_transpose (\<lambda>v. mi_into_integer v field) (map_of d (bstr k)) = Inr w \<and> unwrap_or w n = y"
  by (auto simp: field_is_def map_transpose_eq_Inr mi_into_Inr split: option.splits)

text \<open>The decoding as the lookups of its fields.\<close>

lemma decode_info_BDict:
  "decode_info (BDict d) =
     rbind (map_transpose (\<lambda>v. mi_into_integer v (bstr ''info.piece length'')) (map_of d (bstr ''piece length''))) (\<lambda>piece_length.
     rbind (map_transpose (\<lambda>v. mi_into_bytes v (bstr ''info.pieces'')) (map_of d (bstr ''pieces''))) (\<lambda>pieces.
     rbind (map_transpose (\<lambda>v. mi_into_bytes v (bstr ''info.name'')) (map_of d (bstr ''name''))) (\<lambda>name.
     rbind (map_transpose (\<lambda>v. mi_into_bytes v (bstr ''info.name.utf-8'')) (map_of d (bstr ''name.utf-8''))) (\<lambda>name_utf8.
     rbind (map_transpose (\<lambda>v. mi_into_integer v (bstr ''info.length'')) (map_of d (bstr ''length''))) (\<lambda>len.
     rbind (map_transpose (\<lambda>v. mi_into_integer v (bstr ''info.private'')) (map_of d (bstr ''private''))) (\<lambda>private.
     rbind (map_transpose (\<lambda>v. mi_into_bytes v (bstr ''info.source'')) (map_of d (bstr ''source''))) (\<lambda>source.
     rbind (map_transpose (\<lambda>v. decode_files v (bstr ''info.files'')) (map_of d (bstr ''files''))) (\<lambda>files.
     rbind (map_transpose (\<lambda>v. mi_into_integer v (bstr ''info.meta version'')) (map_of d (bstr ''meta version''))) (\<lambda>raw_meta_version.
     rbind (map_transpose (\<lambda>v. decode_file_tree v (bstr ''info.file tree'')) (map_of d (bstr ''file tree''))) (\<lambda>tree.
     Inr \<lparr>in_piece_length = unwrap_or piece_length 0, in_pieces = unwrap_or pieces [],
          in_name = unwrap_or name [], in_name_utf8 = unwrap_or name_utf8 [],
          in_length = unwrap_or len 0, in_private = map_option (\<lambda>n. n \<noteq> 0) private,
          in_source = unwrap_or source [], in_files = files,
          in_raw_meta_version = unwrap_or raw_meta_version 0,
          in_file_tree = unwrap_or tree default_file_tree\<rparr>))))))))))"
  by (simp add: decode_info_def take_integer_def take_bytes_def take_value_def delete_conv' Let_def)

lemma optional_field_taken:
  "map_transpose (\<lambda>v. mi_into_integer v field) (map_of d (bstr ''private'')) = Inr p
    \<longleftrightarrow> (case map_of d (bstr ''private'') of None \<Rightarrow> p = None | Some v \<Rightarrow> \<exists>n. v = BInt n \<and> p = Some n)"
  "map_transpose (\<lambda>v. decode_files v field) o' = Inr fs
    \<longleftrightarrow> (case o' of None \<Rightarrow> fs = None | Some v \<Rightarrow> \<exists>vs gs. v = BList vs \<and> fs = Some gs \<and> list_all2 carries_file vs gs)"
  "map_transpose (\<lambda>v. decode_file_tree v field) o' = Inr ts
    \<longleftrightarrow> (case o' of None \<Rightarrow> ts = None | Some v \<Rightarrow> \<exists>t. ts = Some t \<and> carries_tree v t)"
  by (auto simp: map_transpose_eq_Inr mi_into_Inr decode_files_Inr decode_file_tree_Inr split: option.splits)

lemma private_field:
  "(case map_of d (bstr ''private'') of None \<Rightarrow> x = None | Some v \<Rightarrow> \<exists>n. v = BInt n \<and> x = Some (n \<noteq> 0))
    \<longleftrightarrow> (\<exists>p. map_transpose (\<lambda>v. mi_into_integer v field) (map_of d (bstr ''private'')) = Inr p
          \<and> x = map_option (\<lambda>n. n \<noteq> 0) p)"
  unfolding optional_field_taken by (auto split: option.splits)

lemma tree_field:
  "(case o' of None \<Rightarrow> x = default_file_tree | Some v \<Rightarrow> carries_tree v x)
    \<longleftrightarrow> (\<exists>p. map_transpose (\<lambda>v. decode_file_tree v field) o' = Inr p \<and> x = unwrap_or p default_file_tree)"
  unfolding optional_field_taken by (auto split: option.splits)

lemma files_field:
  "(case o' of None \<Rightarrow> x = None | Some v \<Rightarrow> \<exists>vs fs. v = BList vs \<and> x = Some fs \<and> list_all2 carries_file vs fs)
    \<longleftrightarrow> map_transpose (\<lambda>v. decode_files v field) o' = Inr x"
  unfolding optional_field_taken ..

lemma plain_field:
  "field_is BBytes b d k x \<longleftrightarrow> (\<exists>w. map_transpose (\<lambda>v. mi_into_bytes v field) (map_of d (bstr k)) = Inr w \<and> x = unwrap_or w b)"
  "field_is BInt n d k y \<longleftrightarrow> (\<exists>w. map_transpose (\<lambda>v. mi_into_integer v field) (map_of d (bstr k)) = Inr w \<and> y = unwrap_or w n)"
  using field_is_taken taken_field_is by metis+

lemma decode_info_Inr: "decode_info v = Inr i \<longleftrightarrow> carries_info v i"
proof (cases v)
  case (BDict d)
  show ?thesis
    unfolding BDict decode_info_BDict rbind_Inr carries_info.simps
      plain_field(2) [where n = 0 and d = d and k = "''piece length''" and field = "bstr ''info.piece length''"]
      plain_field(1) [where b = "[]" and d = d and k = "''pieces''" and field = "bstr ''info.pieces''"]
      plain_field(1) [where b = "[]" and d = d and k = "''name''" and field = "bstr ''info.name''"]
      plain_field(1) [where b = "[]" and d = d and k = "''name.utf-8''" and field = "bstr ''info.name.utf-8''"]
      plain_field(2) [where n = 0 and d = d and k = "''length''" and field = "bstr ''info.length''"]
      private_field [where d = d and field = "bstr ''info.private''"]
      plain_field(1) [where b = "[]" and d = d and k = "''source''" and field = "bstr ''info.source''"]
      files_field [where o' = "map_of d (bstr ''files'')" and field = "bstr ''info.files''"]
      plain_field(2) [where n = 0 and d = d and k = "''meta version''" and field = "bstr ''info.meta version''"]
      tree_field [where o' = "map_of d (bstr ''file tree'')" and field = "bstr ''info.file tree''"]
    by (cases i) auto
qed (simp_all add: decode_info_def)

section \<open>Lengths and offsets\<close>

text \<open>The leaves of a tree in order, with their paths.\<close>

fun leaves :: "path \<Rightarrow> file_tree \<Rightarrow> (path \<times> file_tree_file) list"
  and child_leaves :: "path \<Rightarrow> (bytes \<times> file_tree) list \<Rightarrow> (path \<times> file_tree_file) list" where
  "leaves p (FileTree f b children) = (if children \<noteq> [] then child_leaves p children else [(p, f)])"
| "child_leaves p [] = []"
| "child_leaves p ((name, child) # children) = leaves (p @ [name]) child @ child_leaves p children"

lemma collect_result_append:
  "collect_result (rs @ ss) = rbind (collect_result rs) (\<lambda>xs. rbind (collect_result ss) (\<lambda>ys. Inr (xs @ ys)))"
proof (induction rs)
  case Nil
  then show ?case
    by (cases "collect_result ss") simp_all
next
  case (Cons r rs)
  then show ?case
    by (cases r; cases "collect_result rs"; cases "collect_result ss") simp_all
qed

lemma collect_selected_files_leaves:
  "collect_selected_files t p files =
     rbind (collect_result (map (\<lambda>(p, f). selected_leaf f p) (leaves p t))) (\<lambda>s. Inr (files @ s))"
  "collect_children cs p files =
     rbind (collect_result (map (\<lambda>(p, f). selected_leaf f p) (child_leaves p cs))) (\<lambda>s. Inr (files @ s))"
proof (induction t p files and cs p files rule: collect_selected_files_collect_children.induct)
  case (1 f b children path files)
  then show ?case
    by (cases "selected_leaf f path") simp_all
next
  case (3 name child children path files)
  then show ?case
    by (cases "collect_result (map (\<lambda>(p, f). selected_leaf f p) (leaves (path @ [name]) child))";
        cases "collect_result (map (\<lambda>(p, f). selected_leaf f p) (child_leaves path children))")
      (simp_all add: collect_result_append)
qed simp

text \<open>The exact space a file takes: its length, rounded up to whole pieces in a v2 dictionary.\<close>

definition aligned_up :: "int \<Rightarrow> int \<Rightarrow> int" where
  "aligned_up n w = (n + w - 1) div w * w"

definition advance_of :: "info \<Rightarrow> selected_file \<Rightarrow> int" where
  "advance_of i f = (if has_v2 i then aligned_up (sint (sf_length f)) (sint (in_piece_length i)) else sint (sf_length f))"

lemma aligned_up_bounds:
  assumes "0 < w"
  shows "n \<le> aligned_up n w" and "aligned_up n w < n + w" and "w dvd aligned_up n w"
proof -
  have "n + w - 1 = aligned_up n w + (n + w - 1) mod w"
    by (simp add: aligned_up_def)
  then show "n \<le> aligned_up n w" "aligned_up n w < n + w"
    using pos_mod_bound [OF assms, of "n + w - 1"] pos_mod_sign [OF assms, of "n + w - 1"] by auto
  show "w dvd aligned_up n w"
    by (simp add: aligned_up_def)
qed

lemma aligned_up_div:
  assumes "0 < w" and "0 \<le> n"
  shows "aligned_up n w = (n div w + (if n mod w \<noteq> 0 then 1 else 0)) * w"
proof -
  have "(n + w - 1) div w = n div w + (if n mod w \<noteq> 0 then 1 else 0)"
    by (rule int_div_pos_eq [where r = "if n mod w \<noteq> 0 then n mod w - 1 else w - 1"])
      (use assms pos_mod_bound [OF assms(1), of n] pos_mod_sign [OF assms(1), of n] mult_div_mod_eq [of w n]
       in \<open>auto simp: algebra_simps\<close>)
  then show ?thesis
    by (simp add: aligned_up_def)
qed

lemma sdiv_smod_pos:
  fixes n w :: int
  assumes "0 \<le> n" and "0 < w"
  shows "n sdiv w = n div w" and "n smod w = n mod w"
  using assms by (simp_all add: signed_divide_int_def signed_modulo_int_def sgn_if)

lemma checked_piece_aligned_length_exact:
  assumes "0 \<le> sint n" and "0 < sint w"
  shows "checked_piece_aligned_length n w =
    (if in_i64 (aligned_up (sint n) (sint w)) then Some (word_of_int (aligned_up (sint n) (sint w))) else None)"
proof -
  let ?c = "if sint n mod sint w \<noteq> 0 then 1 else 0 :: int"
  have q: "0 \<le> sint n div sint w" "sint n div sint w \<le> sint n"
    using assms zdiv_mono2 [of "sint n" 1 "sint w"] by (simp_all add: pos_imp_zdiv_nonneg_iff)
  have "sint n div sint w + ?c \<le> 2 ^ 63 - 1"
  proof (cases "sint w = 1")
    case False
    then have "sint n div sint w \<le> sint n div 2"
      using assms by (intro zdiv_mono2) auto
    then show ?thesis
      using sint_lt [of n] by auto
  qed (use q sint_lt [of n] in auto)
  then have r: "in_i64 (sint n div sint w)" "in_i64 (sint n div sint w + ?c)"
    using q sint_lt [of n] by (auto simp: in_i64_def)
  let ?p = "word_of_int (sint n div sint w) :: i64" and ?d = "if sint n mod sint w \<noteq> 0 then 1 else 0 :: i64"
  have p: "sint ?p = sint n div sint w" "sint ?d = ?c"
    using r(1) by (simp_all add: sint_word_of_int_i64)
  have s: "sint (?p + ?d) = sint n div sint w + ?c"
    using r(2) i64_checked_add_Some [of ?p ?d "?p + ?d"] p by (simp add: i64_checked_add_def)
  have "(?p + ?d) * w = word_of_int (aligned_up (sint n) (sint w))" if "in_i64 (aligned_up (sint n) (sint w))"
    using that i64_checked_mul_Some [of "?p + ?d" w "(?p + ?d) * w"] s
    by (intro signed_word_eqI) (simp add: i64_checked_mul_def aligned_up_div assms sint_word_of_int_i64)
  then show ?thesis
    using assms r p s
    by (simp add: checked_piece_aligned_length_def i64_checked_div_def i64_checked_add_def i64_checked_mul_def
        sdiv_smod_pos aligned_up_div)
qed

text \<open>What the selection guarantees of a file.\<close>

definition selected_ok :: "info \<Rightarrow> selected_file \<Rightarrow> bool" where
  "selected_ok i f \<longleftrightarrow> 0 \<le> sint (sf_length f) \<and> (has_v2 i \<longrightarrow> 0 < sint (in_piece_length i))"

lemma advance_nonneg: "selected_ok i f \<Longrightarrow> 0 \<le> advance_of i f"
  using aligned_up_bounds(1) [of "sint (in_piece_length i)" "sint (sf_length f)"]
  by (auto simp: selected_ok_def advance_of_def)

lemma length_le_advance: "selected_ok i f \<Longrightarrow> sint (sf_length f) \<le> advance_of i f"
  using aligned_up_bounds(1) [of "sint (in_piece_length i)" "sint (sf_length f)"]
  by (auto simp: selected_ok_def advance_of_def)

lemma file_advance_exact:
  assumes "selected_ok i f"
  shows "file_advance i f =
    (if advance_of i f < 2 ^ 63 then Inr (word_of_int (advance_of i f)) else Inl (TorrentOffsetOverflow (sf_path f)))"
  using assms advance_nonneg [OF assms] sint_lt [of "sf_length f"]
  by (auto simp: file_advance_def advance_of_def selected_ok_def checked_piece_aligned_length_exact in_i64_def)

lemma selected_leaf_Inr:
  "selected_leaf f p = Inr s \<Longrightarrow> 0 \<le> sint (sf_length s)"
  by (auto simp: selected_leaf_def rbind_Inr split: if_splits)

lemma selected_files_ok:
  assumes "selected_files i = Inr sel" and "f \<in> set sel"
  shows "selected_ok i f"
proof (cases "has_v2 i")
  case True
  then have pl: "0 < sint (in_piece_length i)"
    and "collect_result (map (\<lambda>(p, f). selected_leaf f p) (leaves [] (in_file_tree i))) = Inr sel"
    using assms(1) by (auto simp: selected_files_def collect_selected_files_leaves rbind_Inr split: if_splits)
  then have "list_all2 (\<lambda>l s. selected_leaf (snd l) (fst l) = Inr s) (leaves [] (in_file_tree i)) sel"
    by (subst (asm) collect_children_Inr [where R = "\<lambda>l s. selected_leaf (snd l) (fst l) = Inr s"]) (auto split: prod.splits)
  then show ?thesis
    using assms(2) pl by (auto simp: selected_ok_def in_set_conv_nth list_all2_conv_all_nth dest: selected_leaf_Inr)
next
  case False
  show ?thesis
  proof (cases "filter_opt (\<lambda>fs. fs \<noteq> []) (in_files i)")
    case None
    then show ?thesis
      using assms False by (auto simp: selected_files_def rbind_Inr selected_v1_def selected_ok_def split: if_splits)
  next
    case (Some fs)
    then have "list_all2 (\<lambda>f s. selected_v1 (if_length f) (if_path f) (if_path_utf8 f) = Inr s) fs sel"
      using assms(1) False
      by (simp add: selected_files_def collect_children_Inr [where R = "\<lambda>f s. selected_v1 (if_length f) (if_path f) (if_path_utf8 f) = Inr s"])
    then show ?thesis
      using assms(2) False
      by (auto simp: selected_ok_def in_set_conv_nth list_all2_conv_all_nth selected_v1_def split: if_splits) (metis selected_file.select_convs(1) not_less)
  qed
qed

text \<open>The exact offset of a file, and the normalised files placed one after the other.\<close>

definition offset_of :: "info \<Rightarrow> selected_file list \<Rightarrow> nat \<Rightarrow> int" where
  "offset_of i sel k = sum_list (map (advance_of i) (take k sel))"

definition normalized :: "selected_file \<Rightarrow> i64 \<Rightarrow> normalized_file" where
  "normalized f offset = \<lparr>nf_length = sf_length f, nf_path = sf_path f, nf_path_utf8 = sf_path_utf8 f,
     nf_pieces_root = sf_pieces_root f, nf_torrent_offset = offset\<rparr>"

fun placed :: "info \<Rightarrow> selected_file list \<Rightarrow> i64 \<Rightarrow> normalized_file list" where
  "placed i [] offset = []"
| "placed i (f # sel) offset = normalized f offset # placed i sel (offset + word_of_int (advance_of i f))"

lemma offset_of_Cons [simp]: "offset_of i (f # sel) (Suc k) = advance_of i f + offset_of i sel k"
  by (simp add: offset_of_def)

lemma offset_of_0 [simp]: "offset_of i sel 0 = 0"
  by (simp add: offset_of_def)

lemma offset_of_Suc: "k < length sel \<Longrightarrow> offset_of i sel (Suc k) = offset_of i sel k + advance_of i (sel ! k)"
  by (simp add: offset_of_def take_Suc_conv_app_nth)

lemma offset_of_nonneg: "(\<And>f. f \<in> set sel \<Longrightarrow> selected_ok i f) \<Longrightarrow> 0 \<le> offset_of i sel k"
  unfolding offset_of_def by (rule sum_list_nonneg) (auto dest!: in_set_takeD intro: advance_nonneg)

lemma checked_advance:
  assumes "selected_ok i f" and "0 \<le> sint offset" and "sint offset + advance_of i f < 2 ^ 63"
  shows "i64_checked_add offset (word_of_int (advance_of i f)) = Some (offset + word_of_int (advance_of i f))"
    and "sint (offset + word_of_int (advance_of i f)) = sint offset + advance_of i f"
proof -
  have "sint (word_of_int (advance_of i f) :: i64) = advance_of i f"
    using assms advance_nonneg [OF assms(1)] by (intro sint_word_of_int_i64) (auto simp: in_i64_def)
  moreover have "in_i64 (sint offset + advance_of i f)"
    using assms advance_nonneg [OF assms(1)] by (auto simp: in_i64_def)
  ultimately show "i64_checked_add offset (word_of_int (advance_of i f)) = Some (offset + word_of_int (advance_of i f))"
    and "sint (offset + word_of_int (advance_of i f)) = sint offset + advance_of i f"
    using i64_checked_add_Some [of offset "word_of_int (advance_of i f)" "offset + word_of_int (advance_of i f)"]
    by (simp_all add: i64_checked_add_def)
qed

lemma upvert_loop_placed:
  assumes "\<And>f. f \<in> set sel \<Longrightarrow> selected_ok i f" and "0 \<le> sint offset"
    and "sint offset + offset_of i sel (length sel) < 2 ^ 63"
  shows "upvert_loop i sel offset files = Inr (files @ placed i sel offset)
    \<and> (\<forall>k<length sel. \<exists>w. placed i sel offset ! k = normalized (sel ! k) w \<and> sint w = sint offset + offset_of i sel k)"
  using assms
proof (induction sel arbitrary: offset files)
  case (Cons f sel)
  then have f: "selected_ok i f" and fits: "sint offset + advance_of i f < 2 ^ 63" "advance_of i f < 2 ^ 63"
    using offset_of_nonneg [of sel i "length sel"] by fastforce+
  note add = checked_advance [OF f Cons.prems(2) fits(1)]
  then show ?case
    using Cons.IH [of "offset + word_of_int (advance_of i f)"] Cons.prems f fits advance_nonneg [OF f]
    by (auto simp: file_advance_exact normalized_def add.assoc less_Suc_eq_0_disj)
qed simp

lemma upvert_loop_overflow:
  assumes "\<And>f. f \<in> set sel \<Longrightarrow> selected_ok i f" and "0 \<le> sint offset" and "k < length sel"
    and "sint offset + offset_of i sel k < 2 ^ 63" and "2 ^ 63 \<le> sint offset + offset_of i sel (Suc k)"
  shows "upvert_loop i sel offset files = Inl (TorrentOffsetOverflow (sf_path (sel ! k)))"
  using assms
proof (induction sel arbitrary: offset files k)
  case (Cons f sel)
  then have f: "selected_ok i f"
    by simp
  show ?case
  proof (cases k)
    case 0
    have "i64_checked_add offset (word_of_int (advance_of i f)) = None" if "advance_of i f < 2 ^ 63"
      using that Cons.prems(5) 0 advance_nonneg [OF f]
      by (simp add: i64_checked_add_def sint_word_of_int_i64 in_i64_def)
    then show ?thesis
      using 0 f by (simp add: file_advance_exact)
  next
    case (Suc m)
    then have fits: "sint offset + advance_of i f < 2 ^ 63" "advance_of i f < 2 ^ 63"
      using Cons.prems offset_of_nonneg [of sel i m] by fastforce+
    note add = checked_advance [OF f Cons.prems(2) fits(1)]
    then show ?thesis
      using Cons.IH [of "offset + word_of_int (advance_of i f)" m] Cons.prems f fits advance_nonneg [OF f] Suc
      by (simp add: file_advance_exact add.assoc)
  qed
qed simp

abbreviation lengths_upto :: "selected_file list \<Rightarrow> nat \<Rightarrow> int" where
  "lengths_upto sel k \<equiv> sum_list (map (\<lambda>f. sint (sf_length f)) (take k sel))"

lemma lengths_nonneg:
  "(\<And>f. f \<in> set sel \<Longrightarrow> 0 \<le> sint (sf_length f)) \<Longrightarrow> 0 \<le> lengths_upto sel k"
  by (rule sum_list_nonneg) (auto dest!: in_set_takeD)

lemma checked_total:
  assumes "0 \<le> sint (sf_length f)" and "0 \<le> sint t" and "sint t + sint (sf_length f) < 2 ^ 63"
  shows "i64_checked_add t (sf_length f) = Some (t + sf_length f)" and "sint (t + sf_length f) = sint t + sint (sf_length f)"
  using assms i64_checked_add_Some [of t "sf_length f" "t + sf_length f"]
  by (auto simp: i64_checked_add_def in_i64_def)

lemma total_loop_sum:
  assumes "\<And>f. f \<in> set sel \<Longrightarrow> 0 \<le> sint (sf_length f)" and "0 \<le> sint t"
    and "sint t + lengths_upto sel (length sel) < 2 ^ 63"
  shows "\<exists>n. total_loop sel t = Inr n \<and> sint n = sint t + lengths_upto sel (length sel)"
  using assms
proof (induction sel arbitrary: t)
  case (Cons f sel)
  then have f: "0 \<le> sint (sf_length f)" "sint t + sint (sf_length f) < 2 ^ 63"
    using lengths_nonneg [of sel "length sel"] by fastforce+
  with Cons.IH [of "t + sf_length f"] Cons.prems checked_total [OF f(1) Cons.prems(2) f(2)] show ?case
    by (simp add: add.assoc)
qed simp

lemma total_loop_overflow:
  assumes "\<And>f. f \<in> set sel \<Longrightarrow> 0 \<le> sint (sf_length f)" and "0 \<le> sint t" and "k < length sel"
    and "sint t + lengths_upto sel k < 2 ^ 63" and "2 ^ 63 \<le> sint t + lengths_upto sel (Suc k)"
  shows "total_loop sel t = Inl (TotalLengthOverflow (sf_path (sel ! k)))"
  using assms
proof (induction sel arbitrary: t k)
  case (Cons f sel)
  show ?case
  proof (cases k)
    case 0
    with Cons show ?thesis
      by (simp add: i64_checked_add_def in_i64_def)
  next
    case (Suc m)
    then have f: "0 \<le> sint (sf_length f)" "sint t + sint (sf_length f) < 2 ^ 63"
      using Cons.prems lengths_nonneg [of sel m] by fastforce+
    with Cons checked_total [OF f(1) Cons.prems(2) f(2)] Suc show ?thesis
      by (simp add: add.assoc)
  qed
qed simp

section \<open>Errors of the decoding\<close>

text \<open>A value that is not read is reported as an invalid field, never as a wrong hash.\<close>

definition field_errors :: "parse_info_error + 'a \<Rightarrow> bool" where
  "field_errors r \<longleftrightarrow> (\<forall>e. r = Inl e \<longrightarrow> (\<exists>field expected. e = InvalidField field expected))"

lemma field_errors_steps [intro!]:
  "field_errors (Inr x)"
  "field_errors (mi_into_dict v field)" "field_errors (mi_into_list v field)"
  "field_errors (mi_into_bytes v field)" "field_errors (mi_into_integer v field)"
  by (cases v; simp add: field_errors_def invalid_field_def)+

lemma field_errors_rbind [intro!]:
  "\<lbrakk>field_errors r; \<And>x. r = Inr x \<Longrightarrow> field_errors (f x)\<rbrakk> \<Longrightarrow> field_errors (rbind r f)"
  by (cases r) (simp_all add: field_errors_def)

lemma field_errors_map_transpose [intro!]:
  "(\<And>x. v = Some x \<Longrightarrow> field_errors (f x)) \<Longrightarrow> field_errors (map_transpose f v)"
  by (cases v) auto

lemma field_errors_collect [intro!]:
  "(\<And>r. r \<in> set rs \<Longrightarrow> field_errors r) \<Longrightarrow> field_errors (collect_result rs)"
proof (induction rs)
  case (Cons r rs)
  then show ?case
    by (cases r; cases "collect_result rs") (fastforce simp: field_errors_def)+
qed auto

lemma field_errors_decode [intro!]:
  "field_errors (decode_byte_list v field)" "field_errors (decode_file prefix v)"
  "field_errors (decode_files v field)" "field_errors (decode_file_tree_file v field)"
  by (auto simp: decode_byte_list_def decode_file_def decode_files_def decode_file_tree_file_def
      take_integer_def take_bytes_def take_value_def Let_def split: prod.splits)

lemma field_errors_tree [intro!]: "field_errors (decode_file_tree v field)"
proof (induction v field rule: decode_file_tree.induct)
  case (1 v field)
  then show ?case
    unfolding decode_file_tree.simps [of v] by (fastforce intro!: field_errors_rbind field_errors_collect)
qed

lemma field_errors_info [intro!]: "field_errors (decode_info v)"
  by (auto simp: decode_info_def take_integer_def take_bytes_def take_value_def Let_def split: prod.splits)

section \<open>Properties\<close>

text \<open>
  (C29)
  Verified metadata: \<open>parse_info_bytes\<close> succeeds exactly when the requested hash is the SHA-1 hash
  of the bytes or the first twenty bytes of their SHA-256 hash, the bytes decode to one value with
  nothing after it, and that value carries the fields of the result; bytes with another hash are
  rejected as such whatever they decode to. The result names the SHA-1 hash for a v1 dictionary
  and the SHA-256 hash for a v2 one, and nothing else.
\<close>

theorem parse_info_bytes_exact:
  "(parse_info_bytes sha1 sha256 next_value has_trailing requested raw = Inl WrongHash
     \<longleftrightarrow> requested \<noteq> sha1 raw \<and> requested \<noteq> take 20 (sha256 raw))
   \<and> (parse_info_bytes sha1 sha256 next_value has_trailing requested raw = Inr p
     \<longleftrightarrow> (requested = sha1 raw \<or> requested = take 20 (sha256 raw))
        \<and> (\<exists>v. next_value 64 raw = Inr (Some v) \<and> has_trailing 64 raw = Inr False \<and> carries_info v (pi_info p))
        \<and> pi_info_hash_v1 p = (if has_v1 (pi_info p) then Some (sha1 raw) else None)
        \<and> pi_info_hash_v2 p = (if has_v2 (pi_info p) then Some (sha256 raw) else None)
        \<and> pi_meta_version p = (if has_v2 (pi_info p) then V2 else V1))"
proof (cases "requested \<noteq> sha1 raw \<and> requested \<noteq> take 20 (sha256 raw)")
  case False
  let ?r = "rbind (map_err InfoBencode (next_value 64 raw)) (\<lambda>object.
        case object of
          None \<Rightarrow> Inl EmptyInfo
        | Some v \<Rightarrow>
            rbind (map_err InfoBencode (has_trailing 64 raw)) (\<lambda>trailing.
              if trailing then Inl TrailingObject
              else rbind (decode_info v) (\<lambda>info.
                Inr \<lparr>pi_info = info, pi_meta_version = (if has_v2 info then V2 else V1),
                     pi_info_hash_v1 = (if has_v1 info then Some (sha1 raw) else None),
                     pi_info_hash_v2 = (if has_v2 info then Some (sha256 raw) else None)\<rparr>)))"
  have parse: "parse_info_bytes sha1 sha256 next_value has_trailing requested raw = ?r"
    by (simp only: parse_info_bytes_def Let_def if_not_P [OF False])
  have "?r \<noteq> Inl WrongHash"
  proof -
    have "decode_info v \<noteq> Inl WrongHash" for v
      using field_errors_info [of v] by (auto simp: field_errors_def)
    then have "rbind (decode_info v) (\<lambda>i. Inr (g i)) \<noteq> Inl WrongHash" for v and g :: "info \<Rightarrow> parsed_info"
      by (cases "decode_info v") auto
    then show ?thesis
      by (cases "next_value 64 raw"; cases "has_trailing 64 raw") (auto split: option.split)
  qed
  moreover have "?r = Inr p \<longleftrightarrow>
      (\<exists>v. next_value 64 raw = Inr (Some v) \<and> has_trailing 64 raw = Inr False \<and> carries_info v (pi_info p))
        \<and> pi_info_hash_v1 p = (if has_v1 (pi_info p) then Some (sha1 raw) else None)
        \<and> pi_info_hash_v2 p = (if has_v2 (pi_info p) then Some (sha256 raw) else None)
        \<and> pi_meta_version p = (if has_v2 (pi_info p) then V2 else V1)"
    by (cases p) (auto simp: rbind_Inr decode_info_Inr split: option.split if_splits)
  ultimately show ?thesis
    using False unfolding parse by blast
qed (simp add: parse_info_bytes_def)

text \<open>
  (C30)
  The files of a dictionary: in a v2 dictionary they are the leaves of its tree in order, each
  with its path. The offset of a file is the sum of the lengths before it, each rounded up to
  whole pieces in a v2 dictionary, so that files never overlap; the total is the sum of the
  lengths. Both are computed exactly: the first file past which a sum does not fit in 63 bits is
  reported, and no offset or total ever wraps.
\<close>

theorem upverted_files_exact:
  assumes "selected_files i = Inr sel"
  shows "(has_v2 i \<longrightarrow> list_all2 (\<lambda>(p, f) s. selected_leaf f p = Inr s) (leaves [] (in_file_tree i)) sel)
    \<and> (offset_of i sel (length sel) < 2 ^ 63 \<longrightarrow>
        (\<exists>files. upverted_files i = Inr files \<and> length files = length sel
          \<and> (\<forall>k<length sel. \<exists>w. files ! k = normalized (sel ! k) w \<and> sint w = offset_of i sel k
              \<and> sint w + sint (sf_length (sel ! k)) \<le> offset_of i sel (Suc k)
              \<and> (has_v2 i \<longrightarrow> sint (in_piece_length i) dvd sint w))))
    \<and> (\<forall>k<length sel. offset_of i sel k < 2 ^ 63 \<longrightarrow> 2 ^ 63 \<le> offset_of i sel (Suc k) \<longrightarrow>
        upverted_files i = Inl (TorrentOffsetOverflow (sf_path (sel ! k))))
    \<and> (lengths_upto sel (length sel) < 2 ^ 63 \<longrightarrow>
        (\<exists>n. total_length i = Inr n \<and> sint n = lengths_upto sel (length sel)))
    \<and> (\<forall>k<length sel. lengths_upto sel k < 2 ^ 63 \<longrightarrow> 2 ^ 63 \<le> lengths_upto sel (Suc k) \<longrightarrow>
        total_length i = Inl (TotalLengthOverflow (sf_path (sel ! k))))"
proof -
  have ok: "\<And>f. f \<in> set sel \<Longrightarrow> selected_ok i f"
    using selected_files_ok [OF assms] .
  then have nonneg: "\<And>f. f \<in> set sel \<Longrightarrow> 0 \<le> sint (sf_length f)"
    by (simp add: selected_ok_def)
  have run: "upverted_files i = upvert_loop i sel 0 []" "total_length i = total_loop sel 0"
    using assms by (simp_all add: upverted_files_def total_length_def)
  have piece: "sint (in_piece_length i) dvd offset_of i sel k" if "has_v2 i" for k
  proof -
    have "sint (in_piece_length i) dvd advance_of i f" for f
      using that by (simp add: advance_of_def aligned_up_def)
    then show ?thesis
      unfolding offset_of_def by (induction sel arbitrary: k) (case_tac k; simp)+
  qed
  have "list_all2 (\<lambda>(p, f) s. selected_leaf f p = Inr s) (leaves [] (in_file_tree i)) sel" if "has_v2 i"
    using assms that
    by (auto simp: selected_files_def collect_selected_files_leaves rbind_Inr split: if_splits)
      (subst (asm) collect_children_Inr [where R = "\<lambda>(p, f) s. selected_leaf f p = Inr s"]; auto)
  moreover have "\<exists>files. upverted_files i = Inr files \<and> length files = length sel
      \<and> (\<forall>k<length sel. \<exists>w. files ! k = normalized (sel ! k) w \<and> sint w = offset_of i sel k
          \<and> sint w + sint (sf_length (sel ! k)) \<le> offset_of i sel (Suc k)
          \<and> (has_v2 i \<longrightarrow> sint (in_piece_length i) dvd sint w))"
    if "offset_of i sel (length sel) < 2 ^ 63"
  proof -
    have len: "length (placed i sel w) = length sel" for w
      by (induction sel arbitrary: w) simp_all
    have "sint (sf_length (sel ! k)) \<le> advance_of i (sel ! k)" if "k < length sel" for k
      using that ok by (simp add: length_le_advance)
    with upvert_loop_placed [of sel i 0 "[]"] that ok piece show ?thesis
      by (simp add: run len offset_of_Suc) fastforce
  qed
  ultimately show ?thesis
    using upvert_loop_overflow [of sel i 0] total_loop_sum [of sel 0] total_loop_overflow [of sel 0] ok nonneg
    by (simp add: run)
qed

definition example_info :: info where
  "example_info = \<lparr>in_piece_length = 16384, in_pieces = [], in_name = bstr ''example'', in_name_utf8 = [],
     in_length = 0, in_private = None, in_source = [], in_files = None, in_raw_meta_version = 2,
     in_file_tree = FileTree default_file_tree_file False
       [(bstr ''a'', FileTree \<lparr>ftf_length = 100, ftf_pieces_root = []\<rparr> True []),
        (bstr ''b'', FileTree \<lparr>ftf_length = 16385, ftf_pieces_root = []\<rparr> True []),
        (bstr ''c'', FileTree \<lparr>ftf_length = 1, ftf_pieces_root = []\<rparr> True [])]\<rparr>"

theorem upverted_files_exact_witness:
  "\<exists>sel files n. selected_files example_info = Inr sel \<and> upverted_files example_info = Inr files
    \<and> map (\<lambda>f. sint (nf_torrent_offset f)) files = [0, 16384, 49152]
    \<and> total_length example_info = Inr n \<and> sint n = 16486"
proof -
  define sel where "sel = [\<lparr>sf_length = 100, sf_path = [bstr ''a''], sf_path_utf8 = [bstr ''a''], sf_pieces_root = None\<rparr>,
    \<lparr>sf_length = 16385, sf_path = [bstr ''b''], sf_path_utf8 = [bstr ''b''], sf_pieces_root = None\<rparr>,
    \<lparr>sf_length = 1, sf_path = [bstr ''c''], sf_path_utf8 = [bstr ''c''], sf_pieces_root = None\<rparr>]"
  have sel: "selected_files example_info = Inr sel"
    by (simp add: selected_files_def example_info_def has_v2_def selected_leaf_def sel_def)
  have off: "map (offset_of example_info sel) [0..<3] = [0, 16384, 49152]" "offset_of example_info sel 3 = 65536"
    by (simp_all add: offset_of_def sel_def advance_of_def has_v2_def example_info_def aligned_up_def upt_rec)
  have len: "length sel = 3" "lengths_upto sel 3 = 16486"
    by (simp_all add: sel_def)
  obtain files where files: "upverted_files example_info = Inr files" "length files = 3"
    "\<forall>k<3. \<exists>w. files ! k = normalized (sel ! k) w \<and> sint w = offset_of example_info sel k"
    using upverted_files_exact [OF sel] off(2) len by simp blast
  have "map (\<lambda>f. sint (nf_torrent_offset f)) files = map (offset_of example_info sel) [0..<3]"
    using files(2,3) by (intro nth_equalityI) (auto simp: normalized_def)
  moreover obtain n where "total_length example_info = Inr n" "sint n = 16486"
    using upverted_files_exact [OF sel] len by auto
  ultimately show ?thesis
    using sel files(1) off(1) by simp
qed

text \<open>The display path of a v1 file: the name of a single file, the path joined with slashes otherwise.\<close>

fun joined :: "path \<Rightarrow> bytes" where
  "joined [] = []"
| "joined [c] = c"
| "joined (c # d # cs) = c @ bstr ''/'' @ joined (d # cs)"

definition display_path :: "info \<Rightarrow> info_file \<Rightarrow> bytes" where
  "display_path i f = (if info_is_dir i then joined (if_best_path f) else best_name i)"

lemma invalid_joined: "invalid_utf8_or_nul (joined cs) \<longleftrightarrow> list_ex invalid_utf8_or_nul cs"
proof (induction cs rule: joined.induct)
  case (3 c d cs)
  have "invalid_utf8_or_nul (c @ 0x2F # v) \<longleftrightarrow> invalid_utf8_or_nul c \<or> invalid_utf8_or_nul v" for v
    using utf8_valid_ascii [of "0x2F" c v] by (auto simp: invalid_utf8_or_nul_def)
  with 3 show ?case
    by (simp add: bstr_def)
qed (simp_all add: invalid_utf8_or_nul_def utf8_valid.simps)

text \<open>
  The default banning policy: a dictionary passes exactly when its name has at least eight bytes,
  its files have a total length of at least 1024, and its name and the display path of each of its
  v1 files are valid UTF-8 without a zero byte. Checking the components of a path one by one
  decides the same as checking the path joined with slashes. A rejection lists the reasons that
  hold, each once, in the order name, size, UTF-8.
\<close>

theorem check_default_banning_exact:
  "(check_default_banning i = Inr () \<longleftrightarrow>
      8 \<le> length (best_name i) \<and> (\<exists>n. total_length i = Inr n \<and> 1024 \<le> sint n)
      \<and> \<not> invalid_utf8_or_nul (best_name i)
      \<and> (case in_files i of None \<Rightarrow> True | Some files \<Rightarrow> list_all (\<lambda>f. \<not> invalid_utf8_or_nul (display_path i f)) files))
   \<and> (check_default_banning i = Inl r \<longleftrightarrow> dbr_issues r \<noteq> []
      \<and> dbr_issues r =
          (if length (best_name i) < 8 then [NameTooShort] else [])
          @ (case total_length i of Inl e \<Rightarrow> [InvalidFileProjection e] | Inr n \<Rightarrow> if sint n < 1024 then [SizeTooSmall] else [])
          @ (if invalid_utf8_or_nul (best_name i)
                \<or> (case in_files i of None \<Rightarrow> False | Some files \<Rightarrow> list_ex (\<lambda>f. invalid_utf8_or_nul (display_path i f)) files)
             then [InvalidUtf8] else []))"
proof -
  have path: "invalid_v1_display_path i = (\<lambda>f. invalid_utf8_or_nul (display_path i f))"
    by (auto simp: invalid_v1_display_path_def display_path_def invalid_joined)
  then show ?thesis
    by (cases r; cases "total_length i"; cases "in_files i")
      (auto simp: check_default_banning_def has_invalid_default_utf8_def list_ex_iff list_all_iff)
qed

end
