(* ===== verification/Peer_Wire.thy ===== *)
theory Peer_Wire
  imports Metainfo Compact
begin

text \<open>
  \<open>bitmagnet-dht-crawler/src/peer_wire_meta_info_requester.rs\<close>: the download of an info dictionary
  from a peer. The connection is a record of what the peer sends before the stream ends, of the
  outcomes of the writes, and of what was written; every run of the requester sees one such
  connection. A step returns \<open>None\<close> for a panic, an error, or its result with the connection it
  leaves. The bencode decoder of the external crate is an argument.
\<close>

section \<open>Constants and errors\<close>

abbreviation MAX_METADATA_SIZE :: nat where "MAX_METADATA_SIZE \<equiv> 10 * 1024 * 1024"
abbreviation METADATA_PIECE_SIZE :: nat where "METADATA_PIECE_SIZE \<equiv> 16 * 1024"
abbreviation LOCAL_UT_METADATA_ID :: u8 where "LOCAL_UT_METADATA_ID \<equiv> 1"
abbreviation HANDSHAKE_SIZE :: nat where "HANDSHAKE_SIZE \<equiv> 68"
abbreviation MAX_BENCODE_NESTING_DEPTH :: nat where "MAX_BENCODE_NESTING_DEPTH \<equiv> 64"
abbreviation EXTENDED_MESSAGE_ID :: u8 where "EXTENDED_MESSAGE_ID \<equiv> 20"
abbreviation EXTENSION_HANDSHAKE_ID :: u8 where "EXTENSION_HANDSHAKE_ID \<equiv> 0"

definition METAINFO_PEER_ID_CLIENT_PREFIX :: bytes where
  "METAINFO_PEER_ID_CLIENT_PREFIX = bstr ''-BM0001-''"

definition PROTOCOL :: bytes where
  "PROTOCOL = 0x13 # bstr ''BitTorrent protocol''"

definition ADVERTISED_EXTENSION_BITS :: bytes where
  "ADVERTISED_EXTENSION_BITS = [0, 0, 0, 0, 0, 0x10, 0, 0x01]"

definition EXTENSION_HANDSHAKE_REQUEST :: bytes where
  "EXTENSION_HANDSHAKE_REQUEST = [0x00, 0x00, 0x00, 0x1a, 0x14, 0x00] @ bstr ''d1:md11:ut_metadatai1eee''"

type_synonym socket_addr_v4 = "ipv4_addr \<times> u16"

datatype requester_stage =
  BitTorrentHandshakeWrite
| BitTorrentHandshakeRead
| ExtensionHandshakeWrite
| MessageLengthRead
| MessageBodyRead
| MetadataRequestWrite

datatype ('io, 'b) requester_error =
  UnsupportedAddressFamily socket_addr
| RequestTimeout socket_addr_v4 duration
| ConnectTimeout socket_addr_v4 duration
| Connect socket_addr_v4 'io
| SetNoDelay socket_addr_v4 'io
| SetLinger socket_addr_v4 'io
| Io socket_addr_v4 requester_stage 'io
| InvalidHandshakeProtocol
| ExtensionProtocolUnsupported
| InfoHashMismatch
| FirstExtensionMessageNotHandshake u8
| WireBencode 'b
| ProtocolBencode string
| MissingExtensionHandshakeField string
| InvalidIntegerType string
| InvalidIntegerValue string bytes
| InvalidMetadataSize i64
| InvalidRemoteUtMetadataId i64
| MessageTooLong nat
| MissingMetadataMessageField string
| MetadataRejected i64
| InvalidPieceIndex i64 nat
| DuplicatePiece nat
| InvalidPieceLength nat nat nat \<comment> \<open>piece, actual, expected\<close>
| MetadataTotalSizeMismatch i64 nat
| ParseFailed parse_info_error

record requester_config =
  rc_connect_timeout :: duration
  rc_request_timeout :: duration

definition default_requester_config :: requester_config where
  "default_requester_config = \<lparr>rc_connect_timeout = 3 * nanos_per_sec, rc_request_timeout = 6 * nanos_per_sec\<rparr>"

record meta_info_requester =
  rq_peer_id :: id20
  rq_config :: requester_config

definition requester_new :: "id20 \<Rightarrow> meta_info_requester" where
  "requester_new peer_id = \<lparr>rq_peer_id = peer_id, rq_config = default_requester_config\<rparr>"

text \<open>The peer identity: the client prefix, then random bytes. The random source may fail.\<close>

definition metainfo_peer_id_from_random_bytes :: "bytes \<Rightarrow> id20 option" where
  "metainfo_peer_id_from_random_bytes v =
     (case from_slice (METAINFO_PEER_ID_CLIENT_PREFIX @ drop (length METAINFO_PEER_ID_CLIENT_PREFIX) v) of
        Inr i \<Rightarrow> Some i | Inl _ \<Rightarrow> None)"

section \<open>The connection\<close>

record 'io conn =
  wc_in :: bytes
  wc_end :: 'io \<comment> \<open>the failure of a read past the bytes the peer sends\<close>
  wc_writes :: "'io option list" \<comment> \<open>the failures of the writes in order; the writes after them succeed\<close>
  wc_out :: bytes

type_synonym ('io, 'b, 'a) wire = "'io conn \<Rightarrow> (('io, 'b) requester_error + 'a \<times> 'io conn) option"

definition wbind :: "('io, 'b, 'a) wire \<Rightarrow> ('a \<Rightarrow> ('io, 'b, 'c) wire) \<Rightarrow> ('io, 'b, 'c) wire" where
  "wbind m f c = (case m c of
       None \<Rightarrow> None
     | Some (Inl e) \<Rightarrow> Some (Inl e)
     | Some (Inr (x, c')) \<Rightarrow> f x c')"

definition wret :: "'a \<Rightarrow> ('io, 'b, 'a) wire" where
  "wret x c = Some (Inr (x, c))"

definition wlift :: "('io, 'b) requester_error + 'a \<Rightarrow> ('io, 'b, 'a) wire" where
  "wlift r c = (case r of Inl e \<Rightarrow> Some (Inl e) | Inr x \<Rightarrow> Some (Inr (x, c)))"

abbreviation wfail :: "('io, 'b) requester_error \<Rightarrow> ('io, 'b, 'a) wire" where
  "wfail e \<equiv> wlift (Inl e)"

definition write_all :: "socket_addr_v4 \<Rightarrow> requester_stage \<Rightarrow> bytes \<Rightarrow> ('io, 'b, unit) wire" where
  "write_all peer stage v c =
     (case wc_writes c of
        Some e # ws \<Rightarrow> Some (Inl (Io peer stage e))
      | ws \<Rightarrow> Some (Inr ((), c\<lparr>wc_writes := tl ws, wc_out := wc_out c @ v\<rparr>)))"

definition read_exact :: "socket_addr_v4 \<Rightarrow> requester_stage \<Rightarrow> nat \<Rightarrow> ('io, 'b, bytes) wire" where
  "read_exact peer stage n c =
     (if n \<le> length (wc_in c)
      then Some (Inr (take n (wc_in c), c\<lparr>wc_in := drop n (wc_in c)\<rparr>))
      else Some (Inl (Io peer stage (wc_end c))))"

section \<open>The bencode decoder\<close>

text \<open>
  The objects of the streaming decoder. A dictionary yields its pairs in turn and then ends, or
  fails with the error of the malformed rest.
\<close>

datatype 'b bobject =
  OInteger bytes
| OBytes bytes
| OList
| ODict "(bytes \<times> 'b bobject) list" "'b option"

record 'b bendy =
  bd_next_object :: "nat \<Rightarrow> bytes \<Rightarrow> 'b + 'b bobject option"
  bd_has_trailing :: "nat \<Rightarrow> bytes \<Rightarrow> 'b + bool"
  bd_raw_length :: "nat \<Rightarrow> bytes \<Rightarrow> 'b + nat" \<comment> \<open>the length of the raw bytes of the first object\<close>

fun parse_integer :: "'b bobject \<Rightarrow> string \<Rightarrow> ('io, 'b) requester_error + i64" where
  "parse_integer (OInteger v) field =
     (case parse_i64 v of Some n \<Rightarrow> Inr n | None \<Rightarrow> Inl (InvalidIntegerValue field v))"
| "parse_integer _ field = Inl (InvalidIntegerType field)"

section \<open>Handshakes\<close>

definition handshake_request :: "id20 \<Rightarrow> id20 \<Rightarrow> bytes" where
  "handshake_request info_hash peer_id =
     PROTOCOL @ ADVERTISED_EXTENSION_BITS @ as_bytes info_hash @ as_bytes peer_id"

definition perform_bit_torrent_handshake ::
  "socket_addr_v4 \<Rightarrow> id20 \<Rightarrow> id20 \<Rightarrow> ('io, 'b, bytes) wire" where
  "perform_bit_torrent_handshake peer info_hash peer_id =
     wbind (write_all peer BitTorrentHandshakeWrite (handshake_request info_hash peer_id)) (\<lambda>_.
     wbind (read_exact peer BitTorrentHandshakeRead HANDSHAKE_SIZE) (\<lambda>response.
       if take 20 response \<noteq> PROTOCOL then wfail InvalidHandshakeProtocol
       else if response ! 25 AND 0x10 = 0 then wfail ExtensionProtocolUnsupported
       else if take 20 (drop 28 response) \<noteq> as_bytes info_hash then wfail InfoHashMismatch
       else wret (drop 48 response)))"

text \<open>\<open>u32::from_be_bytes\<close> read as a \<open>usize\<close>, and \<open>u32::to_be_bytes\<close>.\<close>

definition u32_from_be_bytes :: "bytes \<Rightarrow> nat" where
  "u32_from_be_bytes v = foldl (\<lambda>n b. n * 256 + unat b) 0 v"

definition u32_to_be_bytes :: "nat \<Rightarrow> bytes" where
  "u32_to_be_bytes n = [of_nat (n div 2 ^ 24), of_nat (n div 2 ^ 16), of_nat (n div 2 ^ 8), of_nat n]"

definition read_message :: "socket_addr_v4 \<Rightarrow> ('io, 'b, bytes) wire" where
  "read_message peer =
     wbind (read_exact peer MessageLengthRead 4) (\<lambda>length_bytes.
       let n = u32_from_be_bytes length_bytes in
       if n > MAX_METADATA_SIZE then wfail (MessageTooLong n)
       else read_exact peer MessageBodyRead n)"

lemma wbind_cong [fundef_cong]:
  "\<lbrakk>m c = m' c'; \<And>x d. m' c' = Some (Inr (x, d)) \<Longrightarrow> f x d = f' x d\<rbrakk> \<Longrightarrow> wbind m f c = wbind m' f' c'"
  by (auto simp: wbind_def split: option.split sum.split prod.split)

lemma wbind_Some_Inr:
  "wbind m f c = Some (Inr r) \<longleftrightarrow> (\<exists>x c'. m c = Some (Inr (x, c')) \<and> f x c' = Some (Inr r))"
  by (auto simp: wbind_def split: option.split sum.split prod.split)

lemma read_exact_Inr:
  "read_exact peer stage n c = Some (Inr (v, c')) \<longleftrightarrow>
     n \<le> length (wc_in c) \<and> v = take n (wc_in c) \<and> c' = c\<lparr>wc_in := drop n (wc_in c)\<rparr>"
  by (auto simp: read_exact_def)

lemma read_message_consumes:
  "read_message peer c = Some (Inr (m, c')) \<Longrightarrow> length (wc_in c') < length (wc_in c)"
  by (auto simp: read_message_def wbind_Some_Inr read_exact_Inr wlift_def Let_def split: if_splits)

record extension_handshake =
  eh_metadata_size :: nat
  eh_remote_ut_metadata_id :: u8

fun extension_pairs ::
  "'b option \<Rightarrow> (bytes \<times> 'b bobject) list \<Rightarrow> i64 option \<Rightarrow> ('io, 'b) requester_error + i64 option" where
  "extension_pairs fin [] ident = (case fin of None \<Rightarrow> Inr ident | Some e \<Rightarrow> Inl (WireBencode e))"
| "extension_pairs fin ((key, v) # pairs) ident =
     (if key = bstr ''ut_metadata''
      then rbind (parse_integer v ''m.ut_metadata'') (\<lambda>n. extension_pairs fin pairs (Some n))
      else extension_pairs fin pairs ident)"

fun handshake_pairs ::
  "'b option \<Rightarrow> (bytes \<times> 'b bobject) list \<Rightarrow> i64 option \<Rightarrow> i64 option
   \<Rightarrow> ('io, 'b) requester_error + i64 option \<times> i64 option" where
  "handshake_pairs fin [] msize ident = (case fin of None \<Rightarrow> Inr (msize, ident) | Some e \<Rightarrow> Inl (WireBencode e))"
| "handshake_pairs fin ((key, v) # pairs) msize ident =
     (if key = bstr ''metadata_size''
      then rbind (parse_integer v ''metadata_size'') (\<lambda>n. handshake_pairs fin pairs (Some n) ident)
      else if key = bstr ''m''
      then case v of
             ODict extensions efin \<Rightarrow>
               rbind (extension_pairs efin extensions ident) (\<lambda>ident. handshake_pairs fin pairs msize ident)
           | _ \<Rightarrow> Inl (ProtocolBencode ''extension handshake m must be a dictionary'')
      else handshake_pairs fin pairs msize ident)"

definition decode_extension_handshake ::
  "'b bendy \<Rightarrow> bytes \<Rightarrow> ('io, 'b) requester_error + extension_handshake" where
  "decode_extension_handshake bd payload =
     rbind (map_err WireBencode (bd_next_object bd MAX_BENCODE_NESTING_DEPTH payload)) (\<lambda>object.
     rbind (case object of
              None \<Rightarrow> Inl (ProtocolBencode ''empty extension handshake'')
            | Some (ODict pairs fin) \<Rightarrow> handshake_pairs fin pairs None None
            | Some _ \<Rightarrow> Inl (ProtocolBencode ''extension handshake root must be a dictionary''))
       (\<lambda>(metadata_size, ident).
     rbind (map_err WireBencode (bd_has_trailing bd MAX_BENCODE_NESTING_DEPTH payload)) (\<lambda>trailing.
       if trailing then Inl (ProtocolBencode ''trailing extension handshake object'')
       else rbind (case metadata_size of
                     None \<Rightarrow> Inl (MissingExtensionHandshakeField ''metadata_size'') | Some n \<Rightarrow> Inr n) (\<lambda>n.
            if \<not> (1 \<le> sint n \<and> sint n < int MAX_METADATA_SIZE) then Inl (InvalidMetadataSize n)
            else rbind (case ident of
                          None \<Rightarrow> Inl (MissingExtensionHandshakeField ''m.ut_metadata'') | Some i \<Rightarrow> Inr i) (\<lambda>i.
                 if 1 \<le> sint i \<and> sint i \<le> 254
                 then Inr \<lparr>eh_metadata_size = nat (sint n), eh_remote_ut_metadata_id = of_int (sint i)\<rparr>
                 else Inl (InvalidRemoteUtMetadataId i))))))"

function extension_loop :: "'b bendy \<Rightarrow> socket_addr_v4 \<Rightarrow> ('io, 'b, extension_handshake) wire" where
  "extension_loop bd peer c =
     wbind (read_message peer) (\<lambda>message c.
       if length message < 2 \<or> message ! 0 \<noteq> EXTENDED_MESSAGE_ID then extension_loop bd peer c
       else if message ! 1 \<noteq> EXTENSION_HANDSHAKE_ID
       then wfail (FirstExtensionMessageNotHandshake (message ! 1)) c
       else wlift (decode_extension_handshake bd (drop 2 message)) c) c"
  by pat_completeness auto
termination
  by (relation "measure (\<lambda>(bd, peer, c). length (wc_in c))") (auto simp: read_message_consumes)

declare extension_loop.simps [simp del]

definition perform_extension_handshake :: "'b bendy \<Rightarrow> socket_addr_v4 \<Rightarrow> ('io, 'b, extension_handshake) wire" where
  "perform_extension_handshake bd peer =
     wbind (write_all peer ExtensionHandshakeWrite EXTENSION_HANDSHAKE_REQUEST) (\<lambda>_. extension_loop bd peer)"

section \<open>Pieces\<close>

definition div_ceil :: "nat \<Rightarrow> nat \<Rightarrow> nat" where
  "div_ceil n d = n div d + (if 0 < n mod d then 1 else 0)"

text \<open>One request; a body that does not fit its length field is a panic.\<close>

definition piece_request :: "nat \<Rightarrow> u8 \<Rightarrow> bytes option" where
  "piece_request piece remote_ut_metadata_id =
     (let header = bstr ''d8:msg_typei0e5:piecei'' @ dec_bytes piece @ bstr ''ee'';
          body_length = 2 + length header
      in if body_length < 2 ^ 32
         then Some (u32_to_be_bytes body_length @ [EXTENDED_MESSAGE_ID, remote_ut_metadata_id] @ header)
         else None)"

fun request_pieces :: "socket_addr_v4 \<Rightarrow> u8 \<Rightarrow> nat list \<Rightarrow> ('io, 'b, unit) wire" where
  "request_pieces peer remote_ut_metadata_id [] = wret ()"
| "request_pieces peer remote_ut_metadata_id (piece # pieces) =
     (case piece_request piece remote_ut_metadata_id of
        None \<Rightarrow> (\<lambda>c. None)
      | Some frame \<Rightarrow>
          wbind (write_all peer MetadataRequestWrite frame) (\<lambda>_. request_pieces peer remote_ut_metadata_id pieces))"

definition request_all_pieces :: "socket_addr_v4 \<Rightarrow> nat \<Rightarrow> u8 \<Rightarrow> ('io, 'b, unit) wire" where
  "request_all_pieces peer metadata_size remote_ut_metadata_id =
     request_pieces peer remote_ut_metadata_id [0..<div_ceil metadata_size METADATA_PIECE_SIZE]"

record metadata_header =
  mh_message_type :: i64
  mh_piece :: i64
  mh_total_size :: "i64 option"

fun metadata_pairs ::
  "'b option \<Rightarrow> (bytes \<times> 'b bobject) list \<Rightarrow> i64 option \<Rightarrow> i64 option \<Rightarrow> i64 option
   \<Rightarrow> ('io, 'b) requester_error + i64 option \<times> i64 option \<times> i64 option" where
  "metadata_pairs fin [] message_type piece total_size =
     (case fin of None \<Rightarrow> Inr (message_type, piece, total_size) | Some e \<Rightarrow> Inl (WireBencode e))"
| "metadata_pairs fin ((key, v) # pairs) message_type piece total_size =
     (if key = bstr ''msg_type''
      then rbind (parse_integer v ''msg_type'') (\<lambda>n. metadata_pairs fin pairs (Some n) piece total_size)
      else if key = bstr ''piece''
      then rbind (parse_integer v ''piece'') (\<lambda>n. metadata_pairs fin pairs message_type (Some n) total_size)
      else if key = bstr ''total_size''
      then rbind (parse_integer v ''total_size'') (\<lambda>n. metadata_pairs fin pairs message_type piece (Some n))
      else metadata_pairs fin pairs message_type piece total_size)"

definition decode_metadata_message ::
  "'b bendy \<Rightarrow> bytes \<Rightarrow> ('io, 'b) requester_error + metadata_header \<times> bytes" where
  "decode_metadata_message bd payload =
     rbind (map_err WireBencode (bd_next_object bd MAX_BENCODE_NESTING_DEPTH payload)) (\<lambda>object.
     rbind (case object of
              None \<Rightarrow> Inl (ProtocolBencode ''empty ut_metadata message'')
            | Some (ODict pairs fin) \<Rightarrow> metadata_pairs fin pairs None None None
            | Some _ \<Rightarrow> Inl (ProtocolBencode ''ut_metadata header must be a dictionary''))
       (\<lambda>(message_type, piece, total_size).
     rbind (map_err WireBencode (bd_raw_length bd MAX_BENCODE_NESTING_DEPTH payload)) (\<lambda>raw_length.
       case message_type of
         None \<Rightarrow> Inl (MissingMetadataMessageField ''msg_type'')
       | Some t \<Rightarrow>
           case piece of
             None \<Rightarrow> Inl (MissingMetadataMessageField ''piece'')
           | Some p \<Rightarrow>
               Inr (\<lparr>mh_message_type = t, mh_piece = p, mh_total_size = total_size\<rparr>, drop raw_length payload))))"

definition expected_length :: "nat \<Rightarrow> nat \<Rightarrow> nat \<Rightarrow> nat" where
  "expected_length metadata_size piece_count piece =
     (if piece + 1 = piece_count then metadata_size - piece * METADATA_PIECE_SIZE else METADATA_PIECE_SIZE)"

text \<open>The checks of one data message, and the pieces with the payload stored.\<close>

definition accept_piece ::
  "nat \<Rightarrow> bytes option list \<Rightarrow> metadata_header \<Rightarrow> bytes \<Rightarrow> ('io, 'b) requester_error + bytes option list" where
  "accept_piece metadata_size pieces header payload =
     rbind (case mh_total_size header of
              Some total_size \<Rightarrow>
                if sint total_size \<noteq> int metadata_size
                then Inl (MetadataTotalSizeMismatch total_size metadata_size) else Inr ()
            | None \<Rightarrow> Inr ()) (\<lambda>_.
      if \<not> (0 \<le> sint (mh_piece header) \<and> sint (mh_piece header) < int (length pieces))
      then Inl (InvalidPieceIndex (mh_piece header) (length pieces))
      else let piece = nat (sint (mh_piece header));
               expected = expected_length metadata_size (length pieces) piece
           in if pieces ! piece \<noteq> None then Inl (DuplicatePiece piece)
              else if length payload \<noteq> expected then Inl (InvalidPieceLength piece (length payload) expected)
              else Inr (pieces[piece := Some payload]))"

lemma wlift_Inr: "wlift r c = Some (Inr (x, c')) \<longleftrightarrow> r = Inr x \<and> c' = c"
  by (cases r) (auto simp: wlift_def)

function read_pieces ::
  "'b bendy \<Rightarrow> socket_addr_v4 \<Rightarrow> nat \<Rightarrow> bytes option list \<Rightarrow> nat \<Rightarrow> ('io, 'b, bytes option list) wire" where
  "read_pieces bd peer metadata_size pieces remaining c =
     (if remaining = 0 then wret pieces c
      else wbind (read_message peer) (\<lambda>message c.
        if length message < 2 \<or> message ! 0 \<noteq> EXTENDED_MESSAGE_ID \<or> message ! 1 \<noteq> LOCAL_UT_METADATA_ID
        then read_pieces bd peer metadata_size pieces remaining c
        else wbind (wlift (decode_metadata_message bd (drop 2 message))) (\<lambda>received c.
          if mh_message_type (fst received) = 2 then wfail (MetadataRejected (mh_piece (fst received))) c
          else if mh_message_type (fst received) \<noteq> 1 then read_pieces bd peer metadata_size pieces remaining c
          else wbind (wlift (accept_piece metadata_size pieces (fst received) (snd received))) (\<lambda>pieces.
            read_pieces bd peer metadata_size pieces (remaining - 1)) c) c) c)"
  by pat_completeness auto
termination
  by (relation "measure (\<lambda>(bd, peer, size, pieces, remaining, c). length (wc_in c))")
    (auto simp: wlift_Inr dest: read_message_consumes)

declare read_pieces.simps [simp del]

text \<open>A missing piece at the end is a panic.\<close>

definition read_all_pieces :: "'b bendy \<Rightarrow> socket_addr_v4 \<Rightarrow> nat \<Rightarrow> ('io, 'b, bytes) wire" where
  "read_all_pieces bd peer metadata_size =
     (let piece_count = div_ceil metadata_size METADATA_PIECE_SIZE
      in wbind (read_pieces bd peer metadata_size (replicate piece_count None) piece_count) (\<lambda>pieces.
           if None \<in> set pieces then (\<lambda>c. None) else wret (concat (map the pieces))))"

section \<open>Requests\<close>

text \<open>The verification of the bytes is an argument here; the requester uses \<open>parse_info_bytes\<close>.\<close>

definition request_over_stream ::
  "'b bendy \<Rightarrow> (bytes \<Rightarrow> bytes \<Rightarrow> parse_info_error + parsed_info) \<Rightarrow> socket_addr_v4 \<Rightarrow> id20 \<Rightarrow> id20
   \<Rightarrow> ('io, 'b, parsed_info) wire" where
  "request_over_stream bd parse peer info_hash peer_id =
     wbind (perform_bit_torrent_handshake peer info_hash peer_id) (\<lambda>_.
     wbind (perform_extension_handshake bd peer) (\<lambda>extension.
     wbind (request_all_pieces peer (eh_metadata_size extension) (eh_remote_ut_metadata_id extension)) (\<lambda>_.
     wbind (read_all_pieces bd peer (eh_metadata_size extension)) (\<lambda>raw_info.
     wlift (map_err ParseFailed (parse (as_bytes info_hash) raw_info))))))"

text \<open>The calls of the operating system that open the connection, with their outcomes in order.\<close>

definition connect_ipv4 ::
  "socket_addr_v4 \<Rightarrow> 'io + unit \<Rightarrow> 'io + unit \<Rightarrow> 'io + unit \<Rightarrow> 'io + 's \<Rightarrow> ('io, 'b) requester_error + 's" where
  "connect_ipv4 peer socket nodelay linger connected =
     rbind (map_err (Connect peer) socket) (\<lambda>_.
     rbind (map_err (SetNoDelay peer) nodelay) (\<lambda>_.
     rbind (map_err (SetLinger peer) linger) (\<lambda>_.
     map_err (Connect peer) connected)))"

text \<open>
  A time limit that expires first replaces the outcome: \<open>elapsed\<close> for the request, and no outcome
  of the connector (\<open>None\<close>) for the connection.
\<close>

definition request_ipv4_with_connector ::
  "'b bendy \<Rightarrow> (bytes \<Rightarrow> bytes \<Rightarrow> parse_info_error + parsed_info) \<Rightarrow> meta_info_requester \<Rightarrow> bool
   \<Rightarrow> id20 \<Rightarrow> socket_addr_v4 \<Rightarrow> (('io, 'b) requester_error + 'io conn) option
   \<Rightarrow> (('io, 'b) requester_error + parsed_info) option" where
  "request_ipv4_with_connector bd parse r elapsed info_hash peer connector =
     (if elapsed then Some (Inl (RequestTimeout peer (rc_request_timeout (rq_config r))))
      else case connector of
             None \<Rightarrow> Some (Inl (ConnectTimeout peer (rc_connect_timeout (rq_config r))))
           | Some (Inl e) \<Rightarrow> Some (Inl e)
           | Some (Inr c) \<Rightarrow>
               map_option (\<lambda>out. rbind out (\<lambda>(p, c'). Inr p)) (request_over_stream bd parse peer info_hash (rq_peer_id r) c))"

fun requester_request ::
  "'b bendy \<Rightarrow> (bytes \<Rightarrow> bytes \<Rightarrow> parse_info_error + parsed_info) \<Rightarrow> meta_info_requester \<Rightarrow> bool
   \<Rightarrow> id20 \<Rightarrow> socket_addr \<Rightarrow> (('io, 'b) requester_error + 'io conn) option
   \<Rightarrow> (('io, 'b) requester_error + parsed_info) option" where
  "requester_request bd parse r elapsed info_hash (SocketV4 ip port) connector =
     request_ipv4_with_connector bd parse r elapsed info_hash (ip, port) connector"
| "requester_request bd parse r elapsed info_hash (SocketV6 ip port flow scope) connector =
     Some (Inl (UnsupportedAddressFamily (SocketV6 ip port flow scope)))"

section \<open>What the steps keep\<close>

lemma wbind_Some:
  assumes "m c \<noteq> None" and "\<And>x c'. m c = Some (Inr (x, c')) \<Longrightarrow> f x c' \<noteq> None"
  shows "wbind m f c \<noteq> None"
  using assms by (auto simp: wbind_def split: option.split sum.split)

lemma wbind_ends:
  assumes "\<exists>out. m c = Some out \<and> (\<forall>x c'. out = Inr (x, c') \<longrightarrow> P x c')"
    and "\<And>x c'. P x c' \<Longrightarrow> \<exists>out. f x c' = Some out \<and> (\<forall>y d. out = Inr (y, d) \<longrightarrow> Q y d)"
  shows "\<exists>out. wbind m f c = Some out \<and> (\<forall>y d. out = Inr (y, d) \<longrightarrow> Q y d)"
proof -
  obtain out where "m c = Some out" "\<forall>x c'. out = Inr (x, c') \<longrightarrow> P x c'"
    using assms(1) by blast
  with assms(2) show ?thesis
    by (cases out) (auto simp: wbind_def)
qed

lemma step_Some [simp]:
  "write_all peer stage v c \<noteq> None" "read_exact peer stage n c \<noteq> None" "wret x c \<noteq> None" "wlift r c \<noteq> None"
  by (auto simp: write_all_def read_exact_def wret_def wlift_def split: list.split option.split sum.split)

lemma write_all_Inr:
  "write_all peer stage v c = Some (Inr (u, c')) \<Longrightarrow> wc_out c' = wc_out c @ v \<and> wc_in c' = wc_in c"
  by (auto simp: write_all_def split: list.splits option.splits)

lemma write_all_ends:
  "\<exists>out. write_all peer stage v c = Some out
    \<and> (\<forall>u c'. out = Inr (u, c') \<longrightarrow> wc_out c' = wc_out c @ v \<and> wc_in c' = wc_in c)"
  by (simp add: write_all_def split: list.split option.split)

lemma wret_Inr: "wret x c = Some (Inr (y, c')) \<longleftrightarrow> y = x \<and> c' = c"
  by (auto simp: wret_def)

lemma read_message_Some: "read_message peer c \<noteq> None"
  unfolding read_message_def by (intro wbind_Some) (simp_all add: Let_def del: not_None_eq)

lemma read_message_out: "read_message peer c = Some (Inr (m, c')) \<Longrightarrow> wc_out c' = wc_out c"
  by (auto simp: read_message_def wbind_Some_Inr read_exact_Inr wlift_Inr Let_def split: if_splits)

lemma extension_loop_keeps:
  "extension_loop bd peer c \<noteq> None \<and>
   (\<forall>x c'. extension_loop bd peer c = Some (Inr (x, c')) \<longrightarrow>
      wc_out c' = wc_out c \<and> (\<exists>payload. (decode_extension_handshake bd payload :: ('io, 'b) requester_error + _) = Inr x))"
  for c :: "'io conn" and bd :: "'b bendy"
proof (induction bd peer c rule: extension_loop.induct)
  case (1 bd peer c)
  show ?case
  proof (intro conjI allI impI)
    show "extension_loop bd peer c \<noteq> None"
      unfolding extension_loop.simps [of bd peer c]
      by (intro wbind_Some read_message_Some) (use 1 in \<open>auto simp del: not_None_eq\<close>)
    fix x c'
    assume "extension_loop bd peer c = Some (Inr (x, c'))"
    then obtain m d where "(read_message peer c :: (('io, 'b) requester_error + _) option) = Some (Inr (m, d))"
      "(if length m < 2 \<or> m ! 0 \<noteq> EXTENDED_MESSAGE_ID then extension_loop bd peer d
       else if m ! 1 \<noteq> EXTENSION_HANDSHAKE_ID then wfail (FirstExtensionMessageNotHandshake (m ! 1)) d
       else wlift (decode_extension_handshake bd (drop 2 m)) d) = Some (Inr (x, c'))"
      unfolding extension_loop.simps [of bd peer c] wbind_Some_Inr by blast
    then show "wc_out c' = wc_out c"
      and "\<exists>payload. (decode_extension_handshake bd payload :: ('io, 'b) requester_error + _) = Inr x"
      using 1 [of m d] by (auto simp: wlift_Inr read_message_out split: if_splits)
  qed
qed

lemma decode_extension_handshake_size:
  "decode_extension_handshake bd payload = Inr x \<Longrightarrow> 0 < eh_metadata_size x \<and> eh_metadata_size x < MAX_METADATA_SIZE"
  by (auto simp: decode_extension_handshake_def rbind_Inr split: if_splits prod.splits)

section \<open>Counting pieces\<close>

lemma div_ceil_bounds:
  assumes "0 < n" and "0 < d"
  obtains m where "div_ceil n d = Suc m" "m * d < n" "n \<le> Suc m * d"
proof (cases "n mod d = 0")
  case True
  then have "n = n div d * d" "0 < n div d"
    using assms div_mult_mod_eq [of n d] by (simp_all add: div_greater_zero_iff dvd_imp_le mod_eq_0_iff_dvd)
  then show thesis
    using True assms by (intro that [of "n div d - 1"]) (simp_all add: div_ceil_def algebra_simps)
next
  case False
  moreover have "Suc (n div d) * d = n div d * d + d"
    by simp
  ultimately have "n div d * d < n" "n \<le> Suc (n div d) * d"
    using assms div_mult_mod_eq [of n d] mod_less_divisor [OF assms(2), of n] by linarith+
  then show thesis
    using False by (intro that [of "n div d"]) (simp_all add: div_ceil_def)
qed

abbreviation piece_count_of :: "nat \<Rightarrow> nat" where
  "piece_count_of n \<equiv> div_ceil n METADATA_PIECE_SIZE"

lemma sum_expected_length:
  assumes "0 < n"
  shows "sum_list (map (expected_length n (piece_count_of n)) [0..<piece_count_of n]) = n"
proof -
  obtain m where m: "piece_count_of n = Suc m" "m * METADATA_PIECE_SIZE < n"
    using div_ceil_bounds [OF assms, of METADATA_PIECE_SIZE] by auto
  have "map (expected_length n (Suc m)) [0..<m] = replicate m METADATA_PIECE_SIZE"
    by (rule nth_equalityI) (simp_all add: expected_length_def)
  then have "sum_list (map (expected_length n (Suc m)) [0..<Suc m]) = m * METADATA_PIECE_SIZE + expected_length n (Suc m) m"
    by (simp add: sum_list_replicate)
  then show ?thesis
    using m by (simp add: expected_length_def)
qed

definition missing :: "bytes option list \<Rightarrow> nat" where
  "missing pieces = length (filter (\<lambda>p. p = None) pieces)"

lemma missing_update:
  "\<lbrakk>k < length pieces; pieces ! k = None\<rbrakk> \<Longrightarrow> missing pieces = Suc (missing (pieces[k := Some v]))"
proof (induction pieces arbitrary: k)
  case (Cons p pieces)
  then show ?case
    by (cases k) (auto simp: missing_def)
qed simp

lemma missing_replicate [simp]: "missing (replicate n None) = n"
  by (simp add: missing_def)

lemma missing_0_iff: "missing pieces = 0 \<longleftrightarrow> None \<notin> set pieces"
  by (induction pieces) (auto simp: missing_def)

text \<open>Every stored piece has the length its index demands.\<close>

definition pieces_ok :: "nat \<Rightarrow> bytes option list \<Rightarrow> bool" where
  "pieces_ok n pieces \<longleftrightarrow>
     (\<forall>k<length pieces. \<forall>v. pieces ! k = Some v \<longrightarrow> length v = expected_length n (length pieces) k)"

lemma accept_piece_Inr:
  "accept_piece n pieces header payload = Inr ps \<longleftrightarrow>
     (\<forall>t. mh_total_size header = Some t \<longrightarrow> sint t = int n)
     \<and> (\<exists>k<length pieces. sint (mh_piece header) = int k \<and> pieces ! k = None
          \<and> length payload = expected_length n (length pieces) k \<and> ps = pieces[k := Some payload])"
proof -
  have "\<exists>k. sint (mh_piece header) = int k" if "0 \<le> sint (mh_piece header)"
    using that nonneg_int_cases by blast
  then show ?thesis
    by (auto simp: accept_piece_def rbind_Inr Let_def split: option.splits if_splits)
qed

lemma accepted_piece:
  assumes "accept_piece n pieces header payload = Inr ps" and "pieces_ok n pieces"
  shows "length ps = length pieces \<and> missing pieces = Suc (missing ps) \<and> pieces_ok n ps"
  using assms by (auto simp: accept_piece_Inr missing_update pieces_ok_def nth_list_update split: if_splits)

definition ignored_message :: "bytes \<Rightarrow> bool" where
  "ignored_message m \<longleftrightarrow> length m < 2 \<or> m ! 0 \<noteq> EXTENDED_MESSAGE_ID \<or> m ! 1 \<noteq> LOCAL_UT_METADATA_ID"

lemma wbind_wlift: "wbind (wlift r) f c = (case r of Inl e \<Rightarrow> Some (Inl e) | Inr x \<Rightarrow> f x c)"
  by (cases r) (simp_all add: wbind_def wlift_def)

lemma read_pieces_step:
  fixes bd :: "'b bendy" and c d :: "'io conn"
  assumes "remaining \<noteq> 0" and "(read_message peer :: ('io, 'b, bytes) wire) c = Some (Inr (m, d))"
  shows "read_pieces bd peer n pieces remaining c =
    (if ignored_message m then read_pieces bd peer n pieces remaining d
     else case decode_metadata_message bd (drop 2 m) of
            Inl e \<Rightarrow> Some (Inl e)
          | Inr (header, payload) \<Rightarrow>
              if mh_message_type header = 2 then Some (Inl (MetadataRejected (mh_piece header)))
              else if mh_message_type header \<noteq> 1 then read_pieces bd peer n pieces remaining d
              else case accept_piece n pieces header payload of
                     Inl e \<Rightarrow> Some (Inl e)
                   | Inr ps \<Rightarrow> read_pieces bd peer n ps (remaining - 1) d)"
  using assms
  by (subst read_pieces.simps)
    (simp add: wbind_def [of "read_message peer"] wbind_wlift wlift_def ignored_message_def split: sum.split prod.split)

lemma read_pieces_fails:
  fixes bd :: "'b bendy" and c :: "'io conn"
  assumes "remaining \<noteq> 0" and "(read_message peer :: ('io, 'b, bytes) wire) c = Some (Inl e)"
  shows "read_pieces bd peer n pieces remaining c = Some (Inl e)"
  using assms by (subst read_pieces.simps) (simp add: wbind_def [of "read_message peer"])

lemma read_pieces_keeps:
  fixes bd :: "'b bendy" and c :: "'io conn"
  assumes "missing pieces = remaining" and "pieces_ok n pieces"
  shows "\<exists>out. read_pieces bd peer n pieces remaining c = Some out \<and>
    (\<forall>ps c'. out = Inr (ps, c') \<longrightarrow>
       wc_out c' = wc_out c \<and> length ps = length pieces \<and> missing ps = 0 \<and> pieces_ok n ps)"
  using assms
proof (induction "length (wc_in c)" arbitrary: pieces remaining c rule: less_induct)
  case less
  show ?case
  proof (cases "remaining = 0")
    case True
    with less.prems show ?thesis
      by (subst read_pieces.simps) (simp add: wret_def)
  next
    case False
    let ?read = "read_message peer :: ('io, 'b, bytes) wire"
    consider e where "?read c = Some (Inl e)" | m d where "?read c = Some (Inr (m, d))"
      using read_message_Some [of peer c] by (metis not_None_eq obj_sumE surj_pair)
    then show ?thesis
    proof cases
      case 1
      with False show ?thesis
        by (simp add: read_pieces_fails)
    next
      case (2 m d)
      note step = read_pieces_step [OF False 2]
      note IH = less.hyps [OF read_message_consumes [OF 2]]
      have again: ?thesis if "read_pieces bd peer n pieces remaining c = read_pieces bd peer n pieces remaining d"
        using IH [OF less.prems] that read_message_out [OF 2] by simp
      show ?thesis
      proof (cases "ignored_message m")
        case True
        then show ?thesis
          by (intro again) (simp add: step)
      next
        case live: False
        show ?thesis
        proof (cases "decode_metadata_message bd (drop 2 m) :: ('io, 'b) requester_error + _")
          case (Inl e)
          then show ?thesis
            using live by (simp add: step)
        next
          case (Inr r)
          obtain header payload where r: "r = (header, payload)"
            by (cases r)
          consider "mh_message_type header = 2" | "mh_message_type header \<noteq> 2" "mh_message_type header \<noteq> 1"
            | "mh_message_type header = 1"
            by blast
          then show ?thesis
          proof cases
            case 1
            then show ?thesis
              using live Inr r by (simp add: step)
          next
            case 2
            then show ?thesis
              using live Inr r by (intro again) (simp add: step)
          next
            case 3
            show ?thesis
            proof (cases "accept_piece n pieces header payload :: ('io, 'b) requester_error + _")
              case (Inl e)
              then show ?thesis
                using live \<open>decode_metadata_message bd (drop 2 m) = Inr r\<close> r 3 by (simp add: step)
            next
              case (Inr ps)
              then have "read_pieces bd peer n pieces remaining c = read_pieces bd peer n ps (remaining - 1) d"
                using live \<open>decode_metadata_message bd (drop 2 m) = Inr r\<close> r 3 by (simp add: step)
              moreover from accepted_piece [OF Inr less.prems(2)] less.prems(1)
              have "missing ps = remaining - 1" "pieces_ok n ps" "length ps = length pieces"
                by simp_all
              ultimately show ?thesis
                using IH [of ps "remaining - 1"] read_message_out [OF \<open>?read c = Some (Inr (m, d))\<close>]
                by simp
            qed
          qed
        qed
      qed
    qed
  qed
qed

lemma assembled_length:
  assumes "0 < n" and "length ps = piece_count_of n" and "missing ps = 0" and "pieces_ok n ps"
  shows "length (concat (map the ps)) = n"
proof -
  have "map (\<lambda>p. length (the p)) ps = map (expected_length n (piece_count_of n)) [0..<piece_count_of n]"
  proof (rule nth_equalityI)
    fix k
    assume k: "k < length (map (\<lambda>p. length (the p)) ps)"
    then have "ps ! k \<noteq> None"
      using assms(3) nth_mem [of k ps] by (metis length_map missing_0_iff)
    then show "map (\<lambda>p. length (the p)) ps ! k = map (expected_length n (piece_count_of n)) [0..<piece_count_of n] ! k"
      using k assms(2,4) by (auto simp: pieces_ok_def)
  qed (simp add: assms(2))
  then show ?thesis
    using sum_expected_length [OF assms(1)] by (simp add: length_concat comp_def)
qed

lemma read_all_pieces_keeps:
  fixes bd :: "'b bendy" and c :: "'io conn"
  assumes "0 < n"
  shows "\<exists>out. read_all_pieces bd peer n c = Some out \<and>
    (\<forall>raw c'. out = Inr (raw, c') \<longrightarrow> wc_out c' = wc_out c \<and> length raw = n)"
proof -
  have "pieces_ok n (replicate (piece_count_of n) None)"
    by (simp add: pieces_ok_def)
  from read_pieces_keeps [OF missing_replicate this, of bd peer c] obtain out where out:
    "read_pieces bd peer n (replicate (piece_count_of n) None) (piece_count_of n) c = Some out"
    "\<And>ps c'. out = Inr (ps, c') \<Longrightarrow> wc_out c' = wc_out c \<and> length ps = piece_count_of n \<and> missing ps = 0 \<and> pieces_ok n ps"
    by auto
  then show ?thesis
    using assembled_length [OF assms]
    by (cases out) (auto simp: read_all_pieces_def Let_def wbind_def wret_def missing_0_iff)
qed

lemma piece_request_Some:
  assumes "piece < piece_count_of n" and "0 < n" and "n < MAX_METADATA_SIZE"
  shows "piece_request piece i \<noteq> None"
proof -
  obtain m where "piece_count_of n = Suc m" "m * METADATA_PIECE_SIZE < n"
    using div_ceil_bounds [OF assms(2), of METADATA_PIECE_SIZE] by auto
  then have "piece < 1000"
    using assms by simp
  then show ?thesis
    using dec_bytes_length [of piece] by (simp add: piece_request_def Let_def)
qed

definition piece_requests :: "nat \<Rightarrow> u8 \<Rightarrow> bytes" where
  "piece_requests n i = concat (map (\<lambda>piece. the (piece_request piece i)) [0..<piece_count_of n])"

lemma request_pieces_keeps:
  fixes c :: "'io conn"
  assumes "\<And>k. k \<in> set ks \<Longrightarrow> piece_request k i \<noteq> None"
  shows "\<exists>out. (request_pieces peer i ks :: ('io, 'b, unit) wire) c = Some out \<and>
    (\<forall>u c'. out = Inr (u, c') \<longrightarrow> wc_in c' = wc_in c \<and> wc_out c' = wc_out c @ concat (map (\<lambda>k. the (piece_request k i)) ks))"
  using assms
proof (induction ks arbitrary: c)
  case (Cons k ks)
  obtain frame where frame: "piece_request k i = Some frame"
    using Cons.prems [of k] by auto
  have "\<exists>out. (request_pieces peer i ks :: ('io, 'b, unit) wire) d = Some out \<and> (\<forall>u c'. out = Inr (u, c') \<longrightarrow>
      wc_in c' = wc_in c \<and> wc_out c' = wc_out c @ concat (map (\<lambda>k. the (piece_request k i)) (k # ks)))"
    if "wc_out d = wc_out c @ frame \<and> wc_in d = wc_in c" for d :: "'io conn"
    using Cons.IH [of d] Cons.prems that frame by simp
  then show ?case
    unfolding request_pieces.simps frame option.case by (rule wbind_ends [OF write_all_ends])
qed (simp add: wret_def)

lemma request_all_pieces_keeps:
  assumes "0 < n" and "n < MAX_METADATA_SIZE"
  shows "\<exists>out. request_all_pieces peer n i c = Some out \<and>
    (\<forall>u c'. out = Inr (u, c') \<longrightarrow> wc_in c' = wc_in c \<and> wc_out c' = wc_out c @ piece_requests n i)"
  unfolding request_all_pieces_def piece_requests_def
  by (rule request_pieces_keeps) (use assms piece_request_Some in auto)

lemma bit_torrent_handshake_keeps:
  "\<exists>out. perform_bit_torrent_handshake peer info_hash peer_id c = Some out \<and>
    (\<forall>u c'. out = Inr (u, c') \<longrightarrow> wc_out c' = wc_out c @ handshake_request info_hash peer_id)"
proof -
  have "perform_bit_torrent_handshake peer info_hash peer_id c \<noteq> None"
    unfolding perform_bit_torrent_handshake_def by (intro wbind_Some) (simp_all del: not_None_eq)
  moreover have "wc_out c' = wc_out c @ handshake_request info_hash peer_id"
    if "perform_bit_torrent_handshake peer info_hash peer_id c = Some (Inr (u, c'))" for u c'
    using that
    by (auto simp: perform_bit_torrent_handshake_def wbind_Some_Inr read_exact_Inr wlift_Inr wret_Inr
        split: if_splits dest!: write_all_Inr)
  ultimately show ?thesis
    by blast
qed

lemma extension_handshake_keeps:
  "\<exists>out. perform_extension_handshake bd peer c = Some out \<and>
    (\<forall>x c'. out = Inr (x, c') \<longrightarrow> wc_out c' = wc_out c @ EXTENSION_HANDSHAKE_REQUEST
       \<and> 0 < eh_metadata_size x \<and> eh_metadata_size x < MAX_METADATA_SIZE)"
proof -
  have "perform_extension_handshake bd peer c \<noteq> None"
    unfolding perform_extension_handshake_def
    by (intro wbind_Some step_Some extension_loop_keeps [THEN conjunct1])
  moreover have "wc_out c' = wc_out c @ EXTENSION_HANDSHAKE_REQUEST \<and> 0 < eh_metadata_size x \<and> eh_metadata_size x < MAX_METADATA_SIZE"
    if "perform_extension_handshake bd peer c = Some (Inr (x, c'))" for x c'
    using that extension_loop_keeps [of bd peer]
    by (fastforce simp: perform_extension_handshake_def wbind_Some_Inr dest!: write_all_Inr dest: decode_extension_handshake_size)
  ultimately show ?thesis
    by blast
qed

section \<open>A peer that serves the metadata\<close>

text \<open>What the bencode decoder is expected to do on canonical bytes.\<close>

fun object_of :: "bvalue \<Rightarrow> 'b bobject" where
  "object_of (BBytes v) = OBytes v"
| "object_of (BInt i) = OInteger (int_bytes (sint i))"
| "object_of (BList vs) = OList"
| "object_of (BDict m) = ODict (map (\<lambda>(k, v). (k, object_of v)) m) None"

abbreviation decodable :: "bdict \<Rightarrow> bool" where
  "decodable d \<equiv> canonical (BDict d) \<and> nesting (BDict d) \<le> MAX_BENCODE_NESTING_DEPTH"

definition reads_bencode :: "'b bendy \<Rightarrow> bool" where
  "reads_bencode bd \<longleftrightarrow> (\<forall>d w. decodable d \<longrightarrow>
     bd_next_object bd MAX_BENCODE_NESTING_DEPTH (bencode (BDict d) @ w) = Inr (Some (object_of (BDict d)))
     \<and> bd_raw_length bd MAX_BENCODE_NESTING_DEPTH (bencode (BDict d) @ w) = Inr (length (bencode (BDict d)))
     \<and> bd_has_trailing bd MAX_BENCODE_NESTING_DEPTH (bencode (BDict d)) = Inr False)"

lemma reads_bencodeD:
  assumes "reads_bencode bd" and "decodable d"
  shows "bd_next_object bd MAX_BENCODE_NESTING_DEPTH (bencode (BDict d) @ w) = Inr (Some (object_of (BDict d)))"
    and "bd_next_object bd MAX_BENCODE_NESTING_DEPTH (bencode (BDict d)) = Inr (Some (object_of (BDict d)))"
    and "bd_raw_length bd MAX_BENCODE_NESTING_DEPTH (bencode (BDict d) @ w) = Inr (length (bencode (BDict d)))"
    and "bd_has_trailing bd MAX_BENCODE_NESTING_DEPTH (bencode (BDict d)) = Inr False"
  using assms unfolding reads_bencode_def by (blast, metis append_Nil2, blast+)

text \<open>An integer field of a dictionary, and that a key is not bound to anything else.\<close>

definition int_field :: "bdict \<Rightarrow> string \<Rightarrow> i64 option" where
  "int_field d k = (case map_of d (bstr k) of Some (BInt n) \<Rightarrow> Some n | _ \<Rightarrow> None)"

definition int_typed :: "bdict \<Rightarrow> string \<Rightarrow> bool" where
  "int_typed d k \<longleftrightarrow> (case map_of d (bstr k) of None \<Rightarrow> True | Some (BInt n) \<Rightarrow> True | Some _ \<Rightarrow> False)"

lemma parse_integer_object [simp]: "parse_integer (object_of (BInt n)) field = Inr n"
  by (simp add: parse_i64_int_bytes)

lemma int_field_Cons:
  "int_field ((k, v) # d) j = (if k = bstr j then (case v of BInt n \<Rightarrow> Some n | _ \<Rightarrow> None) else int_field d j)"
  by (auto simp: int_field_def split: bvalue.split)

lemma int_typed_Cons:
  "int_typed ((k, v) # d) j = (if k = bstr j then (\<exists>n. v = BInt n) else int_typed d j)"
  by (auto simp: int_typed_def split: bvalue.split)

lemma int_absent:
  assumes "bstr k \<notin> fst ` set d"
  shows "int_field d k = None" and "int_typed d k"
  using assms by (simp_all add: int_field_def int_typed_def map_of_eq_None_iff [THEN iffD2])

lemma canonical_distinct: "canonical (BDict d) \<Longrightarrow> distinct (map fst d)"
  by (simp add: strict_sorted_iff)

lemma metadata_pairs_fields:
  assumes "distinct (map fst d)" and "int_typed d ''msg_type''" and "int_typed d ''piece''" and "int_typed d ''total_size''"
  shows "metadata_pairs None (map (\<lambda>(k, v). (k, object_of v)) d) a b c =
    Inr (opt_or (int_field d ''msg_type'') a, opt_or (int_field d ''piece'') b, opt_or (int_field d ''total_size'') c)"
  using assms
proof (induction d arbitrary: a b c)
  case Nil
  then show ?case
    by (simp add: int_field_def opt_or_def)
next
  case (Cons e d)
  obtain k v where e: "e = (k, v)"
    by (cases e)
  have "k = bstr j \<Longrightarrow> int_field d j = None \<and> int_typed d j" for j
    using Cons.prems(1) e by (auto intro: int_absent)
  with Cons show ?case
    by (auto simp: e int_field_Cons int_typed_Cons opt_or_def parse_i64_int_bytes split: if_splits option.splits)
qed

lemma extension_pairs_fields:
  assumes "distinct (map fst d)" and "int_typed d ''ut_metadata''"
  shows "extension_pairs None (map (\<lambda>(k, v). (k, object_of v)) d) a = Inr (opt_or (int_field d ''ut_metadata'') a)"
  using assms
proof (induction d arbitrary: a)
  case Nil
  then show ?case
    by (simp add: int_field_def opt_or_def)
next
  case (Cons e d)
  obtain k v where e: "e = (k, v)"
    by (cases e)
  have "k = bstr j \<Longrightarrow> int_field d j = None \<and> int_typed d j" for j
    using Cons.prems(1) e by (auto intro: int_absent)
  with Cons show ?case
    by (auto simp: e int_field_Cons int_typed_Cons opt_or_def parse_i64_int_bytes split: if_splits option.splits)
qed

text \<open>The two fields of an extension handshake.\<close>

definition handshake_fields :: "bdict \<Rightarrow> i64 \<Rightarrow> i64 \<Rightarrow> bool" where
  "handshake_fields d n i \<longleftrightarrow> decodable d \<and> map_of d (bstr ''metadata_size'') = Some (BInt n)
     \<and> (\<exists>e. map_of d (bstr ''m'') = Some (BDict e) \<and> map_of e (bstr ''ut_metadata'') = Some (BInt i))"

lemma handshake_pairs_fields:
  assumes "distinct (map fst d)" and "int_typed d ''metadata_size''"
    and "\<And>v. map_of d (bstr ''m'') = Some v \<Longrightarrow> \<exists>e. v = BDict e \<and> distinct (map fst e) \<and> int_field e ''ut_metadata'' = Some i"
    and "i' = None \<or> map_of d (bstr ''m'') = None"
  shows "handshake_pairs None (map (\<lambda>(k, v). (k, object_of v)) d) a i' =
    Inr (opt_or (int_field d ''metadata_size'') a, if map_of d (bstr ''m'') = None then i' else Some i)"
  using assms
proof (induction d arbitrary: a i')
  case Nil
  then show ?case
    by (simp add: int_field_def opt_or_def)
next
  case (Cons e d)
  obtain k v where e: "e = (k, v)"
    by (cases e)
  have absent: "k = bstr j \<Longrightarrow> int_field d j = None \<and> int_typed d j \<and> map_of d (bstr j) = None" for j
    using Cons.prems(1) e by (auto intro: int_absent simp: map_of_eq_None_iff [THEN iffD2])
  show ?case
  proof (cases "k = bstr ''m''")
    case True
    then obtain m where m: "v = BDict m" "distinct (map fst m)" "int_field m ''ut_metadata'' = Some i"
      using Cons.prems(3) [of v] e by auto
    have "int_typed m ''ut_metadata''"
      using m(3) by (auto simp: int_field_def int_typed_def split: option.splits bvalue.splits)
    with m True Cons.prems absent show ?thesis
      using Cons.IH [of "Some i" a]
      by (simp add: e int_field_Cons int_typed_Cons extension_pairs_fields opt_or_def)
  next
    case False
    with Cons absent show ?thesis
      by (auto simp: e int_field_Cons int_typed_Cons opt_or_def parse_i64_int_bytes split: option.splits)
  qed
qed

lemma decode_extension_handshake_served:
  fixes bd :: "'b bendy"
  assumes "reads_bencode bd" and "handshake_fields d n i" and "1 \<le> sint n" and "sint n < int MAX_METADATA_SIZE"
    and "1 \<le> sint i" and "sint i \<le> 254"
  shows "(decode_extension_handshake bd (bencode (BDict d)) :: ('io, 'b) requester_error + _) =
    Inr \<lparr>eh_metadata_size = nat (sint n), eh_remote_ut_metadata_id = of_int (sint i)\<rparr>"
proof -
  obtain e where d: "decodable d" "map_of d (bstr ''metadata_size'') = Some (BInt n)"
    and e: "map_of d (bstr ''m'') = Some (BDict e)" "map_of e (bstr ''ut_metadata'') = Some (BInt i)"
    using assms(2) by (auto simp: handshake_fields_def)
  have "distinct (map fst e)"
    using d(1) map_of_SomeD [OF e(1)] by (intro canonical_distinct) force
  then have "(handshake_pairs None (map (\<lambda>(k, v). (k, object_of v)) d) None None :: ('io, 'b) requester_error + _)
      = Inr (Some n, Some i)"
    using handshake_pairs_fields [of d i None None] canonical_distinct d e
    by (simp add: int_field_def int_typed_def opt_or_def)
  moreover note reads_bencodeD [OF assms(1) d(1)]
  ultimately show ?thesis
    using assms(3-6) by (simp add: decode_extension_handshake_def del: bencode.simps)
qed

section \<open>Frames\<close>

definition frame :: "bytes \<Rightarrow> bytes" where
  "frame m = u32_to_be_bytes (length m) @ m"

lemma u32_be_roundtrip:
  assumes "n < 2 ^ 32"
  shows "u32_from_be_bytes (u32_to_be_bytes n) = n"
proof -
  define a b e where "a = n div 256" and "b = a div 256" and "e = b div 256"
  have "n = a * 256 + n mod 256" "a = b * 256 + a mod 256" "b = e * 256 + b mod 256"
    unfolding a_def b_def e_def by (simp_all only: div_mult_mod_eq)
  moreover have e: "e mod 256 = e"
    using assms by (simp add: a_def b_def e_def less_mult_imp_div_less flip: div_mult2_eq)
  ultimately have "((e mod 256 * 256 + b mod 256) * 256 + a mod 256) * 256 + n mod 256 = n"
    by simp
  moreover have "n div 2 ^ 8 = a" "n div 2 ^ 16 = b" "n div 2 ^ 24 = e"
    by (simp_all add: a_def b_def e_def flip: div_mult2_eq)
  ultimately show ?thesis
    by (simp add: u32_from_be_bytes_def u32_to_be_bytes_def unat_of_nat take_bit_eq_mod e)
qed

lemma read_message_frame:
  assumes "wc_in c = frame m @ w" and "length m \<le> MAX_METADATA_SIZE"
  shows "read_message peer c = Some (Inr (m, c\<lparr>wc_in := w\<rparr>))"
  using assms u32_be_roundtrip [of "length m"]
  by (simp add: read_message_def wbind_def read_exact_def frame_def Let_def u32_to_be_bytes_def)

text \<open>Messages before the extension handshake are skipped.\<close>

lemma extension_loop_served:
  fixes c :: "'io conn" and bd :: "'b bendy"
  assumes "\<And>m. m \<in> set ms \<Longrightarrow> length m \<le> MAX_METADATA_SIZE \<and> (length m < 2 \<or> m ! 0 \<noteq> EXTENDED_MESSAGE_ID)"
    and "length payload + 2 \<le> MAX_METADATA_SIZE"
    and "wc_in c = concat (map frame ms) @ frame ([EXTENDED_MESSAGE_ID, EXTENSION_HANDSHAKE_ID] @ payload) @ w"
    and "(decode_extension_handshake bd payload :: ('io, 'b) requester_error + _) = Inr x"
  shows "extension_loop bd peer c = Some (Inr (x, c\<lparr>wc_in := w\<rparr>))"
  using assms(1,3)
proof (induction ms arbitrary: c)
  case Nil
  then have "(read_message peer :: ('io, 'b, bytes) wire) c =
      Some (Inr ([EXTENDED_MESSAGE_ID, EXTENSION_HANDSHAKE_ID] @ payload, c\<lparr>wc_in := w\<rparr>))"
    using assms(2) by (intro read_message_frame) simp_all
  then show ?case
    using assms(4) by (subst extension_loop.simps) (simp add: wbind_def wlift_def)
next
  case (Cons m ms)
  let ?w = "concat (map frame ms) @ frame ([EXTENDED_MESSAGE_ID, EXTENSION_HANDSHAKE_ID] @ payload) @ w"
  have "(read_message peer :: ('io, 'b, bytes) wire) c = Some (Inr (m, c\<lparr>wc_in := ?w\<rparr>))"
    using Cons.prems by (intro read_message_frame) simp_all
  moreover have "extension_loop bd peer (c\<lparr>wc_in := ?w\<rparr>) = Some (Inr (x, c\<lparr>wc_in := w\<rparr>))"
    using Cons.IH [of "c\<lparr>wc_in := ?w\<rparr>"] Cons.prems(1) by simp
  ultimately show ?case
    using Cons.prems(1) [of m] by (subst extension_loop.simps) (simp add: wbind_def)
qed

section \<open>Serving the pieces\<close>

definition piece_of :: "bytes \<Rightarrow> nat \<Rightarrow> bytes" where
  "piece_of raw k = take METADATA_PIECE_SIZE (drop (k * METADATA_PIECE_SIZE) raw)"

lemma piece_of_length:
  assumes "raw \<noteq> []" and "k < piece_count_of (length raw)"
  shows "length (piece_of raw k) = expected_length (length raw) (piece_count_of (length raw)) k"
proof -
  obtain m where "piece_count_of (length raw) = Suc m" "m * METADATA_PIECE_SIZE < length raw"
      "length raw \<le> Suc m * METADATA_PIECE_SIZE"
    using div_ceil_bounds [of "length raw" METADATA_PIECE_SIZE] assms(1) by auto
  moreover from this have "k < m \<Longrightarrow> Suc k * METADATA_PIECE_SIZE \<le> m * METADATA_PIECE_SIZE"
    by (intro mult_le_mono1) simp
  ultimately show ?thesis
    using assms(2) by (auto simp: piece_of_def expected_length_def less_Suc_eq)
qed

lemma concat_pieces: "concat (map (piece_of raw) [0..<n]) = take (n * METADATA_PIECE_SIZE) raw"
proof (induction n)
  case (Suc n)
  have "take (n * METADATA_PIECE_SIZE) raw @ piece_of raw n = take (n * METADATA_PIECE_SIZE + METADATA_PIECE_SIZE) raw"
    unfolding piece_of_def by (rule take_add [symmetric])
  with Suc show ?case
    by (simp add: add.commute)
qed simp

lemma concat_all_pieces:
  assumes "raw \<noteq> []"
  shows "concat (map (piece_of raw) [0..<piece_count_of (length raw)]) = raw"
proof -
  obtain m where "piece_count_of (length raw) = Suc m" "length raw \<le> Suc m * METADATA_PIECE_SIZE"
    using div_ceil_bounds [of "length raw" METADATA_PIECE_SIZE] assms by auto
  then show ?thesis
    by (simp only: concat_pieces) simp
qed

text \<open>
  What the peer sends after the handshakes: the pieces with their headers, which may hold further
  keys, metadata messages that are neither data nor a rejection, and any other messages.
\<close>

datatype peer_event =
  Piece nat bdict
| Metadata bdict bytes
| Other bytes

fun event_message :: "bytes \<Rightarrow> peer_event \<Rightarrow> bytes" where
  "event_message raw (Piece k h) = [EXTENDED_MESSAGE_ID, LOCAL_UT_METADATA_ID] @ bencode (BDict h) @ piece_of raw k"
| "event_message raw (Metadata h v) = [EXTENDED_MESSAGE_ID, LOCAL_UT_METADATA_ID] @ bencode (BDict h) @ v"
| "event_message raw (Other m) = m"

definition header_typed :: "bdict \<Rightarrow> bool" where
  "header_typed h \<longleftrightarrow> decodable h \<and> int_typed h ''msg_type'' \<and> int_typed h ''piece'' \<and> int_typed h ''total_size''"

fun event_ok :: "bytes \<Rightarrow> peer_event \<Rightarrow> bool" where
  "event_ok raw (Piece k h) \<longleftrightarrow> header_typed h
     \<and> int_field h ''msg_type'' = Some 1 \<and> int_field h ''piece'' = Some (of_nat k)
     \<and> (int_field h ''total_size'' = None \<or> int_field h ''total_size'' = Some (of_nat (length raw)))"
| "event_ok raw (Metadata h v) \<longleftrightarrow> header_typed h
     \<and> (\<exists>t. int_field h ''msg_type'' = Some t \<and> t \<noteq> 1 \<and> t \<noteq> 2) \<and> int_field h ''piece'' \<noteq> None"
| "event_ok raw (Other m) \<longleftrightarrow> ignored_message m"

fun event_piece :: "peer_event \<Rightarrow> nat list" where
  "event_piece (Piece k h) = [k]"
| "event_piece _ = []"

lemma decode_metadata_served:
  fixes bd :: "'b bendy"
  assumes "reads_bencode bd" and "header_typed h" and "int_field h ''msg_type'' = Some t" and "int_field h ''piece'' = Some p"
  shows "(decode_metadata_message bd (bencode (BDict h) @ v) :: ('io, 'b) requester_error + _) =
    Inr (\<lparr>mh_message_type = t, mh_piece = p, mh_total_size = int_field h ''total_size''\<rparr>, v)"
proof -
  have h: "decodable h" and "distinct (map fst h)"
    using assms(2) canonical_distinct by (auto simp: header_typed_def)
  then have "(metadata_pairs None (map (\<lambda>(k, v). (k, object_of v)) h) None None None :: ('io, 'b) requester_error + _)
      = Inr (Some t, Some p, int_field h ''total_size'')"
    using assms(2-4) by (simp add: header_typed_def metadata_pairs_fields opt_or_def split: option.split)
  moreover note reads_bencodeD [OF assms(1) h]
  ultimately show ?thesis
    by (simp add: decode_metadata_message_def del: bencode.simps)
qed

definition stored :: "bytes \<Rightarrow> nat set \<Rightarrow> bytes option list \<Rightarrow> bool" where
  "stored raw K pieces \<longleftrightarrow> length pieces = piece_count_of (length raw)
     \<and> (\<forall>k<length pieces. pieces ! k = (if k \<in> K then Some (piece_of raw k) else None))"

lemma stored_all:
  assumes "stored raw K pieces" and "missing pieces = 0"
  shows "pieces = map (\<lambda>k. Some (piece_of raw k)) [0..<piece_count_of (length raw)]"
proof (rule nth_equalityI)
  show "length pieces = length (map (\<lambda>k. Some (piece_of raw k)) [0..<piece_count_of (length raw)])"
    using assms(1) by (simp add: stored_def)
  fix k
  assume k: "k < length pieces"
  with assms(2) have "pieces ! k \<noteq> None"
    by (metis missing_0_iff nth_mem)
  with assms(1) k show "pieces ! k = map (\<lambda>k. Some (piece_of raw k)) [0..<piece_count_of (length raw)] ! k"
    by (auto simp: stored_def split: if_splits)
qed

lemma stored_missing: "stored raw K pieces \<Longrightarrow> missing pieces = 0 \<longleftrightarrow> {..<piece_count_of (length raw)} \<subseteq> K"
  by (auto simp: stored_def missing_0_iff in_set_conv_nth split: if_splits)

lemma accept_piece_stored:
  assumes "stored raw K pieces" and "k < piece_count_of (length raw)" and "k \<notin> K"
    and "raw \<noteq> []" and "length raw < MAX_METADATA_SIZE" and "t = None \<or> t = Some (of_nat (length raw))"
  shows "accept_piece (length raw) pieces \<lparr>mh_message_type = ty, mh_piece = of_nat k, mh_total_size = t\<rparr> (piece_of raw k)
      = Inr (pieces[k := Some (piece_of raw k)])"
    and "stored raw (insert k K) (pieces[k := Some (piece_of raw k)])"
proof -
  have small: "sint (of_nat n :: i64) = int n" if "n < MAX_METADATA_SIZE" for n
    using that sint_word_of_int_i64 [of "int n"] by (simp add: in_i64_def)
  obtain m where "piece_count_of (length raw) = Suc m" "m * METADATA_PIECE_SIZE < length raw"
    using div_ceil_bounds [of "length raw" METADATA_PIECE_SIZE] assms(4) by auto
  then have "k < MAX_METADATA_SIZE"
    using assms(2,5) by simp
  with assms small show "accept_piece (length raw) pieces \<lparr>mh_message_type = ty, mh_piece = of_nat k, mh_total_size = t\<rparr> (piece_of raw k)
      = Inr (pieces[k := Some (piece_of raw k)])"
    by (auto simp: accept_piece_Inr stored_def piece_of_length)
  show "stored raw (insert k K) (pieces[k := Some (piece_of raw k)])"
    using assms(1,2) by (auto simp: stored_def nth_list_update)
qed

lemma read_pieces_served:
  fixes bd :: "'b bendy" and c :: "'io conn"
  assumes "reads_bencode bd" and "raw \<noteq> []" and "length raw < MAX_METADATA_SIZE"
    and "\<And>ev. ev \<in> set es \<Longrightarrow> event_ok raw ev \<and> length (event_message raw ev) \<le> MAX_METADATA_SIZE"
    and "stored raw K pieces" and "distinct (concat (map event_piece es))"
    and "set (concat (map event_piece es)) = {..<piece_count_of (length raw)} - K"
    and "wc_in c = concat (map (\<lambda>ev. frame (event_message raw ev)) es) @ w"
  shows "\<exists>c'. read_pieces bd peer (length raw) pieces (missing pieces) c =
    Some (Inr (map (\<lambda>k. Some (piece_of raw k)) [0..<piece_count_of (length raw)], c'))"
  using assms(4-)
proof (induction es arbitrary: K pieces c)
  case Nil
  then have "missing pieces = 0"
    by (subst stored_missing [of raw K]) auto
  with stored_all [OF Nil.prems(2)] show ?case
    by (subst read_pieces.simps) (simp add: wret_def)
next
  case (Cons ev es)
  show ?case
  proof (cases "missing pieces = 0")
    case True
    with stored_all [OF Cons.prems(2)] show ?thesis
      by (subst read_pieces.simps) (simp add: wret_def)
  next
    case False
    let ?d = "c\<lparr>wc_in := concat (map (\<lambda>ev. frame (event_message raw ev)) es) @ w\<rparr>"
    have ev: "event_ok raw ev" "length (event_message raw ev) \<le> MAX_METADATA_SIZE"
      using Cons.prems(1) by auto
    have "(read_message peer :: ('io, 'b, bytes) wire) c = Some (Inr (event_message raw ev, ?d))"
      using Cons.prems ev(2) by (intro read_message_frame) auto
    note step = read_pieces_step [OF False this, of bd "length raw" pieces]
    show ?thesis
    proof (cases ev)
      case (Piece k h)
      have k: "k < piece_count_of (length raw)" "k \<notin> K"
        using Cons.prems(4) Piece by auto
      let ?ps = "pieces[k := Some (piece_of raw k)]"
      have "(accept_piece (length raw) pieces
          \<lparr>mh_message_type = 1, mh_piece = word_of_nat k, mh_total_size = int_field h ''total_size''\<rparr> (piece_of raw k)
          :: ('io, 'b) requester_error + _) = Inr ?ps"
        using ev(1) Piece by (intro accept_piece_stored(1) [OF Cons.prems(2) k assms(2,3)]) simp
      then have "read_pieces bd peer (length raw) pieces (missing pieces) c =
          read_pieces bd peer (length raw) ?ps (missing pieces - 1) ?d"
        unfolding step using ev(1) Piece assms(1)
        by (simp add: ignored_message_def decode_metadata_served del: bencode.simps)
      moreover have "missing pieces - 1 = missing ?ps"
        using missing_update [of k pieces "piece_of raw k"] Cons.prems(2) k by (auto simp: stored_def)
      moreover have "\<exists>c'. read_pieces bd peer (length raw) ?ps (missing ?ps) ?d =
          Some (Inr (map (\<lambda>k. Some (piece_of raw k)) [0..<piece_count_of (length raw)], c'))"
        using Cons.prems Piece by (intro Cons.IH [of "insert k K"] accept_piece_stored(2) [OF Cons.prems(2) k assms(2,3)]) auto
      ultimately show ?thesis
        by simp
    next
      case (Metadata h v)
      then obtain t p where tp: "header_typed h" "int_field h ''msg_type'' = Some t" "t \<noteq> 1" "t \<noteq> 2" "int_field h ''piece'' = Some p"
        using ev(1) by auto
      have "read_pieces bd peer (length raw) pieces (missing pieces) c = read_pieces bd peer (length raw) pieces (missing pieces) ?d"
        unfolding step using Metadata tp
        by (simp add: ignored_message_def decode_metadata_served [OF assms(1)] del: bencode.simps)
      with Cons.IH [of K pieces ?d] Cons.prems Metadata show ?thesis
        by simp
    next
      case (Other m)
      then have "read_pieces bd peer (length raw) pieces (missing pieces) c = read_pieces bd peer (length raw) pieces (missing pieces) ?d"
        unfolding step using ev(1) by simp
      with Cons.IH [of K pieces ?d] Cons.prems Other show ?thesis
        by simp
    qed
  qed
qed

lemma read_all_pieces_served:
  fixes bd :: "'b bendy" and c :: "'io conn"
  assumes "reads_bencode bd" and "raw \<noteq> []" and "length raw < MAX_METADATA_SIZE"
    and "\<And>ev. ev \<in> set es \<Longrightarrow> event_ok raw ev \<and> length (event_message raw ev) \<le> MAX_METADATA_SIZE"
    and "distinct (concat (map event_piece es))"
    and "set (concat (map event_piece es)) = {..<piece_count_of (length raw)}"
    and "wc_in c = concat (map (\<lambda>ev. frame (event_message raw ev)) es) @ w"
  shows "\<exists>c'. read_all_pieces bd peer (length raw) c = Some (Inr (raw, c'))"
proof -
  have "stored raw {} (replicate (piece_count_of (length raw)) None)"
    by (simp add: stored_def)
  from read_pieces_served [OF assms(1-4) this assms(5) _ assms(7), of peer] assms(6)
  obtain c' where "read_pieces bd peer (length raw) (replicate (piece_count_of (length raw)) None) (piece_count_of (length raw)) c
      = Some (Inr (map (\<lambda>k. Some (piece_of raw k)) [0..<piece_count_of (length raw)], c'))"
    by auto
  moreover have "None \<notin> (\<lambda>k. Some (piece_of raw k)) ` A" for A
    by auto
  ultimately show ?thesis
    using concat_all_pieces [OF assms(2)]
    by (simp add: read_all_pieces_def Let_def wbind_def wret_def comp_def)
qed

lemma write_all_served:
  assumes "wc_writes c = []"
  shows "write_all peer stage v c = Some (Inr ((), c\<lparr>wc_out := wc_out c @ v\<rparr>))"
  using assms by (cases c) (simp add: write_all_def)

lemma request_pieces_served:
  fixes c :: "'io conn"
  assumes "\<And>k. k \<in> set ks \<Longrightarrow> piece_request k i \<noteq> None" and "wc_writes c = []"
  shows "\<exists>out. (request_pieces peer i ks :: ('io, 'b, unit) wire) c = Some (Inr ((), c\<lparr>wc_out := out\<rparr>))"
  using assms
proof (induction ks arbitrary: c)
  case Nil
  then show ?case
    by (auto simp: wret_def intro!: exI [of _ "wc_out c"])
next
  case (Cons k ks)
  obtain f where "piece_request k i = Some f"
    using Cons.prems(1) [of k] by auto
  with Cons.IH [of "c\<lparr>wc_out := wc_out c @ f\<rparr>"] Cons.prems show ?case
    by (simp add: wbind_def write_all_served)
qed

lemma request_all_pieces_served:
  fixes c :: "'io conn"
  assumes "0 < n" and "n < MAX_METADATA_SIZE" and "wc_writes c = []"
  shows "\<exists>out. (request_all_pieces peer n i :: ('io, 'b, unit) wire) c = Some (Inr ((), c\<lparr>wc_out := out\<rparr>))"
  unfolding request_all_pieces_def
  by (rule request_pieces_served) (use assms piece_request_Some in auto)

lemma bit_torrent_handshake_served:
  fixes c :: "'io conn"
  assumes "wc_writes c = []" and "length reserved = 8" and "reserved ! 5 AND 0x10 \<noteq> 0" and "length remote_id = 20"
    and "wc_in c = PROTOCOL @ reserved @ as_bytes info_hash @ remote_id @ w"
  shows "\<exists>out. (perform_bit_torrent_handshake peer info_hash peer_id :: ('io, 'b, bytes) wire) c
    = Some (Inr (remote_id, c\<lparr>wc_in := w, wc_out := out\<rparr>))"
proof -
  have p: "length PROTOCOL = 20"
    by (simp add: PROTOCOL_def bstr_def)
  let ?r = "PROTOCOL @ reserved @ as_bytes info_hash @ remote_id"
  have "take HANDSHAKE_SIZE (wc_in c) = ?r" "drop HANDSHAKE_SIZE (wc_in c) = w" "HANDSHAKE_SIZE \<le> length (wc_in c)"
    using assms p by simp_all
  moreover have "?r ! 25 = reserved ! 5" "take 20 (drop 28 ?r) = as_bytes info_hash" "drop 48 ?r = remote_id" "take 20 ?r = PROTOCOL"
    using assms p by (simp_all add: nth_append)
  ultimately show ?thesis
    using assms(1,3)
    by (intro exI [of _ "wc_out c @ handshake_request info_hash peer_id"])
      (simp add: perform_bit_torrent_handshake_def wbind_def write_all_served read_exact_def wret_def)
qed

text \<open>The bytes a peer sends when it serves the metadata, and when they are in order.\<close>

definition served_stream :: "bytes \<Rightarrow> id20 \<Rightarrow> bytes \<Rightarrow> bytes list \<Rightarrow> bdict \<Rightarrow> bytes \<Rightarrow> peer_event list \<Rightarrow> bytes" where
  "served_stream reserved info_hash remote_id ms d raw es =
     PROTOCOL @ reserved @ as_bytes info_hash @ remote_id @ concat (map frame ms)
     @ frame ([EXTENDED_MESSAGE_ID, EXTENSION_HANDSHAKE_ID] @ bencode (BDict d))
     @ concat (map (\<lambda>ev. frame (event_message raw ev)) es)"

definition serves :: "bytes \<Rightarrow> bytes \<Rightarrow> bytes list \<Rightarrow> bdict \<Rightarrow> bytes \<Rightarrow> peer_event list \<Rightarrow> bool" where
  "serves reserved remote_id ms d raw es \<longleftrightarrow>
     length reserved = 8 \<and> reserved ! 5 AND 0x10 \<noteq> 0 \<and> length remote_id = 20
     \<and> list_all (\<lambda>m. length m \<le> MAX_METADATA_SIZE \<and> (length m < 2 \<or> m ! 0 \<noteq> EXTENDED_MESSAGE_ID)) ms
     \<and> length (bencode (BDict d)) + 2 \<le> MAX_METADATA_SIZE
     \<and> (\<exists>i. handshake_fields d (of_nat (length raw)) i \<and> 1 \<le> sint i \<and> sint i \<le> 254)
     \<and> raw \<noteq> [] \<and> length raw < MAX_METADATA_SIZE
     \<and> list_all (\<lambda>ev. event_ok raw ev \<and> length (event_message raw ev) \<le> MAX_METADATA_SIZE) es
     \<and> distinct (concat (map event_piece es))
     \<and> set (concat (map event_piece es)) = {..<piece_count_of (length raw)}"

lemma request_over_stream_served:
  fixes bd :: "'b bendy" and c :: "'io conn"
  assumes "reads_bencode bd" and "serves reserved remote_id ms d raw es"
    and "wc_writes c = []" and "wc_in c = served_stream reserved info_hash remote_id ms d raw es @ w"
  shows "\<exists>c'. request_over_stream bd parse peer info_hash peer_id c =
    wlift (map_err ParseFailed (parse (as_bytes info_hash) raw)) c'"
proof -
  obtain i where i: "handshake_fields d (of_nat (length raw)) i" "1 \<le> sint i" "sint i \<le> 254"
    using assms(2) by (auto simp: serves_def)
  note s = assms(2) [unfolded serves_def list_all_iff]
  have n: "sint (of_nat (length raw) :: i64) = int (length raw)"
    using s sint_word_of_int_i64 [of "int (length raw)"] by (simp add: in_i64_def)
  let ?p = "concat (map (\<lambda>ev. frame (event_message raw ev)) es) @ w"
  let ?e = "concat (map frame ms) @ frame ([EXTENDED_MESSAGE_ID, EXTENSION_HANDSHAKE_ID] @ bencode (BDict d)) @ ?p"
  let ?x = "\<lparr>eh_metadata_size = length raw, eh_remote_ut_metadata_id = of_int (sint i) :: u8\<rparr>"
  obtain o1 where 1: "(perform_bit_torrent_handshake peer info_hash peer_id :: ('io, 'b, bytes) wire) c
      = Some (Inr (remote_id, c\<lparr>wc_in := ?e, wc_out := o1\<rparr>))"
    using bit_torrent_handshake_served [of c reserved remote_id info_hash ?e peer peer_id] assms(3,4) s
    by (auto simp: served_stream_def)
  define c1 where "c1 = c\<lparr>wc_in := ?e, wc_out := o1 @ EXTENSION_HANDSHAKE_REQUEST\<rparr>"
  have "(decode_extension_handshake bd (bencode (BDict d)) :: ('io, 'b) requester_error + _) = Inr ?x"
    using decode_extension_handshake_served [OF assms(1) i(1)] i n s by (simp add: Suc_le_eq del: bencode.simps)
  then have "extension_loop bd peer c1 = Some (Inr (?x, c1\<lparr>wc_in := ?p\<rparr>))"
    by (intro extension_loop_served [where ms = ms and payload = "bencode (BDict d)"]) (use s in \<open>auto simp: c1_def simp del: bencode.simps\<close>)
  then have 2: "perform_extension_handshake bd peer (c\<lparr>wc_in := ?e, wc_out := o1\<rparr>) = Some (Inr (?x, c1\<lparr>wc_in := ?p\<rparr>))"
    using assms(3) by (simp add: perform_extension_handshake_def wbind_def write_all_served c1_def)
  obtain o2 where 3: "(request_all_pieces peer (length raw) (of_int (sint i)) :: ('io, 'b, unit) wire) (c1\<lparr>wc_in := ?p\<rparr>)
      = Some (Inr ((), c1\<lparr>wc_in := ?p, wc_out := o2\<rparr>))"
    using request_all_pieces_served [of "length raw" "c1\<lparr>wc_in := ?p\<rparr>" peer "of_int (sint i)"] s assms(3)
    by (auto simp: c1_def)
  obtain c' where 4: "read_all_pieces bd peer (length raw) (c1\<lparr>wc_in := ?p, wc_out := o2\<rparr>) = Some (Inr (raw, c'))"
    using read_all_pieces_served [OF assms(1), of raw es "c1\<lparr>wc_in := ?p, wc_out := o2\<rparr>" w peer] s by auto
  from 1 2 3 4 show ?thesis
    by (intro exI [of _ c']) (simp add: request_over_stream_def wbind_def del: bencode.simps)
qed

section \<open>A decoder that reads canonical bytes\<close>

definition reference_bendy :: "unit bendy" where
  "reference_bendy = \<lparr>
     bd_next_object = (\<lambda>_ v. case read_value (length v) v of Some (x, w) \<Rightarrow> Inr (Some (object_of x)) | None \<Rightarrow> Inl ()),
     bd_has_trailing = (\<lambda>_ v. case read_value (length v) v of Some (x, w) \<Rightarrow> Inr (w \<noteq> []) | None \<Rightarrow> Inl ()),
     bd_raw_length = (\<lambda>_ v. case read_value (length v) v of Some (x, w) \<Rightarrow> Inr (length v - length w) | None \<Rightarrow> Inl ())\<rparr>"

lemma reference_bendy_reads: "reads_bencode reference_bendy"
proof -
  have "read_value (length (bencode v @ w)) (bencode v @ w) = Some (v, w)" for v w
    by (rule read_value_bencode) simp
  from this [of _ "[]"] this show ?thesis
    by (simp add: reads_bencode_def reference_bendy_def del: bencode.simps)
qed

section \<open>Properties\<close>


text \<open>A peer that serves a small dictionary in one piece, after a message that is ignored.\<close>

definition sample_raw :: bytes where
  "sample_raw = bencode (BDict [(bstr ''length'', BInt 5)])"

definition sample_handshake :: bdict where
  "sample_handshake = [(bstr ''m'', BDict [(bstr ''ut_metadata'', BInt 2)]), (bstr ''metadata_size'', BInt 13)]"

definition sample_events :: "peer_event list" where
  "sample_events = [Other [], Piece 0 [(bstr ''msg_type'', BInt 1), (bstr ''piece'', BInt 0)]]"

definition sample_conn :: "unit conn" where
  "sample_conn = \<lparr>
     wc_in = served_stream [0, 0, 0, 0, 0, 0x10, 0, 0] (Id20 (replicate 20 7)) (replicate 20 9) [[]] sample_handshake sample_raw sample_events,
     wc_end = (), wc_writes = [], wc_out = []\<rparr>"

definition sample_sha1 :: "bytes \<Rightarrow> bytes" where
  "sample_sha1 v = replicate 20 7"

definition sample_sha256 :: "bytes \<Rightarrow> bytes" where
  "sample_sha256 v = replicate 32 8"

definition sample_next :: "nat \<Rightarrow> bytes \<Rightarrow> string + bvalue option" where
  "sample_next depth v = (case read_value (length v) v of Some (x, w) \<Rightarrow> Inr (Some x) | None \<Rightarrow> Inl ''syntax'')"

definition sample_trailing :: "nat \<Rightarrow> bytes \<Rightarrow> string + bool" where
  "sample_trailing depth v = (case read_value (length v) v of Some (x, w) \<Rightarrow> Inr (w \<noteq> []) | None \<Rightarrow> Inl ''syntax'')"

abbreviation sample_parse :: "bytes \<Rightarrow> bytes \<Rightarrow> parse_info_error + parsed_info" where
  "sample_parse \<equiv> parse_info_bytes sample_sha1 sample_sha256 sample_next sample_trailing"

abbreviation sample_hash :: id20 where
  "sample_hash \<equiv> Id20 (replicate 20 7)"

abbreviation sample_peer_id :: id20 where
  "sample_peer_id \<equiv> Id20 (replicate 20 1)"

definition sample_peer :: socket_addr_v4 where
  "sample_peer = (Ipv4Addr 127 0 0 1, 6881)"

lemma sample_conn_fields [simp]:
  "wc_in sample_conn = served_stream [0, 0, 0, 0, 0, 0x10, 0, 0] sample_hash (replicate 20 9) [[]] sample_handshake sample_raw sample_events @ []"
  "wc_writes sample_conn = []" "wc_out sample_conn = []"
  by (simp_all add: sample_conn_def)

lemma sample_raw_bytes: "sample_raw = bstr ''d6:lengthi5ee''"
  by (simp add: sample_raw_def string_bytes_def int_bytes_def dec_bytes_rec bstr_def)

lemma sample_serves: "serves [0, 0, 0, 0, 0, 0x10, 0, 0] (replicate 20 9) [[]] sample_handshake sample_raw sample_events"
proof -
  have "\<exists>i. handshake_fields sample_handshake (of_nat (length sample_raw)) i \<and> 1 \<le> sint i \<and> sint i \<le> 254"
    by (rule exI [of _ 2])
      (simp add: handshake_fields_def sample_handshake_def sample_raw_bytes bstr_def)
  moreover have "list_all (\<lambda>ev. event_ok sample_raw ev \<and> length (event_message sample_raw ev) \<le> MAX_METADATA_SIZE) sample_events"
    by (simp add: sample_events_def header_typed_def int_typed_def int_field_def sample_raw_bytes bstr_def
        ignored_message_def piece_of_def string_bytes_def int_bytes_def dec_bytes_rec)
  ultimately show ?thesis
    by (simp add: serves_def sample_events_def sample_raw_bytes bstr_def div_ceil_def sample_handshake_def
        string_bytes_def int_bytes_def dec_bytes_rec lessThan_Suc)
qed

lemma sample_parsed: "\<exists>p. sample_parse (replicate 20 7) sample_raw = Inr p \<and> in_length (pi_info p) = 5"
proof -
  have "read_value (length sample_raw) sample_raw = Some (BDict [(bstr ''length'', BInt 5)], [])"
    using read_value_bencode [of "BDict [(bstr ''length'', BInt 5)]" _ "[]"] by (simp add: sample_raw_def del: bencode.simps)
  then show ?thesis
    by (simp add: sample_sha1_def sample_sha256_def sample_next_def sample_trailing_def parse_info_bytes_def decode_info_def take_integer_def take_bytes_def take_value_def bstr_def)
qed

lemma sample_served:
  "\<exists>p c'. request_over_stream reference_bendy sample_parse sample_peer sample_hash sample_peer_id sample_conn
     = Some (Inr (p, c')) \<and> in_length (pi_info p) = 5"
proof -
  obtain p where "sample_parse (replicate 20 7) sample_raw = Inr p" "in_length (pi_info p) = 5"
    using sample_parsed by blast
  then show ?thesis
    using request_over_stream_served [OF reference_bendy_reads sample_serves sample_conn_fields(2,1), of sample_parse sample_peer sample_peer_id]
    by (auto simp: wlift_def)
qed


text \<open>
  (C16)
  A peer that serves the metadata is understood: when the peer completes the handshakes and sends
  every piece once, in any order and between messages that concern something else, the download
  ends with the verdict on exactly the bytes the peer has. The decoder is expected to read
  canonical bencode.
\<close>

theorem peer_wire_served:
  fixes bd :: "'b bendy" and c :: "'io conn"
  assumes "reads_bencode bd" and "serves reserved remote_id ms d raw es"
    and "wc_writes c = []" and "wc_in c = served_stream reserved info_hash remote_id ms d raw es @ w"
  shows "\<exists>c'. request_over_stream bd (parse_info_bytes sha1 sha256 next_value has_trailing) peer info_hash peer_id c =
    (case parse_info_bytes sha1 sha256 next_value has_trailing (as_bytes info_hash) raw of
       Inl e \<Rightarrow> Some (Inl (ParseFailed e))
     | Inr p \<Rightarrow> Some (Inr (p, c')))"
  using request_over_stream_served [OF assms, of "parse_info_bytes sha1 sha256 next_value has_trailing" peer peer_id]
  by (auto simp: wlift_def split: sum.splits)

theorem peer_wire_served_witness:
  "reads_bencode reference_bendy
   \<and> serves [0, 0, 0, 0, 0, 0x10, 0, 0] (replicate 20 9) [[]] sample_handshake sample_raw sample_events
   \<and> (\<exists>p c'. request_over_stream reference_bendy sample_parse sample_peer sample_hash sample_peer_id sample_conn
        = Some (Inr (p, c')) \<and> in_length (pi_info p) = 5)"
proof -
  obtain p where "sample_parse (replicate 20 7) sample_raw = Inr p" "in_length (pi_info p) = 5"
    using sample_parsed by blast
  then show ?thesis
    using reference_bendy_reads sample_serves
      peer_wire_served [OF reference_bendy_reads sample_serves sample_conn_fields(2,1), of sample_sha1 sample_sha256 sample_next
        sample_trailing sample_peer sample_peer_id]
    by auto
qed

end
