(* ===== verification/Triage.thy ===== *)
theory Triage
  imports Counters Blocking Compact
begin

text \<open>
  \<open>bitmagnet-dht-crawler/src/info_hash_triage.rs\<close>: the worker that takes sampled info hashes in
  batches, drops the blocked ones, looks the others up and routes each to the search for peers, to
  a scrape or nowhere; and \<open>blocking_manager_filter.rs\<close>, which makes the blocking manager its
  filter.

  The worker is one task. What it waits for is scripted: the requests in the order they arrive,
  with gaps in which nothing can be received, the number of waits after which the shutdown is
  ready, and whether the batch delay is over at each wait for more. The filter, the database, the
  clock and the two routes act on a state of the world. \<open>None\<close> is a panic.
\<close>

section \<open>Data\<close>

record triage_request =
  tr_info_hash :: id20
  tr_source_node_addr :: socket_addr

datatype files_status = NoInfo | Single | Multi | OverThreshold

record triage_row =
  rw_info_hash :: id20
  rw_files_status :: files_status
  rw_files_count :: "u64 option"
  rw_dht_seeders :: "u64 option"
  rw_dht_leechers :: "u64 option"
  rw_dht_updated_at_unix_micros :: "i64 option"

record triage_config =
  tc_batch_limit :: nat
  tc_batch_interval :: duration
  tc_save_files_threshold :: u64
  tc_rescrape_threshold :: duration

definition default_triage_config :: triage_config where
  "default_triage_config =
     \<lparr>tc_batch_limit = 1000, tc_batch_interval = 20 * nanos_per_sec, tc_save_files_threshold = 100,
      tc_rescrape_threshold = 30 * 24 * 60 * 60 * nanos_per_sec\<rparr>"

record triage_stats =
  ts_dequeued :: u64
  ts_batches :: u64
  ts_input_duplicates_dropped :: u64
  ts_filter_calls :: u64
  ts_filter_failures :: u64
  ts_filter_hashes_returned :: u64
  ts_filter_suppressed :: u64
  ts_filter_failure_dropped :: u64
  ts_filter_contract_dropped :: u64
  ts_lookup_calls :: u64
  ts_lookup_failures :: u64
  ts_lookup_failure_dropped :: u64
  ts_unknown_filtered_hashes_dropped :: u64
  ts_get_peers_queued :: u64
  ts_scrape_queued :: u64
  ts_discarded :: u64
  ts_route_closures :: u64
  ts_shutdown_queued_dropped :: u64
  ts_shutdown_batch_dropped :: u64
  ts_route_closed_queued_dropped :: u64
  ts_route_closed_batch_dropped :: u64

definition default_triage_stats :: triage_stats where
  "default_triage_stats =
     \<lparr>ts_dequeued = 0, ts_batches = 0, ts_input_duplicates_dropped = 0, ts_filter_calls = 0,
      ts_filter_failures = 0, ts_filter_hashes_returned = 0, ts_filter_suppressed = 0,
      ts_filter_failure_dropped = 0, ts_filter_contract_dropped = 0, ts_lookup_calls = 0,
      ts_lookup_failures = 0, ts_lookup_failure_dropped = 0, ts_unknown_filtered_hashes_dropped = 0,
      ts_get_peers_queued = 0, ts_scrape_queued = 0, ts_discarded = 0, ts_route_closures = 0,
      ts_shutdown_queued_dropped = 0, ts_shutdown_batch_dropped = 0,
      ts_route_closed_queued_dropped = 0, ts_route_closed_batch_dropped = 0\<rparr>"

text \<open>Numbers of dropped requests: queued, then in the batch.\<close>

datatype triage_exit =
  InputClosed
| Shutdown nat nat
| GetPeersClosed triage_request nat nat
| ScrapeClosed triage_request nat nat

datatype route = RouteGetPeers | RouteScrape

datatype batch_result =
  Complete
| BatchShutdown nat
| BatchGetPeersClosed triage_request nat
| BatchScrapeClosed triage_request nat

section \<open>Time\<close>

definition duration_micros_i64 :: "duration \<Rightarrow> i64" where
  "duration_micros_i64 d = (if d div 1000 < 2 ^ 63 then of_nat (d div 1000) else 2 ^ 63 - 1)"

definition duration_micros_i128 :: "duration \<Rightarrow> int" where
  "duration_micros_i128 d = int (d div 1000)"

text \<open>A wall-clock time is its distance from the epoch in nanoseconds.\<close>

definition i64_saturating_neg :: "i64 \<Rightarrow> i64" where
  "i64_saturating_neg i = (if sint i = - (2 ^ 63) then 2 ^ 63 - 1 else - i)"

definition system_time_unix_micros :: "int \<Rightarrow> i64" where
  "system_time_unix_micros t =
     (if 0 \<le> t then duration_micros_i64 (nat t) else i64_saturating_neg (duration_micros_i64 (nat (- t))))"

section \<open>The worker and what it calls\<close>

record ('s, 'e) triage_env =
  te_filter :: "id20 list \<Rightarrow> 's \<Rightarrow> (('e + id20 list) \<times> 's) option"
  te_lookup :: "id20 list \<Rightarrow> 's \<Rightarrow> (('e + triage_row list) \<times> 's) option"
  te_now_unix_micros :: "'s \<Rightarrow> i64 \<times> 's"
  te_get_peers_send :: "triage_request \<Rightarrow> 's \<Rightarrow> bool \<times> 's" \<comment> \<open>false: the receiver is gone\<close>
  te_scrape_send :: "triage_request \<Rightarrow> 's \<Rightarrow> bool \<times> 's"
  te_cancelled :: "'s \<Rightarrow> 's" \<comment> \<open>what a filter or lookup cut off by the shutdown leaves behind\<close>

record 's triage_worker =
  tw_input :: "triage_request option list" \<comment> \<open>\<open>None\<close> is a gap; every sender is gone at the end\<close>
  tw_shutdown :: "nat option" \<comment> \<open>how many waits end before the shutdown is ready\<close>
  tw_delays :: "bool list" \<comment> \<open>whether the delay is over at the waits for more; over at the end\<close>
  tw_stats :: triage_stats
  tw_world :: 's

definition count_in :: "(triage_stats \<Rightarrow> triage_stats) \<Rightarrow> 's triage_worker \<Rightarrow> 's triage_worker" where
  "count_in f w = w\<lparr>tw_stats := f (tw_stats w)\<rparr>"

text \<open>The first branch of a biased \<open>select!\<close>.\<close>

definition poll_shutdown :: "'s triage_worker \<Rightarrow> bool \<times> 's triage_worker" where
  "poll_shutdown w =
     (case tw_shutdown w of
        None \<Rightarrow> (False, w)
      | Some 0 \<Rightarrow> (True, w)
      | Some (Suc n) \<Rightarrow> (False, w\<lparr>tw_shutdown := Some n\<rparr>))"

definition poll_delay :: "'s triage_worker \<Rightarrow> bool \<times> 's triage_worker" where
  "poll_delay w = (case tw_delays w of [] \<Rightarrow> (True, w) | d # ds \<Rightarrow> (d, w\<lparr>tw_delays := ds\<rparr>))"

definition recv_input :: "'s triage_worker \<Rightarrow> triage_request option \<times> 's triage_worker" where
  "recv_input w =
     (case dropWhile (\<lambda>x. x = None) (tw_input w) of
        [] \<Rightarrow> (None, w\<lparr>tw_input := []\<rparr>)
      | x # rest \<Rightarrow> (x, w\<lparr>tw_input := rest\<rparr>))"

text \<open>\<open>try_recv\<close> until the batch is full, nothing is there or the input is disconnected.\<close>

fun take_ready ::
  "nat \<Rightarrow> triage_request option list \<Rightarrow> triage_request list \<Rightarrow> triage_stats
   \<Rightarrow> triage_request list \<times> bool \<times> triage_request option list \<times> triage_stats" where
  "take_ready limit input batch s =
     (if limit \<le> length batch then (batch, False, input, s)
      else case input of
             [] \<Rightarrow> (batch, True, input, s)
           | None # rest \<Rightarrow> (batch, False, input, s)
           | Some request # rest \<Rightarrow>
               take_ready limit rest (batch @ [request]) (s\<lparr>ts_dequeued := increment_saturating (ts_dequeued s)\<rparr>))"

declare take_ready.simps [simp del]

definition drain_ready ::
  "nat \<Rightarrow> triage_request list \<Rightarrow> 's triage_worker \<Rightarrow> triage_request list \<times> bool \<times> 's triage_worker" where
  "drain_ready limit batch w =
     (let (batch, closed, input, s) = take_ready limit (tw_input w) batch (tw_stats w)
      in (batch, closed, w\<lparr>tw_input := input, tw_stats := s\<rparr>))"

definition close_and_drain_input :: "'s triage_worker \<Rightarrow> nat \<times> 's triage_worker" where
  "close_and_drain_input w = (length (takeWhile (\<lambda>x. x \<noteq> None) (tw_input w)), w\<lparr>tw_input := []\<rparr>)"

definition finish_shutdown :: "nat \<Rightarrow> 's triage_worker \<Rightarrow> triage_exit \<times> 's triage_worker" where
  "finish_shutdown batch_dropped w =
     (let (queued_dropped, w) = close_and_drain_input w
      in (Shutdown queued_dropped batch_dropped,
          count_in (\<lambda>s. s\<lparr>ts_shutdown_queued_dropped := add_saturating (ts_shutdown_queued_dropped s) queued_dropped,
                          ts_shutdown_batch_dropped := add_saturating (ts_shutdown_batch_dropped s) batch_dropped\<rparr>) w))"

section \<open>Batches\<close>

text \<open>The map of requests by hash and the distinct hashes in order; a later duplicate is dropped.\<close>

fun index_requests ::
  "triage_request list \<Rightarrow> (id20, triage_request) hmap \<Rightarrow> id20 list \<Rightarrow> triage_stats
   \<Rightarrow> (id20, triage_request) hmap \<times> id20 list \<times> triage_stats" where
  "index_requests [] requests unique s = (requests, unique, s)"
| "index_requests (r # rs) requests unique s =
     (if hm_contains requests (tr_info_hash r)
      then index_requests rs requests unique
             (s\<lparr>ts_input_duplicates_dropped := increment_saturating (ts_input_duplicates_dropped s)\<rparr>)
      else index_requests rs (hm_insert (tr_info_hash r) r requests) (unique @ [tr_info_hash r]) s)"

fun first_seen :: "id20 list \<Rightarrow> id20 list \<Rightarrow> id20 list" where
  "first_seen seen [] = []"
| "first_seen seen (h # hs) = (if h \<in> set seen then first_seen seen hs else h # first_seen (h # seen) hs)"

definition index_rows :: "triage_row list \<Rightarrow> (id20, triage_row) hmap" where
  "index_rows rows = fold (\<lambda>row. hm_insert (rw_info_hash row) row) rows []"

text \<open>The decision on one hash. The clock is read only when the counts are known.\<close>

definition decide_route ::
  "('s, 'e) triage_env \<Rightarrow> triage_config \<Rightarrow> triage_row option \<Rightarrow> 's \<Rightarrow> route option \<times> 's" where
  "decide_route env cfg row s =
     (case row of
        None \<Rightarrow> (Some RouteGetPeers, s)
      | Some row \<Rightarrow>
          if rw_files_status row = NoInfo
             \<or> (rw_files_status row \<noteq> Single \<and> rw_files_count row = None)
             \<or> (rw_files_status row = OverThreshold
                 \<and> (case rw_files_count row of None \<Rightarrow> False | Some n \<Rightarrow> n \<le> tc_save_files_threshold cfg))
          then (Some RouteGetPeers, s)
          else if rw_dht_seeders row = None \<or> rw_dht_leechers row = None then (Some RouteScrape, s)
          else let (now, s) = te_now_unix_micros env s;
                   cutoff = sint now - duration_micros_i128 (tc_rescrape_threshold cfg)
               in (if (case rw_dht_updated_at_unix_micros row of None \<Rightarrow> True | Some t \<Rightarrow> sint t < cutoff)
                   then Some RouteScrape else None, s))"

text \<open>The loop over the hashes to route; \<open>batch_dropped\<close> counts the current hash and the later ones.\<close>

fun route_hashes ::
  "('s, 'e) triage_env \<Rightarrow> triage_config \<Rightarrow> (id20, triage_request) hmap \<Rightarrow> (id20, triage_row) hmap \<Rightarrow> id20 list
   \<Rightarrow> 's triage_worker \<Rightarrow> (batch_result \<times> 's triage_worker) option" where
  "route_hashes env cfg requests found [] w = Some (Complete, w)"
| "route_hashes env cfg requests found (h # hs) w =
     (case hm_get requests h of
        None \<Rightarrow> None
      | Some request \<Rightarrow>
          let (route, s) = decide_route env cfg (hm_get found h) (tw_world w);
              w = w\<lparr>tw_world := s\<rparr>;
              batch_dropped = length (h # hs)
          in (case route of
                None \<Rightarrow> route_hashes env cfg requests found hs
                          (count_in (\<lambda>s. s\<lparr>ts_discarded := increment_saturating (ts_discarded s)\<rparr>) w)
              | Some RouteGetPeers \<Rightarrow>
                  let (stop, w) = poll_shutdown w
                  in if stop then Some (BatchShutdown batch_dropped, w)
                     else let (sent, s) = te_get_peers_send env request (tw_world w); w = w\<lparr>tw_world := s\<rparr>
                          in if sent
                             then route_hashes env cfg requests found hs
                                    (count_in (\<lambda>s. s\<lparr>ts_get_peers_queued := increment_saturating (ts_get_peers_queued s)\<rparr>) w)
                             else Some (BatchGetPeersClosed request batch_dropped, w)
              | Some RouteScrape \<Rightarrow>
                  let (stop, w) = poll_shutdown w
                  in if stop then Some (BatchShutdown batch_dropped, w)
                     else let (sent, s) = te_scrape_send env request (tw_world w); w = w\<lparr>tw_world := s\<rparr>
                          in if sent
                             then route_hashes env cfg requests found hs
                                    (count_in (\<lambda>s. s\<lparr>ts_scrape_queued := increment_saturating (ts_scrape_queued s)\<rparr>) w)
                             else Some (BatchScrapeClosed request batch_dropped, w)))"

definition lookup_and_route ::
  "('s, 'e) triage_env \<Rightarrow> triage_config \<Rightarrow> (id20, triage_request) hmap \<Rightarrow> id20 list \<Rightarrow> id20 list
   \<Rightarrow> 's triage_worker \<Rightarrow> (batch_result \<times> 's triage_worker) option" where
  "lookup_and_route env cfg requests filtered routing w =
     (let w = count_in (\<lambda>s. s\<lparr>ts_lookup_calls := increment_saturating (ts_lookup_calls s)\<rparr>) w;
          (stop, w) = poll_shutdown w
      in if stop then Some (BatchShutdown (length routing), w\<lparr>tw_world := te_cancelled env (tw_world w)\<rparr>)
         else case te_lookup env filtered (tw_world w) of
                None \<Rightarrow> None
              | Some (Inl e, s) \<Rightarrow>
                  Some (Complete,
                    count_in (\<lambda>s. s\<lparr>ts_lookup_failures := increment_saturating (ts_lookup_failures s),
                                    ts_lookup_failure_dropped := add_saturating (ts_lookup_failure_dropped s) (length routing)\<rparr>)
                      (w\<lparr>tw_world := s\<rparr>))
              | Some (Inr rows, s) \<Rightarrow> route_hashes env cfg requests (index_rows rows) routing (w\<lparr>tw_world := s\<rparr>))"

definition use_filtered ::
  "('s, 'e) triage_env \<Rightarrow> triage_config \<Rightarrow> (id20, triage_request) hmap \<Rightarrow> id20 list \<Rightarrow> id20 list
   \<Rightarrow> 's triage_worker \<Rightarrow> (batch_result \<times> 's triage_worker) option" where
  "use_filtered env cfg requests unique filtered w =
     (let w = count_in (\<lambda>s. s\<lparr>ts_filter_hashes_returned := add_saturating (ts_filter_hashes_returned s) (length filtered)\<rparr>) w;
          foreign = length (filter (\<lambda>h. \<not> hm_contains requests h) filtered)
      in if filtered = []
         then Some (Complete,
                count_in (\<lambda>s. s\<lparr>ts_filter_suppressed := add_saturating (ts_filter_suppressed s) (length unique)\<rparr>) w)
         else if foreign > 0
         then Some (Complete,
                count_in (\<lambda>s. s\<lparr>ts_unknown_filtered_hashes_dropped := add_saturating (ts_unknown_filtered_hashes_dropped s) foreign,
                                ts_filter_contract_dropped := add_saturating (ts_filter_contract_dropped s) (length unique)\<rparr>) w)
         else let routing = first_seen [] filtered
              in lookup_and_route env cfg requests filtered routing
                   (count_in (\<lambda>s. s\<lparr>ts_filter_suppressed :=
                                      add_saturating (ts_filter_suppressed s) (length unique - length routing)\<rparr>) w))"

definition process_batch ::
  "('s, 'e) triage_env \<Rightarrow> triage_config \<Rightarrow> triage_request list \<Rightarrow> 's triage_worker
   \<Rightarrow> (batch_result \<times> 's triage_worker) option" where
  "process_batch env cfg batch w =
     (let w = count_in (\<lambda>s. s\<lparr>ts_batches := increment_saturating (ts_batches s)\<rparr>) w;
          (requests, unique, s) = index_requests batch [] [] (tw_stats w);
          w = w\<lparr>tw_stats := s\<lparr>ts_filter_calls := increment_saturating (ts_filter_calls s)\<rparr>\<rparr>;
          (stop, w) = poll_shutdown w
      in if stop then Some (BatchShutdown (length unique), w\<lparr>tw_world := te_cancelled env (tw_world w)\<rparr>)
         else case te_filter env unique (tw_world w) of
                None \<Rightarrow> None
              | Some (Inl e, s) \<Rightarrow>
                  Some (Complete,
                    count_in (\<lambda>s. s\<lparr>ts_filter_failures := increment_saturating (ts_filter_failures s),
                                    ts_filter_failure_dropped := add_saturating (ts_filter_failure_dropped s) (length unique)\<rparr>)
                      (w\<lparr>tw_world := s\<rparr>))
              | Some (Inr filtered, s) \<Rightarrow> use_filtered env cfg requests unique filtered (w\<lparr>tw_world := s\<rparr>))"

section \<open>The run\<close>

lemma poll_shutdownD:
  "poll_shutdown w = (stop, w') \<Longrightarrow> tw_input w' = tw_input w \<and> tw_stats w' = tw_stats w \<and> tw_world w' = tw_world w"
  by (auto simp: poll_shutdown_def split: option.splits nat.splits)

lemma poll_delayD:
  "poll_delay w = (elapsed, w') \<Longrightarrow> tw_input w' = tw_input w \<and> tw_stats w' = tw_stats w \<and> tw_world w' = tw_world w"
  by (auto simp: poll_delay_def split: list.splits)

lemma count_in_keeps [simp]:
  "tw_input (count_in f w) = tw_input w" "tw_stats (count_in f w) = f (tw_stats w)"
  "tw_world (count_in f w) = tw_world w"
  by (simp_all add: count_in_def)

lemma recv_input_cases:
  assumes "recv_input w = (x, w')"
  shows "tw_stats w' = tw_stats w" and "tw_world w' = tw_world w"
    and "x = Some r \<Longrightarrow> length (tw_input w') < length (tw_input w)"
  using assms length_dropWhile_le [of "\<lambda>x. x = None" "tw_input w"]
  by (auto simp: recv_input_def split: list.splits)

lemma take_ready_length:
  "take_ready limit input batch s = (batch', closed, input', s') \<Longrightarrow> length input' \<le> length input"
proof (induction input arbitrary: batch s)
  case (Cons x input)
  from Cons.prems show ?case
    by (subst (asm) take_ready.simps) (auto split: if_splits option.splits dest: Cons.IH)
qed (auto simp: take_ready.simps [of _ "[]"] split: if_splits)

lemma drain_ready_length:
  "drain_ready limit batch w = (batch', closed, w') \<Longrightarrow> length (tw_input w') \<le> length (tw_input w)"
  by (auto simp: drain_ready_def Let_def split: prod.splits dest: take_ready_length)

text \<open>The inner loop: fill the batch until it is full, the delay is over or the input is closed.\<close>

function fill_batch ::
  "nat \<Rightarrow> triage_request list \<Rightarrow> 's triage_worker
   \<Rightarrow> (triage_exit \<times> 's triage_worker) + (triage_request list \<times> bool \<times> 's triage_worker)" where
  "fill_batch limit batch w =
     (let (batch, closed, w) = drain_ready limit batch w
      in if limit \<le> length batch \<or> closed then Inr (batch, closed, w)
         else let (stop, w) = poll_shutdown w
              in if stop then Inl (finish_shutdown (length batch) w)
                 else let (elapsed, w) = poll_delay w
                      in if elapsed then Inr (batch, False, w)
                         else (case recv_input w of
                                 (None, w) \<Rightarrow> Inr (batch, True, w)
                               | (Some request, w) \<Rightarrow>
                                   fill_batch limit (batch @ [request])
                                     (count_in (\<lambda>s. s\<lparr>ts_dequeued := increment_saturating (ts_dequeued s)\<rparr>) w)))"
  by pat_completeness auto
termination
  by (relation "measure (\<lambda>(limit, batch, w). length (tw_input w))")
    (auto dest!: drain_ready_length [OF sym] poll_shutdownD [OF sym] poll_delayD [OF sym] recv_input_cases(3) [OF sym])

declare fill_batch.simps [simp del]

definition items :: "triage_request option list \<Rightarrow> nat" where
  "items input = length (filter (\<lambda>x. x \<noteq> None) input)"

text \<open>The ends of dequeued requests, as the statistics count them.\<close>

definition accounted :: "triage_stats \<Rightarrow> nat" where
  "accounted s = unat (ts_input_duplicates_dropped s) + unat (ts_filter_suppressed s)
     + unat (ts_filter_failure_dropped s) + unat (ts_filter_contract_dropped s) + unat (ts_lookup_failure_dropped s)
     + unat (ts_get_peers_queued s) + unat (ts_scrape_queued s) + unat (ts_discarded s)
     + unat (ts_shutdown_batch_dropped s) + unat (ts_route_closed_batch_dropped s)"

text \<open>\<open>n\<close> requests are in flight, and \<open>arrivals\<close> will have arrived in the end.\<close>

definition balanced :: "nat \<Rightarrow> nat \<Rightarrow> 's triage_worker \<Rightarrow> bool" where
  "balanced arrivals n w \<longleftrightarrow> arrivals < 2 ^ 64 \<and> accounted (tw_stats w) + n = unat (ts_dequeued (tw_stats w))
     \<and> unat (ts_dequeued (tw_stats w)) + items (tw_input w) = arrivals"

fun queued_of :: "triage_exit \<Rightarrow> nat" where
  "queued_of InputClosed = 0"
| "queued_of (Shutdown q b) = q"
| "queued_of (GetPeersClosed r q b) = q"
| "queued_of (ScrapeClosed r q b) = q"

definition settled :: "nat \<Rightarrow> triage_exit \<Rightarrow> 's triage_worker \<Rightarrow> bool" where
  "settled arrivals exit w \<longleftrightarrow> accounted (tw_stats w) = unat (ts_dequeued (tw_stats w))
     \<and> unat (ts_dequeued (tw_stats w)) + queued_of exit \<le> arrivals
     \<and> (exit = InputClosed \<longrightarrow> unat (ts_dequeued (tw_stats w)) = arrivals)"

lemma items_simps [simp]: "items [] = 0" "items (None # xs) = items xs" "items (Some r # xs) = Suc (items xs)"
  by (simp_all add: items_def)

lemma items_dropWhile: "items (dropWhile (\<lambda>x. x = None) xs) = items xs"
  by (induction xs) auto

lemma items_takeWhile: "length (takeWhile (\<lambda>x. x \<noteq> None) xs) \<le> items xs"
  by (induction xs) auto

lemma dropWhile_gap: "dropWhile (\<lambda>x. x = None) xs = y # ys \<Longrightarrow> y \<noteq> None"
  by (metis (mono_tags, lifting) hd_dropWhile list.distinct(1) list.sel(1))

lemma recv_input_items:
  assumes "recv_input w = (x, w')"
  shows "x = None \<Longrightarrow> items (tw_input w) = 0" and "x = None \<Longrightarrow> tw_input w' = []"
    and "x = Some r \<Longrightarrow> items (tw_input w) = Suc (items (tw_input w'))"
proof -
  have "(x = None \<longrightarrow> items (tw_input w) = 0 \<and> tw_input w' = [])
      \<and> (x = Some r \<longrightarrow> items (tw_input w) = Suc (items (tw_input w')))"
  proof (cases "dropWhile (\<lambda>x. x = None) (tw_input w)")
    case Nil
    with assms items_dropWhile [of "tw_input w"] show ?thesis
      by (auto simp: recv_input_def)
  next
    case (Cons y ys)
    with assms items_dropWhile [of "tw_input w"] dropWhile_gap [OF Cons] show ?thesis
      by (cases y) (auto simp: recv_input_def)
  qed
  then show "x = None \<Longrightarrow> items (tw_input w) = 0" and "x = None \<Longrightarrow> tw_input w' = []"
    and "x = Some r \<Longrightarrow> items (tw_input w) = Suc (items (tw_input w'))"
    by simp_all
qed

text \<open>What one step does to the accounts.\<close>

lemma balanced_cong:
  "\<lbrakk>balanced arrivals n w; tw_input w' = tw_input w; tw_stats w' = tw_stats w\<rbrakk> \<Longrightarrow> balanced arrivals n w'"
  by (simp add: balanced_def)

lemma dequeue_balanced:
  assumes "balanced arrivals n w" and "recv_input w = (Some r, w')"
  shows "balanced arrivals (Suc n) (count_in (\<lambda>s. s\<lparr>ts_dequeued := increment_saturating (ts_dequeued s)\<rparr>) w')"
  using assms(1) recv_input_cases(1) [OF assms(2)] recv_input_items(3) [OF assms(2)]
    unat_increment_saturating [of "ts_dequeued (tw_stats w)"]
  by (simp add: balanced_def accounted_def)

lemma take_ready_balanced:
  assumes "take_ready limit input batch s = (batch', closed, input', s')"
    and "arrivals < 2 ^ 64" and "accounted s + length batch = unat (ts_dequeued s)" and "unat (ts_dequeued s) + items input = arrivals"
  shows "accounted s' + length batch' = unat (ts_dequeued s') \<and> unat (ts_dequeued s') + items input' = arrivals
    \<and> (closed \<longrightarrow> input' = [])"
  using assms
proof (induction input arbitrary: batch s)
  case Nil
  then show ?case
    by (simp add: take_ready.simps [of _ "[]"] split: if_splits)
next
  case (Cons x input)
  show ?case
  proof (cases "length batch < limit \<and> x \<noteq> None")
    case True
    then obtain r where x: "x = Some r" by auto
    let ?s = "s\<lparr>ts_dequeued := increment_saturating (ts_dequeued s)\<rparr>"
    have "unat (ts_dequeued ?s) = Suc (unat (ts_dequeued s))"
      using Cons.prems x unat_increment_saturating [of "ts_dequeued s"] by simp
    moreover have "take_ready limit (x # input) batch s = take_ready limit input (batch @ [r]) ?s"
      using True x by (subst take_ready.simps) simp
    ultimately show ?thesis
      using Cons.prems x by (intro Cons.IH [of "batch @ [r]" ?s]) (simp_all add: accounted_def)
  next
    case False
    with Cons.prems show ?thesis
      by (subst (asm) take_ready.simps) (auto split: if_splits option.splits)
  qed
qed

lemma drain_ready_balanced:
  assumes "balanced arrivals (length batch) w" and "drain_ready limit batch w = (batch', closed, w')"
  shows "balanced arrivals (length batch') w' \<and> (closed \<longrightarrow> tw_input w' = [])"
proof -
  obtain input s where t: "take_ready limit (tw_input w) batch (tw_stats w) = (batch', closed, input, s)"
    and w': "w' = w\<lparr>tw_input := input, tw_stats := s\<rparr>"
    using assms(2) by (auto simp: drain_ready_def Let_def split: prod.splits)
  show ?thesis
    using take_ready_balanced [OF t] assms(1) by (simp add: balanced_def w')
qed

lemma finish_shutdown_settled:
  assumes "balanced arrivals n w"
  shows "settled arrivals (fst (finish_shutdown n w)) (snd (finish_shutdown n w))"
  using assms items_takeWhile [of "tw_input w"] unat_add_saturating [of "ts_shutdown_batch_dropped (tw_stats w)" n]
  by (simp add: finish_shutdown_def close_and_drain_input_def Let_def settled_def balanced_def accounted_def)

lemma fill_batch_cases:
  assumes "drain_ready limit batch w = (b, closed, w1)" and "poll_shutdown w1 = (stop, w2)"
    and "poll_delay w2 = (elapsed, w3)" and "recv_input w3 = (x, w4)"
  shows "limit \<le> length b \<or> closed \<Longrightarrow> fill_batch limit batch w = Inr (b, closed, w1)"
    and "\<lbrakk>length b < limit; \<not> closed; stop\<rbrakk> \<Longrightarrow> fill_batch limit batch w = Inl (finish_shutdown (length b) w2)"
    and "\<lbrakk>length b < limit; \<not> closed; \<not> stop; elapsed\<rbrakk> \<Longrightarrow> fill_batch limit batch w = Inr (b, False, w3)"
    and "\<lbrakk>length b < limit; \<not> closed; \<not> stop; \<not> elapsed; x = None\<rbrakk> \<Longrightarrow> fill_batch limit batch w = Inr (b, True, w4)"
    and "\<lbrakk>length b < limit; \<not> closed; \<not> stop; \<not> elapsed; x = Some q\<rbrakk> \<Longrightarrow> fill_batch limit batch w =
      fill_batch limit (b @ [q]) (count_in (\<lambda>s. s\<lparr>ts_dequeued := increment_saturating (ts_dequeued s)\<rparr>) w4)"
  by (subst fill_batch.simps; simp add: assms)+

text \<open>The five ways one round ends, with the states it passes through.\<close>

lemma fill_batch_rounds:
  obtains (full) b closed w1 where "drain_ready limit batch w = (b, closed, w1)" "fill_batch limit batch w = Inr (b, closed, w1)"
  | (stopped) b w1 w2 where "drain_ready limit batch w = (b, False, w1)" "poll_shutdown w1 = (True, w2)"
      "fill_batch limit batch w = Inl (finish_shutdown (length b) w2)"
  | (elapsed) b w1 w2 w3 where "drain_ready limit batch w = (b, False, w1)" "poll_shutdown w1 = (False, w2)"
      "poll_delay w2 = (True, w3)" "fill_batch limit batch w = Inr (b, False, w3)"
  | (ended) b w1 w2 w3 w4 where "drain_ready limit batch w = (b, False, w1)" "poll_shutdown w1 = (False, w2)"
      "poll_delay w2 = (False, w3)" "recv_input w3 = (None, w4)" "fill_batch limit batch w = Inr (b, True, w4)"
  | (more) b w1 w2 w3 w4 q where "drain_ready limit batch w = (b, False, w1)" "poll_shutdown w1 = (False, w2)"
      "poll_delay w2 = (False, w3)" "recv_input w3 = (Some q, w4)"
      "fill_batch limit batch w = fill_batch limit (b @ [q])
        (count_in (\<lambda>s. s\<lparr>ts_dequeued := increment_saturating (ts_dequeued s)\<rparr>) w4)"
proof -
  obtain b closed w1 where d: "drain_ready limit batch w = (b, closed, w1)" by (rule prod_cases3)
  obtain stop w2 where s: "poll_shutdown w1 = (stop, w2)" by fastforce
  obtain elapsed w3 where e: "poll_delay w2 = (elapsed, w3)" by fastforce
  obtain x w4 where r: "recv_input w3 = (x, w4)" by fastforce
  note eqs = fill_batch_cases [OF d s e r]
  show thesis
  proof (cases "limit \<le> length b \<or> closed")
    case True
    with full d eqs(1) show thesis by blast
  next
    case False
    then have lt: "length b < limit" "\<not> closed"
      by auto
    consider "stop" | "\<not> stop" "elapsed" | "\<not> stop" "\<not> elapsed" "x = None" | q where "\<not> stop" "\<not> elapsed" "x = Some q"
      by (cases x) auto
    then show thesis
    proof cases
      case 1
      with d s lt eqs(2) show thesis by (intro stopped [of b w1 w2]) simp_all
    next
      case 2
      with d s e lt eqs(3) show thesis by (intro elapsed [of b w1 w2 w3]) simp_all
    next
      case 3
      with d s e r lt eqs(4) show thesis by (intro ended [of b w1 w2 w3 w4]) simp_all
    next
      case 4
      with d s e r lt eqs(5) show thesis by (intro more [of b w1 w2 w3 q w4]) simp_all
    qed
  qed
qed

lemma fill_batch_length:
  "fill_batch limit batch w = Inr (batch', closed, w') \<Longrightarrow> length (tw_input w') \<le> length (tw_input w)"
proof (induction "length (tw_input w)" arbitrary: batch w rule: less_induct)
  case less
  show ?case
  proof (cases rule: fill_batch_rounds [of limit batch w])
    case full
    with less.prems drain_ready_length show ?thesis by simp
  next
    case stopped
    with less.prems show ?thesis by simp
  next
    case elapsed
    with less.prems drain_ready_length [OF elapsed(1)] poll_shutdownD poll_delayD show ?thesis by fastforce
  next
    case ended
    with less.prems recv_input_items(2) [OF ended(4)] show ?thesis by simp
  next
    case (more b w1 w2 w3 w4 q)
    then have "length (tw_input w4) < length (tw_input w)"
      using drain_ready_length [OF more(1)] poll_shutdownD [OF more(2)] poll_delayD [OF more(3)] recv_input_cases(3) [OF more(4)] by simp
    with less more(5) show ?thesis
      by (metis (no_types, lifting) count_in_keeps(1) le_trans less_imp_le)
  qed
qed

lemma fill_batch_balanced:
  assumes "balanced arrivals (length batch) w"
  shows "case fill_batch limit batch w of
      Inl (exit, w') \<Rightarrow> settled arrivals exit w'
    | Inr (batch', closed, w') \<Rightarrow> balanced arrivals (length batch') w' \<and> (closed \<longrightarrow> tw_input w' = [])"
  using assms
proof (induction "length (tw_input w)" arbitrary: batch w rule: less_induct)
  case less
  note drained = drain_ready_balanced [OF less.prems]
  have waited: "balanced arrivals n w2" if "balanced arrivals n w1" "poll_shutdown w1 = (stop, w2)" for n w1 stop and w2 :: "'a triage_worker"
    using balanced_cong that poll_shutdownD by blast
  have slept: "balanced arrivals n w3" if "balanced arrivals n w2" "poll_delay w2 = (e, w3)" for n w2 e and w3 :: "'a triage_worker"
    using balanced_cong that poll_delayD by blast
  show ?case
  proof (cases rule: fill_batch_rounds [of limit batch w])
    case full
    with drained show ?thesis by simp
  next
    case (stopped b w1 w2)
    then show ?thesis
      using finish_shutdown_settled [OF waited [OF conjunct1 [OF drained [OF stopped(1)]] stopped(2)]] by (simp add: split_beta)
  next
    case (elapsed b w1 w2 w3)
    then show ?thesis
      using slept [OF waited [OF conjunct1 [OF drained [OF elapsed(1)]] elapsed(2)] elapsed(3)] by simp
  next
    case (ended b w1 w2 w3 w4)
    then show ?thesis
      using slept [OF waited [OF conjunct1 [OF drained [OF ended(1)]] ended(2)] ended(3)]
        recv_input_items(1,2) [OF ended(4)] recv_input_cases(1) [OF ended(4)] by (simp add: balanced_def)
  next
    case (more b w1 w2 w3 w4 q)
    let ?w = "count_in (\<lambda>s. s\<lparr>ts_dequeued := increment_saturating (ts_dequeued s)\<rparr>) w4"
    have "balanced arrivals (length (b @ [q])) ?w"
      using dequeue_balanced [OF slept [OF waited [OF conjunct1 [OF drained [OF more(1)]] more(2)] more(3)] more(4)] by simp
    moreover have "length (tw_input ?w) < length (tw_input w)"
      using drain_ready_length [OF more(1)] poll_shutdownD [OF more(2)] poll_delayD [OF more(3)] recv_input_cases(3) [OF more(4)] by simp
    ultimately show ?thesis
      unfolding more(5) by (rule less.hyps [rotated])
  qed
qed

fun in_flight_of :: "batch_result \<Rightarrow> nat" where
  "in_flight_of Complete = 0"
| "in_flight_of (BatchShutdown n) = n"
| "in_flight_of (BatchGetPeersClosed r n) = n"
| "in_flight_of (BatchScrapeClosed r n) = n"

text \<open>Every counter that accounts for requests takes them over from those in flight.\<close>

lemma settle_balanced:
  assumes "balanced arrivals (n + k) w"
  shows "balanced arrivals n (count_in (\<lambda>s. s\<lparr>ts_filter_suppressed := add_saturating (ts_filter_suppressed s) k\<rparr>) w)"
    and "balanced arrivals n (count_in (\<lambda>s. s\<lparr>ts_unknown_filtered_hashes_dropped := f s,
          ts_filter_contract_dropped := add_saturating (ts_filter_contract_dropped s) k\<rparr>) w)"
    and "balanced arrivals n (count_in (\<lambda>s. s\<lparr>ts_filter_failures := f s,
          ts_filter_failure_dropped := add_saturating (ts_filter_failure_dropped s) k\<rparr>) w)"
    and "balanced arrivals n (count_in (\<lambda>s. s\<lparr>ts_lookup_failures := f s,
          ts_lookup_failure_dropped := add_saturating (ts_lookup_failure_dropped s) k\<rparr>) w)"
  using assms unat_add_saturating [of "ts_filter_suppressed (tw_stats w)" k]
    unat_add_saturating [of "ts_filter_contract_dropped (tw_stats w)" k]
    unat_add_saturating [of "ts_filter_failure_dropped (tw_stats w)" k]
    unat_add_saturating [of "ts_lookup_failure_dropped (tw_stats w)" k]
  by (simp_all add: balanced_def accounted_def)

lemma settle_one_balanced:
  assumes "balanced arrivals (Suc n) w"
  shows "balanced arrivals n (count_in (\<lambda>s. s\<lparr>ts_discarded := increment_saturating (ts_discarded s)\<rparr>) w)"
    and "balanced arrivals n (count_in (\<lambda>s. s\<lparr>ts_get_peers_queued := increment_saturating (ts_get_peers_queued s)\<rparr>) w)"
    and "balanced arrivals n (count_in (\<lambda>s. s\<lparr>ts_scrape_queued := increment_saturating (ts_scrape_queued s)\<rparr>) w)"
  using assms unat_increment_saturating [of "ts_discarded (tw_stats w)"]
    unat_increment_saturating [of "ts_get_peers_queued (tw_stats w)"]
    unat_increment_saturating [of "ts_scrape_queued (tw_stats w)"]
  by (simp_all add: balanced_def accounted_def)

lemma balanced_world [simp]: "balanced arrivals n (w\<lparr>tw_world := s\<rparr>) = balanced arrivals n w"
  by (simp add: balanced_def)

text \<open>A batch ends well: without a panic, with its requests accounted for and the input left alone.\<close>

definition ends_balanced :: "nat \<Rightarrow> 's triage_worker \<Rightarrow> (batch_result \<times> 's triage_worker) option \<Rightarrow> bool" where
  "ends_balanced arrivals w out \<longleftrightarrow>
     (\<exists>r w'. out = Some (r, w') \<and> balanced arrivals (in_flight_of r) w' \<and> tw_input w' = tw_input w)"

lemma ends_balanced_Some [simp]:
  "ends_balanced arrivals w (Some (r, w')) \<longleftrightarrow> balanced arrivals (in_flight_of r) w' \<and> tw_input w' = tw_input w"
  by (simp add: ends_balanced_def)

lemma ends_balanced_cong: "tw_input w' = tw_input w \<Longrightarrow> ends_balanced arrivals w' out = ends_balanced arrivals w out"
  by (simp add: ends_balanced_def)

lemma route_hashes_balanced:
  assumes "set hs \<subseteq> hm_keys requests" and "balanced arrivals (length hs) w"
  shows "ends_balanced arrivals w (route_hashes env cfg requests found hs w)"
  using assms
proof (induction hs arbitrary: w)
  case (Cons h hs)
  obtain request where h: "map_of requests h = Some request"
    using Cons.prems(1) by (auto simp: hm_keys_iff)
  obtain route s where d: "decide_route env cfg (map_of found h) (tw_world w) = (route, s)" by fastforce
  let ?w = "w\<lparr>tw_world := s\<rparr>"
  obtain stop w1 where p: "poll_shutdown ?w = (stop, w1)" by fastforce
  have w1: "balanced arrivals (length (h # hs)) w1" "tw_input w1 = tw_input w"
    using poll_shutdownD [OF p] balanced_cong [of arrivals "length (h # hs)" ?w w1] Cons.prems(2) by simp_all
  obtain b1 s1 where g: "te_get_peers_send env request (tw_world w1) = (b1, s1)" by fastforce
  obtain b2 s2 where c: "te_scrape_send env request (tw_world w1) = (b2, s2)" by fastforce
  have IH: "ends_balanced arrivals w (route_hashes env cfg requests found hs w')"
    if "balanced arrivals (length hs) w'" "tw_input w' = tw_input w" for w'
    using Cons.IH [of w'] Cons.prems(1) that ends_balanced_cong [of w' w] by auto
  have "balanced arrivals (Suc (length hs)) (w1\<lparr>tw_world := x\<rparr>)" "balanced arrivals (Suc (length hs)) ?w" for x
    using w1 Cons.prems(2) by simp_all
  note settled = settle_one_balanced(1) [OF this(2)] settle_one_balanced(2,3) [OF this(1)]
  show ?case
  proof (cases route)
    case None
    then show ?thesis
      using IH [OF settled(1)] by (simp add: h d)
  next
    case (Some route')
    then show ?thesis
      using IH [OF settled(2) [of s1]] IH [OF settled(3) [of s2]] w1 by (cases route') (simp_all add: h d p g c Let_def)
  qed
qed (simp add: balanced_def)

lemma first_seen_props:
  "distinct (first_seen seen hs)" "set (first_seen seen hs) = set hs - set seen"
  by (induction hs arbitrary: seen) auto

lemma index_requests_props:
  assumes "index_requests rs requests unique s = (requests', unique', s')"
    and "set unique = hm_keys requests" and "distinct unique"
    and "accounted s + length rs < 2 ^ 64"
  shows "set unique' = hm_keys requests' \<and> distinct unique' \<and> set unique' = set unique \<union> tr_info_hash ` set rs
      \<and> accounted s' + length unique' = accounted s + length unique + length rs \<and> ts_dequeued s' = ts_dequeued s"
  using assms
proof (induction rs arbitrary: requests unique s)
  case (Cons r rs)
  show ?case
  proof (cases "hm_contains requests (tr_info_hash r)")
    case True
    let ?s = "s\<lparr>ts_input_duplicates_dropped := increment_saturating (ts_input_duplicates_dropped s)\<rparr>"
    have "accounted ?s = Suc (accounted s)"
      using Cons.prems(4) unat_increment_saturating [of "ts_input_duplicates_dropped s"] by (simp add: accounted_def)
    moreover have "tr_info_hash r \<in> set unique"
      using True Cons.prems(2) by simp
    ultimately show ?thesis
      using Cons.IH [of requests unique ?s] Cons.prems True by (auto simp: insert_absorb)
  next
    case False
    then have "tr_info_hash r \<notin> set unique"
      using Cons.prems(2) by simp
    with False Cons.IH [of "hm_insert (tr_info_hash r) r requests" "unique @ [tr_info_hash r]" s] Cons.prems show ?thesis
      by auto
  qed
qed simp

definition collaborators_return :: "('s, 'e) triage_env \<Rightarrow> bool" where
  "collaborators_return env \<longleftrightarrow> (\<forall>hs s. te_filter env hs s \<noteq> None) \<and> (\<forall>hs s. te_lookup env hs s \<noteq> None)"

lemma lookup_and_route_balanced:
  assumes "collaborators_return env" and "set routing \<subseteq> hm_keys requests" and "balanced arrivals (length routing) w"
  shows "ends_balanced arrivals w (lookup_and_route env cfg requests filtered routing w)"
proof -
  let ?w = "count_in (\<lambda>s. s\<lparr>ts_lookup_calls := increment_saturating (ts_lookup_calls s)\<rparr>) w"
  obtain stop w1 where p: "poll_shutdown ?w = (stop, w1)" by fastforce
  have w1: "balanced arrivals (length routing) w1" "tw_input w1 = tw_input w"
    using poll_shutdownD [OF p] assms(3) by (simp_all add: balanced_def accounted_def)
  obtain x s where l: "te_lookup env filtered (tw_world w1) = Some (x, s)"
    using assms(1) unfolding collaborators_return_def by (metis option.exhaust surj_pair)
  have "ends_balanced arrivals w (route_hashes env cfg requests found routing (w1\<lparr>tw_world := s\<rparr>))" for found
    using route_hashes_balanced [OF assms(2), of arrivals "w1\<lparr>tw_world := s\<rparr>" env cfg found] w1
      ends_balanced_cong [of "w1\<lparr>tw_world := s\<rparr>" w] by simp
  then show ?thesis
    using w1 settle_balanced(4) [of arrivals 0 "length routing" "w1\<lparr>tw_world := s\<rparr>"]
    by (simp add: lookup_and_route_def Let_def p l split: sum.split)
qed

lemma use_filtered_balanced:
  assumes "collaborators_return env" and "set unique = hm_keys requests" and "distinct unique"
    and "balanced arrivals (length unique) w"
  shows "ends_balanced arrivals w (use_filtered env cfg requests unique filtered w)"
proof -
  let ?w = "count_in (\<lambda>s. s\<lparr>ts_filter_hashes_returned := add_saturating (ts_filter_hashes_returned s) (length filtered)\<rparr>) w"
  let ?routing = "first_seen [] filtered"
  let ?w2 = "count_in (\<lambda>s. s\<lparr>ts_filter_suppressed :=
      add_saturating (ts_filter_suppressed s) (length unique - length ?routing)\<rparr>) ?w"
  have w: "balanced arrivals (length unique) ?w"
    using assms(4) by (simp add: balanced_def accounted_def)
  show ?thesis
  proof (cases "filtered = [] \<or> (\<exists>h\<in>set filtered. \<not> hm_contains requests h)")
    case True
    then show ?thesis
      using settle_balanced(1,2) [of arrivals 0 "length unique" ?w] w
      by (auto simp: use_filtered_def Let_def filter_empty_conv)
  next
    case False
    then have known: "set filtered \<subseteq> hm_keys requests"
      by auto
    have "card (set ?routing) \<le> card (set unique)"
      using known assms(2) by (intro card_mono) (simp_all add: first_seen_props)
    then have "length ?routing \<le> length unique"
      using assms(3) by (simp add: distinct_card first_seen_props(1))
    then have "balanced arrivals (length ?routing) ?w2"
      using w by (intro settle_balanced(1)) simp
    then have "ends_balanced arrivals ?w2 (lookup_and_route env cfg requests filtered ?routing ?w2)"
      using known by (intro lookup_and_route_balanced [OF assms(1)]) (auto simp: first_seen_props)
    with False show ?thesis
      by (auto simp: use_filtered_def Let_def filter_empty_conv ends_balanced_cong [of ?w2 w])
  qed
qed

lemma process_batch_balanced:
  assumes "collaborators_return env" and "balanced arrivals (length batch) w"
  shows "ends_balanced arrivals w (process_batch env cfg batch w)"
proof -
  let ?w = "count_in (\<lambda>s. s\<lparr>ts_batches := increment_saturating (ts_batches s)\<rparr>) w"
  obtain requests unique s where i: "index_requests batch [] [] (tw_stats ?w) = (requests, unique, s)"
    by (rule prod_cases3)
  have acc: "accounted (tw_stats ?w) = accounted (tw_stats w)"
    by (simp add: accounted_def)
  have "accounted (tw_stats ?w) + length batch < 2 ^ 64"
    using assms(2) acc by (simp add: balanced_def)
  from index_requests_props [OF i _ _ this]
  have u: "set unique = hm_keys requests" "distinct unique"
    "accounted s + length unique = accounted (tw_stats w) + length batch" "ts_dequeued s = ts_dequeued (tw_stats w)"
    unfolding acc by simp_all
  let ?w1 = "?w\<lparr>tw_stats := s\<lparr>ts_filter_calls := increment_saturating (ts_filter_calls s)\<rparr>\<rparr>"
  obtain stop w2 where p: "poll_shutdown ?w1 = (stop, w2)" by fastforce
  have w2: "balanced arrivals (length unique) w2" "tw_input w2 = tw_input w"
    using poll_shutdownD [OF p] u assms(2) by (simp_all add: balanced_def accounted_def)
  obtain x t where f: "te_filter env unique (tw_world w2) = Some (x, t)"
    using assms(1) unfolding collaborators_return_def by (metis option.exhaust surj_pair)
  have "ends_balanced arrivals w (use_filtered env cfg requests unique filtered (w2\<lparr>tw_world := t\<rparr>))" for filtered
    using use_filtered_balanced [OF assms(1) u(1,2), of arrivals "w2\<lparr>tw_world := t\<rparr>"] w2
      ends_balanced_cong [of "w2\<lparr>tw_world := t\<rparr>" w] by simp
  then show ?thesis
    using w2 settle_balanced(3) [of arrivals 0 "length unique" "w2\<lparr>tw_world := t\<rparr>"]
    by (simp add: process_batch_def Let_def i [simplified] p f split: sum.split)
qed

lemma process_batch_input:
  assumes "process_batch env cfg batch w = Some (r, w')"
  shows "tw_input w' = tw_input w"
proof -
  have routed: "tw_input w' = tw_input w" if "route_hashes env cfg requests found hs w = Some (r, w')" for requests found hs w
    using that
  proof (induction hs arbitrary: w)
    case (Cons h hs)
    then show ?case
      by (auto simp: Let_def split: option.splits prod.splits route.splits if_splits dest!: poll_shutdownD) 
  qed simp
  show ?thesis
    using assms
    by (auto simp: process_batch_def use_filtered_def lookup_and_route_def Let_def
        split: option.splits prod.splits sum.splits if_splits dest!: poll_shutdownD routed)
qed

text \<open>The whole worker.\<close>

definition collect_batch ::
  "triage_config \<Rightarrow> triage_request \<Rightarrow> 's triage_worker
   \<Rightarrow> (triage_exit \<times> 's triage_worker) + (triage_request list \<times> bool \<times> 's triage_worker)" where
  "collect_batch cfg first w =
     (if 1 < tc_batch_limit cfg then fill_batch (tc_batch_limit cfg) [first] w else Inr ([first], False, w))"

definition finish_route_closed ::
  "(nat \<Rightarrow> nat \<Rightarrow> triage_exit) \<Rightarrow> nat \<Rightarrow> 's triage_worker \<Rightarrow> triage_exit \<times> 's triage_worker" where
  "finish_route_closed exit batch_dropped w =
     (let (queued_dropped, w) = close_and_drain_input w
      in (exit queued_dropped batch_dropped,
          count_in (\<lambda>s. s\<lparr>ts_route_closures := increment_saturating (ts_route_closures s),
                          ts_route_closed_queued_dropped := add_saturating (ts_route_closed_queued_dropped s) queued_dropped,
                          ts_route_closed_batch_dropped := add_saturating (ts_route_closed_batch_dropped s) batch_dropped\<rparr>) w))"

function triage_run ::
  "('s, 'e) triage_env \<Rightarrow> triage_config \<Rightarrow> 's triage_worker \<Rightarrow> (triage_exit \<times> 's triage_worker) option" where
  "triage_run env cfg w =
     (let (stop, w) = poll_shutdown w
      in if stop then Some (finish_shutdown 0 w)
         else case recv_input w of
                (None, w) \<Rightarrow> Some (InputClosed, w)
              | (Some first, w) \<Rightarrow>
                  (case collect_batch cfg first (count_in (\<lambda>s. s\<lparr>ts_dequeued := increment_saturating (ts_dequeued s)\<rparr>) w) of
                     Inl out \<Rightarrow> Some out
                   | Inr (batch, input_closed, w) \<Rightarrow>
                       (case process_batch env cfg batch w of
                          None \<Rightarrow> None
                        | Some (BatchShutdown batch_dropped, w) \<Rightarrow> Some (finish_shutdown batch_dropped w)
                        | Some (BatchGetPeersClosed request batch_dropped, w) \<Rightarrow>
                            Some (finish_route_closed (GetPeersClosed request) batch_dropped w)
                        | Some (BatchScrapeClosed request batch_dropped, w) \<Rightarrow>
                            Some (finish_route_closed (ScrapeClosed request) batch_dropped w)
                        | Some (Complete, w) \<Rightarrow>
                            if input_closed
                            then let (stop, w) = poll_shutdown w
                                 in if stop then Some (finish_shutdown 0 w) else Some (InputClosed, w)
                            else triage_run env cfg w)))"
  by pat_completeness auto

lemma collect_batch_length:
  "collect_batch cfg first w = Inr (batch, closed, w') \<Longrightarrow> length (tw_input w') \<le> length (tw_input w)"
  by (auto simp: collect_batch_def split: if_splits dest: fill_batch_length)

termination triage_run
  by (relation "measure (\<lambda>(env, cfg, w). length (tw_input w))")
    (auto dest!: collect_batch_length process_batch_input poll_shutdownD [OF sym] recv_input_cases(3) [OF sym])

declare triage_run.simps [simp del]

lemma finish_route_closed_settled:
  assumes "balanced arrivals n w" and "\<And>q. queued_of (exit q n) = q" and "\<And>q. exit q n \<noteq> InputClosed"
  shows "settled arrivals (fst (finish_route_closed exit n w)) (snd (finish_route_closed exit n w))"
  using assms items_takeWhile [of "tw_input w"] unat_add_saturating [of "ts_route_closed_batch_dropped (tw_stats w)" n]
  by (simp add: finish_route_closed_def close_and_drain_input_def Let_def settled_def balanced_def accounted_def)

lemma collect_batch_balanced:
  assumes "balanced arrivals 1 w"
  shows "case collect_batch cfg first w of
      Inl (exit, w') \<Rightarrow> settled arrivals exit w'
    | Inr (batch', closed, w') \<Rightarrow> balanced arrivals (length batch') w' \<and> (closed \<longrightarrow> tw_input w' = [])"
  using fill_batch_balanced [of arrivals "[first]" w] assms by (simp add: collect_batch_def)

lemma triage_run_settled:
  assumes "collaborators_return env" and "balanced arrivals 0 w"
  shows "\<exists>exit w'. triage_run env cfg w = Some (exit, w') \<and> settled arrivals exit w'"
  using assms(2)
proof (induction "length (tw_input w)" arbitrary: w rule: less_induct)
  case less
  obtain stop w1 where p: "poll_shutdown w = (stop, w1)" by fastforce
  have w1: "balanced arrivals 0 w1" "tw_input w1 = tw_input w"
    using poll_shutdownD [OF p] less.prems balanced_cong by blast+
  obtain x w2 where r: "recv_input w1 = (x, w2)" by fastforce
  show ?case
  proof (cases "stop \<or> x = None")
    case True
    have "settled arrivals InputClosed w2" if "x = None"
      using w1 recv_input_items(1) [OF r that] recv_input_cases(1) [OF r] by (simp add: settled_def balanced_def)
    with True finish_shutdown_settled [OF w1(1)] show ?thesis
      by (subst triage_run.simps, cases "finish_shutdown 0 w1") (auto simp: p r)
  next
    case False
    then obtain first where x: "x = Some first" by auto
    let ?w = "count_in (\<lambda>s. s\<lparr>ts_dequeued := increment_saturating (ts_dequeued s)\<rparr>) w2"
    have w2: "balanced arrivals 1 ?w"
      using dequeue_balanced [OF w1(1), of first w2] r x by simp
    show ?thesis
    proof (cases "collect_batch cfg first ?w")
      case (Inl out)
      with collect_batch_balanced [OF w2, of cfg first] False show ?thesis
        by (subst triage_run.simps) (auto simp: p r x)
    next
      case (Inr c)
      obtain batch closed w3 where c: "c = (batch, closed, w3)" by (rule prod_cases3)
      have w3: "balanced arrivals (length batch) w3" "closed \<Longrightarrow> tw_input w3 = []"
        using collect_batch_balanced [OF w2, of cfg first] Inr c by simp_all
      obtain res w4 where b: "process_batch env cfg batch w3 = Some (res, w4)"
        and w4: "balanced arrivals (in_flight_of res) w4" "tw_input w4 = tw_input w3"
        using process_batch_balanced [OF assms(1) w3(1), of cfg] by (auto simp: ends_balanced_def)
      obtain stop' w5 where p': "poll_shutdown w4 = (stop', w5)" by fastforce
      have w5: "balanced arrivals (in_flight_of res) w5" "tw_input w5 = tw_input w4"
        using poll_shutdownD [OF p'] w4(1) balanced_cong by blast+
      have step: "triage_run env cfg w = (case res of
            BatchShutdown n \<Rightarrow> Some (finish_shutdown n w4)
          | BatchGetPeersClosed request n \<Rightarrow> Some (finish_route_closed (GetPeersClosed request) n w4)
          | BatchScrapeClosed request n \<Rightarrow> Some (finish_route_closed (ScrapeClosed request) n w4)
          | Complete \<Rightarrow> if closed then (if stop' then Some (finish_shutdown 0 w5) else Some (InputClosed, w5))
                        else triage_run env cfg w4)"
        using False by (subst triage_run.simps) (simp add: p r x Inr c b p' split: batch_result.split)
      show ?thesis
      proof (cases res)
        case Complete
        have "length (tw_input w4) < length (tw_input w)"
          using collect_batch_length [of cfg first ?w batch closed w3] Inr c w4(2) recv_input_cases(3) [OF r x] w1(2) by simp
        moreover have "settled arrivals InputClosed w5" if closed
          using w5 w4(2) w3(2) [OF that] Complete by (simp add: settled_def balanced_def)
        ultimately show ?thesis
          using less.hyps [of w4] w4(1) finish_shutdown_settled [of arrivals 0 w5] w5(1) Complete
          unfolding step by (cases "finish_shutdown 0 w5") (auto split: if_splits)
      next
        case (BatchShutdown n)
        then show ?thesis
          unfolding step using finish_shutdown_settled [OF w4(1)] by (cases "finish_shutdown n w4") simp
      next
        case (BatchGetPeersClosed request n)
        then show ?thesis
          unfolding step using finish_route_closed_settled [OF w4(1), of "GetPeersClosed request"]
          by (cases "finish_route_closed (GetPeersClosed request) n w4") simp
      next
        case (BatchScrapeClosed request n)
        then show ?thesis
          unfolding step using finish_route_closed_settled [OF w4(1), of "ScrapeClosed request"]
          by (cases "finish_route_closed (ScrapeClosed request) n w4") simp
      qed
    qed
  qed
qed

section \<open>What a batch routes\<close>

text \<open>The route a hash needs, by what the database knows of it.\<close>

definition files_missing :: "triage_config \<Rightarrow> triage_row \<Rightarrow> bool" where
  "files_missing cfg row =
     (case rw_files_status row of
        NoInfo \<Rightarrow> True
      | Single \<Rightarrow> False
      | Multi \<Rightarrow> rw_files_count row = None
      | OverThreshold \<Rightarrow> (\<forall>n. rw_files_count row = Some n \<longrightarrow> n \<le> tc_save_files_threshold cfg))"

definition counts_stale :: "triage_config \<Rightarrow> i64 \<Rightarrow> triage_row \<Rightarrow> bool" where
  "counts_stale cfg now row \<longleftrightarrow> rw_dht_seeders row = None \<or> rw_dht_leechers row = None
     \<or> (\<forall>t. rw_dht_updated_at_unix_micros row = Some t \<longrightarrow> sint t + int (tc_rescrape_threshold cfg div 1000) < sint now)"

definition wanted_route :: "triage_config \<Rightarrow> i64 \<Rightarrow> triage_row option \<Rightarrow> route option" where
  "wanted_route cfg now row =
     (case row of
        None \<Rightarrow> Some RouteGetPeers
      | Some row \<Rightarrow> if files_missing cfg row then Some RouteGetPeers
                    else if counts_stale cfg now row then Some RouteScrape else None)"

text \<open>The first request for a hash, its last row, and the sends for some hashes in order.\<close>

definition request_for :: "triage_request list \<Rightarrow> id20 \<Rightarrow> triage_request option" where
  "request_for batch h = find (\<lambda>r. tr_info_hash r = h) batch"

definition row_for :: "triage_row list \<Rightarrow> id20 \<Rightarrow> triage_row option" where
  "row_for rows h = find (\<lambda>row. rw_info_hash row = h) (rev rows)"

definition sends_for :: "triage_config \<Rightarrow> i64 \<Rightarrow> triage_request list \<Rightarrow> triage_row list \<Rightarrow> id20 \<Rightarrow> (route \<times> triage_request) list" where
  "sends_for cfg now batch rows h =
     (case (wanted_route cfg now (row_for rows h), request_for batch h) of
        (Some route, Some request) \<Rightarrow> [(route, request)]
      | _ \<Rightarrow> [])"

definition perform :: "('s, 'e) triage_env \<Rightarrow> route \<times> triage_request \<Rightarrow> 's \<Rightarrow> 's" where
  "perform env a s = snd ((case fst a of RouteGetPeers \<Rightarrow> te_get_peers_send env | RouteScrape \<Rightarrow> te_scrape_send env) (snd a) s)"

lemma decide_route_wanted:
  assumes "\<And>s. te_now_unix_micros env s = (now, s)"
  shows "decide_route env cfg row s = (wanted_route cfg now row, s)"
  by (cases row)
    (auto simp: decide_route_def wanted_route_def files_missing_def counts_stale_def duration_micros_i128_def assms
      split: files_status.splits option.splits)

lemma find_append_case: "find P (xs @ ys) = (case find P xs of None \<Rightarrow> find P ys | Some x \<Rightarrow> Some x)"
  by (induction xs) auto

lemma map_of_index_rows: "map_of (index_rows rows) h = row_for rows h"
proof -
  have "map_of (fold (\<lambda>row. hm_insert (rw_info_hash row) row) rows m) h = (case row_for rows h of None \<Rightarrow> map_of m h | Some row \<Rightarrow> Some row)" for m
    by (induction rows arbitrary: m)
      (auto simp: row_for_def update_conv' find_append_case split: option.splits)
  from this [of "[]"] show ?thesis
    by (simp add: index_rows_def split: option.splits)
qed

lemma index_requests_exact:
  assumes "index_requests rs requests unique s = (requests', unique', s')" and "set seen = hm_keys requests"
  shows "unique' = unique @ first_seen seen (map tr_info_hash rs)
    \<and> map_of requests' h = (case map_of requests h of None \<Rightarrow> request_for rs h | Some r \<Rightarrow> Some r)"
  using assms
proof (induction rs arbitrary: requests unique s seen)
  case (Cons r rs)
  show ?case
  proof (cases "tr_info_hash r \<in> hm_keys requests")
    case True
    with Cons.IH [of requests unique _ seen] Cons.prems show ?thesis
      by (auto simp: request_for_def hm_keys_iff split: option.splits)
  next
    case False
    with Cons.IH [of "hm_insert (tr_info_hash r) r requests" "unique @ [tr_info_hash r]" s "tr_info_hash r # seen"] Cons.prems show ?thesis
      by (auto simp: request_for_def hm_keys_iff update_conv' split: option.splits)
  qed
qed (auto simp: request_for_def split: option.splits)

lemma route_hashes_exact:
  assumes now: "\<And>s. te_now_unix_micros env s = (now, s)"
    and "\<And>h. map_of requests h = request_for batch h" and "set hs \<subseteq> tr_info_hash ` set batch"
    and "route_hashes env cfg requests (index_rows rows) hs w = Some (r, w')"
  shows "\<exists>k. tw_world w' = fold (perform env) (take k (concat (map (sends_for cfg now batch rows) hs))) (tw_world w)
    \<and> (r = Complete \<longrightarrow> length (concat (map (sends_for cfg now batch rows) hs)) \<le> k)"
  using assms(3,4)
proof (induction hs arbitrary: w)
  case (Cons h hs)
  obtain request where h: "request_for batch h = Some request"
    using Cons.prems(1) unfolding request_for_def by (cases "find (\<lambda>r. tr_info_hash r = h) batch") (auto simp: find_None_iff)
  have IH: "\<exists>k. tw_world w' = fold (perform env) (take k (concat (map (sends_for cfg now batch rows) hs))) (tw_world v)
      \<and> (r = Complete \<longrightarrow> length (concat (map (sends_for cfg now batch rows) hs)) \<le> k)"
    if "route_hashes env cfg requests (index_rows rows) hs v = Some (r, w')" for v
    using Cons.IH Cons.prems(1) that by simp
  note route = Cons.prems(2) [simplified, unfolded assms(2) h map_of_index_rows decide_route_wanted [OF now], simplified]
  show ?case
  proof (cases "wanted_route cfg now (row_for rows h)")
    case None
    with route have "route_hashes env cfg requests (index_rows rows) hs
        (count_in (\<lambda>s. s\<lparr>ts_discarded := increment_saturating (ts_discarded s)\<rparr>) w) = Some (r, w')"
      by simp
    from IH [OF this] show ?thesis
      using None by (simp add: sends_for_def [of _ _ _ _ h])
  next
    case (Some a)
    have sends: "sends_for cfg now batch rows h = [(a, request)]"
      using Some h by (simp add: sends_for_def)
    obtain stop w1 where p: "poll_shutdown w = (stop, w1)" by fastforce
    have w1: "tw_world w1 = tw_world w"
      using poll_shutdownD [OF p] by simp
    show ?thesis
    proof (cases stop)
      case True
      then have "r \<noteq> Complete" "w' = w1"
        using route Some p by (cases a; auto)+
      then show ?thesis
        using w1 by (intro exI [of _ 0]) simp
    next
      case False
      obtain sent s where sent: "(case a of RouteGetPeers \<Rightarrow> te_get_peers_send env | RouteScrape \<Rightarrow> te_scrape_send env) request (tw_world w) = (sent, s)"
        by fastforce
      have s: "perform env (a, request) (tw_world w) = s"
        using sent by (simp add: perform_def)
      show ?thesis
      proof (cases sent)
        case True
        then obtain v where "route_hashes env cfg requests (index_rows rows) hs v = Some (r, w')" "tw_world v = s"
          using route Some p False sent w1 by (cases a) (auto simp: Let_def)
        from IH [OF this(1)] this(2) obtain k where
          "tw_world w' = fold (perform env) (take k (concat (map (sends_for cfg now batch rows) hs))) s
           \<and> (r = Complete \<longrightarrow> length (concat (map (sends_for cfg now batch rows) hs)) \<le> k)"
          by auto
        then show ?thesis
          using s by (intro exI [of _ "Suc k"]) (simp add: sends)
      next
        case sent_not: False
        then have "r \<noteq> Complete" "tw_world w' = s"
          using route Some p False sent w1 by (cases a; auto simp: Let_def)+
        then show ?thesis
          using s by (intro exI [of _ 1]) (simp add: sends)
      qed
    qed
  qed
qed auto

lemma poll_shutdown_later:
  assumes "tw_shutdown w \<noteq> Some 0"
  shows "\<exists>w'. poll_shutdown w = (False, w') \<and> (tw_shutdown w \<noteq> Some 1 \<longrightarrow> tw_shutdown w' \<noteq> Some 0)
    \<and> tw_world w' = tw_world w \<and> tw_input w' = tw_input w \<and> tw_stats w' = tw_stats w"
  using assms by (auto simp: poll_shutdown_def split: option.splits nat.splits)

lemma process_batch_routes:
  assumes now: "\<And>s. te_now_unix_micros env s = (now, s)"
    and filtered: "te_filter env (first_seen [] (map tr_info_hash batch)) (tw_world w) = Some (Inr filtered, s1)"
      "filtered \<noteq> []" "set filtered \<subseteq> tr_info_hash ` set batch"
    and rows: "te_lookup env filtered s1 = Some (Inr rows, s2)"
    and later: "tw_shutdown w \<noteq> Some 0" "tw_shutdown w \<noteq> Some 1"
    and run: "process_batch env cfg batch w = Some (r, w')"
  shows "\<exists>k. tw_world w' = fold (perform env) (take k (concat (map (sends_for cfg now batch rows) (first_seen [] filtered)))) s2
    \<and> (r = Complete \<longrightarrow> length (concat (map (sends_for cfg now batch rows) (first_seen [] filtered))) \<le> k)"
proof -
  let ?w = "count_in (\<lambda>s. s\<lparr>ts_batches := increment_saturating (ts_batches s)\<rparr>) w"
  obtain requests unique s where i: "index_requests batch [] [] (tw_stats ?w) = (requests, unique, s)"
    by (rule prod_cases3)
  have u: "unique = first_seen [] (map tr_info_hash batch)" "map_of requests h = request_for batch h" for h
    using index_requests_exact [OF i, of "[]" h] by simp_all
  have keys: "h \<in> hm_keys requests \<longleftrightarrow> h \<in> tr_info_hash ` set batch" for h
    unfolding hm_keys_iff u(2) request_for_def by (auto simp: find_None_iff)
  let ?w1 = "?w\<lparr>tw_stats := s\<lparr>ts_filter_calls := increment_saturating (ts_filter_calls s)\<rparr>\<rparr>"
  obtain w2 where p: "poll_shutdown ?w1 = (False, w2)" "tw_shutdown w2 \<noteq> Some 0" "tw_world w2 = tw_world w"
    using poll_shutdown_later [of ?w1] later by (auto simp: count_in_def)
  have known: "filter (\<lambda>h. \<not> hm_contains requests h) filtered = []"
    using filtered(3) keys by (auto simp: filter_empty_conv)
  define v where "v = count_in (\<lambda>s. s\<lparr>ts_filter_suppressed :=
      add_saturating (ts_filter_suppressed s) (length unique - length (first_seen [] filtered))\<rparr>)
    (count_in (\<lambda>s. s\<lparr>ts_filter_hashes_returned := add_saturating (ts_filter_hashes_returned s) (length filtered)\<rparr>)
      (w2\<lparr>tw_world := s1\<rparr>))"
  have v: "tw_shutdown v = tw_shutdown w2" "tw_world v = s1"
    by (simp_all add: v_def count_in_def)
  have "process_batch env cfg batch w = use_filtered env cfg requests unique filtered (w2\<lparr>tw_world := s1\<rparr>)"
    using filtered(1) p u(1) by (simp add: process_batch_def Let_def i [simplified])
  also have "\<dots> = lookup_and_route env cfg requests filtered (first_seen [] filtered) v"
    using filtered(2) by (simp only: use_filtered_def Let_def known v_def) simp
  finally have eq: "process_batch env cfg batch w = lookup_and_route env cfg requests filtered (first_seen [] filtered) v" .
  let ?v = "count_in (\<lambda>s. s\<lparr>ts_lookup_calls := increment_saturating (ts_lookup_calls s)\<rparr>) v"
  obtain v1 where v1: "poll_shutdown ?v = (False, v1)" "tw_world v1 = s1"
    using poll_shutdown_later [of ?v] v p(2) by (auto simp: count_in_def)
  have "route_hashes env cfg requests (index_rows rows) (first_seen [] filtered) (v1\<lparr>tw_world := s2\<rparr>) = Some (r, w')"
    using run unfolding eq lookup_and_route_def Let_def v1 by (simp add: v1 rows)
  from route_hashes_exact [OF now u(2) _ this] filtered(3) show ?thesis
    by (simp add: first_seen_props)
qed

section \<open>The blocking manager as the filter\<close>

definition id20_to_info_hash :: "id20 \<Rightarrow> info_hash" where
  "id20_to_info_hash i = InfoHash (as_bytes i)"

definition info_hash_to_id20 :: "info_hash \<Rightarrow> id20 option" where
  "info_hash_to_id20 h = (case from_slice (ih_as_slice h) of Inr i \<Rightarrow> Some i | Inl _ \<Rightarrow> None)"

definition adapt_filter ::
  "(info_hash list \<Rightarrow> 'b \<Rightarrow> (('e + info_hash list) \<times> 'b) option) \<Rightarrow> id20 list \<Rightarrow> 'b \<Rightarrow> (('e + id20 list) \<times> 'b) option" where
  "adapt_filter delegate info_hashes b =
     (case delegate (map id20_to_info_hash info_hashes) b of
        None \<Rightarrow> None
      | Some (Inl e, b) \<Rightarrow> Some (Inl e, b)
      | Some (Inr hashes, b) \<Rightarrow> map_option (\<lambda>ids. (Inr ids, b)) (those (map info_hash_to_id20 hashes)))"

definition adapt_block ::
  "(info_hash list \<Rightarrow> bool \<Rightarrow> 'b \<Rightarrow> (('e + unit) \<times> 'b) option) \<Rightarrow> id20 list \<Rightarrow> bool \<Rightarrow> 'b \<Rightarrow> (('e + unit) \<times> 'b) option" where
  "adapt_block delegate info_hashes flush b = delegate (map id20_to_info_hash info_hashes) flush b"

definition blocking_manager_filter ::
  "('e, 'r, 'st) store_commit \<Rightarrow> blocking_config \<Rightarrow> instant \<Rightarrow> id20 list \<Rightarrow> ('r, 'st) blocking_inner
   \<Rightarrow> (('e blocking_error + id20 list) \<times> ('r, 'st) blocking_inner) option" where
  "blocking_manager_filter commit config now = adapt_filter (bm_filter commit config now)"

definition blocking_manager_block ::
  "('e, 'r, 'st) store_commit \<Rightarrow> blocking_config \<Rightarrow> instant \<Rightarrow> id20 list \<Rightarrow> bool \<Rightarrow> ('r, 'st) blocking_inner
   \<Rightarrow> (('e blocking_error + unit) \<times> ('r, 'st) blocking_inner) option" where
  "blocking_manager_block commit config now = adapt_block (bm_block commit config now)"

text \<open>A hash is blocked when it waits in the buffer or the published filter has it.\<close>

definition blocked :: "('r, 'st) blocking_inner \<Rightarrow> id20 \<Rightarrow> bool" where
  "blocked inner h \<longleftrightarrow> id20_to_info_hash h \<in> set (bi_buffer inner)
     \<or> (\<exists>f. bi_filter inner = Some f \<and> filter_test f (as_bytes h) = Some True)"

lemma ih_as_slice_id20 [simp]: "ih_as_slice (id20_to_info_hash h) = as_bytes h"
  by (simp add: id20_to_info_hash_def InfoHash_inverse)

lemma info_hash_to_id20_inverse [simp]: "info_hash_to_id20 (id20_to_info_hash h) = Some h"
  by (simp add: info_hash_to_id20_def)

lemma those_info_hash_to_id20: "those (map (info_hash_to_id20 \<circ> id20_to_info_hash) hs) = Some hs"
  by (induction hs) simp_all

lemma eligible_Some:
  "eligible buffer f hs = Some xs \<Longrightarrow> xs = filter (\<lambda>h. h \<notin> set buffer \<and> filter_test f (ih_as_slice h) \<noteq> Some True) hs"
  by (induction hs arbitrary: xs) (auto split: if_splits bind_splits)

lemma blocking_manager_filter_exact:
  assumes "blocking_manager_filter commit config t hs b = Some (Inr ok, b')"
  shows "ok = filter (\<lambda>h. \<not> blocked b' h) hs"
proof -
  obtain xs where xs: "bm_filter commit config t (map id20_to_info_hash hs) b = Some (Inr xs, b')" "those (map info_hash_to_id20 xs) = Some ok"
    using assms by (auto simp: blocking_manager_filter_def adapt_filter_def split: option.splits prod.splits sum.splits)
  then obtain f where f: "bi_filter b' = Some f" "eligible (bi_buffer b') f (map id20_to_info_hash hs) = Some xs"
    by (auto simp: bm_filter_def split: bind_splits sum.splits option.splits prod.splits)
  have "xs = map id20_to_info_hash (filter (\<lambda>h. \<not> blocked b' h) hs)"
    using eligible_Some [OF f(2)] f(1) by (simp add: filter_map comp_def blocked_def)
  with xs(2) show ?thesis
    by (simp add: those_info_hash_to_id20)
qed

lemma first_seen_distinct: "distinct hs \<Longrightarrow> set hs \<inter> set seen = {} \<Longrightarrow> first_seen seen hs = hs"
  by (induction hs arbitrary: seen) auto

section \<open>Properties\<close>

text \<open>
  (C17)
  No sampled hash is lost: however requests arrive, the shutdown falls and the collaborators and
  routes fail, the worker ends without a panic, and then every request it took is accounted for by
  exactly one counter; those it left behind in its queue are counted apart. When its input ends,
  it has taken every request.
\<close>

theorem triage_accounts_for_all:
  assumes "collaborators_return env" and "tw_stats w = default_triage_stats" and "items (tw_input w) < 2 ^ 64"
  shows "\<exists>exit w'. triage_run env cfg w = Some (exit, w')
    \<and> unat (ts_dequeued (tw_stats w')) = unat (ts_input_duplicates_dropped (tw_stats w'))
        + unat (ts_filter_suppressed (tw_stats w')) + unat (ts_filter_failure_dropped (tw_stats w'))
        + unat (ts_filter_contract_dropped (tw_stats w')) + unat (ts_lookup_failure_dropped (tw_stats w'))
        + unat (ts_get_peers_queued (tw_stats w')) + unat (ts_scrape_queued (tw_stats w'))
        + unat (ts_discarded (tw_stats w')) + unat (ts_shutdown_batch_dropped (tw_stats w'))
        + unat (ts_route_closed_batch_dropped (tw_stats w'))
    \<and> unat (ts_dequeued (tw_stats w')) + queued_of exit \<le> items (tw_input w)
    \<and> (exit = InputClosed \<longrightarrow> unat (ts_dequeued (tw_stats w')) = items (tw_input w))"
proof -
  have "balanced (items (tw_input w)) 0 w"
    using assms(2,3) by (simp add: balanced_def accounted_def default_triage_stats_def)
  from triage_run_settled [OF assms(1) this, of cfg] show ?thesis
    unfolding settled_def accounted_def by (elim exE conjE, intro exI conjI) (assumption | simp)+
qed

text \<open>Two requests for one hash, and a world that logs what is sent.\<close>

definition example_request :: triage_request where
  "example_request = \<lparr>tr_info_hash = id20_ZERO, tr_source_node_addr = SocketV4 (Ipv4Addr 10 0 0 1) 6881\<rparr>"

definition other_request :: triage_request where
  "other_request = \<lparr>tr_info_hash = Id20 (replicate 20 1), tr_source_node_addr = SocketV4 (Ipv4Addr 10 0 0 2) 6881\<rparr>"

definition open_env :: "((route \<times> triage_request) list, unit) triage_env" where
  "open_env = \<lparr>te_filter = (\<lambda>hs s. Some (Inr hs, s)), te_lookup = (\<lambda>hs s. Some (Inr [], s)),
     te_now_unix_micros = (\<lambda>s. (0, s)),
     te_get_peers_send = (\<lambda>r s. (True, s @ [(RouteGetPeers, r)])), te_scrape_send = (\<lambda>r s. (True, s @ [(RouteScrape, r)])),
     te_cancelled = id\<rparr>"

definition example_worker :: "'s \<Rightarrow> 's triage_worker" where
  "example_worker s = \<lparr>tw_input = [Some example_request, None, Some example_request], tw_shutdown = None,
     tw_delays = [], tw_stats = default_triage_stats, tw_world = s\<rparr>"

theorem triage_accounts_for_all_witness:
  "collaborators_return open_env \<and> items (tw_input (example_worker [])) = 2
   \<and> (\<exists>exit w'. triage_run open_env default_triage_config (example_worker []) = Some (exit, w')
        \<and> (exit = InputClosed \<longrightarrow> unat (ts_dequeued (tw_stats w')) = 2))"
proof -
  have "collaborators_return open_env"
    by (simp add: collaborators_return_def open_env_def)
  moreover have w: "tw_stats (example_worker s) = default_triage_stats" "items (tw_input (example_worker s)) = 2" for s :: 's
    by (simp_all add: example_worker_def)
  ultimately show ?thesis
    using triage_accounts_for_all [of open_env "example_worker []" default_triage_config] by (simp add: w) blast
qed


text \<open>A manager that waits to persist one of two requested hashes.\<close>

definition example_geometry_10 :: stable_bloom_geometry where
  "example_geometry_10 = \<lparr>sg_cell_count = 10, sg_bits_per_cell = 2, sg_hash_functions = 3,
     sg_decrement_cells = 4, sg_packed_bytes = 3, sg_encoded_bytes = 78\<rparr>"

definition example_manager :: "(nat, unit) blocking_inner" where
  "example_manager = \<lparr>bi_store = (), bi_buffer = [id20_to_info_hash (tr_info_hash other_request)],
     bi_filter = Some (filter_new example_geometry_10), bi_last_flushed_at = Some 0, bi_decrement_starts = 0\<rparr>"

definition blocking_env :: "((nat, unit) blocking_inner \<times> (route \<times> triage_request) list, unit blocking_error) triage_env" where
  "blocking_env = \<lparr>
     te_filter = (\<lambda>hs (b, x). map_option (\<lambda>(result, b). (result, b, x)) (blocking_manager_filter failing_store default_blocking_config 0 hs b)),
     te_lookup = (\<lambda>hs s. Some (Inr [], s)), te_now_unix_micros = (\<lambda>s. (0, s)),
     te_get_peers_send = (\<lambda>r (b, x). (True, b, x @ [(RouteGetPeers, r)])),
     te_scrape_send = (\<lambda>r (b, x). (True, b, x @ [(RouteScrape, r)])), te_cancelled = id\<rparr>"

lemma filter_test_new: "filter_test (filter_new example_geometry_10) v = Some False"
proof -
  have g: "geometry_ok example_geometry_10"
    using geometry_new_ok [OF example_geometry] by (simp add: example_geometry_10_def)
  have "hash_indices v example_geometry_10 \<noteq> []"
    by (simp add: hash_indices_def example_geometry_10_def split: prod.splits)
  then have "\<not> (\<forall>i\<in>set (hash_indices v example_geometry_10). counters (filter_new example_geometry_10) ! i \<noteq> 0)"
    using hash_indices_bound [OF g, of v] unfolding counters_new [OF g] by (metis hd_in_set nth_replicate)
  then show ?thesis
    unfolding filter_test_spec [OF g filter_new_ok [OF g]] by simp
qed

lemma example_filtered:
  "blocking_manager_filter failing_store default_blocking_config 0 [id20_ZERO, Id20 (replicate 20 1)] example_manager
     = Some (Inr [id20_ZERO], example_manager)"
proof -
  have "id20_to_info_hash id20_ZERO \<noteq> id20_to_info_hash (Id20 (replicate 20 1))"
    by (metis as_bytes_Id20 as_bytes_ZERO ih_as_slice_id20 length_replicate nth_replicate zero_neq_one zero_less_numeral)
  then show ?thesis
    by (simp add: blocking_manager_filter_def adapt_filter_def bm_filter_def should_flush_def default_blocking_config_def
        example_manager_def other_request_def filter_test_new)
qed


end
