(* ===== verification/Client.thy ===== *)
theory Client
  imports Transaction_Safety Node_Table
begin

text \<open>
  \<open>bitmagnet-dht/src/dht_client.rs\<close>: the typed client for outbound queries and its older
  two-method form. A call registers and sends its query, waits for the response of its
  transaction and projects it. What the runtime does while a call waits, the other users of the
  registry included, is one argument; \<open>None\<close> is a panic.
\<close>

section \<open>Results and errors\<close>

record ping_result =
  pi_id :: id20

record find_node_result =
  fn_id :: id20
  fn_nodes :: "routing_node list"

record get_peers_result =
  gp_id :: id20
  gp_values :: "socket_addr list"
  gp_nodes :: "routing_node list"

record get_peers_scrape_result =
  gs_id :: id20
  gs_values :: "socket_addr list"
  gs_nodes :: "routing_node list"
  gs_peers_bloom :: scrape_bloom_filter
  gs_seeders_bloom :: scrape_bloom_filter

record sample_infohashes_result =
  si_id :: id20
  si_samples :: "id20 list option"
  si_nodes :: "routing_node list"
  si_num :: i64
  si_interval :: i64

datatype 'e dht_client_error =
  ClientQuerySend "'e query_send_error"
| ClientRemoteError socket_addr krpc_message krpc_error
| ClientMissingReturnBody socket_addr krpc_message
| ClientMissingErrorBody socket_addr krpc_message
| MissingScrapeBloomFilters socket_addr krpc_message bool bool
| ClientTimeout
| ClientRegistryClosed

datatype 'e ping_find_node_client_error =
  LegacyQuerySend "'e query_send_error"
| LegacyRemoteError socket_addr krpc_message krpc_error
| LegacyMissingReturnBody socket_addr krpc_message
| LegacyMissingErrorBody socket_addr krpc_message
| LegacyTimeout
| LegacyRegistryClosed

record accepted_query_response =
  aq_response_source :: socket_addr
  aq_message :: krpc_message
  aq_response :: message_return

section \<open>The client\<close>

record dht_client =
  cl_local_id :: id20
  cl_query_timeout :: duration

text \<open>
  What a client calls. The last operation is the wait under the time limit: it returns what the
  receiver of the transaction got, with the registry and the network as the other tasks left them.
\<close>

record ('i, 'ch, 'n, 'e) client_env =
  ce_emit :: "nat \<Rightarrow> bvalue \<Rightarrow> string + bytes"
  ce_next_id :: "'i \<Rightarrow> (string + transaction_id) \<times> 'i"
  ce_responses :: "(accepted_response, 'ch) mpsc"
  ce_send :: "socket_addr \<Rightarrow> bytes \<Rightarrow> 'n \<Rightarrow> ('e + unit) \<times> 'n"
  ce_await :: "duration \<Rightarrow> pending_transaction \<Rightarrow> ('i, 'ch) transactions \<Rightarrow> 'n
               \<Rightarrow> accepted_response recv_result \<times> ('i, 'ch) transactions \<times> 'n"

type_synonym ('i, 'ch, 'n, 'e, 'a) client_call =
  "('i, 'ch) transactions \<Rightarrow> 'n \<Rightarrow> (('e + 'a) \<times> ('i, 'ch) transactions \<times> 'n) option"

definition client_args :: "dht_client \<Rightarrow> id20 option \<Rightarrow> id20 option \<Rightarrow> i64 \<Rightarrow> message_args" where
  "client_args cl info_hash target scrape =
     \<lparr>ma_id = cl_local_id cl, ma_info_hash = info_hash, ma_target = target, ma_token = [], ma_port = None,
      ma_implied_port = False, ma_want = None, ma_no_seed = 0, ma_scrape = scrape\<rparr>"

definition client_query ::
  "('i, 'ch, 'n, 'e) client_env \<Rightarrow> dht_client \<Rightarrow> socket_addr \<Rightarrow> bytes \<Rightarrow> message_args
   \<Rightarrow> ('i, 'ch, 'n, 'e dht_client_error, accepted_query_response) client_call" where
  "client_query ce cl remote query args t n =
     (case register_and_send_query (ce_emit ce) (ce_next_id ce) (ce_responses ce) (ce_send ce) remote query args t n of
        (Inl e, t, n) \<Rightarrow> Some (Inl (ClientQuerySend e), t, n)
      | (Inr pending, t, n) \<Rightarrow>
          let (received, t, n) = ce_await ce (cl_query_timeout cl) pending t n;
              (outcome, t) = wait_finish (ce_responses ce) pending received t
          in (case outcome of
                WaitResponse source message response \<Rightarrow>
                  Some (Inr \<lparr>aq_response_source = source, aq_message = message, aq_response = response\<rparr>, t, n)
              | WaitRemoteError source message error \<Rightarrow> Some (Inl (ClientRemoteError source message error), t, n)
              | MissingReturnBody source message \<Rightarrow> Some (Inl (ClientMissingReturnBody source message), t, n)
              | MissingErrorBody source message \<Rightarrow> Some (Inl (ClientMissingErrorBody source message), t, n)
              | WaitTimeout \<Rightarrow> Some (Inl ClientTimeout, t, n)
              | WaitRegistryClosed \<Rightarrow> Some (Inl ClientRegistryClosed, t, n)
              | WaitCancelled \<Rightarrow> None))"

fun socket_addr_new :: "ip_addr \<Rightarrow> u16 \<Rightarrow> socket_addr" where
  "socket_addr_new (IpV4 ip) port = SocketV4 ip port"
| "socket_addr_new (IpV6 ip) port = SocketV6 ip port 0 0"

definition client_project_nodes :: "compact_node list option \<Rightarrow> routing_node list" where
  "client_project_nodes nodes =
     map (\<lambda>node. \<lparr>rn_id = cn_id node, rn_addr = socket_addr_new (ca_ip (cn_addr node)) (ca_port (cn_addr node))\<rparr>)
       (unwrap_or nodes [])"

definition client_project_values :: "compact_addr list option \<Rightarrow> socket_addr list" where
  "client_project_values values = map (\<lambda>a. socket_addr_new (ca_ip a) (ca_port a)) (unwrap_or values [])"

text \<open>What a method does with an accepted response.\<close>

definition on_accepted ::
  "('a \<Rightarrow> 'e + 'b) \<Rightarrow> ('i, 'ch, 'n, 'e, 'a) client_call \<Rightarrow> ('i, 'ch, 'n, 'e, 'b) client_call" where
  "on_accepted f call t n = map_option (\<lambda>(result, t, n). (rbind result f, t, n)) (call t n)"

definition client_ping ::
  "('i, 'ch, 'n, 'e) client_env \<Rightarrow> dht_client \<Rightarrow> socket_addr
   \<Rightarrow> ('i, 'ch, 'n, 'e dht_client_error, ping_result) client_call" where
  "client_ping ce cl remote =
     on_accepted (\<lambda>accepted. Inr \<lparr>pi_id = mr_id (aq_response accepted)\<rparr>)
       (client_query ce cl remote (bstr ''ping'') (client_args cl None None 0))"

definition client_find_node ::
  "('i, 'ch, 'n, 'e) client_env \<Rightarrow> dht_client \<Rightarrow> socket_addr \<Rightarrow> id20
   \<Rightarrow> ('i, 'ch, 'n, 'e dht_client_error, find_node_result) client_call" where
  "client_find_node ce cl remote target =
     on_accepted (\<lambda>accepted. let response = aq_response accepted
         in Inr \<lparr>fn_id = mr_id response, fn_nodes = client_project_nodes (mr_nodes response)\<rparr>)
       (client_query ce cl remote (bstr ''find_node'') (client_args cl None (Some target) 0))"

definition client_get_peers ::
  "('i, 'ch, 'n, 'e) client_env \<Rightarrow> dht_client \<Rightarrow> socket_addr \<Rightarrow> id20
   \<Rightarrow> ('i, 'ch, 'n, 'e dht_client_error, get_peers_result) client_call" where
  "client_get_peers ce cl remote info_hash =
     on_accepted (\<lambda>accepted. let response = aq_response accepted
         in Inr \<lparr>gp_id = mr_id response, gp_values = client_project_values (mr_values response),
                 gp_nodes = client_project_nodes (mr_nodes response)\<rparr>)
       (client_query ce cl remote (bstr ''get_peers'') (client_args cl (Some info_hash) None 0))"

definition client_get_peers_scrape ::
  "('i, 'ch, 'n, 'e) client_env \<Rightarrow> dht_client \<Rightarrow> socket_addr \<Rightarrow> id20
   \<Rightarrow> ('i, 'ch, 'n, 'e dht_client_error, get_peers_scrape_result) client_call" where
  "client_get_peers_scrape ce cl remote info_hash =
     on_accepted (\<lambda>accepted. let response = aq_response accepted
         in (case (mr_peers_bloom response, mr_seeders_bloom response) of
               (Some peers_bloom, Some seeders_bloom) \<Rightarrow>
                 Inr \<lparr>gs_id = mr_id response, gs_values = client_project_values (mr_values response),
                      gs_nodes = client_project_nodes (mr_nodes response), gs_peers_bloom = peers_bloom,
                      gs_seeders_bloom = seeders_bloom\<rparr>
             | _ \<Rightarrow> Inl (MissingScrapeBloomFilters (aq_response_source accepted) (aq_message accepted)
                          (mr_peers_bloom response = None) (mr_seeders_bloom response = None))))
       (client_query ce cl remote (bstr ''get_peers'') (client_args cl (Some info_hash) None 1))"

definition client_sample_infohashes ::
  "('i, 'ch, 'n, 'e) client_env \<Rightarrow> dht_client \<Rightarrow> socket_addr \<Rightarrow> id20
   \<Rightarrow> ('i, 'ch, 'n, 'e dht_client_error, sample_infohashes_result) client_call" where
  "client_sample_infohashes ce cl remote target =
     on_accepted (\<lambda>accepted. let response = aq_response accepted
         in Inr \<lparr>si_id = mr_id response, si_samples = mr_samples response,
                 si_nodes = client_project_nodes (mr_nodes response), si_num = unwrap_or (mr_num response) 0,
                 si_interval = unwrap_or (mr_interval response) 0\<rparr>)
       (client_query ce cl remote (bstr ''sample_infohashes'') (client_args cl None (Some target) 0))"

section \<open>The two-method client\<close>

fun map_legacy_client_error :: "'e dht_client_error \<Rightarrow> 'e ping_find_node_client_error option" where
  "map_legacy_client_error (ClientQuerySend e) = Some (LegacyQuerySend e)"
| "map_legacy_client_error (ClientRemoteError source message error) = Some (LegacyRemoteError source message error)"
| "map_legacy_client_error (ClientMissingReturnBody source message) = Some (LegacyMissingReturnBody source message)"
| "map_legacy_client_error (ClientMissingErrorBody source message) = Some (LegacyMissingErrorBody source message)"
| "map_legacy_client_error ClientTimeout = Some LegacyTimeout"
| "map_legacy_client_error ClientRegistryClosed = Some LegacyRegistryClosed"
| "map_legacy_client_error (MissingScrapeBloomFilters source message peers seeders) = None"

definition legacy_result ::
  "('i, 'ch, 'n, 'e dht_client_error, 'a) client_call \<Rightarrow> ('i, 'ch, 'n, 'e ping_find_node_client_error, 'a) client_call" where
  "legacy_result call t n =
     (case call t n of
        None \<Rightarrow> None
      | Some (Inr x, t, n) \<Rightarrow> Some (Inr x, t, n)
      | Some (Inl e, t, n) \<Rightarrow> map_option (\<lambda>e. (Inl e, t, n)) (map_legacy_client_error e))"

definition legacy_ping ::
  "('i, 'ch, 'n, 'e) client_env \<Rightarrow> dht_client \<Rightarrow> socket_addr
   \<Rightarrow> ('i, 'ch, 'n, 'e ping_find_node_client_error, ping_result) client_call" where
  "legacy_ping ce cl remote = legacy_result (client_ping ce cl remote)"

definition legacy_find_node ::
  "('i, 'ch, 'n, 'e) client_env \<Rightarrow> dht_client \<Rightarrow> socket_addr \<Rightarrow> id20
   \<Rightarrow> ('i, 'ch, 'n, 'e ping_find_node_client_error, find_node_result) client_call" where
  "legacy_find_node ce cl remote target = legacy_result (client_find_node ce cl remote target)"

section \<open>What a call returns\<close>

text \<open>
  The wait behaves: the other tasks only take steps of the registry, and a response is returned
  only when the receiver of the awaited query read it.
\<close>

definition awaits_own ::
  "('i \<Rightarrow> (string + transaction_id) \<times> 'i) \<Rightarrow> (accepted_response, 'ch) mpsc
   \<Rightarrow> (duration \<Rightarrow> pending_transaction \<Rightarrow> ('i, 'ch) transactions \<Rightarrow> 'n
       \<Rightarrow> accepted_response recv_result \<times> ('i, 'ch) transactions \<times> 'n) \<Rightarrow> bool" where
  "awaits_own next_id mp await \<longleftrightarrow>
     (\<forall>w g q timeout n received t n'.
        tx_reachable next_id mp w \<and> tw_queries w g = Some q
        \<and> await timeout (mark_sent q) (tw_tx w) n = (received, t, n') \<longrightarrow>
        (\<exists>w'. tx_reachable next_id mp w' \<and> tw_tx w' = t \<and> tw_queries w' g = Some q
            \<and> (\<forall>a. received = Received a \<longrightarrow> a \<in> set (tw_received w' g))))"

lemmas awaits_ownD = awaits_own_def [THEN iffD1, rule_format, OF _ conjI, OF _ _ conjI]

text \<open>A result that stems from a response accepted for the query.\<close>

fun outcome_for :: "registered_query \<Rightarrow> 'e dht_client_error + accepted_query_response \<Rightarrow> bool" where
  "outcome_for q (Inr accepted) \<longleftrightarrow>
     accepted_for q \<lparr>ar_source = aq_response_source accepted, ar_message = aq_message accepted\<rparr>
     \<and> km_message_type (aq_message accepted) = bstr ''r'' \<and> km_response (aq_message accepted) = Some (aq_response accepted)"
| "outcome_for q (Inl (ClientRemoteError source message error)) \<longleftrightarrow>
     accepted_for q \<lparr>ar_source = source, ar_message = message\<rparr>
     \<and> km_message_type message = bstr ''e'' \<and> km_error message = Some error"
| "outcome_for q (Inl (ClientMissingReturnBody source message)) \<longleftrightarrow>
     accepted_for q \<lparr>ar_source = source, ar_message = message\<rparr>
     \<and> km_message_type message = bstr ''r'' \<and> km_response message = None"
| "outcome_for q (Inl (ClientMissingErrorBody source message)) \<longleftrightarrow>
     accepted_for q \<lparr>ar_source = source, ar_message = message\<rparr>
     \<and> km_message_type message = bstr ''e'' \<and> km_error message = None"
| "outcome_for q (Inl ClientTimeout) \<longleftrightarrow> True"
| "outcome_for q (Inl ClientRegistryClosed) \<longleftrightarrow> True"
| "outcome_for q (Inl _) \<longleftrightarrow> False"

text \<open>The result of a wait as the result of a call.\<close>

fun client_outcome :: "transaction_wait_outcome \<Rightarrow> ('e dht_client_error + accepted_query_response) option" where
  "client_outcome (WaitResponse source message response) =
     Some (Inr \<lparr>aq_response_source = source, aq_message = message, aq_response = response\<rparr>)"
| "client_outcome (WaitRemoteError source message error) = Some (Inl (ClientRemoteError source message error))"
| "client_outcome (MissingReturnBody source message) = Some (Inl (ClientMissingReturnBody source message))"
| "client_outcome (MissingErrorBody source message) = Some (Inl (ClientMissingErrorBody source message))"
| "client_outcome WaitTimeout = Some (Inl ClientTimeout)"
| "client_outcome WaitRegistryClosed = Some (Inl ClientRegistryClosed)"
| "client_outcome WaitCancelled = None"

lemma client_query_eq:
  "client_query ce cl remote query args t n =
     (case register_and_send_query (ce_emit ce) (ce_next_id ce) (ce_responses ce) (ce_send ce) remote query args t n of
        (Inl e, t, n) \<Rightarrow> Some (Inl (ClientQuerySend e), t, n)
      | (Inr pending, t, n) \<Rightarrow>
          (case ce_await ce (cl_query_timeout cl) pending t n of (received, t, n) \<Rightarrow>
             map_option (\<lambda>result. (result, finish (ce_responses ce) pending t, n)) (client_outcome (wait_outcome received))))"
  unfolding client_query_def wait_finish_def Let_def
  by (auto split: prod.splits sum.splits transaction_wait_outcome.splits)

lemma wait_outcome_for:
  assumes "\<And>a. received = Received a \<Longrightarrow> accepted_for q a"
  shows "\<exists>result. client_outcome (wait_outcome received) = Some result \<and> outcome_for q (result :: 'e dht_client_error + _)"
proof (cases received)
  case (Received a)
  with assms have "accepted_for q \<lparr>ar_source = ar_source a, ar_message = ar_message a\<rparr>"
    by (simp add: accepted_for_def)
  then show ?thesis
    using Received
    by (cases "km_response (ar_message a)"; cases "km_error (ar_message a)")
      (auto simp: classify_response_def Let_def accepted_for_def)
qed simp_all

text \<open>The end of a transaction: nothing is pending under its generation.\<close>

lemma drop_reachable:
  assumes "tx_reachable next_id mp w" and "tw_queries w g = Some q"
  shows "tx_reachable next_id mp (w\<lparr>tw_tx := drop_receiver mp (rq_guard q) (tw_tx w)\<rparr>)"
    and "tx_reachable next_id mp (w\<lparr>tw_tx := drop_guard (rq_guard q) (tw_tx w)\<rparr>)"
  by (rule tx_reachable.step [OF assms(1)], rule tx_step.receiver_dropped tx_step.guard_dropped, rule assms(2))+

lemma finished_reachable:
  assumes "tx_reachable next_id mp w" and "tw_queries w g = Some q"
  shows "tx_reachable next_id mp (w\<lparr>tw_tx := finish mp (mark_sent q) (tw_tx w)\<rparr>)"
    and "tx_reachable next_id mp (w\<lparr>tw_tx := drop_registered mp q (tw_tx w)\<rparr>)"
  using drop_reachable(2) [OF drop_reachable(1) [OF assms], of g q] drop_reachable(1) [OF drop_reachable(2) [OF assms], of g q] assms(2)
  by (simp_all add: finish_def drop_registered_def mark_sent_def)

lemma finished_not_pending:
  assumes "mpsc_refines mp view" and "tx_reachable next_id mp w" and "tw_queries w g = Some q"
    and "hm_get (rs_pending (tx_registry (finish mp (mark_sent q) (tw_tx w)))) tid = Some e"
  shows "pe_generation e \<noteq> g"
proof
  assume g: "pe_generation e = g"
  note ok = tx_reachable_ok [OF assms(2,1), unfolded tx_ok_def]
  have gen: "rg_generation (rq_guard q) = g"
    using ok queries_okD(2) assms(3) by blast
  have pending: "hm_get (rs_pending (tx_registry (tw_tx w))) tid = Some e"
    using assms(4) by (auto simp: finish_def mark_sent_def drop_guard_def drop_receiver_def remove_registration_pending split: if_splits)
  then have "rg_transaction_id (rq_guard q) = tid"
    using ok entries_okD assms(3) g by (fastforce simp: entry_ok_def)
  with assms(4) gen g pending show False
    by (simp add: finish_def mark_sent_def drop_guard_def drop_receiver_def remove_registration_pending)
qed

lemma send_query_cases:
  assumes "tx_reachable next_id mp w" and "register_and_send_query emit next_id mp send remote query args (tw_tx w) n = (result, t, n')"
  obtains e w' where "result = Inl e" "tx_reachable next_id mp w'" "tw_tx w' = t"
      "hm_get (rs_pending (tx_registry t)) = hm_get (rs_pending (tx_registry (tw_tx w)))"
  | q tid g w' where "result = Inr (mark_sent q)" "tx_reachable next_id mp w'" "tw_tx w' = t" "tw_queries w' g = Some q"
      "q = \<lparr>rq_guard = \<lparr>rg_transaction_id = tid, rg_generation = g\<rparr>, rq_remote = remote, rq_message = query_message tid query args\<rparr>"
      "\<not> is_pending (tw_tx w) tid" "g = rs_next_generation (tx_registry (tw_tx w))"
proof (cases "register next_id mp remote query args (tw_tx w)")
  case (Pair r t1)
  show thesis
  proof (cases r)
    case (Inl e)
    have "tx_reachable next_id mp (w\<lparr>tw_tx := t1\<rparr>)"
      by (rule tx_reachable.step [OF assms(1)], rule tx_step.register_failed) (use Pair Inl in simp)
    moreover have "rs_pending (tx_registry t1) = rs_pending (tx_registry (tw_tx w))"
      using register_Inl [of next_id mp remote query args "tw_tx w" e t1] Pair Inl by auto
    ultimately show thesis
      using that(1) [of "QuerySendRegister e" "w\<lparr>tw_tx := t1\<rparr>"] assms(2) Pair Inl
      by (auto simp: register_and_send_query_def register_encode_and_send_query_def)
  next
    case (Inr q)
    let ?g = "rs_next_generation (tx_registry (tw_tx w))"
    obtain tid where q: "\<not> hm_contains (rs_pending (tx_registry (tw_tx w))) tid"
      "q = \<lparr>rq_guard = \<lparr>rg_transaction_id = tid, rg_generation = ?g\<rparr>, rq_remote = remote, rq_message = query_message tid query args\<rparr>"
      using register_Inr [of next_id mp remote query args "tw_tx w" q t1] Pair Inr by auto
    let ?w = "w\<lparr>tw_tx := t1, tw_queries := (tw_queries w)(rg_generation (rq_guard q) \<mapsto> q)\<rparr>"
    have w: "tx_reachable next_id mp ?w"
      by (rule tx_reachable.step [OF assms(1)], rule tx_step.registered) (use Pair Inr in simp)
    have "tw_queries ?w ?g = Some q"
      by (simp add: q(2))
    note dropped = finished_reachable(2) [OF w this]
    have pending: "hm_get (rs_pending (tx_registry (drop_registered mp q t1))) = hm_get (rs_pending (tx_registry (tw_tx w)))"
      using drop_registered_pending [OF Pair [unfolded Inr]] .
    show thesis
      using assms(2) Pair Inr that(1) [OF _ dropped] that(2) [OF _ w _ \<open>tw_queries ?w ?g = Some q\<close> q(2)] pending q(1)
      by (auto simp: register_and_send_query_def register_encode_and_send_query_def is_pending_def split: sum.splits prod.splits)
  qed
qed

text \<open>
  A call on a registry \<open>t\<close> that ended with a result and the registry \<open>t'\<close>: the query was not sent
  and the pending identifiers are those of before, or it used a fresh identifier, nothing is
  pending under its generation, and the result is what its own response says.
\<close>

definition concluded ::
  "socket_addr \<Rightarrow> bytes \<Rightarrow> message_args \<Rightarrow> ('i, 'ch) transactions \<Rightarrow> 'e dht_client_error + accepted_query_response
   \<Rightarrow> ('i, 'ch) transactions \<Rightarrow> bool" where
  "concluded remote query args t result t' \<longleftrightarrow>
     (if \<exists>e. result = Inl (ClientQuerySend e)
      then hm_get (rs_pending (tx_registry t')) = hm_get (rs_pending (tx_registry t))
      else \<exists>tid g. \<not> is_pending t tid
             \<and> (\<forall>tid e. hm_get (rs_pending (tx_registry t')) tid = Some e \<longrightarrow> pe_generation e \<noteq> g)
             \<and> outcome_for \<lparr>rq_guard = \<lparr>rg_transaction_id = tid, rg_generation = g\<rparr>, rq_remote = remote,
                            rq_message = query_message tid query args\<rparr> result)"

lemma client_query_concluded:
  assumes "mpsc_refines (ce_responses ce) view" and "awaits_own (ce_next_id ce) (ce_responses ce) (ce_await ce)"
    and "tx_reachable (ce_next_id ce) (ce_responses ce) w"
  shows "\<exists>result w' n'. client_query ce cl remote query args (tw_tx w) n = Some (result, tw_tx w', n')
      \<and> tx_reachable (ce_next_id ce) (ce_responses ce) w' \<and> concluded remote query args (tw_tx w) result (tw_tx w')"
proof -
  obtain sent t n1 where send: "register_and_send_query (ce_emit ce) (ce_next_id ce) (ce_responses ce) (ce_send ce)
      remote query args (tw_tx w) n = (sent, t, n1)"
    by (rule prod_cases3)
  from assms(3) send show ?thesis
  proof (cases rule: send_query_cases)
    case (1 e w')
    with send show ?thesis
      by (intro exI [of _ "Inl (ClientQuerySend e)"] exI [of _ w'] exI [of _ n1]) (simp add: client_query_eq concluded_def)
  next
    case (2 q tid g w1)
    obtain received t2 n2 where await: "ce_await ce (cl_query_timeout cl) (mark_sent q) (tw_tx w1) n1 = (received, t2, n2)"
      by (rule prod_cases3)
    obtain w2 where w2: "tx_reachable (ce_next_id ce) (ce_responses ce) w2" "tw_tx w2 = t2" "tw_queries w2 g = Some q"
      and received: "\<And>a. received = Received a \<Longrightarrow> a \<in> set (tw_received w2 g)"
      using awaits_ownD [OF assms(2) 2(2,4) await] by blast
    have "queries_ok (rs_next_generation (tx_registry (tw_tx w2))) (tw_queries w2) (buffers view (tw_tx w2)) (tw_received w2)"
      using tx_reachable_ok [OF w2(1) assms(1)] by (simp add: tx_ok_def)
    from queries_okD(4) [OF this, of g q] w2(3) have "accepted_for q a" if "received = Received a" for a
      using received [OF that] by (auto simp: generation_ok_def)
    then obtain result :: "'d dht_client_error + accepted_query_response"
      where result: "client_outcome (wait_outcome received) = Some result" "outcome_for q result"
      using wait_outcome_for by blast
    let ?w = "w2\<lparr>tw_tx := finish (ce_responses ce) (mark_sent q) (tw_tx w2)\<rparr>"
    have "concluded remote query args (tw_tx w) result (tw_tx ?w)"
      using result(2) 2(5,6) finished_not_pending [OF assms(1) w2(1,3)] by (auto simp: concluded_def)
    moreover have "tx_reachable (ce_next_id ce) (ce_responses ce) ?w"
      by (rule finished_reachable(1) [OF w2(1,3)])
    ultimately show ?thesis
      using send 2(1,3) await result(1) w2(2)
      by (intro exI [of _ result] exI [of _ ?w] exI [of _ n2]) (simp add: client_query_eq)
  qed
qed

lemma legacy_result_total:
  assumes "call t n = Some (result, t', n')" and "\<And>source message peers seeders. result \<noteq> Inl (MissingScrapeBloomFilters source message peers seeders)"
  shows "legacy_result (on_accepted (\<lambda>a. Inr (f a)) call) t n \<noteq> None"
proof (cases result)
  case (Inl e)
  with assms show ?thesis
    by (cases e) (auto simp: legacy_result_def on_accepted_def)
qed (use assms(1) in \<open>simp add: legacy_result_def on_accepted_def\<close>)

lemma legacy_query_total:
  assumes "mpsc_refines (ce_responses ce) view" and "awaits_own (ce_next_id ce) (ce_responses ce) (ce_await ce)"
    and "tx_reachable (ce_next_id ce) (ce_responses ce) w"
  shows "legacy_result (on_accepted (\<lambda>a. Inr (f a)) (client_query ce cl remote query args)) (tw_tx w) n \<noteq> None"
proof -
  obtain result w' n' where call: "client_query ce cl remote query args (tw_tx w) n = Some (result, tw_tx w', n')"
    and "tx_reachable (ce_next_id ce) (ce_responses ce) w'" and concluded: "concluded remote query args (tw_tx w) result (tw_tx w')"
    using client_query_concluded [OF assms, of cl remote query args n] by blast
  have "result \<noteq> Inl (MissingScrapeBloomFilters source message peers seeders)" for source message peers seeders
    using concluded by (auto simp: concluded_def)
  then show ?thesis
    by (rule legacy_result_total [of "client_query ce cl remote query args", OF call])
qed


text \<open>A wait during which the example response is delivered and read; every other wait times out.\<close>

definition example_await ::
  "duration \<Rightarrow> pending_transaction \<Rightarrow> (nat, accepted_response fifo) transactions \<Rightarrow> (socket_addr \<times> bytes) list
   \<Rightarrow> accepted_response recv_result \<times> (nat, accepted_response fifo) transactions \<times> (socket_addr \<times> bytes) list" where
  "example_await timeout p t n =
     (if p = mark_sent example_registered \<and> t = example_tx Awaiting []
      then (Received example_accepted, example_tx Delivered [], n) else (Elapsed, t, n))"

definition example_client_env ::
  "(nat, accepted_response fifo, (socket_addr \<times> bytes) list, unit) client_env" where
  "example_client_env =
     \<lparr>ce_emit = \<lambda>_ v. Inr (bencode v), ce_next_id = counting_issuer, ce_responses = fifo_mpsc,
      ce_send = \<lambda>dest wire log. (Inr (), log @ [(dest, wire)]), ce_await = example_await\<rparr>"

abbreviation example_client :: dht_client where
  "example_client \<equiv> \<lparr>cl_local_id = id20_ZERO, cl_query_timeout = 10\<rparr>"

lemma example_awaits: "awaits_own counting_issuer fifo_mpsc example_await"
  unfolding awaits_own_def
proof (intro allI impI, elim conjE)
  fix w :: "(nat, accepted_response fifo) tx_world" and g q timeout n received t n'
  assume w: "tx_reachable counting_issuer fifo_mpsc w" and q: "tw_queries w g = Some q"
    and await: "example_await timeout (mark_sent q) (tw_tx w) n = (received, t, n')"
  show "\<exists>w'. tx_reachable counting_issuer fifo_mpsc w' \<and> tw_tx w' = t \<and> tw_queries w' g = Some q
      \<and> (\<forall>a. received = Received a \<longrightarrow> a \<in> set (tw_received w' g))"
  proof (cases "mark_sent q = mark_sent example_registered \<and> tw_tx w = example_tx Awaiting []")
    case True
    have "rg_generation (rq_guard q) = g"
      using tx_reachable_ok [OF w fifo_mpsc_refines] q queries_okD(2) by (auto simp: tx_ok_def)
    with True have g: "g = 0"
      by (simp add: mark_sent_def example_registered_def)
    let ?w1 = "w\<lparr>tw_tx := example_tx Delivered [example_accepted]\<rparr>"
    let ?w2 = "?w1\<lparr>tw_tx := example_tx Delivered [], tw_received := (tw_received w)(0 := tw_received w 0 @ [example_accepted])\<rparr>"
    have "tx_step counting_issuer fifo_mpsc w ?w1"
      using tx_step.delivered [of fifo_mpsc example_remote example_response w _ _ counting_issuer] example_deliver True by simp
    then have 1: "tx_reachable counting_issuer fifo_mpsc ?w1"
      by (rule tx_reachable.step [OF w])
    have "tx_step counting_issuer fifo_mpsc ?w1 ?w2"
      using tx_step.received [of ?w1 0 q _ fifo_mpsc example_accepted] q g
      by (simp add: example_tx_def fifo_mpsc_def fifo_try_recv_def)
    then have "tx_reachable counting_issuer fifo_mpsc ?w2"
      by (rule tx_reachable.step [OF 1])
    then show ?thesis
      using await True q g by (intro exI [of _ ?w2]) (auto simp: example_await_def)
  qed (use await w q in \<open>auto simp: example_await_def\<close>)
qed


end
