(* ===== verification/Inbound_Reads.thy ===== *)
theory Inbound_Reads
  imports Inbound_Safety
begin

text \<open>
  What the parsers of the inbound decoder do on canonical bytes, wherever these stand in a
  datagram: byte strings, integers, lists and typed dictionaries. A loop over the entries of a
  container is a fold over those entries.
\<close>

section \<open>Reading at a place of the input\<close>

text \<open>The cursor is at \<open>w\<close>, the rest of the input, with at most \<open>d\<close> containers open.\<close>

definition stands_at :: "nat \<Rightarrow> bytes \<Rightarrow> cursor \<Rightarrow> bytes \<Rightarrow> bool" where
  "stands_at d input cur w \<longleftrightarrow> within d input cur \<and> drop (cu_offset cur) input = w"

definition reads :: "nat \<Rightarrow> bytes \<Rightarrow> bytes \<Rightarrow> ('a \<Rightarrow> bool) \<Rightarrow> (cursor \<Rightarrow> 'a outcome) \<Rightarrow> bool" where
  "reads d input v Q p \<longleftrightarrow>
     (\<forall>cur w. stands_at d input cur (v @ w) \<longrightarrow> (\<exists>x cur'. p cur = Ok x cur' \<and> Q x \<and> stands_at d input cur' w))"

lemma readsD:
  "reads d input v Q p \<Longrightarrow> stands_at d input cur (v @ w) \<Longrightarrow> \<exists>x cur'. p cur = Ok x cur' \<and> Q x \<and> stands_at d input cur' w"
  by (simp add: reads_def)

lemma reads_append:
  assumes "reads d input v Q p" and "\<And>x. Q x \<Longrightarrow> reads d input v' R (f x)"
  shows "reads d input (v @ v') R (\<lambda>cur. pbind (p cur) f)"
  unfolding reads_def
proof (intro allI impI)
  fix cur w
  assume "stands_at d input cur ((v @ v') @ w)"
  then obtain x cur1 where "p cur = Ok x cur1" "Q x" "stands_at d input cur1 (v' @ w)"
    using readsD [OF assms(1), of cur "v' @ w"] by auto
  then show "\<exists>y cur'. pbind (p cur) f = Ok y cur' \<and> R y \<and> stands_at d input cur' w"
    using readsD [OF assms(2)] by simp
qed

lemma reads_then:
  "reads d input v Q p \<Longrightarrow> (\<And>x. Q x \<Longrightarrow> reads d input [] R (f x)) \<Longrightarrow> reads d input v R (\<lambda>cur. pbind (p cur) f)"
  using reads_append [of d input v Q p "[]" R f] by simp

lemma reads_Ok: "R y \<Longrightarrow> reads d input [] R (Ok y)"
  by (simp add: reads_def)

lemma reads_lift: "r = Inr y \<Longrightarrow> R y \<Longrightarrow> reads d input [] R (lift_result f r)"
  by (simp add: reads_def lift_result_def)

lemma reads_weaken: "reads d input v Q p \<Longrightarrow> (\<And>x. Q x \<Longrightarrow> R x) \<Longrightarrow> reads d input v R p"
  unfolding reads_def by blast

lemma stands_at_byte: "stands_at d input cur (b # w) \<Longrightarrow> byte_at input (cu_offset cur) = Some b"
  unfolding stands_at_def byte_at_def by (metis drop_eq_Nil hd_drop_conv_nth list.distinct(1) list.sel(1) not_le)

lemma stands_at_length: "stands_at d input cur w \<Longrightarrow> cu_offset cur + length w = length input"
  by (auto simp: stands_at_def within_def)

lemma stands_at_advance:
  assumes "stands_at d input cur (v @ w)" and "2 * n \<le> cu_offset cur + length v + d'" and "d' \<le> 10"
  shows "stands_at d' input \<lparr>cu_offset = cu_offset cur + length v, cu_values = n\<rparr> w"
proof -
  have "drop (cu_offset cur) input = v @ w"
    using assms(1) by (simp add: stands_at_def)
  then have "drop (cu_offset cur + length v) input = w"
    by (metis add.commute append_eq_conv_conj drop_drop)
  with assms stands_at_length [OF assms(1)] show ?thesis
    by (simp add: stands_at_def within_def)
qed

lemma begin_value_at:
  "stands_at d input cur (b # w) \<Longrightarrow> begin_value input cur = Ok (cu_offset cur) (cur\<lparr>cu_values := cu_values cur + 1\<rparr>)"
  using stands_at_length [of d input cur "b # w"] by (simp add: begin_value_def stands_at_def within_def)

lemma peek_at: "stands_at d input cur (b # w) \<Longrightarrow> peek input cur = Ok b cur"
  by (simp add: peek_def stands_at_byte)

section \<open>Byte strings and integers\<close>

lemma dec_bytes_leading: "hd (dec_bytes n) = 48 \<Longrightarrow> n = 0"
proof (induction n rule: less_induct)
  case (less n)
  show ?case
  proof (cases "n < 10")
    case True
    then have "(of_nat n :: u8) = 0"
      using less.prems by (simp add: dec_bytes_rec [of n])
    with True digit_byte(3) [of n] show ?thesis by simp
  next
    case False
    with less.prems less.IH [of "n div 10"] show ?thesis
      by (simp add: dec_bytes_rec [of n])
  qed
qed

lemma dec_bytes_0 [simp]: "dec_bytes 0 = [48]"
  by (subst dec_bytes_rec) simp

lemma parse_decimal_digits: "parse_digits a v = Some n \<Longrightarrow> n < usize_limit \<Longrightarrow> parse_decimal_usize a v = Some n"
proof (induction v arbitrary: a)
  case (Cons b v)
  have grow: "a \<le> n" if "parse_digits a v = Some n" for a n v
    using that
  proof (induction v arbitrary: a)
    case (Cons b v)
    from Cons.IH [of "a * 10 + unat (b - 48)"] Cons.prems show ?case
      by (simp split: if_splits)
  qed simp
  from Cons.prems(1) have "48 \<le> b" and *: "parse_digits (a * 10 + unat (b - 48)) v = Some n"
    by (auto split: if_splits)
  with grow [OF *] Cons.prems(2) Cons.IH [OF *] show ?case
    by (simp add: not_less)
qed simp

lemma scan_digits:
  assumes "drop i input = dec_bytes n @ b # w" and "\<not> is_ascii_digit b"
  shows "scan_while is_ascii_digit input i = i + length (dec_bytes n)"
    and "slice input i (i + length (dec_bytes n)) = dec_bytes n"
proof -
  have "\<forall>x\<in>set (dec_bytes n). is_ascii_digit x"
    using dec_bytes_digits by (auto simp: is_ascii_digit_def)
  with assms show "scan_while is_ascii_digit input i = i + length (dec_bytes n)"
    by (simp add: scan_while_def takeWhile_append)
  show "slice input i (i + length (dec_bytes n)) = dec_bytes n"
    by (simp add: slice_def assms(1))
qed

lemma reads_bytes: "reads d input (string_bytes v) (\<lambda>r. snd r = v) (parse_bytes input field)"
  unfolding reads_def
proof (intro allI impI)
  fix cur w
  assume at: "stands_at d input cur (string_bytes v @ w)"
  let ?n = "length v" and ?i = "cu_offset cur"
  obtain b u where b: "dec_bytes ?n = b # u"
    by (cases "dec_bytes ?n") auto
  have at': "stands_at d input cur (b # u @ 58 # v @ w)" "stands_at d input cur (dec_bytes ?n @ 58 # v @ w)"
    using at b by (simp_all add: string_bytes_def bstr_def)
  have i: "drop ?i input = dec_bytes ?n @ 58 # v @ w" and d: "within d input cur"
    using at'(2) by (simp_all add: stands_at_def)
  have len: "?i + length (dec_bytes ?n) + 1 + ?n + length w = length input"
    using stands_at_length [OF at'(2)] by simp
  have digit: "is_ascii_digit b"
    using dec_bytes_digits [of b ?n] b by (simp add: is_ascii_digit_def)
  have rest: "drop (?i + length (dec_bytes ?n)) input = 58 # v @ w"
    using i by (metis add.commute append_eq_conv_conj drop_drop)
  then have colon: "byte_at input (?i + length (dec_bytes ?n)) = Some 58"
    using len by (simp add: byte_at_def flip: hd_drop_conv_nth)
  have body: "slice input (Suc (?i + length (dec_bytes ?n))) (Suc (?i + length (dec_bytes ?n) + ?n)) = v"
    using rest by (simp add: slice_def drop_Suc flip: tl_drop)
  have usize: "parse_decimal_usize 0 (dec_bytes ?n) = Some ?n" and "Suc (?i + length (dec_bytes ?n) + ?n) < usize_limit"
    using d len by (simp_all add: parse_decimal_digits within_def)
  moreover have "\<not> (1 < length (dec_bytes ?n) \<and> hd (dec_bytes ?n) = 48)"
    using dec_bytes_leading [of ?n] by auto
  ultimately have "parse_bytes input field cur =
      Ok (?i, v) \<lparr>cu_offset = ?i + length (dec_bytes ?n @ 58 # v), cu_values = cu_values cur + 1\<rparr>"
    using stands_at_byte [OF at'(1)] digit colon body scan_digits [OF i] len
    by (simp add: parse_bytes_def begin_value_at [OF at'(1)] Let_def is_ascii_digit_def)
  moreover have "stands_at d input \<lparr>cu_offset = ?i + length (dec_bytes ?n @ 58 # v), cu_values = cu_values cur + 1\<rparr> w"
    using at'(2) d b by (intro stands_at_advance [of d]) (simp_all add: within_def)
  ultimately show "\<exists>x cur'. parse_bytes input field cur = Ok x cur' \<and> snd x = v \<and> stands_at d input cur' w"
    by simp
qed

lemma int_bytes_head:
  obtains b w where "int_bytes i = b # w" "b \<noteq> 101"
  using int_bytes_no_e [of _ i] by (cases "int_bytes i") (auto simp: int_bytes_def bstr_def split: if_splits)

text \<open>The digits of a canonical integer, and what the decoder checks of them.\<close>

lemma strip_minus_int_bytes: "strip_minus (int_bytes i) = dec_bytes (nat \<bar>i\<bar>)"
proof (cases "i < 0")
  case False
  obtain b w where "dec_bytes (nat i) = b # w"
    by (cases "dec_bytes (nat i)") auto
  moreover from this have "b \<noteq> 45"
    using dec_bytes_digits [of b "nat i"] by auto
  ultimately show ?thesis
    using False by (simp add: strip_minus_def int_bytes_def)
qed (simp add: strip_minus_def int_bytes_def bstr_def)

lemma valid_int_bytes: "valid_generic_integer (int_bytes i)"
proof -
  have "list_all is_ascii_digit (dec_bytes n)" for n
    using dec_bytes_digits [of _ n] by (auto simp: list_all_iff is_ascii_digit_def)
  moreover have "i = 0" if "dec_bytes (nat \<bar>i\<bar>) = [48]"
    using dec_bytes_leading [of "nat \<bar>i\<bar>"] that by simp
  moreover have "length (dec_bytes n) = 1" if "hd (dec_bytes n) = 48" for n
    using dec_bytes_leading [OF that] by simp
  moreover have "int_bytes 0 = [48]"
    by (simp add: int_bytes_def)
  ultimately show ?thesis
    by (auto simp: valid_generic_integer_def Let_def strip_minus_int_bytes)
qed

lemma int_bytes_first:
  assumes "1 < length (int_bytes i)"
  shows "case strip_minus (int_bytes i) of [] \<Rightarrow> False | b # _ \<Rightarrow> 49 \<le> b \<and> b \<le> 57"
proof -
  obtain b w where bw: "dec_bytes (nat \<bar>i\<bar>) = b # w"
    by (cases "dec_bytes (nat \<bar>i\<bar>)") auto
  have "i \<noteq> 0"
    using assms by (auto simp: int_bytes_def)
  then have "b \<noteq> 48" "48 \<le> b" "b \<le> 57"
    using dec_bytes_leading [of "nat \<bar>i\<bar>"] dec_bytes_digits [of b "nat \<bar>i\<bar>"] bw by auto
  then show ?thesis
    by (simp add: strip_minus_int_bytes bw) (metis inc_le order_le_neq_trans numeral_plus_one semiring_norm(2,5,8))
qed

abbreviation integer_bytes :: "int \<Rightarrow> bytes" where
  "integer_bytes i \<equiv> 105 # int_bytes i @ [101]"

lemma reads_integer_raw: "reads d input (integer_bytes i) (\<lambda>r. snd r = int_bytes i) (parse_integer_raw input)"
  unfolding reads_def
proof (intro allI impI)
  fix cur w
  assume "stands_at d input cur (integer_bytes i @ w)"
  then have at: "stands_at d input cur (105 # int_bytes i @ 101 # w)" by simp
  let ?i = "cu_offset cur" and ?l = "length (int_bytes i)"
  have rest: "drop ?i input = 105 # int_bytes i @ 101 # w" and d: "within d input cur"
    using at by (simp_all add: stands_at_def)
  have digits: "drop (Suc ?i) input = int_bytes i @ 101 # w"
    using rest by (simp add: drop_Suc flip: tl_drop)
  then have "drop (Suc ?i + ?l) input = 101 # w"
    by (metis add.commute append_eq_conv_conj drop_drop)
  then have e: "byte_at input (Suc ?i + ?l) = Some 101"
    using stands_at_length [OF at] by (simp add: byte_at_def flip: hd_drop_conv_nth)
  have scan: "scan_while (\<lambda>b. b \<noteq> 101) input (Suc ?i) = Suc ?i + ?l"
    using int_bytes_no_e [of _ i] digits by (simp add: scan_while_def takeWhile_append)
  have raw: "slice input (Suc ?i) (Suc ?i + ?l) = int_bytes i"
    using digits by (simp add: slice_def)
  have "parse_integer_raw input cur =
      Ok (?i, int_bytes i) \<lparr>cu_offset = ?i + length (integer_bytes i), cu_values = cu_values cur + 1\<rparr>"
    using stands_at_byte [OF at] e scan raw int_bytes_first [of i]
    by (auto simp: parse_integer_raw_def begin_value_at [OF at] Let_def split: list.splits)
  moreover have "stands_at d input \<lparr>cu_offset = ?i + length (integer_bytes i), cu_values = cu_values cur + 1\<rparr> w"
    using at d by (intro stands_at_advance [of d]) (simp_all add: within_def)
  ultimately show "\<exists>x cur'. parse_integer_raw input cur = Ok x cur' \<and> snd x = int_bytes i \<and> stands_at d input cur' w"
    by simp
qed

lemma reads_integer: "reads d input (integer_bytes (sint i)) (\<lambda>r. snd r = i) (parse_integer input field)"
  unfolding parse_integer_def
  by (rule reads_then [OF reads_integer_raw]) (auto simp: valid_int_bytes parse_i64_int_bytes split: prod.split intro!: reads_Ok)

text \<open>The scalar parsers, which also accept singleton lists.\<close>

lemma reads_peek:
  assumes "v = b # u" and "reads d input v Q (\<lambda>cur. f b cur cur)"
  shows "reads d input v Q (\<lambda>cur. pbind (peek input cur) (\<lambda>b cur'. f b cur' cur))"
  using assms by (auto simp: reads_def peek_at)

lemma reads_scalar_bytes: "reads d input (string_bytes v) (\<lambda>r. snd r = v) (parse_scalar_bytes input field depth)"
proof -
  obtain b w where b: "string_bytes v = b # w" "48 \<le> b" "b \<le> 57"
    by (rule string_bytes_head)
  then have "b \<noteq> 108" by auto
  then show ?thesis
    using reads_bytes [of d input v field] b(1)
    by (auto simp: reads_def parse_scalar_bytes.simps peek_at)
qed

lemma reads_scalar_integer:
  "reads d input (integer_bytes (sint i)) (\<lambda>r. snd r = i) (parse_scalar_integer input field depth)"
  using reads_integer [of d input i field] by (auto simp: reads_def parse_scalar_integer.simps peek_at)

lemma reads_bool: "reads d input (integer_bytes 1) (\<lambda>r. r) (parse_bool input field depth)"
proof -
  have "reads d input (integer_bytes 1) (\<lambda>r. r) (\<lambda>cur. pbind (parse_integer_raw input cur) (\<lambda>(_, raw) cur. Ok (raw \<noteq> [48]) cur))"
    by (rule reads_then [OF reads_integer_raw]) (auto simp: int_bytes_def dec_bytes_rec split: prod.split intro!: reads_Ok)
  then show ?thesis
    by (auto simp: reads_def parse_bool.simps peek_at)
qed

section \<open>Containers\<close>

text \<open>
  A loop over entries: each entry stands as a byte string that is not empty and does not start with
  the closing byte, and reading it changes the state of the loop.
\<close>

lemma reads_loop:
  assumes "\<And>e f s. (e, f) \<in> set items \<Longrightarrow> reads (Suc d) input e (\<lambda>r. r = f s) (\<lambda>cur. body cur s)"
    and "\<And>e f. (e, f) \<in> set items \<Longrightarrow> \<exists>b u. e = b # u \<and> b \<noteq> 101"
  shows "stands_at (Suc d) input cur (concat (map fst items) @ 101 # w) \<Longrightarrow>
    \<exists>cur'. while_not_end input body cur s = Ok (fold snd items s) cur' \<and> stands_at d input cur' w"
  using assms
proof (induction items arbitrary: cur s)
  case Nil
  then have at: "stands_at (Suc d) input cur ([101] @ w)" by simp
  then have "d \<le> 10" and "2 * cu_values cur \<le> cu_offset cur + length [101 :: u8] + d"
    by (simp_all add: stands_at_def within_def)
  then have "stands_at d input \<lparr>cu_offset = cu_offset cur + length [101 :: u8], cu_values = cu_values cur\<rparr> w"
    by (intro stands_at_advance [OF at])
  then show ?case
    using stands_at_byte [of "Suc d" input cur 101 w] at
    by (simp add: while_not_end.simps [of input body cur] end_container_def) (cases cur, simp)
next
  case (Cons item items)
  obtain e f where item: "item = (e, f)" by (cases item)
  obtain b u where b: "e = b # u" "b \<noteq> 101"
    using Cons.prems(3) [of e f] item by auto
  let ?rest = "concat (map fst items) @ 101 # w"
  have at: "stands_at (Suc d) input cur (e @ ?rest)"
    using Cons.prems(1) item by simp
  then obtain cur1 where step: "body cur s = Ok (f s) cur1" and at1: "stands_at (Suc d) input cur1 ?rest"
    using readsD [OF Cons.prems(2) [of e f s] at] item by auto
  have "\<not> cu_offset cur1 \<le> cu_offset cur"
    using stands_at_length [OF at] stands_at_length [OF at1] b by simp
  moreover have "end_container input cur = Ok False cur"
    using stands_at_byte [of "Suc d" input cur b "u @ ?rest"] at b by (simp add: end_container_def)
  moreover obtain cur' where "while_not_end input body cur1 (f s) = Ok (fold snd items (f s)) cur'" "stands_at d input cur' w"
    using Cons.IH [OF at1, of "f s"] Cons.prems(2,3) by (meson list.set_intros(2))
  ultimately show ?case
    using step item by (simp add: while_not_end.simps [of input body cur])
qed

lemma start_container_at:
  assumes "stands_at d input cur (b # w)" and "d < 10" and "depth \<le> MAX_INBOUND_NESTING_DEPTH"
  shows "\<exists>cur'. start_container input field expected b depth cur = Ok () cur' \<and> stands_at (Suc d) input cur' w"
proof -
  have "stands_at (Suc d) input \<lparr>cu_offset = cu_offset cur + length [b], cu_values = cu_values cur + 1\<rparr> w"
    using assms by (intro stands_at_advance [of d]) (simp_all add: stands_at_def within_def)
  then show ?thesis
    using stands_at_byte [OF assms(1)] assms(3)
    by (simp add: start_container_def begin_value_at [OF assms(1)]) (cases cur, simp)
qed

text \<open>A container with a loop over its entries.\<close>

lemma reads_container:
  assumes "d < 10" and "depth \<le> MAX_INBOUND_NESTING_DEPTH"
    and "\<And>e f s. (e, f) \<in> set items \<Longrightarrow> reads (Suc d) input e (\<lambda>r. r = f s) (\<lambda>cur. body cur s)"
    and "\<And>e f. (e, f) \<in> set items \<Longrightarrow> \<exists>b u. e = b # u \<and> b \<noteq> 101"
  shows "reads d input (b # concat (map fst items) @ [101]) (\<lambda>r. r = fold snd items s)
    (\<lambda>cur. pbind (start_container input field expected b depth cur) (\<lambda>_ cur. while_not_end input body cur s))"
  unfolding reads_def
proof (intro allI impI)
  fix cur w
  assume "stands_at d input cur ((b # concat (map fst items) @ [101]) @ w)"
  then obtain cur1 where "start_container input field expected b depth cur = Ok () cur1"
    and "stands_at (Suc d) input cur1 (concat (map fst items) @ 101 # w)"
    using start_container_at [OF _ assms(1,2)] by fastforce
  moreover from this(2) have "\<exists>cur'. while_not_end input body cur1 s = Ok (fold snd items s) cur' \<and> stands_at d input cur' w"
    using assms(3,4) by (rule reads_loop [rotated 2])
  ultimately show "\<exists>x cur'. pbind (start_container input field expected b depth cur) (\<lambda>_ cur. while_not_end input body cur s)
      = Ok x cur' \<and> x = fold snd items s \<and> stands_at d input cur' w"
    by simp
qed

text \<open>A typed dictionary: its entries update the state one after the other.\<close>

definition entry_bytes :: "bytes \<times> bvalue \<Rightarrow> bytes" where
  "entry_bytes kv = string_bytes (fst kv) @ bencode (snd kv)"

lemma reads_entry:
  assumes "reads d input (bencode v) Q (field k s)"
  shows "reads d input (entry_bytes (k, v)) Q (\<lambda>cur. typed_entry input key_field depth field cur s)"
  unfolding typed_entry_def entry_bytes_def fst_conv snd_conv
proof (rule reads_append [OF reads_scalar_bytes])
  fix x :: "nat \<times> bytes"
  assume "snd x = k"
  then obtain i where x: "x = (i, k)" by (cases x) simp
  obtain b w where b: "bencode v = b # w" "b \<noteq> 101"
    by (rule bencode_head)
  then have "require_dictionary_value input cur = Ok () cur" if "stands_at d input cur (bencode v @ u)" for cur u
    using that stands_at_byte [of d input cur b "w @ u"] by (simp add: require_dictionary_value_def)
  with assms show "reads d input (bencode v) Q
      ((\<lambda>(_, key) cur. pbind (require_dictionary_value input cur) (\<lambda>_ cur. field key s cur)) x)"
    by (auto simp: reads_def x)
qed

lemma reads_dictionary:
  assumes "d < 10" and "depth \<le> MAX_INBOUND_NESTING_DEPTH"
    and "\<And>k v s. (k, v) \<in> set m \<Longrightarrow> reads (Suc d) input (bencode v) (\<lambda>r. r = upd k v s) (field k s)"
  shows "reads d input (bencode (BDict m)) (\<lambda>r. r = fold (\<lambda>(k, v). upd k v) m s)
    (\<lambda>cur. pbind (start_dictionary input name depth cur) (\<lambda>_ cur.
       while_not_end input (typed_entry input key_field depth' field) cur s))"
proof -
  let ?items = "map (\<lambda>kv. (entry_bytes kv, upd (fst kv) (snd kv))) m"
  have "reads (Suc d) input e (\<lambda>r. r = f s) (\<lambda>cur. typed_entry input key_field depth' field cur s)"
    if "(e, f) \<in> set ?items" for e f s
    using that assms(3) by (auto intro!: reads_entry)
  moreover have "\<exists>b u. e = b # u \<and> b \<noteq> 101" if ef: "(e, f) \<in> set ?items" for e f
  proof -
    obtain kv where k: "e = entry_bytes kv"
      using ef by auto
    obtain b w where "string_bytes (fst kv) = b # w" "48 \<le> b" "b \<le> 57"
      by (rule string_bytes_head)
    with k show ?thesis by (force simp: entry_bytes_def)
  qed
  ultimately have "reads d input (100 # concat (map fst ?items) @ [101]) (\<lambda>r. r = fold snd ?items s)
    (\<lambda>cur. pbind (start_container input name ShapeDictionary 100 depth cur) (\<lambda>_ cur.
       while_not_end input (typed_entry input key_field depth' field) cur s))"
    by (rule reads_container [OF assms(1,2)])
  moreover have "100 # concat (map fst ?items) @ [101] = bencode (BDict m)"
    by (simp add: bstr_def comp_def entry_bytes_def case_prod_unfold)
  moreover have "fold snd ?items s = fold (\<lambda>(k, v). upd k v) m s"
    by (simp add: fold_map comp_def case_prod_unfold)
  ultimately show ?thesis
    by (simp add: start_dictionary_def)
qed

text \<open>Lists of byte strings and of addresses.\<close>

lemma fold_snoc: "fold (\<lambda>x xs. xs @ [g x]) xs acc = acc @ map g xs"
  by (induction xs arbitrary: acc) simp_all

lemma reads_list:
  assumes "d < 10" and "depth \<le> MAX_INBOUND_NESTING_DEPTH"
    and "\<And>x s. x \<in> set xs \<Longrightarrow> reads (Suc d) input (string_bytes (h x)) (\<lambda>r. r = s @ [g x]) (\<lambda>cur. body cur s)"
  shows "reads d input (bencode (BList (map (\<lambda>x. BBytes (h x)) xs))) (\<lambda>r. r = map g xs)
    (\<lambda>cur. pbind (start_list input field depth cur) (\<lambda>_ cur. while_not_end input body cur []))"
proof -
  let ?items = "map (\<lambda>x. (string_bytes (h x), \<lambda>s. s @ [g x])) xs"
  have "\<exists>b u. string_bytes (h x) = b # u \<and> b \<noteq> 101" for x
    by (rule string_bytes_head [of "h x"]) force
  then have "reads d input (108 # concat (map fst ?items) @ [101]) (\<lambda>r. r = fold snd ?items [])
    (\<lambda>cur. pbind (start_container input field ShapeList 108 depth cur) (\<lambda>_ cur. while_not_end input body cur []))"
    using assms(3) by (intro reads_container [OF assms(1,2)]) auto
  moreover have "108 # concat (map fst ?items) @ [101] = bencode (BList (map (\<lambda>x. BBytes (h x)) xs))"
    by (simp add: bstr_def comp_def)
  moreover have "fold snd ?items [] = map g xs"
    by (simp add: fold_map comp_def fold_snoc)
  ultimately show ?thesis
    by (simp add: start_list_def)
qed

lemma reads_byte_list:
  assumes "d < 10" and "depth \<le> MAX_INBOUND_NESTING_DEPTH"
  shows "reads d input (bencode (BList (map BBytes vs))) (\<lambda>r. r = vs) (parse_byte_list input field depth)"
proof -
  have "reads (Suc d) input (string_bytes v) (\<lambda>r. r = s @ [v])
    (\<lambda>cur. pbind (parse_scalar_bytes input field (depth + 1) cur) (\<lambda>(_, v). Ok (s @ [v])))" for v s
    by (rule reads_then [OF reads_scalar_bytes]) (auto intro: reads_Ok)
  then show ?thesis
    using reads_list [OF assms, where xs = vs and h = "\<lambda>v. v" and g = "\<lambda>v. v"]
    by (simp add: parse_byte_list_def [abs_def])
qed

lemma reads_addresses:
  assumes "d < 10" and "depth \<le> MAX_INBOUND_NESTING_DEPTH"
  shows "reads d input (bencode (BList (map (\<lambda>a. BBytes (compact_addr_encode a)) as))) (\<lambda>r. r = as) (parse_addresses input depth)"
proof -
  have "reads (Suc d) input (string_bytes (compact_addr_encode a)) (\<lambda>r. r = s @ [a])
    (\<lambda>cur. pbind (parse_bytes input ''r.values entry'' cur) (\<lambda>(offset, v) cur.
       pbind (lift_result (InboundCompact offset) (compact_addr_decode v) cur) (\<lambda>a. Ok (s @ [a]))))" for a s
    by (rule reads_then [OF reads_bytes]) (auto simp: lift_result_def intro: reads_Ok)
  then show ?thesis
    using reads_list [OF assms, where xs = as and h = compact_addr_encode and g = "\<lambda>a. a"]
    by (simp add: parse_addresses_def [abs_def])
qed

end
