(* ===== verification/Inbound_Roundtrip.thy ===== *)
theory Inbound_Roundtrip
  imports Inbound_Reads
begin

text \<open>
  The inbound decoder reads what the node itself sends: the canonical bytes of an encoded message
  decode to that message, up to the fields the wire format cannot distinguish.
\<close>

section \<open>The fields of a message\<close>

lemma in_bt_insert: "(k, v) \<in> set (bt_insert k' v' m) \<Longrightarrow> (k = k' \<and> v = v') \<or> (k, v) \<in> set m"
  using set_bt_insert [of k' v' m] by auto

lemma in_insert_opt: "(k, v) \<in> set (insert_opt k' o' m) \<Longrightarrow> (k = k' \<and> o' = Some v) \<or> (k, v) \<in> set m"
  by (auto simp: insert_opt_def split: option.splits dest: in_bt_insert)

lemma in_insert_bytes: "(k, v) \<in> set (insert_bytes n u m) \<Longrightarrow> (k = bstr n \<and> v = BBytes u) \<or> (k, v) \<in> set m"
  by (auto simp: insert_bytes_def dest: in_bt_insert)

lemma keys_distinct: "keys_sorted m \<Longrightarrow> distinct (map fst m)"
  using strict_sorted_iff [of "map fst m"] by simp

text \<open>A field of the folded state is decided by the entry with its key.\<close>

lemma fold_field:
  assumes "\<And>k v s. get (upd k v s) = (if k = K then g v else get s)" and "distinct (map fst m)"
  shows "get (fold (\<lambda>(k, v). upd k v) m s) = (case map_of m K of None \<Rightarrow> get s | Some v \<Rightarrow> g v)"
  using assms(2)
proof (induction m arbitrary: s)
  case (Cons kv m)
  obtain k v where kv: "kv = (k, v)" by (cases kv)
  have "map_of m k = None"
    using Cons.prems kv by (simp add: map_of_eq_None_iff)
  with Cons kv assms(1) show ?case
    by (auto split: option.splits)
qed simp

lemma bencode_integer: "bencode (BInt i) = integer_bytes (sint i)"
  by (simp add: bstr_def)

text \<open>The content of a value of the expected shape.\<close>

fun bytes_of :: "bvalue \<Rightarrow> bytes" where
  "bytes_of (BBytes v) = v"
| "bytes_of _ = []"

fun int_of :: "bvalue \<Rightarrow> i64" where
  "int_of (BInt i) = i"
| "int_of _ = 0"

fun list_of :: "bvalue \<Rightarrow> bvalue list" where
  "list_of (BList vs) = vs"
| "list_of _ = []"

fun entries_of :: "bvalue \<Rightarrow> bdict" where
  "entries_of (BDict m) = m"
| "entries_of _ = []"

definition args_update :: "bytes \<Rightarrow> bvalue \<Rightarrow> message_args \<Rightarrow> message_args" where
  "args_update k v a =
     (if k = bstr ''id'' then a\<lparr>ma_id := Id20 (bytes_of v)\<rparr>
      else if k = bstr ''info_hash'' then a\<lparr>ma_info_hash := filter_opt non_zero (Some (Id20 (bytes_of v)))\<rparr>
      else if k = bstr ''target'' then a\<lparr>ma_target := filter_opt non_zero (Some (Id20 (bytes_of v)))\<rparr>
      else if k = bstr ''token'' then a\<lparr>ma_token := bytes_of v\<rparr>
      else if k = bstr ''port'' then a\<lparr>ma_port := Some (int_of v)\<rparr>
      else if k = bstr ''implied_port'' then a\<lparr>ma_implied_port := True\<rparr>
      else if k = bstr ''want'' then a\<lparr>ma_want := Some (map bytes_of (list_of v))\<rparr>
      else if k = bstr ''noseed'' then a\<lparr>ma_no_seed := int_of v\<rparr>
      else if k = bstr ''scrape'' then a\<lparr>ma_scrape := int_of v\<rparr>
      else a)"

lemma reads_id: "reads d input (string_bytes (as_bytes i)) (\<lambda>r. r = i) (parse_id input field depth)"
  unfolding parse_id_def [abs_def]
  by (rule reads_then [OF reads_scalar_bytes]) (auto intro: reads_lift)

lemma reads_scalar_field:
  "reads d input (string_bytes v) (\<lambda>r. r = f v) (\<lambda>cur. pbind (parse_scalar_bytes input field depth cur) (\<lambda>(_, v). Ok (f v)))"
  "reads d input (integer_bytes (sint i)) (\<lambda>r. r = g i) (\<lambda>cur. pbind (parse_scalar_integer input field depth cur) (\<lambda>(_, v). Ok (g v)))"
  by (rule reads_then [OF reads_scalar_bytes] reads_then [OF reads_scalar_integer]; auto intro: reads_Ok)+

lemma reads_field:
  assumes "reads d input v (\<lambda>r. r = x) p"
  shows "reads d input v (\<lambda>r. r = f x) (\<lambda>cur. pbind (p cur) (\<lambda>x. Ok (f x)))"
  by (rule reads_then [OF assms]) (auto intro: reads_Ok)

lemma reads_true_field:
  "reads d input (integer_bytes 1) (\<lambda>r. r = f True) (\<lambda>cur. pbind (parse_bool input field depth cur) (\<lambda>x. Ok (f x)))"
  by (rule reads_then [OF reads_bool]) (auto intro: reads_Ok)

lemmas reads_fields = reads_scalar_field reads_true_field reads_field [OF reads_id]
  reads_field [OF reads_byte_list] reads_field [OF reads_addresses]

lemma encode_args_dict:
  assumes "encode_args a = BDict m"
  shows "m =
    insert_opt (bstr ''scrape'') (opt_if (ma_scrape a \<noteq> 0) (BInt (ma_scrape a)))
    (insert_opt (bstr ''noseed'') (opt_if (ma_no_seed a \<noteq> 0) (BInt (ma_no_seed a)))
    (insert_opt (bstr ''want'') (map_option (\<lambda>ws. BList (map BBytes ws)) (ma_want a))
    (insert_opt (bstr ''implied_port'') (opt_if (ma_implied_port a) (BInt 1))
    (insert_opt (bstr ''port'') (map_option BInt (ma_port a))
    (insert_opt (bstr ''token'') (opt_if (ma_token a \<noteq> []) (BBytes (ma_token a)))
    (insert_opt (bstr ''target'') (map_option (\<lambda>i. BBytes (as_bytes i)) (filter_opt non_zero (ma_target a)))
    (insert_opt (bstr ''info_hash'') (map_option (\<lambda>i. BBytes (as_bytes i)) (filter_opt non_zero (ma_info_hash a)))
    (insert_bytes ''id'' (as_bytes (ma_id a)) []))))))))"
  using assms by (simp add: encode_args_def Let_def)

text \<open>The entries of encoded arguments.\<close>

lemma encode_args_entries:
  assumes "encode_args a = BDict m" and "(k, v) \<in> set m"
  obtains i where "k = bstr ''id'' \<or> k = bstr ''info_hash'' \<or> k = bstr ''target''" "v = BBytes (as_bytes i)"
  | w where "k = bstr ''token''" "v = BBytes w"
  | n where "k = bstr ''port'' \<or> k = bstr ''noseed'' \<or> k = bstr ''scrape''" "v = BInt n"
  | "k = bstr ''implied_port''" "v = BInt 1"
  | ws where "k = bstr ''want''" "v = BList (map BBytes ws)"
proof -
  show thesis
    using assms(2) unfolding encode_args_dict [OF assms(1)]
    by (elim in_insert_opt [THEN disjE] in_insert_bytes [THEN disjE] conjE)
      (auto split: if_splits intro: that)
qed

lemma reads_args_field:
  assumes "encode_args a = BDict m" and "(k, v) \<in> set m" and "d < 10" and "depth \<le> MAX_INBOUND_NESTING_DEPTH"
  shows "reads d input (bencode v) (\<lambda>r. r = args_update k v s) (args_field input depth k s)"
  using assms(1,2)
proof (cases rule: encode_args_entries)
  case (1 i)
  then show ?thesis
    using reads_fields(4) [of d input i]
    by (elim disjE) (simp_all add: args_field_def [abs_def] args_update_def as_bytes_inverse del: filter_opt_simps)
next
  case (2 w)
  then show ?thesis
    by (simp add: args_field_def [abs_def] args_update_def) (rule reads_fields(1))
next
  case (3 n)
  then show ?thesis
    using reads_fields(2) [of d input n]
    by (elim disjE) (simp_all add: args_field_def [abs_def] args_update_def bencode_integer del: bencode.simps(2))
next
  case 4
  then show ?thesis
    using reads_fields(3) [of d input]
    by (simp add: args_field_def [abs_def] args_update_def bencode_integer del: bencode.simps(2))
next
  case (5 ws)
  then show ?thesis
    using reads_fields(5) [OF assms(3,4), of input ws]
    by (simp add: args_field_def [abs_def] args_update_def comp_def del: bencode.simps)
qed

lemma args_fold:
  assumes "distinct (map fst m)"
  shows
  "ma_id (fold (\<lambda>(k, v). args_update k v) m s) = (case map_of m (bstr ''id'') of None \<Rightarrow> ma_id s | Some v \<Rightarrow> Id20 (bytes_of v))"
  "ma_info_hash (fold (\<lambda>(k, v). args_update k v) m s) =
     (case map_of m (bstr ''info_hash'') of None \<Rightarrow> ma_info_hash s | Some v \<Rightarrow> filter_opt non_zero (Some (Id20 (bytes_of v))))"
  "ma_target (fold (\<lambda>(k, v). args_update k v) m s) =
     (case map_of m (bstr ''target'') of None \<Rightarrow> ma_target s | Some v \<Rightarrow> filter_opt non_zero (Some (Id20 (bytes_of v))))"
  "ma_token (fold (\<lambda>(k, v). args_update k v) m s) = (case map_of m (bstr ''token'') of None \<Rightarrow> ma_token s | Some v \<Rightarrow> bytes_of v)"
  "ma_port (fold (\<lambda>(k, v). args_update k v) m s) = (case map_of m (bstr ''port'') of None \<Rightarrow> ma_port s | Some v \<Rightarrow> Some (int_of v))"
  "ma_implied_port (fold (\<lambda>(k, v). args_update k v) m s) = (case map_of m (bstr ''implied_port'') of None \<Rightarrow> ma_implied_port s | Some v \<Rightarrow> True)"
  "ma_want (fold (\<lambda>(k, v). args_update k v) m s) =
     (case map_of m (bstr ''want'') of None \<Rightarrow> ma_want s | Some v \<Rightarrow> Some (map bytes_of (list_of v)))"
  "ma_no_seed (fold (\<lambda>(k, v). args_update k v) m s) = (case map_of m (bstr ''noseed'') of None \<Rightarrow> ma_no_seed s | Some v \<Rightarrow> int_of v)"
  "ma_scrape (fold (\<lambda>(k, v). args_update k v) m s) = (case map_of m (bstr ''scrape'') of None \<Rightarrow> ma_scrape s | Some v \<Rightarrow> int_of v)"
  by (rule fold_field [OF _ assms]; simp add: args_update_def)+

lemma fold_args:
  assumes "encode_args a = BDict m"
  shows "fold (\<lambda>(k, v). args_update k v) m empty_args = canon_args a"
proof -
  note dict = encode_args_dict [OF assms]
  have "keys_sorted m"
    unfolding dict by simp
  then have distinct: "distinct (map fst m)"
    by (rule keys_distinct)
  have lookups:
    "map_of m (bstr ''id'') = Some (BBytes (as_bytes (ma_id a)))"
    "map_of m (bstr ''info_hash'') = map_option (\<lambda>i. BBytes (as_bytes i)) (filter_opt non_zero (ma_info_hash a))"
    "map_of m (bstr ''target'') = map_option (\<lambda>i. BBytes (as_bytes i)) (filter_opt non_zero (ma_target a))"
    "map_of m (bstr ''token'') = opt_if (ma_token a \<noteq> []) (BBytes (ma_token a))"
    "map_of m (bstr ''port'') = map_option BInt (ma_port a)"
    "map_of m (bstr ''implied_port'') = opt_if (ma_implied_port a) (BInt 1)"
    "map_of m (bstr ''want'') = map_option (\<lambda>ws. BList (map BBytes ws)) (ma_want a)"
    "map_of m (bstr ''noseed'') = opt_if (ma_no_seed a \<noteq> 0) (BInt (ma_no_seed a))"
    "map_of m (bstr ''scrape'') = opt_if (ma_scrape a \<noteq> 0) (BInt (ma_scrape a))"
    unfolding dict by simp_all
  show ?thesis
    by (rule message_args.equality)
      (auto simp: args_fold [OF distinct] lookups canon_args_def empty_args_def as_bytes_inverse comp_def
        filter_opt_def split: option.splits if_splits)
qed

text \<open>The arguments as a whole, from a place with at most eight containers open.\<close>

lemma reads_args:
  assumes "d < 9" and "depth < MAX_INBOUND_NESTING_DEPTH"
  shows "reads d input (bencode (encode_args a)) (\<lambda>r. r = canon_args a) (parse_args input depth)"
proof -
  obtain m where m: "encode_args a = BDict m"
    by (simp add: encode_args_def Let_def)
  have "reads d input (bencode (BDict m)) (\<lambda>r. r = fold (\<lambda>(k, v). args_update k v) m empty_args)
    (\<lambda>cur. pbind (start_dictionary input ''a'' depth cur) (\<lambda>_ cur.
       while_not_end input (typed_entry input ''a dictionary key'' (depth + 1) (args_field input (depth + 1))) cur empty_args))"
    using assms by (intro reads_dictionary reads_args_field [OF m]) simp_all
  then show ?thesis
    by (simp add: m fold_args [OF m] parse_args_def [abs_def] del: bencode.simps)
qed

section \<open>Responses\<close>

text \<open>A node list as it is decoded; an empty one is absent.\<close>

definition nodes_of :: "bool \<Rightarrow> bvalue \<Rightarrow> compact_node list option" where
  "nodes_of ipv6 v = (if bytes_of v = [] then None else Some (projr (decode_nodes (bytes_of v) ipv6)))"

definition return_update :: "bytes \<Rightarrow> bvalue \<Rightarrow> message_return \<Rightarrow> message_return" where
  "return_update k v r =
     (if k = bstr ''id'' then r\<lparr>mr_id := Id20 (bytes_of v)\<rparr>
      else if k = bstr ''nodes'' then r\<lparr>mr_nodes := nodes_of False v\<rparr>
      else if k = bstr ''nodes6'' then r\<lparr>mr_nodes6 := nodes_of True v\<rparr>
      else if k = bstr ''token'' then r\<lparr>mr_token := Some (bytes_of v)\<rparr>
      else if k = bstr ''values'' then r\<lparr>mr_values := Some (map (projr \<circ> compact_addr_decode \<circ> bytes_of) (list_of v))\<rparr>
      else if k = bstr ''interval'' then r\<lparr>mr_interval := Some (int_of v)\<rparr>
      else if k = bstr ''num'' then r\<lparr>mr_num := Some (int_of v)\<rparr>
      else if k = bstr ''samples'' then r\<lparr>mr_samples := Some (projr (decode_samples (bytes_of v)))\<rparr>
      else if k = bstr ''BFsd'' then r\<lparr>mr_seeders_bloom := Some (projr (bloom_from_slice (bytes_of v)))\<rparr>
      else if k = bstr ''BFpe'' then r\<lparr>mr_peers_bloom := Some (projr (bloom_from_slice (bytes_of v)))\<rparr>
      else r)"

lemma reads_nodes:
  assumes "decode_nodes v ipv6 = Inr ns"
  shows "reads d input (string_bytes v) (\<lambda>r. r = nodes_of ipv6 (BBytes v)) (parse_nodes input field depth ipv6)"
  unfolding parse_nodes_def [abs_def]
  using assms by (intro reads_then [OF reads_scalar_bytes])
    (cases "v = []", auto simp: nodes_of_def lift_result_def intro: reads_Ok)

lemma reads_bloom: "reads d input (string_bytes (bloom_bytes f)) (\<lambda>r. r = f) (parse_bloom input field)"
  unfolding parse_bloom_def [abs_def]
  by (rule reads_then [OF reads_bytes]) (auto intro: reads_lift)

lemma reads_samples_field:
  "reads d input (string_bytes (encode_samples ids)) (\<lambda>r. r = f ids)
    (\<lambda>cur. pbind (parse_scalar_bytes input field depth cur) (\<lambda>(offset, v) cur.
       pbind (lift_result (InboundCompact offset) (decode_samples v) cur) (\<lambda>s. Ok (f s))))"
proof -
  have "decode_samples (encode_samples ids) = Inr ids"
    by (simp add: sample_list_codec_exact)
  then show ?thesis
    by (intro reads_then [OF reads_scalar_bytes]) (auto simp: lift_result_def intro: reads_Ok)
qed

lemmas reads_return_fields = reads_field [OF reads_nodes] reads_field [OF reads_bloom] reads_samples_field

lemma encode_return_dict:
  assumes "encode_return r = Inr (BDict m)"
  shows "m =
    insert_opt (bstr ''samples'') (map_option (\<lambda>s. BBytes (encode_samples s)) (mr_samples r))
    (insert_opt (bstr ''num'') (map_option BInt (mr_num r))
    (insert_opt (bstr ''interval'') (map_option BInt (mr_interval r))
    (insert_opt (bstr ''values'')
       (map_option (\<lambda>as. BList (map (\<lambda>a. BBytes (compact_addr_encode a)) as)) (mr_values r))
    (insert_opt (bstr ''token'') (map_option BBytes (mr_token r))
    (insert_opt (bstr ''nodes6'') (nodes_field (mr_nodes6 r))
    (insert_opt (bstr ''nodes'') (nodes_field (mr_nodes r))
    (insert_opt (bstr ''BFpe'') (map_option (\<lambda>f. BBytes (bloom_bytes f)) (mr_peers_bloom r))
    (insert_opt (bstr ''BFsd'') (map_option (\<lambda>f. BBytes (bloom_bytes f)) (mr_seeders_bloom r))
    (insert_bytes ''id'' (as_bytes (mr_id r)) [])))))))))"
    and "family_ok False (mr_nodes r)" and "family_ok True (mr_nodes6 r)"
  using assms by (simp_all add: encode_return_Inr)

lemma nodes_field_Some:
  assumes "family_ok ipv6 nodes" and "nodes_field nodes = Some v"
  obtains w ns where "v = BBytes w" "decode_nodes w ipv6 = Inr ns" "nodes = Some ns"
proof -
  from assms(2) obtain ns where ns: "nodes = Some ns" "v = BBytes (concat (map compact_node_encode ns))"
    by (auto simp: nodes_field_def)
  moreover have "decode_nodes (concat (map compact_node_encode ns)) ipv6 = Inr ns"
    using assms(1) ns(1) by (auto simp: decode_nodes_iff encode_nodes_Inr_iff family_ok_def)
  ultimately show thesis by (rule_tac that)
qed

lemma encode_return_entries:
  assumes "encode_return r = Inr (BDict m)" and "(k, v) \<in> set m"
  obtains i where "k = bstr ''id''" "v = BBytes (as_bytes i)"
  | w ns where "k = bstr ''nodes''" "v = BBytes w" "decode_nodes w False = Inr ns"
  | w ns where "k = bstr ''nodes6''" "v = BBytes w" "decode_nodes w True = Inr ns"
  | w where "k = bstr ''token''" "v = BBytes w"
  | as where "k = bstr ''values''" "v = BList (map (\<lambda>a. BBytes (compact_addr_encode a)) as)"
  | n where "k = bstr ''interval'' \<or> k = bstr ''num''" "v = BInt n"
  | ids where "k = bstr ''samples''" "v = BBytes (encode_samples ids)"
  | f where "k = bstr ''BFsd'' \<or> k = bstr ''BFpe''" "v = BBytes (bloom_bytes f)"
proof -
  note dict = encode_return_dict [OF assms(1)]
  show thesis
    using assms(2) unfolding dict(1)
    by (elim in_insert_opt [THEN disjE] in_insert_bytes [THEN disjE] conjE)
      (auto intro: that elim: nodes_field_Some [OF dict(2)] nodes_field_Some [OF dict(3)])
qed

lemma reads_return_field:
  assumes "encode_return r = Inr (BDict m)" and "(k, v) \<in> set m" and "d < 10" and "depth \<le> MAX_INBOUND_NESTING_DEPTH"
  shows "reads d input (bencode v) (\<lambda>r. r = return_update k v s) (return_field input depth k s)"
  using assms(1,2)
proof (cases rule: encode_return_entries)
  case (1 i)
  then show ?thesis
    by (simp add: return_field_def [abs_def] return_update_def as_bytes_inverse) (rule reads_fields(4))
next
  case (2 w ns)
  then show ?thesis
    by (simp add: return_field_def [abs_def] return_update_def) (rule reads_return_fields(1))
next
  case (3 w ns)
  then show ?thesis
    by (simp add: return_field_def [abs_def] return_update_def) (rule reads_return_fields(1))
next
  case (4 w)
  then show ?thesis
    by (simp add: return_field_def [abs_def] return_update_def) (rule reads_fields(1))
next
  case (5 as)
  then show ?thesis
    using reads_fields(6) [OF assms(3,4), of input as]
    by (simp add: return_field_def [abs_def] return_update_def comp_def del: bencode.simps)
next
  case (6 n)
  then show ?thesis
    using reads_fields(2) [of d input n]
    by (elim disjE) (simp_all add: return_field_def [abs_def] return_update_def bencode_integer del: bencode.simps(2))
next
  case (7 ids)
  then show ?thesis
    using reads_return_fields(3) [of d input ids]
    by (simp add: return_field_def [abs_def] return_update_def sample_list_codec_exact [THEN iffD2])
next
  case (8 f)
  then show ?thesis
    using reads_return_fields(2) [of d input f]
    by (elim disjE) (simp_all add: return_field_def [abs_def] return_update_def)
qed

lemma return_fold:
  assumes "distinct (map fst m)"
  shows
  "mr_id (fold (\<lambda>(k, v). return_update k v) m s) =
     (case map_of m (bstr ''id'') of None \<Rightarrow> mr_id s | Some v \<Rightarrow> Id20 (bytes_of v))"
  "mr_nodes (fold (\<lambda>(k, v). return_update k v) m s) =
     (case map_of m (bstr ''nodes'') of None \<Rightarrow> mr_nodes s | Some v \<Rightarrow> nodes_of False v)"
  "mr_nodes6 (fold (\<lambda>(k, v). return_update k v) m s) =
     (case map_of m (bstr ''nodes6'') of None \<Rightarrow> mr_nodes6 s | Some v \<Rightarrow> nodes_of True v)"
  "mr_token (fold (\<lambda>(k, v). return_update k v) m s) =
     (case map_of m (bstr ''token'') of None \<Rightarrow> mr_token s | Some v \<Rightarrow> Some (bytes_of v))"
  "mr_values (fold (\<lambda>(k, v). return_update k v) m s) =
     (case map_of m (bstr ''values'') of None \<Rightarrow> mr_values s | Some v \<Rightarrow> Some (map (projr \<circ> compact_addr_decode \<circ> bytes_of) (list_of v)))"
  "mr_interval (fold (\<lambda>(k, v). return_update k v) m s) =
     (case map_of m (bstr ''interval'') of None \<Rightarrow> mr_interval s | Some v \<Rightarrow> Some (int_of v))"
  "mr_num (fold (\<lambda>(k, v). return_update k v) m s) =
     (case map_of m (bstr ''num'') of None \<Rightarrow> mr_num s | Some v \<Rightarrow> Some (int_of v))"
  "mr_samples (fold (\<lambda>(k, v). return_update k v) m s) =
     (case map_of m (bstr ''samples'') of None \<Rightarrow> mr_samples s | Some v \<Rightarrow> Some (projr (decode_samples (bytes_of v))))"
  "mr_seeders_bloom (fold (\<lambda>(k, v). return_update k v) m s) =
     (case map_of m (bstr ''BFsd'') of None \<Rightarrow> mr_seeders_bloom s | Some v \<Rightarrow> Some (projr (bloom_from_slice (bytes_of v))))"
  "mr_peers_bloom (fold (\<lambda>(k, v). return_update k v) m s) =
     (case map_of m (bstr ''BFpe'') of None \<Rightarrow> mr_peers_bloom s | Some v \<Rightarrow> Some (projr (bloom_from_slice (bytes_of v))))"
  by (rule fold_field [OF _ assms]; simp add: return_update_def)+

lemma nodes_of_field:
  assumes "family_ok ipv6 nodes"
  shows "(case nodes_field nodes of None \<Rightarrow> None | Some v \<Rightarrow> nodes_of ipv6 v) = filter_opt (\<lambda>ns. ns \<noteq> []) nodes"
proof (cases nodes)
  case (Some ns)
  then have "decode_nodes (concat (map compact_node_encode ns)) ipv6 = Inr ns"
    using assms by (auto simp: decode_nodes_iff encode_nodes_Inr_iff family_ok_def)
  moreover have "concat (map compact_node_encode ns) = [] \<longleftrightarrow> ns = []"
  proof (cases ns)
    case (Cons n ns')
    have "compact_node_encode n \<noteq> []"
      using compact_node_encode_length [of n] by (auto split: if_splits)
    with Cons show ?thesis by simp
  qed simp
  ultimately show ?thesis
    using Some by (simp add: nodes_field_def nodes_of_def del: concat_eq_Nil_conv)
qed (simp add: nodes_field_def)

lemma fold_return:
  assumes "encode_return r = Inr (BDict m)"
  shows "fold (\<lambda>(k, v). return_update k v) m empty_message_return = canon_return r"
proof -
  note dict = encode_return_dict [OF assms]
  have "keys_sorted m"
    unfolding dict(1) by simp
  then have distinct: "distinct (map fst m)"
    by (rule keys_distinct)
  have lookups:
    "map_of m (bstr ''id'') = Some (BBytes (as_bytes (mr_id r)))"
    "map_of m (bstr ''nodes'') = nodes_field (mr_nodes r)"
    "map_of m (bstr ''nodes6'') = nodes_field (mr_nodes6 r)"
    "map_of m (bstr ''token'') = map_option BBytes (mr_token r)"
    "map_of m (bstr ''values'') = map_option (\<lambda>as. BList (map (\<lambda>a. BBytes (compact_addr_encode a)) as)) (mr_values r)"
    "map_of m (bstr ''interval'') = map_option BInt (mr_interval r)"
    "map_of m (bstr ''num'') = map_option BInt (mr_num r)"
    "map_of m (bstr ''samples'') = map_option (\<lambda>s. BBytes (encode_samples s)) (mr_samples r)"
    "map_of m (bstr ''BFsd'') = map_option (\<lambda>f. BBytes (bloom_bytes f)) (mr_seeders_bloom r)"
    "map_of m (bstr ''BFpe'') = map_option (\<lambda>f. BBytes (bloom_bytes f)) (mr_peers_bloom r)"
    unfolding dict(1) by simp_all
  show ?thesis
    by (rule message_return.equality; simp add: return_fold [OF distinct] lookups canon_return_def
        empty_message_return_def as_bytes_inverse nodes_of_field [OF dict(2)] nodes_of_field [OF dict(3)]
        cong del: option.case_cong_weak)
      (auto simp: comp_def sample_list_codec_exact [THEN iffD2] split: option.splits)
qed

lemma reads_return:
  assumes "encode_return r = Inr v" and "d < 9" and "depth < MAX_INBOUND_NESTING_DEPTH"
  shows "reads d input (bencode v) (\<lambda>x. x = canon_return r) (parse_return input depth)"
proof -
  obtain m where m: "v = BDict m" "encode_return r = Inr (BDict m)"
    using assms(1) by (auto simp: encode_return_Inr)
  have "reads d input (bencode (BDict m)) (\<lambda>x. x = fold (\<lambda>(k, v). return_update k v) m empty_message_return)
    (\<lambda>cur. pbind (start_dictionary input ''r'' depth cur) (\<lambda>_ cur.
       while_not_end input (typed_entry input ''r dictionary key'' (depth + 1) (return_field input (depth + 1)))
         cur empty_message_return))"
    using assms(2,3) by (intro reads_dictionary reads_return_field [OF m(2)]) simp_all
  then show ?thesis
    by (simp add: m(1) fold_return [OF m(2)] parse_return_def [abs_def] del: bencode.simps)
qed

section \<open>Errors\<close>

lemma end_container_at: "stands_at d input cur (b # w) \<Longrightarrow> b \<noteq> 101 \<Longrightarrow> end_container input cur = Ok False cur"
  by (simp add: end_container_def stands_at_byte)

lemma reads_error:
  assumes "d < 10" and "depth \<le> MAX_INBOUND_NESTING_DEPTH"
  shows "reads d input (bencode (encode_error e)) (\<lambda>r. r = e) (parse_error input depth)"
  unfolding reads_def
proof (intro allI impI)
  fix cur w
  let ?message = "string_bytes (ke_message e) @ 101 # w"
  assume "stands_at d input cur (bencode (encode_error e) @ w)"
  then have at: "stands_at d input cur (108 # integer_bytes (sint (ke_code e)) @ ?message)"
    by (simp add: encode_error_def bstr_def)
  then obtain cur1 where start: "start_list input ''e'' depth cur = Ok () cur1"
    and at1: "stands_at (Suc d) input cur1 (integer_bytes (sint (ke_code e)) @ ?message)"
    using start_container_at [OF at assms] by (auto simp: start_list_def)
  then obtain x cur2 where code: "parse_integer input ''e.code'' cur1 = Ok (x, ke_code e) cur2"
    and at2: "stands_at (Suc d) input cur2 ?message"
    using readsD [OF reads_integer [where field = "''e.code''"] at1] by auto
  then obtain y cur3 where message: "parse_bytes input ''e.message'' cur2 = Ok (y, ke_message e) cur3"
    and at3: "stands_at (Suc d) input cur3 (101 # w)"
    using readsD [OF reads_bytes [where field = "''e.message''"] at2] by auto
  have ends: "end_container input cur1 = Ok False cur1" "end_container input cur2 = Ok False cur2"
  proof -
    show "end_container input cur1 = Ok False cur1"
      using at1 end_container_at [of "Suc d" input cur1 105] by simp
    obtain b u where b: "string_bytes (ke_message e) = b # u" "48 \<le> b" "b \<le> 57"
      by (rule string_bytes_head)
    then have "b \<noteq> 101" by auto
    then show "end_container input cur2 = Ok False cur2"
      using at2 b(1) end_container_at [of "Suc d" input cur2 b] by simp
  qed
  obtain cur4 where "while_not_end input (\<lambda>cur _. skip_generic input (depth + 1) cur) cur3 () = Ok () cur4"
    "stands_at d input cur4 w"
    using reads_loop [of "[]" d input "\<lambda>cur _. skip_generic input (depth + 1) cur" cur3 w "()"] at3 by auto
  then show "\<exists>x cur'. parse_error input depth cur = Ok x cur' \<and> x = e \<and> stands_at d input cur' w"
    using start code message ends by (simp add: parse_error_def peek_at [OF at])
qed

section \<open>Messages\<close>

definition message_update :: "bytes \<Rightarrow> bvalue \<Rightarrow> krpc_message \<Rightarrow> krpc_message" where
  "message_update k v m =
     (if k = bstr ''t'' then m\<lparr>km_transaction_id := bytes_of v\<rparr>
      else if k = bstr ''y'' then m\<lparr>km_message_type := bytes_of v\<rparr>
      else if k = bstr ''q'' then m\<lparr>km_query := bytes_of v\<rparr>
      else if k = bstr ''a'' then m\<lparr>km_args := Some (projr (decode_args v))\<rparr>
      else if k = bstr ''r'' then m\<lparr>km_response := Some (projr (decode_return v))\<rparr>
      else if k = bstr ''e'' then m\<lparr>km_error := Some (projr (decode_error v))\<rparr>
      else if k = bstr ''ip'' then m\<lparr>km_observed_addr := Some (projr (compact_addr_decode (bytes_of v)))\<rparr>
      else if k = bstr ''ro'' then m\<lparr>km_read_only := True\<rparr>
      else if k = bstr ''v'' then m\<lparr>km_client_id := bytes_of v\<rparr>
      else m)"

lemma message_fold:
  assumes "distinct (map fst m)"
  shows
  "km_transaction_id (fold (\<lambda>(k, v). message_update k v) m s) =
     (case map_of m (bstr ''t'') of None \<Rightarrow> km_transaction_id s | Some v \<Rightarrow> bytes_of v)"
  "km_message_type (fold (\<lambda>(k, v). message_update k v) m s) =
     (case map_of m (bstr ''y'') of None \<Rightarrow> km_message_type s | Some v \<Rightarrow> bytes_of v)"
  "km_query (fold (\<lambda>(k, v). message_update k v) m s) =
     (case map_of m (bstr ''q'') of None \<Rightarrow> km_query s | Some v \<Rightarrow> bytes_of v)"
  "km_args (fold (\<lambda>(k, v). message_update k v) m s) =
     (case map_of m (bstr ''a'') of None \<Rightarrow> km_args s | Some v \<Rightarrow> Some (projr (decode_args v)))"
  "km_response (fold (\<lambda>(k, v). message_update k v) m s) =
     (case map_of m (bstr ''r'') of None \<Rightarrow> km_response s | Some v \<Rightarrow> Some (projr (decode_return v)))"
  "km_error (fold (\<lambda>(k, v). message_update k v) m s) =
     (case map_of m (bstr ''e'') of None \<Rightarrow> km_error s | Some v \<Rightarrow> Some (projr (decode_error v)))"
  "km_observed_addr (fold (\<lambda>(k, v). message_update k v) m s) =
     (case map_of m (bstr ''ip'') of None \<Rightarrow> km_observed_addr s | Some v \<Rightarrow> Some (projr (compact_addr_decode (bytes_of v))))"
  "km_read_only (fold (\<lambda>(k, v). message_update k v) m s) =
     (case map_of m (bstr ''ro'') of None \<Rightarrow> km_read_only s | Some v \<Rightarrow> True)"
  "km_client_id (fold (\<lambda>(k, v). message_update k v) m s) =
     (case map_of m (bstr ''v'') of None \<Rightarrow> km_client_id s | Some v \<Rightarrow> bytes_of v)"
  by (rule fold_field [OF _ assms]; simp add: message_update_def)+

lemma encode_message_entries:
  assumes "encode_message m = Inr (BDict dict)" and "(k, v) \<in> set dict"
  obtains w where "k = bstr ''t'' \<or> k = bstr ''y'' \<or> k = bstr ''q'' \<or> k = bstr ''v''" "v = BBytes w"
  | a where "k = bstr ''a''" "v = encode_args a"
  | r where "k = bstr ''r''" "encode_return r = Inr v"
  | e where "k = bstr ''e''" "v = encode_error e"
  | a where "k = bstr ''ip''" "v = BBytes (compact_addr_encode a)"
  | "k = bstr ''ro''" "v = BInt 1"
proof -
  have response: "\<exists>r. encode_return r = Inr v" if "map_transpose encode_return x = Inr (Some v)" for x v
    using that by (cases x) (auto simp: rbind_Inr)
  from assms(1) show thesis
    unfolding encode_message_Inr
  proof (elim exE conjE)
    fix r
    assume r: "map_transpose encode_return (km_response m) = Inr r"
      and dict: "BDict dict = BDict
       (insert_opt (bstr ''v'') (opt_if (km_client_id m \<noteq> []) (BBytes (km_client_id m)))
       (insert_opt (bstr ''ro'') (opt_if (km_read_only m) (BInt 1))
       (insert_opt (bstr ''ip'') (map_option (\<lambda>a. BBytes (compact_addr_encode a)) (km_observed_addr m))
       (insert_opt (bstr ''e'') (map_option encode_error (km_error m))
       (insert_opt (bstr ''r'') r
       (insert_opt (bstr ''a'') (map_option encode_args (km_args m))
       (insert_opt (bstr ''q'') (opt_if (km_query m \<noteq> []) (BBytes (km_query m)))
       (insert_bytes ''y'' (km_message_type m)
       (insert_bytes ''t'' (km_transaction_id m) [])))))))))"
    show thesis
      using assms(2) unfolding bvalue.inject(4) [THEN iffD1, OF dict]
      by (elim in_insert_opt [THEN disjE] in_insert_bytes [THEN disjE] conjE)
        (use r response [of "km_response m" v] in \<open>auto intro: that split: if_splits\<close>)
  qed
qed

lemma decode_encode_ip_field:
  "reads d input (string_bytes (compact_addr_encode a)) (\<lambda>r. r = f a)
    (\<lambda>cur. pbind (parse_bytes input field cur) (\<lambda>(offset, v) cur.
       pbind (lift_result (InboundCompact offset) (compact_addr_decode v) cur) (\<lambda>a. Ok (f a))))"
  by (rule reads_then [OF reads_bytes]) (auto simp: lift_result_def intro: reads_Ok)

lemma reads_message_field:
  assumes "encode_message m = Inr (BDict dict)" and "(k, v) \<in> set dict" and "d < 9"
  shows "reads d input (bencode v) (\<lambda>r. r = message_update k v s) (message_field input k s)"
  using assms(1,2)
proof (cases rule: encode_message_entries)
  case (1 w)
  then show ?thesis
    using reads_fields(1) [of d input w]
    by (elim disjE) (simp_all add: message_field_def [abs_def] message_update_def)
next
  case (2 a)
  then show ?thesis
    using reads_field [OF reads_args [OF assms(3), of 2 input a]]
    by (simp add: message_field_def [abs_def] message_update_def decode_encode_args)
next
  case (3 r)
  then show ?thesis
    using reads_field [OF reads_return [OF _ assms(3), of r v 2 input]]
    by (simp add: message_field_def [abs_def] message_update_def decode_encode_return)
next
  case (4 e)
  then show ?thesis
    using reads_field [OF reads_error [of d 2 input e]] assms(3)
    by (simp add: message_field_def [abs_def] message_update_def)
next
  case (5 a)
  then show ?thesis
    by (simp add: message_field_def [abs_def] message_update_def) (rule decode_encode_ip_field)
next
  case 6
  then show ?thesis
    using reads_fields(3) [of d input]
    by (simp add: message_field_def [abs_def] message_update_def bencode_integer del: bencode.simps(2))
qed


lemma fold_message:
  assumes "encode_message m = Inr (BDict dict)"
  shows "fold (\<lambda>(k, v). message_update k v) dict empty_message = canon_message m"
proof -
  obtain r where r: "map_transpose encode_return (km_response m) = Inr r" and dict: "dict =
       insert_opt (bstr ''v'') (opt_if (km_client_id m \<noteq> []) (BBytes (km_client_id m)))
       (insert_opt (bstr ''ro'') (opt_if (km_read_only m) (BInt 1))
       (insert_opt (bstr ''ip'') (map_option (\<lambda>a. BBytes (compact_addr_encode a)) (km_observed_addr m))
       (insert_opt (bstr ''e'') (map_option encode_error (km_error m))
       (insert_opt (bstr ''r'') r
       (insert_opt (bstr ''a'') (map_option encode_args (km_args m))
       (insert_opt (bstr ''q'') (opt_if (km_query m \<noteq> []) (BBytes (km_query m)))
       (insert_bytes ''y'' (km_message_type m)
       (insert_bytes ''t'' (km_transaction_id m) []))))))))"
    using assms by (auto simp: encode_message_Inr)
  have "keys_sorted dict"
    unfolding dict by simp
  then have distinct: "distinct (map fst dict)"
    by (rule keys_distinct)
  have lookups:
    "map_of dict (bstr ''t'') = Some (BBytes (km_transaction_id m))"
    "map_of dict (bstr ''y'') = Some (BBytes (km_message_type m))"
    "map_of dict (bstr ''q'') = opt_if (km_query m \<noteq> []) (BBytes (km_query m))"
    "map_of dict (bstr ''a'') = map_option encode_args (km_args m)"
    "map_of dict (bstr ''r'') = r"
    "map_of dict (bstr ''e'') = map_option encode_error (km_error m)"
    "map_of dict (bstr ''ip'') = map_option (\<lambda>a. BBytes (compact_addr_encode a)) (km_observed_addr m)"
    "map_of dict (bstr ''ro'') = opt_if (km_read_only m) (BInt 1)"
    "map_of dict (bstr ''v'') = opt_if (km_client_id m \<noteq> []) (BBytes (km_client_id m))"
    unfolding dict by simp_all
  have response: "(case r of None \<Rightarrow> None | Some v \<Rightarrow> Some (projr (decode_return v))) = map_option canon_return (km_response m)"
    using r by (cases "km_response m") (auto simp: rbind_Inr decode_encode_return)
  show ?thesis
    by (rule krpc_message.equality; simp add: message_fold [OF distinct] lookups canon_message_def empty_message_def response
        cong del: option.case_cong_weak)
      (auto simp: decode_encode_args split: option.splits)
qed

lemma decode_encoded_message:
  assumes "encode_message m = Inr v" and "length (bencode v) \<le> MAX_INBOUND_DATAGRAM_BYTES"
  shows "\<exists>cur. decode_inbound (bencode v) = Ok (canon_message m) cur \<and> cu_offset cur = length (bencode v)"
proof -
  obtain dict where v: "v = BDict dict" and dict: "encode_message m = Inr (BDict dict)"
    using assms(1) by (auto simp: encode_message_Inr)
  let ?input = "bencode (BDict dict)" and ?cur = "\<lparr>cu_offset = 0, cu_values = 0\<rparr>"
  have at0: "stands_at 0 ?input ?cur (?input @ [])"
    using assms(2) by (simp add: stands_at_def within_def v del: bencode.simps)
  have "reads 0 ?input ?input (\<lambda>x. x = fold (\<lambda>(k, v). message_update k v) dict empty_message)
    (\<lambda>cur. pbind (start_dictionary ?input ''KRPC message'' 1 cur) (\<lambda>_ cur.
       while_not_end ?input (typed_entry ?input ''KRPC dictionary key'' 2 (message_field ?input)) cur empty_message))"
    by (rule reads_dictionary) (simp_all add: reads_message_field [OF dict] del: bencode.simps)
  then obtain cur where run: "pbind (start_dictionary ?input ''KRPC message'' 1 ?cur) (\<lambda>_ cur.
       while_not_end ?input (typed_entry ?input ''KRPC dictionary key'' 2 (message_field ?input)) cur empty_message)
     = Ok (canon_message m) cur" and at: "stands_at 0 ?input cur []"
    unfolding fold_message [OF dict] by (blast dest: readsD [OF _ at0])
  have offset: "cu_offset cur = length ?input"
    using stands_at_length [OF at] by simp
  then have "parse_message ?input ?cur = Ok (canon_message m) cur"
    using run unfolding parse_message_def
    by (cases "start_dictionary ?input ''KRPC message'' 1 ?cur") (simp_all del: bencode.simps)
  then show ?thesis
    using assms(2) offset by (simp add: decode_inbound_def v del: bencode.simps)
qed

text \<open>
  (C11) A node understands what a node sends. If the external encoder emits the canonical bytes of
  a value, then every datagram produced by the encoder of messages, as long as it is within the
  size limit of the decoder, is accepted by the bounded decoder and read to its end, and gives the
  message back, up to an all-zero info hash or target and an empty node list, which become absent.
\<close>

theorem inbound_reads_sent:
  assumes bendy: "\<And>v w. emit 3 v = Inr w \<Longrightarrow> w = bencode v"
    and "krpc_encode emit m = Inr w" and "length w \<le> MAX_INBOUND_DATAGRAM_BYTES"
  shows "\<exists>cur. decode_inbound w = Ok (canon_message m) cur \<and> cu_offset cur = length w"
proof -
  obtain v where v: "encode_message m = Inr v" "emit 3 v = Inr w"
    using assms(2) by (auto simp: krpc_encode_def rbind_Inr)
  with bendy [OF v(2)] assms(3) decode_encoded_message [OF v(1)] show ?thesis
    by blast
qed

definition reference_emit :: "nat \<Rightarrow> bvalue \<Rightarrow> string + bytes" where
  "reference_emit depth v = Inr (bencode v)"

theorem inbound_reads_sent_witness:
  "\<exists>w cur. krpc_encode reference_emit example_ping = Inr w \<and> decode_inbound w = Ok (canon_message example_ping) cur
     \<and> cu_offset cur = length w \<and> 0 < length w"
proof -
  obtain w where w: "krpc_encode reference_emit example_ping = Inr w" and "length w \<le> 200" and "0 < length w"
    by (simp add: krpc_encode_def encode_message_def encode_args_def example_ping_def reference_emit_def insert_opt_def
        insert_bytes_def bstr_def string_bytes_def dec_bytes_rec int_bytes_def)
  then show ?thesis
    using inbound_reads_sent [of reference_emit example_ping w] by (auto simp: reference_emit_def)
qed

end
