(* ===== verification/Exchange.thy ===== *)
theory Exchange
  imports Client Driver Inbound_Roundtrip
begin

text \<open>
  A client and a node in conversation: the client of one process queries the DHT node of another
  over a network that delivers. The registry, the client, both decoders, the driver, the responder
  and its table run as they are defined in their theories; only the network between them is
  modelled here.
\<close>

section \<open>The network\<close>

text \<open>Datagrams with their destination, when sent, or their source, when they arrive.\<close>

type_synonym mailbox = "(socket_addr \<times> bytes) list"

definition mailbox_send :: "(mailbox, unit) datagram_sender" where
  "mailbox_send dest wire sent = (Inr (), sent @ [(dest, wire)])"

definition mailbox_receive :: "(mailbox, unit) datagram_receiver" where
  "mailbox_receive arrived =
     (case arrived of
        [] \<Rightarrow> (Inl (), \<lambda>_. 0, [])
      | (source, wire) # rest \<Rightarrow>
          (Inr \<lparr>rd_length = length wire, rd_source = source\<rparr>, \<lambda>i. if i < length wire then wire ! i else 0, rest))"

definition carried :: "socket_addr \<Rightarrow> socket_addr \<Rightarrow> mailbox \<Rightarrow> mailbox" where
  "carried source dest sent = map (\<lambda>(_, wire). (source, wire)) (filter (\<lambda>(d, _). d = dest) sent)"

record ('i, 'ch, 'dch) network =
  nw_sent :: mailbox
  nw_server :: "(mailbox, 'i, 'ch, mailbox, ktable, 'dch) dht_driver"

definition network_send :: "socket_addr \<Rightarrow> bytes \<Rightarrow> ('i, 'ch, 'dch) network \<Rightarrow> (unit + unit) \<times> ('i, 'ch, 'dch) network" where
  "network_send dest wire nw =
     (let (result, sent) = mailbox_send dest wire (nw_sent nw) in (result, nw\<lparr>nw_sent := sent\<rparr>))"

text \<open>
  What happens while the client at \<open>a\<close> waits: what it sent to \<open>b\<close> arrives at the node there, which
  takes one step; what the node sent to \<open>a\<close> arrives at the receiver of the client's process, which
  takes one step; then the waiting call reads its channel.
\<close>

definition network_await ::
  "(mailbox, unit, mailbox, unit, 'sch, ktable, 'dch, 'p) driver_env \<Rightarrow> socket_addr \<Rightarrow> socket_addr
   \<Rightarrow> (accepted_response, 'ch) mpsc \<Rightarrow> duration \<Rightarrow> pending_transaction \<Rightarrow> ('i, 'ch) transactions
   \<Rightarrow> ('si, 'sch, 'dch) network \<Rightarrow> accepted_response recv_result \<times> ('i, 'ch) transactions \<times> ('si, 'sch, 'dch) network" where
  "network_await en a b mp timeout p t nw =
     (let server = nw_server nw;
          rx = (dv_receiver server)\<lparr>rx_receiver := carried a b (nw_sent nw)\<rparr>
      in case drive_one en (server\<lparr>dv_receiver := rx, dv_sender := []\<rparr>) of
           None \<Rightarrow> (Elapsed, t, nw)
         | Some (_, server) \<Rightarrow>
             (case receive_one mailbox_receive mp (receive_dispatcher_new (carried b a (dv_sender server)) t) of
                None \<Rightarrow> (Elapsed, t, nw\<lparr>nw_server := server\<rparr>)
              | Some (_, rx) \<Rightarrow>
                  let t = rx_registry rx; g = rg_generation (pt_guard p)
                  in (case mp_try_recv mp (the (hm_get (tx_channels t) g)) of
                        (Some x, c) \<Rightarrow> (Received x, t\<lparr>tx_channels := hm_insert g c (tx_channels t)\<rparr>, nw\<lparr>nw_server := server\<rparr>)
                      | (None, c) \<Rightarrow> (Elapsed, t, nw\<lparr>nw_server := server\<rparr>))))"

definition network_env ::
  "(nat \<Rightarrow> bvalue \<Rightarrow> string + bytes) \<Rightarrow> ('i \<Rightarrow> (string + transaction_id) \<times> 'i) \<Rightarrow> (accepted_response, 'ch) mpsc
   \<Rightarrow> (mailbox, unit, mailbox, unit, 'sch, ktable, 'dch, 'p) driver_env \<Rightarrow> socket_addr \<Rightarrow> socket_addr
   \<Rightarrow> ('i, 'ch, ('si, 'sch, 'dch) network, unit) client_env" where
  "network_env emit next_id mp en a b =
     \<lparr>ce_emit = emit, ce_next_id = next_id, ce_responses = mp, ce_send = network_send,
      ce_await = network_await en a b mp\<rparr>"

section \<open>One datagram each way\<close>

lemma receive_one_mailbox:
  assumes "rx_receiver rx = (source, wire) # rest" and "wire \<noteq> []" and "length wire \<le> length (rx_buffer rx)"
    and "decode_inbound wire = Ok message cur" and "dispatch_message mp source message
      (rx\<lparr>rx_receiver := rest, rx_buffer := wire @ replicate (length (rx_buffer rx) - length wire) 0\<rparr>) = (outcome, rx')"
  shows "receive_one mailbox_receive mp rx = Some (Inr outcome, rx')"
proof -
  have buffer: "map (\<lambda>i. if i < length wire then wire ! i else 0) [0..<length (rx_buffer rx)]
    = wire @ replicate (length (rx_buffer rx) - length wire) 0"
    using assms(3) by (intro nth_equalityI) (auto simp: nth_append)
  show ?thesis
    using assms by (simp add: receive_one_def mailbox_receive_def buffer Let_def)
qed

lemma registered_delivery:
  assumes "mpsc_refines mp view" and "register next_id mp b query args t = (Inr q, t1)"
    and "km_transaction_id message = km_transaction_id (rq_message q)" and "km_message_type message = bstr ''r''"
  shows "\<exists>t2 c. deliver mp b message t1 = (DeliveryDelivered, t2)
    \<and> mp_try_recv mp (the (hm_get (tx_channels t2) (rg_generation (rq_guard q))))
        = (Some \<lparr>ar_source = tx_normalize_socket_addr b, ar_message = message\<rparr>, c)"
proof -
  let ?n = "rs_next_generation (tx_registry t)" and ?m = "\<lparr>ar_source = tx_normalize_socket_addr b, ar_message = message\<rparr>"
  obtain tid i where q: "\<not> rs_closed (tx_registry t)"
    "q = \<lparr>rq_guard = \<lparr>rg_transaction_id = tid, rg_generation = ?n\<rparr>, rq_remote = b, rq_message = query_message tid query args\<rparr>"
    "t1 = \<lparr>tx_issuer = i,
            tx_registry = (tx_registry t)\<lparr>rs_next_generation := ?n + 1,
               rs_pending := hm_insert tid
                 \<lparr>pe_generation = ?n, pe_expected_source = tx_normalize_socket_addr b, pe_state = Awaiting\<rparr>
                 (rs_pending (tx_registry t))\<rparr>,
            tx_channels = hm_insert ?n (mp_channel mp 1) (tx_channels t)\<rparr>"
    using register_Inr [OF assms(2)] by blast
  obtain result c1 where send: "mp_try_send mp ?m (mp_channel mp 1) = (result, c1)"
    by force
  have fifo: "fifo_try_send ?m (fifo_new 1) = (result, view c1)"
    using mpsc_refinesD(1,2) [OF assms(1)] send by metis
  from fifo_try_send_cases(1,3) [OF fifo] have "result = SendOk" and queue: "ff_queue (view c1) = [?m]"
    by (auto simp: fifo_new_def)
  obtain x c where recv: "mp_try_recv mp c1 = (x, c)"
    by force
  then have "x = Some ?m"
    using mpsc_refinesD(3) [OF assms(1) recv] queue by (simp add: fifo_try_recv_def)
  moreover have "tid_from_slice (km_transaction_id message) = Inr tid"
    using assms(3) q(2) by (simp add: tid_from_slice_Inr query_message_def)
  ultimately show ?thesis
    using send recv \<open>result = SendOk\<close> assms(4) q(1) by (simp add: q(2,3) deliver_def Let_def hmap_simps)
qed

text \<open>The message a node sends back for the result of its responder.\<close>

definition answer_message :: "bytes \<Rightarrow> dht_responder_error + message_return \<Rightarrow> krpc_message" where
  "answer_message tid res =
     \<lparr>km_transaction_id = tid, km_message_type = bstr ''r'', km_query = [], km_args = None,
      km_response = (case res of Inr ret \<Rightarrow> Some ret | Inl _ \<Rightarrow> None),
      km_error = (case res of Inr _ \<Rightarrow> None | Inl (Protocol e) \<Rightarrow> Some e | Inl (NativeIpv6Node _) \<Rightarrow> Some generic_server_error),
      km_observed_addr = None, km_read_only = False, km_client_id = []\<rparr>"

lemma dispatch_answer:
  assumes "respond dg dt r source request s = Some (res, s')"
  shows "\<exists>d discovery' v. dispatch dg dt mp r source request s discovery = Some (d, s', discovery')
    \<and> outcome_reply d = \<lparr>re_destination = source, re_message = answer_message (km_transaction_id request) res\<rparr>
    \<and> encode_message (answer_message (km_transaction_id request) res) = Inr v"
proof -
  note composed = compose_response_def compose_error_def compose_reply_def compose_reply_for_transaction_def answer_message_def
  show ?thesis
  proof (cases res)
    case (Inr ret)
    note ret = respond_encodes [OF assms [unfolded Inr]]
    then obtain args where args: "km_args request = Some args"
      by blast
    have "\<exists>v. encode_message (re_message (compose_reply source request (Some ret) None)) = Inr v"
      using ret by (intro compose_encodes) blast
    with assms Inr args show ?thesis
      by (cases discovery) (auto simp: dispatch_def composed)
  next
    case (Inl e)
    have "\<exists>v. encode_message (re_message (compose_reply source request None (Some error))) = Inr v" for error
      by (rule compose_encodes) simp
    with assms Inl show ?thesis
      by (cases e) (auto simp: dispatch_def composed)
  qed
qed

lemma server_answers:
  assumes emit: "\<And>v. en_emit en 3 v = Inr (bencode v)"
    and en: "en_receive en = mailbox_receive" "en_send en = mailbox_send"
    and m: "encode_message m = Inr v" "length (bencode v) \<le> MAX_INBOUND_DATAGRAM_BYTES" "km_message_type m = bstr ''q''"
    and rx: "rx_receiver (dv_receiver dv) = [(a, bencode v)]" "length (rx_buffer (dv_receiver dv)) = MAX_INBOUND_DATAGRAM_BYTES"
    and res: "respond (en_digests en) (en_table en) (en_responder en) a (canon_message m) (dv_table dv) = Some (res, table)"
  shows "\<exists>d dv' v'. drive_one en dv = Some (Inr (Sent d), dv') \<and> dv_table dv' = table
    \<and> dv_sender dv' = dv_sender dv @ [(a, bencode v')]
    \<and> encode_message (answer_message (km_transaction_id m) res) = Inr v'"
proof -
  obtain cur where cur: "decode_inbound (bencode v) = Ok (canon_message m) cur"
    using decode_encoded_message [OF m(1,2)] by blast
  obtain b u where "bencode v = b # u"
    by (rule bencode_head)
  then have "bencode v \<noteq> []"
    by simp
  let ?rx = "(dv_receiver dv)\<lparr>rx_receiver := [], rx_buffer := bencode v @ replicate (MAX_INBOUND_DATAGRAM_BYTES - length (bencode v)) 0\<rparr>"
  have "dispatch_message (en_responses en) a (canon_message m) ?rx = (ReceivedQuery a (canon_message m), ?rx)"
    using m(3) by (simp add: dispatch_message_def canon_message_def)
  then have received: "receive_one (en_receive en) (en_responses en) (dv_receiver dv) = Some (Inr (ReceivedQuery a (canon_message m)), ?rx)"
    unfolding en(1) using rx m(2) \<open>bencode v \<noteq> []\<close> cur by (intro receive_one_mailbox [of _ a "bencode v" "[]"]) simp_all
  obtain d discovery v' where d: "dispatch (en_digests en) (en_table en) (en_nodes en) (en_responder en) a (canon_message m)
      (dv_table dv) (dv_discovery dv) = Some (d, table, discovery)"
    "outcome_reply d = \<lparr>re_destination = a, re_message = answer_message (km_transaction_id m) res\<rparr>"
    "encode_message (answer_message (km_transaction_id m) res) = Inr v'"
    using dispatch_answer [OF res, of "en_nodes en" "dv_discovery dv"] by (auto simp: canon_message_def)
  have "send_dht_reply (en_emit en) (en_send en) (outcome_reply d) (dv_sender dv) = (Inr (), dv_sender dv @ [(a, bencode v')])"
    by (simp add: send_dht_reply_def reply_wire_def krpc_encode_def d(2,3) emit en(2) mailbox_send_def)
  with received d show ?thesis
    by (auto simp: drive_one_def)
qed

lemma receive_answer:
  assumes "encode_message m = Inr v" and "length (bencode v) \<le> MAX_INBOUND_DATAGRAM_BYTES"
    and "decode_inbound (bencode v) = Ok (canon_message (answer_message tid res)) cur"
    and "deliver mp b (canon_message (answer_message tid res)) t1 = (delivery, t2)"
  shows "\<exists>rx. receive_one mailbox_receive mp (receive_dispatcher_new [(b, bencode v)] t1) = Some (Inr (ReceivedResponse b delivery), rx)
    \<and> rx_registry rx = t2"
proof -
  obtain x u where "bencode v = x # u"
    by (rule bencode_head)
  then have "bencode v \<noteq> []"
    by simp
  let ?rx = "receive_dispatcher_new [(b, bencode v)] t1"
  let ?rx1 = "?rx\<lparr>rx_receiver := [], rx_buffer := bencode v @ replicate (length (rx_buffer ?rx) - length (bencode v)) 0\<rparr>"
  have "dispatch_message mp b (canon_message (answer_message tid res)) ?rx1 = (ReceivedResponse b delivery, ?rx1\<lparr>rx_registry := t2\<rparr>)"
    using assms(4) by (simp add: dispatch_message_def receive_dispatcher_new_def canon_message_def answer_message_def)
  then have "receive_one mailbox_receive mp ?rx = Some (Inr (ReceivedResponse b delivery), ?rx1\<lparr>rx_registry := t2\<rparr>)"
    using assms(2,3) \<open>bencode v \<noteq> []\<close>
    by (intro receive_one_mailbox [of _ b "bencode v" "[]"]) (simp_all add: receive_dispatcher_new_def)
  then show ?thesis
    by simp
qed

section \<open>The exchange\<close>

text \<open>
  A node reached over the network: its table has some history, its buffer the size of a datagram,
  and it sends what the emitter gives.
\<close>

definition node_ready ::
  "(nat \<Rightarrow> instant) \<Rightarrow> (mailbox, unit, mailbox, unit, 'sch, ktable, 'dch, 'p) driver_env
   \<Rightarrow> (mailbox, 'si, 'sch, mailbox, ktable, 'dch) dht_driver \<Rightarrow> bool" where
  "node_ready clock en dv \<longleftrightarrow>
     (\<forall>v. en_emit en 3 v = Inr (bencode v)) \<and> en_receive en = mailbox_receive \<and> en_send en = mailbox_send
     \<and> en_table en = ktable_backend clock \<and> length (rx_buffer (dv_receiver dv)) = MAX_INBOUND_DATAGRAM_BYTES
     \<and> (\<exists>commands origin. kt_batch_command clock commands (kt_new origin) = Some (dv_table dv))"

text \<open>What the responder of a node says to a query with these arguments.\<close>

definition node_reaction ::
  "(mailbox, unit, mailbox, unit, 'sch, ktable, 'dch, 'p) driver_env \<Rightarrow> socket_addr \<Rightarrow> bytes \<Rightarrow> message_args \<Rightarrow> ktable \<Rightarrow> ktable reaction" where
  "node_reaction en a query args table =
     respond (en_digests en) (en_table en) (en_responder en) a
       \<lparr>km_transaction_id = [], km_message_type = bstr ''q'', km_query = query, km_args = Some (canon_args args),
        km_response = None, km_error = None, km_observed_addr = None, km_read_only = False, km_client_id = []\<rparr> table"

lemma node_reaction_total:
  assumes "node_ready clock en dv"
  shows "\<exists>res table. node_reaction en a query args (dv_table dv) = Some (res, table)"
proof -
  obtain commands origin where "kt_batch_command clock commands (kt_new origin) = Some (dv_table dv)" and "en_table en = ktable_backend clock"
    using assms by (auto simp: node_ready_def)
  moreover from this have "kt_ok (dv_table dv)"
    using kt_history [of clock commands origin] by simp
  ultimately show ?thesis
    using ktb.respond_total [where clock = clock] unfolding node_reaction_def by metis
qed

lemma node_reaction_query:
  "respond (en_digests en) (en_table en) (en_responder en) a (canon_message (query_message tid query args)) table
     = node_reaction en a query args table"
  by (simp add: node_reaction_def respond_def canon_message_def query_message_def)

text \<open>The size of what is sent either way is within the limit of the decoders.\<close>

definition fits :: "krpc_message \<Rightarrow> bool" where
  "fits m \<longleftrightarrow> (\<forall>v. encode_message m = Inr v \<longrightarrow> length (bencode v) \<le> MAX_INBOUND_DATAGRAM_BYTES)"

lemma exchange_query:
  assumes mp: "mpsc_refines mp view" and emit: "\<And>v. emit 3 v = Inr (bencode v)"
    and q: "register next_id mp b query args t = (Inr q, t1)"
    and node: "node_ready clock en (nw_server nw)" and "nw_sent nw = []"
    and res: "node_reaction en a query args (dv_table (nw_server nw)) = Some (res, table)"
    and sizes: "fits (rq_message q)" "fits (answer_message (km_transaction_id (rq_message q)) res)"
  shows "\<exists>t' nw'. client_query (network_env emit next_id mp en a b) cl b query args t nw =
      Some (case res of
              Inr ret \<Rightarrow> Inr \<lparr>aq_response_source = tx_normalize_socket_addr b,
                aq_message = canon_message (answer_message (km_transaction_id (rq_message q)) res), aq_response = canon_return ret\<rparr>
            | Inl e \<Rightarrow> Inl (ClientMissingReturnBody (tx_normalize_socket_addr b)
                (canon_message (answer_message (km_transaction_id (rq_message q)) res))), t', nw')
    \<and> dv_table (nw_server nw') = table"
proof -
  let ?tid = "km_transaction_id (rq_message q)"
  obtain tid where msg: "rq_message q = query_message tid query args" "rq_remote q = b"
    using register_Inr [OF q] by auto
  obtain v where v: "encode_message (rq_message q) = Inr v" "length (bencode v) \<le> MAX_INBOUND_DATAGRAM_BYTES"
    using sizes(1) by (auto simp: fits_def msg(1) encode_message_Inr query_message_def)
  have type: "km_message_type (rq_message q) = bstr ''q''"
    by (simp add: msg(1) query_message_def)
  let ?nw = "nw\<lparr>nw_sent := [(b, bencode v)]\<rparr>"
  have sent: "register_and_send_query emit next_id mp network_send b query args t nw = (Inr (mark_sent q), t1, ?nw)"
    using v(1) assms(5) by (simp add: register_and_send_query_def register_encode_and_send_query_def q rq_wire_def
        krpc_encode_def emit network_send_def mailbox_send_def msg(2))
  let ?dv = "(nw_server nw)\<lparr>dv_receiver := (dv_receiver (nw_server nw))\<lparr>rx_receiver := [(a, bencode v)]\<rparr>, dv_sender := []\<rparr>"
  obtain d dv' v' where step: "drive_one en ?dv = Some (Inr (Sent d), dv')" "dv_table dv' = table"
    "dv_sender dv' = [(a, bencode v')]" and v': "encode_message (answer_message ?tid res) = Inr v'"
    using server_answers [of en "rq_message q" v ?dv a res table] node v res type
    by (auto simp: node_ready_def node_reaction_query msg(1))
  let ?answer = "canon_message (answer_message ?tid res)"
  obtain cur where cur: "decode_inbound (bencode v') = Ok ?answer cur"
    using decode_encoded_message [OF v'] sizes(2) v' by (auto simp: fits_def)
  obtain t2 c where t2: "deliver mp b ?answer t1 = (DeliveryDelivered, t2)"
    "mp_try_recv mp (the (hm_get (tx_channels t2) (rg_generation (rq_guard q))))
       = (Some \<lparr>ar_source = tx_normalize_socket_addr b, ar_message = ?answer\<rparr>, c)"
    using registered_delivery [OF mp q, of ?answer] by (auto simp: canon_message_def answer_message_def)
  let ?t3 = "t2\<lparr>tx_channels := hm_insert (rg_generation (rq_guard q)) c (tx_channels t2)\<rparr>"
  obtain rx where rx: "receive_one mailbox_receive mp (receive_dispatcher_new [(b, bencode v')] t1)
      = Some (Inr (ReceivedResponse b DeliveryDelivered), rx)" "rx_registry rx = t2"
    using receive_answer [OF v' _ cur t2(1)] sizes(2) v' by (auto simp: fits_def)
  have await: "network_await en a b mp timeout (mark_sent q) t1 ?nw
    = (Received \<lparr>ar_source = tx_normalize_socket_addr b, ar_message = ?answer\<rparr>, ?t3, ?nw\<lparr>nw_server := dv'\<rparr>)" for timeout
    using step rx t2(2) by (simp add: network_await_def carried_def mark_sent_def)
  have "wait_outcome (Received \<lparr>ar_source = tx_normalize_socket_addr b, ar_message = ?answer\<rparr>) =
      (case res of
         Inr ret \<Rightarrow> WaitResponse (tx_normalize_socket_addr b) ?answer (canon_return ret)
       | Inl e \<Rightarrow> MissingReturnBody (tx_normalize_socket_addr b) ?answer)"
    by (cases res) (simp_all add: classify_response_def answer_message_def canon_message_def Let_def)
  with sent await step(2) show ?thesis
    by (cases res) (simp_all add: client_query_eq network_env_def)
qed

section \<open>The size of a query\<close>

abbreviation dict_size :: "bdict \<Rightarrow> nat" where
  "dict_size m \<equiv> length (concat (map (\<lambda>(k, v). string_bytes k @ bencode v) m))"

lemma string_bytes_length: "length (string_bytes v) \<le> 2 * length v + 2"
  using dec_bytes_length [of "length v"] by (simp add: string_bytes_def)

lemma dict_size_bt_insert: "dict_size (bt_insert k v m) \<le> dict_size m + (2 * length k + 2) + length (bencode v)"
  using string_bytes_length [of k] by (induction m) auto

lemma dict_size_insert_opt:
  "dict_size (insert_opt k x m) \<le> dict_size m + (case x of None \<Rightarrow> 0 | Some v \<Rightarrow> (2 * length k + 2) + length (bencode v))"
  using dict_size_bt_insert [of k _ m] by (simp add: insert_opt_def add.assoc split: option.split)

lemma client_args_size:
  assumes "scrape \<in> {0, 1}"
  shows "length (bencode (encode_args (client_args cl info_hash target scrape))) \<le> 300"
proof -
  have id: "length (bencode (BBytes (as_bytes i))) \<le> 42" for i
    using string_bytes_length [of "as_bytes i"] by simp
  obtain m where m: "encode_args (client_args cl info_hash target scrape) = BDict m"
    by (simp add: encode_args_def Let_def)
  let ?i = "insert_bytes ''id'' (as_bytes (cl_local_id cl)) []"
  let ?h = "map_option (\<lambda>i. BBytes (as_bytes i)) (filter_opt non_zero info_hash)"
  let ?t = "map_option (\<lambda>i. BBytes (as_bytes i)) (filter_opt non_zero target)"
  let ?s = "opt_if (scrape \<noteq> 0) (BInt scrape)"
  have dict: "m = insert_opt (bstr ''scrape'') ?s (insert_opt (bstr ''target'') ?t (insert_opt (bstr ''info_hash'') ?h ?i))"
    unfolding encode_args_dict [OF m] by (simp add: client_args_def) (simp add: insert_opt_def)
  have "dict_size ?i \<le> 48"
    using dict_size_bt_insert [of "bstr ''id''" "BBytes (as_bytes (cl_local_id cl))" "[]"] id [of "cl_local_id cl"]
    by (simp add: insert_bytes_def)
  moreover have "(case ?h of None \<Rightarrow> 0 | Some v \<Rightarrow> (2 * length (bstr ''info_hash'') + 2) + length (bencode v)) \<le> 62"
    "(case ?t of None \<Rightarrow> 0 | Some v \<Rightarrow> (2 * length (bstr ''target'') + 2) + length (bencode v)) \<le> 56"
    using id by (auto split: option.split simp del: bencode.simps)
  moreover have "length (bencode (BInt 1)) = 3"
    by (simp add: bstr_def int_bytes_def dec_bytes_rec)
  then have "(case ?s of None \<Rightarrow> 0 | Some v \<Rightarrow> (2 * length (bstr ''scrape'') + 2) + length (bencode v)) \<le> 20"
    using assms by (auto simp del: bencode.simps)
  ultimately have "dict_size m \<le> 200"
    unfolding dict using dict_size_insert_opt [of "bstr ''scrape''" ?s "insert_opt (bstr ''target'') ?t (insert_opt (bstr ''info_hash'') ?h ?i)"]
      dict_size_insert_opt [of "bstr ''target''" ?t "insert_opt (bstr ''info_hash'') ?h ?i"]
      dict_size_insert_opt [of "bstr ''info_hash''" ?h ?i] by linarith
  then show ?thesis
    by (simp add: m)
qed

lemma client_query_fits:
  assumes "scrape \<in> {0, 1}" and "length query \<le> 100"
  shows "fits (query_message tid query (client_args cl info_hash target scrape))"
  unfolding fits_def
proof (intro allI impI)
  fix v
  let ?args = "client_args cl info_hash target scrape"
  assume "encode_message (query_message tid query ?args) = Inr v"
  then have v: "v = BDict (insert_opt (bstr ''a'') (Some (encode_args ?args)) (insert_opt (bstr ''q'') (opt_if (query \<noteq> []) (BBytes query))
      (insert_bytes ''y'' (bstr ''q'') (insert_bytes ''t'' (tid_as_bytes tid) []))))"
    by (simp add: encode_message_Inr query_message_def) (simp add: insert_opt_def)
  let ?ty = "insert_bytes ''y'' (bstr ''q'') (insert_bytes ''t'' (tid_as_bytes tid) [])"
  have "length (tid_as_bytes tid) = 2"
    by (cases tid) simp
  then have "dict_size ?ty \<le> 50"
    using dict_size_bt_insert [of "bstr ''y''" "BBytes (bstr ''q'')" "insert_bytes ''t'' (tid_as_bytes tid) []"]
      dict_size_bt_insert [of "bstr ''t''" "BBytes (tid_as_bytes tid)" "[]"] string_bytes_length [of "bstr ''q''"]
      string_bytes_length [of "tid_as_bytes tid"] by (simp add: insert_bytes_def)
  moreover have "(case opt_if (query \<noteq> []) (BBytes query) of None \<Rightarrow> 0 | Some v \<Rightarrow> (2 * length (bstr ''q'') + 2) + length (bencode v)) \<le> 250"
    using string_bytes_length [of query] assms(2) by simp
  ultimately have "dict_size (insert_opt (bstr ''a'') (Some (encode_args ?args))
      (insert_opt (bstr ''q'') (opt_if (query \<noteq> []) (BBytes query)) ?ty)) \<le> 1000"
    using dict_size_insert_opt [of "bstr ''a''" "Some (encode_args ?args)" "insert_opt (bstr ''q'') (opt_if (query \<noteq> []) (BBytes query)) ?ty"]
      dict_size_insert_opt [of "bstr ''q''" "opt_if (query \<noteq> []) (BBytes query)" ?ty] client_args_size [OF assms(1), of cl info_hash target]
    by simp
  then show "length (bencode v) \<le> MAX_INBOUND_DATAGRAM_BYTES"
    unfolding v by simp
qed

section \<open>What the client sees\<close>

lemma client_project_canon [simp]:
  "mr_id (canon_return r) = mr_id r" "mr_values (canon_return r) = mr_values r" "mr_samples (canon_return r) = mr_samples r"
  "mr_num (canon_return r) = mr_num r" "mr_interval (canon_return r) = mr_interval r"
  "mr_peers_bloom (canon_return r) = mr_peers_bloom r" "mr_seeders_bloom (canon_return r) = mr_seeders_bloom r"
  "client_project_nodes (mr_nodes (canon_return r)) = client_project_nodes (mr_nodes r)"
  by (cases "mr_nodes r"; simp add: canon_return_def client_project_nodes_def)+

lemma respond_no_bloom:
  assumes "respond dg dt r source message s = Some (Inr ret, s')"
  shows "mr_peers_bloom ret = None \<and> mr_seeders_bloom ret = None"
proof -
  obtain args where args: "km_args message = Some args"
    using assms by (cases "km_args message") (auto simp: respond_def)
  have empty: "mr_peers_bloom (empty_return i) = None" "mr_seeders_bloom (empty_return i) = None" for i
    by (simp_all add: empty_return_def)
  have "mr_peers_bloom ret = None \<and> mr_seeders_bloom ret = None" if "respond_get_peers dg dt r source args s = Some (Inr ret, s')"
  proof (cases "required_id (ma_info_hash args)")
    case (Inr h)
    with that obtain l where "dt_get_hash_or_closest_nodes dt s h = Some l"
      by (auto simp: respond_get_peers_def)
    with that Inr empty show ?thesis
      by (cases l) (auto simp: respond_get_peers_def rbind_Inr)
  qed (use that in \<open>auto simp: respond_get_peers_def\<close>)
  with assms args empty show ?thesis
    by (auto simp: respond_def respond_find_node_def respond_announce_peer_def respond_sample_infohashes_def Let_def rbind_Inr
        split: if_splits sum.splits)
qed

text \<open>A result shows what the node said: the view \<open>f\<close> of its return, or that there is no return.\<close>

definition reports :: "socket_addr \<Rightarrow> (message_return \<Rightarrow> 'a) \<Rightarrow> dht_responder_error + message_return \<Rightarrow> 'e dht_client_error + 'a \<Rightarrow> bool" where
  "reports b f res result \<longleftrightarrow>
     (case res of
        Inr ret \<Rightarrow> result = Inr (f ret)
      | Inl e \<Rightarrow> \<exists>message. result = Inl (ClientMissingReturnBody (tx_normalize_socket_addr b) message) \<and> km_error message \<noteq> None)"

lemma exchange_call:
  assumes mp: "mpsc_refines mp view" and emit: "\<And>v. emit 3 v = Inr (bencode v)"
    and register: "\<And>query args. \<exists>q t1. register next_id mp b query args t = (Inr q, t1)"
    and node: "node_ready clock en (nw_server nw)" and sent: "nw_sent nw = []"
    and args: "scrape \<in> {0, 1}" "length query \<le> 100"
    and res: "node_reaction en a query (client_args cl info_hash target scrape) (dv_table (nw_server nw)) = Some (res, table)"
    and size: "\<And>tid. length tid = 2 \<Longrightarrow> fits (answer_message tid res)"
  obtains message t' nw' where
    "client_query (network_env emit next_id mp en a b) cl b query (client_args cl info_hash target scrape) t nw =
      Some (case res of
              Inr ret \<Rightarrow> Inr \<lparr>aq_response_source = tx_normalize_socket_addr b, aq_message = message, aq_response = canon_return ret\<rparr>
            | Inl e \<Rightarrow> Inl (ClientMissingReturnBody (tx_normalize_socket_addr b) message), t', nw')"
    "dv_table (nw_server nw') = table" "km_error message \<noteq> None \<longleftrightarrow> isl res"
proof -
  let ?args = "client_args cl info_hash target scrape"
  obtain q t1 where q: "register next_id mp b query ?args t = (Inr q, t1)"
    using register by blast
  then obtain tid where m: "rq_message q = query_message tid query ?args"
    using register_Inr by fastforce
  then have tid: "length (km_transaction_id (rq_message q)) = 2"
    by (cases tid) (simp add: query_message_def)
  have "fits (rq_message q)"
    unfolding m by (rule client_query_fits [OF args])
  note call = exchange_query [of mp view emit, OF mp emit q node sent res this size [OF tid], of cl]
  let ?message = "canon_message (answer_message (km_transaction_id (rq_message q)) res)"
  have "km_error ?message \<noteq> None \<longleftrightarrow> isl res"
    by (cases res) (simp_all add: answer_message_def canon_message_def split: dht_responder_error.split)
  then show thesis
    using call by (elim exE conjE) (rule that)
qed

text \<open>The queries of the five methods for one identifier.\<close>

definition client_requests :: "dht_client \<Rightarrow> id20 \<Rightarrow> (bytes \<times> message_args) set" where
  "client_requests cl h =
     {(bstr ''ping'', client_args cl None None 0), (bstr ''find_node'', client_args cl None (Some h) 0),
      (bstr ''get_peers'', client_args cl (Some h) None 0), (bstr ''get_peers'', client_args cl (Some h) None 1),
      (bstr ''sample_infohashes'', client_args cl None (Some h) 0)}"

lemma exchange_view:
  assumes "mpsc_refines mp view" and "\<And>v. emit 3 v = Inr (bencode v)"
    and "\<And>query args. \<exists>q t1. register next_id mp b query args t = (Inr q, t1)"
    and "node_ready clock en (nw_server nw)" and "nw_sent nw = []"
    and "\<And>query args tid res table. (query, args) \<in> client_requests cl h \<Longrightarrow>
           node_reaction en a query args (dv_table (nw_server nw)) = Some (res, table) \<Longrightarrow>
           length tid = 2 \<Longrightarrow> fits (answer_message tid res)"
    and "(query, client_args cl info_hash target 0) \<in> client_requests cl h" and "\<And>r. f (canon_return r) = f r"
  shows "\<exists>result t' nw' res. on_accepted (\<lambda>accepted. Inr (f (aq_response accepted)))
       (client_query (network_env emit next_id mp en a b) cl b query (client_args cl info_hash target 0)) t nw = Some (result, t', nw')
      \<and> node_reaction en a query (client_args cl info_hash target 0) (dv_table (nw_server nw)) = Some (res, dv_table (nw_server nw'))
      \<and> reports b f res result"
proof -
  obtain res table where res: "node_reaction en a query (client_args cl info_hash target 0) (dv_table (nw_server nw)) = Some (res, table)"
    using node_reaction_total [OF assms(4)] by blast
  have "(0 :: i64) \<in> {0, 1}" and "length query \<le> 100"
    using assms(7) by (auto simp: client_requests_def)
  from exchange_call [of mp view emit, OF assms(1-5) this res assms(6) [OF assms(7) res]]
  obtain message t' nw' where call: "client_query (network_env emit next_id mp en a b) cl b query (client_args cl info_hash target 0) t nw =
      Some (case res of
              Inr ret \<Rightarrow> Inr \<lparr>aq_response_source = tx_normalize_socket_addr b, aq_message = message, aq_response = canon_return ret\<rparr>
            | Inl e \<Rightarrow> Inl (ClientMissingReturnBody (tx_normalize_socket_addr b) message), t', nw')"
    "dv_table (nw_server nw') = table" "km_error message \<noteq> None \<longleftrightarrow> isl res"
    by metis
  show ?thesis
    using call res assms(8) by (cases res) (auto simp: on_accepted_def reports_def)
qed

lemma exchange_scrape:
  assumes "mpsc_refines mp view" and "\<And>v. emit 3 v = Inr (bencode v)"
    and "\<And>query args. \<exists>q t1. register next_id mp b query args t = (Inr q, t1)"
    and "node_ready clock en (nw_server nw)" and "nw_sent nw = []"
    and "\<And>query args tid res table. (query, args) \<in> client_requests cl h \<Longrightarrow>
           node_reaction en a query args (dv_table (nw_server nw)) = Some (res, table) \<Longrightarrow>
           length tid = 2 \<Longrightarrow> fits (answer_message tid res)"
  shows "\<exists>error t' nw'. client_get_peers_scrape (network_env emit next_id mp en a b) cl b h t nw = Some (Inl error, t', nw')"
proof -
  let ?args = "client_args cl (Some h) None 1"
  obtain res table where res: "node_reaction en a (bstr ''get_peers'') ?args (dv_table (nw_server nw)) = Some (res, table)"
    using node_reaction_total [OF assms(4)] by blast
  have "(1 :: i64) \<in> {0, 1}" "length (bstr ''get_peers'') \<le> 100" "(bstr ''get_peers'', ?args) \<in> client_requests cl h"
    by (simp_all add: client_requests_def)
  from exchange_call [of mp view emit, OF assms(1-5) this(1,2) res assms(6) [OF this(3) res]]
  obtain message t' nw' where call: "client_query (network_env emit next_id mp en a b) cl b (bstr ''get_peers'') ?args t nw =
      Some (case res of
              Inr ret \<Rightarrow> Inr \<lparr>aq_response_source = tx_normalize_socket_addr b, aq_message = message, aq_response = canon_return ret\<rparr>
            | Inl e \<Rightarrow> Inl (ClientMissingReturnBody (tx_normalize_socket_addr b) message), t', nw')"
    by metis
  have "mr_peers_bloom ret = None" if "res = Inr ret" for ret
    using res that respond_no_bloom unfolding node_reaction_def by fast
  then show ?thesis
    using call by (cases res) (auto simp: client_get_peers_scrape_def on_accepted_def Let_def)
qed

text \<open>
  (C1) Two processes of this program understand each other. Let a client at \<open>a\<close> query the DHT node
  at \<open>b\<close>, whose table has any history, over a network that delivers, and let the node's answers fit
  into a datagram. Then, through the registry, both encoders, both bounded decoders, the driver and
  the responder, each method of the client returns exactly the view of what the responder of the
  node returns for the client's arguments, and the table of the node is the one the responder
  leaves. Where the responder reports an error, the client reports a missing return body, never a
  remote error, because the node sends its errors in the envelope of a response. A scrape never
  succeeds, because the responder never sends the two filters it needs.
\<close>

theorem exchange_faithful:
  assumes "mpsc_refines mp view" and "\<And>v. emit 3 v = Inr (bencode v)"
    and "\<And>query args. \<exists>q t1. register next_id mp b query args t = (Inr q, t1)"
    and "node_ready clock en (nw_server nw)" and "nw_sent nw = []"
    and "\<And>query args tid res table. (query, args) \<in> client_requests cl h \<Longrightarrow>
           node_reaction en a query args (dv_table (nw_server nw)) = Some (res, table) \<Longrightarrow>
           length tid = 2 \<Longrightarrow> fits (answer_message tid res)"
  shows "(\<exists>result t' nw' res. client_ping (network_env emit next_id mp en a b) cl b t nw = Some (result, t', nw')
      \<and> node_reaction en a (bstr ''ping'') (client_args cl None None 0) (dv_table (nw_server nw)) = Some (res, dv_table (nw_server nw'))
      \<and> reports b (\<lambda>r. \<lparr>pi_id = mr_id r\<rparr>) res result)
    \<and> (\<exists>result t' nw' res. client_find_node (network_env emit next_id mp en a b) cl b h t nw = Some (result, t', nw')
      \<and> node_reaction en a (bstr ''find_node'') (client_args cl None (Some h) 0) (dv_table (nw_server nw)) = Some (res, dv_table (nw_server nw'))
      \<and> reports b (\<lambda>r. \<lparr>fn_id = mr_id r, fn_nodes = client_project_nodes (mr_nodes r)\<rparr>) res result)
    \<and> (\<exists>result t' nw' res. client_get_peers (network_env emit next_id mp en a b) cl b h t nw = Some (result, t', nw')
      \<and> node_reaction en a (bstr ''get_peers'') (client_args cl (Some h) None 0) (dv_table (nw_server nw)) = Some (res, dv_table (nw_server nw'))
      \<and> reports b (\<lambda>r. \<lparr>gp_id = mr_id r, gp_values = client_project_values (mr_values r),
                         gp_nodes = client_project_nodes (mr_nodes r)\<rparr>) res result)
    \<and> (\<exists>result t' nw' res. client_sample_infohashes (network_env emit next_id mp en a b) cl b h t nw = Some (result, t', nw')
      \<and> node_reaction en a (bstr ''sample_infohashes'') (client_args cl None (Some h) 0) (dv_table (nw_server nw)) = Some (res, dv_table (nw_server nw'))
      \<and> reports b (\<lambda>r. \<lparr>si_id = mr_id r, si_samples = mr_samples r, si_nodes = client_project_nodes (mr_nodes r),
                         si_num = unwrap_or (mr_num r) 0, si_interval = unwrap_or (mr_interval r) 0\<rparr>) res result)
    \<and> (\<exists>error t' nw'. client_get_peers_scrape (network_env emit next_id mp en a b) cl b h t nw = Some (Inl error, t', nw'))"
  unfolding client_ping_def client_find_node_def client_get_peers_def client_sample_infohashes_def Let_def
  by (intro conjI exchange_view [of mp view emit, OF assms] exchange_scrape [of mp view emit, OF assms])
    (auto simp: client_requests_def)

section \<open>A conversation\<close>

definition node_env :: "(mailbox, unit, mailbox, unit, accepted_response fifo, ktable, routing_node fifo, unit) driver_env" where
  "node_env =
     \<lparr>en_receive = mailbox_receive, en_send = mailbox_send, en_emit = reference_emit, en_responses = fifo_mpsc,
      en_nodes = example_permits, en_digests = example_digests, en_table = ktable_backend (\<lambda>_. 0),
      en_responder = example_responder\<rparr>"

definition quiet_network :: "(unit, accepted_response fifo, routing_node fifo) network" where
  "quiet_network =
     \<lparr>nw_sent = [],
      nw_server = \<lparr>dv_receiver = receive_dispatcher_new [] \<lparr>tx_issuer = (), tx_registry = registry_default, tx_channels = []\<rparr>,
        dv_sender = [], dv_table = kt_new id20_ZERO, dv_discovery = None\<rparr>\<rparr>"

abbreviation caller :: socket_addr where
  "caller \<equiv> SocketV4 (Ipv4Addr 10 0 0 2) 6881"

abbreviation sought :: id20 where
  "sought \<equiv> Id20 (replicate 20 1)"

lemma empty_table_lookups:
  "kt_get_hash_or_closest_nodes (kt_new id20_ZERO) h = Some (ClosestNodes [])"
  "kt_closest_nodes (kt_new id20_ZERO) h = Some []"
  by (simp_all add: kt_get_hash_or_closest_nodes_def kc_get_hash_or_closest_nodes_def kc_hash_def kt_new_def kc_new_def
        kc_closest_nodes_def nt_closest_def nt_new_def rt_closest_def rt_new_def live_handles_of_def List.map_filter_simps
        kt_closest_nodes_def)

lemma empty_table_sample:
  "kt_sample_hashes_and_nodes (kt_new id20_ZERO) = \<lparr>ks_hashes = [], ks_nodes = [], ks_total_hashes = 0\<rparr>"
  by (simp add: kt_sample_hashes_and_nodes_def kc_hashes_by_id_def kc_hash_count_def kt_new_def kc_new_def Let_def)

lemma example_token: "concat (replicate 16 (u8_to_dec 7)) = ''7777777777777777''"
proof -
  have "u8_to_dec 7 = ''7''"
    by (simp add: u8_to_dec_def nat_to_dec.simps [of 7] digit_char_def) code_simp
  then show ?thesis
    by (simp add: eval_nat_numeral)
qed

lemma quiet_reactions:
  "node_reaction node_env caller (bstr ''ping'') (client_args example_client None None 0) (kt_new id20_ZERO)
     = Some (Inr (empty_return id20_ZERO), kt_new id20_ZERO)"
  "node_reaction node_env caller (bstr ''find_node'') (client_args example_client None (Some sought) 0) (kt_new id20_ZERO)
     = Some (Inr (empty_return id20_ZERO), kt_new id20_ZERO)"
  "node_reaction node_env caller (bstr ''get_peers'') (client_args example_client (Some sought) None scrape) (kt_new id20_ZERO)
     = Some (Inr ((empty_return id20_ZERO)\<lparr>mr_token := Some (bstr ''7777777777777777'')\<rparr>), kt_new id20_ZERO)"
  "node_reaction node_env caller (bstr ''sample_infohashes'') (client_args example_client None (Some sought) 0) (kt_new id20_ZERO)
     = Some (Inr ((empty_return id20_ZERO)\<lparr>mr_interval := Some 60, mr_num := Some 0, mr_samples := Some []\<rparr>), kt_new id20_ZERO)"
proof -
  have "sought \<noteq> id20_ZERO"
    by (simp add: id20_ZERO_def Id20_inject)
  then show "node_reaction node_env caller (bstr ''ping'') (client_args example_client None None 0) (kt_new id20_ZERO)
     = Some (Inr (empty_return id20_ZERO), kt_new id20_ZERO)"
    and "node_reaction node_env caller (bstr ''find_node'') (client_args example_client None (Some sought) 0) (kt_new id20_ZERO)
     = Some (Inr (empty_return id20_ZERO), kt_new id20_ZERO)"
    and "node_reaction node_env caller (bstr ''get_peers'') (client_args example_client (Some sought) None scrape) (kt_new id20_ZERO)
     = Some (Inr ((empty_return id20_ZERO)\<lparr>mr_token := Some (bstr ''7777777777777777'')\<rparr>), kt_new id20_ZERO)"
    and "node_reaction node_env caller (bstr ''sample_infohashes'') (client_args example_client None (Some sought) 0) (kt_new id20_ZERO)
     = Some (Inr ((empty_return id20_ZERO)\<lparr>mr_interval := Some 60, mr_num := Some 0, mr_samples := Some []\<rparr>), kt_new id20_ZERO)"
    by (simp_all add: node_reaction_def node_env_def respond_def respond_find_node_def respond_get_peers_def respond_sample_infohashes_def
        ktable_backend_def empty_table_lookups project_nodes_def empty_return_def client_args_def canon_args_def issue_def example_digests_def
        empty_table_sample example_token Let_def) (simp add: example_responder_def)
qed

lemma quiet_answers_fit:
  assumes "length tid = 2"
    and "r \<in> {empty_return id20_ZERO, (empty_return id20_ZERO)\<lparr>mr_token := Some (bstr ''7777777777777777'')\<rparr>,
      (empty_return id20_ZERO)\<lparr>mr_interval := Some 60, mr_num := Some 0, mr_samples := Some []\<rparr>}"
  shows "fits (answer_message tid (Inr r))"
proof -
  obtain x y where "tid = [x, y]"
    using assms(1) by (auto simp: numeral_2_eq_2 length_Suc_conv)
  with assms(2) show ?thesis
    by (auto simp: fits_def answer_message_def encode_message_def encode_return_def insert_nodes_def empty_return_def insert_opt_def
        insert_bytes_def bstr_def string_bytes_def dec_bytes_rec int_bytes_def encode_samples_def Let_def)
qed

lemma quiet_register: "\<exists>q t. register counting_issuer fifo_mpsc example_remote query args (tx_new 0) = (Inr q, t)"
proof -
  have "select_id TRANSACTION_ID_SPACE counting_issuer [] 0 = (Inr (TransactionId 0 0), 1)"
    by (rule select_id_first) (simp_all add: counting_issuer_def hm_contains_def)
  then show ?thesis
    by (simp add: register_def tx_new_def registry_default_def Let_def)
qed

theorem exchange_faithful_witness:
  "\<exists>result t nw. client_get_peers (network_env reference_emit counting_issuer fifo_mpsc node_env caller example_remote)
      example_client example_remote sought (tx_new 0) quiet_network = Some (result, t, nw)
    \<and> result = Inr \<lparr>gp_id = id20_ZERO, gp_values = [], gp_nodes = []\<rparr>"
proof -
  have ready: "node_ready (\<lambda>_. 0) node_env (nw_server quiet_network)"
    by (auto simp: node_ready_def node_env_def quiet_network_def reference_emit_def receive_dispatcher_new_def
        intro!: exI [of _ "[]"] exI [of _ id20_ZERO])
  have fits: "fits (answer_message tid res)"
    if "(query, args) \<in> client_requests example_client sought"
      "node_reaction node_env caller query args (dv_table (nw_server quiet_network)) = Some (res, table)" "length tid = 2"
    for query args tid res table
    using that quiet_answers_fit [of tid] by (auto simp: client_requests_def quiet_network_def quiet_reactions)
  have sent: "nw_sent quiet_network = []" and emit: "\<And>v. reference_emit 3 v = Inr (bencode v)"
    by (simp_all add: quiet_network_def reference_emit_def)
  have "\<exists>result t nw res. client_get_peers (network_env reference_emit counting_issuer fifo_mpsc node_env caller example_remote)
      example_client example_remote sought (tx_new 0) quiet_network = Some (result, t, nw)
    \<and> node_reaction node_env caller (bstr ''get_peers'') (client_args example_client (Some sought) None 0)
      (dv_table (nw_server quiet_network)) = Some (res, dv_table (nw_server nw))
    \<and> reports example_remote (\<lambda>r. \<lparr>gp_id = mr_id r, gp_values = client_project_values (mr_values r),
       gp_nodes = client_project_nodes (mr_nodes r)\<rparr>) res result"
    by (rule exchange_faithful [of fifo_mpsc id reference_emit counting_issuer example_remote "tx_new 0",
        OF fifo_mpsc_refines emit quiet_register ready sent, THEN conjunct2, THEN conjunct2, THEN conjunct1])
      (rule fits)
  moreover have "dv_table (nw_server quiet_network) = kt_new id20_ZERO"
    by (simp add: quiet_network_def)
  ultimately show ?thesis
    by (auto simp: quiet_reactions reports_def empty_return_def client_project_values_def client_project_nodes_def)
qed

end
