(* ===== verification/Fts_Tables.thy ===== *)
theory Fts_Tables
  imports Prelude
begin

text \<open>
  \<open>bitmagnet-fts/src/tables.rs\<close>, the tables of the tokenizer that were generated from Go: the ranges
  of word characters and the lower-case map, in the pieces below. The searches of the tokenizer
  rely on their order, and the safety of its tokens on what they hold for ASCII; both are shown
  here. The transliteration table, some fifty thousand strings, is an argument of the tokenizer.
\<close>

section \<open>The tables\<close>

definition WORD_CHAR_RANGES_1 :: "(u32 \<times> u32) list" where
  "WORD_CHAR_RANGES_1 =
     [(0x30, 0x39), (0x41, 0x5a), (0x61, 0x7a), (0xaa, 0xaa), (0xb5, 0xb5), (0xba, 0xba), (0xc0, 0xd6), (0xd8, 0xf6),
      (0xf8, 0x2c1), (0x2c6, 0x2d1), (0x2e0, 0x2e4), (0x2ec, 0x2ec), (0x2ee, 0x2ee), (0x370, 0x374), (0x376, 0x377),
      (0x37a, 0x37d), (0x37f, 0x37f), (0x386, 0x386), (0x388, 0x38a), (0x38c, 0x38c), (0x38e, 0x3a1), (0x3a3, 0x3f5),
      (0x3f7, 0x481), (0x48a, 0x52f), (0x531, 0x556), (0x559, 0x559), (0x560, 0x588), (0x5d0, 0x5ea), (0x5ef, 0x5f2),
      (0x620, 0x64a), (0x660, 0x669), (0x66e, 0x66f), (0x671, 0x6d3), (0x6d5, 0x6d5), (0x6e5, 0x6e6), (0x6ee, 0x6fc),
      (0x6ff, 0x6ff), (0x710, 0x710), (0x712, 0x72f), (0x74d, 0x7a5), (0x7b1, 0x7b1), (0x7c0, 0x7ea), (0x7f4, 0x7f5),
      (0x7fa, 0x7fa), (0x800, 0x815), (0x81a, 0x81a), (0x824, 0x824), (0x828, 0x828), (0x840, 0x858), (0x860, 0x86a),
      (0x870, 0x887), (0x889, 0x88e), (0x8a0, 0x8c9), (0x904, 0x939), (0x93d, 0x93d), (0x950, 0x950), (0x958, 0x961),
      (0x966, 0x96f), (0x971, 0x980), (0x985, 0x98c), (0x98f, 0x990), (0x993, 0x9a8), (0x9aa, 0x9b0), (0x9b2, 0x9b2),
      (0x9b6, 0x9b9), (0x9bd, 0x9bd), (0x9ce, 0x9ce), (0x9dc, 0x9dd), (0x9df, 0x9e1), (0x9e6, 0x9f1), (0x9fc, 0x9fc),
      (0xa05, 0xa0a), (0xa0f, 0xa10), (0xa13, 0xa28), (0xa2a, 0xa30), (0xa32, 0xa33), (0xa35, 0xa36), (0xa38, 0xa39),
      (0xa59, 0xa5c), (0xa5e, 0xa5e), (0xa66, 0xa6f), (0xa72, 0xa74), (0xa85, 0xa8d), (0xa8f, 0xa91), (0xa93, 0xaa8),
      (0xaaa, 0xab0), (0xab2, 0xab3), (0xab5, 0xab9), (0xabd, 0xabd), (0xad0, 0xad0), (0xae0, 0xae1), (0xae6, 0xaef),
      (0xaf9, 0xaf9), (0xb05, 0xb0c), (0xb0f, 0xb10), (0xb13, 0xb28), (0xb2a, 0xb30), (0xb32, 0xb33), (0xb35, 0xb39),
      (0xb3d, 0xb3d), (0xb5c, 0xb5d), (0xb5f, 0xb61), (0xb66, 0xb6f), (0xb71, 0xb71), (0xb83, 0xb83), (0xb85, 0xb8a),
      (0xb8e, 0xb90), (0xb92, 0xb95), (0xb99, 0xb9a), (0xb9c, 0xb9c), (0xb9e, 0xb9f), (0xba3, 0xba4), (0xba8, 0xbaa),
      (0xbae, 0xbb9), (0xbd0, 0xbd0), (0xbe6, 0xbef), (0xc05, 0xc0c), (0xc0e, 0xc10), (0xc12, 0xc28), (0xc2a, 0xc39),
      (0xc3d, 0xc3d), (0xc58, 0xc5a), (0xc5d, 0xc5d), (0xc60, 0xc61), (0xc66, 0xc6f), (0xc80, 0xc80), (0xc85, 0xc8c),
      (0xc8e, 0xc90), (0xc92, 0xca8), (0xcaa, 0xcb3), (0xcb5, 0xcb9), (0xcbd, 0xcbd), (0xcdd, 0xcde), (0xce0, 0xce1),
      (0xce6, 0xcef), (0xcf1, 0xcf2), (0xd04, 0xd0c), (0xd0e, 0xd10), (0xd12, 0xd3a), (0xd3d, 0xd3d), (0xd4e, 0xd4e),
      (0xd54, 0xd56), (0xd5f, 0xd61), (0xd66, 0xd6f), (0xd7a, 0xd7f), (0xd85, 0xd96), (0xd9a, 0xdb1), (0xdb3, 0xdbb),
      (0xdbd, 0xdbd), (0xdc0, 0xdc6)]"

definition WORD_CHAR_RANGES_2 :: "(u32 \<times> u32) list" where
  "WORD_CHAR_RANGES_2 =
     [(0xde6, 0xdef), (0xe01, 0xe30), (0xe32, 0xe33), (0xe40, 0xe46), (0xe50, 0xe59), (0xe81, 0xe82), (0xe84, 0xe84),
      (0xe86, 0xe8a), (0xe8c, 0xea3), (0xea5, 0xea5), (0xea7, 0xeb0), (0xeb2, 0xeb3), (0xebd, 0xebd), (0xec0, 0xec4),
      (0xec6, 0xec6), (0xed0, 0xed9), (0xedc, 0xedf), (0xf00, 0xf00), (0xf20, 0xf29), (0xf40, 0xf47), (0xf49, 0xf6c),
      (0xf88, 0xf8c), (0x1000, 0x102a), (0x103f, 0x1049), (0x1050, 0x1055), (0x105a, 0x105d), (0x1061, 0x1061),
      (0x1065, 0x1066), (0x106e, 0x1070), (0x1075, 0x1081), (0x108e, 0x108e), (0x1090, 0x1099), (0x10a0, 0x10c5),
      (0x10c7, 0x10c7), (0x10cd, 0x10cd), (0x10d0, 0x10fa), (0x10fc, 0x1248), (0x124a, 0x124d), (0x1250, 0x1256),
      (0x1258, 0x1258), (0x125a, 0x125d), (0x1260, 0x1288), (0x128a, 0x128d), (0x1290, 0x12b0), (0x12b2, 0x12b5),
      (0x12b8, 0x12be), (0x12c0, 0x12c0), (0x12c2, 0x12c5), (0x12c8, 0x12d6), (0x12d8, 0x1310), (0x1312, 0x1315),
      (0x1318, 0x135a), (0x1380, 0x138f), (0x13a0, 0x13f5), (0x13f8, 0x13fd), (0x1401, 0x166c), (0x166f, 0x167f),
      (0x1681, 0x169a), (0x16a0, 0x16ea), (0x16f1, 0x16f8), (0x1700, 0x1711), (0x171f, 0x1731), (0x1740, 0x1751),
      (0x1760, 0x176c), (0x176e, 0x1770), (0x1780, 0x17b3), (0x17d7, 0x17d7), (0x17dc, 0x17dc), (0x17e0, 0x17e9),
      (0x1810, 0x1819), (0x1820, 0x1878), (0x1880, 0x1884), (0x1887, 0x18a8), (0x18aa, 0x18aa), (0x18b0, 0x18f5),
      (0x1900, 0x191e), (0x1946, 0x196d), (0x1970, 0x1974), (0x1980, 0x19ab), (0x19b0, 0x19c9), (0x19d0, 0x19d9),
      (0x1a00, 0x1a16), (0x1a20, 0x1a54), (0x1a80, 0x1a89), (0x1a90, 0x1a99), (0x1aa7, 0x1aa7), (0x1b05, 0x1b33),
      (0x1b45, 0x1b4c), (0x1b50, 0x1b59), (0x1b83, 0x1ba0), (0x1bae, 0x1be5), (0x1c00, 0x1c23), (0x1c40, 0x1c49),
      (0x1c4d, 0x1c7d), (0x1c80, 0x1c88), (0x1c90, 0x1cba), (0x1cbd, 0x1cbf), (0x1ce9, 0x1cec), (0x1cee, 0x1cf3),
      (0x1cf5, 0x1cf6), (0x1cfa, 0x1cfa), (0x1d00, 0x1dbf), (0x1e00, 0x1f15), (0x1f18, 0x1f1d), (0x1f20, 0x1f45),
      (0x1f48, 0x1f4d), (0x1f50, 0x1f57), (0x1f59, 0x1f59), (0x1f5b, 0x1f5b), (0x1f5d, 0x1f5d), (0x1f5f, 0x1f7d),
      (0x1f80, 0x1fb4), (0x1fb6, 0x1fbc), (0x1fbe, 0x1fbe), (0x1fc2, 0x1fc4), (0x1fc6, 0x1fcc), (0x1fd0, 0x1fd3),
      (0x1fd6, 0x1fdb), (0x1fe0, 0x1fec), (0x1ff2, 0x1ff4), (0x1ff6, 0x1ffc), (0x2071, 0x2071), (0x207f, 0x207f),
      (0x2090, 0x209c), (0x2102, 0x2102), (0x2107, 0x2107), (0x210a, 0x2113), (0x2115, 0x2115), (0x2119, 0x211d),
      (0x2124, 0x2124), (0x2126, 0x2126), (0x2128, 0x2128), (0x212a, 0x212d), (0x212f, 0x2139), (0x213c, 0x213f),
      (0x2145, 0x2149), (0x214e, 0x214e), (0x2183, 0x2184), (0x2c00, 0x2ce4), (0x2ceb, 0x2cee), (0x2cf2, 0x2cf3),
      (0x2d00, 0x2d25), (0x2d27, 0x2d27), (0x2d2d, 0x2d2d), (0x2d30, 0x2d67), (0x2d6f, 0x2d6f), (0x2d80, 0x2d96),
      (0x2da0, 0x2da6), (0x2da8, 0x2dae), (0x2db0, 0x2db6)]"

definition WORD_CHAR_RANGES_3 :: "(u32 \<times> u32) list" where
  "WORD_CHAR_RANGES_3 =
     [(0x2db8, 0x2dbe), (0x2dc0, 0x2dc6), (0x2dc8, 0x2dce), (0x2dd0, 0x2dd6), (0x2dd8, 0x2dde), (0x2e2f, 0x2e2f),
      (0x3005, 0x3006), (0x3031, 0x3035), (0x303b, 0x303c), (0x3041, 0x3096), (0x309d, 0x309f), (0x30a1, 0x30fa),
      (0x30fc, 0x30ff), (0x3105, 0x312f), (0x3131, 0x318e), (0x31a0, 0x31bf), (0x31f0, 0x31ff), (0x3400, 0x4dbf),
      (0x4e00, 0xa48c), (0xa4d0, 0xa4fd), (0xa500, 0xa60c), (0xa610, 0xa62b), (0xa640, 0xa66e), (0xa67f, 0xa69d),
      (0xa6a0, 0xa6e5), (0xa717, 0xa71f), (0xa722, 0xa788), (0xa78b, 0xa7ca), (0xa7d0, 0xa7d1), (0xa7d3, 0xa7d3),
      (0xa7d5, 0xa7d9), (0xa7f2, 0xa801), (0xa803, 0xa805), (0xa807, 0xa80a), (0xa80c, 0xa822), (0xa840, 0xa873),
      (0xa882, 0xa8b3), (0xa8d0, 0xa8d9), (0xa8f2, 0xa8f7), (0xa8fb, 0xa8fb), (0xa8fd, 0xa8fe), (0xa900, 0xa925),
      (0xa930, 0xa946), (0xa960, 0xa97c), (0xa984, 0xa9b2), (0xa9cf, 0xa9d9), (0xa9e0, 0xa9e4), (0xa9e6, 0xa9fe),
      (0xaa00, 0xaa28), (0xaa40, 0xaa42), (0xaa44, 0xaa4b), (0xaa50, 0xaa59), (0xaa60, 0xaa76), (0xaa7a, 0xaa7a),
      (0xaa7e, 0xaaaf), (0xaab1, 0xaab1), (0xaab5, 0xaab6), (0xaab9, 0xaabd), (0xaac0, 0xaac0), (0xaac2, 0xaac2),
      (0xaadb, 0xaadd), (0xaae0, 0xaaea), (0xaaf2, 0xaaf4), (0xab01, 0xab06), (0xab09, 0xab0e), (0xab11, 0xab16),
      (0xab20, 0xab26), (0xab28, 0xab2e), (0xab30, 0xab5a), (0xab5c, 0xab69), (0xab70, 0xabe2), (0xabf0, 0xabf9),
      (0xac00, 0xd7a3), (0xd7b0, 0xd7c6), (0xd7cb, 0xd7fb), (0xf900, 0xfa6d), (0xfa70, 0xfad9), (0xfb00, 0xfb06),
      (0xfb13, 0xfb17), (0xfb1d, 0xfb1d), (0xfb1f, 0xfb28), (0xfb2a, 0xfb36), (0xfb38, 0xfb3c), (0xfb3e, 0xfb3e),
      (0xfb40, 0xfb41), (0xfb43, 0xfb44), (0xfb46, 0xfbb1), (0xfbd3, 0xfd3d), (0xfd50, 0xfd8f), (0xfd92, 0xfdc7),
      (0xfdf0, 0xfdfb), (0xfe70, 0xfe74), (0xfe76, 0xfefc), (0xff10, 0xff19), (0xff21, 0xff3a), (0xff41, 0xff5a),
      (0xff66, 0xffbe), (0xffc2, 0xffc7), (0xffca, 0xffcf), (0xffd2, 0xffd7), (0xffda, 0xffdc), (0x10000, 0x1000b),
      (0x1000d, 0x10026), (0x10028, 0x1003a), (0x1003c, 0x1003d), (0x1003f, 0x1004d), (0x10050, 0x1005d),
      (0x10080, 0x100fa), (0x10280, 0x1029c), (0x102a0, 0x102d0), (0x10300, 0x1031f), (0x1032d, 0x10340),
      (0x10342, 0x10349), (0x10350, 0x10375), (0x10380, 0x1039d), (0x103a0, 0x103c3), (0x103c8, 0x103cf),
      (0x10400, 0x1049d), (0x104a0, 0x104a9), (0x104b0, 0x104d3), (0x104d8, 0x104fb), (0x10500, 0x10527),
      (0x10530, 0x10563), (0x10570, 0x1057a), (0x1057c, 0x1058a), (0x1058c, 0x10592), (0x10594, 0x10595),
      (0x10597, 0x105a1), (0x105a3, 0x105b1), (0x105b3, 0x105b9), (0x105bb, 0x105bc), (0x10600, 0x10736),
      (0x10740, 0x10755), (0x10760, 0x10767), (0x10780, 0x10785), (0x10787, 0x107b0), (0x107b2, 0x107ba),
      (0x10800, 0x10805), (0x10808, 0x10808), (0x1080a, 0x10835), (0x10837, 0x10838), (0x1083c, 0x1083c),
      (0x1083f, 0x10855), (0x10860, 0x10876), (0x10880, 0x1089e), (0x108e0, 0x108f2), (0x108f4, 0x108f5),
      (0x10900, 0x10915), (0x10920, 0x10939), (0x10980, 0x109b7)]"

definition WORD_CHAR_RANGES_4 :: "(u32 \<times> u32) list" where
  "WORD_CHAR_RANGES_4 =
     [(0x109be, 0x109bf), (0x10a00, 0x10a00), (0x10a10, 0x10a13), (0x10a15, 0x10a17), (0x10a19, 0x10a35),
      (0x10a60, 0x10a7c), (0x10a80, 0x10a9c), (0x10ac0, 0x10ac7), (0x10ac9, 0x10ae4), (0x10b00, 0x10b35),
      (0x10b40, 0x10b55), (0x10b60, 0x10b72), (0x10b80, 0x10b91), (0x10c00, 0x10c48), (0x10c80, 0x10cb2),
      (0x10cc0, 0x10cf2), (0x10d00, 0x10d23), (0x10d30, 0x10d39), (0x10e80, 0x10ea9), (0x10eb0, 0x10eb1),
      (0x10f00, 0x10f1c), (0x10f27, 0x10f27), (0x10f30, 0x10f45), (0x10f70, 0x10f81), (0x10fb0, 0x10fc4),
      (0x10fe0, 0x10ff6), (0x11003, 0x11037), (0x11066, 0x1106f), (0x11071, 0x11072), (0x11075, 0x11075),
      (0x11083, 0x110af), (0x110d0, 0x110e8), (0x110f0, 0x110f9), (0x11103, 0x11126), (0x11136, 0x1113f),
      (0x11144, 0x11144), (0x11147, 0x11147), (0x11150, 0x11172), (0x11176, 0x11176), (0x11183, 0x111b2),
      (0x111c1, 0x111c4), (0x111d0, 0x111da), (0x111dc, 0x111dc), (0x11200, 0x11211), (0x11213, 0x1122b),
      (0x1123f, 0x11240), (0x11280, 0x11286), (0x11288, 0x11288), (0x1128a, 0x1128d), (0x1128f, 0x1129d),
      (0x1129f, 0x112a8), (0x112b0, 0x112de), (0x112f0, 0x112f9), (0x11305, 0x1130c), (0x1130f, 0x11310),
      (0x11313, 0x11328), (0x1132a, 0x11330), (0x11332, 0x11333), (0x11335, 0x11339), (0x1133d, 0x1133d),
      (0x11350, 0x11350), (0x1135d, 0x11361), (0x11400, 0x11434), (0x11447, 0x1144a), (0x11450, 0x11459),
      (0x1145f, 0x11461), (0x11480, 0x114af), (0x114c4, 0x114c5), (0x114c7, 0x114c7), (0x114d0, 0x114d9),
      (0x11580, 0x115ae), (0x115d8, 0x115db), (0x11600, 0x1162f), (0x11644, 0x11644), (0x11650, 0x11659),
      (0x11680, 0x116aa), (0x116b8, 0x116b8), (0x116c0, 0x116c9), (0x11700, 0x1171a), (0x11730, 0x11739),
      (0x11740, 0x11746), (0x11800, 0x1182b), (0x118a0, 0x118e9), (0x118ff, 0x11906), (0x11909, 0x11909),
      (0x1190c, 0x11913), (0x11915, 0x11916), (0x11918, 0x1192f), (0x1193f, 0x1193f), (0x11941, 0x11941),
      (0x11950, 0x11959), (0x119a0, 0x119a7), (0x119aa, 0x119d0), (0x119e1, 0x119e1), (0x119e3, 0x119e3),
      (0x11a00, 0x11a00), (0x11a0b, 0x11a32), (0x11a3a, 0x11a3a), (0x11a50, 0x11a50), (0x11a5c, 0x11a89),
      (0x11a9d, 0x11a9d), (0x11ab0, 0x11af8), (0x11c00, 0x11c08), (0x11c0a, 0x11c2e), (0x11c40, 0x11c40),
      (0x11c50, 0x11c59), (0x11c72, 0x11c8f), (0x11d00, 0x11d06), (0x11d08, 0x11d09), (0x11d0b, 0x11d30),
      (0x11d46, 0x11d46), (0x11d50, 0x11d59), (0x11d60, 0x11d65), (0x11d67, 0x11d68), (0x11d6a, 0x11d89),
      (0x11d98, 0x11d98), (0x11da0, 0x11da9), (0x11ee0, 0x11ef2), (0x11f02, 0x11f02), (0x11f04, 0x11f10),
      (0x11f12, 0x11f33), (0x11f50, 0x11f59), (0x11fb0, 0x11fb0), (0x12000, 0x12399), (0x12480, 0x12543),
      (0x12f90, 0x12ff0), (0x13000, 0x1342f), (0x13441, 0x13446), (0x14400, 0x14646), (0x16800, 0x16a38),
      (0x16a40, 0x16a5e), (0x16a60, 0x16a69), (0x16a70, 0x16abe), (0x16ac0, 0x16ac9), (0x16ad0, 0x16aed),
      (0x16b00, 0x16b2f), (0x16b40, 0x16b43), (0x16b50, 0x16b59), (0x16b63, 0x16b77), (0x16b7d, 0x16b8f),
      (0x16e40, 0x16e7f), (0x16f00, 0x16f4a), (0x16f50, 0x16f50), (0x16f93, 0x16f9f), (0x16fe0, 0x16fe1),
      (0x16fe3, 0x16fe3), (0x17000, 0x187f7), (0x18800, 0x18cd5), (0x18d00, 0x18d08), (0x1aff0, 0x1aff3)]"

definition WORD_CHAR_RANGES_5 :: "(u32 \<times> u32) list" where
  "WORD_CHAR_RANGES_5 =
     [(0x1aff5, 0x1affb), (0x1affd, 0x1affe), (0x1b000, 0x1b122), (0x1b132, 0x1b132), (0x1b150, 0x1b152),
      (0x1b155, 0x1b155), (0x1b164, 0x1b167), (0x1b170, 0x1b2fb), (0x1bc00, 0x1bc6a), (0x1bc70, 0x1bc7c),
      (0x1bc80, 0x1bc88), (0x1bc90, 0x1bc99), (0x1d400, 0x1d454), (0x1d456, 0x1d49c), (0x1d49e, 0x1d49f),
      (0x1d4a2, 0x1d4a2), (0x1d4a5, 0x1d4a6), (0x1d4a9, 0x1d4ac), (0x1d4ae, 0x1d4b9), (0x1d4bb, 0x1d4bb),
      (0x1d4bd, 0x1d4c3), (0x1d4c5, 0x1d505), (0x1d507, 0x1d50a), (0x1d50d, 0x1d514), (0x1d516, 0x1d51c),
      (0x1d51e, 0x1d539), (0x1d53b, 0x1d53e), (0x1d540, 0x1d544), (0x1d546, 0x1d546), (0x1d54a, 0x1d550),
      (0x1d552, 0x1d6a5), (0x1d6a8, 0x1d6c0), (0x1d6c2, 0x1d6da), (0x1d6dc, 0x1d6fa), (0x1d6fc, 0x1d714),
      (0x1d716, 0x1d734), (0x1d736, 0x1d74e), (0x1d750, 0x1d76e), (0x1d770, 0x1d788), (0x1d78a, 0x1d7a8),
      (0x1d7aa, 0x1d7c2), (0x1d7c4, 0x1d7cb), (0x1d7ce, 0x1d7ff), (0x1df00, 0x1df1e), (0x1df25, 0x1df2a),
      (0x1e030, 0x1e06d), (0x1e100, 0x1e12c), (0x1e137, 0x1e13d), (0x1e140, 0x1e149), (0x1e14e, 0x1e14e),
      (0x1e290, 0x1e2ad), (0x1e2c0, 0x1e2eb), (0x1e2f0, 0x1e2f9), (0x1e4d0, 0x1e4eb), (0x1e4f0, 0x1e4f9),
      (0x1e7e0, 0x1e7e6), (0x1e7e8, 0x1e7eb), (0x1e7ed, 0x1e7ee), (0x1e7f0, 0x1e7fe), (0x1e800, 0x1e8c4),
      (0x1e900, 0x1e943), (0x1e94b, 0x1e94b), (0x1e950, 0x1e959), (0x1ee00, 0x1ee03), (0x1ee05, 0x1ee1f),
      (0x1ee21, 0x1ee22), (0x1ee24, 0x1ee24), (0x1ee27, 0x1ee27), (0x1ee29, 0x1ee32), (0x1ee34, 0x1ee37),
      (0x1ee39, 0x1ee39), (0x1ee3b, 0x1ee3b), (0x1ee42, 0x1ee42), (0x1ee47, 0x1ee47), (0x1ee49, 0x1ee49),
      (0x1ee4b, 0x1ee4b), (0x1ee4d, 0x1ee4f), (0x1ee51, 0x1ee52), (0x1ee54, 0x1ee54), (0x1ee57, 0x1ee57),
      (0x1ee59, 0x1ee59), (0x1ee5b, 0x1ee5b), (0x1ee5d, 0x1ee5d), (0x1ee5f, 0x1ee5f), (0x1ee61, 0x1ee62),
      (0x1ee64, 0x1ee64), (0x1ee67, 0x1ee6a), (0x1ee6c, 0x1ee72), (0x1ee74, 0x1ee77), (0x1ee79, 0x1ee7c),
      (0x1ee7e, 0x1ee7e), (0x1ee80, 0x1ee89), (0x1ee8b, 0x1ee9b), (0x1eea1, 0x1eea3), (0x1eea5, 0x1eea9),
      (0x1eeab, 0x1eebb), (0x1fbf0, 0x1fbf9), (0x20000, 0x2a6df), (0x2a700, 0x2b739), (0x2b740, 0x2b81d),
      (0x2b820, 0x2cea1), (0x2ceb0, 0x2ebe0), (0x2f800, 0x2fa1d), (0x30000, 0x3134a), (0x31350, 0x323af)]"

definition WORD_CHAR_RANGES :: "(u32 \<times> u32) list" where
  "WORD_CHAR_RANGES =
     WORD_CHAR_RANGES_1 @ WORD_CHAR_RANGES_2 @ WORD_CHAR_RANGES_3 @ WORD_CHAR_RANGES_4 @ WORD_CHAR_RANGES_5"

definition LOWER_MAP_1 :: "(u32 \<times> u32) list" where
  "LOWER_MAP_1 =
     [(0x41, 0x61), (0x42, 0x62), (0x43, 0x63), (0x44, 0x64), (0x45, 0x65), (0x46, 0x66), (0x47, 0x67), (0x48, 0x68),
      (0x49, 0x69), (0x4a, 0x6a), (0x4b, 0x6b), (0x4c, 0x6c), (0x4d, 0x6d), (0x4e, 0x6e), (0x4f, 0x6f), (0x50, 0x70),
      (0x51, 0x71), (0x52, 0x72), (0x53, 0x73), (0x54, 0x74), (0x55, 0x75), (0x56, 0x76), (0x57, 0x77), (0x58, 0x78),
      (0x59, 0x79), (0x5a, 0x7a), (0xc0, 0xe0), (0xc1, 0xe1), (0xc2, 0xe2), (0xc3, 0xe3), (0xc4, 0xe4), (0xc5, 0xe5),
      (0xc6, 0xe6), (0xc7, 0xe7), (0xc8, 0xe8), (0xc9, 0xe9), (0xca, 0xea), (0xcb, 0xeb), (0xcc, 0xec), (0xcd, 0xed),
      (0xce, 0xee), (0xcf, 0xef), (0xd0, 0xf0), (0xd1, 0xf1), (0xd2, 0xf2), (0xd3, 0xf3), (0xd4, 0xf4), (0xd5, 0xf5),
      (0xd6, 0xf6), (0xd8, 0xf8), (0xd9, 0xf9), (0xda, 0xfa), (0xdb, 0xfb), (0xdc, 0xfc), (0xdd, 0xfd), (0xde, 0xfe),
      (0x100, 0x101), (0x102, 0x103), (0x104, 0x105), (0x106, 0x107), (0x108, 0x109), (0x10a, 0x10b), (0x10c, 0x10d),
      (0x10e, 0x10f), (0x110, 0x111), (0x112, 0x113), (0x114, 0x115), (0x116, 0x117), (0x118, 0x119), (0x11a, 0x11b),
      (0x11c, 0x11d), (0x11e, 0x11f), (0x120, 0x121), (0x122, 0x123), (0x124, 0x125), (0x126, 0x127), (0x128, 0x129),
      (0x12a, 0x12b), (0x12c, 0x12d), (0x12e, 0x12f), (0x130, 0x69), (0x132, 0x133), (0x134, 0x135), (0x136, 0x137),
      (0x139, 0x13a), (0x13b, 0x13c), (0x13d, 0x13e), (0x13f, 0x140), (0x141, 0x142), (0x143, 0x144), (0x145, 0x146),
      (0x147, 0x148), (0x14a, 0x14b), (0x14c, 0x14d), (0x14e, 0x14f), (0x150, 0x151), (0x152, 0x153), (0x154, 0x155),
      (0x156, 0x157), (0x158, 0x159), (0x15a, 0x15b), (0x15c, 0x15d), (0x15e, 0x15f), (0x160, 0x161), (0x162, 0x163),
      (0x164, 0x165), (0x166, 0x167), (0x168, 0x169), (0x16a, 0x16b), (0x16c, 0x16d), (0x16e, 0x16f), (0x170, 0x171),
      (0x172, 0x173), (0x174, 0x175), (0x176, 0x177), (0x178, 0xff), (0x179, 0x17a), (0x17b, 0x17c), (0x17d, 0x17e),
      (0x181, 0x253), (0x182, 0x183), (0x184, 0x185), (0x186, 0x254), (0x187, 0x188), (0x189, 0x256), (0x18a, 0x257),
      (0x18b, 0x18c), (0x18e, 0x1dd), (0x18f, 0x259), (0x190, 0x25b), (0x191, 0x192), (0x193, 0x260), (0x194, 0x263),
      (0x196, 0x269), (0x197, 0x268), (0x198, 0x199), (0x19c, 0x26f), (0x19d, 0x272), (0x19f, 0x275), (0x1a0, 0x1a1),
      (0x1a2, 0x1a3), (0x1a4, 0x1a5), (0x1a6, 0x280), (0x1a7, 0x1a8), (0x1a9, 0x283), (0x1ac, 0x1ad), (0x1ae, 0x288),
      (0x1af, 0x1b0), (0x1b1, 0x28a), (0x1b2, 0x28b)]"

definition LOWER_MAP_2 :: "(u32 \<times> u32) list" where
  "LOWER_MAP_2 =
     [(0x1b3, 0x1b4), (0x1b5, 0x1b6), (0x1b7, 0x292), (0x1b8, 0x1b9), (0x1bc, 0x1bd), (0x1c4, 0x1c6), (0x1c5, 0x1c6),
      (0x1c7, 0x1c9), (0x1c8, 0x1c9), (0x1ca, 0x1cc), (0x1cb, 0x1cc), (0x1cd, 0x1ce), (0x1cf, 0x1d0), (0x1d1, 0x1d2),
      (0x1d3, 0x1d4), (0x1d5, 0x1d6), (0x1d7, 0x1d8), (0x1d9, 0x1da), (0x1db, 0x1dc), (0x1de, 0x1df), (0x1e0, 0x1e1),
      (0x1e2, 0x1e3), (0x1e4, 0x1e5), (0x1e6, 0x1e7), (0x1e8, 0x1e9), (0x1ea, 0x1eb), (0x1ec, 0x1ed), (0x1ee, 0x1ef),
      (0x1f1, 0x1f3), (0x1f2, 0x1f3), (0x1f4, 0x1f5), (0x1f6, 0x195), (0x1f7, 0x1bf), (0x1f8, 0x1f9), (0x1fa, 0x1fb),
      (0x1fc, 0x1fd), (0x1fe, 0x1ff), (0x200, 0x201), (0x202, 0x203), (0x204, 0x205), (0x206, 0x207), (0x208, 0x209),
      (0x20a, 0x20b), (0x20c, 0x20d), (0x20e, 0x20f), (0x210, 0x211), (0x212, 0x213), (0x214, 0x215), (0x216, 0x217),
      (0x218, 0x219), (0x21a, 0x21b), (0x21c, 0x21d), (0x21e, 0x21f), (0x220, 0x19e), (0x222, 0x223), (0x224, 0x225),
      (0x226, 0x227), (0x228, 0x229), (0x22a, 0x22b), (0x22c, 0x22d), (0x22e, 0x22f), (0x230, 0x231), (0x232, 0x233),
      (0x23a, 0x2c65), (0x23b, 0x23c), (0x23d, 0x19a), (0x23e, 0x2c66), (0x241, 0x242), (0x243, 0x180), (0x244, 0x289),
      (0x245, 0x28c), (0x246, 0x247), (0x248, 0x249), (0x24a, 0x24b), (0x24c, 0x24d), (0x24e, 0x24f), (0x370, 0x371),
      (0x372, 0x373), (0x376, 0x377), (0x37f, 0x3f3), (0x386, 0x3ac), (0x388, 0x3ad), (0x389, 0x3ae), (0x38a, 0x3af),
      (0x38c, 0x3cc), (0x38e, 0x3cd), (0x38f, 0x3ce), (0x391, 0x3b1), (0x392, 0x3b2), (0x393, 0x3b3), (0x394, 0x3b4),
      (0x395, 0x3b5), (0x396, 0x3b6), (0x397, 0x3b7), (0x398, 0x3b8), (0x399, 0x3b9), (0x39a, 0x3ba), (0x39b, 0x3bb),
      (0x39c, 0x3bc), (0x39d, 0x3bd), (0x39e, 0x3be), (0x39f, 0x3bf), (0x3a0, 0x3c0), (0x3a1, 0x3c1), (0x3a3, 0x3c3),
      (0x3a4, 0x3c4), (0x3a5, 0x3c5), (0x3a6, 0x3c6), (0x3a7, 0x3c7), (0x3a8, 0x3c8), (0x3a9, 0x3c9), (0x3aa, 0x3ca),
      (0x3ab, 0x3cb), (0x3cf, 0x3d7), (0x3d8, 0x3d9), (0x3da, 0x3db), (0x3dc, 0x3dd), (0x3de, 0x3df), (0x3e0, 0x3e1),
      (0x3e2, 0x3e3), (0x3e4, 0x3e5), (0x3e6, 0x3e7), (0x3e8, 0x3e9), (0x3ea, 0x3eb), (0x3ec, 0x3ed), (0x3ee, 0x3ef),
      (0x3f4, 0x3b8), (0x3f7, 0x3f8), (0x3f9, 0x3f2), (0x3fa, 0x3fb), (0x3fd, 0x37b), (0x3fe, 0x37c), (0x3ff, 0x37d),
      (0x400, 0x450), (0x401, 0x451), (0x402, 0x452), (0x403, 0x453), (0x404, 0x454), (0x405, 0x455), (0x406, 0x456),
      (0x407, 0x457), (0x408, 0x458), (0x409, 0x459), (0x40a, 0x45a), (0x40b, 0x45b), (0x40c, 0x45c), (0x40d, 0x45d),
      (0x40e, 0x45e), (0x40f, 0x45f), (0x410, 0x430)]"

definition LOWER_MAP_3 :: "(u32 \<times> u32) list" where
  "LOWER_MAP_3 =
     [(0x411, 0x431), (0x412, 0x432), (0x413, 0x433), (0x414, 0x434), (0x415, 0x435), (0x416, 0x436), (0x417, 0x437),
      (0x418, 0x438), (0x419, 0x439), (0x41a, 0x43a), (0x41b, 0x43b), (0x41c, 0x43c), (0x41d, 0x43d), (0x41e, 0x43e),
      (0x41f, 0x43f), (0x420, 0x440), (0x421, 0x441), (0x422, 0x442), (0x423, 0x443), (0x424, 0x444), (0x425, 0x445),
      (0x426, 0x446), (0x427, 0x447), (0x428, 0x448), (0x429, 0x449), (0x42a, 0x44a), (0x42b, 0x44b), (0x42c, 0x44c),
      (0x42d, 0x44d), (0x42e, 0x44e), (0x42f, 0x44f), (0x460, 0x461), (0x462, 0x463), (0x464, 0x465), (0x466, 0x467),
      (0x468, 0x469), (0x46a, 0x46b), (0x46c, 0x46d), (0x46e, 0x46f), (0x470, 0x471), (0x472, 0x473), (0x474, 0x475),
      (0x476, 0x477), (0x478, 0x479), (0x47a, 0x47b), (0x47c, 0x47d), (0x47e, 0x47f), (0x480, 0x481), (0x48a, 0x48b),
      (0x48c, 0x48d), (0x48e, 0x48f), (0x490, 0x491), (0x492, 0x493), (0x494, 0x495), (0x496, 0x497), (0x498, 0x499),
      (0x49a, 0x49b), (0x49c, 0x49d), (0x49e, 0x49f), (0x4a0, 0x4a1), (0x4a2, 0x4a3), (0x4a4, 0x4a5), (0x4a6, 0x4a7),
      (0x4a8, 0x4a9), (0x4aa, 0x4ab), (0x4ac, 0x4ad), (0x4ae, 0x4af), (0x4b0, 0x4b1), (0x4b2, 0x4b3), (0x4b4, 0x4b5),
      (0x4b6, 0x4b7), (0x4b8, 0x4b9), (0x4ba, 0x4bb), (0x4bc, 0x4bd), (0x4be, 0x4bf), (0x4c0, 0x4cf), (0x4c1, 0x4c2),
      (0x4c3, 0x4c4), (0x4c5, 0x4c6), (0x4c7, 0x4c8), (0x4c9, 0x4ca), (0x4cb, 0x4cc), (0x4cd, 0x4ce), (0x4d0, 0x4d1),
      (0x4d2, 0x4d3), (0x4d4, 0x4d5), (0x4d6, 0x4d7), (0x4d8, 0x4d9), (0x4da, 0x4db), (0x4dc, 0x4dd), (0x4de, 0x4df),
      (0x4e0, 0x4e1), (0x4e2, 0x4e3), (0x4e4, 0x4e5), (0x4e6, 0x4e7), (0x4e8, 0x4e9), (0x4ea, 0x4eb), (0x4ec, 0x4ed),
      (0x4ee, 0x4ef), (0x4f0, 0x4f1), (0x4f2, 0x4f3), (0x4f4, 0x4f5), (0x4f6, 0x4f7), (0x4f8, 0x4f9), (0x4fa, 0x4fb),
      (0x4fc, 0x4fd), (0x4fe, 0x4ff), (0x500, 0x501), (0x502, 0x503), (0x504, 0x505), (0x506, 0x507), (0x508, 0x509),
      (0x50a, 0x50b), (0x50c, 0x50d), (0x50e, 0x50f), (0x510, 0x511), (0x512, 0x513), (0x514, 0x515), (0x516, 0x517),
      (0x518, 0x519), (0x51a, 0x51b), (0x51c, 0x51d), (0x51e, 0x51f), (0x520, 0x521), (0x522, 0x523), (0x524, 0x525),
      (0x526, 0x527), (0x528, 0x529), (0x52a, 0x52b), (0x52c, 0x52d), (0x52e, 0x52f), (0x531, 0x561), (0x532, 0x562),
      (0x533, 0x563), (0x534, 0x564), (0x535, 0x565), (0x536, 0x566), (0x537, 0x567), (0x538, 0x568), (0x539, 0x569),
      (0x53a, 0x56a), (0x53b, 0x56b), (0x53c, 0x56c), (0x53d, 0x56d), (0x53e, 0x56e), (0x53f, 0x56f), (0x540, 0x570),
      (0x541, 0x571), (0x542, 0x572), (0x543, 0x573)]"

definition LOWER_MAP_4 :: "(u32 \<times> u32) list" where
  "LOWER_MAP_4 =
     [(0x544, 0x574), (0x545, 0x575), (0x546, 0x576), (0x547, 0x577), (0x548, 0x578), (0x549, 0x579), (0x54a, 0x57a),
      (0x54b, 0x57b), (0x54c, 0x57c), (0x54d, 0x57d), (0x54e, 0x57e), (0x54f, 0x57f), (0x550, 0x580), (0x551, 0x581),
      (0x552, 0x582), (0x553, 0x583), (0x554, 0x584), (0x555, 0x585), (0x556, 0x586), (0x10a0, 0x2d00),
      (0x10a1, 0x2d01), (0x10a2, 0x2d02), (0x10a3, 0x2d03), (0x10a4, 0x2d04), (0x10a5, 0x2d05), (0x10a6, 0x2d06),
      (0x10a7, 0x2d07), (0x10a8, 0x2d08), (0x10a9, 0x2d09), (0x10aa, 0x2d0a), (0x10ab, 0x2d0b), (0x10ac, 0x2d0c),
      (0x10ad, 0x2d0d), (0x10ae, 0x2d0e), (0x10af, 0x2d0f), (0x10b0, 0x2d10), (0x10b1, 0x2d11), (0x10b2, 0x2d12),
      (0x10b3, 0x2d13), (0x10b4, 0x2d14), (0x10b5, 0x2d15), (0x10b6, 0x2d16), (0x10b7, 0x2d17), (0x10b8, 0x2d18),
      (0x10b9, 0x2d19), (0x10ba, 0x2d1a), (0x10bb, 0x2d1b), (0x10bc, 0x2d1c), (0x10bd, 0x2d1d), (0x10be, 0x2d1e),
      (0x10bf, 0x2d1f), (0x10c0, 0x2d20), (0x10c1, 0x2d21), (0x10c2, 0x2d22), (0x10c3, 0x2d23), (0x10c4, 0x2d24),
      (0x10c5, 0x2d25), (0x10c7, 0x2d27), (0x10cd, 0x2d2d), (0x13a0, 0xab70), (0x13a1, 0xab71), (0x13a2, 0xab72),
      (0x13a3, 0xab73), (0x13a4, 0xab74), (0x13a5, 0xab75), (0x13a6, 0xab76), (0x13a7, 0xab77), (0x13a8, 0xab78),
      (0x13a9, 0xab79), (0x13aa, 0xab7a), (0x13ab, 0xab7b), (0x13ac, 0xab7c), (0x13ad, 0xab7d), (0x13ae, 0xab7e),
      (0x13af, 0xab7f), (0x13b0, 0xab80), (0x13b1, 0xab81), (0x13b2, 0xab82), (0x13b3, 0xab83), (0x13b4, 0xab84),
      (0x13b5, 0xab85), (0x13b6, 0xab86), (0x13b7, 0xab87), (0x13b8, 0xab88), (0x13b9, 0xab89), (0x13ba, 0xab8a),
      (0x13bb, 0xab8b), (0x13bc, 0xab8c), (0x13bd, 0xab8d), (0x13be, 0xab8e), (0x13bf, 0xab8f), (0x13c0, 0xab90),
      (0x13c1, 0xab91), (0x13c2, 0xab92), (0x13c3, 0xab93), (0x13c4, 0xab94), (0x13c5, 0xab95), (0x13c6, 0xab96),
      (0x13c7, 0xab97), (0x13c8, 0xab98), (0x13c9, 0xab99), (0x13ca, 0xab9a), (0x13cb, 0xab9b), (0x13cc, 0xab9c),
      (0x13cd, 0xab9d), (0x13ce, 0xab9e), (0x13cf, 0xab9f), (0x13d0, 0xaba0), (0x13d1, 0xaba1), (0x13d2, 0xaba2),
      (0x13d3, 0xaba3), (0x13d4, 0xaba4), (0x13d5, 0xaba5), (0x13d6, 0xaba6), (0x13d7, 0xaba7), (0x13d8, 0xaba8),
      (0x13d9, 0xaba9), (0x13da, 0xabaa), (0x13db, 0xabab), (0x13dc, 0xabac), (0x13dd, 0xabad), (0x13de, 0xabae),
      (0x13df, 0xabaf), (0x13e0, 0xabb0), (0x13e1, 0xabb1), (0x13e2, 0xabb2), (0x13e3, 0xabb3), (0x13e4, 0xabb4),
      (0x13e5, 0xabb5), (0x13e6, 0xabb6), (0x13e7, 0xabb7), (0x13e8, 0xabb8), (0x13e9, 0xabb9), (0x13ea, 0xabba),
      (0x13eb, 0xabbb), (0x13ec, 0xabbc), (0x13ed, 0xabbd), (0x13ee, 0xabbe), (0x13ef, 0xabbf), (0x13f0, 0x13f8),
      (0x13f1, 0x13f9), (0x13f2, 0x13fa), (0x13f3, 0x13fb), (0x13f4, 0x13fc), (0x13f5, 0x13fd), (0x1c90, 0x10d0),
      (0x1c91, 0x10d1), (0x1c92, 0x10d2), (0x1c93, 0x10d3), (0x1c94, 0x10d4)]"

definition LOWER_MAP_5 :: "(u32 \<times> u32) list" where
  "LOWER_MAP_5 =
     [(0x1c95, 0x10d5), (0x1c96, 0x10d6), (0x1c97, 0x10d7), (0x1c98, 0x10d8), (0x1c99, 0x10d9), (0x1c9a, 0x10da),
      (0x1c9b, 0x10db), (0x1c9c, 0x10dc), (0x1c9d, 0x10dd), (0x1c9e, 0x10de), (0x1c9f, 0x10df), (0x1ca0, 0x10e0),
      (0x1ca1, 0x10e1), (0x1ca2, 0x10e2), (0x1ca3, 0x10e3), (0x1ca4, 0x10e4), (0x1ca5, 0x10e5), (0x1ca6, 0x10e6),
      (0x1ca7, 0x10e7), (0x1ca8, 0x10e8), (0x1ca9, 0x10e9), (0x1caa, 0x10ea), (0x1cab, 0x10eb), (0x1cac, 0x10ec),
      (0x1cad, 0x10ed), (0x1cae, 0x10ee), (0x1caf, 0x10ef), (0x1cb0, 0x10f0), (0x1cb1, 0x10f1), (0x1cb2, 0x10f2),
      (0x1cb3, 0x10f3), (0x1cb4, 0x10f4), (0x1cb5, 0x10f5), (0x1cb6, 0x10f6), (0x1cb7, 0x10f7), (0x1cb8, 0x10f8),
      (0x1cb9, 0x10f9), (0x1cba, 0x10fa), (0x1cbd, 0x10fd), (0x1cbe, 0x10fe), (0x1cbf, 0x10ff), (0x1e00, 0x1e01),
      (0x1e02, 0x1e03), (0x1e04, 0x1e05), (0x1e06, 0x1e07), (0x1e08, 0x1e09), (0x1e0a, 0x1e0b), (0x1e0c, 0x1e0d),
      (0x1e0e, 0x1e0f), (0x1e10, 0x1e11), (0x1e12, 0x1e13), (0x1e14, 0x1e15), (0x1e16, 0x1e17), (0x1e18, 0x1e19),
      (0x1e1a, 0x1e1b), (0x1e1c, 0x1e1d), (0x1e1e, 0x1e1f), (0x1e20, 0x1e21), (0x1e22, 0x1e23), (0x1e24, 0x1e25),
      (0x1e26, 0x1e27), (0x1e28, 0x1e29), (0x1e2a, 0x1e2b), (0x1e2c, 0x1e2d), (0x1e2e, 0x1e2f), (0x1e30, 0x1e31),
      (0x1e32, 0x1e33), (0x1e34, 0x1e35), (0x1e36, 0x1e37), (0x1e38, 0x1e39), (0x1e3a, 0x1e3b), (0x1e3c, 0x1e3d),
      (0x1e3e, 0x1e3f), (0x1e40, 0x1e41), (0x1e42, 0x1e43), (0x1e44, 0x1e45), (0x1e46, 0x1e47), (0x1e48, 0x1e49),
      (0x1e4a, 0x1e4b), (0x1e4c, 0x1e4d), (0x1e4e, 0x1e4f), (0x1e50, 0x1e51), (0x1e52, 0x1e53), (0x1e54, 0x1e55),
      (0x1e56, 0x1e57), (0x1e58, 0x1e59), (0x1e5a, 0x1e5b), (0x1e5c, 0x1e5d), (0x1e5e, 0x1e5f), (0x1e60, 0x1e61),
      (0x1e62, 0x1e63), (0x1e64, 0x1e65), (0x1e66, 0x1e67), (0x1e68, 0x1e69), (0x1e6a, 0x1e6b), (0x1e6c, 0x1e6d),
      (0x1e6e, 0x1e6f), (0x1e70, 0x1e71), (0x1e72, 0x1e73), (0x1e74, 0x1e75), (0x1e76, 0x1e77), (0x1e78, 0x1e79),
      (0x1e7a, 0x1e7b), (0x1e7c, 0x1e7d), (0x1e7e, 0x1e7f), (0x1e80, 0x1e81), (0x1e82, 0x1e83), (0x1e84, 0x1e85),
      (0x1e86, 0x1e87), (0x1e88, 0x1e89), (0x1e8a, 0x1e8b), (0x1e8c, 0x1e8d), (0x1e8e, 0x1e8f), (0x1e90, 0x1e91),
      (0x1e92, 0x1e93), (0x1e94, 0x1e95), (0x1e9e, 0xdf), (0x1ea0, 0x1ea1), (0x1ea2, 0x1ea3), (0x1ea4, 0x1ea5),
      (0x1ea6, 0x1ea7), (0x1ea8, 0x1ea9), (0x1eaa, 0x1eab), (0x1eac, 0x1ead), (0x1eae, 0x1eaf), (0x1eb0, 0x1eb1),
      (0x1eb2, 0x1eb3), (0x1eb4, 0x1eb5), (0x1eb6, 0x1eb7), (0x1eb8, 0x1eb9), (0x1eba, 0x1ebb), (0x1ebc, 0x1ebd),
      (0x1ebe, 0x1ebf), (0x1ec0, 0x1ec1), (0x1ec2, 0x1ec3), (0x1ec4, 0x1ec5), (0x1ec6, 0x1ec7), (0x1ec8, 0x1ec9),
      (0x1eca, 0x1ecb), (0x1ecc, 0x1ecd), (0x1ece, 0x1ecf), (0x1ed0, 0x1ed1), (0x1ed2, 0x1ed3), (0x1ed4, 0x1ed5),
      (0x1ed6, 0x1ed7), (0x1ed8, 0x1ed9), (0x1eda, 0x1edb), (0x1edc, 0x1edd), (0x1ede, 0x1edf), (0x1ee0, 0x1ee1)]"

definition LOWER_MAP_6 :: "(u32 \<times> u32) list" where
  "LOWER_MAP_6 =
     [(0x1ee2, 0x1ee3), (0x1ee4, 0x1ee5), (0x1ee6, 0x1ee7), (0x1ee8, 0x1ee9), (0x1eea, 0x1eeb), (0x1eec, 0x1eed),
      (0x1eee, 0x1eef), (0x1ef0, 0x1ef1), (0x1ef2, 0x1ef3), (0x1ef4, 0x1ef5), (0x1ef6, 0x1ef7), (0x1ef8, 0x1ef9),
      (0x1efa, 0x1efb), (0x1efc, 0x1efd), (0x1efe, 0x1eff), (0x1f08, 0x1f00), (0x1f09, 0x1f01), (0x1f0a, 0x1f02),
      (0x1f0b, 0x1f03), (0x1f0c, 0x1f04), (0x1f0d, 0x1f05), (0x1f0e, 0x1f06), (0x1f0f, 0x1f07), (0x1f18, 0x1f10),
      (0x1f19, 0x1f11), (0x1f1a, 0x1f12), (0x1f1b, 0x1f13), (0x1f1c, 0x1f14), (0x1f1d, 0x1f15), (0x1f28, 0x1f20),
      (0x1f29, 0x1f21), (0x1f2a, 0x1f22), (0x1f2b, 0x1f23), (0x1f2c, 0x1f24), (0x1f2d, 0x1f25), (0x1f2e, 0x1f26),
      (0x1f2f, 0x1f27), (0x1f38, 0x1f30), (0x1f39, 0x1f31), (0x1f3a, 0x1f32), (0x1f3b, 0x1f33), (0x1f3c, 0x1f34),
      (0x1f3d, 0x1f35), (0x1f3e, 0x1f36), (0x1f3f, 0x1f37), (0x1f48, 0x1f40), (0x1f49, 0x1f41), (0x1f4a, 0x1f42),
      (0x1f4b, 0x1f43), (0x1f4c, 0x1f44), (0x1f4d, 0x1f45), (0x1f59, 0x1f51), (0x1f5b, 0x1f53), (0x1f5d, 0x1f55),
      (0x1f5f, 0x1f57), (0x1f68, 0x1f60), (0x1f69, 0x1f61), (0x1f6a, 0x1f62), (0x1f6b, 0x1f63), (0x1f6c, 0x1f64),
      (0x1f6d, 0x1f65), (0x1f6e, 0x1f66), (0x1f6f, 0x1f67), (0x1f88, 0x1f80), (0x1f89, 0x1f81), (0x1f8a, 0x1f82),
      (0x1f8b, 0x1f83), (0x1f8c, 0x1f84), (0x1f8d, 0x1f85), (0x1f8e, 0x1f86), (0x1f8f, 0x1f87), (0x1f98, 0x1f90),
      (0x1f99, 0x1f91), (0x1f9a, 0x1f92), (0x1f9b, 0x1f93), (0x1f9c, 0x1f94), (0x1f9d, 0x1f95), (0x1f9e, 0x1f96),
      (0x1f9f, 0x1f97), (0x1fa8, 0x1fa0), (0x1fa9, 0x1fa1), (0x1faa, 0x1fa2), (0x1fab, 0x1fa3), (0x1fac, 0x1fa4),
      (0x1fad, 0x1fa5), (0x1fae, 0x1fa6), (0x1faf, 0x1fa7), (0x1fb8, 0x1fb0), (0x1fb9, 0x1fb1), (0x1fba, 0x1f70),
      (0x1fbb, 0x1f71), (0x1fbc, 0x1fb3), (0x1fc8, 0x1f72), (0x1fc9, 0x1f73), (0x1fca, 0x1f74), (0x1fcb, 0x1f75),
      (0x1fcc, 0x1fc3), (0x1fd8, 0x1fd0), (0x1fd9, 0x1fd1), (0x1fda, 0x1f76), (0x1fdb, 0x1f77), (0x1fe8, 0x1fe0),
      (0x1fe9, 0x1fe1), (0x1fea, 0x1f7a), (0x1feb, 0x1f7b), (0x1fec, 0x1fe5), (0x1ff8, 0x1f78), (0x1ff9, 0x1f79),
      (0x1ffa, 0x1f7c), (0x1ffb, 0x1f7d), (0x1ffc, 0x1ff3), (0x2126, 0x3c9), (0x212a, 0x6b), (0x212b, 0xe5),
      (0x2132, 0x214e), (0x2160, 0x2170), (0x2161, 0x2171), (0x2162, 0x2172), (0x2163, 0x2173), (0x2164, 0x2174),
      (0x2165, 0x2175), (0x2166, 0x2176), (0x2167, 0x2177), (0x2168, 0x2178), (0x2169, 0x2179), (0x216a, 0x217a),
      (0x216b, 0x217b), (0x216c, 0x217c), (0x216d, 0x217d), (0x216e, 0x217e), (0x216f, 0x217f), (0x2183, 0x2184),
      (0x24b6, 0x24d0), (0x24b7, 0x24d1), (0x24b8, 0x24d2), (0x24b9, 0x24d3), (0x24ba, 0x24d4), (0x24bb, 0x24d5),
      (0x24bc, 0x24d6), (0x24bd, 0x24d7), (0x24be, 0x24d8), (0x24bf, 0x24d9), (0x24c0, 0x24da), (0x24c1, 0x24db),
      (0x24c2, 0x24dc), (0x24c3, 0x24dd), (0x24c4, 0x24de), (0x24c5, 0x24df), (0x24c6, 0x24e0), (0x24c7, 0x24e1)]"

definition LOWER_MAP_7 :: "(u32 \<times> u32) list" where
  "LOWER_MAP_7 =
     [(0x24c8, 0x24e2), (0x24c9, 0x24e3), (0x24ca, 0x24e4), (0x24cb, 0x24e5), (0x24cc, 0x24e6), (0x24cd, 0x24e7),
      (0x24ce, 0x24e8), (0x24cf, 0x24e9), (0x2c00, 0x2c30), (0x2c01, 0x2c31), (0x2c02, 0x2c32), (0x2c03, 0x2c33),
      (0x2c04, 0x2c34), (0x2c05, 0x2c35), (0x2c06, 0x2c36), (0x2c07, 0x2c37), (0x2c08, 0x2c38), (0x2c09, 0x2c39),
      (0x2c0a, 0x2c3a), (0x2c0b, 0x2c3b), (0x2c0c, 0x2c3c), (0x2c0d, 0x2c3d), (0x2c0e, 0x2c3e), (0x2c0f, 0x2c3f),
      (0x2c10, 0x2c40), (0x2c11, 0x2c41), (0x2c12, 0x2c42), (0x2c13, 0x2c43), (0x2c14, 0x2c44), (0x2c15, 0x2c45),
      (0x2c16, 0x2c46), (0x2c17, 0x2c47), (0x2c18, 0x2c48), (0x2c19, 0x2c49), (0x2c1a, 0x2c4a), (0x2c1b, 0x2c4b),
      (0x2c1c, 0x2c4c), (0x2c1d, 0x2c4d), (0x2c1e, 0x2c4e), (0x2c1f, 0x2c4f), (0x2c20, 0x2c50), (0x2c21, 0x2c51),
      (0x2c22, 0x2c52), (0x2c23, 0x2c53), (0x2c24, 0x2c54), (0x2c25, 0x2c55), (0x2c26, 0x2c56), (0x2c27, 0x2c57),
      (0x2c28, 0x2c58), (0x2c29, 0x2c59), (0x2c2a, 0x2c5a), (0x2c2b, 0x2c5b), (0x2c2c, 0x2c5c), (0x2c2d, 0x2c5d),
      (0x2c2e, 0x2c5e), (0x2c2f, 0x2c5f), (0x2c60, 0x2c61), (0x2c62, 0x26b), (0x2c63, 0x1d7d), (0x2c64, 0x27d),
      (0x2c67, 0x2c68), (0x2c69, 0x2c6a), (0x2c6b, 0x2c6c), (0x2c6d, 0x251), (0x2c6e, 0x271), (0x2c6f, 0x250),
      (0x2c70, 0x252), (0x2c72, 0x2c73), (0x2c75, 0x2c76), (0x2c7e, 0x23f), (0x2c7f, 0x240), (0x2c80, 0x2c81),
      (0x2c82, 0x2c83), (0x2c84, 0x2c85), (0x2c86, 0x2c87), (0x2c88, 0x2c89), (0x2c8a, 0x2c8b), (0x2c8c, 0x2c8d),
      (0x2c8e, 0x2c8f), (0x2c90, 0x2c91), (0x2c92, 0x2c93), (0x2c94, 0x2c95), (0x2c96, 0x2c97), (0x2c98, 0x2c99),
      (0x2c9a, 0x2c9b), (0x2c9c, 0x2c9d), (0x2c9e, 0x2c9f), (0x2ca0, 0x2ca1), (0x2ca2, 0x2ca3), (0x2ca4, 0x2ca5),
      (0x2ca6, 0x2ca7), (0x2ca8, 0x2ca9), (0x2caa, 0x2cab), (0x2cac, 0x2cad), (0x2cae, 0x2caf), (0x2cb0, 0x2cb1),
      (0x2cb2, 0x2cb3), (0x2cb4, 0x2cb5), (0x2cb6, 0x2cb7), (0x2cb8, 0x2cb9), (0x2cba, 0x2cbb), (0x2cbc, 0x2cbd),
      (0x2cbe, 0x2cbf), (0x2cc0, 0x2cc1), (0x2cc2, 0x2cc3), (0x2cc4, 0x2cc5), (0x2cc6, 0x2cc7), (0x2cc8, 0x2cc9),
      (0x2cca, 0x2ccb), (0x2ccc, 0x2ccd), (0x2cce, 0x2ccf), (0x2cd0, 0x2cd1), (0x2cd2, 0x2cd3), (0x2cd4, 0x2cd5),
      (0x2cd6, 0x2cd7), (0x2cd8, 0x2cd9), (0x2cda, 0x2cdb), (0x2cdc, 0x2cdd), (0x2cde, 0x2cdf), (0x2ce0, 0x2ce1),
      (0x2ce2, 0x2ce3), (0x2ceb, 0x2cec), (0x2ced, 0x2cee), (0x2cf2, 0x2cf3), (0xa640, 0xa641), (0xa642, 0xa643),
      (0xa644, 0xa645), (0xa646, 0xa647), (0xa648, 0xa649), (0xa64a, 0xa64b), (0xa64c, 0xa64d), (0xa64e, 0xa64f),
      (0xa650, 0xa651), (0xa652, 0xa653), (0xa654, 0xa655), (0xa656, 0xa657), (0xa658, 0xa659), (0xa65a, 0xa65b),
      (0xa65c, 0xa65d), (0xa65e, 0xa65f), (0xa660, 0xa661), (0xa662, 0xa663), (0xa664, 0xa665), (0xa666, 0xa667),
      (0xa668, 0xa669), (0xa66a, 0xa66b), (0xa66c, 0xa66d), (0xa680, 0xa681), (0xa682, 0xa683), (0xa684, 0xa685)]"

definition LOWER_MAP_8 :: "(u32 \<times> u32) list" where
  "LOWER_MAP_8 =
     [(0xa686, 0xa687), (0xa688, 0xa689), (0xa68a, 0xa68b), (0xa68c, 0xa68d), (0xa68e, 0xa68f), (0xa690, 0xa691),
      (0xa692, 0xa693), (0xa694, 0xa695), (0xa696, 0xa697), (0xa698, 0xa699), (0xa69a, 0xa69b), (0xa722, 0xa723),
      (0xa724, 0xa725), (0xa726, 0xa727), (0xa728, 0xa729), (0xa72a, 0xa72b), (0xa72c, 0xa72d), (0xa72e, 0xa72f),
      (0xa732, 0xa733), (0xa734, 0xa735), (0xa736, 0xa737), (0xa738, 0xa739), (0xa73a, 0xa73b), (0xa73c, 0xa73d),
      (0xa73e, 0xa73f), (0xa740, 0xa741), (0xa742, 0xa743), (0xa744, 0xa745), (0xa746, 0xa747), (0xa748, 0xa749),
      (0xa74a, 0xa74b), (0xa74c, 0xa74d), (0xa74e, 0xa74f), (0xa750, 0xa751), (0xa752, 0xa753), (0xa754, 0xa755),
      (0xa756, 0xa757), (0xa758, 0xa759), (0xa75a, 0xa75b), (0xa75c, 0xa75d), (0xa75e, 0xa75f), (0xa760, 0xa761),
      (0xa762, 0xa763), (0xa764, 0xa765), (0xa766, 0xa767), (0xa768, 0xa769), (0xa76a, 0xa76b), (0xa76c, 0xa76d),
      (0xa76e, 0xa76f), (0xa779, 0xa77a), (0xa77b, 0xa77c), (0xa77d, 0x1d79), (0xa77e, 0xa77f), (0xa780, 0xa781),
      (0xa782, 0xa783), (0xa784, 0xa785), (0xa786, 0xa787), (0xa78b, 0xa78c), (0xa78d, 0x265), (0xa790, 0xa791),
      (0xa792, 0xa793), (0xa796, 0xa797), (0xa798, 0xa799), (0xa79a, 0xa79b), (0xa79c, 0xa79d), (0xa79e, 0xa79f),
      (0xa7a0, 0xa7a1), (0xa7a2, 0xa7a3), (0xa7a4, 0xa7a5), (0xa7a6, 0xa7a7), (0xa7a8, 0xa7a9), (0xa7aa, 0x266),
      (0xa7ab, 0x25c), (0xa7ac, 0x261), (0xa7ad, 0x26c), (0xa7ae, 0x26a), (0xa7b0, 0x29e), (0xa7b1, 0x287),
      (0xa7b2, 0x29d), (0xa7b3, 0xab53), (0xa7b4, 0xa7b5), (0xa7b6, 0xa7b7), (0xa7b8, 0xa7b9), (0xa7ba, 0xa7bb),
      (0xa7bc, 0xa7bd), (0xa7be, 0xa7bf), (0xa7c0, 0xa7c1), (0xa7c2, 0xa7c3), (0xa7c4, 0xa794), (0xa7c5, 0x282),
      (0xa7c6, 0x1d8e), (0xa7c7, 0xa7c8), (0xa7c9, 0xa7ca), (0xa7d0, 0xa7d1), (0xa7d6, 0xa7d7), (0xa7d8, 0xa7d9),
      (0xa7f5, 0xa7f6), (0xff21, 0xff41), (0xff22, 0xff42), (0xff23, 0xff43), (0xff24, 0xff44), (0xff25, 0xff45),
      (0xff26, 0xff46), (0xff27, 0xff47), (0xff28, 0xff48), (0xff29, 0xff49), (0xff2a, 0xff4a), (0xff2b, 0xff4b),
      (0xff2c, 0xff4c), (0xff2d, 0xff4d), (0xff2e, 0xff4e), (0xff2f, 0xff4f), (0xff30, 0xff50), (0xff31, 0xff51),
      (0xff32, 0xff52), (0xff33, 0xff53), (0xff34, 0xff54), (0xff35, 0xff55), (0xff36, 0xff56), (0xff37, 0xff57),
      (0xff38, 0xff58), (0xff39, 0xff59), (0xff3a, 0xff5a), (0x10400, 0x10428), (0x10401, 0x10429), (0x10402, 0x1042a),
      (0x10403, 0x1042b), (0x10404, 0x1042c), (0x10405, 0x1042d), (0x10406, 0x1042e), (0x10407, 0x1042f),
      (0x10408, 0x10430), (0x10409, 0x10431), (0x1040a, 0x10432), (0x1040b, 0x10433), (0x1040c, 0x10434),
      (0x1040d, 0x10435), (0x1040e, 0x10436), (0x1040f, 0x10437), (0x10410, 0x10438), (0x10411, 0x10439),
      (0x10412, 0x1043a), (0x10413, 0x1043b), (0x10414, 0x1043c), (0x10415, 0x1043d), (0x10416, 0x1043e),
      (0x10417, 0x1043f), (0x10418, 0x10440), (0x10419, 0x10441), (0x1041a, 0x10442)]"

definition LOWER_MAP_9 :: "(u32 \<times> u32) list" where
  "LOWER_MAP_9 =
     [(0x1041b, 0x10443), (0x1041c, 0x10444), (0x1041d, 0x10445), (0x1041e, 0x10446), (0x1041f, 0x10447),
      (0x10420, 0x10448), (0x10421, 0x10449), (0x10422, 0x1044a), (0x10423, 0x1044b), (0x10424, 0x1044c),
      (0x10425, 0x1044d), (0x10426, 0x1044e), (0x10427, 0x1044f), (0x104b0, 0x104d8), (0x104b1, 0x104d9),
      (0x104b2, 0x104da), (0x104b3, 0x104db), (0x104b4, 0x104dc), (0x104b5, 0x104dd), (0x104b6, 0x104de),
      (0x104b7, 0x104df), (0x104b8, 0x104e0), (0x104b9, 0x104e1), (0x104ba, 0x104e2), (0x104bb, 0x104e3),
      (0x104bc, 0x104e4), (0x104bd, 0x104e5), (0x104be, 0x104e6), (0x104bf, 0x104e7), (0x104c0, 0x104e8),
      (0x104c1, 0x104e9), (0x104c2, 0x104ea), (0x104c3, 0x104eb), (0x104c4, 0x104ec), (0x104c5, 0x104ed),
      (0x104c6, 0x104ee), (0x104c7, 0x104ef), (0x104c8, 0x104f0), (0x104c9, 0x104f1), (0x104ca, 0x104f2),
      (0x104cb, 0x104f3), (0x104cc, 0x104f4), (0x104cd, 0x104f5), (0x104ce, 0x104f6), (0x104cf, 0x104f7),
      (0x104d0, 0x104f8), (0x104d1, 0x104f9), (0x104d2, 0x104fa), (0x104d3, 0x104fb), (0x10570, 0x10597),
      (0x10571, 0x10598), (0x10572, 0x10599), (0x10573, 0x1059a), (0x10574, 0x1059b), (0x10575, 0x1059c),
      (0x10576, 0x1059d), (0x10577, 0x1059e), (0x10578, 0x1059f), (0x10579, 0x105a0), (0x1057a, 0x105a1),
      (0x1057c, 0x105a3), (0x1057d, 0x105a4), (0x1057e, 0x105a5), (0x1057f, 0x105a6), (0x10580, 0x105a7),
      (0x10581, 0x105a8), (0x10582, 0x105a9), (0x10583, 0x105aa), (0x10584, 0x105ab), (0x10585, 0x105ac),
      (0x10586, 0x105ad), (0x10587, 0x105ae), (0x10588, 0x105af), (0x10589, 0x105b0), (0x1058a, 0x105b1),
      (0x1058c, 0x105b3), (0x1058d, 0x105b4), (0x1058e, 0x105b5), (0x1058f, 0x105b6), (0x10590, 0x105b7),
      (0x10591, 0x105b8), (0x10592, 0x105b9), (0x10594, 0x105bb), (0x10595, 0x105bc), (0x10c80, 0x10cc0),
      (0x10c81, 0x10cc1), (0x10c82, 0x10cc2), (0x10c83, 0x10cc3), (0x10c84, 0x10cc4), (0x10c85, 0x10cc5),
      (0x10c86, 0x10cc6), (0x10c87, 0x10cc7), (0x10c88, 0x10cc8), (0x10c89, 0x10cc9), (0x10c8a, 0x10cca),
      (0x10c8b, 0x10ccb), (0x10c8c, 0x10ccc), (0x10c8d, 0x10ccd), (0x10c8e, 0x10cce), (0x10c8f, 0x10ccf),
      (0x10c90, 0x10cd0), (0x10c91, 0x10cd1), (0x10c92, 0x10cd2), (0x10c93, 0x10cd3), (0x10c94, 0x10cd4),
      (0x10c95, 0x10cd5), (0x10c96, 0x10cd6), (0x10c97, 0x10cd7), (0x10c98, 0x10cd8), (0x10c99, 0x10cd9),
      (0x10c9a, 0x10cda), (0x10c9b, 0x10cdb), (0x10c9c, 0x10cdc), (0x10c9d, 0x10cdd), (0x10c9e, 0x10cde),
      (0x10c9f, 0x10cdf), (0x10ca0, 0x10ce0), (0x10ca1, 0x10ce1), (0x10ca2, 0x10ce2), (0x10ca3, 0x10ce3),
      (0x10ca4, 0x10ce4), (0x10ca5, 0x10ce5), (0x10ca6, 0x10ce6), (0x10ca7, 0x10ce7), (0x10ca8, 0x10ce8),
      (0x10ca9, 0x10ce9), (0x10caa, 0x10cea), (0x10cab, 0x10ceb), (0x10cac, 0x10cec), (0x10cad, 0x10ced),
      (0x10cae, 0x10cee), (0x10caf, 0x10cef), (0x10cb0, 0x10cf0), (0x10cb1, 0x10cf1), (0x10cb2, 0x10cf2),
      (0x118a0, 0x118c0), (0x118a1, 0x118c1), (0x118a2, 0x118c2), (0x118a3, 0x118c3), (0x118a4, 0x118c4),
      (0x118a5, 0x118c5), (0x118a6, 0x118c6), (0x118a7, 0x118c7), (0x118a8, 0x118c8), (0x118a9, 0x118c9),
      (0x118aa, 0x118ca), (0x118ab, 0x118cb), (0x118ac, 0x118cc), (0x118ad, 0x118cd), (0x118ae, 0x118ce)]"

definition LOWER_MAP_10 :: "(u32 \<times> u32) list" where
  "LOWER_MAP_10 =
     [(0x118af, 0x118cf), (0x118b0, 0x118d0), (0x118b1, 0x118d1), (0x118b2, 0x118d2), (0x118b3, 0x118d3),
      (0x118b4, 0x118d4), (0x118b5, 0x118d5), (0x118b6, 0x118d6), (0x118b7, 0x118d7), (0x118b8, 0x118d8),
      (0x118b9, 0x118d9), (0x118ba, 0x118da), (0x118bb, 0x118db), (0x118bc, 0x118dc), (0x118bd, 0x118dd),
      (0x118be, 0x118de), (0x118bf, 0x118df), (0x16e40, 0x16e60), (0x16e41, 0x16e61), (0x16e42, 0x16e62),
      (0x16e43, 0x16e63), (0x16e44, 0x16e64), (0x16e45, 0x16e65), (0x16e46, 0x16e66), (0x16e47, 0x16e67),
      (0x16e48, 0x16e68), (0x16e49, 0x16e69), (0x16e4a, 0x16e6a), (0x16e4b, 0x16e6b), (0x16e4c, 0x16e6c),
      (0x16e4d, 0x16e6d), (0x16e4e, 0x16e6e), (0x16e4f, 0x16e6f), (0x16e50, 0x16e70), (0x16e51, 0x16e71),
      (0x16e52, 0x16e72), (0x16e53, 0x16e73), (0x16e54, 0x16e74), (0x16e55, 0x16e75), (0x16e56, 0x16e76),
      (0x16e57, 0x16e77), (0x16e58, 0x16e78), (0x16e59, 0x16e79), (0x16e5a, 0x16e7a), (0x16e5b, 0x16e7b),
      (0x16e5c, 0x16e7c), (0x16e5d, 0x16e7d), (0x16e5e, 0x16e7e), (0x16e5f, 0x16e7f), (0x1e900, 0x1e922),
      (0x1e901, 0x1e923), (0x1e902, 0x1e924), (0x1e903, 0x1e925), (0x1e904, 0x1e926), (0x1e905, 0x1e927),
      (0x1e906, 0x1e928), (0x1e907, 0x1e929), (0x1e908, 0x1e92a), (0x1e909, 0x1e92b), (0x1e90a, 0x1e92c),
      (0x1e90b, 0x1e92d), (0x1e90c, 0x1e92e), (0x1e90d, 0x1e92f), (0x1e90e, 0x1e930), (0x1e90f, 0x1e931),
      (0x1e910, 0x1e932), (0x1e911, 0x1e933), (0x1e912, 0x1e934), (0x1e913, 0x1e935), (0x1e914, 0x1e936),
      (0x1e915, 0x1e937), (0x1e916, 0x1e938), (0x1e917, 0x1e939), (0x1e918, 0x1e93a), (0x1e919, 0x1e93b),
      (0x1e91a, 0x1e93c), (0x1e91b, 0x1e93d), (0x1e91c, 0x1e93e), (0x1e91d, 0x1e93f), (0x1e91e, 0x1e940),
      (0x1e91f, 0x1e941), (0x1e920, 0x1e942), (0x1e921, 0x1e943)]"

definition LOWER_MAP :: "(u32 \<times> u32) list" where
  "LOWER_MAP =
     LOWER_MAP_1 @ LOWER_MAP_2 @ LOWER_MAP_3 @ LOWER_MAP_4 @ LOWER_MAP_5 @ LOWER_MAP_6 @
     LOWER_MAP_7 @ LOWER_MAP_8 @ LOWER_MAP_9 @ LOWER_MAP_10"

lemmas table_defs =
  WORD_CHAR_RANGES_def WORD_CHAR_RANGES_1_def WORD_CHAR_RANGES_2_def WORD_CHAR_RANGES_3_def WORD_CHAR_RANGES_4_def WORD_CHAR_RANGES_5_def
  LOWER_MAP_def LOWER_MAP_1_def LOWER_MAP_2_def LOWER_MAP_3_def LOWER_MAP_4_def LOWER_MAP_5_def LOWER_MAP_6_def LOWER_MAP_7_def LOWER_MAP_8_def LOWER_MAP_9_def LOWER_MAP_10_def

section \<open>Their order\<close>

text \<open>Each range ends before the next one starts; the keys of the map increase.\<close>

fun ranges_apart :: "(u32 \<times> u32) list \<Rightarrow> bool" where
  "ranges_apart ((a, b) # (c, d) # rest) \<longleftrightarrow> a \<le> b \<and> b < c \<and> ranges_apart ((c, d) # rest)"
| "ranges_apart [(a, b)] \<longleftrightarrow> a \<le> b"
| "ranges_apart [] \<longleftrightarrow> True"

fun increasing :: "'a::order list \<Rightarrow> bool" where
  "increasing (x # y # rest) \<longleftrightarrow> x < y \<and> increasing (y # rest)"
| "increasing _ \<longleftrightarrow> True"

lemma increasing_sorted: "increasing xs \<Longrightarrow> sorted_wrt (<) xs"
  by (induction xs rule: increasing.induct) (auto dest: less_trans)

lemma word_ranges_apart: "ranges_apart WORD_CHAR_RANGES"
  by (simp add: table_defs)

lemma lower_map_increasing: "increasing (map fst LOWER_MAP)"
  by (simp add: table_defs)

section \<open>What they hold for ASCII\<close>

definition ascii_alnum :: "u32 \<Rightarrow> bool" where
  "ascii_alnum c \<longleftrightarrow> 0x30 \<le> c \<and> c \<le> 0x39 \<or> 0x41 \<le> c \<and> c \<le> 0x5A \<or> 0x61 \<le> c \<and> c \<le> 0x7A"

lemma word_ranges_head:
  "\<exists>rest. WORD_CHAR_RANGES = (0x30, 0x39) # (0x41, 0x5A) # (0x61, 0x7A) # (0xAA, 0xAA) # rest"
  unfolding WORD_CHAR_RANGES_def WORD_CHAR_RANGES_1_def by simp

lemma lower_map_head: "\<exists>rest. LOWER_MAP = (0x41, 0x61) # rest"
  unfolding LOWER_MAP_def LOWER_MAP_1_def by simp

definition ascii_result :: "u32 \<Rightarrow> bool" where
  "ascii_result l = (if 0x7F \<le> l then True else ascii_alnum l)"

lemma lower_map_pieces_ascii:
  "list_all ascii_result (map snd LOWER_MAP_1)"
  "list_all ascii_result (map snd LOWER_MAP_2)"
  "list_all ascii_result (map snd LOWER_MAP_3)"
  "list_all ascii_result (map snd LOWER_MAP_4)"
  "list_all ascii_result (map snd LOWER_MAP_5)"
  "list_all ascii_result (map snd LOWER_MAP_6)"
  "list_all ascii_result (map snd LOWER_MAP_7)"
  "list_all ascii_result (map snd LOWER_MAP_8)"
  "list_all ascii_result (map snd LOWER_MAP_9)"
  "list_all ascii_result (map snd LOWER_MAP_10)"
  by (simp_all add: table_defs ascii_result_def ascii_alnum_def)

lemma lower_map_ascii: "list_all ascii_result (map snd LOWER_MAP)"
  by (simp add: LOWER_MAP_def lower_map_pieces_ascii)

end
