(* ===== verification/Fts_Tokenizer.thy ===== *)
theory Fts_Tokenizer
  imports Fts_Tables
begin

text \<open>
  \<open>bitmagnet-fts/src/tokenizer.rs\<close>: the tokenizer that indexing and searching share. It is shown to
  break its input into pieces the way a reader expects (a separator ends a token, and nothing else
  about the left of it matters to the right), to emit only tokens that need no escaping in a
  search expression, and to report spans of the input that are in order and apart.
\<close>

section \<open>The tables and their searches\<close>

text \<open>\<open>tables::TRANSLIT_SECTIONS\<close> is an argument: for each section the substitutions of its positions.\<close>

type_synonym translit = "(u32 \<times> str list) list"

abbreviation MAX_ASCII :: u32 where "MAX_ASCII \<equiv> 0x7F"
abbreviation NON_BREAKING_CUTOFF :: u32 where "NON_BREAKING_CUTOFF \<equiv> 0x1FFF"

text \<open>
  \<open>slice::partition_point\<close> and \<open>slice::binary_search_by_key\<close> on slices that are in order, as the tables
  are: the number of leading elements with the property, and the entry of the key.
\<close>

definition partition_point :: "('a \<Rightarrow> bool) \<Rightarrow> 'a list \<Rightarrow> nat" where
  "partition_point p xs = length (takeWhile p xs)"

definition is_go_word_char :: "scalar \<Rightarrow> bool" where
  "is_go_word_char c =
     (let idx = partition_point (\<lambda>(lo, _). lo \<le> c) WORD_CHAR_RANGES
      in 0 < idx \<and> c \<le> snd (WORD_CHAR_RANGES ! (idx - 1)))"

text \<open>\<open>char::from_u32\<close>.\<close>

definition char_from_u32 :: "u32 \<Rightarrow> scalar option" where
  "char_from_u32 cp = (if cp < 0xD800 \<or> 0xDFFF < cp \<and> cp \<le> 0x10FFFF then Some cp else None)"

definition to_lower :: "scalar \<Rightarrow> scalar" where
  "to_lower c =
     (case map_of LOWER_MAP c of
        Some l \<Rightarrow> (case char_from_u32 l of Some d \<Rightarrow> d | None \<Rightarrow> c)
      | None \<Rightarrow> c)"

definition translit_lookup :: "translit \<Rightarrow> scalar \<Rightarrow> str option" where
  "translit_lookup tr c =
     (let section = drop_bit 8 c; position = unat (c AND 0xFF)
      in case map_of tr section of
           None \<Rightarrow> None
         | Some table \<Rightarrow> if position < length table then Some (table ! position) else None)"

section \<open>Substitutions\<close>

text \<open>\<open>char::is_whitespace\<close>, \<open>str::trim\<close> and \<open>str::replace\<close> with a character as its pattern.\<close>

definition is_whitespace :: "scalar \<Rightarrow> bool" where
  "is_whitespace c \<longleftrightarrow>
     9 \<le> c \<and> c \<le> 13 \<or> c = 0x20 \<or> c = 0x85 \<or> c = 0xA0 \<or> c = 0x1680 \<or> 0x2000 \<le> c \<and> c \<le> 0x200A
     \<or> c = 0x2028 \<or> c = 0x2029 \<or> c = 0x202F \<or> c = 0x205F \<or> c = 0x3000"

definition str_trim :: "str \<Rightarrow> str" where
  "str_trim s = rev (dropWhile is_whitespace (rev (dropWhile is_whitespace s)))"

definition str_replace :: "scalar \<Rightarrow> str \<Rightarrow> str \<Rightarrow> str" where
  "str_replace c t s = concat (map (\<lambda>d. if d = c then t else [d]) s)"

abbreviation apostrophe :: scalar where "apostrophe \<equiv> 0x27"
abbreviation backslash :: scalar where "backslash \<equiv> 0x5C"
abbreviation space :: scalar where "space \<equiv> 0x20"

definition process_subst :: "str \<Rightarrow> str" where
  "process_subst raw =
     (if apostrophe \<in> set raw \<or> backslash \<in> set raw
      then str_trim (str_replace backslash (lit ''_bs_'') (str_replace apostrophe (lit ''_sq_'') raw))
      else str_trim raw)"

section \<open>The tokenizer\<close>

record token_span =
  sp_text :: str
  sp_offset_from :: nat
  sp_offset_to :: nat

record accumulator =
  ac_out :: "token_span list"
  ac_lexeme :: str
  ac_start :: nat
  ac_end :: nat

definition accumulator_default :: accumulator where
  "accumulator_default = \<lparr>ac_out = [], ac_lexeme = [], ac_start = 0, ac_end = 0\<rparr>"

definition break_word :: "accumulator \<Rightarrow> accumulator" where
  "break_word acc =
     (if ac_lexeme acc \<noteq> []
      then acc\<lparr>ac_out := ac_out acc @ [\<lparr>sp_text = ac_lexeme acc, sp_offset_from = ac_start acc, sp_offset_to = ac_end acc\<rparr>],
               ac_lexeme := []\<rparr>
      else acc)"

definition push_ascii :: "scalar \<Rightarrow> nat \<Rightarrow> nat \<Rightarrow> accumulator \<Rightarrow> accumulator" where
  "push_ascii ch cs ce acc =
     (let acc = (if ac_lexeme acc = [] then acc\<lparr>ac_start := cs\<rparr> else acc)
      in acc\<lparr>ac_lexeme := ac_lexeme acc @ [ch], ac_end := ce\<rparr>)"

definition push_subst :: "str \<Rightarrow> nat \<Rightarrow> nat \<Rightarrow> accumulator \<Rightarrow> accumulator" where
  "push_subst s cs ce acc =
     (if s = [] then acc
      else let acc = (if ac_lexeme acc = [] then acc\<lparr>ac_start := cs\<rparr> else acc)
           in acc\<lparr>ac_lexeme := ac_lexeme acc @ s, ac_end := ce\<rparr>)"

text \<open>\<open>char::len_utf8\<close>, \<open>str::len\<close> and \<open>str::char_indices\<close>.\<close>

definition len_utf8 :: "scalar \<Rightarrow> nat" where
  "len_utf8 c = (if c < 0x80 then 1 else if c < 0x800 then 2 else if c < 0x10000 then 3 else 4)"

definition str_len :: "str \<Rightarrow> nat" where
  "str_len s = sum_list (map len_utf8 s)"

fun char_indices :: "nat \<Rightarrow> str \<Rightarrow> (nat \<times> scalar) list" where
  "char_indices i [] = []"
| "char_indices i (c # s) = (i, c) # char_indices (i + len_utf8 c) s"

text \<open>The body of the loop.\<close>

definition tokenize_step :: "translit \<Rightarrow> nat \<times> scalar \<Rightarrow> accumulator \<Rightarrow> accumulator" where
  "tokenize_step tr = (\<lambda>(cs, raw_ch) acc.
     let ce = cs + len_utf8 raw_ch in
     if \<not> is_go_word_char raw_ch then break_word acc
     else
       let ch = to_lower raw_ch in
       if ch < MAX_ASCII then push_ascii ch cs ce acc
       else
         let non_breaking = ch > NON_BREAKING_CUTOFF;
             acc = (if non_breaking then break_word acc else acc)
         in case translit_lookup tr ch of
              None \<Rightarrow> acc
            | Some raw \<Rightarrow>
                let subst = process_subst raw;
                    acc = push_subst subst cs ce acc
                in if non_breaking \<or> subst = [] \<or> last subst = space then break_word acc else acc)"

definition tokenize_spans :: "translit \<Rightarrow> str \<Rightarrow> token_span list" where
  "tokenize_spans tr input = ac_out (break_word (fold (tokenize_step tr) (char_indices 0 input) accumulator_default))"

definition tokenize_flat :: "translit \<Rightarrow> str \<Rightarrow> str list" where
  "tokenize_flat tr input = map sp_text (tokenize_spans tr input)"

section \<open>The search of the ranges\<close>

lemma ranges_apart_later:
  "ranges_apart ((a, b) # rest) \<Longrightarrow> (lo, hi) \<in> set rest \<Longrightarrow> a \<le> b \<and> b < lo"
proof (induction rest arbitrary: a b)
  case (Cons r rest)
  then show ?case
    by (cases r) (fastforce dest: order.strict_trans2 order.strict_trans)
qed simp

lemma ranges_search:
  assumes "ranges_apart rs"
  shows "(let idx = partition_point (\<lambda>(lo, _). lo \<le> c) rs in 0 < idx \<and> c \<le> snd (rs ! (idx - 1)))
    \<longleftrightarrow> (\<exists>(lo, hi) \<in> set rs. lo \<le> c \<and> c \<le> hi)"
  using assms
proof (induction rs)
  case (Cons r rs)
  obtain a b where r: "r = (a, b)"
    by (cases r)
  have later: "b < lo" if "(lo, hi) \<in> set rs" for lo hi
    using ranges_apart_later Cons.prems that unfolding r by blast
  have "ranges_apart rs"
    using Cons.prems by (cases rs) (auto simp: r)
  note IH = Cons.IH [OF this]
  show ?case
  proof (cases "takeWhile (\<lambda>(lo, _). lo \<le> c) rs")
    case Nil
    then have "\<not> (\<exists>(lo, hi) \<in> set rs. lo \<le> c \<and> c \<le> hi)"
      using IH by (simp add: partition_point_def)
    then show ?thesis
      using Nil by (auto simp: r partition_point_def)
  next
    case (Cons s ss)
    then have "s \<in> set rs" and s: "fst s \<le> c"
      using set_takeWhileD [of s "\<lambda>(lo, _). lo \<le> c" rs] by auto
    then have "b < c"
      using later [of "fst s" "snd s"] by auto
    moreover have "a \<le> c"
      using Cons.prems \<open>b < c\<close> ranges_apart_later [of a b rs "fst s" "snd s"] \<open>s \<in> set rs\<close> \<open>ranges_apart (r # rs)\<close> r
      by (auto dest: order.trans)
    ultimately show ?thesis
      using IH Cons by (auto simp: r partition_point_def)
  qed
qed (simp add: partition_point_def)

lemma is_go_word_char_iff: "is_go_word_char c \<longleftrightarrow> (\<exists>(lo, hi) \<in> set WORD_CHAR_RANGES. lo \<le> c \<and> c \<le> hi)"
  unfolding is_go_word_char_def by (rule ranges_search [OF word_ranges_apart])

section \<open>A tokenizer without positions\<close>

text \<open>
  What a character does to the token under construction: it adds text to it, and may end it before
  and after. This is the view of the tokenizer that forgets the spans.
\<close>

datatype word_action = Append str | Break

definition char_actions :: "translit \<Rightarrow> scalar \<Rightarrow> word_action list" where
  "char_actions tr c =
     (if \<not> is_go_word_char c then [Break]
      else let ch = to_lower c in
        if ch < MAX_ASCII then [Append [ch]]
        else let non_breaking = ch > NON_BREAKING_CUTOFF in
          (if non_breaking then [Break] else [])
          @ (case translit_lookup tr ch of
               None \<Rightarrow> []
             | Some raw \<Rightarrow>
                 let subst = process_subst raw
                 in Append subst # (if non_breaking \<or> subst = [] \<or> last subst = space then [Break] else [])))"

fun run_actions :: "word_action list \<Rightarrow> str \<Rightarrow> str list" where
  "run_actions [] w = (if w = [] then [] else [w])"
| "run_actions (Append s # as) w = run_actions as (w @ s)"
| "run_actions (Break # as) w = (if w = [] then [] else [w]) @ run_actions as []"

abbreviation text_actions :: "translit \<Rightarrow> str \<Rightarrow> word_action list" where
  "text_actions tr s \<equiv> concat (map (char_actions tr) s)"

lemma run_actions_break: "run_actions (xs @ Break # ys) w = run_actions xs w @ run_actions ys []"
  by (induction xs w rule: run_actions.induct) simp_all

text \<open>The tokens emitted so far and the one under construction.\<close>

fun act :: "word_action \<Rightarrow> str list \<times> str \<Rightarrow> str list \<times> str" where
  "act (Append s) (out, w) = (out, w @ s)"
| "act Break (out, w) = (if w = [] then (out, []) else (out @ [w], []))"

definition acc_view :: "accumulator \<Rightarrow> str list \<times> str" where
  "acc_view acc = (map sp_text (ac_out acc), ac_lexeme acc)"

lemma acc_view_simps [simp]:
  "acc_view (break_word acc) = act Break (acc_view acc)"
  "acc_view (push_ascii ch cs ce acc) = act (Append [ch]) (acc_view acc)"
  "acc_view (push_subst s cs ce acc) = act (Append s) (acc_view acc)"
  by (simp_all add: acc_view_def break_word_def push_ascii_def push_subst_def Let_def)

lemma tokenize_step_view: "acc_view (tokenize_step tr (cs, c) acc) = fold act (char_actions tr c) (acc_view acc)"
  by (simp add: tokenize_step_def char_actions_def Let_def split: option.split)

lemma tokenize_fold_view:
  "acc_view (fold (tokenize_step tr) (char_indices i s) acc) = fold act (text_actions tr s) (acc_view acc)"
  by (induction s arbitrary: i acc) (simp_all add: tokenize_step_view)

lemma fold_act_run: "fst (act Break (fold act as (out, w))) = out @ run_actions as w"
  by (induction as w arbitrary: out rule: run_actions.induct) simp_all

lemma tokenize_flat_run: "tokenize_flat tr s = run_actions (text_actions tr s) []"
proof -
  have "tokenize_flat tr s = fst (acc_view (break_word (fold (tokenize_step tr) (char_indices 0 s) accumulator_default)))"
    by (simp add: tokenize_flat_def tokenize_spans_def acc_view_def del: acc_view_simps)
  also have "\<dots> = fst (act Break (fold act (text_actions tr s) ([], [])))"
    by (simp add: tokenize_fold_view) (simp add: acc_view_def accumulator_default_def)
  finally show ?thesis
    by (simp add: fold_act_run)
qed

lemma tokenize_flat_Nil [simp]: "tokenize_flat tr [] = []"
  by (simp add: tokenize_flat_run)

text \<open>A separator splits the text, and the tokens.\<close>

lemma tokenize_flat_separator:
  assumes "\<not> is_go_word_char c"
  shows "tokenize_flat tr (s @ c # t) = tokenize_flat tr s @ tokenize_flat tr t"
  using assms by (simp add: tokenize_flat_run char_actions_def run_actions_break)

lemma tokenize_flat_skip: "\<not> is_go_word_char c \<Longrightarrow> tokenize_flat tr (c # t) = tokenize_flat tr t"
  using tokenize_flat_separator [of c tr "[]" t] by simp

section \<open>What the tokens are made of\<close>

lemma word_char_ascii:
  assumes "is_go_word_char c" and "c < 0x80"
  shows "ascii_alnum c"
proof -
  obtain rest where ranges: "WORD_CHAR_RANGES = (0x30, 0x39) # (0x41, 0x5A) # (0x61, 0x7A) # (0xAA, 0xAA) # rest"
    using word_ranges_head by blast
  have "\<not> 0xAA \<le> c"
    using assms(2) by (simp add: word_le_nat_alt word_less_nat_alt)
  then have "is_go_word_char c \<longleftrightarrow>
      (if c < 0x30 then False else if c < 0x41 then c \<le> 0x39 else if c < 0x61 then c \<le> 0x5A else c \<le> 0x7A)"
    unfolding is_go_word_char_def partition_point_def ranges by (auto simp: not_le)
  then show ?thesis
    using assms by (auto simp: ascii_alnum_def split: if_splits)
qed

lemma to_lower_ascii:
  assumes "is_go_word_char c" and "to_lower c < MAX_ASCII"
  shows "ascii_alnum (to_lower c)"
proof (cases "map_of LOWER_MAP c")
  case None
  then have "to_lower c = c"
    by (simp add: to_lower_def)
  then show ?thesis
    using assms word_char_ascii [of c] by (simp add: word_less_nat_alt)
next
  case (Some l)
  then have "ascii_result l"
    using lower_map_ascii map_of_SomeD [OF Some] by (auto simp: list_all_iff)
  then have "l < MAX_ASCII \<longrightarrow> ascii_alnum l"
    by (auto simp: ascii_result_def split: if_splits)
  moreover have "char_from_u32 l = None \<Longrightarrow> ascii_alnum (to_lower c)"
    using assms word_char_ascii [of c] Some by (simp add: to_lower_def word_less_nat_alt)
  ultimately show ?thesis
    using assms(2) Some by (cases "char_from_u32 l") (auto simp: to_lower_def char_from_u32_def split: if_splits)
qed

text \<open>No token holds an apostrophe or a backslash, so none needs escaping.\<close>

definition plain :: "str \<Rightarrow> bool" where
  "plain s \<longleftrightarrow> apostrophe \<notin> set s \<and> backslash \<notin> set s"

lemma set_str_trim: "set (str_trim s) \<subseteq> set s"
  by (auto simp: str_trim_def dest!: set_dropWhileD)

lemma plain_process_subst: "plain (process_subst raw)"
proof -
  have "plain (str_replace backslash (lit ''_bs_'') (str_replace apostrophe (lit ''_sq_'') raw))"
    by (auto simp: plain_def str_replace_def lit_def of_char_def split: if_splits)
  then show ?thesis
    using set_str_trim by (auto simp: process_subst_def plain_def)
qed

lemma plain_ascii_alnum: "ascii_alnum c \<Longrightarrow> plain [c]"
  by (auto simp: ascii_alnum_def plain_def)

lemma plain_append [simp]: "plain (s @ t) \<longleftrightarrow> plain s \<and> plain t"
  by (auto simp: plain_def)

lemma plain_Nil [simp]: "plain []"
  by (simp add: plain_def)

lemma char_actions_plain: "Append s \<in> set (char_actions tr c) \<Longrightarrow> plain s"
  using plain_process_subst plain_ascii_alnum [OF to_lower_ascii, of c]
  by (auto simp: char_actions_def Let_def split: if_splits option.splits)

lemma run_actions_plain:
  "plain w \<Longrightarrow> (\<And>s. Append s \<in> set as \<Longrightarrow> plain s) \<Longrightarrow> v \<in> set (run_actions as w) \<Longrightarrow> v \<noteq> [] \<and> plain v"
  by (induction as w rule: run_actions.induct) (auto split: if_splits)

lemma tokenize_flat_plain: "w \<in> set (tokenize_flat tr s) \<Longrightarrow> w \<noteq> [] \<and> plain w"
  unfolding tokenize_flat_run by (rule run_actions_plain) (auto dest: char_actions_plain)

section \<open>Where the tokens stand\<close>

text \<open>Nonempty spans between two offsets, in order and apart.\<close>

fun spans_between :: "nat \<Rightarrow> token_span list \<Rightarrow> nat \<Rightarrow> bool" where
  "spans_between lo [] hi \<longleftrightarrow> lo \<le> hi"
| "spans_between lo (s # ss) hi \<longleftrightarrow>
     lo \<le> sp_offset_from s \<and> sp_offset_from s < sp_offset_to s \<and> spans_between (sp_offset_to s) ss hi"

lemma spans_between_snoc [simp]:
  "spans_between lo (ss @ [s]) hi \<longleftrightarrow>
     spans_between lo ss (sp_offset_from s) \<and> sp_offset_from s < sp_offset_to s \<and> sp_offset_to s \<le> hi"
  by (induction ss arbitrary: lo) auto

lemma spans_between_mono: "spans_between lo ss hi \<Longrightarrow> hi \<le> hi' \<Longrightarrow> spans_between lo ss hi'"
  by (induction ss arbitrary: lo) auto

definition stands :: "nat \<Rightarrow> accumulator \<Rightarrow> bool" where
  "stands i acc \<longleftrightarrow>
     (if ac_lexeme acc = [] then spans_between 0 (ac_out acc) i
      else spans_between 0 (ac_out acc) (ac_start acc) \<and> ac_start acc < ac_end acc \<and> ac_end acc \<le> i)"

lemma stands_mono: "stands i acc \<Longrightarrow> i \<le> j \<Longrightarrow> stands j acc"
  by (auto simp: stands_def intro: spans_between_mono)

lemma stands_break: "stands i acc \<Longrightarrow> stands i (break_word acc)"
  by (auto simp: stands_def break_word_def)

lemma stands_push:
  "stands i acc \<Longrightarrow> i < j \<Longrightarrow> stands j (push_ascii ch i j acc)"
  "stands i acc \<Longrightarrow> i < j \<Longrightarrow> stands j (push_subst s i j acc)"
  using stands_mono [of i acc j] by (auto simp: stands_def push_ascii_def push_subst_def Let_def)

lemma len_utf8_pos: "0 < len_utf8 c"
  by (simp add: len_utf8_def)

lemma stands_step:
  assumes "stands i acc"
  shows "stands (i + len_utf8 c) (tokenize_step tr (i, c) acc)"
proof -
  have less: "i < i + len_utf8 c"
    by (simp add: len_utf8_pos)
  have "stands (i + len_utf8 c) acc'" if "stands i acc'" for acc'
    using stands_mono [OF that] by simp
  then show ?thesis
    using assms stands_break stands_push [OF _ less] by (simp add: tokenize_step_def Let_def split: option.split)
qed

lemma stands_fold:
  "stands i acc \<Longrightarrow> stands (i + str_len s) (fold (tokenize_step tr) (char_indices i s) acc)"
proof (induction s arbitrary: i acc)
  case (Cons c s)
  then show ?case
    using Cons.IH [OF stands_step [of i acc c tr]] by (simp add: str_len_def add.assoc)
qed (simp add: str_len_def)

lemma tokenize_spans_between: "spans_between 0 (tokenize_spans tr s) (str_len s)"
proof -
  have "stands 0 accumulator_default"
    by (simp add: stands_def accumulator_default_def)
  from stands_break [OF stands_fold [OF this, of s tr]] show ?thesis
    by (auto simp: tokenize_spans_def stands_def break_word_def split: if_splits)
qed

end
