(* ===== verification/Tsquery.thy ===== *)
theory Tsquery
  imports Fts_Tokenizer
begin

text \<open>
  \<open>bitmagnet-fts/src/lib.rs\<close>: the translation of what a user types into the search box into a
  \<open>tsquery\<close> of PostgreSQL. Whatever is typed, the result is empty or a text of the \<open>tsquery\<close> grammar,
  and its lexemes are the tokens of what was typed, in order: no input is a syntax error for the
  database, none smuggles in an operator, and no word is lost.
\<close>

section \<open>The lexer\<close>

datatype qtoken =
    QOpenParens | QCloseParens | QAnd | QOr | QFollowedBy | QNegation | QWildcard | QQuoted str | QPhrase str

datatype pending_op = PendAnd | PendOr | PendFollowedBy

abbreviation quotation :: scalar where "quotation \<equiv> 0x22"

text \<open>
  The position in the input is the rest of it. \<open>read_quoted\<close> runs from behind the opening quotation
  mark; a doubled mark stands for one, and the end of the input closes the quotation.
\<close>

fun read_quoted :: "scalar \<Rightarrow> str \<Rightarrow> str \<Rightarrow> str \<times> str" where
  "read_quoted quote buf [] = (buf, [])"
| "read_quoted quote buf (ch # rest) =
     (if ch = quote
      then (case rest of
              next_ch # rest' \<Rightarrow>
                if next_ch = quote then read_quoted quote (buf @ [ch]) rest' else (buf, rest)
            | [] \<Rightarrow> (buf, rest))
      else read_quoted quote (buf @ [ch]) rest)"

lemma read_quoted_length: "length (snd (read_quoted quote buf s)) \<le> length s"
proof (induction quote buf s rule: read_quoted.induct)
  case (2 quote buf ch rest)
  then show ?case
    by (cases rest) auto
qed simp

function lex_app_query :: "str \<Rightarrow> qtoken list" where
  "lex_app_query [] = []"
| "lex_app_query (c # rest) =
     (if c = of_char CHR ''('' then QOpenParens # lex_app_query rest
      else if c = of_char CHR '')'' then QCloseParens # lex_app_query rest
      else if c = of_char CHR ''&'' then QAnd # lex_app_query rest
      else if c = of_char CHR ''|'' then QOr # lex_app_query rest
      else if c = of_char CHR ''.'' then QFollowedBy # lex_app_query rest
      else if c = of_char CHR ''!'' then QNegation # lex_app_query rest
      else if c = of_char CHR ''*'' then QWildcard # lex_app_query rest
      else if c = quotation
      then let quoted = read_quoted c [] rest
           in (if fst quoted = [] then [] else [QQuoted (fst quoted)]) @ lex_app_query (snd quoted)
      else if is_go_word_char c
      then QPhrase (takeWhile is_go_word_char (c # rest)) # lex_app_query (dropWhile is_go_word_char (c # rest))
      else lex_app_query rest)"
  by pat_completeness auto
termination
  by (relation "measure length") (auto simp: le_imp_less_Suc read_quoted_length length_dropWhile_le)

section \<open>The builder\<close>

text \<open>\<open>[String]::join\<close>.\<close>

fun str_join :: "str \<Rightarrow> str list \<Rightarrow> str" where
  "str_join sep [] = []"
| "str_join sep [p] = p"
| "str_join sep (p # q # ps) = p @ sep @ str_join sep (q # ps)"

text \<open>A byte of a longer UTF-8 sequence is no ASCII character, so characters decide.\<close>

definition bare_char :: "scalar \<Rightarrow> bool" where
  "bare_char c \<longleftrightarrow> ascii_alnum c \<or> c = of_char CHR ''_''"

definition quote_lexeme :: "str \<Rightarrow> str" where
  "quote_lexeme word =
     (if list_all bare_char word then word
      else [apostrophe] @ str_replace apostrophe [apostrophe, apostrophe] word @ [apostrophe])"

text \<open>The tokens behind the operand stand for the index \<open>i\<close> of the source.\<close>

definition add_expr ::
  "str list \<Rightarrow> pending_op option \<Rightarrow> bool \<Rightarrow> str \<Rightarrow> qtoken list \<Rightarrow> str list \<times> qtoken list" where
  "add_expr parts operator negated expr rest =
     (let parts = (if parts \<noteq> []
                   then parts @ [case operator of
                                   Some PendOr \<Rightarrow> lit ''|''
                                 | Some PendFollowedBy \<Rightarrow> lit ''<->''
                                 | _ \<Rightarrow> lit ''&'']
                   else parts);
          parts = (if negated then parts @ [lit ''!''] else parts)
      in case rest of
           QWildcard # rest' \<Rightarrow> (parts @ [expr @ lit '':*''], rest')
         | _ \<Rightarrow> (parts @ [expr], rest))"

fun collect_parens :: "nat \<Rightarrow> qtoken list \<Rightarrow> qtoken list" where
  "collect_parens depth [] = []"
| "collect_parens depth (QOpenParens # rest) = QOpenParens # collect_parens (depth + 1) rest"
| "collect_parens depth (QCloseParens # rest) =
     (if depth - 1 = 0 then [] else QCloseParens # collect_parens (depth - 1) rest)"
| "collect_parens depth (t # rest) = t # collect_parens depth rest"

lemma collect_parens_take: "\<exists>rest. tokens = collect_parens depth tokens @ rest"
  by (induction depth tokens rule: collect_parens.induct) auto

lemma collect_parens_length: "length (collect_parens depth tokens) \<le> length tokens"
  using collect_parens_take [of tokens depth] by (metis le_add1 length_append)

lemma add_expr_length: "length (snd (add_expr parts operator negated expr rest)) \<le> length rest"
  by (auto simp: add_expr_def Let_def split: list.split qtoken.split)

lemma add_expr_drop_length: "length (snd (add_expr parts operator negated expr (drop k rest))) < Suc (length rest)"
  using add_expr_length [of parts operator negated expr "drop k rest"] by simp

text \<open>The loop of \<open>tokens_to_tsquery\<close>, from the tokens that are left to the final parts.\<close>

function tsquery_loop ::
  "translit \<Rightarrow> str list \<Rightarrow> pending_op option \<Rightarrow> bool \<Rightarrow> qtoken list \<Rightarrow> str list" where
  "tsquery_loop tr parts operator negated [] = parts"
| "tsquery_loop tr parts operator negated (token # rest) =
     (case token of
        QAnd \<Rightarrow> tsquery_loop tr parts (Some PendAnd) negated rest
      | QOr \<Rightarrow> tsquery_loop tr parts (Some PendOr) negated rest
      | QFollowedBy \<Rightarrow> tsquery_loop tr parts (Some PendFollowedBy) negated rest
      | QNegation \<Rightarrow> tsquery_loop tr parts operator True rest
      | QOpenParens \<Rightarrow>
          let inner = collect_parens 1 rest;
              rest = drop (length inner) rest;
              parens_expr = str_join (lit '' '') (tsquery_loop tr [] None False inner)
          in if parens_expr = [] then tsquery_loop tr parts operator negated rest
             else let added = add_expr parts operator negated (lit ''('' @ parens_expr @ lit '')'') rest
                  in tsquery_loop tr (fst added) None False (snd added)
      | QWildcard \<Rightarrow> tsquery_loop tr parts operator negated rest
      | QCloseParens \<Rightarrow> tsquery_loop tr parts operator negated rest
      | QQuoted v \<Rightarrow>
          let lexemes = tokenize_flat tr v
          in if lexemes = [] then tsquery_loop tr parts operator negated rest
             else let added = add_expr parts operator negated (str_join (lit '' <-> '') (map quote_lexeme lexemes)) rest
                  in tsquery_loop tr (fst added) None False (snd added)
      | QPhrase v \<Rightarrow>
          let lexemes = tokenize_flat tr v
          in if lexemes = [] then tsquery_loop tr parts operator negated rest
             else let added = add_expr parts operator negated (str_join (lit '' <-> '') (map quote_lexeme lexemes)) rest
                  in tsquery_loop tr (fst added) None False (snd added))"
  by pat_completeness auto
termination
  by (relation "measure (\<lambda>(_, _, _, _, tokens). length tokens)")
    (auto simp: le_imp_less_Suc collect_parens_length add_expr_length add_expr_drop_length)

definition tokens_to_tsquery :: "translit \<Rightarrow> qtoken list \<Rightarrow> str" where
  "tokens_to_tsquery tr tokens = str_join (lit '' '') (tsquery_loop tr [] None False tokens)"

definition app_query_to_tsquery :: "translit \<Rightarrow> str \<Rightarrow> str" where
  "app_query_to_tsquery tr raw = tokens_to_tsquery tr (lex_app_query raw)"

section \<open>The grammar of a tsquery\<close>

text \<open>
  The documented syntax of a \<open>tsquery\<close> of PostgreSQL: lexemes, bare or quoted, with an optional
  prefix mark, and \<open>!\<close>, \<open><->\<close>, \<open>&\<close> and \<open>|\<close> in the order of their strength. A backslash would be an
  escape character inside a quoted lexeme.
\<close>

datatype tsq = TLex str bool | TNot tsq | TPhrase tsq tsq | TAnd tsq tsq | TOr tsq tsq

primrec tsq_lexemes :: "tsq \<Rightarrow> str list" where
  "tsq_lexemes (TLex w prefix) = [w]"
| "tsq_lexemes (TNot e) = tsq_lexemes e"
| "tsq_lexemes (TPhrase e f) = tsq_lexemes e @ tsq_lexemes f"
| "tsq_lexemes (TAnd e f) = tsq_lexemes e @ tsq_lexemes f"
| "tsq_lexemes (TOr e f) = tsq_lexemes e @ tsq_lexemes f"

datatype tsq_level = Lexeme | Operand | Phrase | Conjunction | Disjunction

inductive tsq_reads :: "tsq_level \<Rightarrow> str \<Rightarrow> tsq \<Rightarrow> bool" where
  bare: "w \<noteq> [] \<Longrightarrow> list_all bare_char w \<Longrightarrow> tsq_reads Lexeme w (TLex w False)"
| quoted: "w \<noteq> [] \<Longrightarrow> backslash \<notin> set w \<Longrightarrow>
    tsq_reads Lexeme ([apostrophe] @ str_replace apostrophe [apostrophe, apostrophe] w @ [apostrophe]) (TLex w False)"
| lexeme: "tsq_reads Lexeme s e \<Longrightarrow> tsq_reads Operand s e"
| prefixed: "tsq_reads Lexeme s (TLex w False) \<Longrightarrow> tsq_reads Operand (s @ lit '':*'') (TLex w True)"
| negation: "tsq_reads Operand s e \<Longrightarrow> tsq_reads Operand (lit ''! '' @ s) (TNot e)"
| parens: "tsq_reads Disjunction s e \<Longrightarrow> tsq_reads Operand (lit ''('' @ s @ lit '')'') e"
| operand: "tsq_reads Operand s e \<Longrightarrow> tsq_reads Phrase s e"
| followed: "tsq_reads Phrase s e \<Longrightarrow> tsq_reads Operand t f \<Longrightarrow> tsq_reads Phrase (s @ lit '' <-> '' @ t) (TPhrase e f)"
| phrase: "tsq_reads Phrase s e \<Longrightarrow> tsq_reads Conjunction s e"
| conjunction: "tsq_reads Conjunction s e \<Longrightarrow> tsq_reads Phrase t f \<Longrightarrow> tsq_reads Conjunction (s @ lit '' & '' @ t) (TAnd e f)"
| conjuncts: "tsq_reads Conjunction s e \<Longrightarrow> tsq_reads Disjunction s e"
| disjunction: "tsq_reads Disjunction s e \<Longrightarrow> tsq_reads Conjunction t f \<Longrightarrow> tsq_reads Disjunction (s @ lit '' | '' @ t) (TOr e f)"

inductive_cases reads_conjunction: "tsq_reads Conjunction s e"
inductive_cases reads_disjunction: "tsq_reads Disjunction s e"

lemmas reads_up = operand [THEN phrase] phrase [THEN conjuncts] operand [THEN phrase, THEN conjuncts]

lemma reads_quote_lexeme: "w \<noteq> [] \<Longrightarrow> plain w \<Longrightarrow> tsq_reads Lexeme (quote_lexeme w) (TLex w False)"
  by (auto simp: quote_lexeme_def plain_def intro: tsq_reads.intros quoted [simplified])

section \<open>The result is in the grammar\<close>

lemma reads_nonempty: "tsq_reads l s e \<Longrightarrow> s \<noteq> []"
  by (induction rule: tsq_reads.induct) (simp_all add: lit_def)

lemma str_join_snoc: "parts \<noteq> [] \<Longrightarrow> str_join sep (parts @ [p]) = str_join sep parts @ sep @ p"
  by (induction sep parts rule: str_join.induct) auto

text \<open>A text of the grammar, with its lexemes, that can still be extended.\<close>

definition opened :: "str \<Rightarrow> str list \<Rightarrow> bool" where
  "opened s ws \<longleftrightarrow> (\<exists>e. tsq_reads Disjunction s e \<and> tsq_lexemes e = ws)"

lemma opened_operand: "tsq_reads Operand t f \<Longrightarrow> opened t (tsq_lexemes f)"
  by (auto simp: opened_def intro: reads_up)

lemma opened_or: "opened s ws \<Longrightarrow> tsq_reads Operand t f \<Longrightarrow> opened (s @ lit '' | '' @ t) (ws @ tsq_lexemes f)"
  by (force simp: opened_def intro: disjunction reads_up)

lemma opened_and:
  assumes "opened s ws" and "tsq_reads Operand t f"
  shows "opened (s @ lit '' & '' @ t) (ws @ tsq_lexemes f)"
proof -
  obtain e where "tsq_reads Disjunction s e" and ws: "tsq_lexemes e = ws"
    using assms(1) by (auto simp: opened_def)
  then show ?thesis
  proof (cases rule: reads_disjunction [consumes 1])
    case 1
    then show ?thesis
      using conjuncts [OF conjunction [OF 1 operand [OF assms(2)]]] ws by (force simp: opened_def)
  next
    case (2 s1 e1 s2 e2)
    then show ?thesis
      using disjunction [OF 2(3) conjunction [OF 2(4) operand [OF assms(2)]]] ws by (force simp: opened_def)
  qed
qed

lemma conjunction_followed:
  assumes "tsq_reads Conjunction s e" and "tsq_reads Operand t f"
  shows "\<exists>g. tsq_reads Conjunction (s @ lit '' <-> '' @ t) g \<and> tsq_lexemes g = tsq_lexemes e @ tsq_lexemes f"
  using assms(1)
proof (cases rule: reads_conjunction [consumes 1])
  case 1
  then show ?thesis
    using phrase [OF followed [OF 1 assms(2)]] by force
next
  case (2 s1 e1 s2 e2)
  then show ?thesis
    using conjunction [OF 2(3) followed [OF 2(4) assms(2)]] by force
qed

lemma opened_followed:
  assumes "opened s ws" and "tsq_reads Operand t f"
  shows "opened (s @ lit '' <-> '' @ t) (ws @ tsq_lexemes f)"
proof -
  obtain e where "tsq_reads Disjunction s e" and ws: "tsq_lexemes e = ws"
    using assms(1) by (auto simp: opened_def)
  then show ?thesis
  proof (cases rule: reads_disjunction [consumes 1])
    case 1
    then show ?thesis
      using conjunction_followed [OF 1 assms(2)] ws by (force simp: opened_def intro: conjuncts)
  next
    case (2 s1 e1 s2 e2)
    obtain g where "tsq_reads Conjunction (s2 @ lit '' <-> '' @ t) g" "tsq_lexemes g = tsq_lexemes e2 @ tsq_lexemes f"
      using conjunction_followed [OF 2(4) assms(2)] by blast
    then show ?thesis
      using disjunction [OF 2(3)] 2(1,2) ws by (force simp: opened_def)
  qed
qed

text \<open>An expression that may stand wherever an operand may.\<close>

definition extends :: "str \<Rightarrow> str list \<Rightarrow> bool" where
  "extends expr vs \<longleftrightarrow>
     (\<forall>pre ws. (\<forall>t f. tsq_reads Operand t f \<longrightarrow> opened (pre @ t) (ws @ tsq_lexemes f)) \<longrightarrow> opened (pre @ expr) (ws @ vs))"

lemma extends_operand: "tsq_reads Operand t f \<Longrightarrow> extends t (tsq_lexemes f)"
  by (simp add: extends_def)

lemma extends_negation: "extends expr vs \<Longrightarrow> extends (lit ''! '' @ expr) vs"
  unfolding extends_def by (metis append.assoc negation tsq_lexemes.simps(2))

lemma extends_followed:
  assumes "tsq_reads Operand s e" and "extends expr vs"
  shows "extends (s @ lit '' <-> '' @ expr) (tsq_lexemes e @ vs)"
  unfolding extends_def
proof (intro allI impI)
  fix pre ws
  assume "\<forall>t f. tsq_reads Operand t f \<longrightarrow> opened (pre @ t) (ws @ tsq_lexemes f)"
  then have "opened (pre @ s) (ws @ tsq_lexemes e)"
    using assms(1) by blast
  then have "\<forall>t f. tsq_reads Operand t f \<longrightarrow> opened ((pre @ s @ lit '' <-> '') @ t) ((ws @ tsq_lexemes e) @ tsq_lexemes f)"
    using opened_followed [of "pre @ s" "ws @ tsq_lexemes e"] by simp
  then have "opened ((pre @ s @ lit '' <-> '') @ expr) ((ws @ tsq_lexemes e) @ vs)"
    using assms(2) unfolding extends_def by blast
  then show "opened (pre @ s @ lit '' <-> '' @ expr) (ws @ tsq_lexemes e @ vs)"
    by simp
qed

lemma extends_lexemes:
  assumes "ws \<noteq> []" and "\<forall>w \<in> set ws. w \<noteq> [] \<and> plain w"
  shows "extends (str_join (lit '' <-> '') (map quote_lexeme ws)) ws"
    and "extends (str_join (lit '' <-> '') (map quote_lexeme ws) @ lit '':*'') ws"
  using assms
proof (induction ws rule: induct_list012)
  case (2 w)
  case 1
  then show ?case
    using extends_operand [OF lexeme [OF reads_quote_lexeme, of w]] by simp
next
  case (2 w)
  case 2
  then show ?case
    using extends_operand [OF prefixed [OF reads_quote_lexeme, of w]] by simp
next
  case (3 v w ws)
  case 1
  then show ?case
    using extends_followed [OF lexeme [OF reads_quote_lexeme, of v]] 3(3) by simp
next
  case (3 v w ws)
  case 2
  then show ?case
    using extends_followed [OF lexeme [OF reads_quote_lexeme, of v]] 3(4) by simp
qed simp_all

text \<open>The parts emitted so far: none, or together a text of the grammar.\<close>

definition built :: "str list \<Rightarrow> str list \<Rightarrow> bool" where
  "built parts ws \<longleftrightarrow> (if parts = [] then ws = [] else opened (str_join (lit '' '') parts) ws)"

lemma opened_connective:
  assumes "opened s ws"
  shows "\<forall>t f. tsq_reads Operand t f \<longrightarrow> opened ((s @ lit '' '' @
    (case operator of Some PendOr \<Rightarrow> lit ''|'' | Some PendFollowedBy \<Rightarrow> lit ''<->'' | _ \<Rightarrow> lit ''&'') @ lit '' '') @ t)
      (ws @ tsq_lexemes f)"
  using opened_or [OF assms] opened_and [OF assms] opened_followed [OF assms]
  by (auto simp: lit_def split: option.split pending_op.split)

lemma built_expr:
  assumes "built parts ws" and "extends expr vs"
  shows "built (if parts = [] then [expr] else parts @
    [case operator of Some PendOr \<Rightarrow> lit ''|'' | Some PendFollowedBy \<Rightarrow> lit ''<->'' | _ \<Rightarrow> lit ''&'', expr]) (ws @ vs)"
proof (cases "parts = []")
  case True
  have "opened ([] @ expr) ([] @ vs)"
    using assms(2) [unfolded extends_def, rule_format, of "[]" "[]"] opened_operand by simp
  then show ?thesis
    using assms(1) True by (simp add: built_def)
next
  case False
  let ?op = "case operator of Some PendOr \<Rightarrow> lit ''|'' | Some PendFollowedBy \<Rightarrow> lit ''<->'' | _ \<Rightarrow> lit ''&''"
  have "opened (str_join (lit '' '') parts) ws"
    using assms(1) False by (simp add: built_def)
  from opened_connective [OF this, of operator] have "opened ((str_join (lit '' '') parts @ lit '' '' @ ?op @ lit '' '') @ expr) (ws @ vs)"
    using assms(2) unfolding extends_def by blast
  moreover have "str_join (lit '' '') (parts @ [?op, expr]) = str_join (lit '' '') parts @ lit '' '' @ ?op @ lit '' '' @ expr"
    using str_join_snoc [of "parts @ [?op]" "lit '' ''" expr] str_join_snoc [OF False, of "lit '' ''" ?op] by simp
  ultimately show ?thesis
    using False by (simp add: built_def)
qed

text \<open>A negation is emitted as a part of its own, which reads as a part of its operand.\<close>

lemma built_split_negation: "built (parts @ [lit ''! '' @ expr]) ws \<longleftrightarrow> built (parts @ [lit ''!'', expr]) ws"
proof -
  have "str_join (lit '' '') (parts @ [lit ''!'', expr]) = str_join (lit '' '') (parts @ [lit ''! '' @ expr])"
    using str_join_snoc [of "parts @ [lit ''!'']" "lit '' ''" expr] str_join_snoc [of parts "lit '' ''" "lit ''!''"]
      str_join_snoc [of parts "lit '' ''" "lit ''! '' @ expr"]
    by (cases "parts = []") (simp_all add: lit_def)
  then show ?thesis
    by (simp add: built_def)
qed

lemma add_expr_built:
  assumes "built parts ws" and "extends expr vs" and "\<And>rest'. rest = QWildcard # rest' \<Longrightarrow> extends (expr @ lit '':*'') vs"
  shows "built (fst (add_expr parts operator negated expr rest)) (ws @ vs)"
proof -
  have "built (parts @ (if parts = [] then [] else
      [case operator of Some PendOr \<Rightarrow> lit ''|'' | Some PendFollowedBy \<Rightarrow> lit ''<->'' | _ \<Rightarrow> lit ''&''])
      @ (if negated then [lit ''!'', expr'] else [expr'])) (ws @ vs)" if "extends expr' vs" for expr'
  proof (cases negated)
    case True
    then show ?thesis
      using built_expr [OF assms(1) extends_negation [OF that], of operator]
        built_split_negation [of "parts @ (if parts = [] then [] else
          [case operator of Some PendOr \<Rightarrow> lit ''|'' | Some PendFollowedBy \<Rightarrow> lit ''<->'' | _ \<Rightarrow> lit ''&''])" expr']
      by (cases "parts = []") auto
  next
    case False
    then show ?thesis
      using built_expr [OF assms(1) that, of operator] by (cases "parts = []") auto
  qed
  from this [OF assms(2)] this [OF assms(3)] show ?thesis
    by (auto simp: add_expr_def Let_def split: list.split qtoken.split)
qed

text \<open>The lexemes of the operands among the tokens.\<close>

fun token_lexemes :: "translit \<Rightarrow> qtoken \<Rightarrow> str list" where
  "token_lexemes tr (QQuoted v) = tokenize_flat tr v"
| "token_lexemes tr (QPhrase v) = tokenize_flat tr v"
| "token_lexemes tr _ = []"

abbreviation operand_lexemes :: "translit \<Rightarrow> qtoken list \<Rightarrow> str list" where
  "operand_lexemes tr tokens \<equiv> concat (map (token_lexemes tr) tokens)"

lemma add_expr_rest [simp]:
  "operand_lexemes tr (snd (add_expr parts operator negated expr rest)) = operand_lexemes tr rest"
  by (auto simp: add_expr_def Let_def split: list.split qtoken.split)

lemma collect_parens_stop:
  "0 < depth \<Longrightarrow> drop (length (collect_parens depth tokens)) tokens \<noteq> QWildcard # rest"
  by (induction depth tokens rule: collect_parens.induct) auto

lemma collect_parens_lexemes:
  "operand_lexemes tr tokens = operand_lexemes tr (collect_parens depth tokens)
     @ operand_lexemes tr (drop (length (collect_parens depth tokens)) tokens)"
proof -
  obtain rest where "tokens = collect_parens depth tokens @ rest"
    using collect_parens_take by blast
  then show ?thesis
    by (metis append_eq_conv_conj concat_append map_append)
qed

lemma built_join:
  assumes "built parts ws"
  shows "str_join (lit '' '') parts = [] \<Longrightarrow> ws = []"
    and "str_join (lit '' '') parts \<noteq> [] \<Longrightarrow> extends (lit ''('' @ str_join (lit '' '') parts @ lit '')'') ws"
proof -
  assume empty: "str_join (lit '' '') parts = []"
  show "ws = []"
    using assms reads_nonempty unfolding built_def opened_def empty by metis
next
  assume "str_join (lit '' '') parts \<noteq> []"
  then have "parts \<noteq> []"
    by auto
  then obtain e where "tsq_reads Disjunction (str_join (lit '' '') parts) e" "tsq_lexemes e = ws"
    using assms by (auto simp: built_def opened_def)
  then show "extends (lit ''('' @ str_join (lit '' '') parts @ lit '')'') ws"
    using extends_operand [OF parens] by blast
qed

lemma tsquery_loop_built:
  "built parts ws \<Longrightarrow> built (tsquery_loop tr parts operator negated tokens) (ws @ operand_lexemes tr tokens)"
proof (induction tr parts operator negated tokens arbitrary: ws rule: tsquery_loop.induct)
  case (2 tr parts operator negated token rest)
  have added: "built (fst (add_expr parts operator negated (str_join (lit '' <-> '') (map quote_lexeme (tokenize_flat tr v))) rest))
      (ws @ tokenize_flat tr v)" if "tokenize_flat tr v \<noteq> []" for v
    using extends_lexemes [OF that] tokenize_flat_plain by (intro add_expr_built "2.prems") auto
  show ?case
  proof (cases token)
    case QOpenParens
    let ?inner = "collect_parens 1 rest" and ?rest = "drop (length (collect_parens 1 rest)) rest"
    have inner: "built (tsquery_loop tr [] None False ?inner) (operand_lexemes tr ?inner)"
      using 2(1) [OF QOpenParens refl refl, of "[]"] by (simp add: built_def)
    note lexemes = collect_parens_lexemes [of tr rest 1]
    show ?thesis
    proof (cases "str_join (lit '' '') (tsquery_loop tr [] None False ?inner) = []")
      case True
      then show ?thesis
        using 2(2) [OF QOpenParens refl refl refl True "2.prems"] built_join(1) [OF inner] lexemes
        by (simp add: QOpenParens Let_def del: concat_eq_Nil_conv)
    next
      case False
      have "built (fst (add_expr parts operator negated
          (lit ''('' @ str_join (lit '' '') (tsquery_loop tr [] None False ?inner) @ lit '')'') ?rest)) (ws @ operand_lexemes tr ?inner)"
        using collect_parens_stop [of 1 rest] by (intro add_expr_built "2.prems" built_join(2) [OF inner False]) simp
      from 2(3) [OF QOpenParens refl refl refl False refl this] show ?thesis
        using False lexemes by (simp add: QOpenParens Let_def)
    qed
  next
    case (QQuoted v)
    then show ?thesis
      using 2(10) [OF QQuoted refl _ "2.prems"] 2(11) [OF QQuoted refl _ refl added [of v]]
      by (cases "tokenize_flat tr v = []") (simp_all add: Let_def)
  next
    case (QPhrase v)
    then show ?thesis
      using 2(12) [OF QPhrase refl _ "2.prems"] 2(13) [OF QPhrase refl _ refl added [of v]]
      by (cases "tokenize_flat tr v = []") (simp_all add: Let_def)
  qed (use 2 in simp_all)
qed simp

section \<open>No word is lost\<close>

lemma run_actions_cong: "(\<And>w. run_actions ys w = run_actions zs w) \<Longrightarrow> run_actions (xs @ ys) w = run_actions (xs @ zs) w"
  by (induction xs w rule: run_actions.induct) simp_all

lemma ascii_not_word: "c < 0x80 \<Longrightarrow> \<not> ascii_alnum c \<Longrightarrow> \<not> is_go_word_char c"
  using word_char_ascii by blast

text \<open>Digits are word characters that no table changes.\<close>

lemma digit_char_actions:
  assumes "0x30 \<le> c" and "c \<le> 0x39"
  shows "char_actions tr c = [Append [c]]"
proof -
  obtain rest where head: "LOWER_MAP = (0x41, 0x61) # rest"
    using lower_map_head by blast
  have "sorted_wrt (<) (map fst LOWER_MAP)"
    using lower_map_increasing by (rule increasing_sorted)
  then have "\<forall>k \<in> fst ` set LOWER_MAP. 0x41 \<le> k"
    unfolding head by auto
  moreover have "\<not> 0x41 \<le> c"
    using assms(2) by (simp add: word_le_nat_alt)
  ultimately have "map_of LOWER_MAP c = None"
    by (auto simp: map_of_eq_None_iff)
  moreover have "is_go_word_char c"
  proof -
    obtain rest where head: "WORD_CHAR_RANGES = (0x30, 0x39) # rest"
      using word_ranges_head by blast
    show ?thesis
      unfolding is_go_word_char_iff head using assms by simp
  qed
  ultimately show ?thesis
    using assms by (simp add: char_actions_def to_lower_def word_le_nat_alt word_less_nat_alt)
qed

lemma separator_actions: "c < 0x80 \<Longrightarrow> \<not> ascii_alnum c \<Longrightarrow> char_actions tr c = [Break]"
  using ascii_not_word by (simp add: char_actions_def)

lemma operator_not_word:
  "c \<in> {of_char CHR ''('', of_char CHR '')'', of_char CHR ''&'', of_char CHR ''|'', of_char CHR ''.'', of_char CHR ''!'',
     of_char CHR ''*'', quotation} \<Longrightarrow> \<not> is_go_word_char c"
  by (rule ascii_not_word) (auto simp: of_char_def ascii_alnum_def)

lemma read_quoted_actions:
  assumes "\<not> is_go_word_char quote"
  shows "\<exists>mid. fst (read_quoted quote buf s) = buf @ mid \<and>
    (\<forall>w. run_actions (text_actions tr s) w
       = run_actions (text_actions tr mid @ Break # text_actions tr (snd (read_quoted quote buf s))) w)"
  using assms
proof (induction quote buf s rule: read_quoted.induct)
  case (1 quote buf)
  then show ?case
    by simp
next
  case (2 quote buf ch rest)
  have quote: "char_actions tr quote = [Break]"
    using "2.prems" by (simp add: char_actions_def)
  consider (escaped) rest' where "ch = quote" "rest = quote # rest'"
    | (closing) "ch = quote" "read_quoted quote buf (ch # rest) = (buf, rest)"
    | (other) "ch \<noteq> quote"
    by (cases rest; cases "hd rest = quote"; cases "ch = quote") auto
  then show ?case
  proof cases
    case escaped
    from 2(1) [OF escaped(1,2) refl "2.prems"] obtain mid where
      "fst (read_quoted quote (buf @ [ch]) rest') = (buf @ [ch]) @ mid"
      "\<forall>w. run_actions (text_actions tr rest') w
        = run_actions (text_actions tr mid @ Break # text_actions tr (snd (read_quoted quote (buf @ [ch]) rest'))) w"
      by blast
    then show ?thesis
      using escaped quote by (intro exI [of _ "ch # mid"]) simp
  next
    case closing
    then show ?thesis
      using quote by (intro exI [of _ "[]"]) simp
  next
    case other
    let ?read = "read_quoted quote (buf @ [ch]) rest"
    from 2(2) [OF other "2.prems"] obtain mid where
      mid: "fst ?read = (buf @ [ch]) @ mid"
      "\<forall>w. run_actions (text_actions tr rest) w = run_actions (text_actions tr mid @ Break # text_actions tr (snd ?read)) w"
      by blast
    have "run_actions (char_actions tr ch @ text_actions tr rest) w
      = run_actions (char_actions tr ch @ text_actions tr mid @ Break # text_actions tr (snd ?read)) w" for w
      by (rule run_actions_cong) (use mid(2) in blast)
    then show ?thesis
      using other mid(1) by (intro exI [of _ "ch # mid"]) simp
  qed
qed

lemma tokenize_flat_quoted:
  assumes "\<not> is_go_word_char quote"
  shows "tokenize_flat tr rest = tokenize_flat tr (fst (read_quoted quote [] rest)) @ tokenize_flat tr (snd (read_quoted quote [] rest))"
  using read_quoted_actions [OF assms, of "[]" rest tr] by (auto simp: tokenize_flat_run run_actions_break)

lemma tokenize_flat_words:
  "tokenize_flat tr s = tokenize_flat tr (takeWhile is_go_word_char s) @ tokenize_flat tr (dropWhile is_go_word_char s)"
proof (cases "dropWhile is_go_word_char s")
  case (Cons d ds)
  then have "\<not> is_go_word_char d"
    by (metis hd_dropWhile list.distinct(1) list.sel(1))
  then show ?thesis
    using tokenize_flat_separator [of d tr "takeWhile is_go_word_char s" ds] tokenize_flat_skip [of d tr ds] Cons
    by (metis takeWhile_dropWhile_id)
qed (metis append_Nil2 takeWhile_dropWhile_id tokenize_flat_Nil)

lemma lex_app_query_lexemes: "operand_lexemes tr (lex_app_query raw) = tokenize_flat tr raw"
proof (induction raw rule: length_induct)
  case (1 raw)
  show ?case
  proof (cases raw)
    case (Cons c rest)
    have IH: "operand_lexemes tr (lex_app_query s) = tokenize_flat tr s" if "length s \<le> length rest" for s
      using 1 that Cons by simp
    consider (separator) "\<not> is_go_word_char c" "c \<noteq> quotation" | (quote) "\<not> is_go_word_char c" "c = quotation"
      | (word) "is_go_word_char c"
      by blast
    then show ?thesis
    proof cases
      case separator
      then show ?thesis
        using tokenize_flat_skip [of c tr rest] by (simp add: Cons IH)
    next
      case quote
      then show ?thesis
        using tokenize_flat_skip [of c tr rest] tokenize_flat_quoted [of c tr rest]
        by (simp add: Cons IH read_quoted_length Let_def of_char_def)
    next
      case word
      let ?rest = "dropWhile is_go_word_char (c # rest)"
      have "lex_app_query raw = QPhrase (takeWhile is_go_word_char raw) # lex_app_query ?rest"
        using word operator_not_word by (auto simp: Cons)
      moreover have "operand_lexemes tr (lex_app_query ?rest) = tokenize_flat tr ?rest"
        using word by (intro IH) (simp add: length_dropWhile_le)
      ultimately show ?thesis
        using tokenize_flat_words [of tr raw] Cons by simp
    qed
  qed simp
qed

text \<open>
  (C13) Whatever a user types, the search expression that is handed to PostgreSQL is well formed: it
  is empty when the text has no token, and otherwise a text of the \<open>tsquery\<close> grammar whose lexemes
  are exactly the tokens of the text, in order. This holds for unbalanced parentheses and quotation
  marks, misplaced operators and every transliteration table.
\<close>

theorem tsquery_well_formed:
  "if tokenize_flat tr raw = [] then app_query_to_tsquery tr raw = []
   else \<exists>e. tsq_reads Disjunction (app_query_to_tsquery tr raw) e \<and> tsq_lexemes e = tokenize_flat tr raw"
proof -
  have "tsq_lexemes e \<noteq> []" for e
    by (induction e) simp_all
  moreover have "built (tsquery_loop tr [] None False (lex_app_query raw)) (tokenize_flat tr raw)"
    using tsquery_loop_built [of "[]" "[]" tr None False "lex_app_query raw"] by (simp add: built_def lex_app_query_lexemes)
  ultimately show ?thesis
    by (auto simp: app_query_to_tsquery_def tokens_to_tsquery_def built_def opened_def split: if_splits)
qed

end
