(* ===== verification/Tsvector.thy ===== *)
theory Tsvector
  imports Tsquery Ordered_Map
begin

text \<open>
  \<open>bitmagnet-fts/src/tsvector.rs\<close>: the search vector of a document, built text by text. Every text
  gets consecutive positions behind a gap, the bounded variant stays within its byte budget, and
  a document is found by every query whose tokens stand in one of its texts.
\<close>

section \<open>The vector\<close>

abbreviation MAX_LEXEME_BYTES :: nat where "MAX_LEXEME_BYTES \<equiv> 2046"
abbreviation MAX_TSVECTOR_BYTES :: nat where "MAX_TSVECTOR_BYTES \<equiv> 900000"

datatype tsvector_weight = WeightA | WeightB | WeightC | WeightD

definition as_char :: "tsvector_weight \<Rightarrow> scalar" where
  "as_char w =
     (case w of WeightA \<Rightarrow> of_char CHR ''A'' | WeightB \<Rightarrow> of_char CHR ''B'' | WeightC \<Rightarrow> of_char CHR ''C''
      | WeightD \<Rightarrow> of_char CHR ''D'')"

text \<open>
  Positions are integers. The code keeps them in 32 bits, which is the same as long as no position
  reaches \<open>2 ^ 31\<close>: a vector would need as many lexemes.
\<close>

type_synonym tsvector = "(str, (int, tsvector_weight) btree_map) btree_map"

definition tsvector_new :: tsvector where
  "tsvector_new = []"

text \<open>The position behind the last one, and behind the gap.\<close>

definition scan_position :: "int \<Rightarrow> int \<Rightarrow> int" where
  "scan_position pos next_pos = (if pos \<ge> next_pos then pos + 1 else next_pos)"

definition next_position :: "tsvector \<Rightarrow> int" where
  "next_position tsv =
     (let next_pos = fold (\<lambda>(_, labels). fold (\<lambda>(pos, _). scan_position pos) labels) tsv 1
      in if next_pos > 1 then next_pos + 1 else next_pos)"

text \<open>\<open>entry(lexeme).or_default().insert(pos, weight)\<close>.\<close>

definition tsv_insert :: "str \<Rightarrow> int \<Rightarrow> tsvector_weight \<Rightarrow> tsvector \<Rightarrow> tsvector" where
  "tsv_insert lexeme pos weight tsv =
     bt_insert lexeme (bt_insert pos weight (case map_of tsv lexeme of Some labels \<Rightarrow> labels | None \<Rightarrow> [])) tsv"

fun add_lexemes :: "tsvector_weight \<Rightarrow> str list \<Rightarrow> int \<Rightarrow> tsvector \<Rightarrow> tsvector" where
  "add_lexemes weight [] next_pos tsv = tsv"
| "add_lexemes weight (lexeme # lexemes) next_pos tsv =
     (if str_len lexeme > MAX_LEXEME_BYTES then add_lexemes weight lexemes next_pos tsv
      else add_lexemes weight lexemes (next_pos + 1) (tsv_insert lexeme next_pos weight tsv))"

definition add_text :: "translit \<Rightarrow> str \<Rightarrow> tsvector_weight \<Rightarrow> tsvector \<Rightarrow> tsvector" where
  "add_text tr text weight tsv = add_lexemes weight (tokenize_flat tr text) (next_position tsv) tsv"

definition tsvector_lexeme_cost :: "str \<Rightarrow> int" where
  "tsvector_lexeme_cost lexeme = int (str_len lexeme) + 12"

fun add_lexemes_bounded :: "tsvector_weight \<Rightarrow> str list \<Rightarrow> int \<Rightarrow> int \<Rightarrow> tsvector \<Rightarrow> int \<times> tsvector" where
  "add_lexemes_bounded weight [] budget next_pos tsv = (budget, tsv)"
| "add_lexemes_bounded weight (lexeme # lexemes) budget next_pos tsv =
     (if str_len lexeme > MAX_LEXEME_BYTES then add_lexemes_bounded weight lexemes budget next_pos tsv
      else let cost = tsvector_lexeme_cost lexeme
           in if cost > budget then (budget, tsv)
              else add_lexemes_bounded weight lexemes (budget - cost) (next_pos + 1) (tsv_insert lexeme next_pos weight tsv))"

definition add_text_bounded :: "translit \<Rightarrow> str \<Rightarrow> tsvector_weight \<Rightarrow> int \<Rightarrow> tsvector \<Rightarrow> int \<times> tsvector" where
  "add_text_bounded tr text weight budget tsv =
     (if budget \<le> 0 then (budget, tsv)
      else add_lexemes_bounded weight (tokenize_flat tr text) budget (next_position tsv) tsv)"

text \<open>\<open>Display\<close>: the text PostgreSQL reads.\<close>

definition tsv_quote_lexeme :: "str \<Rightarrow> str" where
  "tsv_quote_lexeme s =
     [apostrophe] @ concat (map (\<lambda>c. if c = apostrophe then [apostrophe, c] else [c]) s) @ [apostrophe]"

definition position_text :: "int \<Rightarrow> str" where
  "position_text pos = lit ((if pos < 0 then ''-'' else []) @ nat_to_dec (nat \<bar>pos\<bar>))"

fun labels_text :: "bool \<Rightarrow> (int, tsvector_weight) btree_map \<Rightarrow> str" where
  "labels_text label_first [] = []"
| "labels_text label_first ((pos, weight) # labels) =
     (if pos = 0 then labels_text label_first labels
      else lit (if label_first then '':'' else '','') @ position_text pos
           @ (if weight \<noteq> WeightD then [as_char weight] else []) @ labels_text False labels)"

definition tsvector_text :: "tsvector \<Rightarrow> str" where
  "tsvector_text tsv =
     str_join (lit '' '') (map (\<lambda>(lexeme, labels). tsv_quote_lexeme lexeme @ labels_text True labels) tsv)"

section \<open>What a vector holds\<close>

definition tsv_ok :: "tsvector \<Rightarrow> bool" where
  "tsv_ok tsv \<longleftrightarrow>
     bt_ok tsv \<and> (\<forall>(_, labels) \<in> set tsv. bt_ok labels \<and> labels \<noteq> [] \<and> (\<forall>(pos, _) \<in> set labels. 1 \<le> pos))"

definition tsv_label :: "tsvector \<Rightarrow> str \<Rightarrow> int \<Rightarrow> tsvector_weight option" where
  "tsv_label tsv lexeme pos = (case map_of tsv lexeme of Some labels \<Rightarrow> map_of labels pos | None \<Rightarrow> None)"

lemma tsv_ok_new [simp]: "tsv_ok tsvector_new"
  by (simp add: tsv_ok_def tsvector_new_def)

lemma tsv_label_new [simp]: "tsv_label tsvector_new l p = None"
  by (simp add: tsv_label_def tsvector_new_def)

lemma tsv_ok_labels: "tsv_ok tsv \<Longrightarrow> map_of tsv lexeme = Some labels \<Longrightarrow> bt_ok labels"
  by (auto simp: tsv_ok_def dest: map_of_SomeD)

lemma tsv_ok_insert [simp]:
  assumes "tsv_ok tsv" and "1 \<le> pos"
  shows "tsv_ok (tsv_insert lexeme pos weight tsv)"
proof -
  define labels where "labels = (case map_of tsv lexeme of Some labels \<Rightarrow> labels | None \<Rightarrow> [])"
  have "bt_ok labels" and "\<forall>(pos, _) \<in> set labels. 1 \<le> pos"
    using assms(1) unfolding labels_def by (cases "map_of tsv lexeme"; auto simp: tsv_ok_def dest!: map_of_SomeD)+
  then show ?thesis
    using assms unfolding tsv_ok_def tsv_insert_def labels_def [symmetric] by (auto dest!: subsetD [OF set_bt_insert])
qed

lemma tsv_label_insert:
  "tsv_ok tsv \<Longrightarrow> tsv_label (tsv_insert lexeme pos weight tsv) l p
     = (if l = lexeme \<and> p = pos then Some weight else tsv_label tsv l p)"
  using tsv_ok_labels [of tsv lexeme]
  by (auto simp: tsv_ok_def tsv_label_def tsv_insert_def split: option.split)

lemma scan_position_bounds: "next_pos \<le> scan_position pos next_pos" "pos < scan_position pos next_pos"
  by (simp_all add: scan_position_def)

lemma fold_scan_position:
  "next_pos \<le> fold (\<lambda>(pos, _). scan_position pos) labels next_pos
   \<and> (\<forall>pos \<in> fst ` set labels. pos < fold (\<lambda>(pos, _). scan_position pos) labels next_pos)"
proof (induction labels arbitrary: next_pos)
  case (Cons label labels)
  obtain pos w where "label = (pos, w)"
    by (cases label)
  then show ?case
    using Cons.IH [of "scan_position pos next_pos"] scan_position_bounds(1) [of next_pos pos]
      scan_position_bounds(2) [of pos next_pos] by auto
qed simp

lemma fold_scan_positions:
  "next_pos \<le> fold (\<lambda>(_, labels). fold (\<lambda>(pos, _). scan_position pos) labels) tsv next_pos
   \<and> (\<forall>(_, labels) \<in> set tsv. \<forall>pos \<in> fst ` set labels.
        pos < fold (\<lambda>(_, labels). fold (\<lambda>(pos, _). scan_position pos) labels) tsv next_pos)"
proof (induction tsv arbitrary: next_pos)
  case (Cons entry tsv)
  obtain l labels where entry: "entry = (l, labels)"
    by (cases entry)
  let ?n = "fold (\<lambda>(pos, _). scan_position pos) labels next_pos"
  show ?case
    using Cons.IH [of ?n] fold_scan_position [of next_pos labels] by (auto simp: entry)
qed simp

text \<open>The next position leaves a gap behind every position in use.\<close>

lemma next_position_gap:
  assumes "tsv_ok tsv" and "tsv_label tsv l p \<noteq> None"
  shows "p + 1 < next_position tsv"
proof -
  obtain labels w where "map_of tsv l = Some labels" "map_of labels p = Some w"
    using assms(2) by (auto simp: tsv_label_def split: option.splits)
  then have p: "(l, labels) \<in> set tsv" "p \<in> fst ` set labels"
    by (auto dest!: map_of_SomeD intro: rev_image_eqI)
  then have "p < fold (\<lambda>(_, labels). fold (\<lambda>(pos, _). scan_position pos) labels) tsv 1"
    using fold_scan_positions [of 1 tsv] by blast
  moreover have "1 \<le> p"
    using assms(1) p by (force simp: tsv_ok_def)
  ultimately show ?thesis
    by (simp add: next_position_def Let_def)
qed

lemma next_position_pos: "1 \<le> next_position tsv"
  using fold_scan_positions [of 1 tsv] by (auto simp: next_position_def Let_def)

section \<open>Adding a text\<close>

definition kept :: "str list \<Rightarrow> str list" where
  "kept lexemes = filter (\<lambda>l. str_len l \<le> MAX_LEXEME_BYTES) lexemes"

lemma kept_simps [simp]:
  "kept [] = []"
  "kept (l # ls) = (if str_len l \<le> MAX_LEXEME_BYTES then l # kept ls else kept ls)"
  by (simp_all add: kept_def)

lemma add_lexemes_kept: "add_lexemes weight (kept lexemes) n tsv = add_lexemes weight lexemes n tsv"
  by (induction weight lexemes n tsv rule: add_lexemes.induct) auto

lemma add_lexemes_ok: "tsv_ok tsv \<Longrightarrow> 1 \<le> n \<Longrightarrow> tsv_ok (add_lexemes weight lexemes n tsv)"
  by (induction weight lexemes n tsv rule: add_lexemes.induct) auto

lemma add_lexemes_label:
  "tsv_ok tsv \<Longrightarrow> 1 \<le> n \<Longrightarrow>
   tsv_label (add_lexemes weight lexemes n tsv) l p =
     (if n \<le> p \<and> p < n + int (length (kept lexemes)) \<and> kept lexemes ! nat (p - n) = l then Some weight else tsv_label tsv l p)"
proof (induction weight lexemes n tsv rule: add_lexemes.induct)
  case (2 weight lexeme lexemes n tsv)
  show ?case
  proof (cases "str_len lexeme > MAX_LEXEME_BYTES")
    case False
    have "nat (p - n) = Suc (nat (p - (n + 1)))" if "n + 1 \<le> p"
      using that by (simp add: nat_eq_iff Suc_nat_eq_nat_zadd1)
    then show ?thesis
      using 2 False by (cases "p = n") (auto simp: tsv_label_insert)
  qed (use 2 in simp)
qed auto

text \<open>The lexemes a budget pays for, from the first one on.\<close>

fun affordable :: "int \<Rightarrow> str list \<Rightarrow> str list" where
  "affordable budget [] = []"
| "affordable budget (l # ls) =
     (if tsvector_lexeme_cost l > budget then [] else l # affordable (budget - tsvector_lexeme_cost l) ls)"

abbreviation total_cost :: "str list \<Rightarrow> int" where
  "total_cost ls \<equiv> sum_list (map tsvector_lexeme_cost ls)"

lemma add_lexemes_bounded_eq:
  "add_lexemes_bounded weight lexemes budget n tsv =
     (budget - total_cost (affordable budget (kept lexemes)), add_lexemes weight (affordable budget (kept lexemes)) n tsv)"
  by (induction weight lexemes budget n tsv rule: add_lexemes_bounded.induct) (auto simp: Let_def)

lemma affordable_take: "affordable budget ls = take (length (affordable budget ls)) ls"
  by (induction budget ls rule: affordable.induct) auto

lemma affordable_cost: "0 \<le> budget \<Longrightarrow> total_cost (affordable budget ls) \<le> budget"
  by (induction budget ls rule: affordable.induct) auto

lemma affordable_maximal:
  "length (affordable budget ls) < length ls \<Longrightarrow>
   budget - total_cost (affordable budget ls) < tsvector_lexeme_cost (ls ! length (affordable budget ls))"
  by (induction budget ls rule: affordable.induct) (auto simp: algebra_simps split: if_splits)

section \<open>The size of the text\<close>

lemma str_len_simps [simp]:
  "str_len [] = 0" "str_len (c # s) = len_utf8 c + str_len s" "str_len (s @ t) = str_len s + str_len t"
  by (simp_all add: str_len_def)

lemma nat_to_dec_length: "n < 10 ^ Suc k \<Longrightarrow> length (nat_to_dec n) \<le> Suc k"
proof (induction k arbitrary: n)
  case (Suc k)
  show ?case
  proof (cases "n < 10")
    case False
    then show ?thesis
      using Suc.IH [of "n div 10"] Suc.prems by (subst nat_to_dec.simps) (simp add: less_mult_imp_div_less)
  qed (subst nat_to_dec.simps, simp)
qed (subst nat_to_dec.simps, simp)

lemma nat_to_dec_ascii: "c \<in> set (nat_to_dec n) \<Longrightarrow> len_utf8 (of_char c) = 1"
proof (induction n rule: nat_to_dec.induct)
  case (1 n)
  have "len_utf8 (of_char (digit_char d)) = 1" if "d < 10" for d
  proof -
    have "of_char (digit_char d) = (of_nat (48 + d) :: u32)"
      using that by (simp add: digit_char_def of_nat_of_char [of "char_of (48 + d)", symmetric])
    moreover have "(of_nat (48 + d) :: u32) < 0x80"
      using that by (simp add: word_less_nat_alt unat_of_nat del: of_nat_add)
    ultimately show ?thesis
      by (simp add: len_utf8_def)
  qed
  then show ?case
    using 1 by (subst (asm) nat_to_dec.simps) (auto split: if_splits)
qed

lemma position_text_len: "1 \<le> pos \<Longrightarrow> pos < 10 ^ 7 \<Longrightarrow> str_len (position_text pos) \<le> 7"
proof -
  assume pos: "1 \<le> pos" "pos < 10 ^ 7"
  have "str_len (lit s) = length s" if "\<forall>c \<in> set s. len_utf8 (of_char c) = 1" for s
    using that by (induction s) (simp_all add: lit_def)
  moreover have "nat pos < 10 ^ Suc 6"
    using pos by simp
  ultimately show ?thesis
    using pos nat_to_dec_ascii nat_to_dec_length [of "nat pos" 6] by (simp add: position_text_def)
qed

definition label_size :: "int \<times> tsvector_weight \<Rightarrow> nat" where
  "label_size = (\<lambda>(pos, weight). if pos = 0 then 0 else 1 + str_len (position_text pos) + (if weight = WeightD then 0 else 1))"

lemma labels_text_len: "str_len (labels_text b labels) = sum_list (map label_size labels)"
  by (induction b labels rule: labels_text.induct)
    (auto simp: label_size_def lit_def len_utf8_def as_char_def of_char_def split: tsvector_weight.split)

definition entry_size :: "str \<times> (int, tsvector_weight) btree_map \<Rightarrow> nat" where
  "entry_size = (\<lambda>(lexeme, labels). str_len (tsv_quote_lexeme lexeme) + sum_list (map label_size labels) + 1)"

lemma tsvector_text_len: "str_len (tsvector_text tsv) = sum_list (map entry_size tsv) - 1"
proof -
  have "str_len (str_join (lit '' '') ps) = sum_list (map (\<lambda>p. str_len p + 1) ps) - 1" for ps
    by (induction "lit '' ''" ps rule: str_join.induct) (simp_all add: lit_def len_utf8_def of_char_def)
  then show ?thesis
    by (simp add: tsvector_text_def entry_size_def labels_text_len comp_def case_prod_unfold)
qed

lemma quoted_plain_len: "plain l \<Longrightarrow> str_len (tsv_quote_lexeme l) = str_len l + 2"
proof -
  assume "plain l"
  then have "concat (map (\<lambda>c. if c = apostrophe then [apostrophe, c] else [c]) l) = l"
    by (induction l) (auto simp: plain_def)
  then show ?thesis
    by (simp add: tsv_quote_lexeme_def len_utf8_def)
qed

lemma tsv_insert_size:
  assumes "tsv_ok tsv" and "plain l" and "1 \<le> pos" and "pos < 10 ^ 7"
  shows "int (sum_list (map entry_size (tsv_insert l pos weight tsv))) \<le> int (sum_list (map entry_size tsv)) + tsvector_lexeme_cost l"
proof -
  have label: "label_size (pos, weight) \<le> 9"
    using position_text_len [OF assms(3,4)] by (simp add: label_size_def)
  have ok: "bt_ok tsv"
    using assms(1) by (simp add: tsv_ok_def)
  show ?thesis
  proof (cases "map_of tsv l")
    case None
    then show ?thesis
      using sum_list_bt_insert [OF ok, of entry_size l "[(pos, weight)]"] label
      by (simp add: tsv_insert_def entry_size_def quoted_plain_len assms(2) tsvector_lexeme_cost_def)
  next
    case (Some labels)
    have "sum_list (map label_size (bt_insert pos weight labels)) \<le> sum_list (map label_size labels) + 9"
      using sum_list_bt_insert [OF tsv_ok_labels [OF assms(1) Some], of label_size pos weight] label by simp
    then show ?thesis
      using sum_list_bt_insert [OF ok, of entry_size l "bt_insert pos weight labels"] Some
      by (simp add: tsv_insert_def entry_size_def tsvector_lexeme_cost_def)
  qed
qed

lemma add_lexemes_size:
  "tsv_ok tsv \<Longrightarrow> 1 \<le> n \<Longrightarrow> n + int (length ls) \<le> 10 ^ 7 \<Longrightarrow> \<forall>l \<in> set ls. plain l \<Longrightarrow>
   int (sum_list (map entry_size (add_lexemes weight ls n tsv))) \<le> int (sum_list (map entry_size tsv)) + total_cost ls"
proof (induction weight ls n tsv rule: add_lexemes.induct)
  case (2 weight l ls n tsv)
  have "0 \<le> tsvector_lexeme_cost l"
    by (simp add: tsvector_lexeme_cost_def)
  then show ?case
    using 2 tsv_insert_size [of tsv l n weight] by (cases "str_len l > MAX_LEXEME_BYTES") simp_all
qed simp

text \<open>
  Adding a text. The vector stays well formed. Every lexeme of at most 2046 bytes gets its own
  position with the weight of the text, consecutively in the order of the text, and nothing else
  changes. The positions begin at least two behind every position in use, so that no phrase spans
  two texts.
\<close>

theorem add_text_exact:
  assumes "tsv_ok tsv"
  shows "tsv_ok (add_text tr text weight tsv)
    \<and> (\<forall>l p. tsv_label (add_text tr text weight tsv) l p =
         (let lexemes = kept (tokenize_flat tr text); n = next_position tsv
          in if n \<le> p \<and> p < n + int (length lexemes) \<and> lexemes ! nat (p - n) = l then Some weight else tsv_label tsv l p))
    \<and> (\<forall>l p. tsv_label tsv l p \<noteq> None \<longrightarrow> p + 1 < next_position tsv)"
  unfolding add_text_def Let_def
  using add_lexemes_ok [OF assms next_position_pos] add_lexemes_label [OF assms next_position_pos]
    next_position_gap [OF assms] by blast

text \<open>
  (C32) Adding a text within a budget. Nothing happens unless the budget is positive. Otherwise the
  longest affordable beginning of the acceptable lexemes is added just as without a budget, their
  cost is what the result subtracts, and the result is not negative. The text that is sent to
  PostgreSQL grows by at most the budget that was spent, as long as positions have seven digits.
\<close>

theorem add_text_bounded_exact:
  assumes "tsv_ok tsv" and "next_position tsv + int (length (tokenize_flat tr text)) \<le> 10 ^ 7"
  shows "case add_text_bounded tr text weight budget tsv of (rest, tsv') \<Rightarrow>
     if budget \<le> 0 then rest = budget \<and> tsv' = tsv
     else \<exists>k. tsv' = add_lexemes weight (take k (kept (tokenize_flat tr text))) (next_position tsv) tsv
       \<and> rest = budget - total_cost (take k (kept (tokenize_flat tr text))) \<and> 0 \<le> rest
       \<and> (k < length (kept (tokenize_flat tr text)) \<longrightarrow> rest < tsvector_lexeme_cost (kept (tokenize_flat tr text) ! k))
       \<and> tsv_ok tsv'
       \<and> int (str_len (tsvector_text tsv')) \<le> int (str_len (tsvector_text tsv)) + (budget - rest)"
proof (cases "budget \<le> 0")
  case False
  let ?ls = "kept (tokenize_flat tr text)" and ?k = "length (affordable budget (kept (tokenize_flat tr text)))"
  let ?tsv = "add_lexemes weight (take ?k ?ls) (next_position tsv) tsv"
  have run: "add_text_bounded tr text weight budget tsv = (budget - total_cost (take ?k ?ls), ?tsv)"
    using False affordable_take [of budget ?ls] by (simp add: add_text_bounded_def add_lexemes_bounded_eq)
  have "length (take ?k ?ls) \<le> length (tokenize_flat tr text)"
    by (simp add: kept_def le_trans [OF min.cobounded1])
  moreover have "\<forall>l \<in> set (take ?k ?ls). plain l"
    using tokenize_flat_plain by (auto simp: kept_def dest!: in_set_takeD)
  ultimately have "int (sum_list (map entry_size ?tsv)) \<le> int (sum_list (map entry_size tsv)) + total_cost (take ?k ?ls)"
    using assms next_position_pos by (intro add_lexemes_size) auto
  moreover have "tsv \<noteq> [] \<longrightarrow> 1 \<le> sum_list (map entry_size tsv)"
    by (cases tsv) (auto simp: entry_size_def)
  moreover have "0 \<le> total_cost (take ?k ?ls)"
    by (intro sum_list_nonneg) (auto simp: tsvector_lexeme_cost_def)
  ultimately have "int (str_len (tsvector_text ?tsv)) \<le> int (str_len (tsvector_text tsv)) + total_cost (take ?k ?ls)"
    by (cases "tsv = []") (auto simp: tsvector_text_len)
  then show ?thesis
    unfolding run using False affordable_take [of budget ?ls] affordable_cost [of budget ?ls] affordable_maximal [of budget ?ls]
      add_lexemes_ok [OF assms(1) next_position_pos]
    by (auto intro!: exI [of _ ?k])
qed (simp add: add_text_bounded_def)

theorem add_text_bounded_exact_witness:
  "\<exists>tsv. add_text_bounded [] (lit ''42 1999-7'') WeightD 33 tsvector_new = (3, tsv) \<and> str_len (tsvector_text tsv) \<le> 30"
proof -
  have lexemes: "tokenize_flat [] (lit ''42 1999-7'') = [lit ''42'', lit ''1999'', lit ''7'']"
    by (simp add: tokenize_flat_run lit_def of_char_def digit_char_actions separator_actions ascii_alnum_def)
  have start: "next_position tsvector_new = 1"
    by (simp add: next_position_def tsvector_new_def)
  have "fst (add_text_bounded [] (lit ''42 1999-7'') WeightD 33 tsvector_new) = 3"
    unfolding add_text_bounded_def lexemes by (simp add: Let_def tsvector_lexeme_cost_def lit_def len_utf8_def of_char_def)
  moreover have "str_len (tsvector_text tsvector_new) = 0"
    by (simp add: tsvector_text_def tsvector_new_def)
  ultimately show ?thesis
    using add_text_bounded_exact [of tsvector_new "[]" "lit ''42 1999-7''" 33 WeightD]
    by (auto simp: lexemes start split: prod.splits)
qed

end
