(* ===== verification/Search.thy ===== *)
theory Search
  imports Tsvector
begin

text \<open>
  Searching for what was indexed: the two sides of \<open>bitmagnet-fts\<close> together. A query whose tokens
  stand side by side in an indexed text finds the document, under the documented meaning of a
  \<open>tsquery\<close>.
\<close>

section \<open>The meaning of a query\<close>

text \<open>
  Where a query holds, given where lexemes occur, and whether it matches: a phrase holds where its
  right side does when the left side holds one position before; the other operators are read
  position by position inside a phrase and on whole documents outside of it.
\<close>

primrec tsq_at :: "(str \<Rightarrow> int \<Rightarrow> bool) \<Rightarrow> tsq \<Rightarrow> int \<Rightarrow> bool" where
  "tsq_at occurs (TLex w prefix) p \<longleftrightarrow> (\<exists>l. occurs l p \<and> (if prefix then take (length w) l = w else l = w))"
| "tsq_at occurs (TNot e) p \<longleftrightarrow> \<not> tsq_at occurs e p"
| "tsq_at occurs (TPhrase e f) p \<longleftrightarrow> tsq_at occurs e (p - 1) \<and> tsq_at occurs f p"
| "tsq_at occurs (TAnd e f) p \<longleftrightarrow> tsq_at occurs e p \<and> tsq_at occurs f p"
| "tsq_at occurs (TOr e f) p \<longleftrightarrow> tsq_at occurs e p \<or> tsq_at occurs f p"

primrec tsq_matches :: "(str \<Rightarrow> int \<Rightarrow> bool) \<Rightarrow> tsq \<Rightarrow> bool" where
  "tsq_matches occurs (TLex w prefix) \<longleftrightarrow> (\<exists>p. tsq_at occurs (TLex w prefix) p)"
| "tsq_matches occurs (TNot e) \<longleftrightarrow> \<not> tsq_matches occurs e"
| "tsq_matches occurs (TPhrase e f) \<longleftrightarrow> (\<exists>p. tsq_at occurs (TPhrase e f) p)"
| "tsq_matches occurs (TAnd e f) \<longleftrightarrow> tsq_matches occurs e \<and> tsq_matches occurs f"
| "tsq_matches occurs (TOr e f) \<longleftrightarrow> tsq_matches occurs e \<or> tsq_matches occurs f"

primrec positive :: "tsq \<Rightarrow> bool" where
  "positive (TLex w prefix) \<longleftrightarrow> True"
| "positive (TNot e) \<longleftrightarrow> False"
| "positive (TPhrase e f) \<longleftrightarrow> positive e \<and> positive f"
| "positive (TAnd e f) \<longleftrightarrow> positive e \<and> positive f"
| "positive (TOr e f) \<longleftrightarrow> positive e \<and> positive f"

lemma tsq_at_matches: "positive e \<Longrightarrow> tsq_at occurs e p \<Longrightarrow> tsq_matches occurs e"
  by (induction e) (auto split: if_splits)

section \<open>A query in progress\<close>

text \<open>
  A text of the grammar whose last operand holds at a position, so that a phrase may go on there.
\<close>

definition holds_at :: "(str \<Rightarrow> int \<Rightarrow> bool) \<Rightarrow> tsq_level \<Rightarrow> str \<Rightarrow> int \<Rightarrow> bool" where
  "holds_at occurs level s p \<longleftrightarrow> (\<exists>e. tsq_reads level s e \<and> positive e \<and> tsq_at occurs e p)"

definition conjunct_at :: "(str \<Rightarrow> int \<Rightarrow> bool) \<Rightarrow> str \<Rightarrow> int \<Rightarrow> bool" where
  "conjunct_at occurs s p \<longleftrightarrow> holds_at occurs Phrase s p
     \<or> (\<exists>s1 e1 s2. s = s1 @ lit '' & '' @ s2 \<and> tsq_reads Conjunction s1 e1 \<and> tsq_matches occurs e1 \<and> holds_at occurs Phrase s2 p)"

definition disjunct_at :: "(str \<Rightarrow> int \<Rightarrow> bool) \<Rightarrow> str \<Rightarrow> int \<Rightarrow> bool" where
  "disjunct_at occurs s p \<longleftrightarrow> conjunct_at occurs s p
     \<or> (\<exists>s1 e1 s2. s = s1 @ lit '' | '' @ s2 \<and> tsq_reads Disjunction s1 e1 \<and> conjunct_at occurs s2 p)"

lemma conjunct_at_matches: "conjunct_at occurs s p \<Longrightarrow> \<exists>e. tsq_reads Conjunction s e \<and> tsq_matches occurs e"
  unfolding conjunct_at_def holds_at_def by (metis conjunction phrase tsq_at_matches tsq_matches.simps(4))

lemma disjunct_at_matches: "disjunct_at occurs s p \<Longrightarrow> \<exists>e. tsq_reads Disjunction s e \<and> tsq_matches occurs e"
  unfolding disjunct_at_def by (metis conjunct_at_matches conjuncts disjunction tsq_matches.simps(5))

lemma holds_at_operand: "holds_at occurs Operand t p \<Longrightarrow> disjunct_at occurs t p"
  unfolding disjunct_at_def conjunct_at_def holds_at_def by (blast intro: operand)

lemma holds_at_followed:
  assumes "holds_at occurs Phrase s p" and "holds_at occurs Operand t (p + 1)"
  shows "holds_at occurs Phrase (s @ lit '' <-> '' @ t) (p + 1)"
proof -
  obtain e f where "tsq_reads Phrase s e" "positive e" "tsq_at occurs e p"
    and "tsq_reads Operand t f" "positive f" "tsq_at occurs f (p + 1)"
    using assms unfolding holds_at_def by blast
  then show ?thesis
    unfolding holds_at_def by (intro exI [of _ "TPhrase e f"]) (simp add: followed)
qed

lemma conjunct_at_followed:
  assumes "conjunct_at occurs s p" and "holds_at occurs Operand t (p + 1)"
  shows "conjunct_at occurs (s @ lit '' <-> '' @ t) (p + 1)"
  using assms(1) holds_at_followed [OF _ assms(2)] unfolding conjunct_at_def by (metis append.assoc)

lemma disjunct_at_followed:
  assumes "disjunct_at occurs s p" and "holds_at occurs Operand t (p + 1)"
  shows "disjunct_at occurs (s @ lit '' <-> '' @ t) (p + 1)"
  using assms(1) conjunct_at_followed [OF _ assms(2)] unfolding disjunct_at_def by (metis append.assoc)

lemma disjunct_at_and:
  assumes "disjunct_at occurs s p" and "holds_at occurs Operand t q"
  shows "disjunct_at occurs (s @ lit '' & '' @ t) q"
proof -
  have t: "holds_at occurs Phrase t q"
    using assms(2) unfolding holds_at_def by (blast intro: operand)
  have "conjunct_at occurs (s' @ lit '' & '' @ t) q" if "conjunct_at occurs s' p" for s'
    using conjunct_at_matches [OF that] t unfolding conjunct_at_def by blast
  then show ?thesis
    using assms(1) unfolding disjunct_at_def by (metis append.assoc)
qed

lemma disjunct_at_or:
  assumes "disjunct_at occurs s p" and "holds_at occurs Operand t q"
  shows "disjunct_at occurs (s @ lit '' | '' @ t) q"
proof -
  have "conjunct_at occurs t q"
    using assms(2) unfolding conjunct_at_def holds_at_def by (blast intro: operand)
  then show ?thesis
    using disjunct_at_matches [OF assms(1)] unfolding disjunct_at_def by blast
qed

lemma holds_at_lexeme:
  assumes "w \<noteq> []" and "plain w" and "occurs w p"
  shows "holds_at occurs Operand (quote_lexeme w) p" and "holds_at occurs Operand (quote_lexeme w @ lit '':*'') p"
proof -
  note reads = reads_quote_lexeme [OF assms(1,2)]
  show "holds_at occurs Operand (quote_lexeme w) p"
    unfolding holds_at_def using assms(3) by (intro exI [of _ "TLex w False"]) (simp add: lexeme [OF reads])
  show "holds_at occurs Operand (quote_lexeme w @ lit '':*'') p"
    unfolding holds_at_def using assms(3) by (intro exI [of _ "TLex w True"]) (auto simp: prefixed [OF reads])
qed

lemma followed_at:
  assumes "disjunct_at occurs (pre @ quote_lexeme v) p" and "holds_at occurs Operand t (p + 1)"
  shows "disjunct_at occurs ((pre @ quote_lexeme v @ lit '' <-> '') @ t) (p + 1)"
  using disjunct_at_followed [OF assms] by simp

lemma lexemes_at:
  assumes "ws \<noteq> []" and "\<forall>w \<in> set ws. w \<noteq> [] \<and> plain w" and "\<forall>i < length ws. occurs (ws ! i) (p + int i)"
    and "\<And>t. holds_at occurs Operand t p \<Longrightarrow> disjunct_at occurs (pre @ t) p" and "suffix = [] \<or> suffix = lit '':*''"
  shows "disjunct_at occurs (pre @ str_join (lit '' <-> '') (map quote_lexeme ws) @ suffix) (p + int (length ws) - 1)"
  using assms(1-4)
proof (induction ws arbitrary: p pre rule: induct_list012)
  case (2 w)
  then show ?case
    using holds_at_lexeme [of w occurs p] assms(5) by auto
next
  case (3 v w ws)
  have "disjunct_at occurs (pre @ quote_lexeme v) p"
    using "3.prems"(2) "3.prems"(3) [rule_format, of 0] by (intro "3.prems"(4) holds_at_lexeme) auto
  moreover have "\<forall>i < length (w # ws). occurs ((w # ws) ! i) (p + 1 + int i)"
  proof (intro allI impI)
    fix i
    assume "i < length (w # ws)"
    then show "occurs ((w # ws) ! i) (p + 1 + int i)"
      using "3.prems"(3) [rule_format, of "Suc i"] by (simp add: algebra_simps)
  qed
  ultimately have "disjunct_at occurs ((pre @ quote_lexeme v @ lit '' <-> '') @ str_join (lit '' <-> '') (map quote_lexeme (w # ws)) @ suffix)
      (p + 1 + int (length (w # ws)) - 1)"
    using "3.prems"(2) followed_at by (intro "3.IH"(2)) simp_all
  then show ?case
    by (simp add: algebra_simps)
qed simp_all

section \<open>The builder keeps pace with the document\<close>

text \<open>The parts so far hold up to the position before the next one.\<close>

definition keeps_pace :: "(str \<Rightarrow> int \<Rightarrow> bool) \<Rightarrow> str list \<Rightarrow> int \<Rightarrow> bool" where
  "keeps_pace occurs parts p \<longleftrightarrow> parts = [] \<or> disjunct_at occurs (str_join (lit '' '') parts) (p - 1)"

lemma connective_at:
  assumes "disjunct_at occurs s (p - 1)" and "holds_at occurs Operand t p"
  shows "disjunct_at occurs ((s @ lit '' '' @
    (case operator of Some PendOr \<Rightarrow> lit ''|'' | Some PendFollowedBy \<Rightarrow> lit ''<->'' | _ \<Rightarrow> lit ''&'') @ lit '' '') @ t) p"
  using disjunct_at_or [OF assms] disjunct_at_and [OF assms] disjunct_at_followed [OF assms(1), of t] assms(2)
  by (auto simp: lit_def split: option.split pending_op.split)

lemma add_expr_keeps_pace:
  assumes "keeps_pace occurs parts p" and "ws \<noteq> []" and "\<forall>w \<in> set ws. w \<noteq> [] \<and> plain w"
    and "\<forall>i < length ws. occurs (ws ! i) (p + int i)"
  shows "keeps_pace occurs (fst (add_expr parts operator False (str_join (lit '' <-> '') (map quote_lexeme ws)) rest))
    (p + int (length ws))"
proof -
  let ?op = "case operator of Some PendOr \<Rightarrow> lit ''|'' | Some PendFollowedBy \<Rightarrow> lit ''<->'' | _ \<Rightarrow> lit ''&''"
  define pre where "pre = (if parts = [] then [] else str_join (lit '' '') parts @ lit '' '' @ ?op @ lit '' '')"
  have pre: "disjunct_at occurs (pre @ t) p" if "holds_at occurs Operand t p" for t
    using assms(1) connective_at [OF _ that, of "str_join (lit '' '') parts"] holds_at_operand [OF that]
    by (auto simp: keeps_pace_def pre_def)
  have "str_join (lit '' '') (parts @ (if parts = [] then [] else [?op]) @ [expr]) = pre @ expr" for expr
    using str_join_snoc [of "parts @ [?op]" "lit '' ''" expr] str_join_snoc [of parts "lit '' ''" ?op] by (simp add: pre_def)
  then show ?thesis
    using lexemes_at [OF assms(2-4) pre, of "[]"] lexemes_at [OF assms(2-4) pre, of "lit '':*''"]
    by (auto simp: keeps_pace_def add_expr_def Let_def algebra_simps split: list.split qtoken.split)
qed

definition plain_query :: "str \<Rightarrow> bool" where
  "plain_query raw \<longleftrightarrow> of_char CHR ''('' \<notin> set raw \<and> of_char CHR '')'' \<notin> set raw \<and> of_char CHR ''!'' \<notin> set raw"

definition plain_tokens :: "qtoken list \<Rightarrow> bool" where
  "plain_tokens tokens \<longleftrightarrow> QOpenParens \<notin> set tokens \<and> QNegation \<notin> set tokens"

lemma plain_tokens_add_expr: "plain_tokens rest \<Longrightarrow> plain_tokens (snd (add_expr parts operator negated expr rest))"
  by (auto simp: plain_tokens_def add_expr_def Let_def split: list.split qtoken.split)

lemma tsquery_loop_keeps_pace:
  assumes "plain_tokens tokens" and "keeps_pace occurs parts p"
    and "\<forall>i < length (operand_lexemes tr tokens). occurs (operand_lexemes tr tokens ! i) (p + int i)"
  shows "keeps_pace occurs (tsquery_loop tr parts operator False tokens) (p + int (length (operand_lexemes tr tokens)))"
  using assms
proof (induction tokens arbitrary: parts operator p rule: length_induct)
  case (1 tokens)
  show ?case
  proof (cases tokens)
    case Nil
    then show ?thesis
      using 1 by simp
  next
    case (Cons token rest)
    let ?ws = "token_lexemes tr token" and ?more = "operand_lexemes tr rest"
    have IH: "keeps_pace occurs (tsquery_loop tr parts' operator' False s) (p' + int (length ?more))"
      if "length s \<le> length rest" "plain_tokens s" "operand_lexemes tr s = ?more" "keeps_pace occurs parts' p'"
        "\<forall>i < length ?more. occurs (?more ! i) (p' + int i)" for s parts' operator' p'
      using 1(1) [rule_format, of s parts' p' operator'] that Cons by (simp del: length_concat)
    have rest: "plain_tokens rest"
      using "1.prems"(1) by (simp add: Cons plain_tokens_def)
    have here: "\<forall>i < length ?ws. occurs (?ws ! i) (p + int i)"
    proof (intro allI impI)
      fix i
      assume "i < length ?ws"
      then show "occurs (?ws ! i) (p + int i)"
        using "1.prems"(3) [rule_format, of i] by (simp add: Cons nth_append del: length_concat)
    qed
    have later: "\<forall>i < length ?more. occurs (?more ! i) (p + int (length ?ws) + int i)"
    proof (intro allI impI)
      fix i
      assume "i < length ?more"
      then show "occurs (?more ! i) (p + int (length ?ws) + int i)"
        using "1.prems"(3) [rule_format, of "length ?ws + i"] by (simp add: Cons nth_append add.assoc del: length_concat)
    qed
    have skip: "keeps_pace occurs (tsquery_loop tr parts operator' False rest) (p + int (length ?more))" if "?ws = []" for operator'
      using IH [OF _ rest refl "1.prems"(2)] later that by simp
    let ?added = "add_expr parts operator False (str_join (lit '' <-> '') (map quote_lexeme ?ws)) rest"
    have add: "keeps_pace occurs (tsquery_loop tr (fst ?added) None False (snd ?added)) (p + int (length ?ws) + int (length ?more))"
      if "?ws \<noteq> []" "\<forall>w \<in> set ?ws. w \<noteq> [] \<and> plain w"
      by (intro IH add_expr_keeps_pace that here later plain_tokens_add_expr rest "1.prems"(2)) (simp_all add: add_expr_length)
    show ?thesis
      using "1.prems"(1) skip add tokenize_flat_plain
      by (cases token) (simp_all add: Cons Let_def plain_tokens_def add.assoc del: length_concat)
  qed
qed

lemma read_quoted_rest: "set (snd (read_quoted quote buf s)) \<subseteq> set s"
proof (induction quote buf s rule: read_quoted.induct)
  case (2 quote buf ch rest)
  then show ?case
    by (cases rest) auto
qed simp

lemma lex_plain_query: "plain_query raw \<Longrightarrow> plain_tokens (lex_app_query raw)"
proof (induction raw rule: length_induct)
  case (1 raw)
  show ?case
  proof (cases raw)
    case (Cons c rest)
    have IH: "plain_tokens (lex_app_query s)" if "length s \<le> length rest" "set s \<subseteq> set rest" for s
    proof -
      have "plain_query s"
        using 1(2) that(2) by (auto simp: Cons plain_query_def)
      then show ?thesis
        using 1(1) that(1) by (simp add: Cons)
    qed
    have "set (dropWhile is_go_word_char rest) \<subseteq> set rest"
      by (auto dest: set_dropWhileD)
    then show ?thesis
      using 1(2) IH [of rest] IH [of "snd (read_quoted c [] rest)"] IH [of "dropWhile is_go_word_char rest"] read_quoted_rest
        read_quoted_length [of c "[]" rest] length_dropWhile_le [of is_go_word_char rest]
      by (auto simp: Cons plain_query_def plain_tokens_def Let_def)
  qed (simp add: plain_tokens_def)
qed



section \<open>The reach of a negation\<close>

text \<open>
  A negation in front of a quotation only reaches its first lexeme: the query for documents that
  do not contain \<open>1 2\<close> matches one that does.
\<close>

theorem negated_quotation_matches:
  "app_query_to_tsquery [] (lit ''!\"1 2\"'') = lit ''! 1 <-> 2''
   \<and> tsq_reads Disjunction (lit ''! 1 <-> 2'') (TPhrase (TNot (TLex (lit ''1'') False)) (TLex (lit ''2'') False))
   \<and> tsq_matches (\<lambda>l p. tsv_label (add_text [] (lit ''1 2 7 2'') WeightA tsvector_new) l p \<noteq> None)
       (TPhrase (TNot (TLex (lit ''1'') False)) (TLex (lit ''2'') False))"
proof (intro conjI)
  have bare_chars: "list_all bare_char (lit ''1'')" "list_all bare_char (lit ''2'')"
    by (simp_all add: lit_def bare_char_def ascii_alnum_def of_char_def)
  have "tokenize_flat [] (lit ''1 2'') = [lit ''1'', lit ''2'']"
    by (simp add: tokenize_flat_run lit_def of_char_def digit_char_actions separator_actions ascii_alnum_def)
  moreover have "lex_app_query (lit ''!\"1 2\"'') = [QNegation, QQuoted (lit ''1 2'')]"
    by (simp add: lit_def Let_def of_char_def)
  moreover have "tsquery_loop [] [] None False [QNegation, QQuoted v] =
      [lit ''!'', str_join (lit '' <-> '') (map quote_lexeme (tokenize_flat [] v))]" if "tokenize_flat [] v \<noteq> []" for v
    using that by (simp add: add_expr_def Let_def)
  ultimately show "app_query_to_tsquery [] (lit ''!\"1 2\"'') = lit ''! 1 <-> 2''"
    by (simp add: app_query_to_tsquery_def tokens_to_tsquery_def quote_lexeme_def bare_chars del: tsquery_loop.simps) (simp add: lit_def)
  have "tsq_reads Lexeme (lit ''1'') (TLex (lit ''1'') False)" "tsq_reads Lexeme (lit ''2'') (TLex (lit ''2'') False)"
    using bare_chars by (auto intro!: bare simp: lit_def)
  from followed [OF operand [OF negation [OF lexeme [OF this(1)]]] lexeme [OF this(2)]]
  show "tsq_reads Disjunction (lit ''! 1 <-> 2'') (TPhrase (TNot (TLex (lit ''1'') False)) (TLex (lit ''2'') False))"
    by (intro conjuncts phrase) (simp add: lit_def)
  have lexemes: "tokenize_flat [] (lit ''1 2 7 2'') = [lit ''1'', lit ''2'', lit ''7'', lit ''2'']"
    by (simp add: tokenize_flat_run lit_def of_char_def digit_char_actions separator_actions ascii_alnum_def)
  have start: "next_position tsvector_new = 1"
    by (simp add: next_position_def tsvector_new_def)
  show "tsq_matches (\<lambda>l p. tsv_label (add_text [] (lit ''1 2 7 2'') WeightA tsvector_new) l p \<noteq> None)
       (TPhrase (TNot (TLex (lit ''1'') False)) (TLex (lit ''2'') False))"
    unfolding add_text_def lexemes start tsq_matches.simps
    by (rule exI [of _ 4]) (simp add: tsv_label_insert lit_def of_char_def len_utf8_def)
qed

text \<open>A wildcard behind a parenthesised operand is dropped.\<close>

theorem wildcard_after_parentheses:
  "app_query_to_tsquery [] (lit ''(\"1\")*'') = lit ''(1)''"
proof -
  have bare_chars: "list_all bare_char (lit ''1'')"
    by (simp add: lit_def bare_char_def ascii_alnum_def of_char_def)
  have "tokenize_flat [] (lit ''1'') = [lit ''1'']"
    by (simp add: tokenize_flat_run lit_def of_char_def digit_char_actions ascii_alnum_def)
  moreover have "lex_app_query (lit ''(\"1\")*'') = [QOpenParens, QQuoted (lit ''1''), QCloseParens, QWildcard]"
    by (simp add: lit_def Let_def of_char_def)
  ultimately show ?thesis
    by (simp add: app_query_to_tsquery_def tokens_to_tsquery_def add_expr_def quote_lexeme_def bare_chars Let_def) (simp add: lit_def)
qed

end
