(* ===== verification/Queue_Job.thy ===== *)
theory Queue_Job
  imports Compact Counters Ordered_Map
begin

text \<open>
  \<open>bitmagnet-queue/src/{id,job,message,backoff}.rs\<close>: the jobs of the queue, the constructors of
  their payloads, and the delay before a retry. \<open>serde_json\<close> and \<open>sha2\<close> are arguments.
\<close>

section \<open>Jobs\<close>

text \<open>\<open>ProtocolId\<close> is, like \<open>Id20\<close>, an array of twenty bytes with the derived order.\<close>

type_synonym protocol_id = id20

datatype queue_job_status = Pending | Processed | Retry | Failed

definition status_as_str :: "queue_job_status \<Rightarrow> string" where
  "status_as_str s = (case s of Pending \<Rightarrow> ''pending'' | Processed \<Rightarrow> ''processed'' | Retry \<Rightarrow> ''retry'' | Failed \<Rightarrow> ''failed'')"

abbreviation DEFAULT_ARCHIVAL_DURATION :: duration where
  "DEFAULT_ARCHIVAL_DURATION \<equiv> 7 * 24 * 60 * 60 * nanos_per_sec"

record queue_job_options =
  qo_max_retries :: u32
  qo_priority :: int
  qo_delay :: duration

definition queue_job_options_default :: queue_job_options where
  "queue_job_options_default = \<lparr>qo_max_retries = 0, qo_priority = 0, qo_delay = 0\<rparr>"

definition with_max_retries :: "u32 \<Rightarrow> queue_job_options \<Rightarrow> queue_job_options" where
  "with_max_retries n opts = opts\<lparr>qo_max_retries := n\<rparr>"

definition with_priority :: "int \<Rightarrow> queue_job_options \<Rightarrow> queue_job_options" where
  "with_priority p opts = opts\<lparr>qo_priority := p\<rparr>"

definition with_delay :: "duration \<Rightarrow> queue_job_options \<Rightarrow> queue_job_options" where
  "with_delay d opts = opts\<lparr>qo_delay := d\<rparr>"

record queue_job =
  qj_queue :: string
  qj_status :: queue_job_status
  qj_payload :: str
  qj_fingerprint :: str
  qj_max_retries :: u32
  qj_priority :: int
  qj_archival_duration :: duration
  qj_delay :: duration

datatype 'j job_error = Marshal 'j

section \<open>Payloads\<close>

text \<open>A JSON value; a number is its text.\<close>

datatype json = JNull | JBool bool | JNumber str | JString str | JArray "json list" | JObject "(str \<times> json) list"

type_synonym classifier_flags = "(str, json) btree_map"

record process_torrent_params =
  pt_classify_mode :: int
  pt_classifier_workflow :: str
  pt_classifier_flags :: "classifier_flags option"
  pt_info_hashes :: "protocol_id list"

text \<open>A \<open>GoTime\<close> is its text.\<close>

record process_torrent_batch_params =
  pb_info_hash_greater_than :: protocol_id
  pb_updated_before :: str
  pb_classify_mode :: int
  pb_classifier_workflow :: str
  pb_classifier_flags :: "classifier_flags option"
  pb_chunk_size :: u64
  pb_batch_size :: u64
  pb_content_types :: "str option list"
  pb_orphans :: bool

record blob_migration_params =
  bg_info_hash_greater_than :: str
  bg_info_hash_less_or_equal :: str
  bg_range_id :: i64
  bg_num_ranges :: i64
  bg_chunk_size :: i64

datatype queue_payload =
    ProcessTorrent process_torrent_params
  | ProcessTorrentBatch process_torrent_batch_params
  | BlobMigration blob_migration_params

fun as_bool :: "json \<Rightarrow> bool option" where
  "as_bool (JBool b) = Some b"
| "as_bool _ = None"

definition apis_disabled :: "process_torrent_batch_params \<Rightarrow> bool" where
  "apis_disabled p \<longleftrightarrow>
     Option.bind (Option.bind (pb_classifier_flags p) (\<lambda>flags. map_of flags (lit ''apis_enabled''))) as_bool = Some False"

text \<open>
  What the queue uses of \<open>serde_json\<close>: the text of a payload, the value of a text, and the batch
  payload of a text; and the lower-case hexadecimal SHA-256 of a text.
\<close>

record 'j codec =
  jc_to_string :: "queue_payload \<Rightarrow> 'j + str"
  jc_from_str :: "str \<Rightarrow> 'j + json"
  jc_decode_batch :: "str \<Rightarrow> 'j + process_torrent_batch_params"
  jc_digest :: "str \<Rightarrow> str"

definition fingerprint :: "'j codec \<Rightarrow> string \<Rightarrow> str \<Rightarrow> str" where
  "fingerprint jc queue payload = jc_digest jc (lit queue @ payload)"

definition new_queue_job :: "'j codec \<Rightarrow> string \<Rightarrow> queue_payload \<Rightarrow> queue_job_options \<Rightarrow> 'j job_error + queue_job" where
  "new_queue_job jc queue payload opts =
     rbind (map_err Marshal (jc_to_string jc payload)) (\<lambda>payload.
     Inr \<lparr>qj_queue = queue, qj_status = Pending, qj_payload = payload, qj_fingerprint = fingerprint jc queue payload,
          qj_max_retries = qo_max_retries opts, qj_priority = qo_priority opts,
          qj_archival_duration = DEFAULT_ARCHIVAL_DURATION, qj_delay = qo_delay opts\<rparr>)"

abbreviation PROCESS_TORRENT :: string where "PROCESS_TORRENT \<equiv> ''process_torrent''"
abbreviation PROCESS_TORRENT_BATCH :: string where "PROCESS_TORRENT_BATCH \<equiv> ''process_torrent_batch''"
abbreviation BLOB_MIGRATION :: string where "BLOB_MIGRATION \<equiv> ''blob_migration''"

definition process_torrent_job :: "'j codec \<Rightarrow> process_torrent_params \<Rightarrow> queue_job_options \<Rightarrow> 'j job_error + queue_job" where
  "process_torrent_job jc params opts = new_queue_job jc PROCESS_TORRENT (ProcessTorrent params) (with_max_retries 2 opts)"

definition process_torrent_batch_job ::
  "'j codec \<Rightarrow> process_torrent_batch_params \<Rightarrow> queue_job_options \<Rightarrow> 'j job_error + queue_job" where
  "process_torrent_batch_job jc params opts =
     (let params = (if pb_batch_size params = 0 then params\<lparr>pb_batch_size := 100\<rparr> else params);
          params = (if pb_chunk_size params = 0 then params\<lparr>pb_chunk_size := 10000\<rparr> else params)
      in new_queue_job jc PROCESS_TORRENT_BATCH (ProcessTorrentBatch params) (with_max_retries 2 opts))"

abbreviation BLOB_MIGRATION_DEFAULT_CHUNK_SIZE :: i64 where "BLOB_MIGRATION_DEFAULT_CHUNK_SIZE \<equiv> 2000"

definition blob_migration_job :: "'j codec \<Rightarrow> blob_migration_params \<Rightarrow> queue_job_options \<Rightarrow> 'j job_error + queue_job" where
  "blob_migration_job jc params opts =
     (let params = (if bg_chunk_size params = 0 then params\<lparr>bg_chunk_size := BLOB_MIGRATION_DEFAULT_CHUNK_SIZE\<rparr> else params);
          params = (if bg_num_ranges params = 0 then params\<lparr>bg_num_ranges := 1\<rparr> else params)
      in new_queue_job jc BLOB_MIGRATION (BlobMigration params) (with_max_retries 2 opts))"

section \<open>Backoff\<close>

abbreviation JITTER_MODULUS :: u32 where "JITTER_MODULUS \<equiv> 30"

text \<open>An overflow of a 64-bit operation is \<open>None\<close>, the panic of a checked build.\<close>

definition u64_checked :: "nat \<Rightarrow> u64 option" where
  "u64_checked n = (if n < 2 ^ 64 then Some (of_nat n) else None)"

record backoff_envelope =
  be_deterministic_seconds :: u64
  be_jitter_min_seconds :: u64
  be_jitter_max_seconds :: u64

definition deterministic_seconds :: "u32 \<Rightarrow> u64 option" where
  "deterministic_seconds retry_count =
     Option.bind (u64_checked (unat retry_count ^ 4)) (\<lambda>n. u64_checked (unat n + 16))"

definition envelope :: "u32 \<Rightarrow> backoff_envelope option" where
  "envelope retry_count =
     Option.bind (deterministic_seconds retry_count) (\<lambda>base.
     Option.bind (u64_checked (unat (JITTER_MODULUS - 1) * unat retry_count)) (\<lambda>jitter.
     Some \<lparr>be_deterministic_seconds = base, be_jitter_min_seconds = 0, be_jitter_max_seconds = jitter\<rparr>))"

definition min_seconds :: "backoff_envelope \<Rightarrow> u64 option" where
  "min_seconds e = u64_checked (unat (be_deterministic_seconds e) + unat (be_jitter_min_seconds e))"

definition max_seconds :: "backoff_envelope \<Rightarrow> u64 option" where
  "max_seconds e = u64_checked (unat (be_deterministic_seconds e) + unat (be_jitter_max_seconds e))"

definition backoff_seconds_with_jitter :: "u32 \<Rightarrow> u32 \<Rightarrow> u64 option" where
  "backoff_seconds_with_jitter retry_count jitter =
     (if jitter < JITTER_MODULUS
      then Option.bind (deterministic_seconds retry_count) (\<lambda>base.
           Option.bind (u64_checked (unat jitter * unat retry_count)) (\<lambda>spread.
           u64_checked (unat base + unat spread)))
      else None)"

text \<open>The draw from the wall clock: \<open>splitmix64\<close> over its nanoseconds.\<close>

definition rand_int :: "u64 \<Rightarrow> u32 \<Rightarrow> u32" where
  "rand_int seed bound =
     (let z = seed + 0x9e3779b97f4a7c15;
          z = (z XOR drop_bit 30 z) * 0xbf58476d1ce4e5b9;
          z = (z XOR drop_bit 27 z) * 0x94d049bb133111eb;
          z = z XOR drop_bit 31 z
      in ucast (z mod ucast bound))"

definition calculate_backoff :: "u64 \<Rightarrow> u32 \<Rightarrow> u64 option" where
  "calculate_backoff clock retry_count = backoff_seconds_with_jitter retry_count (rand_int clock JITTER_MODULUS)"

section \<open>Facts\<close>

lemma new_queue_job_Inr:
  "new_queue_job jc queue payload opts = Inr job \<longleftrightarrow>
     (\<exists>s. jc_to_string jc payload = Inr s \<and>
        job = \<lparr>qj_queue = queue, qj_status = Pending, qj_payload = s, qj_fingerprint = fingerprint jc queue s,
          qj_max_retries = qo_max_retries opts, qj_priority = qo_priority opts,
          qj_archival_duration = DEFAULT_ARCHIVAL_DURATION, qj_delay = qo_delay opts\<rparr>)"
  by (auto simp: new_queue_job_def rbind_Inr)

lemma u64_checked_Some: "u64_checked n = Some w \<longleftrightarrow> n < 2 ^ 64 \<and> unat w = n"
  by (auto simp: u64_checked_def unat_of_nat take_bit_nat_eq_self word_unat_eq_iff)

lemma rand_int_bound:
  assumes "0 < bound"
  shows "rand_int seed bound < bound"
proof -
  have small: "unat bound < 2 ^ 32"
    using unsigned_less [of bound] by simp
  then have "unat (ucast bound :: u64) = unat bound"
    by (simp add: unsigned_ucast_eq take_bit_nat_eq_self)
  then have less: "unat ((z :: u64) mod ucast bound) < unat bound" for z
    using assms by (simp add: unat_mod word_less_nat_alt)
  then have "unat (ucast (z mod ucast bound) :: u32) = unat (z mod ucast bound)" for z :: u64
    using less_trans [OF less small] by (simp add: unsigned_ucast_eq take_bit_nat_eq_self)
  then show ?thesis
    using less by (simp add: rand_int_def Let_def word_less_nat_alt)
qed

lemma u64_checked_ok:
  assumes "n < 2 ^ 64"
  obtains w where "u64_checked n = Some w" and "unat w = n"
  using assms u64_checked_Some [of n] by (auto simp: u64_checked_def)

lemma deterministic_seconds_small:
  assumes "unat n < 2 ^ 16"
  obtains w where "deterministic_seconds n = Some w" and "unat w = unat n ^ 4 + 16" and "unat n ^ 4 \<le> (2 ^ 16 - 1) ^ 4"
proof -
  have bound: "unat n ^ 4 \<le> (2 ^ 16 - 1) ^ 4"
    using assms by (intro power_mono) auto
  then have "unat n ^ 4 < 2 ^ 64" "unat n ^ 4 + 16 < 2 ^ 64"
    by simp_all
  then obtain a b where "u64_checked (unat n ^ 4) = Some a" "unat a = unat n ^ 4"
    "u64_checked (unat n ^ 4 + 16) = Some b" "unat b = unat n ^ 4 + 16"
    by (metis u64_checked_ok)
  then show thesis
    using that bound by (simp add: deterministic_seconds_def)
qed

lemma deterministic_seconds_large:
  assumes "\<not> unat n < 2 ^ 16"
  shows "deterministic_seconds n = None"
proof -
  have "(2 ^ 16) ^ 4 \<le> unat n ^ 4"
    using assms by (intro power_mono) auto
  then show ?thesis
    by (simp add: deterministic_seconds_def u64_checked_def)
qed

text \<open>A delay exists exactly below 65,536 retries, and is at least the base and within its jitter.\<close>

theorem calculate_backoff_bounds:
  "if unat n < 2 ^ 16
   then \<exists>d. calculate_backoff clock n = Some d \<and> unat n ^ 4 + 16 \<le> unat d \<and> unat d \<le> unat n ^ 4 + 16 + 29 * unat n
   else calculate_backoff clock n = None"
proof (cases "unat n < 2 ^ 16")
  case True
  let ?j = "rand_int clock JITTER_MODULUS"
  have j: "?j < JITTER_MODULUS" and "unat ?j \<le> 29"
    using rand_int_bound [of JITTER_MODULUS clock] by (simp_all add: word_less_nat_alt)
  define spread where "spread = unat ?j * unat n"
  have spread: "spread \<le> 29 * unat n"
    unfolding spread_def using \<open>unat ?j \<le> 29\<close> by simp
  obtain base where base: "deterministic_seconds n = Some base" "unat base = unat n ^ 4 + 16" "unat n ^ 4 \<le> (2 ^ 16 - 1) ^ 4"
    using deterministic_seconds_small [OF True] .
  then have "spread < 2 ^ 64" "unat base + spread < 2 ^ 64"
    using spread True by simp_all
  then obtain a b where "u64_checked spread = Some a" "unat a = spread"
    "u64_checked (unat base + spread) = Some b" "unat b = unat base + spread"
    by (metis u64_checked_ok)
  then show ?thesis
    using True j base(1,2) spread by (simp add: calculate_backoff_def backoff_seconds_with_jitter_def spread_def [symmetric])
qed (simp add: calculate_backoff_def backoff_seconds_with_jitter_def deterministic_seconds_large)

end
