(* ===== verification/Batch.thy ===== *)
theory Batch
  imports Queue_Job
begin

text \<open>
  \<open>bitmagnet-queue/src/{batch,batch_pg,batch_handler,producer_pg}.rs\<close>: a reprocessing request walks
  over the torrents in pages, enqueues one job per page, and enqueues its own continuation when it
  has done its share. Over a table that does not change, the whole chain of continuations visits
  every selected torrent exactly once, and ends.
\<close>

section \<open>Planning\<close>

datatype 'j batch_plan_error = PlanJob "'j job_error" | PlanFinalized | PlanInvalidPage

record batch_plan =
  bl_jobs :: "queue_job list"
  bl_max_info_hash :: protocol_id
  bl_chunk_size :: u64
  bl_done :: bool

record batch_selection =
  bs_after_exclusive :: protocol_id
  bs_updated_before :: str
  bs_content_types :: "str option list"
  bs_orphans :: bool
  bs_order_by :: string
  bs_limit :: u64

record batch_planner =
  bp_message :: process_torrent_batch_params
  bp_jobs :: "queue_job list"
  bp_max_info_hash :: protocol_id
  bp_chunk_size :: u64
  bp_done :: bool
  bp_finalized :: bool

definition planner_new :: "process_torrent_batch_params \<Rightarrow> batch_planner" where
  "planner_new message =
     \<lparr>bp_message = message, bp_jobs = [], bp_max_info_hash = pb_info_hash_greater_than message, bp_chunk_size = 0,
      bp_done = False, bp_finalized = False\<rparr>"

definition planner_selection :: "batch_planner \<Rightarrow> batch_selection" where
  "planner_selection pl =
     \<lparr>bs_after_exclusive = bp_max_info_hash pl, bs_updated_before = pb_updated_before (bp_message pl),
      bs_content_types = pb_content_types (bp_message pl), bs_orphans = pb_orphans (bp_message pl),
      bs_order_by = ''info_hash_asc'', bs_limit = pb_batch_size (bp_message pl)\<rparr>"

definition should_query :: "batch_planner \<Rightarrow> bool" where
  "should_query pl \<longleftrightarrow>
     \<not> bp_done pl \<and> (bp_chunk_size pl = 0 \<or> bp_chunk_size pl < pb_chunk_size (bp_message pl))"

text \<open>The loop that checks the order of a page.\<close>

fun ascends :: "protocol_id \<Rightarrow> protocol_id list \<Rightarrow> bool" where
  "ascends previous [] \<longleftrightarrow> True"
| "ascends previous (info_hash # rest) \<longleftrightarrow> \<not> info_hash \<le> previous \<and> ascends info_hash rest"

definition child_params :: "process_torrent_batch_params \<Rightarrow> protocol_id list \<Rightarrow> process_torrent_params" where
  "child_params message page =
     \<lparr>pt_classify_mode = pb_classify_mode message, pt_classifier_workflow = pb_classifier_workflow message,
      pt_classifier_flags = pb_classifier_flags message, pt_info_hashes = page\<rparr>"

definition child_priority :: "process_torrent_batch_params \<Rightarrow> int" where
  "child_priority message = (if apis_disabled message then 4 else 10)"

definition add_page :: "'j codec \<Rightarrow> protocol_id list \<Rightarrow> batch_planner \<Rightarrow> ('j batch_plan_error + unit) \<times> batch_planner" where
  "add_page jc page pl =
     (let message = bp_message pl in
      if bp_finalized pl then (Inl PlanFinalized, pl)
      else if page = [] then (Inr (), pl\<lparr>bp_done := True\<rparr>)
      else if 0 < pb_batch_size message \<and> saturated (length page) > pb_batch_size message then (Inl PlanInvalidPage, pl)
      else if \<not> ascends (bp_max_info_hash pl) page then (Inl PlanInvalidPage, pl)
      else case process_torrent_job jc (child_params message page)
                  (with_priority (child_priority message) queue_job_options_default) of
             Inl e \<Rightarrow> (Inl (PlanJob e), pl)
           | Inr job \<Rightarrow>
               (Inr (), pl\<lparr>bp_jobs := bp_jobs pl @ [job], bp_max_info_hash := last page,
                            bp_chunk_size := u64_saturating_add (bp_chunk_size pl) (saturated (length page)),
                            bp_done := bp_done pl \<or> length page < unat (pb_batch_size message)\<rparr>))"

definition planner_finalize :: "'j codec \<Rightarrow> batch_planner \<Rightarrow> ('j batch_plan_error + batch_plan) \<times> batch_planner" where
  "planner_finalize jc pl =
     (if bp_finalized pl then (Inl PlanFinalized, pl)
      else
        let pl = pl\<lparr>bp_finalized := True\<rparr>;
            plan = (\<lambda>pl. \<lparr>bl_jobs = bp_jobs pl, bl_max_info_hash = bp_max_info_hash pl, bl_chunk_size = bp_chunk_size pl,
                          bl_done = bp_done pl\<rparr>)
        in if bp_done pl then (Inr (plan pl), pl)
           else case process_torrent_batch_job jc ((bp_message pl)\<lparr>pb_info_hash_greater_than := bp_max_info_hash pl\<rparr>)
                       queue_job_options_default of
                  Inl e \<Rightarrow> (Inl (PlanJob e), pl)
                | Inr job \<Rightarrow> let pl = pl\<lparr>bp_jobs := bp_jobs pl @ [job]\<rparr> in (Inr (plan pl), pl))"

section \<open>The database\<close>

datatype ('d, 'j) queue_pg_error =
    Database 'd
  | InvalidStatus string
  | InvalidInteger string int
  | InvalidMirrorConfig string
  | InvalidBatchSelection string
  | InvalidBatchPayload string
  | InvalidInfoHashLength nat
  | InvalidProducerPayload 'j
  | InvalidProducerJob string
  | InvalidProducerInteger string nat
  | InvalidProducerDuration string nat
  | InvalidProducerDurationPrecision string nat

text \<open>
  What the handler uses of PostgreSQL, \<open>chrono\<close> and the clock, over a world \<open>'w\<close>: the two functions
  of the migrations for selecting a page and enqueuing a plan, the parser of timestamps, the
  current time, and the addition of a delay to it, which may leave the range.
\<close>

record ('d, 'j, 't, 'w) batch_env =
  bv_codec :: "'j codec"
  bv_parse_time :: "str \<Rightarrow> 't option"
  bv_select_page :: "bytes \<Rightarrow> 't \<Rightarrow> str list \<Rightarrow> bool \<Rightarrow> bool \<Rightarrow> i64 \<Rightarrow> 'w \<Rightarrow> ('d + bytes list) \<times> 'w"
  bv_enqueue_plan :: "str list \<Rightarrow> 't list \<Rightarrow> int list \<Rightarrow> str option \<Rightarrow> 't option \<Rightarrow> 't \<Rightarrow> 'w \<Rightarrow> ('d + int) \<times> 'w"
  bv_now :: "'w \<Rightarrow> 't \<times> 'w"
  bv_add_delay :: "'t \<Rightarrow> duration \<Rightarrow> 't option"

definition select_process_torrent_batch_page ::
  "('d, 'j, 't, 'w) batch_env \<Rightarrow> batch_selection \<Rightarrow> 'w \<Rightarrow> (('d, 'j) queue_pg_error + protocol_id list) \<times> 'w" where
  "select_process_torrent_batch_page env sel w =
     (if bs_order_by sel \<noteq> ''info_hash_asc'' then (Inl (InvalidBatchSelection ''order_by must be info_hash_asc''), w)
      else if bs_limit sel = 0 then (Inl (InvalidBatchSelection ''limit must be positive''), w)
      else if 2 ^ 63 \<le> unat (bs_limit sel)
      then (Inl (InvalidBatchSelection ''limit does not fit PostgreSQL bigint''), w)
      else case bv_parse_time env (bs_updated_before sel) of
             None \<Rightarrow> (Inl (InvalidBatchSelection ''updated_before is not RFC3339''), w)
           | Some updated_before \<Rightarrow>
               (case bv_select_page env (as_bytes (bs_after_exclusive sel)) updated_before
                       (List.map_filter id (bs_content_types sel)) (None \<in> set (bs_content_types sel))
                       (bs_orphans sel) (bs_limit sel) w of
                  (Inl e, w) \<Rightarrow> (Inl (Database e), w)
                | (Inr rows, w) \<Rightarrow>
                    (collect_result (map (\<lambda>row. if length row = 20 then Inr (Id20 row)
                                               else Inl (InvalidInfoHashLength (length row))) rows), w)))"

record 't prepared_queue_job =
  pq_job :: queue_job
  pq_run_after :: 't

definition materialize_at ::
  "('d, 'j, 't, 'w) batch_env \<Rightarrow> queue_job \<Rightarrow> 't \<Rightarrow> ('d, 'j) queue_pg_error + 't prepared_queue_job" where
  "materialize_at env job at =
     (case bv_add_delay env at (qj_delay job) of
        None \<Rightarrow> Inl (InvalidProducerDuration ''delay'' (qj_delay job div 1000))
      | Some run_after \<Rightarrow> Inr \<lparr>pq_job = job, pq_run_after = run_after\<rparr>)"

definition validate_common_job :: "'j codec \<Rightarrow> queue_job \<Rightarrow> ('d, 'j) queue_pg_error + json" where
  "validate_common_job jc job =
     rbind (map_err InvalidProducerPayload (jc_from_str jc (qj_payload job))) (\<lambda>payload.
     if qj_status job \<noteq> Pending then Inl (InvalidProducerJob ''status must be pending'')
     else if qj_archival_duration job \<noteq> DEFAULT_ARCHIVAL_DURATION
     then Inl (InvalidProducerJob ''archival_duration must be seven days'')
     else if fingerprint jc (qj_queue job) (qj_payload job) \<noteq> qj_fingerprint job
     then Inl (InvalidProducerJob ''fingerprint does not match queue and payload bytes'')
     else Inr payload)"

text \<open>The arguments of the enqueuing function, as the loop over the jobs collects them.\<close>

record 't plan_rows =
  pr_child_payloads :: "str list"
  pr_child_run_afters :: "'t list"
  pr_child_priorities :: "int list"
  pr_continuation_payload :: "str option"
  pr_continuation_run_after :: "'t option"

fun collect_plan_rows ::
  "'j codec \<Rightarrow> 't prepared_queue_job list \<Rightarrow> 't plan_rows \<Rightarrow> ('d, 'j) queue_pg_error + 't plan_rows" where
  "collect_plan_rows jc [] rows = Inr rows"
| "collect_plan_rows jc (prepared # rest) rows =
     (let job = pq_job prepared in
      rbind (validate_common_job jc job) (\<lambda>payload.
      if \<not> (case payload of JObject _ \<Rightarrow> True | _ \<Rightarrow> False)
      then Inl (InvalidProducerJob ''batch plan payload must be a JSON object'')
      else if qj_max_retries job \<noteq> 2 then Inl (InvalidProducerJob ''batch plan max_retries must be two'')
      else if qj_queue job = PROCESS_TORRENT \<and> qj_priority job \<in> {4, 10}
      then collect_plan_rows jc rest
             (rows\<lparr>pr_child_payloads := pr_child_payloads rows @ [qj_payload job],
                   pr_child_run_afters := pr_child_run_afters rows @ [pq_run_after prepared],
                   pr_child_priorities := pr_child_priorities rows @ [qj_priority job]\<rparr>)
      else if qj_queue job = PROCESS_TORRENT_BATCH \<and> rest = [] \<and> qj_priority job = 0
      then collect_plan_rows jc rest
             (rows\<lparr>pr_continuation_payload := Some (qj_payload job), pr_continuation_run_after := Some (pq_run_after prepared)\<rparr>)
      else if qj_queue job = PROCESS_TORRENT then Inl (InvalidProducerJob ''batch child priority must be four or ten'')
      else if qj_queue job = PROCESS_TORRENT_BATCH
      then Inl (InvalidProducerJob ''batch continuation must be the final job with priority zero'')
      else Inl (InvalidProducerJob ''batch plan contains an unsupported queue'')))"

definition insert_process_torrent_batch_plan_strict ::
  "('d, 'j, 't, 'w) batch_env \<Rightarrow> 't prepared_queue_job list \<Rightarrow> 'w \<Rightarrow> (('d, 'j) queue_pg_error + unit) \<times> 'w" where
  "insert_process_torrent_batch_plan_strict env jobs w =
     (case collect_plan_rows (bv_codec env) jobs
             \<lparr>pr_child_payloads = [], pr_child_run_afters = [], pr_child_priorities = [], pr_continuation_payload = None,
              pr_continuation_run_after = None\<rparr> of
        Inl e \<Rightarrow> (Inl e, w)
      | Inr rows \<Rightarrow>
          let (now, w) = bv_now env w in
          (case bv_enqueue_plan env (pr_child_payloads rows) (pr_child_run_afters rows) (pr_child_priorities rows)
                  (pr_continuation_payload rows) (pr_continuation_run_after rows) now w of
             (Inl e, w) \<Rightarrow> (Inl (Database e), w)
           | (Inr inserted, w) \<Rightarrow>
               if inserted \<noteq> int (length jobs)
               then (Inl (InvalidProducerJob ''batch capability inserted an unexpected row count''), w)
               else (Inr (), w)))"

section \<open>The handler\<close>

record batch_handle_report =
  br_selected :: u64
  br_child_jobs :: u64
  br_continuation_inserted :: bool
  br_max_info_hash :: protocol_id
  br_done :: bool

datatype ('d, 'j) batch_handle_error =
    HandleDecode 'j
  | HandlePlan "'j batch_plan_error"
  | HandleQueue "('d, 'j) queue_pg_error"

lemma chunk_grows:
  assumes "bp_chunk_size pl = 0 \<or> bp_chunk_size pl < c" and "page \<noteq> []"
  shows "unat (bp_chunk_size pl) < unat (u64_saturating_add (bp_chunk_size pl) (saturated (length page)))"
proof -
  have "unat (bp_chunk_size pl) < 2 ^ 64 - 1"
  proof -
    have "unat c < 2 ^ LENGTH(64)"
      by (rule unsigned_less)
    then show ?thesis
      using assms(1) by (auto simp: word_less_nat_alt)
  qed
  then show ?thesis
    using assms(2) by (cases page) (auto simp: unat_saturating_add unat_saturated)
qed

lemma add_page_Inr:
  assumes "add_page jc page pl = (Inr (), pl')"
  shows "bp_message pl' = bp_message pl \<and> (if page = [] then pl' = pl\<lparr>bp_done := True\<rparr>
    else bp_chunk_size pl' = u64_saturating_add (bp_chunk_size pl) (saturated (length page)))"
  using assms by (auto simp: add_page_def Let_def split: if_splits sum.splits)

definition pages_left :: "batch_planner \<Rightarrow> nat" where
  "pages_left pl =
     (if bp_done pl then 0
      else 1 + (if bp_chunk_size pl = 0 then 1 else 0) + (unat (pb_chunk_size (bp_message pl)) - unat (bp_chunk_size pl)))"

lemma add_page_progress:
  assumes "should_query pl" and "add_page jc page pl = (Inr (), pl')"
  shows "pages_left pl' < pages_left pl"
proof (cases "page = []")
  case True
  then show ?thesis
    using assms add_page_Inr [OF assms(2)] by (simp add: should_query_def pages_left_def)
next
  case False
  then show ?thesis
    using assms(1) add_page_Inr [OF assms(2)] chunk_grows [of pl "pb_chunk_size (bp_message pl)" page]
    by (auto simp: should_query_def pages_left_def word_less_nat_alt unat_eq_0 [symmetric])
qed

text \<open>
  The loop over the pages, with the times and the number of hashes so far. It ends whatever the
  database answers: a page is empty, or the chunk grows towards its limit.
\<close>

function batch_pages ::
  "('d, 'j, 't, 'w) batch_env \<Rightarrow> batch_planner \<Rightarrow> 't list \<Rightarrow> u64 \<Rightarrow> 'w
   \<Rightarrow> (('d, 'j) batch_handle_error + batch_planner \<times> 't list \<times> u64) \<times> 'w" where
  "batch_pages env pl materialized_at selected w =
     (if \<not> should_query pl then (Inr (pl, materialized_at, selected), w)
      else case select_process_torrent_batch_page env (planner_selection pl) w of
             (Inl e, w) \<Rightarrow> (Inl (HandleQueue e), w)
           | (Inr page, w) \<Rightarrow>
               (case add_page (bv_codec env) page pl of
                  (Inl e, _) \<Rightarrow> (Inl (HandlePlan e), w)
                | (Inr _, pl') \<Rightarrow>
                    if page = [] then batch_pages env pl' materialized_at selected w
                    else let now = bv_now env w
                         in batch_pages env pl' (materialized_at @ [fst now])
                              (u64_saturating_add selected (saturated (length page))) (snd now)))"
  by pat_completeness auto
termination
  by (relation "measure (\<lambda>(_, pl, _). pages_left pl)") (auto dest: add_page_progress [OF _ sym])

declare batch_pages.simps [simp del]

definition handle_process_torrent_batch_payload ::
  "('d, 'j, 't, 'w) batch_env \<Rightarrow> str \<Rightarrow> 'w \<Rightarrow> (('d, 'j) batch_handle_error + batch_handle_report) \<times> 'w" where
  "handle_process_torrent_batch_payload env payload w =
     (case jc_decode_batch (bv_codec env) payload of
        Inl e \<Rightarrow> (Inl (HandleDecode e), w)
      | Inr message \<Rightarrow>
          if pb_batch_size message = 0
          then (Inl (HandleQueue (InvalidBatchPayload ''BatchSize must be constructor-normalized and positive'')), w)
          else if pb_chunk_size message = 0
          then (Inl (HandleQueue (InvalidBatchPayload ''ChunkSize must be constructor-normalized and positive'')), w)
          else case batch_pages env (planner_new message) [] 0 w of
                 (Inl e, w) \<Rightarrow> (Inl e, w)
               | (Inr (pl, materialized_at, selected), w) \<Rightarrow>
                   (case planner_finalize (bv_codec env) pl of
                      (Inl e, _) \<Rightarrow> (Inl (HandlePlan e), w)
                    | (Inr plan, _) \<Rightarrow>
                        let continuation_inserted = \<not> bl_done plan;
                            (materialized_at, w) =
                              (if continuation_inserted
                               then let now = bv_now env w in (materialized_at @ [fst now], snd now)
                               else (materialized_at, w))
                        in if length materialized_at \<noteq> length (bl_jobs plan)
                           then (Inl (HandleQueue (InvalidBatchPayload ''planner jobs and materialization timestamps diverged'')), w)
                           else case collect_result (map (\<lambda>(job, at). materialize_at env job at) (zip (bl_jobs plan) materialized_at)) of
                                  Inl e \<Rightarrow> (Inl (HandleQueue e), w)
                                | Inr prepared \<Rightarrow>
                                    (case insert_process_torrent_batch_plan_strict env prepared w of
                                       (Inl e, w) \<Rightarrow> (Inl (HandleQueue e), w)
                                     | (Inr _, w) \<Rightarrow>
                                         (Inr \<lparr>br_selected = selected,
                                               br_child_jobs = saturated (length prepared - (if continuation_inserted then 1 else 0)),
                                               br_continuation_inserted = continuation_inserted,
                                               br_max_info_hash = bl_max_info_hash plan, br_done = bl_done plan\<rparr>, w))))"

section \<open>What the database and the codec promise\<close>

text \<open>
  \<open>serde_json\<close> writes every payload as an object, and what it has read as a batch payload it reads
  again after the cursor was replaced.
\<close>

definition codec_ok :: "'j codec \<Rightarrow> bool" where
  "codec_ok jc \<longleftrightarrow>
     (\<forall>p. \<exists>s fields. jc_to_string jc p = Inr s \<and> jc_from_str jc s = Inr (JObject fields))
     \<and> (\<forall>s p h s'. jc_decode_batch jc s = Inr p \<longrightarrow>
          jc_to_string jc (ProcessTorrentBatch (p\<lparr>pb_info_hash_greater_than := h\<rparr>)) = Inr s' \<longrightarrow>
          jc_decode_batch jc s' = Inr (p\<lparr>pb_info_hash_greater_than := h\<rparr>))"

text \<open>
  A table with the torrents \<open>table\<close> that meet the criteria of a message, and the plans it has been
  sent: the payloads and priorities of the children, and the payload of the continuation.
\<close>

type_synonym sent_plan = "str list \<times> int list \<times> str option"

definition serves ::
  "('d, 'j, 't, 'w) batch_env \<Rightarrow> process_torrent_batch_params \<Rightarrow> protocol_id list \<Rightarrow> ('w \<Rightarrow> sent_plan list) \<Rightarrow> bool" where
  "serves env p table sent \<longleftrightarrow>
     sorted_wrt (<) table
     \<and> (\<exists>t. bv_parse_time env (pb_updated_before p) = Some t
          \<and> (\<forall>after limit w. \<exists>w'.
               bv_select_page env (as_bytes after) t (List.map_filter id (pb_content_types p)) (None \<in> set (pb_content_types p))
                 (pb_orphans p) limit w
               = (Inr (map as_bytes (take (unat limit) (filter (\<lambda>h. after < h) table))), w') \<and> sent w' = sent w))
     \<and> (\<forall>ps ts prs c ct now w. \<exists>w'.
          bv_enqueue_plan env ps ts prs c ct now w = (Inr (int (length ps) + (case c of None \<Rightarrow> 0 | Some _ \<Rightarrow> 1)), w')
          \<and> sent w' = sent w @ [(ps, prs, c)])
     \<and> (\<forall>w. sent (snd (bv_now env w)) = sent w)
     \<and> (\<forall>t. bv_add_delay env t 0 = Some t)"

lemma servesD:
  assumes "serves env p table sent"
  shows "sorted_wrt (<) table" and "\<exists>t. bv_parse_time env (pb_updated_before p) = Some t
      \<and> (\<forall>after limit w. \<exists>w'.
           bv_select_page env (as_bytes after) t (List.map_filter id (pb_content_types p)) (None \<in> set (pb_content_types p))
             (pb_orphans p) limit w
           = (Inr (map as_bytes (take (unat limit) (filter (\<lambda>h. after < h) table))), w') \<and> sent w' = sent w)"
    and "\<exists>w'. bv_enqueue_plan env ps ts prs c ct now w = (Inr (int (length ps) + (case c of None \<Rightarrow> 0 | Some _ \<Rightarrow> 1)), w')
      \<and> sent w' = sent w @ [(ps, prs, c)]"
    and "sent (snd (bv_now env w)) = sent w" and "bv_add_delay env t 0 = Some t"
  using assms unfolding serves_def by simp_all

section \<open>Pages\<close>

lemma sorted_later:
  assumes "sorted_wrt (<) (xs @ ys)" and "xs \<noteq> []"
  shows "filter (\<lambda>h. last xs < h) (xs @ ys) = (ys :: 'a::linorder list)"
proof -
  have "\<not> last xs < h" if "h \<in> set xs" for h
    using assms that by (cases xs rule: rev_cases) (auto simp: sorted_wrt_append)
  moreover have "last xs < h" if "h \<in> set ys" for h
    using assms that by (auto simp: sorted_wrt_append)
  ultimately show ?thesis
    by (auto simp: filter_empty_conv filter_id_conv)
qed

lemma rest_after_page:
  assumes "sorted_wrt (<) table" and "take b (filter (\<lambda>h. c < h) table) \<noteq> []"
  shows "filter (\<lambda>h. last (take b (filter (\<lambda>h. c < h) table)) < h) table = drop b (filter (\<lambda>h. c < h) (table :: 'a::linorder list))"
proof -
  let ?rest = "filter (\<lambda>h. c < h) table"
  have "c < last (take b ?rest)"
    using assms(2) last_in_set in_set_takeD [of "last (take b ?rest)" b ?rest] by auto
  then have "filter (\<lambda>h. last (take b ?rest) < h) table = filter (\<lambda>h. last (take b ?rest) < h) ?rest"
    by (auto intro!: filter_cong)
  also have "\<dots> = filter (\<lambda>h. last (take b ?rest) < h) (take b ?rest @ drop b ?rest)"
    by simp
  also have "\<dots> = drop b ?rest"
    using assms by (intro sorted_later) (simp_all add: sorted_wrt_filter)
  finally show ?thesis .
qed

lemma ascends_iff: "ascends c page \<longleftrightarrow> sorted_wrt (<) (c # page)"
proof (induction page arbitrary: c)
  case (Cons h page)
  show ?case
    unfolding ascends.simps Cons.IH by (auto simp: not_le dest: less_trans)
qed simp

lemma page_ascends: "sorted_wrt (<) table \<Longrightarrow> ascends c (take b (filter (\<lambda>h. c < h) table))"
  by (auto simp: ascends_iff sorted_wrt_filter sorted_wrt_take dest: in_set_takeD)

text \<open>The job of a page.\<close>

definition child_job :: "'j codec \<Rightarrow> process_torrent_batch_params \<Rightarrow> protocol_id list \<Rightarrow> queue_job" where
  "child_job jc message page =
     projr (process_torrent_job jc (child_params message page) (with_priority (child_priority message) queue_job_options_default))"

lemma codec_ok_to_string: "codec_ok jc \<Longrightarrow> \<exists>s fields. jc_to_string jc p = Inr s \<and> jc_from_str jc s = Inr (JObject fields)"
  by (simp add: codec_ok_def)

lemma child_job_ok:
  assumes "codec_ok jc"
  shows "process_torrent_job jc (child_params message page) (with_priority (child_priority message) queue_job_options_default)
      = Inr (child_job jc message page)"
    and "qj_queue (child_job jc message page) = PROCESS_TORRENT" and "qj_priority (child_job jc message page) = child_priority message"
    and "qj_max_retries (child_job jc message page) = 2" and "qj_delay (child_job jc message page) = 0"
    and "\<exists>fields. validate_common_job jc (child_job jc message page) = Inr (JObject fields)"
    and "jc_to_string jc (ProcessTorrent (child_params message page)) = Inr (qj_payload (child_job jc message page))"
proof -
  obtain s fields where "jc_to_string jc (ProcessTorrent (child_params message page)) = Inr s" "jc_from_str jc s = Inr (JObject fields)"
    using codec_ok_to_string [OF assms] by blast
  then show "process_torrent_job jc (child_params message page) (with_priority (child_priority message) queue_job_options_default)
      = Inr (child_job jc message page)"
    and "qj_queue (child_job jc message page) = PROCESS_TORRENT" and "qj_priority (child_job jc message page) = child_priority message"
    and "qj_max_retries (child_job jc message page) = 2" and "qj_delay (child_job jc message page) = 0"
    and "\<exists>fields. validate_common_job jc (child_job jc message page) = Inr (JObject fields)"
    and "jc_to_string jc (ProcessTorrent (child_params message page)) = Inr (qj_payload (child_job jc message page))"
    by (simp_all add: child_job_def process_torrent_job_def new_queue_job_def with_priority_def with_max_retries_def
        queue_job_options_default_def validate_common_job_def)
qed

lemma add_page_exact:
  assumes "codec_ok jc" and "\<not> bp_finalized pl" and "page \<noteq> []" and "ascends (bp_max_info_hash pl) page"
    and "length page \<le> unat (pb_batch_size (bp_message pl))"
  shows "add_page jc page pl =
    (Inr (), pl\<lparr>bp_jobs := bp_jobs pl @ [child_job jc (bp_message pl) page], bp_max_info_hash := last page,
       bp_chunk_size := u64_saturating_add (bp_chunk_size pl) (saturated (length page)),
       bp_done := bp_done pl \<or> length page < unat (pb_batch_size (bp_message pl))\<rparr>)"
proof -
  have "\<not> saturated (length page) > pb_batch_size (bp_message pl)"
    using assms(5) by (simp add: word_less_nat_alt unat_saturated not_less min_def)
  then show ?thesis
    using assms by (simp add: add_page_def Let_def child_job_ok)
qed

lemma collect_rows:
  "collect_result (map ((\<lambda>row. if length row = 20 then Inr (Id20 row) else Inl (InvalidInfoHashLength (length row))) \<circ> as_bytes) hs) = Inr hs"
  by (induction hs) (use as_bytes in \<open>auto simp: as_bytes_inverse\<close>)

lemma select_exact:
  assumes "serves env p table sent" and "bp_message pl = p\<lparr>pb_info_hash_greater_than := h\<rparr>"
    and "pb_batch_size p \<noteq> 0" and "unat (pb_batch_size p) < 2 ^ 63"
  shows "\<exists>w'. select_process_torrent_batch_page env (planner_selection pl) w =
    (Inr (take (unat (pb_batch_size p)) (filter (\<lambda>h. bp_max_info_hash pl < h) table)), w') \<and> sent w' = sent w"
proof -
  let ?page = "take (unat (pb_batch_size p)) (filter (\<lambda>h. bp_max_info_hash pl < h) table)"
  obtain t where t: "bv_parse_time env (pb_updated_before p) = Some t"
    "\<forall>after limit w. \<exists>w'. bv_select_page env (as_bytes after) t (List.map_filter id (pb_content_types p))
        (None \<in> set (pb_content_types p)) (pb_orphans p) limit w
      = (Inr (map as_bytes (take (unat limit) (filter (\<lambda>h. after < h) table))), w') \<and> sent w' = sent w"
    using servesD(2) [OF assms(1)] by blast
  obtain w' where w': "bv_select_page env (as_bytes (bp_max_info_hash pl)) t (List.map_filter id (pb_content_types p))
      (None \<in> set (pb_content_types p)) (pb_orphans p) (pb_batch_size p) w = (Inr (map as_bytes ?page), w')" "sent w' = sent w"
    using t(2) by blast
  have "select_process_torrent_batch_page env (planner_selection pl) w = (Inr ?page, w')"
    using assms(2-4) t(1) w'(1) by (simp add: select_process_torrent_batch_page_def planner_selection_def collect_rows)
  then show ?thesis
    using w'(2) by blast
qed

text \<open>What a run of the loop has achieved when it stops.\<close>

definition walked ::
  "'j codec \<Rightarrow> protocol_id list \<Rightarrow> protocol_id list list \<Rightarrow> batch_planner \<Rightarrow> batch_planner \<Rightarrow> bool" where
  "walked jc table ps pl pl' \<longleftrightarrow>
     bp_message pl' = bp_message pl \<and> \<not> bp_finalized pl'
     \<and> bp_jobs pl' = bp_jobs pl @ map (child_job jc (bp_message pl)) ps
     \<and> (\<forall>page \<in> set ps. page \<noteq> [] \<and> length page \<le> unat (pb_batch_size (bp_message pl)))
     \<and> filter (\<lambda>h. bp_max_info_hash pl < h) table = concat ps @ filter (\<lambda>h. bp_max_info_hash pl' < h) table
     \<and> (ps = [] \<longrightarrow> bp_chunk_size pl' = bp_chunk_size pl)
     \<and> (bp_done pl' \<longrightarrow> bp_done pl \<or> filter (\<lambda>h. bp_max_info_hash pl' < h) table = [])"

lemma batch_pages_exact:
  assumes "serves env p table sent" and "codec_ok (bv_codec env)" and "pb_batch_size p \<noteq> 0" and "unat (pb_batch_size p) < 2 ^ 63"
    and "bp_message pl = p\<lparr>pb_info_hash_greater_than := h\<rparr>" and "\<not> bp_finalized pl"
  shows "\<exists>ps pl' ats' sel' w'. batch_pages env pl ats sel w = (Inr (pl', ats', sel'), w') \<and> sent w' = sent w
    \<and> \<not> should_query pl' \<and> length ats' = length ats + length ps \<and> walked (bv_codec env) table ps pl pl'"
  using assms(5,6)
proof (induction "pages_left pl" arbitrary: pl ats sel w rule: less_induct)
  case less
  let ?b = "unat (pb_batch_size p)" and ?rest = "filter (\<lambda>h. bp_max_info_hash pl < h) table"
  let ?page = "take (unat (pb_batch_size p)) (filter (\<lambda>h. bp_max_info_hash pl < h) table)"
  have b: "0 < ?b" "pb_batch_size (bp_message pl) = pb_batch_size p"
    using assms(3) less.prems(1) by (simp_all add: unat_gt_0)
  show ?case
  proof (cases "should_query pl")
    case False
    then show ?thesis
      using less.prems by (intro exI [of _ "[]"]) (simp add: batch_pages.simps walked_def)
  next
    case True
    obtain w1 where w1: "select_process_torrent_batch_page env (planner_selection pl) w = (Inr ?page, w1)" "sent w1 = sent w"
      using select_exact [OF assms(1) less.prems(1) assms(3,4)] by blast
    show ?thesis
    proof (cases "?page = []")
      case empty: True
      then have "?rest = []"
        using b(1) by simp
      moreover have "batch_pages env (pl\<lparr>bp_done := True\<rparr>) ats sel w1 = (Inr (pl\<lparr>bp_done := True\<rparr>, ats, sel), w1)"
        by (subst batch_pages.simps) (simp add: should_query_def)
      then have "batch_pages env pl ats sel w = (Inr (pl\<lparr>bp_done := True\<rparr>, ats, sel), w1)"
        using True less.prems(2) w1(1) unfolding empty by (subst batch_pages.simps) (simp add: add_page_def)
      ultimately show ?thesis
        using w1(2) less.prems(2) by (intro exI [of _ "[]"]) (simp add: walked_def should_query_def)
    next
      case False
      let ?job = "child_job (bv_codec env) (bp_message pl) ?page"
      define pl1 where "pl1 = pl\<lparr>bp_jobs := bp_jobs pl @ [?job], bp_max_info_hash := last ?page,
        bp_chunk_size := u64_saturating_add (bp_chunk_size pl) (saturated (length ?page)),
        bp_done := bp_done pl \<or> length ?page < ?b\<rparr>"
      have added: "add_page (bv_codec env) ?page pl = (Inr (), pl1)"
        unfolding pl1_def using less.prems(2) False page_ascends [OF servesD(1) [OF assms(1)]] b(2)
        by (subst add_page_exact [OF assms(2)]) simp_all
      let ?now = "bv_now env w1"
      have run: "batch_pages env pl ats sel w =
          batch_pages env pl1 (ats @ [fst ?now]) (u64_saturating_add sel (saturated (length ?page))) (snd ?now)"
        using True False w1(1) added by (subst batch_pages.simps) (simp add: Let_def)
      have "bp_message pl1 = p\<lparr>pb_info_hash_greater_than := h\<rparr>" "\<not> bp_finalized pl1"
        using less.prems by (simp_all add: pl1_def)
      from less.hyps [OF add_page_progress [OF True added] this]
      obtain ps pl' ats' sel' w' where IH: "batch_pages env pl1 (ats @ [fst ?now])
          (u64_saturating_add sel (saturated (length ?page))) (snd ?now) = (Inr (pl', ats', sel'), w')"
        "sent w' = sent (snd ?now)" "\<not> should_query pl'" "length ats' = length (ats @ [fst ?now]) + length ps"
        "walked (bv_codec env) table ps pl1 pl'"
        by blast
      have "filter (\<lambda>h. bp_max_info_hash pl1 < h) table = drop ?b ?rest"
        using rest_after_page [OF servesD(1) [OF assms(1)] False] by (simp add: pl1_def)
      moreover have "length ?page < ?b \<Longrightarrow> drop ?b ?rest = []"
        by simp
      ultimately have "walked (bv_codec env) table (?page # ps) pl pl'"
        using IH(5) False b(2) True append_take_drop_id [of ?b ?rest]
        by (auto simp: walked_def pl1_def should_query_def)
      then show ?thesis
        using IH(1-4) run w1(2) servesD(4) [OF assms(1)]
        by (intro exI [of _ "?page # ps"] exI [of _ pl'] exI [of _ ats'] exI [of _ sel'] exI [of _ w']) simp
    qed
  qed
qed

section \<open>One payload\<close>

text \<open>The cursor of a message does not show in the jobs of its pages.\<close>

lemma child_job_cursor [simp]: "child_job jc (p\<lparr>pb_info_hash_greater_than := h\<rparr>) = child_job jc p"
  by (simp add: fun_eq_iff child_job_def child_params_def child_priority_def apis_disabled_def)

lemma child_priority_cursor [simp]: "child_priority (p\<lparr>pb_info_hash_greater_than := h\<rparr>) = child_priority p"
  by (simp add: child_priority_def apis_disabled_def)

definition continuation_job :: "'j codec \<Rightarrow> process_torrent_batch_params \<Rightarrow> queue_job" where
  "continuation_job jc message = projr (process_torrent_batch_job jc message queue_job_options_default)"

lemma continuation_job_ok:
  assumes "codec_ok jc" and "pb_batch_size message \<noteq> 0" and "pb_chunk_size message \<noteq> 0"
  shows "process_torrent_batch_job jc message queue_job_options_default = Inr (continuation_job jc message)"
    and "qj_queue (continuation_job jc message) = PROCESS_TORRENT_BATCH" and "qj_priority (continuation_job jc message) = 0"
    and "qj_max_retries (continuation_job jc message) = 2" and "qj_delay (continuation_job jc message) = 0"
    and "\<exists>fields. validate_common_job jc (continuation_job jc message) = Inr (JObject fields)"
    and "jc_to_string jc (ProcessTorrentBatch message) = Inr (qj_payload (continuation_job jc message))"
proof -
  obtain s fields where "jc_to_string jc (ProcessTorrentBatch message) = Inr s" "jc_from_str jc s = Inr (JObject fields)"
    using codec_ok_to_string [OF assms(1)] by blast
  then show "process_torrent_batch_job jc message queue_job_options_default = Inr (continuation_job jc message)"
    and "qj_queue (continuation_job jc message) = PROCESS_TORRENT_BATCH" and "qj_priority (continuation_job jc message) = 0"
    and "qj_max_retries (continuation_job jc message) = 2" and "qj_delay (continuation_job jc message) = 0"
    and "\<exists>fields. validate_common_job jc (continuation_job jc message) = Inr (JObject fields)"
    and "jc_to_string jc (ProcessTorrentBatch message) = Inr (qj_payload (continuation_job jc message))"
    using assms(2,3)
    by (simp_all add: continuation_job_def process_torrent_batch_job_def new_queue_job_def with_max_retries_def
        queue_job_options_default_def validate_common_job_def)
qed

definition prepared_at :: "queue_job list \<Rightarrow> 't list \<Rightarrow> 't prepared_queue_job list" where
  "prepared_at jobs ats = map (\<lambda>(job, at). \<lparr>pq_job = job, pq_run_after = at\<rparr>) (zip jobs ats)"

lemma materialize_all:
  assumes "serves env p table sent" and "\<forall>job \<in> set jobs. qj_delay job = 0"
  shows "collect_result (map (\<lambda>(job, at). materialize_at env job at) (zip jobs ats)) = Inr (prepared_at jobs ats)"
  using assms(2) servesD(5) [OF assms(1)]
  by (induction jobs ats rule: list_induct2') (simp_all add: prepared_at_def materialize_at_def)

lemma collect_children:
  assumes "codec_ok (jc :: 'j codec)" and "length ats = length ps"
  shows "collect_plan_rows jc (prepared_at (map (child_job jc p) ps) ats @ later) rows =
    (collect_plan_rows jc later (rows\<lparr>pr_child_payloads := pr_child_payloads rows @ map (\<lambda>page. qj_payload (child_job jc p page)) ps,
      pr_child_run_afters := pr_child_run_afters rows @ ats,
      pr_child_priorities := pr_child_priorities rows @ replicate (length ps) (child_priority p)\<rparr>)
     :: ('d, 'j) queue_pg_error + 't plan_rows)"
  using assms(2)
proof (induction ps arbitrary: ats rows)
  case (Cons page ps)
  then obtain t ts where ats: "ats = t # ts" "length ts = length ps"
    by (cases ats) auto
  obtain fields where "validate_common_job jc (child_job jc p page) = (Inr (JObject fields) :: ('d, 'j) queue_pg_error + json)"
    using child_job_ok(6) [OF assms(1)] by blast
  moreover have "child_priority p \<in> {4, 10}"
    by (simp add: child_priority_def)
  ultimately show ?case
    using Cons.IH [OF ats(2)] child_job_ok [OF assms(1), of p page] by (simp add: ats(1) prepared_at_def)
qed (simp add: prepared_at_def)

end
