(* ===== verification/Batch_Chain.thy ===== *)
theory Batch_Chain
  imports Batch
begin

text \<open>
  The reprocessing of torrents as a whole: one payload, and the chain of the payloads that continue
  it.
\<close>

section \<open>One payload\<close>

text \<open>The children of a plan: what \<open>serde_json\<close> makes of the pages.\<close>

definition child_payload :: "'j codec \<Rightarrow> process_torrent_batch_params \<Rightarrow> protocol_id list \<Rightarrow> str" where
  "child_payload jc p page = qj_payload (child_job jc p page)"

lemma child_payload_ok:
  "codec_ok jc \<Longrightarrow> jc_to_string jc (ProcessTorrent (child_params p page)) = Inr (child_payload jc p page)"
  by (simp add: child_payload_def child_job_ok(7))

lemma length_prepared_at: "length (prepared_at jobs ats) = min (length jobs) (length ats)"
  by (simp add: prepared_at_def)

lemma insert_children:
  assumes "serves env p table sent" and "codec_ok (bv_codec env)" and "length ats = length ps"
  shows "\<exists>w'. insert_process_torrent_batch_plan_strict env (prepared_at (map (child_job (bv_codec env) p) ps) ats) w = (Inr (), w')
    \<and> sent w' = sent w @ [(map (child_payload (bv_codec env) p) ps, replicate (length ps) (child_priority p), None)]"
proof -
  let ?ps = "map (child_payload (bv_codec env) p) ps" and ?prs = "replicate (length ps) (child_priority p)"
  obtain now w1 where now: "bv_now env w = (now, w1)"
    by force
  then have "sent w1 = sent w"
    using servesD(4) [OF assms(1), of w] by simp
  moreover obtain w' where "bv_enqueue_plan env ?ps ats ?prs None None now w1 = (Inr (int (length ?ps)), w')" "sent w' = sent w1 @ [(?ps, ?prs, None)]"
    using servesD(3) [OF assms(1), of ?ps ats ?prs None None now w1] by auto
  ultimately show ?thesis
    unfolding insert_process_torrent_batch_plan_strict_def collect_children [OF assms(2,3), where later = "[]", simplified]
    using assms(3) now by (simp add: child_payload_def [symmetric] length_prepared_at)
qed

lemma insert_children_and_continuation:
  assumes "serves (env :: ('d, 'j, 't, 'w) batch_env) p table sent" and "codec_ok (bv_codec env)" and "length ats = Suc (length ps)"
    and "pb_batch_size message \<noteq> 0" and "pb_chunk_size message \<noteq> 0"
  shows "\<exists>w'. insert_process_torrent_batch_plan_strict env
      (prepared_at (map (child_job (bv_codec env) p) ps @ [continuation_job (bv_codec env) message]) ats) w = (Inr (), w')
    \<and> sent w' = sent w @ [(map (child_payload (bv_codec env) p) ps, replicate (length ps) (child_priority p),
        Some (qj_payload (continuation_job (bv_codec env) message)))]"
proof -
  let ?ps = "map (child_payload (bv_codec env) p) ps" and ?prs = "replicate (length ps) (child_priority p)"
  let ?job = "continuation_job (bv_codec env) message"
  obtain ts t where ats: "ats = ts @ [t]" "length ts = length ps"
    using assms(3) by (cases ats rule: rev_cases) auto
  have prepared: "prepared_at (map (child_job (bv_codec env) p) ps @ [?job]) ats
      = prepared_at (map (child_job (bv_codec env) p) ps) ts @ [\<lparr>pq_job = ?job, pq_run_after = t\<rparr>]"
    using ats by (simp add: prepared_at_def)
  obtain now w1 where now: "bv_now env w = (now, w1)"
    by force
  then have "sent w1 = sent w"
    using servesD(4) [OF assms(1), of w] by simp
  moreover obtain w' where "bv_enqueue_plan env ?ps ts ?prs (Some (qj_payload ?job)) (Some t) now w1 = (Inr (int (length ?ps) + 1), w')"
    "sent w' = sent w1 @ [(?ps, ?prs, Some (qj_payload ?job))]"
    using servesD(3) [OF assms(1), of ?ps ts ?prs "Some (qj_payload ?job)" "Some t" now w1] by auto
  moreover obtain fields where "validate_common_job (bv_codec env) ?job = (Inr (JObject fields) :: ('d, 'j) queue_pg_error + json)"
    using continuation_job_ok(6) [OF assms(2,4,5)] by blast
  ultimately show ?thesis
    unfolding insert_process_torrent_batch_plan_strict_def prepared collect_children [OF assms(2) ats(2)]
    using ats(2) now continuation_job_ok [OF assms(2,4,5)]
    by (simp add: child_payload_def [symmetric] length_prepared_at)
qed

lemma finalize_exact:
  assumes "codec_ok jc" and "\<not> bp_finalized pl" and "pb_batch_size (bp_message pl) \<noteq> 0" and "pb_chunk_size (bp_message pl) \<noteq> 0"
  shows "\<exists>pl'. planner_finalize jc pl =
    (Inr \<lparr>bl_jobs = bp_jobs pl @ (if bp_done pl then []
            else [continuation_job jc ((bp_message pl)\<lparr>pb_info_hash_greater_than := bp_max_info_hash pl\<rparr>)]),
          bl_max_info_hash = bp_max_info_hash pl, bl_chunk_size = bp_chunk_size pl, bl_done = bp_done pl\<rparr>, pl')"
  using assms continuation_job_ok(1) [OF assms(1), of "(bp_message pl)\<lparr>pb_info_hash_greater_than := bp_max_info_hash pl\<rparr>"]
  by (simp add: planner_finalize_def Let_def)

text \<open>What one payload does to the table of jobs, from the cursor \<open>h\<close> to the cursor \<open>h'\<close>.\<close>

definition plan_sent ::
  "'j codec \<Rightarrow> process_torrent_batch_params \<Rightarrow> protocol_id list \<Rightarrow> protocol_id \<Rightarrow> protocol_id list list \<Rightarrow> sent_plan \<Rightarrow> bool" where
  "plan_sent jc p table h ps plan \<longleftrightarrow>
     (\<exists>h' cont. plan = (map (child_payload jc p) ps, replicate (length ps) (child_priority p), cont)
        \<and> filter (\<lambda>x. h < x) table = concat ps @ filter (\<lambda>x. h' < x) table
        \<and> (\<forall>page \<in> set ps. page \<noteq> [] \<and> length page \<le> unat (pb_batch_size p))
        \<and> (case cont of
             None \<Rightarrow> filter (\<lambda>x. h' < x) table = []
           | Some s \<Rightarrow> ps \<noteq> [] \<and> jc_decode_batch jc s = Inr (p\<lparr>pb_info_hash_greater_than := h'\<rparr>)))"

lemma handle_exact:
  assumes "serves env p table sent" and "codec_ok (bv_codec env)" and "pb_batch_size p \<noteq> 0" and "unat (pb_batch_size p) < 2 ^ 63"
    and "pb_chunk_size p \<noteq> 0" and "jc_decode_batch (bv_codec env) payload = Inr (p\<lparr>pb_info_hash_greater_than := h\<rparr>)"
  shows "\<exists>report w' ps plan. handle_process_torrent_batch_payload env payload w = (Inr report, w')
    \<and> sent w' = sent w @ [plan] \<and> plan_sent (bv_codec env) p table h ps plan"
proof -
  let ?m = "p\<lparr>pb_info_hash_greater_than := h\<rparr>" and ?jc = "bv_codec env"
  obtain ps pl ats sel w1 where run: "batch_pages env (planner_new ?m) [] 0 w = (Inr (pl, ats, sel), w1)" "sent w1 = sent w"
    "\<not> should_query pl" "length ats = length ps" "walked ?jc table ps (planner_new ?m) pl"
    using batch_pages_exact [OF assms(1-4), of "planner_new ?m" h "[]" 0 w] by (auto simp: planner_new_def)
  then have pl: "bp_message pl = ?m" "\<not> bp_finalized pl" "bp_jobs pl = map (child_job ?jc p) ps"
    and ps: "\<forall>page \<in> set ps. page \<noteq> [] \<and> length page \<le> unat (pb_batch_size p)"
      "filter (\<lambda>x. h < x) table = concat ps @ filter (\<lambda>x. bp_max_info_hash pl < x) table"
    and progress: "ps = [] \<longrightarrow> bp_chunk_size pl = 0" and fin: "bp_done pl \<longrightarrow> filter (\<lambda>x. bp_max_info_hash pl < x) table = []"
    by (simp_all add: walked_def planner_new_def)
  obtain pl' where final: "planner_finalize ?jc pl =
    (Inr \<lparr>bl_jobs = bp_jobs pl @ (if bp_done pl then [] else [continuation_job ?jc (?m\<lparr>pb_info_hash_greater_than := bp_max_info_hash pl\<rparr>)]),
          bl_max_info_hash = bp_max_info_hash pl, bl_chunk_size = bp_chunk_size pl, bl_done = bp_done pl\<rparr>, pl')"
    using finalize_exact [OF assms(2) pl(2)] assms(3,5) pl(1) by auto
  show ?thesis
  proof (cases "bp_done pl")
    case True
    obtain w' where w': "insert_process_torrent_batch_plan_strict env (prepared_at (map (child_job ?jc p) ps) ats) w1 = (Inr (), w')"
      "sent w' = sent w1 @ [(map (child_payload ?jc p) ps, replicate (length ps) (child_priority p), None)]"
      using insert_children [OF assms(1,2) run(4)] by blast
    have "handle_process_torrent_batch_payload env payload w =
        (Inr \<lparr>br_selected = sel, br_child_jobs = saturated (length ps), br_continuation_inserted = False,
              br_max_info_hash = bp_max_info_hash pl, br_done = True\<rparr>, w')"
      using assms(3,5,6) run(1,4) final True w'(1) pl(3) child_job_ok(5) [OF assms(2)] materialize_all [OF assms(1), of "map (child_job ?jc p) ps" ats]
      by (simp add: handle_process_torrent_batch_payload_def length_prepared_at)
    then show ?thesis
      using w'(2) run(2) ps fin True unfolding plan_sent_def by (auto intro!: exI [of _ ps] exI [of _ "bp_max_info_hash pl"])
  next
    case False
    let ?c = "p\<lparr>pb_info_hash_greater_than := bp_max_info_hash pl\<rparr>" and ?now = "bv_now env w1"
    let ?jobs = "map (child_job ?jc p) ps @ [continuation_job ?jc ?c]" and ?ats = "ats @ [fst ?now]"
    have c: "pb_batch_size ?c \<noteq> 0" "pb_chunk_size ?c \<noteq> 0"
      using assms(3,5) by simp_all
    note job = continuation_job_ok [OF assms(2) c]
    obtain w' where w': "insert_process_torrent_batch_plan_strict env (prepared_at ?jobs ?ats) (snd ?now) = (Inr (), w')"
      "sent w' = sent (snd ?now) @ [(map (child_payload ?jc p) ps, replicate (length ps) (child_priority p), Some (qj_payload (continuation_job ?jc ?c)))]"
      using insert_children_and_continuation [OF assms(1,2) _ c, of ?ats ps] run(4) by auto
    have "handle_process_torrent_batch_payload env payload w =
        (Inr \<lparr>br_selected = sel, br_child_jobs = saturated (length ps), br_continuation_inserted = True,
              br_max_info_hash = bp_max_info_hash pl, br_done = False\<rparr>, w')"
      using assms(3,5,6) run(1,4) final False w'(1) pl(3) child_job_ok(5) [OF assms(2)] job(5) materialize_all [OF assms(1), of ?jobs ?ats]
      by (simp add: handle_process_torrent_batch_payload_def length_prepared_at Let_def)
    moreover have "jc_decode_batch ?jc (qj_payload (continuation_job ?jc ?c)) = Inr ?c"
      using assms(2,6) job(7) unfolding codec_ok_def by fastforce
    moreover have "ps \<noteq> []"
      using progress run(3) False by (auto simp: should_query_def)
    ultimately show ?thesis
      using w'(2) run(2) ps servesD(4) [OF assms(1), of w1] unfolding plan_sent_def
      by (auto intro!: exI [of _ ps] exI [of _ "bp_max_info_hash pl"])
  qed
qed

section \<open>The chain\<close>

text \<open>A payload, and the payloads that continue it, one after the other, up to a number of them.\<close>

fun drain ::
  "nat \<Rightarrow> ('d, 'j, 't, 'w) batch_env \<Rightarrow> ('w \<Rightarrow> sent_plan list) \<Rightarrow> str \<Rightarrow> 'w \<Rightarrow> 'w option" where
  "drain 0 env sent payload w = None"
| "drain (Suc n) env sent payload w =
     (case handle_process_torrent_batch_payload env payload w of
        (Inl _, _) \<Rightarrow> None
      | (Inr _, w) \<Rightarrow>
          (case snd (snd (last (sent w))) of
             None \<Rightarrow> Some w
           | Some continuation \<Rightarrow> drain n env sent continuation w))"

lemma drain_covers:
  assumes "serves env p table sent" and "codec_ok (bv_codec env)" and "pb_batch_size p \<noteq> 0" and "unat (pb_batch_size p) < 2 ^ 63"
    and "pb_chunk_size p \<noteq> 0"
  shows "jc_decode_batch (bv_codec env) payload = Inr (p\<lparr>pb_info_hash_greater_than := h\<rparr>) \<Longrightarrow>
    length (filter (\<lambda>x. h < x) table) < n \<Longrightarrow>
    \<exists>w' plans ps. drain n env sent payload w = Some w' \<and> sent w' = sent w @ plans
      \<and> concat (map fst plans) = map (child_payload (bv_codec env) p) ps
      \<and> concat (map (\<lambda>plan. fst (snd plan)) plans) = replicate (length ps) (child_priority p)
      \<and> concat ps = filter (\<lambda>x. h < x) table
      \<and> (\<forall>page \<in> set ps. page \<noteq> [] \<and> length page \<le> unat (pb_batch_size p))"
proof (induction n arbitrary: payload h w)
  case (Suc n)
  obtain report w1 ps1 plan where one: "handle_process_torrent_batch_payload env payload w = (Inr report, w1)"
    "sent w1 = sent w @ [plan]" "plan_sent (bv_codec env) p table h ps1 plan"
    using handle_exact [OF assms Suc.prems(1), of w] by blast
  then obtain h' cont where plan: "plan = (map (child_payload (bv_codec env) p) ps1, replicate (length ps1) (child_priority p), cont)"
    "filter (\<lambda>x. h < x) table = concat ps1 @ filter (\<lambda>x. h' < x) table"
    "\<forall>page \<in> set ps1. page \<noteq> [] \<and> length page \<le> unat (pb_batch_size p)"
    "case cont of None \<Rightarrow> filter (\<lambda>x. h' < x) table = []
      | Some s \<Rightarrow> ps1 \<noteq> [] \<and> jc_decode_batch (bv_codec env) s = Inr (p\<lparr>pb_info_hash_greater_than := h'\<rparr>)"
    unfolding plan_sent_def by blast
  show ?case
  proof (cases cont)
    case None
    then show ?thesis
      using one plan by (auto intro!: exI [of _ "[plan]"] exI [of _ ps1])
  next
    case (Some s)
    have decoded: "jc_decode_batch (bv_codec env) s = Inr (p\<lparr>pb_info_hash_greater_than := h'\<rparr>)"
      using plan(4) Some by simp
    have "0 < length (concat ps1)"
      using plan(3,4) Some by (cases ps1) auto
    moreover have "length (filter (\<lambda>x. h < x) table) = length (concat ps1) + length (filter (\<lambda>x. h' < x) table)"
      unfolding plan(2) by (rule length_append)
    ultimately have "length (filter (\<lambda>x. h' < x) table) < n"
      using Suc.prems(2) by linarith
    then obtain w' plans ps where "drain n env sent s w1 = Some w'" "sent w' = sent w1 @ plans"
      "concat (map fst plans) = map (child_payload (bv_codec env) p) ps"
      "concat (map (\<lambda>plan. fst (snd plan)) plans) = replicate (length ps) (child_priority p)"
      "concat ps = filter (\<lambda>x. h' < x) table" "\<forall>page \<in> set ps. page \<noteq> [] \<and> length page \<le> unat (pb_batch_size p)"
      using Suc.IH [of s h' w1] decoded by blast
    then show ?thesis
      using one(1,2) plan(1-3) Some
      by (intro exI [of _ w'] exI [of _ "plan # plans"] exI [of _ "ps1 @ ps"]) (auto simp: replicate_add)
  qed
qed simp


section \<open>Three torrents in pages of two\<close>

definition numbered :: "u8 \<Rightarrow> protocol_id" where
  "numbered n = Id20 (replicate 19 0 @ [n])"

definition example_request :: process_torrent_batch_params where
  "example_request =
     \<lparr>pb_info_hash_greater_than = numbered 0, pb_updated_before = [], pb_classify_mode = 0, pb_classifier_workflow = [],
      pb_classifier_flags = None, pb_chunk_size = 1, pb_batch_size = 2, pb_content_types = [], pb_orphans = False\<rparr>"

definition example_codec :: "unit codec" where
  "example_codec =
     \<lparr>jc_to_string = \<lambda>p. Inr (case p of
          ProcessTorrent q \<Rightarrow> concat (map (map ucast \<circ> as_bytes) (pt_info_hashes q))
        | ProcessTorrentBatch q \<Rightarrow> map ucast (as_bytes (pb_info_hash_greater_than q))
        | BlobMigration q \<Rightarrow> []),
      jc_from_str = \<lambda>_. Inr (JObject []),
      jc_decode_batch = \<lambda>s. Inr (example_request\<lparr>pb_info_hash_greater_than := Id20 (map ucast s)\<rparr>),
      jc_digest = id\<rparr>"

definition example_torrents :: "protocol_id list" where
  "example_torrents = [numbered 1, numbered 2, numbered 3]"

definition example_batch_env :: "(unit, unit, nat, sent_plan list) batch_env" where
  "example_batch_env =
     \<lparr>bv_codec = example_codec, bv_parse_time = \<lambda>_. Some 0,
      bv_select_page = \<lambda>after _ _ _ _ limit w.
        (Inr (map as_bytes (take (unat limit) (filter (\<lambda>h. after < as_bytes h) example_torrents))), w),
      bv_enqueue_plan = \<lambda>ps _ prs c _ _ w. (Inr (int (length ps) + (case c of None \<Rightarrow> 0 | Some _ \<Rightarrow> 1)), w @ [(ps, prs, c)]),
      bv_now = \<lambda>w. (0, w), bv_add_delay = \<lambda>t _. Some t\<rparr>"

lemma numbered_less: "numbered a < numbered b \<longleftrightarrow> a < b"
proof -
  have "replicate n x @ [a] < replicate n x @ [b] \<longleftrightarrow> a < b" for n and x :: u8
    by (induction n) simp_all
  then show ?thesis
    by (simp add: numbered_def less_id20_def Id20_inverse)
qed

lemma ucast_up_down [simp]: "(ucast (ucast (x :: u8) :: u32) :: u8) = x"
proof -
  have "unat x < 2 ^ LENGTH(8)"
    by (rule unsigned_less)
  then show ?thesis
    by (simp add: word_unat_eq_iff unsigned_ucast_eq take_bit_nat_eq_self take_bit_word_eq_self)
qed

lemma codec_ok_example: "codec_ok example_codec"
  by (auto simp: codec_ok_def example_codec_def as_bytes_inverse comp_def)

lemma serves_example: "serves example_batch_env example_request example_torrents id"
  by (simp add: serves_def example_batch_env_def example_torrents_def numbered_less less_id20_def [symmetric])


end
