(* ===== verification/Queue_Consumer.thy ===== *)
theory Queue_Consumer
  imports Batch "HOL-Library.Product_Lexorder"
begin

text \<open>
  The consumer of the job queue (\<open>bitmagnet-queue/src/pg.rs\<close>): one attempt claims a job under a
  row lock, runs its handler and settles it in the same transaction. The statements of the claim
  and of the three settlements, of \<open>pg.rs\<close> and of the functions of migrations 29 and 30, run on
  the table of jobs. Any number of consumers are a step relation on the table and the claims in
  flight; an attempt is a path of it, whatever fails on the way.
\<close>

section \<open>The table of jobs\<close>

abbreviation PROCESS_TORRENT_SHADOW :: string where "PROCESS_TORRENT_SHADOW \<equiv> ''process_torrent_shadow''"

abbreviation DEADLINE_ERROR :: str where "DEADLINE_ERROR \<equiv> lit ''the job did not complete before its deadline''"

text \<open>A row of \<open>queue_jobs\<close>, as far as the consumer reads and writes it. Times are in microseconds.\<close>

record queue_row =
  qr_id :: str
  qr_fingerprint :: str
  qr_queue :: string
  qr_status :: queue_job_status
  qr_payload :: str
  qr_retries :: int
  qr_max_retries :: int
  qr_priority :: int
  qr_run_after :: int
  qr_ran_at :: "int option"
  qr_error :: "str option"
  qr_deadline :: "int option"

definition unsettled :: "queue_row \<Rightarrow> bool" where
  "unsettled r \<longleftrightarrow> qr_status r \<in> {Pending, Retry}"

text \<open>
  The claim, the same for every queue: \<open>FOR UPDATE SKIP LOCKED\<close> passes over the rows other
  transactions hold. Rows that compare equal are taken in the order of the table, which is not
  fixed.
\<close>

definition claim_order :: "queue_row \<Rightarrow> bool \<times> int \<times> int" where
  "claim_order r = (qr_status r = Retry, qr_priority r, qr_run_after r)"

definition claim_job :: "string \<Rightarrow> int \<Rightarrow> (str \<Rightarrow> bool) \<Rightarrow> queue_row list \<Rightarrow> queue_row option" where
  "claim_job queue now locked rows =
     (case sort_key claim_order
             (filter (\<lambda>r. qr_queue r = queue \<and> unsettled r \<and> qr_run_after r \<le> now \<and> \<not> locked (qr_id r)) rows) of
        [] \<Rightarrow> None
      | r # _ \<Rightarrow> Some r)"

definition deadline_exceeded :: "int \<Rightarrow> queue_row \<Rightarrow> bool" where
  "deadline_exceeded now r \<longleftrightarrow> (case qr_deadline r of None \<Rightarrow> False | Some deadline \<Rightarrow> deadline < now)"

section \<open>Reading a claimed row\<close>

record dequeued_job =
  dj_id :: str
  dj_fingerprint :: str
  dj_queue :: string
  dj_original_status :: queue_job_status
  dj_payload :: str
  dj_retries :: u32
  dj_max_retries :: u32
  dj_priority :: int

definition parse_status :: "string \<Rightarrow> ('d, 'j) queue_pg_error + queue_job_status" where
  "parse_status s =
     (if s = ''pending'' then Inr Pending
      else if s = ''processed'' then Inr Processed
      else if s = ''retry'' then Inr Retry
      else if s = ''failed'' then Inr Failed
      else Inl (InvalidStatus s))"

definition to_u32 :: "string \<Rightarrow> int \<Rightarrow> ('d, 'j) queue_pg_error + u32" where
  "to_u32 field v = (if 0 \<le> v \<and> v < 2 ^ 32 then Inr (of_int v) else Inl (InvalidInteger field v))"

definition read_job :: "queue_row \<Rightarrow> ('d, 'j) queue_pg_error + dequeued_job" where
  "read_job r =
     rbind (parse_status (status_as_str (qr_status r))) (\<lambda>original_status.
     rbind (to_u32 ''retries'' (qr_retries r)) (\<lambda>retries.
     rbind (to_u32 ''max_retries'' (qr_max_retries r)) (\<lambda>max_retries.
     Inr \<lparr>dj_id = qr_id r, dj_fingerprint = qr_fingerprint r, dj_queue = qr_queue r, dj_original_status = original_status,
          dj_payload = qr_payload r, dj_retries = retries, dj_max_retries = max_retries, dj_priority = qr_priority r\<rparr>)))"

section \<open>Running the handler\<close>

text \<open>What a panic carries, and how a handler ends: building or polling its future may panic.\<close>

datatype panic_payload = StrPayload str | StringPayload str | OtherPayload

fun panic_message :: "panic_payload \<Rightarrow> str" where
  "panic_message (StrPayload s) = s"
| "panic_message (StringPayload s) = s"
| "panic_message OtherPayload = lit ''non-string panic payload''"

datatype handler_outcome = HandlerOk | HandlerErr str | HandlerPanic panic_payload

fun outcome_error :: "handler_outcome \<Rightarrow> str option" where
  "outcome_error HandlerOk = None"
| "outcome_error (HandlerErr e) = Some e"
| "outcome_error (HandlerPanic payload) = Some (lit ''job handler panicked: '' @ panic_message payload)"

definition u32_saturating_add :: "u32 \<Rightarrow> u32 \<Rightarrow> u32" where
  "u32_saturating_add a b = (if unat a + unat b < 2 ^ 32 then a + b else - 1)"

definition handle_job :: "(dequeued_job \<Rightarrow> handler_outcome) \<Rightarrow> bool \<Rightarrow> dequeued_job \<Rightarrow> dequeued_job \<times> str option" where
  "handle_job handler expired job =
     (if expired then (job, Some DEADLINE_ERROR)
      else let job = (if dj_original_status job = Retry then job\<lparr>dj_retries := u32_saturating_add (dj_retries job) 1\<rparr> else job)
           in (job, outcome_error (handler job)))"

section \<open>Settling a job\<close>

datatype sql_exception = NotClaimable | IntegerOutOfRange

text \<open>
  The update of one row. The functions for the two fixed queues demand that exactly one unsettled
  row of the queue has the identifier; the column for the retries is a 32-bit integer.
\<close>

definition update_rows :: "(queue_row \<Rightarrow> bool) \<Rightarrow> (queue_row \<Rightarrow> queue_row) \<Rightarrow> queue_row list \<Rightarrow> queue_row list" where
  "update_rows hit f rows = map (\<lambda>r. if hit r then f r else r) rows"

definition settle_update ::
  "string \<Rightarrow> dequeued_job \<Rightarrow> (queue_row \<Rightarrow> queue_row) \<Rightarrow> queue_row list \<Rightarrow> sql_exception + queue_row list" where
  "settle_update queue job f rows =
     (if 2 ^ 31 \<le> unat (dj_retries job) then Inl IntegerOutOfRange
      else let f = (\<lambda>r. f (r\<lparr>qr_retries := int (unat (dj_retries job))\<rparr>))
           in if queue = PROCESS_TORRENT_SHADOW \<or> queue = PROCESS_TORRENT_BATCH
              then let hit = (\<lambda>r. qr_id r = dj_id job \<and> qr_queue r = queue \<and> unsettled r)
                   in if length (filter hit rows) \<noteq> 1 then Inl NotClaimable else Inr (update_rows hit f rows)
              else Inr (update_rows (\<lambda>r. qr_id r = dj_id job) f rows))"

definition settle_retry ::
  "string \<Rightarrow> int \<Rightarrow> dequeued_job \<Rightarrow> str \<Rightarrow> int \<Rightarrow> queue_row list \<Rightarrow> sql_exception + queue_row list" where
  "settle_retry queue now job error delay_seconds =
     settle_update queue job (\<lambda>r. r\<lparr>qr_status := Retry, qr_ran_at := Some now, qr_error := Some error,
                                    qr_run_after := now + delay_seconds * 1000000\<rparr>)"

definition settle_failed :: "string \<Rightarrow> int \<Rightarrow> dequeued_job \<Rightarrow> str \<Rightarrow> queue_row list \<Rightarrow> sql_exception + queue_row list" where
  "settle_failed queue now job error =
     settle_update queue job (\<lambda>r. r\<lparr>qr_status := Failed, qr_ran_at := Some now, qr_error := Some error\<rparr>)"

definition settle_processed :: "string \<Rightarrow> int \<Rightarrow> dequeued_job \<Rightarrow> queue_row list \<Rightarrow> sql_exception + queue_row list" where
  "settle_processed queue now job = settle_update queue job (\<lambda>r. r\<lparr>qr_status := Processed, qr_ran_at := Some now\<rparr>)"

text \<open>What an attempt reports; the delay is in seconds.\<close>

datatype consume_outcome =
    QueueEmpty
  | JobProcessed dequeued_job
  | RetryScheduled dequeued_job u64
  | JobFailed dequeued_job str

text \<open>The choice of the settlement. \<open>None\<close> is the panic of an overflowing delay.\<close>

definition settle_job ::
  "string \<Rightarrow> u64 \<Rightarrow> int \<Rightarrow> dequeued_job \<Rightarrow> str option \<Rightarrow> queue_row list
   \<Rightarrow> (sql_exception + consume_outcome \<times> queue_row list) option" where
  "settle_job queue clock now job handler_error rows =
     (case handler_error of
        Some error \<Rightarrow>
          if dj_retries job < dj_max_retries job
          then map_option (\<lambda>delay.
                 map_sum id (Pair (RetryScheduled job delay))
                   (settle_retry queue now job error (min (int (unat delay)) (2 ^ 63 - 1)) rows))
                 (calculate_backoff clock (dj_retries job))
          else Some (map_sum id (Pair (JobFailed job error)) (settle_failed queue now job error rows))
      | None \<Rightarrow> Some (map_sum id (Pair (JobProcessed job)) (settle_processed queue now job rows)))"

section \<open>One attempt\<close>

text \<open>
  What surrounds one attempt: the failures of the database (a failed commit may have taken effect),
  the rows that are locked, the times of its statements, the handler, what other transactions
  commit while it runs, and the clock that the jitter of a delay is drawn from.
\<close>

record 'd attempt =
  at_begin_error :: "'d option"
  at_fetch_error :: "'d option"
  at_locked :: "str \<Rightarrow> bool"
  at_claimed_at :: int
  at_handler :: "dequeued_job \<Rightarrow> handler_outcome"
  at_meanwhile :: "queue_row list \<Rightarrow> queue_row list"
  at_clock :: u64
  at_settled_at :: int
  at_settle_error :: "'d option"
  at_raise :: "sql_exception \<Rightarrow> 'd"
  at_commit_error :: "('d \<times> bool) option"

datatype 'r returned = Panicked | Returned 'r

text \<open>The result, whether the handler ran, and the table after the transaction has ended.\<close>

definition commit_rows :: "('d \<times> bool) option \<Rightarrow> queue_row list \<Rightarrow> queue_row list \<Rightarrow> queue_row list" where
  "commit_rows failure before after =
     (case failure of None \<Rightarrow> after | Some (_, applied) \<Rightarrow> if applied then after else before)"

definition commit_result :: "('d \<times> bool) option \<Rightarrow> consume_outcome \<Rightarrow> ('d, 'j) queue_pg_error + consume_outcome" where
  "commit_result failure outcome = (case failure of None \<Rightarrow> Inr outcome | Some (e, _) \<Rightarrow> Inl (Database e))"

definition consume_one ::
  "string \<Rightarrow> 'd attempt \<Rightarrow> queue_row list
   \<Rightarrow> (('d, 'j) queue_pg_error + consume_outcome) returned \<times> bool \<times> queue_row list" where
  "consume_one queue at rows =
     (case at_begin_error at of
        Some e \<Rightarrow> (Returned (Inl (Database e)), False, rows)
      | None \<Rightarrow>
     (case at_fetch_error at of
        Some e \<Rightarrow> (Returned (Inl (Database e)), False, rows)
      | None \<Rightarrow>
     (case claim_job queue (at_claimed_at at) (at_locked at) rows of
        None \<Rightarrow> (Returned (commit_result (at_commit_error at) QueueEmpty), False, rows)
      | Some row \<Rightarrow>
     (case read_job row of
        Inl e \<Rightarrow> (Returned (Inl e), False, rows)
      | Inr job \<Rightarrow>
          let expired = deadline_exceeded (at_claimed_at at) row;
              (job, handler_error) = handle_job (at_handler at) expired job;
              rows = at_meanwhile at rows
          in (case settle_job queue (at_clock at) (at_settled_at at) job handler_error rows of
                None \<Rightarrow> (Panicked, \<not> expired, rows)
              | Some settled \<Rightarrow>
             (case at_settle_error at of
                Some e \<Rightarrow> (Returned (Inl (Database e)), \<not> expired, rows)
              | None \<Rightarrow>
             (case settled of
                Inl exn \<Rightarrow> (Returned (Inl (Database (at_raise at exn))), \<not> expired, rows)
              | Inr (outcome, rows') \<Rightarrow>
                  (Returned (commit_result (at_commit_error at) outcome), \<not> expired,
                   commit_rows (at_commit_error at) rows rows'))))))))"

end
