(* ===== verification/Queue_Runs.thy ===== *)
theory Queue_Runs
  imports Queue_Consumer "HOL-Library.Multiset"
begin

text \<open>
  Any number of consumers on one table of jobs: the claims in flight, the runs of the handlers, and
  the runs whose transaction was lost. An attempt of a consumer is a path of the machine, and the
  machine keeps account of the runs of every job.
\<close>

section \<open>Rows and jobs\<close>

lemma claim_jobD:
  assumes "claim_job queue now locked rows = Some r"
  shows "r \<in> set rows" and "qr_queue r = queue" and "unsettled r" and "qr_run_after r \<le> now" and "\<not> locked (qr_id r)"
proof -
  let ?open = "filter (\<lambda>r. qr_queue r = queue \<and> unsettled r \<and> qr_run_after r \<le> now \<and> \<not> locked (qr_id r)) rows"
  obtain rest where "sort_key claim_order ?open = r # rest"
    using assms by (auto simp: claim_job_def split: list.splits)
  then have "r \<in> set (sort_key claim_order ?open)"
    by simp
  then show "r \<in> set rows" "qr_queue r = queue" "unsettled r" "qr_run_after r \<le> now" "\<not> locked (qr_id r)"
    by auto
qed

lemma parse_status_as_str [simp]: "parse_status (status_as_str s) = Inr s"
  by (cases s) (simp_all add: parse_status_def status_as_str_def)

definition small_counts :: "queue_row \<Rightarrow> bool" where
  "small_counts r \<longleftrightarrow> 0 \<le> qr_retries r \<and> qr_retries r \<le> qr_max_retries r \<and> qr_max_retries r < 2 ^ 31"

definition job_of :: "queue_row \<Rightarrow> dequeued_job" where
  "job_of r =
     \<lparr>dj_id = qr_id r, dj_fingerprint = qr_fingerprint r, dj_queue = qr_queue r, dj_original_status = qr_status r,
      dj_payload = qr_payload r, dj_retries = of_int (qr_retries r), dj_max_retries = of_int (qr_max_retries r),
      dj_priority = qr_priority r\<rparr>"

lemma read_job_small: "small_counts r \<Longrightarrow> read_job r = Inr (job_of r)"
  by (simp add: read_job_def to_u32_def small_counts_def job_of_def)

lemma uint_of_int_small: "0 \<le> v \<Longrightarrow> v < 2 ^ 31 \<Longrightarrow> uint (of_int v :: u32) = v"
  by (simp add: uint_word_of_int)

text \<open>The retries that a run of the job is settled with.\<close>

definition settled_retries :: "bool \<Rightarrow> queue_row \<Rightarrow> int" where
  "settled_retries expired r = (if \<not> expired \<and> qr_status r = Retry then qr_retries r + 1 else qr_retries r)"

lemma handled_counts:
  assumes "small_counts r" and "handle_job h expired (job_of r) = (job, error)"
    and "qr_status r = Retry \<Longrightarrow> qr_retries r < qr_max_retries r"
  shows "uint (dj_retries job) = settled_retries expired r" and "uint (dj_max_retries job) = qr_max_retries r"
    and "dj_id job = qr_id r" and "expired \<Longrightarrow> error \<noteq> None" and "settled_retries expired r \<le> qr_max_retries r"
    and "\<not> expired \<Longrightarrow> error = outcome_error (h job)"
proof -
  have retries: "uint (of_int (qr_retries r) :: u32) = qr_retries r"
    and max_retries: "uint (of_int (qr_max_retries r) :: u32) = qr_max_retries r"
    using assms(1) by (simp_all add: small_counts_def uint_of_int_small)
  have "uint (of_int (qr_retries r) + 1 :: u32) = qr_retries r + 1" if "qr_status r = Retry"
    using assms(1) assms(3) [OF that] uint_of_int_small [of "qr_retries r + 1"] by (simp add: small_counts_def)
  moreover have "unat (of_int (qr_retries r) :: u32) + 1 < 2 ^ 32"
    using assms(1) retries by (auto simp: small_counts_def unat_eq_nat_uint)
  ultimately show "uint (dj_retries job) = settled_retries expired r"
    using assms(1,2) retries
    by (auto simp: handle_job_def job_of_def settled_retries_def u32_saturating_add_def Let_def split: if_splits)
  show "uint (dj_max_retries job) = qr_max_retries r" "dj_id job = qr_id r" "expired \<Longrightarrow> error \<noteq> None"
    "\<not> expired \<Longrightarrow> error = outcome_error (h job)"
    using assms(2) max_retries by (auto simp: handle_job_def job_of_def Let_def split: if_splits)
  show "settled_retries expired r \<le> qr_max_retries r"
    using assms(1,3) by (auto simp: settled_retries_def small_counts_def)
qed

text \<open>What a settlement makes of a row.\<close>

definition replace_row :: "queue_row \<Rightarrow> queue_row list \<Rightarrow> queue_row list" where
  "replace_row r' rows = map (\<lambda>r. if qr_id r = qr_id r' then r' else r) rows"

definition settled_as :: "bool \<Rightarrow> str option \<Rightarrow> queue_row \<Rightarrow> queue_row \<Rightarrow> bool" where
  "settled_as expired error r r' \<longleftrightarrow>
     qr_id r' = qr_id r \<and> qr_queue r' = qr_queue r \<and> qr_payload r' = qr_payload r \<and> qr_deadline r' = qr_deadline r
     \<and> qr_max_retries r' = qr_max_retries r \<and> qr_retries r' = settled_retries expired r
     \<and> qr_status r' = (if error = None then Processed else if settled_retries expired r < qr_max_retries r then Retry else Failed)"

lemma filter_same_key: "distinct (map f xs) \<Longrightarrow> x \<in> set xs \<Longrightarrow> filter (\<lambda>y. f y = f x) xs = [x]"
  by (induction xs) (auto simp: filter_empty_conv image_iff)

lemma same_key: "distinct (map f xs) \<Longrightarrow> x \<in> set xs \<Longrightarrow> y \<in> set xs \<Longrightarrow> f x = f y \<longleftrightarrow> x = y"
  by (auto simp: distinct_map inj_on_def)

lemma settle_update_exact:
  assumes "distinct (map qr_id rows)" and "r \<in> set rows" and "unsettled r" and "qr_queue r = queue"
    and "uint (dj_retries job) < 2 ^ 31" and "dj_id job = qr_id r" and "\<And>x. qr_id (f x) = qr_id x"
  shows "settle_update queue job f rows = Inr (replace_row (f (r\<lparr>qr_retries := uint (dj_retries job)\<rparr>)) rows)"
proof -
  let ?fixed = "\<lambda>x. qr_id x = qr_id r \<and> qr_queue x = queue \<and> unsettled x"
  have hit: "qr_id x = qr_id r \<longleftrightarrow> x = r" if "x \<in> set rows" for x
    using same_key [OF assms(1) that assms(2)] .
  then have "filter ?fixed rows = filter (\<lambda>x. qr_id x = qr_id r) rows"
    using assms(3,4) by (intro filter_cong) auto
  then have one: "length (filter ?fixed rows) = 1"
    using filter_same_key [OF assms(1,2)] by simp
  have "int (unat (dj_retries job)) < int (2 ^ 31)"
    using assms(5) by simp
  then have "\<not> 2 ^ 31 \<le> unat (dj_retries job)"
    unfolding of_nat_less_iff not_le .
  moreover have "update_rows P (\<lambda>x. f (x\<lparr>qr_retries := uint (dj_retries job)\<rparr>)) rows
      = replace_row (f (r\<lparr>qr_retries := uint (dj_retries job)\<rparr>)) rows"
    if "\<And>x. x \<in> set rows \<Longrightarrow> P x = (qr_id x = qr_id r)" for P
    unfolding update_rows_def replace_row_def
  proof (intro map_cong refl)
    fix x assume x: "x \<in> set rows"
    show "(if P x then f (x\<lparr>qr_retries := uint (dj_retries job)\<rparr>) else x) =
        (if qr_id x = qr_id (f (r\<lparr>qr_retries := uint (dj_retries job)\<rparr>))
         then f (r\<lparr>qr_retries := uint (dj_retries job)\<rparr>) else x)"
      using that [OF x] hit [OF x] assms(7) [of "r\<lparr>qr_retries := uint (dj_retries job)\<rparr>"] by simp
  qed
  from this [of ?fixed] this [of "\<lambda>x. qr_id x = qr_id r"]
  have "update_rows ?fixed (\<lambda>x. f (x\<lparr>qr_retries := uint (dj_retries job)\<rparr>)) rows
      = replace_row (f (r\<lparr>qr_retries := uint (dj_retries job)\<rparr>)) rows"
    "update_rows (\<lambda>x. qr_id x = qr_id r) (\<lambda>x. f (x\<lparr>qr_retries := uint (dj_retries job)\<rparr>)) rows
      = replace_row (f (r\<lparr>qr_retries := uint (dj_retries job)\<rparr>)) rows"
    using hit assms(3,4) by blast+
  ultimately show ?thesis
    using one unfolding settle_update_def Let_def assms(6) by (simp del: unsigned_numeral)
qed

lemma settle_job_exact:
  assumes "distinct (map qr_id rows)" and "r \<in> set rows" and "unsettled r" and "qr_queue r = queue" and "small_counts r"
    and "qr_status r = Retry \<Longrightarrow> qr_retries r < qr_max_retries r" and "handle_job h expired (job_of r) = (job, error)"
  shows "case settle_job queue clock now job error rows of
      None \<Rightarrow> 2 ^ 16 \<le> settled_retries expired r \<and> settled_retries expired r < qr_max_retries r
    | Some result \<Rightarrow> \<exists>outcome r'. result = Inr (outcome, replace_row r' rows) \<and> settled_as expired error r r'"
proof -
  note counts = handled_counts [OF assms(5,7,6), simplified]
  have less: "dj_retries job < dj_max_retries job \<longleftrightarrow> settled_retries expired r < qr_max_retries r"
    using counts(1,2) by (simp add: word_less_def)
  have "uint (dj_retries job) < 2 ^ 31"
    using counts(1,5) assms(5) by (simp add: small_counts_def)
  note update = settle_update_exact [OF assms(1-4) this counts(3)]
  show ?thesis
  proof (cases "error \<noteq> None \<and> settled_retries expired r < qr_max_retries r")
    case True
    then obtain e where e: "error = Some e"
      by auto
    have "2 ^ 16 \<le> settled_retries expired r" if "calculate_backoff clock (dj_retries job) = None"
    proof -
      have "2 ^ 16 \<le> unat (dj_retries job)"
        using calculate_backoff_bounds [of "dj_retries job" clock] that by (auto split: if_splits)
      then have "int (2 ^ 16) \<le> int (unat (dj_retries job))"
        unfolding of_nat_le_iff .
      then show ?thesis
        using counts(1) by simp
    qed
    then show ?thesis
      using True less by (auto simp: e settle_job_def settle_retry_def update settled_as_def counts(1) split: option.split)
  next
    case False
    then show ?thesis
      using less by (auto simp: settle_job_def settle_failed_def settle_processed_def update settled_as_def counts(1) split: option.split)
  qed
qed

section \<open>Any number of consumers\<close>

text \<open>
  A claim in flight is the row lock of an open transaction. Beside the table and the claims the
  state counts, for every job, how often its handler ran and how many of these runs were lost
  because their transaction was not committed.
\<close>

record claim =
  cm_queue :: string
  cm_job :: dequeued_job
  cm_expired :: bool

record queue_state =
  qs_rows :: "queue_row list"
  qs_claims :: "nat \<Rightarrow> claim option"
  qs_runs :: "str \<Rightarrow> nat"
  qs_lost :: "str \<Rightarrow> nat"

definition row_locked :: "queue_state \<Rightarrow> str \<Rightarrow> bool" where
  "row_locked s i \<longleftrightarrow> (\<exists>c cl. qs_claims s c = Some cl \<and> dj_id (cm_job cl) = i)"

definition queue_init :: queue_state where
  "queue_init = \<lparr>qs_rows = [], qs_claims = \<lambda>_. None, qs_runs = \<lambda>_. 0, qs_lost = \<lambda>_. 0\<rparr>"

definition add_runs :: "str \<Rightarrow> nat \<Rightarrow> (str \<Rightarrow> nat) \<Rightarrow> str \<Rightarrow> nat" where
  "add_runs i k runs = runs(i := runs i + k)"

text \<open>
  A job enters as pending; a consumer claims, and settles or loses what it claimed; the garbage
  collector removes settled rows, and the database may store the rows in any order.
\<close>

inductive queue_step :: "queue_state \<Rightarrow> queue_state \<Rightarrow> bool" where
  enqueued:
  "qr_id r \<notin> qr_id ` set (qs_rows s) \<Longrightarrow> qr_status r = Pending \<Longrightarrow> qr_retries r = 0 \<Longrightarrow> small_counts r \<Longrightarrow>
   queue_step s (s\<lparr>qs_rows := qs_rows s @ [r], qs_runs := (qs_runs s)(qr_id r := 0), qs_lost := (qs_lost s)(qr_id r := 0)\<rparr>)"
| claimed:
  "qs_claims s c = None \<Longrightarrow> claim_job queue now (row_locked s) (qs_rows s) = Some r \<Longrightarrow>
   read_job r = (Inr job :: (unit, unit) queue_pg_error + _) \<Longrightarrow>
   queue_step s (s\<lparr>qs_claims := (qs_claims s)(c \<mapsto> \<lparr>cm_queue = queue, cm_job = job, cm_expired = deadline_exceeded now r\<rparr>)\<rparr>)"
| settled:
  "qs_claims s c = Some cl \<Longrightarrow> handle_job h (cm_expired cl) (cm_job cl) = (job, error) \<Longrightarrow>
   settle_job (cm_queue cl) clock now job error (qs_rows s) = Some (Inr (outcome, rows)) \<Longrightarrow>
   queue_step s (s\<lparr>qs_rows := rows, qs_claims := (qs_claims s)(c := None),
                    qs_runs := add_runs (dj_id (cm_job cl)) (if cm_expired cl then 0 else 1) (qs_runs s)\<rparr>)"
| lost:
  "qs_claims s c = Some cl \<Longrightarrow> k \<le> (if cm_expired cl then 0 else 1) \<Longrightarrow>
   queue_step s (s\<lparr>qs_claims := (qs_claims s)(c := None), qs_runs := add_runs (dj_id (cm_job cl)) k (qs_runs s),
                    qs_lost := add_runs (dj_id (cm_job cl)) k (qs_lost s)\<rparr>)"
| collected:
  "\<forall>r \<in> set (qs_rows s). unsettled r \<longrightarrow> keep r \<Longrightarrow> queue_step s (s\<lparr>qs_rows := filter keep (qs_rows s)\<rparr>)"
| reordered:
  "mset rows = mset (qs_rows s) \<Longrightarrow> queue_step s (s\<lparr>qs_rows := rows\<rparr>)"

abbreviation queue_steps :: "queue_state \<Rightarrow> queue_state \<Rightarrow> bool" where
  "queue_steps \<equiv> queue_step\<^sup>*\<^sup>*"

section \<open>The account of the runs\<close>

text \<open>Runs that were committed, against the retries that the row records.\<close>

definition accounted :: "nat \<Rightarrow> nat \<Rightarrow> queue_row \<Rightarrow> bool" where
  "accounted runs lost r \<longleftrightarrow>
     small_counts r \<and> lost \<le> runs
     \<and> (case qr_status r of
          Pending \<Rightarrow> qr_retries r = 0 \<and> runs = lost
        | Retry \<Rightarrow> qr_retries r < qr_max_retries r
        | Processed \<Rightarrow> True
        | Failed \<Rightarrow> qr_retries r = qr_max_retries r)
     \<and> (qr_status r \<noteq> Pending \<longrightarrow> int runs \<le> int lost + qr_retries r + 1
          \<and> (qr_deadline r = None \<longrightarrow> int runs = int lost + qr_retries r + 1))"

definition backs :: "queue_row list \<Rightarrow> claim \<Rightarrow> queue_row \<Rightarrow> bool" where
  "backs rows cl r \<longleftrightarrow> r \<in> set rows \<and> unsettled r \<and> qr_queue r = cm_queue cl \<and> job_of r = cm_job cl
     \<and> (cm_expired cl \<longrightarrow> qr_deadline r \<noteq> None)"

definition queue_inv :: "queue_state \<Rightarrow> bool" where
  "queue_inv s \<longleftrightarrow>
     distinct (map qr_id (qs_rows s))
     \<and> (\<forall>r \<in> set (qs_rows s). accounted (qs_runs s (qr_id r)) (qs_lost s (qr_id r)) r)
     \<and> (\<forall>c cl. qs_claims s c = Some cl \<longrightarrow> (\<exists>r. backs (qs_rows s) cl r))
     \<and> (\<forall>c d cl cl'. qs_claims s c = Some cl \<longrightarrow> qs_claims s d = Some cl' \<longrightarrow> dj_id (cm_job cl) = dj_id (cm_job cl') \<longrightarrow> c = d)"

lemma job_of_id [simp]: "dj_id (job_of r) = qr_id r"
  by (simp add: job_of_def)

lemma add_runs_apply [simp]: "add_runs i k runs j = (if j = i then runs i + k else runs j)"
  by (simp add: add_runs_def)

lemma accounted_settled:
  assumes "accounted runs lost r" and "unsettled r" and "settled_as expired error r r'" and "expired \<Longrightarrow> error \<noteq> None"
    and "expired \<Longrightarrow> qr_deadline r \<noteq> None"
  shows "accounted (runs + (if expired then 0 else 1)) lost r'"
  using assms
  by (cases "qr_status r"; cases expired; cases error)
    (auto simp: accounted_def settled_as_def unsettled_def small_counts_def settled_retries_def)

lemma set_replace_row:
  assumes "distinct (map qr_id rows)" and "r \<in> set rows" and "qr_id r' = qr_id r"
  shows "set (replace_row r' rows) = insert r' (set rows - {r})"
  using assms same_key [OF assms(1) _ assms(2)] by (auto simp: replace_row_def image_iff)

lemma map_id_replace_row: "map qr_id (replace_row r' rows) = map qr_id rows"
  by (induction rows) (auto simp: replace_row_def)

lemma queue_invI:
  assumes "distinct (map qr_id (qs_rows s))"
    and "\<And>r. r \<in> set (qs_rows s) \<Longrightarrow> accounted (qs_runs s (qr_id r)) (qs_lost s (qr_id r)) r"
    and "\<And>c cl. qs_claims s c = Some cl \<Longrightarrow> \<exists>r. backs (qs_rows s) cl r"
    and "\<And>c d cl cl'. qs_claims s c = Some cl \<Longrightarrow> qs_claims s d = Some cl' \<Longrightarrow> dj_id (cm_job cl) = dj_id (cm_job cl') \<Longrightarrow> c = d"
  shows "queue_inv s"
  using assms unfolding queue_inv_def by blast

lemma queue_invD:
  assumes "queue_inv s"
  shows "distinct (map qr_id (qs_rows s))"
    and "r \<in> set (qs_rows s) \<Longrightarrow> accounted (qs_runs s (qr_id r)) (qs_lost s (qr_id r)) r"
    and "qs_claims s c = Some cl \<Longrightarrow> \<exists>r. backs (qs_rows s) cl r"
    and "qs_claims s c = Some cl \<Longrightarrow> qs_claims s d = Some cl' \<Longrightarrow> dj_id (cm_job cl) = dj_id (cm_job cl') \<Longrightarrow> c = d"
  using assms unfolding queue_inv_def by blast+

lemma accounted_small: "accounted runs lost r \<Longrightarrow> small_counts r"
  and accounted_retry: "accounted runs lost r \<Longrightarrow> qr_status r = Retry \<Longrightarrow> qr_retries r < qr_max_retries r"
  by (simp_all add: accounted_def)

lemma accounted_lost: "accounted runs lost r \<Longrightarrow> accounted (runs + k) (lost + k) r"
  by (auto simp: accounted_def split: queue_job_status.splits)

lemma read_job_job_of: "small_counts r \<Longrightarrow> read_job r = Inr job \<Longrightarrow> job = job_of r"
  by (simp add: read_job_small)

lemma inv_claimed:
  assumes "queue_inv s" and "claim_job queue now (row_locked s) (qs_rows s) = Some r"
    and "read_job r = (Inr job :: (unit, unit) queue_pg_error + _)"
  shows "queue_inv (s\<lparr>qs_claims := (qs_claims s)(c \<mapsto> \<lparr>cm_queue = queue, cm_job = job, cm_expired = deadline_exceeded now r\<rparr>)\<rparr>)"
proof -
  note r = claim_jobD [OF assms(2)] and inv = queue_invD [OF assms(1)]
  have job: "job = job_of r"
    using assms(3) read_job_job_of accounted_small [OF inv(2) [OF r(1)]] by blast
  have "backs (qs_rows s) \<lparr>cm_queue = queue, cm_job = job, cm_expired = deadline_exceeded now r\<rparr> r"
    using r by (auto simp: backs_def job deadline_exceeded_def split: option.splits)
  moreover have "dj_id (cm_job cl) \<noteq> dj_id job" if "qs_claims s d = Some cl" for d cl
    using r(5) that by (auto simp: row_locked_def job)
  ultimately show ?thesis
    using inv by (intro queue_invI) (auto split: if_splits, metis)
qed

lemma backs_kept: "backs rows cl r \<Longrightarrow> (unsettled r \<Longrightarrow> r \<in> set rows \<Longrightarrow> r \<in> set rows') \<Longrightarrow> backs rows' cl r"
  by (simp add: backs_def)

lemma inv_replace:
  assumes "queue_inv s" and "qs_claims s c = Some cl" and "backs (qs_rows s) cl r" and "qr_id r' = qr_id r"
    and "accounted (qs_runs s (qr_id r) + k) (qs_lost s (qr_id r)) r'"
  shows "queue_inv (s\<lparr>qs_rows := replace_row r' (qs_rows s), qs_claims := (qs_claims s)(c := None),
    qs_runs := add_runs (qr_id r) k (qs_runs s)\<rparr>)" (is "queue_inv ?s'")
proof (rule queue_invI)
  note inv = queue_invD [OF assms(1)]
  have r: "r \<in> set (qs_rows s)" "dj_id (cm_job cl) = qr_id r"
    using assms(3) by (auto simp: backs_def simp flip: job_of_id)
  note others = same_key [OF inv(1) _ r(1)]
  have members: "x \<in> set (qs_rows ?s') \<longleftrightarrow> x = r' \<or> x \<in> set (qs_rows s) \<and> x \<noteq> r" for x
    by (auto simp: set_replace_row [OF inv(1) r(1) assms(4)])
  have remaining: "d \<noteq> c" "qs_claims s d = Some cl'" if "qs_claims ?s' d = Some cl'" for d cl'
    using that by (auto split: if_splits)
  show "distinct (map qr_id (qs_rows ?s'))"
    using inv(1) by (simp add: map_id_replace_row)
  fix x assume "x \<in> set (qs_rows ?s')"
  then consider "x = r'" | "x \<in> set (qs_rows s)" "qr_id x \<noteq> qr_id r"
    using members others by blast
  then show "accounted (qs_runs ?s' (qr_id x)) (qs_lost ?s' (qr_id x)) x"
    by cases (use assms(4,5) inv(2) in simp_all)
next
  note inv = queue_invD [OF assms(1)]
  have r: "r \<in> set (qs_rows s)" "dj_id (cm_job cl) = qr_id r"
    using assms(3) by (auto simp: backs_def simp flip: job_of_id)
  have remaining: "d \<noteq> c" "qs_claims s d = Some cl'" if "qs_claims ?s' d = Some cl'" for d cl'
    using that by (auto split: if_splits)
  fix d cl' assume "qs_claims ?s' d = Some cl'"
  then obtain y where y: "backs (qs_rows s) cl' y" and "dj_id (cm_job cl') \<noteq> qr_id r"
    using remaining inv(3) inv(4) [OF assms(2)] r(2) by metis
  then have "y \<noteq> r"
    by (auto simp: backs_def simp flip: job_of_id)
  then show "\<exists>x. backs (qs_rows ?s') cl' x"
    using y by (auto simp: backs_def set_replace_row [OF inv(1) r(1) assms(4)])
next
  fix d e cl' cl'' assume "qs_claims ?s' d = Some cl'" "qs_claims ?s' e = Some cl''" "dj_id (cm_job cl') = dj_id (cm_job cl'')"
  then show "d = e"
    using queue_invD(4) [OF assms(1)] by (auto split: if_splits)
qed

lemma inv_settled:
  assumes "queue_inv s" and "qs_claims s c = Some cl" and "handle_job h (cm_expired cl) (cm_job cl) = (job, error)"
    and "settle_job (cm_queue cl) clock now job error (qs_rows s) = Some (Inr (outcome, rows))"
  shows "queue_inv (s\<lparr>qs_rows := rows, qs_claims := (qs_claims s)(c := None),
    qs_runs := add_runs (dj_id (cm_job cl)) (if cm_expired cl then 0 else 1) (qs_runs s)\<rparr>)"
proof -
  note inv = queue_invD [OF assms(1)]
  obtain r where b: "backs (qs_rows s) cl r"
    using inv(3) [OF assms(2)] by blast
  then have r: "r \<in> set (qs_rows s)" "unsettled r" "qr_queue r = cm_queue cl" "job_of r = cm_job cl"
    "cm_expired cl \<Longrightarrow> qr_deadline r \<noteq> None"
    by (auto simp: backs_def)
  note counts = accounted_small [OF inv(2) [OF r(1)]] accounted_retry [OF inv(2) [OF r(1)]]
  have handled: "handle_job h (cm_expired cl) (job_of r) = (job, error)"
    using assms(3) r(4) by simp
  from settle_job_exact [OF inv(1) r(1-3) counts handled, of clock now] assms(4)
  obtain r' where r': "rows = replace_row r' (qs_rows s)" "settled_as (cm_expired cl) error r r'"
    by auto
  have "qr_id r' = qr_id r" "dj_id (cm_job cl) = qr_id r"
    using r'(2) r(4) [symmetric] by (simp_all add: settled_as_def)
  with inv_replace [OF assms(1,2) b this(1)
      accounted_settled [OF inv(2) [OF r(1)] r(2) r'(2) handled_counts(4) [OF counts(1) handled counts(2)] r(5)]]
  show ?thesis
    by (simp add: r'(1))
qed

lemma queue_step_inv: "queue_step s s' \<Longrightarrow> queue_inv s \<Longrightarrow> queue_inv s'"
proof (induction rule: queue_step.induct)
  case (enqueued r s)
  have "accounted 0 0 r"
    using enqueued by (simp add: accounted_def)
  moreover have "qr_id x \<noteq> qr_id r" if "x \<in> set (qs_rows s)" for x
    using that enqueued(1) by (metis image_eqI)
  ultimately show ?case
    using enqueued(1) queue_invD [OF enqueued.prems] backs_kept [of "qs_rows s" _ _ "qs_rows s @ [r]"]
    by (intro queue_invI) (auto, blast)
next
  case (claimed s c queue now r job)
  then show ?case
    by (intro inv_claimed)
next
  case (settled s c cl h job error clock now outcome rows)
  then show ?case
    by (intro inv_settled)
next
  case (lost s c cl k)
  show ?case
    using queue_invD [OF lost.prems] accounted_lost [OF queue_invD(2) [OF lost.prems], of _ k]
    by (intro queue_invI) (auto split: if_splits, metis)
next
  case (collected s keep)
  show ?case
    using queue_invD [OF collected.prems] collected(1) backs_kept [of "qs_rows s" _ _ "filter keep (qs_rows s)"]
    by (intro queue_invI) (auto simp: distinct_map_filter, blast)
next
  case (reordered rows s)
  then have "distinct (map qr_id rows)" "set rows = set (qs_rows s)"
    using queue_invD(1) [OF reordered.prems] mset_eq_imp_distinct_iff [of "map qr_id rows" "map qr_id (qs_rows s)"] mset_eq_setD
    by auto
  then show ?case
    using queue_invD [OF reordered.prems] by (intro queue_invI) (auto simp: backs_def)
qed

lemma queue_steps_inv: "queue_steps s s' \<Longrightarrow> queue_inv s \<Longrightarrow> queue_inv s'"
  by (induction rule: rtranclp_induct) (auto intro: queue_step_inv)

lemma queue_inv_init: "queue_inv queue_init"
  by (rule queue_invI) (simp_all add: queue_init_def)

text \<open>
  (C6) The account of the runs. In every reachable state of any number of consumers, a job is in
  the hands of one consumer at most, and only until it is settled. Its handler ran at most once
  more than it may be retried, apart from the runs whose transaction was lost. Without a deadline
  the account is exact: a failed job used up all its retries, and a job that succeeded or waits
  for another try ran once more than it records retries.
\<close>

theorem queue_runs_accounted:
  assumes "queue_steps queue_init s" and "r \<in> set (qs_rows s)"
  shows "int (qs_runs s (qr_id r)) \<le> int (qs_lost s (qr_id r)) + qr_max_retries r + 1
    \<and> (qr_deadline r = None \<longrightarrow> int (qs_runs s (qr_id r)) = int (qs_lost s (qr_id r)) + (case qr_status r of
         Pending \<Rightarrow> 0 | Failed \<Rightarrow> qr_max_retries r + 1 | _ \<Rightarrow> qr_retries r + 1))
    \<and> (\<forall>c d cl cl'. qs_claims s c = Some cl \<longrightarrow> qs_claims s d = Some cl' \<longrightarrow>
         dj_id (cm_job cl) = qr_id r \<longrightarrow> dj_id (cm_job cl') = qr_id r \<longrightarrow> c = d \<and> unsettled r)"
proof (intro conjI)
  note inv = queue_invD [OF queue_steps_inv [OF assms(1) queue_inv_init]]
  note account = inv(2) [OF assms(2)]
  show "int (qs_runs s (qr_id r)) \<le> int (qs_lost s (qr_id r)) + qr_max_retries r + 1"
    using account by (cases "qr_status r") (auto simp: accounted_def small_counts_def)
  show "qr_deadline r = None \<longrightarrow> int (qs_runs s (qr_id r)) = int (qs_lost s (qr_id r)) + (case qr_status r of
         Pending \<Rightarrow> 0 | Failed \<Rightarrow> qr_max_retries r + 1 | _ \<Rightarrow> qr_retries r + 1)"
    using account by (cases "qr_status r") (auto simp: accounted_def)
  have "unsettled r" if cl: "qs_claims s c = Some cl" "dj_id (cm_job cl) = qr_id r" for c cl
  proof -
    obtain x where "x \<in> set (qs_rows s)" "unsettled x" "qr_id x = qr_id r"
      using inv(3) [OF cl(1)] cl(2) by (auto simp: backs_def simp flip: job_of_id)
    then show ?thesis
      using same_key [OF inv(1) _ assms(2)] by blast
  qed
  then show "\<forall>c d cl cl'. qs_claims s c = Some cl \<longrightarrow> qs_claims s d = Some cl' \<longrightarrow>
         dj_id (cm_job cl) = qr_id r \<longrightarrow> dj_id (cm_job cl') = qr_id r \<longrightarrow> c = d \<and> unsettled r"
    using inv(4) by metis
qed

section \<open>An attempt is a path\<close>

lemma lost_step:
  "qs_claims s c = Some cl \<Longrightarrow> \<exists>s'. queue_step s s' \<and> qs_rows s' = qs_rows s \<and> qs_claims s' c = None
     \<and> qs_runs s' = add_runs (dj_id (cm_job cl)) (if cm_expired cl then 0 else 1) (qs_runs s)"
  using queue_step.lost [of s c cl "if cm_expired cl then 0 else 1"] by fastforce

lemma settled_step:
  assumes "qs_claims s c = Some cl" and "handle_job h (cm_expired cl) (cm_job cl) = (job, error)"
    and "settle_job (cm_queue cl) clock now job error (qs_rows s) = Some (Inr (outcome, rows))"
  shows "\<exists>s'. queue_step s s' \<and> qs_rows s' = rows \<and> qs_claims s' c = None
    \<and> qs_runs s' = add_runs (dj_id (cm_job cl)) (if cm_expired cl then 0 else 1) (qs_runs s)"
  using queue_step.settled [OF assms] by fastforce

lemma add_no_runs [simp]: "add_runs i 0 runs = runs"
  by (simp add: add_runs_def fun_eq_iff)

text \<open>The end of an attempt that has claimed a row.\<close>

lemma consume_one_claimed:
  assumes "claim_job queue (at_claimed_at at) (at_locked at) rows = Some r" and "small_counts r"
    and "at_begin_error at = None" and "at_fetch_error at = None"
    and "handle_job (at_handler at) (deadline_exceeded (at_claimed_at at) r) (job_of r) = (job, error)"
  shows "(consume_one queue at rows :: (('d, 'j) queue_pg_error + consume_outcome) returned \<times> _) =
    (let run = \<not> deadline_exceeded (at_claimed_at at) r; rows = at_meanwhile at rows
     in case settle_job queue (at_clock at) (at_settled_at at) job error rows of
          None \<Rightarrow> (Panicked, run, rows)
        | Some settled \<Rightarrow> (case at_settle_error at of
            Some e \<Rightarrow> (Returned (Inl (Database e)), run, rows)
          | None \<Rightarrow> (case settled of
              Inl exn \<Rightarrow> (Returned (Inl (Database (at_raise at exn))), run, rows)
            | Inr (outcome, rows') \<Rightarrow>
                (Returned (commit_result (at_commit_error at) outcome), run, commit_rows (at_commit_error at) rows rows'))))"
  by (simp add: consume_one_def assms read_job_small [OF assms(2)] Let_def)

lemma claimed_attempt_ends:
  fixes result :: "(('d, 'j) queue_pg_error + consume_outcome) returned"
  assumes "claim_job queue (at_claimed_at at) (at_locked at) rows = Some r" and "small_counts r"
    and "at_begin_error at = None" and "at_fetch_error at = None"
    and "qs_claims s c = Some \<lparr>cm_queue = queue, cm_job = job_of r, cm_expired = deadline_exceeded (at_claimed_at at) r\<rparr>"
    and "qs_rows s = at_meanwhile at rows" and "consume_one queue at rows = (result, executed, rows')"
  shows "\<exists>s'. queue_step s s' \<and> qs_rows s' = rows' \<and> qs_claims s' c = None
    \<and> qs_runs s' = add_runs (qr_id r) (if executed then 1 else 0) (qs_runs s)"
proof -
  let ?expired = "deadline_exceeded (at_claimed_at at) r"
  obtain job error where handled: "handle_job (at_handler at) ?expired (job_of r) = (job, error)"
    by fastforce
  note one = consume_one_claimed [where 'j = 'j, OF assms(1-4) handled, unfolded assms(7) Let_def]
  have run: "executed = (\<not> ?expired)"
    using one by (auto split: option.splits sum.splits)
  consider (kept) "rows' = at_meanwhile at rows"
    | (settled) outcome where "settle_job queue (at_clock at) (at_settled_at at) job error (at_meanwhile at rows) = Some (Inr (outcome, rows'))"
    using one by (auto simp: commit_rows_def split: option.splits sum.splits if_splits)
  then show ?thesis
  proof cases
    case kept
    then show ?thesis
      using lost_step [OF assms(5)] assms(6) by (auto simp: run)
  next
    case settled
    then show ?thesis
      using settled_step [OF assms(5), of "at_handler at" job error] handled assms(6) by (auto simp: run)
  qed
qed


section \<open>Jobs are settled\<close>

text \<open>The runs that are left to a job.\<close>

definition attempts_left :: "queue_row \<Rightarrow> nat" where
  "attempts_left r =
     (case qr_status r of
        Pending \<Rightarrow> nat (qr_max_retries r) + 1
      | Retry \<Rightarrow> nat (qr_max_retries r - qr_retries r)
      | _ \<Rightarrow> 0)"

definition undisturbed :: "'d attempt \<Rightarrow> bool" where
  "undisturbed at \<longleftrightarrow>
     at_begin_error at = None \<and> at_fetch_error at = None \<and> at_settle_error at = None \<and> at_commit_error at = None"

text \<open>An attempt the database does not disturb settles the row it claimed.\<close>

lemma undisturbed_settles:
  assumes "queue_steps queue_init s" and "claim_job queue (at_claimed_at at) (at_locked at) (qs_rows s) = Some r"
    and "undisturbed at" and "qr_max_retries r \<le> 2 ^ 16"
    and "r \<in> set (at_meanwhile at (qs_rows s))" and "distinct (map qr_id (at_meanwhile at (qs_rows s)))"
  shows "\<exists>outcome job error r'. handle_job (at_handler at) (deadline_exceeded (at_claimed_at at) r) (job_of r) = (job, error)
    \<and> settled_as (deadline_exceeded (at_claimed_at at) r) error r r'
    \<and> consume_one queue at (qs_rows s) = (Returned (Inr outcome) :: (('d, 'j) queue_pg_error + _) returned,
        \<not> deadline_exceeded (at_claimed_at at) r, replace_row r' (at_meanwhile at (qs_rows s)))"
proof -
  let ?expired = "deadline_exceeded (at_claimed_at at) r"
  note r = claim_jobD [OF assms(2)]
  note account = queue_invD(2) [OF queue_steps_inv [OF assms(1) queue_inv_init] r(1)]
  note counts = accounted_small [OF account] accounted_retry [OF account]
  obtain job error where handled: "handle_job (at_handler at) ?expired (job_of r) = (job, error)"
    by fastforce
  from settle_job_exact [OF assms(6,5) r(3,2) counts handled, of "at_clock at" "at_settled_at at"] assms(4)
  obtain outcome r' where settled: "settled_as ?expired error r r'"
    "settle_job queue (at_clock at) (at_settled_at at) job error (at_meanwhile at (qs_rows s))
       = Some (Inr (outcome, replace_row r' (at_meanwhile at (qs_rows s))))"
    by (auto split: option.splits)
  have "at_begin_error at = None" "at_fetch_error at = None"
    using assms(3) by (simp_all add: undisturbed_def)
  from consume_one_claimed [where 'j = 'j, OF assms(2) counts(1) this handled] settled
  show ?thesis
    using handled assms(3) by (auto simp: undisturbed_def commit_result_def commit_rows_def)
qed


text \<open>
  A job whose deadline has passed is never given up while it has retries: the attempt reports the
  missed deadline, but schedules the job again with the same number of retries.
\<close>

theorem expired_job_rescheduled:
  assumes "queue_steps queue_init s" and "claim_job queue (at_claimed_at at) (at_locked at) (qs_rows s) = Some r"
    and "undisturbed at" and "deadline_exceeded (at_claimed_at at) r" and "qr_retries r < qr_max_retries r" and "qr_max_retries r \<le> 2 ^ 16"
    and "r \<in> set (at_meanwhile at (qs_rows s))" and "distinct (map qr_id (at_meanwhile at (qs_rows s)))"
  shows "\<exists>outcome r'.
    consume_one queue at (qs_rows s) = (Returned (Inr outcome) :: (('d, 'j) queue_pg_error + _) returned, False,
      replace_row r' (at_meanwhile at (qs_rows s)))
    \<and> qr_id r' = qr_id r \<and> qr_status r' = Retry \<and> qr_retries r' = qr_retries r \<and> qr_deadline r' = qr_deadline r"
proof -
  from undisturbed_settles [where 'j = 'j, OF assms(1-3,6-8)] obtain outcome job error r' where
    handled: "handle_job (at_handler at) True (job_of r) = (job, error)" and settled: "settled_as True error r r'"
    and one: "consume_one queue at (qs_rows s) = (Returned (Inr outcome) :: (('d, 'j) queue_pg_error + _) returned, False,
        replace_row r' (at_meanwhile at (qs_rows s)))"
    using assms(4) by auto
  have "error \<noteq> None"
    using handled by (auto simp: handle_job_def)
  then show ?thesis
    using one settled assms(5) by (auto simp: settled_as_def settled_retries_def)
qed

section \<open>A job that fails once\<close>

definition example_row :: queue_row where
  "example_row =
     \<lparr>qr_id = lit ''a'', qr_fingerprint = [], qr_queue = PROCESS_TORRENT, qr_status = Pending, qr_payload = [], qr_retries = 0,
      qr_max_retries = 1, qr_priority = 0, qr_run_after = 0, qr_ran_at = None, qr_error = None, qr_deadline = None\<rparr>"

definition example_queue :: queue_state where
  "example_queue = queue_init\<lparr>qs_rows := [example_row]\<rparr>"

definition example_attempt :: "unit attempt" where
  "example_attempt =
     \<lparr>at_begin_error = None, at_fetch_error = None, at_locked = \<lambda>_. False, at_claimed_at = 0, at_handler = \<lambda>_. HandlerErr [],
      at_meanwhile = id, at_clock = 0, at_settled_at = 0, at_settle_error = None, at_raise = \<lambda>_. (), at_commit_error = None\<rparr>"

lemma small_example: "small_counts example_row"
  by (simp add: small_counts_def example_row_def)

lemma example_claimed: "claim_job PROCESS_TORRENT 0 (\<lambda>_. False) [example_row] = Some example_row"
  by (simp add: claim_job_def example_row_def unsettled_def)

lemma example_queue_reached: "queue_steps queue_init example_queue"
proof -
  have "queue_step queue_init example_queue"
    using queue_step.enqueued [of example_row queue_init] small_example
    by (simp add: example_queue_def queue_init_def example_row_def fun_upd_idem)
  then show ?thesis
    by (rule r_into_rtranclp)
qed

lemma example_unlocked: "row_locked example_queue = (\<lambda>_. False)"
  by (simp add: row_locked_def example_queue_def queue_init_def fun_eq_iff)

theorem queue_runs_accounted_witness:
  "\<exists>s. queue_steps queue_init s \<and> qs_claims s 3 \<noteq> None \<and> qs_rows s = [example_row]
     \<and> int (qs_runs s (qr_id example_row)) = int (qs_lost s (qr_id example_row))"
proof -
  let ?s = "example_queue\<lparr>qs_claims := (qs_claims example_queue)(3 \<mapsto>
    \<lparr>cm_queue = PROCESS_TORRENT, cm_job = job_of example_row, cm_expired = deadline_exceeded 0 example_row\<rparr>)\<rparr>"
  have "queue_step example_queue ?s"
    using example_claimed read_job_small [OF small_example]
    by (intro queue_step.claimed) (simp_all add: example_unlocked, simp_all add: example_queue_def queue_init_def)
  then have steps: "queue_steps queue_init ?s"
    using example_queue_reached by (rule rtranclp.rtrancl_into_rtrancl [rotated])
  have "qs_rows ?s = [example_row]"
    by (simp add: example_queue_def)
  then show ?thesis
    using queue_runs_accounted [OF steps, of example_row] steps
    by (intro exI [of _ ?s]) (auto simp: example_row_def)
qed



end
