(* ===== verification/Spec2Isabelle.thy ===== *)
theory Spec2Isabelle
  imports Transaction_Safety Ping_Find_Node Blocking Deduper Textmatch Peer_Wire Triage Exchange
    Search Batch_Chain Queue_Runs
begin

text \<open>
  A verification of the Rust services of bitmagnet (\<open>src/bitmagnet-rs/crates\<close>). Bitmagnet finds
  torrents in the distributed hash table of BitTorrent, fetches their metadata from peers, stores
  and classifies them, and makes them searchable. The development models four parts of this
  pipeline: the DHT node and its client, the crawler up to the verified metadata, the full-text
  search, and the job queue.

  \<^bold>\<open>Conventions.\<close> Definitions carry the names of the code. Structs are records, enumerations
  are datatypes, machine integers are words where a wrap or a conversion can be seen. A
  \<open>HashMap\<close> is an association list without order, a \<open>BTreeMap\<close> a sorted one. An error is the left
  side of a sum, a panic is \<open>None\<close>. A method on \<open>&mut self\<close> returns the new state. An
  operation under a lock is one atomic step; histories of such steps are lists of commands or
  inductive relations, which cover every interleaving of the tasks that share the state. External
  code (the channels and timers of tokio, sockets, PostgreSQL, the bencode, hash and JSON crates,
  sources of randomness) is an argument of the definitions that use it, and what the theorems
  rely on is a named predicate over the argument, with an instance.

  \<^bold>\<open>Foundations.\<close>
  \<^item> \<open>Prelude\<close>: integers, byte strings, hash maps, results, texts.
  \<^item> \<open>Ordered_Map\<close>: sorted maps. \<open>Counters\<close>: saturating counters.
  \<^item> \<open>Mpsc\<close>: the contract of a bounded channel, as a refinement of a queue.
  \<^item> \<open>Utf8\<close>: the validity of byte strings. \<open>Net_Addr\<close>: socket addresses and their texts.

  \<^bold>\<open>The DHT node\<close> (\<open>bitmagnet-dht\<close>).
  \<^item> \<open>Compact\<close> (\<open>compact.rs\<close>), \<open>Scrape_Bloom\<close> (\<open>scrape.rs\<close>), \<open>Bencode\<close>, \<open>Krpc\<close>
  (\<open>krpc.rs\<close>): identifiers, compact lists and KRPC messages; the codecs are inverse to each other
  and every error is characterised.
  \<^item> \<open>Inbound\<close>, \<open>Inbound_Safety\<close>, \<open>Inbound_Reads\<close>, \<open>Inbound_Roundtrip\<close> (\<open>inbound.rs\<close>): the
  bounded decoder of datagrams. It always returns, within its limits, and reads back what the
  encoder writes. Its loops end because a round that does not advance the cursor is a
  fault of the model, and no datagram is shown to reach one; its recursion is bounded by the
  nesting depth.
  \<^item> \<open>Id_Bits\<close>, \<open>Routing_Tree\<close>, \<open>Node_Table\<close>, \<open>KTable_Core\<close>, \<open>KTable\<close> (\<open>routing_tree.rs\<close>,
  \<open>node_table.rs\<close>, \<open>ktable_core.rs\<close>, \<open>ktable.rs\<close>): the routing table from the trie to the handles
  shared between tasks. Admission and the choice of the closest nodes are exact, and no history of
  commands panics or breaks the agreement of the maps.
  \<^item> \<open>Responder\<close> (\<open>announce_token.rs\<close>, \<open>dht_responder.rs\<close>), \<open>Discovery\<close> (\<open>dht_discovery.rs\<close>),
  \<open>Driver\<close> (\<open>reply.rs\<close>, \<open>dht_dispatch.rs\<close>, \<open>receive.rs\<close>, \<open>dht_send.rs\<close>, \<open>dht_driver.rs\<close>) and
  \<open>Ping_Find_Node\<close> (the two-method node, \<open>ping_find_node*.rs\<close>): answering a datagram. One step
  sends one reply at most, to the source of the query.
  \<^item> \<open>Transaction\<close>, \<open>Transaction_Safety\<close> (\<open>transaction.rs\<close>, \<open>query_send.rs\<close>), \<open>Client\<close>
  (\<open>dht_client.rs\<close>): the queries of the node itself. A response reaches the query it belongs to,
  once, and only from the queried address.
  \<^item> \<open>Exchange\<close> composes all of it: a client of one process and a node of another agree on what
  is asked and answered.

  \<^bold>\<open>The crawler\<close> (\<open>bitmagnet-dht-crawler\<close>, \<open>bitmagnet-bloom\<close>, \<open>bitmagnet-blocking\<close>,
  \<open>bitmagnet-metainfo\<close>).
  \<^item> \<open>Stable_Bloom\<close>, \<open>Deduper\<close>, \<open>Info_Hash\<close>: the stable Bloom filter refines an array of
  counters, with its codec and its retention.
  \<^item> \<open>Blocking\<close> (\<open>lib.rs\<close>, \<open>pg.rs\<close>): the manager loses no hash, and the commit is atomic.
  \<^item> \<open>Triage\<close> (\<open>info_hash_triage.rs\<close>, \<open>blocking_manager_filter.rs\<close>): the worker terminates and
  accounts for every request.
  \<^item> \<open>Metainfo\<close>, \<open>Peer_Wire\<close> (\<open>peer_wire_meta_info_requester.rs\<close>): what is accepted from a peer
  hashes to the requested identifier, and a peer that serves every piece is heard.

  \<^bold>\<open>Search\<close> (\<open>bitmagnet-fts\<close>, \<open>bitmagnet-textmatch\<close>).
  \<^item> \<open>Fts_Tables\<close>, \<open>Fts_Tokenizer\<close>, \<open>Tsvector\<close>, \<open>Tsquery\<close>: the tokenizer over its tables, the
  search vectors and the translation of queries. Every query is well formed, and the budget of a
  vector bounds the text that is sent. The loops recurse over the text or the tokens.
  \<^item> \<open>Search\<close>: the meaning of a query on a vector; what was indexed is found.
  \<^item> \<open>Textmatch\<close>: the edit distance and the choice of the best title.

  \<^bold>\<open>The job queue\<close> (\<open>bitmagnet-queue\<close>).
  \<^item> \<open>Queue_Job\<close> (\<open>job.rs\<close>, \<open>message.rs\<close>, \<open>backoff.rs\<close>): constructors and the delay of a retry.
  \<^item> \<open>Batch\<close>, \<open>Batch_Chain\<close> (\<open>batch.rs\<close>, \<open>batch_pg.rs\<close>, \<open>batch_handler.rs\<close>,
  \<open>producer_pg.rs\<close>): reprocessing in pages. The loop of a handler ends because a page is empty or
  the chunk grows; a chain of continuations ends after one step more than there are torrents,
  which is the fuel of \<open>drain\<close>, and covers all of them once.
  \<^item> \<open>Queue_Consumer\<close>, \<open>Queue_Runs\<close> (\<open>pg.rs\<close> and the SQL of migrations 12, 29 and 30): one
  attempt at a job, and any number of consumers as a step relation. Runs are accounted for, and
  jobs are settled.

  \<^bold>\<open>Bounds.\<close> Texts of vectors are bounded for positions of seven digits, and positions are
  integers as long as they fit 32 bits. The distance of texts is exact for texts whose lengths fit
  its 16-bit cells. A batch size fits a signed 64-bit integer, as its query demands. A delay
  exists below 65,536 retries.

  \<^bold>\<open>Not modelled.\<close> The loops of tokio tasks around the modelled steps (supervisors, timed
  producers, workers, rate limits, channels) and the runtime that starts them; the floating-point
  estimates of the scrape filter; the transliteration sections of the search tables, over which
  the theorems are general, and the normalisation of titles; the mirror of processed jobs, garbage
  collection and status of the queue; the persistence of torrents; the classifier, the parsing of
  release names and the processor, which interpret expressions of external engines; the search
  sidecar, the serving tiers, GraphQL and Torznab, which assemble SQL, requests and responses; the
  Go implementation, which the crates port; the web interfaces, benchmarks and deployment. Lock
  poisoning, \<open>Debug\<close> and \<open>Display\<close> texts of errors and serde derives are left out throughout.
\<close>

end
